(* ===== verification/Synqc_Prelude.thy ===== *)
theory Synqc_Prelude
  imports Complex_Main "HOL-Library.AList"
begin

text \<open>
  Shared vocabulary of the development: what the Python sources use of their language and
  standard library, and the generic facts about it.

  Conventions. A Python \<open>dict\<close> is an association list with distinct keys in insertion
  order: \<open>d[k] = v\<close> overwrites in place or appends, \<open>d.pop(k, None)\<close> removes. A Python
  \<open>int\<close> is \<open>int\<close>. A Python \<open>float\<close> is a \<open>real\<close>: rounding, infinities and NaN are not
  modelled. A \<open>str\<close> is a list of characters (code points up to 255).
\<close>

named_theorems dict_simps \<open>reading a dictionary after an update\<close>
named_theorems wf_intros \<open>operations keep the keys of a dictionary distinct\<close>

section \<open>Dictionaries\<close>

type_synonym ('k, 'v) dict = "('k \<times> 'v) list"

abbreviation dict_get :: "('k, 'v) dict \<Rightarrow> 'k \<Rightarrow> 'v option" where
  "dict_get d k \<equiv> map_of d k"

abbreviation dict_set :: "'k \<Rightarrow> 'v \<Rightarrow> ('k, 'v) dict \<Rightarrow> ('k, 'v) dict" where
  "dict_set k v d \<equiv> AList.update k v d"

abbreviation dict_pop :: "'k \<Rightarrow> ('k, 'v) dict \<Rightarrow> ('k, 'v) dict" where
  "dict_pop k d \<equiv> AList.delete k d"

definition dict_get_or :: "'v \<Rightarrow> ('k, 'v) dict \<Rightarrow> 'k \<Rightarrow> 'v" where
  "dict_get_or v d k = (case dict_get d k of None \<Rightarrow> v | Some w \<Rightarrow> w)"

definition dict_setdefault :: "'k \<Rightarrow> 'v \<Rightarrow> ('k, 'v) dict \<Rightarrow> ('k, 'v) dict" where
  "dict_setdefault k v d = (case dict_get d k of None \<Rightarrow> dict_set k v d | Some _ \<Rightarrow> d)"

abbreviation dict_keys :: "('k, 'v) dict \<Rightarrow> 'k list" where
  "dict_keys d \<equiv> map fst d"

abbreviation dict_values :: "('k, 'v) dict \<Rightarrow> 'v list" where
  "dict_values d \<equiv> map snd d"

definition dict_wf :: "('k, 'v) dict \<Rightarrow> bool" where
  "dict_wf d = distinct (map fst d)"

fun dict_pop_all :: "'k list \<Rightarrow> ('k, 'v) dict \<Rightarrow> ('k, 'v) dict" where
  "dict_pop_all [] d = d"
| "dict_pop_all (k # ks) d = dict_pop_all ks (dict_pop k d)"

fun dict_update_all :: "('k, 'v) dict \<Rightarrow> ('k, 'v) dict \<Rightarrow> ('k, 'v) dict" where
  "dict_update_all [] d = d"
| "dict_update_all ((k, v) # e) d = dict_update_all e (dict_set k v d)"

lemma get_set [dict_simps]: "dict_get (dict_set k v d) k' = (if k' = k then Some v else dict_get d k')"
  by (simp add: update_conv)

lemma get_pop [dict_simps]: "dict_get (dict_pop k d) k' = (if k' = k then None else dict_get d k')"
  by (induction d) auto

lemma get_setdefault [dict_simps]:
  "dict_get (dict_setdefault k v d) k' =
     (if k' = k then Some (dict_get_or v d k) else dict_get d k')"
  by (simp add: dict_setdefault_def dict_get_or_def get_set split: option.splits)

lemma get_pop_all [dict_simps]:
  "dict_get (dict_pop_all ks d) k = (if k \<in> set ks then None else dict_get d k)"
  by (induction ks arbitrary: d) (simp_all add: get_pop)

lemma get_update_all_same [dict_simps]:
  "k \<notin> set (dict_keys e) \<Longrightarrow> dict_get (dict_update_all e d) k = dict_get d k"
  by (induction e arbitrary: d) (auto simp: get_set)

lemma wf_empty [wf_intros, simp]: "dict_wf []"
  by (simp add: dict_wf_def)

lemma wf_set [wf_intros]: "dict_wf d \<Longrightarrow> dict_wf (dict_set k v d)"
  by (simp add: dict_wf_def distinct_update)

lemma wf_pop [wf_intros]: "dict_wf d \<Longrightarrow> dict_wf (dict_pop k d)"
  by (simp add: dict_wf_def distinct_delete)

lemma wf_setdefault [wf_intros]: "dict_wf d \<Longrightarrow> dict_wf (dict_setdefault k v d)"
  by (simp add: dict_setdefault_def wf_set split: option.split)

lemma wf_pop_all [wf_intros]: "dict_wf d \<Longrightarrow> dict_wf (dict_pop_all ks d)"
  by (induction ks arbitrary: d) (auto intro: wf_pop)

lemma wf_in_get: "dict_wf d \<Longrightarrow> (k, v) \<in> set d \<longleftrightarrow> dict_get d k = Some v"
  by (simp add: dict_wf_def)

lemma keys_set: "set (dict_keys (dict_set k v d)) = insert k (set (dict_keys d))"
  by (simp add: dom_update)

lemma keys_set_list:
  "dict_keys (dict_set k v d) = (if k \<in> set (dict_keys d) then dict_keys d else dict_keys d @ [k])"
  by (rule update_keys)

lemma length_set:
  "length (dict_set k v d) = (if k \<in> set (dict_keys d) then length d else Suc (length d))"
  by (induction d) auto

lemma set_fresh: "k \<notin> set (dict_keys d) \<Longrightarrow> dict_set k v d = d @ [(k, v)]"
  by (induction d) auto

lemma pop_conv_filter: "dict_pop k d = filter (\<lambda>(k', _). k \<noteq> k') d"
  by (induction d) auto

lemma length_pop:
  assumes "dict_wf d" and "k \<in> set (dict_keys d)"
  shows "Suc (length (dict_pop k d)) = length d"
  using assms
proof (induction d)
  case (Cons p d)
  show ?case
  proof (cases "fst p = k")
    case True
    with Cons.prems have "k \<notin> set (dict_keys d)" by (auto simp: dict_wf_def)
    then have "dict_pop k d = d" by (simp add: delete_idem)
    with True show ?thesis by simp
  next
    case False
    with Cons show ?thesis by (auto simp: dict_wf_def)
  qed
qed simp

text \<open>Removing every key whose value fails a test, as the time-to-live stores do.\<close>

lemma get_pop_where:
  assumes "dict_wf d"
  shows "dict_get (dict_pop_all (map fst (filter (\<lambda>p. \<not> P (snd p)) d)) d) k =
    (case dict_get d k of None \<Rightarrow> None | Some v \<Rightarrow> if P v then Some v else None)"
proof -
  have "k \<in> set (map fst (filter (\<lambda>p. \<not> P (snd p)) d)) \<longleftrightarrow> (\<exists>v. dict_get d k = Some v \<and> \<not> P v)"
    using wf_in_get [OF assms] by (auto simp: image_iff)
  then show ?thesis by (auto simp: get_pop_all split: option.splits)
qed

lemma set_values_set: "v' \<in> set (dict_values (dict_set k v d)) \<Longrightarrow> v' = v \<or> v' \<in> set (dict_values d)"
  by (induction d) (auto split: if_splits)

lemma keys_get: "k \<in> set (dict_keys d) \<longleftrightarrow> dict_get d k \<noteq> None"
  by (simp add: map_of_eq_None_iff)

lemma in_keysI: "dict_get d k = Some v \<Longrightarrow> k \<in> set (dict_keys d)"
  by (force dest: map_of_SomeD)

subsection \<open>Sums over the values of a dictionary\<close>

text \<open>
  Many components keep a dictionary of counters. Replacing one value changes the sum by the
  difference at that key; every \<open>d[k] = d.get(k, 0) + 1\<close> adds one.
\<close>

definition dict_sum :: "('v \<Rightarrow> int) \<Rightarrow> ('k, 'v) dict \<Rightarrow> int" where
  "dict_sum f d = sum_list (map (\<lambda>p. f (snd p)) d)"

lemma dict_sum_Nil [simp]: "dict_sum f [] = 0"
  by (simp add: dict_sum_def)

lemma dict_sum_Cons [simp]: "dict_sum f ((k, v) # d) = f v + dict_sum f d"
  by (simp add: dict_sum_def)

lemma dict_sum_set:
  assumes "dict_wf d"
  shows "dict_sum f (dict_set k v d)
    = dict_sum f d + f v - (case dict_get d k of None \<Rightarrow> 0 | Some w \<Rightarrow> f w)"
  using assms
proof (induction d)
  case (Cons p d)
  then show ?case by (cases p) (auto simp: dict_wf_def split: option.splits)
qed simp

lemma dict_sum_nonneg: "(\<And>v. v \<in> set (dict_values d) \<Longrightarrow> 0 \<le> f v) \<Longrightarrow> 0 \<le> dict_sum f d"
  unfolding dict_sum_def by (rule sum_list_nonneg) force

definition bump :: "'k \<Rightarrow> ('k, int) dict \<Rightarrow> ('k, int) dict" where
  "bump k d = dict_set k (dict_get_or 0 d k + 1) d"

lemma bump_get [dict_simps]:
  "dict_get_or 0 (bump k d) k' = dict_get_or 0 d k' + (if k' = k then 1 else 0)"
  by (simp add: bump_def dict_get_or_def get_set)

lemma bump_sum: "dict_wf d \<Longrightarrow> dict_sum id (bump k d) = dict_sum id d + 1"
  by (simp add: bump_def dict_sum_set dict_get_or_def split: option.split)

lemma wf_bump [wf_intros]: "dict_wf d \<Longrightarrow> dict_wf (bump k d)"
  by (simp add: bump_def wf_set)

section \<open>Optional values, truth values and numbers\<close>

text \<open>\<open>a or b\<close> on optional numbers and strings: the second operand when the first is falsy.\<close>

definition or_int :: "int option \<Rightarrow> int \<Rightarrow> int" where
  "or_int a b = (case a of None \<Rightarrow> b | Some x \<Rightarrow> if x = 0 then b else x)"

definition or_str :: "string option \<Rightarrow> string \<Rightarrow> string" where
  "or_str a b = (case a of None \<Rightarrow> b | Some x \<Rightarrow> if x = [] then b else x)"

definition truthy_str :: "string option \<Rightarrow> bool" where
  "truthy_str a = (case a of None \<Rightarrow> False | Some x \<Rightarrow> x \<noteq> [])"

lemma truthy_strE: "truthy_str a \<Longrightarrow> \<exists>x. a = Some x \<and> x \<noteq> []"
  by (auto simp: truthy_str_def split: option.splits)

text \<open>\<open>int(x)\<close> on a float truncates towards zero.\<close>

definition py_int :: "real \<Rightarrow> int" where
  "py_int x = (if x < 0 then \<lceil>x\<rceil> else \<lfloor>x\<rfloor>)"

lemma py_int_nonneg: "0 \<le> x \<Longrightarrow> 0 \<le> py_int x"
  by (simp add: py_int_def)

lemma py_int_mono: "x \<le> y \<Longrightarrow> py_int x \<le> py_int y"
  by (auto simp: py_int_def floor_mono ceiling_mono) (smt (verit) ceiling_le_zero le_floor_iff of_int_0)

lemma py_int_of_int [simp]: "py_int (of_int i) = i"
  by (simp add: py_int_def)

text \<open>\<open>max(lo, min(hi, x))\<close>, the clamp the sources use on KPI values.\<close>

definition clamp :: "real \<Rightarrow> real \<Rightarrow> real \<Rightarrow> real" where
  "clamp lo hi x = max lo (min hi x)"

lemma clamp_bounds: "lo \<le> hi \<Longrightarrow> lo \<le> clamp lo hi x \<and> clamp lo hi x \<le> hi"
  by (auto simp: clamp_def)

lemma clamp_id: "lo \<le> x \<Longrightarrow> x \<le> hi \<Longrightarrow> clamp lo hi x = x"
  by (simp add: clamp_def)

lemma clamp_mono: "x \<le> y \<Longrightarrow> clamp lo hi x \<le> clamp lo hi y"
  by (auto simp: clamp_def)

section \<open>Slices and sorting\<close>

text \<open>\<open>xs[:n]\<close> and \<open>xs[-n:]\<close>, with Python's meaning of negative bounds.\<close>

definition py_take :: "int \<Rightarrow> 'a list \<Rightarrow> 'a list" where
  "py_take n xs = (if 0 \<le> n then take (nat n) xs else take (length xs - nat (- n)) xs)"

definition py_last :: "int \<Rightarrow> 'a list \<Rightarrow> 'a list" where
  "py_last n xs = (if 0 < n then drop (length xs - nat n) xs else drop (nat (- n)) xs)"

lemma length_py_take_le: "0 \<le> n \<Longrightarrow> length (py_take n xs) = min (length xs) (nat n)"
  by (simp add: py_take_def)

lemma length_py_last: "0 < n \<Longrightarrow> length (py_last n xs) = min (length xs) (nat n)"
  by (simp add: py_last_def)

text \<open>
  \<open>sorted(xs, key=f)\<close> is stable; \<open>sorted(xs, key=f, reverse=True)\<close> sorts downwards and is
  stable too (equal elements keep their order).
\<close>

definition py_sorted :: "('a \<Rightarrow> 'b::linorder) \<Rightarrow> 'a list \<Rightarrow> 'a list" where
  "py_sorted f xs = sort_key f xs"

definition py_sorted_rev :: "('a \<Rightarrow> 'b::linorder) \<Rightarrow> 'a list \<Rightarrow> 'a list" where
  "py_sorted_rev f xs = rev (sort_key f (rev xs))"

lemma set_py_sorted [simp]: "set (py_sorted f xs) = set xs"
  by (simp add: py_sorted_def)

lemma length_py_sorted [simp]: "length (py_sorted f xs) = length xs"
  by (simp add: py_sorted_def)

lemma set_py_sorted_rev [simp]: "set (py_sorted_rev f xs) = set xs"
  by (simp add: py_sorted_rev_def)

lemma length_py_sorted_rev [simp]: "length (py_sorted_rev f xs) = length xs"
  by (simp add: py_sorted_rev_def)

lemma py_sorted_hd_least:
  assumes "xs \<noteq> []" and "x \<in> set xs"
  shows "f (hd (py_sorted f xs)) \<le> f x"
proof -
  from assms have "sort_key f xs \<noteq> []" by (metis length_0_conv length_sort)
  then obtain y ys where ys: "sort_key f xs = y # ys" by (cases "sort_key f xs") auto
  have "sorted (map f (y # ys))" using sorted_sort_key [of f xs] ys by simp
  moreover have "x \<in> set (y # ys)" using assms(2) ys by (metis set_sort)
  ultimately show ?thesis using ys by (auto simp: py_sorted_def)
qed

lemma py_sorted_hd_in: "xs \<noteq> [] \<Longrightarrow> hd (py_sorted f xs) \<in> set xs"
  by (metis hd_in_set length_0_conv length_py_sorted set_py_sorted)

lemma sorted_rev_py_sorted_rev: "sorted_wrt (\<lambda>x y. f y \<le> f x) (py_sorted_rev f xs)"
  using sorted_sort_key [of f "rev xs"]
  by (simp add: py_sorted_rev_def sorted_wrt_rev sorted_map)

lemma py_sorted_rev_stable:
  "filter (\<lambda>x. f x = k) (py_sorted_rev f xs) = filter (\<lambda>x. f x = k) xs"
  using sort_key_stable [of f k "rev xs"]
  by (metis (no_types, lifting) py_sorted_rev_def rev_filter rev_rev_ident)

section \<open>Strings\<close>

definition is_space :: "char \<Rightarrow> bool" where
  "is_space c = ((of_char c :: nat) \<in> {9, 10, 11, 12, 13, 28, 29, 30, 31, 32, 133, 160})"

definition py_strip :: "string \<Rightarrow> string" where
  "py_strip s = rev (dropWhile is_space (rev (dropWhile is_space s)))"

definition lower_char :: "char \<Rightarrow> char" where
  "lower_char c = (let n = (of_char c :: nat) in if 65 \<le> n \<and> n \<le> 90 then char_of (n + 32) else c)"

definition py_lower :: "string \<Rightarrow> string" where
  "py_lower s = map lower_char s"

definition py_upper :: "string \<Rightarrow> string" where
  "py_upper s =
     map (\<lambda>c. let n = (of_char c :: nat) in if 97 \<le> n \<and> n \<le> 122 then char_of (n - 32) else c) s"

definition py_startswith :: "string \<Rightarrow> string \<Rightarrow> bool" where
  "py_startswith s p = (take (length p) s = p)"

definition py_removeprefix :: "string \<Rightarrow> string \<Rightarrow> string" where
  "py_removeprefix s p = (if py_startswith s p then drop (length p) s else s)"

fun py_in :: "string \<Rightarrow> string \<Rightarrow> bool" where
  "py_in sub [] = (sub = [])"
| "py_in sub (c # cs) = (take (length sub) (c # cs) = sub \<or> py_in sub cs)"

text \<open>\<open>s.split(c, 1)\<close> for a one-character separator: the part before and, if any, the rest.\<close>

fun py_split1 :: "char \<Rightarrow> string \<Rightarrow> string list" where
  "py_split1 c [] = [[]]"
| "py_split1 c (x # xs) =
     (if x = c then [[], xs]
      else (case py_split1 c xs of [] \<Rightarrow> [[x]] | h # t \<Rightarrow> (x # h) # t))"

text \<open>\<open>s.split(c)\<close>, every occurrence.\<close>

fun py_split :: "char \<Rightarrow> string \<Rightarrow> string list" where
  "py_split c [] = [[]]"
| "py_split c (x # xs) =
     (if x = c then [] # py_split c xs
      else (case py_split c xs of [] \<Rightarrow> [[x]] | h # t \<Rightarrow> (x # h) # t))"

lemma py_split1_absent: "c \<notin> set s \<Longrightarrow> py_split1 c s = [s]"
  by (induction s) auto

lemma py_split1_append: "c \<notin> set a \<Longrightarrow> py_split1 c (a @ c # b) = [a, b]"
  by (induction a) auto

lemma py_split1_nonempty: "py_split1 c s \<noteq> []"
  by (induction s) (auto split: list.splits)

lemma py_startswith_append [simp]: "py_startswith (p @ s) p"
  by (simp add: py_startswith_def)

lemma py_removeprefix_append [simp]: "py_removeprefix (p @ s) p = s"
  by (simp add: py_removeprefix_def)

subsection \<open>Decimal numerals: \<open>str(i)\<close> and \<open>int(s)\<close>\<close>

definition digit_char :: "nat \<Rightarrow> char" where
  "digit_char d = char_of (48 + d)"

definition is_digit :: "char \<Rightarrow> bool" where
  "is_digit c = (48 \<le> (of_char c :: nat) \<and> (of_char c :: nat) \<le> 57)"

definition digit_val :: "char \<Rightarrow> nat" where
  "digit_val c = of_char c - 48"

fun nat_dec :: "nat \<Rightarrow> string" where
  "nat_dec n = (if n < 10 then [digit_char n] else nat_dec (n div 10) @ [digit_char (n mod 10)])"

declare nat_dec.simps [simp del]

definition py_str_int :: "int \<Rightarrow> string" where
  "py_str_int i = (if i < 0 then CHR ''-'' # nat_dec (nat (- i)) else nat_dec (nat i))"

text \<open>
  \<open>int(s)\<close>: surrounding whitespace, an optional sign, digits with single underscores between
  them; anything else raises \<open>ValueError\<close> (\<open>None\<close>).
\<close>

fun parse_digits :: "nat \<Rightarrow> bool \<Rightarrow> string \<Rightarrow> nat option" where
  "parse_digits acc prev [] = (if prev then Some acc else None)"
| "parse_digits acc prev (c # cs) =
     (if is_digit c then parse_digits (10 * acc + digit_val c) True cs
      else if c = CHR ''_'' \<and> prev then parse_digits acc False cs
      else None)"

definition py_int_of_str :: "string \<Rightarrow> int option" where
  "py_int_of_str s =
     (case py_strip s of
        [] \<Rightarrow> None
      | c # cs \<Rightarrow>
          if c = CHR ''-'' then map_option (\<lambda>n. - int n) (parse_digits 0 False cs)
          else if c = CHR ''+'' then map_option int (parse_digits 0 False cs)
          else map_option int (parse_digits 0 False (c # cs)))"

lemma digit_char_props:
  assumes "d < 10"
  shows "is_digit (digit_char d)" and "digit_val (digit_char d) = d"
    and "\<not> is_space (digit_char d)" and "digit_char d \<noteq> CHR ''-''" and "digit_char d \<noteq> CHR ''+''"
proof -
  have c: "(of_char (digit_char d) :: nat) = 48 + d"
    using assms by (simp add: digit_char_def)
  show "is_digit (digit_char d)" and "digit_val (digit_char d) = d"
    and "\<not> is_space (digit_char d)"
    using assms by (auto simp: is_digit_def digit_val_def is_space_def c)
  have m: "(of_char CHR ''-'' :: nat) = 45" and p: "(of_char CHR ''+'' :: nat) = 43" by simp_all
  show "digit_char d \<noteq> CHR ''-''"
  proof
    assume "digit_char d = CHR ''-''"
    then have "48 + d = 45" using c m by (simp del: of_char_Char)
    then show False by simp
  qed
  show "digit_char d \<noteq> CHR ''+''"
  proof
    assume "digit_char d = CHR ''+''"
    then have "48 + d = 43" using c p by (simp del: of_char_Char)
    then show False by simp
  qed
qed

lemma nat_dec_nonempty: "nat_dec n \<noteq> []"
  by (subst nat_dec.simps) simp

lemma nat_dec_digits: "c \<in> set (nat_dec n) \<Longrightarrow> \<exists>d<10. c = digit_char d"
proof (induction n rule: nat_dec.induct)
  case (1 n)
  show ?case
  proof (cases "n < 10")
    case True
    then show ?thesis using 1(2) by (auto simp: nat_dec.simps [of n])
  next
    case False
    with 1(2) have "c \<in> set (nat_dec (n div 10)) \<or> c = digit_char (n mod 10)"
      by (simp add: nat_dec.simps [of n]) blast
    moreover have "n mod 10 < 10" by simp
    ultimately show ?thesis using 1(1) [OF False] by blast
  qed
qed

lemma parse_digits_app:
  "parse_digits acc prev (nat_dec n @ rest) = parse_digits (acc * 10 ^ length (nat_dec n) + n) True rest"
proof (induction n arbitrary: acc prev rest rule: nat_dec.induct)
  case (1 n)
  show ?case
  proof (cases "n < 10")
    case True
    then show ?thesis by (simp add: nat_dec.simps [of n] digit_char_props mult.commute)
  next
    case False
    define q r where "q = n div 10" and "r = n mod 10"
    have eq: "nat_dec n = nat_dec q @ [digit_char r]"
      using False by (simp add: nat_dec.simps [of n] q_def r_def)
    have r: "r < 10" by (simp add: r_def)
    have n: "n = 10 * q + r" by (simp add: q_def r_def)
    have "parse_digits acc prev (nat_dec q @ digit_char r # rest)
        = parse_digits (acc * 10 ^ length (nat_dec q) + q) True (digit_char r # rest)"
      using 1 [OF False] by (simp add: q_def)
    then show ?thesis
      using r by (simp add: eq digit_char_props) (simp add: n algebra_simps)
  qed
qed

lemma strip_id: "s \<noteq> [] \<Longrightarrow> \<not> is_space (hd s) \<Longrightarrow> \<not> is_space (last s) \<Longrightarrow> py_strip s = s"
proof -
  assume a: "s \<noteq> []" "\<not> is_space (hd s)" "\<not> is_space (last s)"
  then have "dropWhile is_space s = s" by (cases s) auto
  moreover have "dropWhile is_space (rev s) = rev s"
    using a by (metis dropWhile.simps(2) hd_rev list.exhaust_sel rev_is_Nil_conv)
  ultimately show ?thesis by (simp add: py_strip_def)
qed

lemma nat_dec_no_space: "c \<in> set (nat_dec n) \<Longrightarrow> \<not> is_space c"
  using nat_dec_digits digit_char_props(3) by blast

theorem int_of_str_of_int: "py_int_of_str (py_str_int i) = Some i"
proof (cases "i < 0")
  case True
  have "\<not> is_space CHR ''-''" by (simp add: is_space_def)
  then have "py_strip (py_str_int i) = py_str_int i"
    using True nat_dec_nonempty [of "nat (- i)"] nat_dec_no_space [of _ "nat (- i)"]
    by (intro strip_id) (auto simp: py_str_int_def)
  then show ?thesis
    using True parse_digits_app [of 0 False "nat (- i)" "[]"]
    by (simp add: py_int_of_str_def py_str_int_def)
next
  case False
  obtain c cs where d: "nat_dec (nat i) = c # cs" using nat_dec_nonempty by (cases "nat_dec (nat i)") auto
  then have "\<exists>k<10. c = digit_char k" using nat_dec_digits [of c "nat i"] by simp
  then obtain k where k: "k < 10" "c = digit_char k" by blast
  then have "c \<noteq> CHR ''-''" and "c \<noteq> CHR ''+''"
    using digit_char_props(4,5) [OF k(1)] by simp_all
  moreover have "py_strip (py_str_int i) = py_str_int i"
    using False nat_dec_nonempty nat_dec_no_space [of _ "nat i"]
    by (intro strip_id) (auto simp: py_str_int_def)
  ultimately show ?thesis
    using False d parse_digits_app [of 0 False "nat i" "[]"]
    by (simp add: py_int_of_str_def py_str_int_def)
qed

lemma str_zero: "py_str_int 0 = ''0''"
proof -
  have "char_of (48::nat) = CHR ''0''" by (rule char_of_eq_iff [THEN iffD2]) simp
  then show ?thesis by (simp add: py_str_int_def nat_dec.simps digit_char_def)
qed

section \<open>Values of type \<open>Any\<close>\<close>

text \<open>JSON-like values: what the sources put into \<open>dict\<close> payloads of mixed type.\<close>

datatype json =
    JNull
  | JBool bool
  | JInt int
  | JFloat real
  | JStr string
  | JList "json list"
  | JObj "(string \<times> json) list"

definition json_opt :: "('a \<Rightarrow> json) \<Rightarrow> 'a option \<Rightarrow> json" where
  "json_opt f a = (case a of None \<Rightarrow> JNull | Some x \<Rightarrow> f x)"

text \<open>\<open>bool(value)\<close>.\<close>

fun json_truthy :: "json \<Rightarrow> bool" where
  "json_truthy JNull = False"
| "json_truthy (JBool b) = b"
| "json_truthy (JInt i) = (i \<noteq> 0)"
| "json_truthy (JFloat x) = (x \<noteq> 0)"
| "json_truthy (JStr s) = (s \<noteq> [])"
| "json_truthy (JList xs) = (xs \<noteq> [])"
| "json_truthy (JObj d) = (d \<noteq> [])"

section \<open>Files\<close>

text \<open>
  A file the program persists to is its text and modification time; \<open>None\<close> is a missing file.
  The serialiser (\<open>json\<close> and pydantic) is a parameter: \<open>codec_dump\<close> renders a value, \<open>codec_load\<close>
  parses and validates a text and gives \<open>None\<close> for the exception it raises on a corrupt one.
\<close>

record ('a, 't) codec =
  codec_dump :: "'a \<Rightarrow> 't"
  codec_load :: "'t \<Rightarrow> 'a option"

definition codec_reads_back :: "('a, 't) codec \<Rightarrow> 'a \<Rightarrow> bool" where
  "codec_reads_back c x = (codec_load c (codec_dump c x) = Some x)"

type_synonym 't disk_file = "('t \<times> real) option"

text \<open>\<open>fs_write\<close> is the text after a write at time \<open>mt\<close>, or the exception of a read-only file.\<close>

definition fs_write :: "bool \<Rightarrow> 't \<Rightarrow> real \<Rightarrow> 't disk_file \<Rightarrow> 't disk_file option" where
  "fs_write writable text mt f = (if writable then Some (Some (text, mt)) else None)"

end
