(* ===== verification/Control_Profiles.thy ===== *)
theory Control_Profiles
  imports Synqc_Prelude
begin

text \<open>
  Manual control profiles (\<open>backend/synqc_backend/control_profiles.py\<close>): the validated profile,
  partial updates, and the store that keeps one profile and optionally a JSON file.

  \<open>control_profile\<close> and \<open>control_profile_update\<close> have the fields of the pydantic models; the
  bounds of the \<open>Field\<close> declarations are \<open>profile_valid\<close>. The file is the one the store was
  given, its serialiser a \<open>codec\<close>.
\<close>

record control_profile =
  cp_drive_bias :: real
  cp_probe_window_ns :: int
  cp_feedback_gain :: real
  cp_safety_clamp_ns :: int
  cp_thermal_guard_enabled :: bool
  cp_tracer_persistence_ms :: int
  cp_notes :: "string option"

definition default_profile :: control_profile where
  "default_profile =
     \<lparr>cp_drive_bias = 1, cp_probe_window_ns = 120, cp_feedback_gain = 35 / 100,
      cp_safety_clamp_ns = 600, cp_thermal_guard_enabled = True,
      cp_tracer_persistence_ms = 420, cp_notes = None\<rparr>"

definition profile_valid :: "control_profile \<Rightarrow> bool" where
  "profile_valid p \<longleftrightarrow>
     1 / 2 \<le> cp_drive_bias p \<and> cp_drive_bias p \<le> 3 / 2 \<and>
     10 \<le> cp_probe_window_ns p \<and> cp_probe_window_ns p \<le> 10000 \<and>
     0 \<le> cp_feedback_gain p \<and> cp_feedback_gain p \<le> 3 \<and>
     0 \<le> cp_safety_clamp_ns p \<and> cp_safety_clamp_ns p \<le> 20000 \<and>
     50 \<le> cp_tracer_persistence_ms p \<and> cp_tracer_persistence_ms p \<le> 5000"

record control_profile_update =
  cu_drive_bias :: "real option"
  cu_probe_window_ns :: "int option"
  cu_feedback_gain :: "real option"
  cu_safety_clamp_ns :: "int option"
  cu_thermal_guard_enabled :: "bool option"
  cu_tracer_persistence_ms :: "int option"
  cu_notes :: "string option"

definition override :: "'a option \<Rightarrow> 'a \<Rightarrow> 'a" where
  "override v old = (case v of None \<Rightarrow> old | Some x \<Rightarrow> x)"

lemma override_simps [simp]: "override None old = old" "override (Some x) old = x"
  by (simp_all add: override_def)

text \<open>The loop over \<open>patch.model_dump(exclude_none=True)\<close>: fields that are not \<open>None\<close> win.\<close>

definition merge_profile :: "control_profile \<Rightarrow> control_profile_update \<Rightarrow> control_profile" where
  "merge_profile p u =
     \<lparr>cp_drive_bias = override (cu_drive_bias u) (cp_drive_bias p),
      cp_probe_window_ns = override (cu_probe_window_ns u) (cp_probe_window_ns p),
      cp_feedback_gain = override (cu_feedback_gain u) (cp_feedback_gain p),
      cp_safety_clamp_ns = override (cu_safety_clamp_ns u) (cp_safety_clamp_ns p),
      cp_thermal_guard_enabled = override (cu_thermal_guard_enabled u) (cp_thermal_guard_enabled p),
      cp_tracer_persistence_ms = override (cu_tracer_persistence_ms u) (cp_tracer_persistence_ms p),
      cp_notes = (case cu_notes u of None \<Rightarrow> cp_notes p | Some n \<Rightarrow> Some n)\<rparr>"

text \<open>The store: whether it has a file, the profile, and the file's content.\<close>

record 't control_store =
  cs_persistent :: bool
  cs_profile :: control_profile
  cs_file :: "'t disk_file"

definition control_store_init ::
    "(control_profile, 't) codec \<Rightarrow> bool \<Rightarrow> 't disk_file \<Rightarrow> 't control_store" where
  "control_store_init c persistent f =
     \<lparr>cs_persistent = persistent,
      cs_profile =
        (if persistent then
           (case f of None \<Rightarrow> default_profile
            | Some (text, _) \<Rightarrow>
                (case codec_load c text of
                   Some p \<Rightarrow> if profile_valid p then p else default_profile
                 | None \<Rightarrow> default_profile))
         else default_profile),
      cs_file = f\<rparr>"

definition control_get :: "'t control_store \<Rightarrow> control_profile" where
  "control_get st = cs_profile st"

definition control_persist ::
    "(control_profile, 't) codec \<Rightarrow> bool \<Rightarrow> real \<Rightarrow> 't control_store \<Rightarrow> 't control_store" where
  "control_persist c writable now st =
     (if \<not> cs_persistent st then st
      else (case fs_write writable (codec_dump c (cs_profile st)) now (cs_file st) of
              None \<Rightarrow> st
            | Some f \<Rightarrow> st\<lparr>cs_file := f\<rparr>))"

text \<open>
  \<open>update\<close>: \<open>None\<close> is the pydantic \<open>ValidationError\<close> of \<open>ControlProfile(**payload)\<close>, raised
  before the profile is assigned.
\<close>

definition control_update ::
    "(control_profile, 't) codec \<Rightarrow> bool \<Rightarrow> real \<Rightarrow> control_profile_update \<Rightarrow> 't control_store
     \<Rightarrow> control_profile option \<times> 't control_store" where
  "control_update c writable now u st =
     (let p = merge_profile (cs_profile st) u in
      if profile_valid p then
        (let st' = control_persist c writable now (st\<lparr>cs_profile := p\<rparr>) in (Some p, st'))
      else (None, st))"

section \<open>The stored profile is always a valid one\<close>

lemma default_profile_valid [simp]: "profile_valid default_profile"
  by (simp add: profile_valid_def default_profile_def)

definition control_store_ok :: "'t control_store \<Rightarrow> bool" where
  "control_store_ok st = profile_valid (cs_profile st)"

lemma control_init_ok: "control_store_ok (control_store_init c persistent f)"
  by (simp add: control_store_ok_def control_store_init_def split: option.split prod.split)

lemma persist_profile [simp]: "cs_profile (control_persist c w now st) = cs_profile st"
  by (simp add: control_persist_def split: option.split)

lemma persist_flag [simp]: "cs_persistent (control_persist c w now st) = cs_persistent st"
  by (simp add: control_persist_def split: option.split)

lemma control_update_ok:
  "control_store_ok st \<Longrightarrow> control_store_ok (snd (control_update c w now u st))"
  by (simp add: control_store_ok_def control_update_def Let_def)

lemma merge_empty:
  "merge_profile p \<lparr>cu_drive_bias = None, cu_probe_window_ns = None, cu_feedback_gain = None,
     cu_safety_clamp_ns = None, cu_thermal_guard_enabled = None, cu_tracer_persistence_ms = None,
     cu_notes = None\<rparr> = p"
  by (simp add: merge_profile_def)

lemma merge_idem: "merge_profile (merge_profile p u) u = merge_profile p u"
  by (simp add: merge_profile_def override_def split: option.split)

text \<open>
  A run of updates at successive times, with whether each write to the file succeeds.
\<close>

fun control_updates ::
    "(control_profile, 't) codec \<Rightarrow> (bool \<times> real \<times> control_profile_update) list \<Rightarrow> 't control_store
     \<Rightarrow> 't control_store" where
  "control_updates c [] st = st"
| "control_updates c ((w, now, u) # us) st = control_updates c us (snd (control_update c w now u st))"

lemma control_updates_ok: "control_store_ok st \<Longrightarrow> control_store_ok (control_updates c us st)"
  by (induction us arbitrary: st) (auto simp: control_update_ok)

text \<open>A rejected update changes nothing; an accepted one is what a restarted process reads back.\<close>

lemma control_update_reject:
  "fst (control_update c w now u st) = None \<Longrightarrow> snd (control_update c w now u st) = st"
  by (simp add: control_update_def Let_def split: if_splits)

lemma control_update_accept_iff:
  "(\<exists>p. fst (control_update c w now u st) = Some p) \<longleftrightarrow> profile_valid (merge_profile (cs_profile st) u)"
  by (simp add: control_update_def Let_def)

lemma control_update_reload:
  assumes "fst (control_update c True now u st) = Some p" and "cs_persistent st"
    and "codec_reads_back c p"
  shows "cs_profile (control_store_init c True (cs_file (snd (control_update c True now u st)))) = p"
  using assms
  by (auto simp: control_update_def Let_def control_persist_def fs_write_def control_store_init_def
      codec_reads_back_def split: if_splits)

end
