(* ===== verification/Physics_Contract.thy ===== *)
theory Physics_Contract
  imports Synqc_Prelude
begin

text \<open>
  The physics contract attached to a run (\<open>physics_contract.py\<close>, \<open>physics_definitions.py\<close>,
  \<open>physics_router.py\<close> of \<open>backend/synqc_backend\<close>): the declared plant, state, measurement,
  sampling and noise model, inferred from the target's name, and the registry of KPI
  definitions with the map from KPI names to definition ids.
\<close>

section \<open>The contract\<close>

datatype plant_kind = Quantum_device | Simulator | Plant_unknown

datatype state_model = Statevector | Density_matrix | Hardware_unknown | State_unknown

datatype measurement_model = Projective | Povm | Measurement_unknown

datatype noise_model = Ideal | Channel | Lindblad | Hardware_empirical | Noise_unknown

record sampling_spec =
  sa_shots_requested :: int
  sa_shots_executed :: int

record measurement_spec =
  me_model :: measurement_model
  me_basis :: "string option"
  me_povm :: "string option"
  me_notes :: "string option"

record noise_spec =
  no_model :: noise_model
  no_params :: "(string, json) dict"
  no_notes :: "string option"

record plant_spec =
  pl_kind :: plant_kind
  pl_target :: string
  pl_backend_id :: "string option"

record state_spec =
  ss_model :: state_model
  ss_n_qubits :: "int option"
  ss_hilbert_dim :: "int option"
  ss_notes :: "string option"

record physics_contract =
  pc_version :: string
  pc_plant :: plant_spec
  pc_state :: state_spec
  pc_measurement :: measurement_spec
  pc_sampling :: sampling_spec
  pc_noise :: noise_spec
  pc_assumptions :: "string list"
  pc_kpi_definitions_version :: string

text \<open>The bounds \<open>ge=1\<close> and \<open>ge=0\<close> of \<open>SamplingSpec\<close>.\<close>

definition sampling_valid :: "sampling_spec \<Rightarrow> bool" where
  "sampling_valid s \<longleftrightarrow> 1 \<le> sa_shots_requested s \<and> 0 \<le> sa_shots_executed s"

text \<open>The branch of \<open>infer_contract\<close> on the lower-cased target name.\<close>

definition target_class ::
    "string \<Rightarrow> plant_kind \<times> state_model \<times> noise_model \<times> string list" where
  "target_class target =
     (let t = py_lower (if target = [] then ''unknown'' else target) in
      if py_in ''sim'' t \<or> py_in ''local'' t then
        (Simulator, Statevector, Ideal,
         [''SIMULATOR_IDEAL_UNLESS_DECLARED'', ''MEASUREMENT_PROJECTIVE_UNLESS_DECLARED''])
      else if py_in ''ibm'' t \<or> py_in ''ionq'' t \<or> py_in ''rigetti'' t \<or> py_in ''braket'' t
              \<or> py_in ''azure'' t then
        (Quantum_device, Hardware_unknown, Hardware_empirical,
         [''HARDWARE_STATE_UNOBSERVED'', ''READOUT_ERROR_UNMODELED_UNLESS_DECLARED''])
      else (Plant_unknown, State_unknown, Noise_unknown, [''UNSPECIFIED_TARGET'']))"

text \<open>
  \<open>(2**n_qubits) if n_qubits else None\<close>. A negative \<open>n_qubits\<close> gives a fraction, which the
  \<open>int\<close> field rejects: \<open>Inl ()\<close>, as for the sampling bounds.
\<close>

definition hilbert_dim :: "int option \<Rightarrow> unit + int option" where
  "hilbert_dim n =
     (case n of None \<Rightarrow> Inr None
      | Some k \<Rightarrow> if k = 0 then Inr None else if k < 0 then Inl () else Inr (Some (2 ^ nat k)))"

definition infer_contract ::
    "string \<Rightarrow> int \<Rightarrow> int \<Rightarrow> int option \<Rightarrow> string option \<Rightarrow> string option
     \<Rightarrow> unit + physics_contract" where
  "infer_contract target requested executed n_qubits backend_id basis =
     (case target_class target of (plant, st, noise, assumptions) \<Rightarrow>
      (let meas = (if truthy_str basis then Projective else Measurement_unknown);
           sampling = \<lparr>sa_shots_requested = requested, sa_shots_executed = executed\<rparr> in
       case hilbert_dim n_qubits of
         Inl e \<Rightarrow> Inl e
       | Inr hdim \<Rightarrow>
           if \<not> sampling_valid sampling then Inl ()
           else Inr
             \<lparr>pc_version = ''physics_contract_v0_1'',
              pc_plant = \<lparr>pl_kind = plant, pl_target = target, pl_backend_id = backend_id\<rparr>,
              pc_state = \<lparr>ss_model = st, ss_n_qubits = n_qubits, ss_hilbert_dim = hdim, ss_notes = None\<rparr>,
              pc_measurement = \<lparr>me_model = meas, me_basis = basis, me_povm = None, me_notes = None\<rparr>,
              pc_sampling = sampling,
              pc_noise = \<lparr>no_model = noise, no_params = [], no_notes = None\<rparr>,
              pc_assumptions = assumptions,
              pc_kpi_definitions_version = ''kpi_defs_v0_1''\<rparr>))"

section \<open>KPI definitions\<close>

record kpi_definition =
  kd_name :: string
  kd_kind :: string
  kd_unit :: string
  kd_requires_data :: "string list"
  kd_uncertainty :: string
  kd_simulator_only :: bool

text \<open>
  \<open>KPI_DEFINITIONS\<close>. The prose fields (\<open>summary\<close>, \<open>math\<close>, \<open>estimator\<close> and \<open>notes\<close>) are
  documentation strings and left out.
\<close>

definition KPI_DEFINITIONS :: "(string, kpi_definition) dict" where
  "KPI_DEFINITIONS =
    [(''fidelity_dist_v1'',
      \<lparr>kd_name = ''fidelity'', kd_kind = ''distribution'', kd_unit = ''unitless'',
       kd_requires_data = [''counts (bitstring->count) OR probabilities'', ''shots_executed'',
                           ''expected_distribution q(x)''],
       kd_uncertainty = ''bootstrap'', kd_simulator_only = False\<rparr>),
     (''latency_us_v1'',
      \<lparr>kd_name = ''latency_us'', kd_kind = ''system'', kd_unit = ''us'',
       kd_requires_data = [''timestamps or duration measurements''],
       kd_uncertainty = ''none'', kd_simulator_only = False\<rparr>),
     (''backaction_proxy_v1'',
      \<lparr>kd_name = ''backaction'', kd_kind = ''proxy'', kd_unit = ''unitless'',
       kd_requires_data = [''protocol-specific repeated measurements or paired runs''],
       kd_uncertainty = ''depends'', kd_simulator_only = True\<rparr>),
     (''unknown_kpi_v1'',
      \<lparr>kd_name = ''unknown_metric'', kd_kind = ''system'', kd_unit = ''arbitrary'',
       kd_requires_data = [''metric-specific''],
       kd_uncertainty = ''none'', kd_simulator_only = False\<rparr>)]"

text \<open>\<open>None\<close> is the \<open>KeyError\<close> on an unknown id.\<close>

definition get_kpi_definition :: "string \<Rightarrow> kpi_definition option" where
  "get_kpi_definition i = dict_get KPI_DEFINITIONS i"

definition kpi_definition_id_for_name :: "string \<Rightarrow> string" where
  "kpi_definition_id_for_name kpi_name =
     (let n = py_lower kpi_name in
      if py_in ''fidelity'' n then ''fidelity_dist_v1''
      else if py_in ''latency'' n then ''latency_us_v1''
      else if py_in ''backaction'' n then ''backaction_proxy_v1''
      else ''unknown_kpi_v1'')"

definition kpi_definitions_payload :: "string \<times> (string, kpi_definition) dict" where
  "kpi_definitions_payload = (''kpi_defs_v0_1'', KPI_DEFINITIONS)"

text \<open>The template of the \<open>/physics/contract\<close> endpoint.\<close>

definition physics_contract_template :: "unit + physics_contract" where
  "physics_contract_template = infer_contract ''local_sim'' 1024 1024 (Some 1) None (Some ''Z'')"

section \<open>Facts\<close>

lemma kpi_id_registered: "get_kpi_definition (kpi_definition_id_for_name n) \<noteq> None"
  by (simp add: kpi_definition_id_for_name_def get_kpi_definition_def KPI_DEFINITIONS_def Let_def)

lemma kpi_definitions_wf: "dict_wf KPI_DEFINITIONS"
  by (simp add: dict_wf_def KPI_DEFINITIONS_def)

lemma infer_contract_ok_iff:
  "(\<exists>c. infer_contract t r e n b m = Inr c) \<longleftrightarrow>
     1 \<le> r \<and> 0 \<le> e \<and> (case n of None \<Rightarrow> True | Some k \<Rightarrow> 0 \<le> k)"
  by (auto simp: infer_contract_def hilbert_dim_def sampling_valid_def Let_def
      split: option.split sum.split prod.split if_splits)

lemma infer_contract_fields:
  assumes "infer_contract t r e n b m = Inr c"
  shows "sampling_valid (pc_sampling c)" and "sa_shots_requested (pc_sampling c) = r"
    and "sa_shots_executed (pc_sampling c) = e" and "pl_target (pc_plant c) = t"
    and "ss_n_qubits (pc_state c) = n"
    and "ss_hilbert_dim (pc_state c) = (case n of None \<Rightarrow> None | Some k \<Rightarrow> if k = 0 then None else Some (2 ^ nat k))"
  using assms
  by (auto simp: infer_contract_def hilbert_dim_def Let_def split: sum.splits prod.splits option.splits if_splits)

text \<open>A contract never declares an ideal noise model for something it takes for a device.\<close>

lemma device_not_ideal:
  "infer_contract t r e n b m = Inr c \<Longrightarrow> pl_kind (pc_plant c) = Quantum_device \<Longrightarrow>
     no_model (pc_noise c) = Hardware_empirical \<and> ss_model (pc_state c) = Hardware_unknown"
  by (auto simp: infer_contract_def target_class_def Let_def split: sum.splits prod.splits if_splits)

lemma template_defined: "\<exists>c. physics_contract_template = Inr c"
  by (simp add: physics_contract_template_def infer_contract_ok_iff)

end
