(* ===== verification/Models.thy ===== *)
theory Models
  imports Control_Profiles Physics_Contract
begin

text \<open>
  The data model of the backend (\<open>backend/synqc_backend/models.py\<close>): enumerations, KPI bundle,
  requests, responses and job states, plus the exceptions that cross component boundaries and the
  settings (\<open>settings.py\<close>). The pydantic models are records with the source's fields in the
  source's order; a field default is a value of the \<open>*_default\<close> record.
\<close>

section \<open>Enumerations\<close>

datatype experiment_preset =
    HELLO_QUANTUM_SIM | HEALTH | LATENCY | BACKEND_COMPARE | DPD_DEMO | GROVER_DEMO
  | MULTICALL_DUAL_CLOCKING

datatype experiment_status = OK | WARN | FAIL

datatype error_code =
    AUTH_REQUIRED | REMOTE_DISABLED | PROVIDER_SIM_DISABLED | PROVIDER_CREDENTIALS
  | PROVIDER_CAPACITY | PROVIDER_QUEUE_BACKPRESSURE | INVALID_TARGET | INVALID_REQUEST
  | BUDGET_EXHAUSTED | RATE_LIMITED | BUDGET_GUARDRAIL | TIMEOUT | CANCELLED | INTERNAL_ERROR
  | PROVIDER_ERROR

datatype run_job_status = QUEUED | RUNNING | SUCCEEDED | FAILED

fun preset_value :: "experiment_preset \<Rightarrow> string" where
  "preset_value HELLO_QUANTUM_SIM = ''hello_quantum_sim''"
| "preset_value HEALTH = ''health''"
| "preset_value LATENCY = ''latency''"
| "preset_value BACKEND_COMPARE = ''backend_compare''"
| "preset_value DPD_DEMO = ''dpd_demo''"
| "preset_value GROVER_DEMO = ''grover_demo''"
| "preset_value MULTICALL_DUAL_CLOCKING = ''multicall_dual_clocking''"

text \<open>The severity order of a run's status, so that \<open>\<le>\<close> reads \<open>no worse than\<close>.\<close>

fun severity :: "experiment_status \<Rightarrow> nat" where
  "severity OK = 0"
| "severity WARN = 1"
| "severity FAIL = 2"

instantiation experiment_status :: linorder
begin

definition less_eq_experiment_status :: "experiment_status \<Rightarrow> experiment_status \<Rightarrow> bool" where
  "less_eq_experiment_status a b \<longleftrightarrow> severity a \<le> severity b"

definition less_experiment_status :: "experiment_status \<Rightarrow> experiment_status \<Rightarrow> bool" where
  "less_experiment_status a b \<longleftrightarrow> severity a < severity b"

instance
proof
  fix x y :: experiment_status
  show "x \<le> y \<Longrightarrow> y \<le> x \<Longrightarrow> x = y"
    by (cases x; cases y) (simp_all add: less_eq_experiment_status_def)
qed (auto simp: less_eq_experiment_status_def less_experiment_status_def)

end

text \<open>The order of a job's life; both ends of it are terminal.\<close>

fun job_rank :: "run_job_status \<Rightarrow> nat" where
  "job_rank QUEUED = 0"
| "job_rank RUNNING = 1"
| "job_rank SUCCEEDED = 2"
| "job_rank FAILED = 2"

definition terminal :: "run_job_status \<Rightarrow> bool" where
  "terminal s \<longleftrightarrow> s = SUCCEEDED \<or> s = FAILED"

section \<open>Errors\<close>

text \<open>
  The exceptions of the modelled components. \<open>ExnOther\<close> is any other exception, with the name of
  its class and its text; \<open>HTTPExn\<close> is a FastAPI \<open>HTTPException\<close> with its status.
\<close>

datatype py_exn =
    BudgetExceeded int
  | BudgetBackendUnavailable string
  | ProviderClientError string error_code "string option" "(string, json) dict"
  | ExnValue string
  | ExnKey string
  | ExnRuntime string
  | ExnTimeout string
  | ExnValidation
  | HTTPExn int string
  | ExnOther string string

type_synonym 'a py = "py_exn + 'a"

definition py_bind :: "'a py \<Rightarrow> ('a \<Rightarrow> 'b py) \<Rightarrow> 'b py" where
  "py_bind m f = (case m of Inl e \<Rightarrow> Inl e | Inr a \<Rightarrow> f a)"

lemma py_bind_simps [simp]: "py_bind (Inl e) f = Inl e" "py_bind (Inr a) f = f a"
  by (simp_all add: py_bind_def)

lemma py_bind_InrE:
  assumes "py_bind m f = Inr b"
  obtains a where "m = Inr a" and "f a = Inr b"
  using assms by (cases m) auto

text \<open>\<open>str(e)\<close> and \<open>type(e).__name__\<close>.\<close>

fun exn_text :: "py_exn \<Rightarrow> string" where
  "exn_text (BudgetExceeded r) = ''Session shot budget exhausted; remaining='' @ py_str_int r"
| "exn_text (BudgetBackendUnavailable m) = m"
| "exn_text (ProviderClientError m c h d) = m"
| "exn_text (ExnValue m) = m"
| "exn_text (ExnKey m) = CHR 0x27 # m @ [CHR 0x27]"
| "exn_text (ExnRuntime m) = m"
| "exn_text (ExnTimeout m) = m"
| "exn_text ExnValidation = ''validation error''"
| "exn_text (HTTPExn s m) = py_str_int s @ '': '' @ m"
| "exn_text (ExnOther n m) = m"

fun exn_name :: "py_exn \<Rightarrow> string" where
  "exn_name (BudgetExceeded r) = ''BudgetExceeded''"
| "exn_name (BudgetBackendUnavailable m) = ''BudgetBackendUnavailable''"
| "exn_name (ProviderClientError m c h d) = ''ProviderClientError''"
| "exn_name (ExnValue m) = ''ValueError''"
| "exn_name (ExnKey m) = ''KeyError''"
| "exn_name (ExnRuntime m) = ''RuntimeError''"
| "exn_name (ExnTimeout m) = ''TimeoutError''"
| "exn_name ExnValidation = ''ValidationError''"
| "exn_name (HTTPExn s m) = ''HTTPException''"
| "exn_name (ExnOther n m) = n"

record error_report =
  er_code :: error_code
  er_message :: string
  er_detail :: "(string, json) dict option"
  er_action_hint :: "string option"

fun error_code_value :: "error_code \<Rightarrow> string" where
  "error_code_value AUTH_REQUIRED = ''AUTH_REQUIRED''"
| "error_code_value REMOTE_DISABLED = ''REMOTE_DISABLED''"
| "error_code_value PROVIDER_SIM_DISABLED = ''PROVIDER_SIM_DISABLED''"
| "error_code_value PROVIDER_CREDENTIALS = ''PROVIDER_CREDENTIALS''"
| "error_code_value PROVIDER_CAPACITY = ''PROVIDER_CAPACITY''"
| "error_code_value PROVIDER_QUEUE_BACKPRESSURE = ''PROVIDER_QUEUE_BACKPRESSURE''"
| "error_code_value INVALID_TARGET = ''INVALID_TARGET''"
| "error_code_value INVALID_REQUEST = ''INVALID_REQUEST''"
| "error_code_value BUDGET_EXHAUSTED = ''BUDGET_EXHAUSTED''"
| "error_code_value RATE_LIMITED = ''RATE_LIMITED''"
| "error_code_value BUDGET_GUARDRAIL = ''BUDGET_GUARDRAIL''"
| "error_code_value TIMEOUT = ''TIMEOUT''"
| "error_code_value CANCELLED = ''CANCELLED''"
| "error_code_value INTERNAL_ERROR = ''INTERNAL_ERROR''"
| "error_code_value PROVIDER_ERROR = ''PROVIDER_ERROR''"

definition as_legacy_detail :: "error_report \<Rightarrow> (string, json) dict" where
  "as_legacy_detail r =
     (let d0 = (case er_detail r of None \<Rightarrow> [] | Some d \<Rightarrow> d);
          d1 = dict_setdefault ''code'' (JStr (error_code_value (er_code r))) d0;
          d2 = dict_setdefault ''message'' (JStr (er_message r)) d1 in
      (case er_action_hint r of
         None \<Rightarrow> d2
       | Some h \<Rightarrow> if h = [] then d2 else dict_setdefault ''action_hint'' (JStr h) d2))"

section \<open>KPIs\<close>

type_synonym counts = "(string, int) dict"
type_synonym distribution = "(string, real) dict"

record kpi_bundle =
  k_fidelity :: "real option"
  k_latency_us :: "real option"
  k_backaction :: "real option"
  k_raw_counts :: "counts option"
  k_expected_distribution :: "distribution option"
  k_shots_used :: int
  k_shot_budget :: int
  k_status :: experiment_status

definition kpi_default :: kpi_bundle where
  "kpi_default =
     \<lparr>k_fidelity = None, k_latency_us = None, k_backaction = None, k_raw_counts = None,
      k_expected_distribution = None, k_shots_used = 0, k_shot_budget = 0, k_status = OK\<rparr>"

record workflow_step =
  ws_id :: string
  ws_label :: string
  ws_description :: string
  ws_percent_complete :: real
  ws_dwell_ms :: int

record provider_capabilities =
  pv_max_shots :: "int option"
  pv_queue_behavior :: string
  pv_supported_gates :: "string list"
  pv_notes :: "string option"

record hardware_target =
  ht_id :: string
  ht_name :: string
  ht_kind :: string
  ht_description :: string
  ht_capabilities :: "provider_capabilities option"

record run_experiment_request =
  rq_preset :: experiment_preset
  rq_hardware_target :: string
  rq_shot_budget :: "int option"
  rq_notes :: "string option"
  rq_control_overrides :: "control_profile option"
  rq_mode :: "string option"

record kpi_detail =
  kt_name :: string
  kt_value :: "real option"
  kt_definition_id :: string
  kt_definition_ref :: "string option"
  kt_kind :: "string option"
  kt_units :: "string option"
  kt_ci95 :: "(real \<times> real) option"
  kt_ci_95 :: "(real \<times> real) option"
  kt_stderr :: "real option"

text \<open>The override of \<open>model_dump\<close>: the alias and the reference are filled in from their sources.\<close>

definition kpi_detail_dump :: "kpi_detail \<Rightarrow> kpi_detail" where
  "kpi_detail_dump d =
     (let d1 = (if kt_ci_95 d = None \<and> kt_ci95 d \<noteq> None then d\<lparr>kt_ci_95 := kt_ci95 d\<rparr> else d) in
      if kt_definition_ref d1 = None then d1\<lparr>kt_definition_ref := Some (kt_definition_id d1)\<rparr> else d1)"

record shot_usage =
  su_requested :: "int option"
  su_executed :: "int option"

record measurement_descriptor =
  md_model :: measurement_model
  md_basis :: "string option"
  md_povm :: "string option"
  md_descriptor :: "string option"

record noise_descriptor =
  nd_model :: noise_model
  nd_params :: "(string, json) dict"
  nd_descriptor :: "string option"

record run_response =
  rr_id :: string
  rr_preset :: experiment_preset
  rr_hardware_target :: string
  rr_kpis :: kpi_bundle
  rr_created_at :: real
  rr_shots :: "shot_usage option"
  rr_measurement :: "measurement_descriptor option"
  rr_noise :: "noise_descriptor option"
  rr_assumptions :: "string list"
  rr_qubits_used :: int
  rr_notes :: "string option"
  rr_control_profile :: "control_profile option"
  rr_physics_contract :: "physics_contract option"
  rr_kpi_details :: "kpi_detail list option"
  rr_kpi_observations :: "kpi_detail list option"
  rr_artifacts :: "(string, json) dict option"
  rr_error_code :: "error_code option"
  rr_error_message :: "string option"
  rr_error_detail :: "(string, json) dict option"
  rr_action_hint :: "string option"
  rr_workflow_trace :: "workflow_step list"

record experiment_summary =
  es_id :: string
  es_preset :: experiment_preset
  es_hardware_target :: string
  es_kpis :: kpi_bundle
  es_created_at :: real
  es_shots :: "shot_usage option"
  es_measurement :: "measurement_descriptor option"
  es_noise :: "noise_descriptor option"
  es_assumptions :: "string list"
  es_qubits_used :: int
  es_control_profile :: "control_profile option"
  es_physics_contract :: "physics_contract option"
  es_kpi_details :: "kpi_detail list option"
  es_kpi_observations :: "kpi_detail list option"
  es_error_code :: "error_code option"
  es_error_message :: "string option"
  es_error_detail :: "(string, json) dict option"
  es_action_hint :: "string option"

text \<open>\<open>RunSubmissionResponse\<close> and \<open>RunStatusResponse\<close>: the latter adds the result.\<close>

record run_submission_response =
  rs_id :: string
  rs_status :: run_job_status
  rs_created_at :: real
  rs_started_at :: "real option"
  rs_finished_at :: "real option"
  rs_error :: "string option"
  rs_error_code :: "error_code option"
  rs_error_message :: "string option"
  rs_error_detail :: "(string, json) dict option"
  rs_action_hint :: "string option"

record run_status_response = run_submission_response +
  rs_result :: "run_response option"

record qubit_telemetry =
  qt_session_total_qubits :: int
  qt_last_run_qubits :: "int option"
  qt_last_updated :: "real option"
  qt_demo_min_qubits :: int
  qt_demo_max_qubits :: int

end
