(* ===== verification/Base64.thy ===== *)
theory Base64
  imports Synqc_Prelude
begin

text \<open>
  URL-safe base64, which the auth helpers and the settings use: the encoder without padding and
  the lenient decoder of \<open>binascii.a2b_base64\<close>, which skips foreign characters. A byte string is
  an \<open>int list\<close> with values below 256.
\<close>

definition is_bytes :: "int list \<Rightarrow> bool" where
  "is_bytes bs = list_all (\<lambda>b. 0 \<le> b \<and> b < 256) bs"

fun sextets :: "int list \<Rightarrow> int list" where
  "sextets [] = []"
| "sextets [a] = [a div 4, a mod 4 * 16]"
| "sextets [a, b] = [a div 4, a mod 4 * 16 + b div 16, b mod 16 * 4]"
| "sextets (a # b # c # r) = a div 4 # (a mod 4 * 16 + b div 16) # (b mod 16 * 4 + c div 64) # c mod 64 # sextets r"

definition b64_char :: "int \<Rightarrow> char" where
  "b64_char v =
     char_of (nat (if v < 26 then v + 65 else if v < 52 then v + 71 else if v < 62 then v - 4
                   else if v = 62 then 45 else 95))"

definition b64_val :: "char \<Rightarrow> int option" where
  "b64_val c =
     (let n = int (of_char c) in
      if 65 \<le> n \<and> n \<le> 90 then Some (n - 65)
      else if 97 \<le> n \<and> n \<le> 122 then Some (n - 71)
      else if 48 \<le> n \<and> n \<le> 57 then Some (n + 4)
      else if n = 43 \<or> n = 45 then Some 62
      else if n = 47 \<or> n = 95 then Some 63
      else None)"

text \<open>\<open>urlsafe_b64encode(raw).decode().rstrip('=')\<close>: the padding is stripped again.\<close>

definition b64url_encode :: "int list \<Rightarrow> string" where
  "b64url_encode raw = map b64_char (sextets raw)"

text \<open>
  The decoder's state: position in the group of four, the bits left over and the padding seen. A
  group that ends early is an error (\<open>None\<close>), one completed by padding ends the input.
\<close>

fun a2b :: "nat \<Rightarrow> int \<Rightarrow> nat \<Rightarrow> string \<Rightarrow> int list option" where
  "a2b q l p [] = (if q = 0 then Some [] else None)"
| "a2b q l p (c # cs) =
     (if c = CHR ''='' then
        (if 2 \<le> q \<and> 4 \<le> q + Suc p then Some [] else a2b q l (if 2 \<le> q then Suc p else p) cs)
      else case b64_val c of
        None \<Rightarrow> a2b q l p cs
      | Some v \<Rightarrow>
          if q = 0 then a2b 1 v 0 cs
          else if q = 1 then map_option (\<lambda>r. (l * 4 + v div 16) # r) (a2b 2 (v mod 16) 0 cs)
          else if q = 2 then map_option (\<lambda>r. (l * 16 + v div 4) # r) (a2b 3 (v mod 4) 0 cs)
          else map_option (\<lambda>r. (l * 64 + v) # r) (a2b 0 0 0 cs))"

definition b64url_decode :: "string \<Rightarrow> int list option" where
  "b64url_decode data = a2b 0 0 0 (data @ replicate ((4 - length data mod 4) mod 4) CHR ''='')"

lemma b64_val_char:
  assumes "0 \<le> v" and "v < 64"
  shows "b64_val (b64_char v) = Some v" and "b64_char v \<noteq> CHR ''=''"
proof -
  define k where "k = (if v < 26 then v + 65 else if v < 52 then v + 71 else if v < 62 then v - 4
                   else if v = 62 then 45 else 95)"
  have k: "0 \<le> k" "k < 256" "k \<noteq> 61" using assms by (auto simp: k_def)
  have c: "(of_char (b64_char v) :: nat) = nat k"
    using k by (simp add: b64_char_def k_def [symmetric] take_bit_nat_eq_self)
  show "b64_val (b64_char v) = Some v"
    unfolding b64_val_def c using assms k by (auto simp: k_def Let_def split: if_splits)
  show "b64_char v \<noteq> CHR ''=''"
  proof
    assume "b64_char v = CHR ''=''"
    then have "nat k = 61" using c by simp
    with k(1,3) show False by simp
  qed
qed

lemma sextets_bounds: "is_bytes bs \<Longrightarrow> v \<in> set (sextets bs) \<Longrightarrow> 0 \<le> v \<and> v < 64"
proof (induction bs rule: sextets.induct)
  case (4 a b c r)
  have "0 \<le> a mod 4" "a mod 4 < 4" "0 \<le> b mod 16" "b mod 16 < 16" by simp_all
  with 4 show ?case by (auto simp: is_bytes_def)
qed (auto simp: is_bytes_def)

lemma a2b_char:
  assumes "0 \<le> v" and "v < 64"
  shows "a2b q l p (b64_char v # cs) =
    (if q = 0 then a2b 1 v 0 cs
     else if q = 1 then map_option (\<lambda>r. (l * 4 + v div 16) # r) (a2b 2 (v mod 16) 0 cs)
     else if q = 2 then map_option (\<lambda>r. (l * 16 + v div 4) # r) (a2b 3 (v mod 4) 0 cs)
     else map_option (\<lambda>r. (l * 64 + v) # r) (a2b 0 0 0 cs))"
  using b64_val_char [OF assms] by simp

declare a2b.simps(2) [simp del]

lemma a2b_group:
  assumes "0 \<le> a" "a < 256" "0 \<le> b" "b < 256" "0 \<le> c" "c < 256"
  shows "a2b 0 0 0 (b64_char (a div 4) # b64_char (a mod 4 * 16 + b div 16) # b64_char (b mod 16 * 4 + c div 64) #
      b64_char (c mod 64) # cs) = map_option (\<lambda>r. a # b # c # r) (a2b 0 0 0 cs)"
proof -
  define x y z where "x = a mod 4" and "y = b mod 16" and "z = c mod 64"
  define x' y' z' where "x' = a div 4" and "y' = b div 16" and "z' = c div 64"
  have m: "0 \<le> x" "x < 4" "0 \<le> y" "y < 16" "0 \<le> z" "z < 64" "0 \<le> x'" "x' < 64" "0 \<le> y'" "y' < 16" "0 \<le> z'" "z' < 4"
    using assms by (simp_all add: x_def y_def z_def x'_def y'_def z'_def)
  have e: "a = x' * 4 + x" "b = y' * 16 + y" "c = z' * 64 + z"
    by (simp_all add: x_def y_def z_def x'_def y'_def z'_def)
  have d: "(x * 16 + y') div 16 = x" "(x * 16 + y') mod 16 = y'" "(y * 4 + z') div 4 = y" "(y * 4 + z') mod 4 = z'"
    using m by simp_all
  have "a2b 0 0 0 (b64_char x' # b64_char (x * 16 + y') # b64_char (y * 4 + z') # b64_char z # cs) =
      map_option (\<lambda>r. a # b # c # r) (a2b 0 0 0 cs)"
    using m by (simp add: a2b_char d option.map_comp comp_def e [symmetric])
  then show ?thesis by (simp only: x_def y_def z_def x'_def y'_def z'_def)
qed

lemma mod4_Suc: "Suc (Suc (Suc (Suc n))) mod 4 = n mod 4"
  by presburger

lemma b64_tail:
  assumes "0 \<le> a" "a < 256" "0 \<le> b" "b < 256"
  shows "a2b 0 0 0 [b64_char (a div 4), b64_char (a mod 4 * 16), CHR ''='', CHR ''=''] = Some [a]"
    and "a2b 0 0 0 [b64_char (a div 4), b64_char (a mod 4 * 16 + b div 16), b64_char (b mod 16 * 4), CHR ''='']
      = Some [a, b]"
proof -
  define x y x' y' where "x = a mod 4" and "y = b mod 16" and "x' = a div 4" and "y' = b div 16"
  have m: "0 \<le> x" "x < 4" "0 \<le> y" "y < 16" "0 \<le> x'" "x' < 64" "0 \<le> y'" "y' < 16"
    using assms by (simp_all add: x_def y_def x'_def y'_def)
  have e: "a = x' * 4 + x" "b = y' * 16 + y" by (simp_all add: x_def y_def x'_def y'_def)
  have d: "(x * 16 + y') div 16 = x" "(x * 16 + y') mod 16 = y'" using m by simp_all
  have pad: "a2b 2 l 0 [CHR ''='', CHR ''=''] = Some []" "a2b 3 l 0 [CHR ''=''] = Some []" for l
    by (simp_all add: a2b.simps(2))
  have "a2b 0 0 0 [b64_char x', b64_char (x * 16), CHR ''='', CHR ''=''] = Some [a]"
    using m by (simp add: a2b_char pad e(1) [symmetric])
  then show "a2b 0 0 0 [b64_char (a div 4), b64_char (a mod 4 * 16), CHR ''='', CHR ''=''] = Some [a]"
    by (simp only: x_def x'_def)
  have "a2b 0 0 0 [b64_char x', b64_char (x * 16 + y'), b64_char (y * 4), CHR ''=''] = Some [a, b]"
    using m by (simp add: a2b_char d pad e [symmetric])
  then show "a2b 0 0 0 [b64_char (a div 4), b64_char (a mod 4 * 16 + b div 16), b64_char (b mod 16 * 4), CHR ''='']
      = Some [a, b]"
    by (simp only: x_def x'_def y_def y'_def)
qed

lemma b64_decode_encode: "is_bytes bs \<Longrightarrow> b64url_decode (b64url_encode bs) = Some bs"
  unfolding b64url_decode_def b64url_encode_def length_map
proof (induction bs rule: sextets.induct)
  case 1
  then show ?case by simp
next
  case (2 a)
  then show ?case using b64_tail(1) [of a 0] by (simp add: is_bytes_def numeral_2_eq_2)
next
  case (3 a b)
  then show ?case using b64_tail(2) [of a b] by (simp add: is_bytes_def)
next
  case (4 a b c r)
  then have "is_bytes r" "0 \<le> a" "a < 256" "0 \<le> b" "b < 256" "0 \<le> c" "c < 256" by (simp_all add: is_bytes_def)
  then show ?case using 4(1) by (simp add: a2b_group mod4_Suc)
qed

lemma b64_no_dollar: "is_bytes bs \<Longrightarrow> CHR ''$'' \<notin> set (b64url_encode bs)"
proof
  assume b: "is_bytes bs" and "CHR ''$'' \<in> set (b64url_encode bs)"
  then obtain v where v: "v \<in> set (sextets bs)" "CHR ''$'' = b64_char v" by (auto simp: b64url_encode_def)
  have "b64_val CHR ''$'' = Some v" using b64_val_char(1) sextets_bounds [OF b v(1)] v(2) by simp
  moreover have "b64_val CHR ''$'' = None" by (simp add: b64_val_def)
  ultimately show False by simp
qed

end
