(* ===== verification/Settings.thy ===== *)
theory Settings
  imports Models Base64
begin

text \<open>
  The configuration (\<open>backend/synqc_backend/settings.py\<close>): the settings with their defaults and
  the bounds of their \<open>Field\<close> declarations, the validator of the master key, the fallbacks to
  the environment, the list of allowed origins and the start-up check \<open>ensure_prod_safety\<close>.
\<close>

datatype deploy_env = Dev | Prod

record settings =
  st_env :: deploy_env
  st_api_prefix :: string
  st_allowed_origins_raw :: "string option"
  st_cors_allow_credentials :: bool
  st_auth_required :: bool
  st_jwks_url :: "string option"
  st_auth_issuer :: "string option"
  st_auth_audience :: "string option"
  st_rate_limit_per_minute :: int
  st_rate_limit_per_minute_per_user :: int
  st_max_request_bytes :: int
  st_database_url :: "string option"
  st_redis_url :: "string option"
  st_master_key :: "string option"
  st_allow_remote_hardware :: bool
  st_allow_remote_hardware_default :: bool
  st_max_shots_per_experiment :: int
  st_max_shots_per_session :: int
  st_default_shot_budget :: int
  st_session_budget_ttl_seconds :: int
  st_budget_fail_open_on_redis_error :: bool
  st_worker_pool_size :: int
  st_job_graceful_shutdown_seconds :: int
  st_job_timeout_seconds :: int
  st_job_queue_max_pending :: int
  st_job_queue_db_path :: string
  st_enable_metrics :: bool
  st_metrics_port :: int
  st_metrics_bind_address :: string
  st_metrics_collection_interval_seconds :: int
  st_metrics_use_shared_registry :: bool
  st_metrics_shared_registry_endpoint_enabled :: bool
  st_metrics_worker_endpoint_enabled :: bool
  st_metrics_worker_port :: int
  st_metrics_worker_bind_address :: string
  st_metrics_worker_use_shared_registry :: bool
  st_metrics_guard_check_interval_seconds :: int
  st_metrics_guard_restart_backoff_seconds :: int
  st_health_cache_ttl_seconds :: int
  st_require_api_key :: bool
  st_api_key :: "string option"
  st_auth_db_path :: string
  st_cookie_secure :: bool
  st_cookie_samesite :: string
  st_session_cookie_name :: string
  st_csrf_cookie_name :: string
  st_session_ttl_seconds :: int
  st_password_pbkdf2_iterations :: int
  st_refresh_cookie_name :: string
  st_allow_provider_simulation :: bool
  st_openai_api_key :: "string option"
  st_openai_base_url :: string
  st_openai_model :: string
  st_agent_chat_limit_requests :: int
  st_agent_chat_limit_window_seconds :: int

definition default_settings :: settings where
  "default_settings =
     \<lparr>st_env = Dev, st_api_prefix = ''/api'', st_allowed_origins_raw = None,
      st_cors_allow_credentials = False, st_auth_required = False, st_jwks_url = None,
      st_auth_issuer = None, st_auth_audience = None, st_rate_limit_per_minute = 120,
      st_rate_limit_per_minute_per_user = 120, st_max_request_bytes = 1000000, st_database_url = None,
      st_redis_url = None, st_master_key = None, st_allow_remote_hardware = True,
      st_allow_remote_hardware_default = True, st_max_shots_per_experiment = 200000,
      st_max_shots_per_session = 1000000, st_default_shot_budget = 2048,
      st_session_budget_ttl_seconds = 3600, st_budget_fail_open_on_redis_error = False,
      st_worker_pool_size = 4, st_job_graceful_shutdown_seconds = 5, st_job_timeout_seconds = 90,
      st_job_queue_max_pending = 1000, st_job_queue_db_path = ''data/jobs.sqlite3'',
      st_enable_metrics = True, st_metrics_port = 9000, st_metrics_bind_address = ''0.0.0.0'',
      st_metrics_collection_interval_seconds = 15, st_metrics_use_shared_registry = False,
      st_metrics_shared_registry_endpoint_enabled = False, st_metrics_worker_endpoint_enabled = False,
      st_metrics_worker_port = 9001, st_metrics_worker_bind_address = ''0.0.0.0'',
      st_metrics_worker_use_shared_registry = False, st_metrics_guard_check_interval_seconds = 60,
      st_metrics_guard_restart_backoff_seconds = 180, st_health_cache_ttl_seconds = 3,
      st_require_api_key = True, st_api_key = None, st_auth_db_path = ''data/auth.sqlite3'',
      st_cookie_secure = False, st_cookie_samesite = ''lax'',
      st_session_cookie_name = ''synqc_session'', st_csrf_cookie_name = ''synqc_csrf'',
      st_session_ttl_seconds = 604800, st_password_pbkdf2_iterations = 260000,
      st_refresh_cookie_name = ''synqc_refresh'', st_allow_provider_simulation = False,
      st_openai_api_key = None, st_openai_base_url = ''https://api.openai.com/v1'',
      st_openai_model = ''gpt-4o-mini'', st_agent_chat_limit_requests = 10,
      st_agent_chat_limit_window_seconds = 60\<rparr>"

text \<open>The \<open>ge\<close> and \<open>le\<close> bounds, which pydantic enforces when the settings object is built.\<close>

definition settings_valid :: "settings \<Rightarrow> bool" where
  "settings_valid s \<longleftrightarrow>
     0 \<le> st_rate_limit_per_minute s \<and>
     0 \<le> st_rate_limit_per_minute_per_user s \<and>
     1 \<le> st_max_request_bytes s \<and>
     1 \<le> st_max_shots_per_experiment s \<and>
     1 \<le> st_max_shots_per_session s \<and>
     1 \<le> st_default_shot_budget s \<and>
     60 \<le> st_session_budget_ttl_seconds s \<and>
     1 \<le> st_worker_pool_size s \<and>
     0 \<le> st_job_graceful_shutdown_seconds s \<and>
     0 \<le> st_job_timeout_seconds s \<and>
     1 \<le> st_job_queue_max_pending s \<and>
     1 \<le> st_metrics_port s \<and>
     st_metrics_port s \<le> 65535 \<and>
     5 \<le> st_metrics_collection_interval_seconds s \<and>
     1 \<le> st_metrics_worker_port s \<and>
     st_metrics_worker_port s \<le> 65535 \<and>
     1 \<le> st_metrics_guard_check_interval_seconds s \<and>
     1 \<le> st_metrics_guard_restart_backoff_seconds s \<and>
     0 \<le> st_health_cache_ttl_seconds s \<and>
     300 \<le> st_session_ttl_seconds s \<and>
     100000 \<le> st_password_pbkdf2_iterations s \<and>
     1 \<le> st_agent_chat_limit_requests s \<and>
     1 \<le> st_agent_chat_limit_window_seconds s"

text \<open>\<open>_validate_master_key\<close>: a text outside ASCII or that does not decode is refused.\<close>

definition validate_master_key :: "string option \<Rightarrow> string option py" where
  "validate_master_key key =
     (case key of
        None \<Rightarrow> Inr None
      | Some v \<Rightarrow>
          if (\<exists>c \<in> set v. 128 \<le> (of_char c :: nat)) \<or> a2b 0 0 0 v = None
          then Inl (ExnValue ''SYNQC_MASTER_KEY must be base64 urlsafe encoded'') else Inr (Some v))"

text \<open>\<open>model_post_init\<close>: fallbacks from the process environment, first non-empty variable wins.\<close>

definition first_set :: "(string, string) dict \<Rightarrow> string list \<Rightarrow> string option" where
  "first_set env names =
     (case filter (\<lambda>n. truthy_str (dict_get env n)) names of
        [] \<Rightarrow> None
      | n # _ \<Rightarrow> dict_get env n)"

definition model_post_init :: "(string, string) dict \<Rightarrow> settings \<Rightarrow> settings" where
  "model_post_init env s =
     (let s1 = (if st_allowed_origins_raw s = None then
                  (case first_set env [''SYNQC_ALLOWED_ORIGINS'', ''SYNQC_CORS_ALLOW_ORIGINS''] of
                     None \<Rightarrow> s | Some v \<Rightarrow> s\<lparr>st_allowed_origins_raw := Some v\<rparr>)
                else s) in
      if st_database_url s1 = None then
        (case first_set env [''DATABASE_URL''] of
           None \<Rightarrow> s1 | Some v \<Rightarrow> s1\<lparr>st_database_url := Some v\<rparr>)
      else s1)"

definition allowed_origins :: "settings \<Rightarrow> string list" where
  "allowed_origins s =
     map py_strip (filter (\<lambda>origin. py_strip origin \<noteq> [])
       (py_split (CHR '','') (or_str (st_allowed_origins_raw s) [])))"

text \<open>\<open>_require\<close> raises \<open>ValueError\<close>; the checks run in order and the first failure wins.\<close>

definition require :: "bool \<Rightarrow> string \<Rightarrow> unit py" where
  "require c msg = (if c then Inr () else Inl (ExnValue msg))"

definition ensure_prod_safety :: "settings \<Rightarrow> unit py" where
  "ensure_prod_safety s =
     (if st_env s \<noteq> Prod then Inr ()
      else py_bind (require (allowed_origins s \<noteq> []) ''SYNQC_ALLOWED_ORIGINS must be set in prod'') (\<lambda>_.
           py_bind (require (st_auth_required s) ''SYNQC_AUTH_REQUIRED must be true in prod'') (\<lambda>_.
           py_bind (require (truthy_str (st_jwks_url s)) ''SYNQC_JWKS_URL must be set in prod'') (\<lambda>_.
           py_bind (require (truthy_str (st_auth_issuer s)) ''SYNQC_AUTH_ISSUER must be set in prod'') (\<lambda>_.
           py_bind (require (truthy_str (st_auth_audience s)) ''SYNQC_AUTH_AUDIENCE must be set in prod'') (\<lambda>_.
           require (truthy_str (st_database_url s)) ''DATABASE_URL must be set in prod''))))))"

lemma default_settings_valid: "settings_valid default_settings"
  by (simp add: settings_valid_def default_settings_def)

lemma allowed_origins_nonblank: "origin \<in> set (allowed_origins s) \<Longrightarrow> origin \<noteq> []"
  by (auto simp: allowed_origins_def)

lemma ensure_prod_safety_iff:
  "ensure_prod_safety s = Inr () \<longleftrightarrow>
     st_env s = Dev \<or>
     (allowed_origins s \<noteq> [] \<and> st_auth_required s \<and> truthy_str (st_jwks_url s) \<and>
      truthy_str (st_auth_issuer s) \<and> truthy_str (st_auth_audience s) \<and>
      truthy_str (st_database_url s))"
  by (cases "st_env s") (simp_all add: ensure_prod_safety_def require_def)

end
