(* ===== verification/Redis_Kv.thy ===== *)
theory Redis_Kv
  imports Synqc_Prelude
begin

text \<open>
  The Redis server as the sources use it: a parameter. \<open>redis_kv\<close> holds the commands on an
  abstract server state, each with the server's time; \<open>redis_kv_laws\<close> states their documented
  behaviour. A call from Python may also fail: \<open>net_fault\<close> says whether the command reached the
  server. \<open>kv_reference\<close> is one server satisfying the laws, used to evaluate examples.
\<close>

datatype net_fault = Fine | Refused string | LostReply string

record 'r redis_kv =
  rk_get :: "real \<Rightarrow> string \<Rightarrow> 'r \<Rightarrow> string option"
  rk_set :: "real \<Rightarrow> string \<Rightarrow> string \<Rightarrow> int option \<Rightarrow> 'r \<Rightarrow> 'r"
  rk_expire :: "real \<Rightarrow> string \<Rightarrow> int \<Rightarrow> 'r \<Rightarrow> 'r"
  rk_delete :: "real \<Rightarrow> string \<Rightarrow> 'r \<Rightarrow> 'r"
  rk_keys :: "real \<Rightarrow> 'r \<Rightarrow> string list"

text \<open>
  \<open>GET\<close> after each command: \<open>SET\<close> stores and drops an earlier expiry, \<open>SET EX n\<close> and
  \<open>EXPIRE n\<close> make the key vanish \<open>n\<close> seconds later, other keys are untouched, and nothing
  appears by itself.
\<close>

definition redis_kv_laws :: "'r redis_kv \<Rightarrow> bool" where
  "redis_kv_laws K \<longleftrightarrow>
     (\<forall>now t k k' v s.
        rk_get K t k' (rk_set K now k v None s) = (if k' = k then Some v else rk_get K t k' s)) \<and>
     (\<forall>now t k k' v n s. 0 < n \<longrightarrow>
        rk_get K t k' (rk_set K now k v (Some n) s) =
          (if k' = k then (if t < now + of_int n then Some v else None) else rk_get K t k' s)) \<and>
     (\<forall>now t k k' n s. 0 < n \<longrightarrow>
        rk_get K t k' (rk_expire K now k n s) =
          (if k' = k then (if t < now + of_int n then rk_get K now k s else None) else rk_get K t k' s)) \<and>
     (\<forall>now t k k' s.
        rk_get K t k' (rk_delete K now k s) = (if k' = k then None else rk_get K t k' s)) \<and>
     (\<forall>now t k s. now \<le> t \<longrightarrow> rk_get K t k s = None \<or> rk_get K t k s = rk_get K now k s)"

lemma kv_set:
  "redis_kv_laws K \<Longrightarrow>
     rk_get K t k' (rk_set K now k v None s) = (if k' = k then Some v else rk_get K t k' s)"
  by (simp add: redis_kv_laws_def)

lemma kv_set_ex:
  "redis_kv_laws K \<Longrightarrow> 0 < n \<Longrightarrow>
     rk_get K t k' (rk_set K now k v (Some n) s) =
       (if k' = k then (if t < now + of_int n then Some v else None) else rk_get K t k' s)"
  by (simp add: redis_kv_laws_def)

lemma kv_expire:
  "redis_kv_laws K \<Longrightarrow> 0 < n \<Longrightarrow>
     rk_get K t k' (rk_expire K now k n s) =
       (if k' = k then (if t < now + of_int n then rk_get K now k s else None) else rk_get K t k' s)"
  by (simp add: redis_kv_laws_def)

lemma kv_delete:
  "redis_kv_laws K \<Longrightarrow>
     rk_get K t k' (rk_delete K now k s) = (if k' = k then None else rk_get K t k' s)"
  by (simp add: redis_kv_laws_def)

lemma kv_decay:
  "redis_kv_laws K \<Longrightarrow> now \<le> t \<Longrightarrow> rk_get K t k s = None \<or> rk_get K t k s = rk_get K now k s"
  by (simp add: redis_kv_laws_def)

section \<open>A server satisfying the laws\<close>

type_synonym kv_state = "(string \<times> string \<times> real option) list"

definition kv_live :: "real \<Rightarrow> string \<times> real option \<Rightarrow> bool" where
  "kv_live t e = (case snd e of None \<Rightarrow> True | Some d \<Rightarrow> t < d)"

definition kv_reference :: "kv_state redis_kv" where
  "kv_reference =
     \<lparr>rk_get = (\<lambda>t k s. case map_of s k of None \<Rightarrow> None | Some e \<Rightarrow> if kv_live t e then Some (fst e) else None),
      rk_set = (\<lambda>now k v ex s. dict_set k (v, map_option (\<lambda>n. now + of_int n) ex) s),
      rk_expire = (\<lambda>now k n s. case map_of s k of None \<Rightarrow> s
                     | Some e \<Rightarrow> if kv_live now e then dict_set k (fst e, Some (now + of_int n)) s else dict_pop k s),
      rk_delete = (\<lambda>now k s. dict_pop k s),
      rk_keys = (\<lambda>t s. map fst (filter (\<lambda>(k, e). kv_live t e) s))\<rparr>"

lemma kv_live_mono: "now \<le> t \<Longrightarrow> kv_live t e \<Longrightarrow> kv_live now e"
  by (auto simp: kv_live_def split: option.splits)

lemma kv_reference_laws: "redis_kv_laws kv_reference"
  unfolding redis_kv_laws_def kv_reference_def
  by (auto simp: get_set get_pop kv_live_def split: option.splits)

end
