(* ===== verification/Budget.thy ===== *)
theory Budget
  imports Models Redis_Kv
begin

text \<open>
  The per-session shot budget (\<open>backend/synqc_backend/budget.py\<close>): \<open>BudgetTracker\<close> with its
  in-memory dictionary, its Redis path (the Lua reserve script, run atomically by the server) and
  the failure policy between them. Usage is kept with a sliding time to live.

  The interface \<open>shot_ledger\<close> is what the engine relies on: a reservation is accepted exactly
  when it fits, the new usage stays visible for one time to live, and other sessions are not
  touched. It is interpreted on the tracker in memory mode, and proved of the Redis mode for every
  server that obeys \<open>redis_kv_laws\<close>.
\<close>

section \<open>The in-memory tracker\<close>

type_synonym usage_map = "(string, int \<times> real) dict"

definition expired_sessions :: "int \<Rightarrow> real \<Rightarrow> usage_map \<Rightarrow> string list" where
  "expired_sessions ttl now d = map fst (filter (\<lambda>(_, _, ts). now - ts \<ge> of_int ttl) d)"

definition evict_expired_locked :: "int \<Rightarrow> real \<Rightarrow> usage_map \<Rightarrow> usage_map" where
  "evict_expired_locked ttl now d = dict_pop_all (expired_sessions ttl now d) d"

definition reserve_memory :: "int \<Rightarrow> real \<Rightarrow> string \<Rightarrow> int \<Rightarrow> int \<Rightarrow> usage_map
    \<Rightarrow> (bool \<times> int) \<times> usage_map" where
  "reserve_memory ttl now sid requested maxv d =
     (let d1 = evict_expired_locked ttl now d;
          current = fst (dict_get_or (0, now) d1 sid);
          new_total = current + requested in
      if new_total > maxv then ((False, current), dict_set sid (current, now) d1)
      else ((True, new_total), dict_set sid (new_total, now) d1))"

definition memory_usage :: "int \<Rightarrow> real \<Rightarrow> string \<Rightarrow> usage_map \<Rightarrow> int" where
  "memory_usage ttl now sid d = fst (dict_get_or (0, now) (evict_expired_locked ttl now d) sid)"

section \<open>The reserve script\<close>

text \<open>
  Lua numbers are doubles: exact for the integers of this script up to \<open>2 ^ 53\<close>. \<open>tostring\<close>
  prints \<open>%.14g\<close>, plain decimal below \<open>10 ^ 14\<close>; what it prints above and what
  \<open>tonumber\<close> makes of a text are the fields of \<open>lua_num\<close>.
\<close>

record lua_num =
  lua_sci :: "int \<Rightarrow> string"
  lua_tonumber :: "string \<Rightarrow> int option"

definition lua_limit :: int where
  "lua_limit = 10 ^ 14"

definition lua_laws :: "lua_num \<Rightarrow> bool" where
  "lua_laws L \<longleftrightarrow> (\<forall>n. \<bar>n\<bar> < lua_limit \<longrightarrow> lua_tonumber L (py_str_int n) = Some n)"

definition lua_tostring :: "lua_num \<Rightarrow> int \<Rightarrow> string" where
  "lua_tostring L n = (if \<bar>n\<bar> < lua_limit then py_str_int n else lua_sci L n)"

text \<open>
  \<open>None\<close> is the script error of \<open>nil + requested\<close>, raised when the stored text is not a number.
\<close>

definition lua_reserve :: "'r redis_kv \<Rightarrow> lua_num \<Rightarrow> real \<Rightarrow> string \<Rightarrow> int \<Rightarrow> int \<Rightarrow> int \<Rightarrow> 'r
    \<Rightarrow> (bool \<times> int) option \<times> 'r" where
  "lua_reserve K L now key requested maxv ttl r =
     (case lua_tonumber L (case rk_get K now key r of None \<Rightarrow> ''0'' | Some v \<Rightarrow> v) of
        None \<Rightarrow> (None, r)
      | Some current \<Rightarrow>
          (let new_total = current + requested in
           if new_total > maxv then
             (Some (False, current), if ttl > 0 then rk_expire K now key ttl r else r)
           else
             (Some (True, new_total),
              if ttl > 0 then rk_set K now key (lua_tostring L new_total) (Some ttl) r
              else rk_set K now key (lua_tostring L new_total) None r)))"

section \<open>BudgetTracker\<close>

record budget_tracker =
  bt_session_ttl_seconds :: int
  bt_fail_open_on_redis_error :: bool
  bt_in_memory_usage :: usage_map
  bt_client :: bool
  bt_redis_last_error :: "string option"

text \<open>The constructor: a client exists exactly when a non-empty URL was given.\<close>

definition budget_init :: "string option \<Rightarrow> int \<Rightarrow> bool \<Rightarrow> budget_tracker" where
  "budget_init redis_url ttl fail_open =
     \<lparr>bt_session_ttl_seconds = ttl, bt_fail_open_on_redis_error = fail_open,
      bt_in_memory_usage = [], bt_client = truthy_str redis_url, bt_redis_last_error = None\<rparr>"

definition session_key :: "string \<Rightarrow> string" where
  "session_key sid = ''synqc:session:'' @ sid @ '':shots''"

definition tracker_reserve_memory :: "real \<Rightarrow> string \<Rightarrow> int \<Rightarrow> int \<Rightarrow> budget_tracker
    \<Rightarrow> (bool \<times> int) py \<times> budget_tracker" where
  "tracker_reserve_memory now sid requested maxv bt =
     (case reserve_memory (bt_session_ttl_seconds bt) now sid requested maxv (bt_in_memory_usage bt) of
        (res, d) \<Rightarrow> (Inr res, bt\<lparr>bt_in_memory_usage := d\<rparr>))"

text \<open>
  The call of the registered script: \<open>Inl\<close> is the text of the Python exception. A lost reply
  leaves the effect on the server.
\<close>

definition call_script :: "'r redis_kv \<Rightarrow> lua_num \<Rightarrow> net_fault \<Rightarrow> real \<Rightarrow> string \<Rightarrow> int \<Rightarrow> int \<Rightarrow> int \<Rightarrow> 'r
    \<Rightarrow> (string + bool \<times> int) \<times> 'r" where
  "call_script K L fault now key requested maxv ttl r =
     (case fault of
        Refused e \<Rightarrow> (Inl e, r)
      | LostReply e \<Rightarrow> (Inl e, snd (lua_reserve K L now key requested maxv ttl r))
      | Fine \<Rightarrow>
          (case lua_reserve K L now key requested maxv ttl r of
             (None, r') \<Rightarrow> (Inl ''ResponseError'', r')
           | (Some res, r') \<Rightarrow> (Inr res, r')))"

definition budget_reserve :: "'r redis_kv \<Rightarrow> lua_num \<Rightarrow> net_fault \<Rightarrow> real \<Rightarrow> string \<Rightarrow> int \<Rightarrow> int
    \<Rightarrow> budget_tracker \<times> 'r \<Rightarrow> (bool \<times> int) py \<times> budget_tracker \<times> 'r" where
  "budget_reserve K L fault now sid requested maxv s =
     (case s of (bt, r) \<Rightarrow>
        if requested < 0 then (Inl (ExnValue ''requested must be >= 0''), bt, r)
        else if maxv \<le> 0 then (Inl (ExnValue ''max_shots_per_session must be > 0''), bt, r)
        else if bt_client bt then
          (case call_script K L fault now (session_key sid) requested maxv (bt_session_ttl_seconds bt) r of
             (Inr res, r') \<Rightarrow> (Inr res, bt\<lparr>bt_redis_last_error := None\<rparr>, r')
           | (Inl e, r') \<Rightarrow>
               (let bt1 = bt\<lparr>bt_redis_last_error := Some e\<rparr> in
                if \<not> bt_fail_open_on_redis_error bt then
                  (Inl (BudgetBackendUnavailable ''Budget backend unavailable (Redis error)''), bt1, r')
                else (case tracker_reserve_memory now sid requested maxv bt1 of
                        (res, bt2) \<Rightarrow> (res, bt2, r'))))
        else (case tracker_reserve_memory now sid requested maxv bt of (res, bt1) \<Rightarrow> (res, bt1, r)))"

text \<open>\<open>get_usage\<close>: a failing read, or a stored text \<open>int()\<close> rejects, falls through to memory.\<close>

definition budget_get_usage :: "'r redis_kv \<Rightarrow> net_fault \<Rightarrow> real \<Rightarrow> string \<Rightarrow> budget_tracker \<times> 'r
    \<Rightarrow> int \<times> budget_tracker \<times> 'r" where
  "budget_get_usage K fault now sid s =
     (case s of (bt, r) \<Rightarrow>
       (let answer =
          (if bt_client bt \<and> fault = Fine then
             (case rk_get K now (session_key sid) r of None \<Rightarrow> Some 0 | Some v \<Rightarrow> py_int_of_str v)
           else None) in
        case answer of
          Some u \<Rightarrow> (u, bt, r)
        | None \<Rightarrow>
            (let d = evict_expired_locked (bt_session_ttl_seconds bt) now (bt_in_memory_usage bt) in
             (fst (dict_get_or (0, now) d sid), bt\<lparr>bt_in_memory_usage := d\<rparr>, r))))"

definition budget_remaining_shots :: "'r redis_kv \<Rightarrow> net_fault \<Rightarrow> real \<Rightarrow> string \<Rightarrow> int
    \<Rightarrow> budget_tracker \<times> 'r \<Rightarrow> int \<times> budget_tracker \<times> 'r" where
  "budget_remaining_shots K fault now sid maxv s =
     (case budget_get_usage K fault now sid s of (usage, s') \<Rightarrow> (max 0 (maxv - usage), s'))"

definition budget_reset_session :: "'r redis_kv \<Rightarrow> net_fault \<Rightarrow> real \<Rightarrow> string
    \<Rightarrow> budget_tracker \<times> 'r \<Rightarrow> budget_tracker \<times> 'r" where
  "budget_reset_session K fault now sid s =
     (case s of (bt, r) \<Rightarrow>
       (bt\<lparr>bt_in_memory_usage := dict_pop sid (bt_in_memory_usage bt)\<rparr>,
        if bt_client bt then
          (case fault of Refused _ \<Rightarrow> r | _ \<Rightarrow> rk_delete K now (session_key sid) r)
        else r))"

text \<open>\<open>SCAN\<close> with the pattern \<open>synqc:session:*:shots\<close>; an error leaves the count at what was seen (0).\<close>

definition is_session_key :: "string \<Rightarrow> bool" where
  "is_session_key k \<longleftrightarrow>
     py_startswith k ''synqc:session:'' \<and> 20 \<le> length k \<and> drop (length k - 6) k = '':shots''"

definition count_session_keys :: "'r redis_kv \<Rightarrow> net_fault \<Rightarrow> real \<Rightarrow> budget_tracker \<times> 'r
    \<Rightarrow> int \<times> budget_tracker \<times> 'r" where
  "count_session_keys K fault now s =
     (case s of (bt, r) \<Rightarrow>
        if \<not> bt_client bt then
          (let d = evict_expired_locked (bt_session_ttl_seconds bt) now (bt_in_memory_usage bt) in
           (int (length d), bt\<lparr>bt_in_memory_usage := d\<rparr>, r))
        else if fault = Fine then (int (length (filter is_session_key (rk_keys K now r))), bt, r)
        else (0, bt, r))"

record budget_health =
  bh_backend :: string
  bh_redis_ok :: "bool option"
  bh_session_ttl_seconds :: int
  bh_redis_last_error :: "string option"
  bh_session_keys :: int

definition budget_health_summary :: "'r redis_kv \<Rightarrow> net_fault \<Rightarrow> net_fault \<Rightarrow> real \<Rightarrow> budget_tracker \<times> 'r
    \<Rightarrow> budget_health \<times> budget_tracker \<times> 'r" where
  "budget_health_summary K ping_fault scan_fault now s =
     (case count_session_keys K scan_fault now s of
        (n, bt, r) \<Rightarrow>
          (if bt_client bt then
             \<lparr>bh_backend = ''redis'', bh_redis_ok = Some (ping_fault = Fine),
              bh_session_ttl_seconds = bt_session_ttl_seconds bt,
              bh_redis_last_error = bt_redis_last_error bt, bh_session_keys = n\<rparr>
           else
             \<lparr>bh_backend = ''memory'', bh_redis_ok = None,
              bh_session_ttl_seconds = bt_session_ttl_seconds bt,
              bh_redis_last_error = None, bh_session_keys = n\<rparr>, bt, r))"

section \<open>Eviction and usage in memory\<close>

definition live_entry :: "int \<Rightarrow> real \<Rightarrow> int \<times> real \<Rightarrow> bool" where
  "live_entry ttl t e \<longleftrightarrow> t - snd e < of_int ttl"

lemma expired_iff:
  "dict_wf d \<Longrightarrow> k \<in> set (expired_sessions ttl now d) \<longleftrightarrow>
     (\<exists>e. dict_get d k = Some e \<and> \<not> live_entry ttl now e)"
  unfolding expired_sessions_def live_entry_def
  by (auto simp: wf_in_get image_iff)

lemma evict_wf [wf_intros]: "dict_wf d \<Longrightarrow> dict_wf (evict_expired_locked ttl now d)"
  by (simp add: evict_expired_locked_def wf_pop_all)

lemma evict_get:
  "dict_wf d \<Longrightarrow> dict_get (evict_expired_locked ttl now d) k =
     (case dict_get d k of None \<Rightarrow> None | Some e \<Rightarrow> if live_entry ttl now e then Some e else None)"
  by (auto simp: evict_expired_locked_def get_pop_all expired_iff split: option.splits)

lemma memory_usage_eq:
  "dict_wf d \<Longrightarrow> memory_usage ttl t sid d =
     (case dict_get d sid of None \<Rightarrow> 0 | Some e \<Rightarrow> if live_entry ttl t e then fst e else 0)"
  by (simp add: memory_usage_def evict_get dict_get_or_def split: option.splits)

lemma live_mono: "now \<le> t \<Longrightarrow> live_entry ttl t e \<Longrightarrow> live_entry ttl now e"
  by (simp add: live_entry_def)

lemma reserve_memory_result:
  "dict_wf d \<Longrightarrow> fst (reserve_memory ttl now sid req maxv d) =
     (let u = memory_usage ttl now sid d in
      if u + req \<le> maxv then (True, u + req) else (False, u))"
  by (simp add: reserve_memory_def memory_usage_def Let_def)

lemma reserve_memory_get:
  assumes "dict_wf d"
  shows "dict_get (snd (reserve_memory ttl now sid req maxv d)) k =
     (if k = sid then Some (snd (fst (reserve_memory ttl now sid req maxv d)), now)
      else dict_get (evict_expired_locked ttl now d) k)"
  by (simp add: reserve_memory_def Let_def get_set)

lemma reserve_memory_wf [wf_intros]:
  "dict_wf d \<Longrightarrow> dict_wf (snd (reserve_memory ttl now sid req maxv d))"
  by (simp add: reserve_memory_def Let_def wf_set evict_wf)

lemma reserve_memory_usage:
  assumes "dict_wf d" and "now \<le> t"
  shows "memory_usage ttl t k (snd (reserve_memory ttl now sid req maxv d)) =
     (if k = sid
      then (if t < now + of_int ttl then snd (fst (reserve_memory ttl now sid req maxv d)) else 0)
      else memory_usage ttl t k d)"
  using assms live_mono [OF assms(2), of ttl]
  by (auto simp: memory_usage_eq reserve_memory_wf reserve_memory_get evict_get live_entry_def
      split: option.splits)

section \<open>The ledger interface\<close>

text \<open>
  A reservation attempt is its time, its session, the shots asked for and what the network does
  to the call. \<open>ledger_trace\<close> runs a list of attempts and lists what each caller is told.
\<close>

type_synonym attempt = "real \<times> string \<times> int \<times> net_fault"
type_synonym answer = "(bool \<times> int) py"

fun ledger_trace :: "(net_fault \<Rightarrow> real \<Rightarrow> string \<Rightarrow> int \<Rightarrow> int \<Rightarrow> 's \<Rightarrow> answer \<times> 's)
    \<Rightarrow> int \<Rightarrow> attempt list \<Rightarrow> 's \<Rightarrow> answer list \<times> 's" where
  "ledger_trace rsv maxv [] s = ([], s)"
| "ledger_trace rsv maxv ((now, sid, req, fault) # es) s =
     (case rsv fault now sid req maxv s of
        (res, s1) \<Rightarrow> (case ledger_trace rsv maxv es s1 of (rs, s2) \<Rightarrow> (res # rs, s2)))"

fun granted :: "answer \<Rightarrow> bool" where
  "granted (Inr (b, _)) = b"
| "granted (Inl _) = False"

fun answered :: "answer \<Rightarrow> bool" where
  "answered (Inr _) = True"
| "answered (Inl _) = False"

fun granted_shots :: "string \<Rightarrow> attempt list \<Rightarrow> answer list \<Rightarrow> int" where
  "granted_shots k ((now, sid, req, fault) # es) (r # rs) =
     (if sid = k \<and> granted r then req else 0) + granted_shots k es rs"
| "granted_shots k _ _ = 0"

text \<open>
  \<open>uninterrupted\<close>: times never go back, requests are not negative, and the session \<open>k\<close> is never
  idle for a whole time to live: each of its attempts comes less than \<open>ttl\<close> after its last
  answered one (\<open>prev\<close>), if there was one.
\<close>

fun uninterrupted :: "int \<Rightarrow> string \<Rightarrow> real \<Rightarrow> real option \<Rightarrow> attempt list \<Rightarrow> answer list \<Rightarrow> bool" where
  "uninterrupted ttl k t0 prev ((now, sid, req, fault) # es) (r # rs) =
     (t0 \<le> now \<and> 0 \<le> req \<and>
      (sid = k \<longrightarrow> (case prev of None \<Rightarrow> True | Some p \<Rightarrow> now < p + of_int ttl)) \<and>
      uninterrupted ttl k now (if sid = k \<and> answered r then Some now else prev) es rs)"
| "uninterrupted ttl k t0 prev _ _ = True"

locale shot_ledger =
  fixes ok :: "'s \<Rightarrow> bool"
    and ttl_of :: "'s \<Rightarrow> int"
    and usage :: "real \<Rightarrow> string \<Rightarrow> 's \<Rightarrow> int"
    and cap_ok :: "int \<Rightarrow> bool"
    and rsv :: "net_fault \<Rightarrow> real \<Rightarrow> string \<Rightarrow> int \<Rightarrow> int \<Rightarrow> 's \<Rightarrow> answer \<times> 's"
  assumes usage_nonneg: "ok s \<Longrightarrow> 0 \<le> usage t sid s"
    and cap_pos: "cap_ok m \<Longrightarrow> 0 < m"
    and rsv_ok: "ok s \<Longrightarrow> 0 \<le> req \<Longrightarrow> cap_ok m \<Longrightarrow> ok (snd (rsv f now sid req m s))"
    and rsv_ttl: "ok s \<Longrightarrow> 0 \<le> req \<Longrightarrow> cap_ok m \<Longrightarrow> ttl_of (snd (rsv f now sid req m s)) = ttl_of s"
    and rsv_answers: "ok s \<Longrightarrow> 0 \<le> req \<Longrightarrow> cap_ok m \<Longrightarrow> answered (fst (rsv Fine now sid req m s))"
    and rsv_result: "ok s \<Longrightarrow> 0 \<le> req \<Longrightarrow> cap_ok m \<Longrightarrow> fst (rsv f now sid req m s) = Inr (acc, u) \<Longrightarrow>
      (acc \<longleftrightarrow> usage now sid s + req \<le> m) \<and> u = usage now sid s + (if acc then req else 0)"
    and rsv_usage: "ok s \<Longrightarrow> 0 \<le> req \<Longrightarrow> cap_ok m \<Longrightarrow> fst (rsv f now sid req m s) = Inr (acc, u) \<Longrightarrow>
      now \<le> t \<Longrightarrow> usage t sid (snd (rsv f now sid req m s)) = (if t < now + of_int (ttl_of s) then u else 0)"
    and rsv_unanswered: "ok s \<Longrightarrow> 0 \<le> req \<Longrightarrow> cap_ok m \<Longrightarrow> fst (rsv f now sid req m s) = Inl e \<Longrightarrow>
      now \<le> t \<Longrightarrow> t < now + of_int (ttl_of s) \<Longrightarrow> usage t sid s \<le> usage t sid (snd (rsv f now sid req m s))"
    and rsv_frame: "ok s \<Longrightarrow> 0 \<le> req \<Longrightarrow> cap_ok m \<Longrightarrow> sid' \<noteq> sid \<Longrightarrow> now \<le> t \<Longrightarrow>
      usage t sid' (snd (rsv f now sid req m s)) = usage t sid' s"
begin

text \<open>\<open>U\<close> shots of session \<open>k\<close> are on the books until its time to live runs out.\<close>

definition on_books :: "string \<Rightarrow> real option \<Rightarrow> real \<Rightarrow> int \<Rightarrow> 's \<Rightarrow> bool" where
  "on_books k prev t0 U s \<longleftrightarrow>
     (case prev of None \<Rightarrow> U \<le> 0
      | Some p \<Rightarrow> p \<le> t0 \<and> (\<forall>t. t0 \<le> t \<longrightarrow> t < p + of_int (ttl_of s) \<longrightarrow> U \<le> usage t k s))"

lemma attempt_on_books:
  assumes ok: "ok s" and req: "0 \<le> req" and cap: "cap_ok m" and t0: "t0 \<le> now"
    and books: "on_books k prev t0 U s" and um: "U \<le> m"
    and dense: "sid = k \<longrightarrow> (case prev of None \<Rightarrow> True | Some p \<Rightarrow> now < p + of_int (ttl_of s))"
    and r: "rsv f now sid req m s = (r, s')"
  shows "on_books k (if sid = k \<and> answered r then Some now else prev) now
           (U + (if sid = k \<and> granted r then req else 0)) s'
       \<and> U + (if sid = k \<and> granted r then req else 0) \<le> m"
proof (cases "sid = k")
  case False
  then show ?thesis
    using books t0 um r rsv_frame [OF ok req cap, of k sid now _ f] rsv_ttl [OF ok req cap, of f now sid]
    by (auto simp: on_books_def split: option.splits)
next
  case True
  note ttl = rsv_ttl [OF ok req cap, of f now sid, unfolded r snd_conv]
  show ?thesis
  proof (cases r)
    case (Inl e)
    then have "fst (rsv f now sid req m s) = Inl e" using r by simp
    from rsv_unanswered [OF ok req cap this] have up: "\<And>t. now \<le> t \<Longrightarrow> t < now + of_int (ttl_of s) \<Longrightarrow> usage t k s \<le> usage t k s'"
      using r True by simp
    have "on_books k prev now U s'"
      using books t0 ttl by (auto simp: on_books_def split: option.splits intro: order_trans [OF _ up])
    then show ?thesis using um Inl by simp
  next
    case (Inr b)
    obtain acc u where b: "r = Inr (acc, u)" using Inr by (cases b) auto
    then have e: "fst (rsv f now sid req m s) = Inr (acc, u)" using r by simp
    have low: "U \<le> usage now k s"
      using books dense True t0 usage_nonneg [OF ok, of now k]
      by (auto simp: on_books_def split: option.splits)
    have "\<And>t. now \<le> t \<Longrightarrow> t < now + of_int (ttl_of s) \<Longrightarrow> usage t sid s' = u"
      using rsv_usage [OF ok req cap e] r by simp
    then show ?thesis
      using low rsv_result [OF ok req cap e] b ttl True um
      by (auto simp: on_books_def)
  qed
qed

lemma trace_cap_from:
  assumes "ok s" and "cap_ok m" and "on_books k prev t0 U s" and "U \<le> m"
    and "fst (ledger_trace rsv m es s) = rs" and "uninterrupted (ttl_of s) k t0 prev es rs"
  shows "U + granted_shots k es rs \<le> m"
  using assms
proof (induction es arbitrary: s t0 prev U rs)
  case (Cons e es)
  obtain now sid req f where e: "e = (now, sid, req, f)" by (cases e)
  obtain r s1 where r: "rsv f now sid req m s = (r, s1)" by (cases "rsv f now sid req m s")
  obtain rs1 s2 where rs1: "ledger_trace rsv m es s1 = (rs1, s2)" by (cases "ledger_trace rsv m es s1")
  have rs: "rs = r # rs1" using Cons.prems(5) e r rs1 by simp
  have rs1': "fst (ledger_trace rsv m es s1) = rs1" using rs1 by simp
  have u: "t0 \<le> now" "0 \<le> req"
    "sid = k \<longrightarrow> (case prev of None \<Rightarrow> True | Some p \<Rightarrow> now < p + of_int (ttl_of s))"
    "uninterrupted (ttl_of s) k now (if sid = k \<and> answered r then Some now else prev) es rs1"
    using Cons.prems(6) e rs by auto
  have s1: "ok s1" "ttl_of s1 = ttl_of s"
    using rsv_ok [OF Cons.prems(1) u(2) Cons.prems(2), of f now sid]
      rsv_ttl [OF Cons.prems(1) u(2) Cons.prems(2), of f now sid] r by simp_all
  note step = attempt_on_books [OF Cons.prems(1) u(2) Cons.prems(2) u(1) Cons.prems(3,4) u(3) r]
  show ?case
    using Cons.IH [OF s1(1) Cons.prems(2) step [THEN conjunct1] step [THEN conjunct2] rs1'] u(4) s1(2)
    by (simp add: e rs add.assoc)
qed simp

lemma trace_cap:
  assumes "ok s" and "cap_ok m" and "fst (ledger_trace rsv m es s) = rs"
    and "uninterrupted (ttl_of s) k t0 None es rs"
  shows "granted_shots k es rs \<le> m"
proof -
  have "on_books k None t0 0 s" by (simp add: on_books_def)
  moreover have "0 \<le> m" using cap_pos [OF assms(2)] by simp
  ultimately show ?thesis using trace_cap_from [OF assms(1,2) _ _ assms(3,4), of 0] by simp
qed

end

text \<open>Two ledgers that start with the same books answer every sequence of attempts alike.\<close>

lemma ledgers_agree:
  assumes "shot_ledger ok1 ttl1 usage1 cap1 rsv1" and "shot_ledger ok2 ttl2 usage2 cap2 rsv2"
    and "ok1 s1" and "ok2 s2" and "ttl1 s1 = ttl2 s2" and "cap1 m" and "cap2 m"
    and "\<forall>t k. t0 \<le> t \<longrightarrow> usage1 t k s1 = usage2 t k s2"
    and "sorted (t0 # map fst es)" and "\<forall>e \<in> set es. 0 \<le> fst (snd (snd e)) \<and> snd (snd (snd e)) = Fine"
  shows "fst (ledger_trace rsv1 m es s1) = fst (ledger_trace rsv2 m es s2)"
  using assms(3-)
proof (induction es arbitrary: s1 s2 t0)
  case (Cons e es)
  obtain now k req f where e: "e = (now, k, req, f)" by (cases e)
  note L1 = assms(1) and L2 = assms(2)
  have a: "0 \<le> req" "f = Fine" "t0 \<le> now" using Cons.prems e by auto
  obtain r1 s1' where r1: "rsv1 Fine now k req m s1 = (r1, s1')" by (cases "rsv1 Fine now k req m s1")
  obtain r2 s2' where r2: "rsv2 Fine now k req m s2 = (r2, s2')" by (cases "rsv2 Fine now k req m s2")
  obtain b1 u1 where b1: "r1 = Inr (b1, u1)"
    using shot_ledger.rsv_answers [OF L1 Cons.prems(1) a(1) Cons.prems(4), of now k] r1
    by (cases r1) auto
  obtain b2 u2 where b2: "r2 = Inr (b2, u2)"
    using shot_ledger.rsv_answers [OF L2 Cons.prems(2) a(1) Cons.prems(5), of now k] r2
    by (cases r2) auto
  have same: "usage1 now k s1 = usage2 now k s2" using Cons.prems(6) a(3) by blast
  note res1 = shot_ledger.rsv_result [OF L1 Cons.prems(1) a(1) Cons.prems(4), of Fine now k b1 u1]
  note res2 = shot_ledger.rsv_result [OF L2 Cons.prems(2) a(1) Cons.prems(5), of Fine now k b2 u2]
  have eq: "r1 = r2" using res1 res2 same b1 b2 r1 r2 by simp
  note us1 = shot_ledger.rsv_usage [OF L1 Cons.prems(1) a(1) Cons.prems(4), of Fine now k b1 u1]
    shot_ledger.rsv_frame [OF L1 Cons.prems(1) a(1) Cons.prems(4), of _ k now _ Fine]
  note us2 = shot_ledger.rsv_usage [OF L2 Cons.prems(2) a(1) Cons.prems(5), of Fine now k b2 u2]
    shot_ledger.rsv_frame [OF L2 Cons.prems(2) a(1) Cons.prems(5), of _ k now _ Fine]
  have "\<forall>t j. now \<le> t \<longrightarrow> usage1 t j s1' = usage2 t j s2'"
  proof (intro allI impI)
    fix t j assume t: "now \<le> t"
    show "usage1 t j s1' = usage2 t j s2'"
    proof (cases "j = k")
      case True
      then show ?thesis using us1(1) [of t] us2(1) [of t] t r1 r2 b1 b2 eq Cons.prems(3) by simp
    next
      case False
      then show ?thesis
        using us1(2) [of j t] us2(2) [of j t] t r1 r2 Cons.prems(6) a(3) by simp
    qed
  qed
  moreover have "ok1 s1'" "ttl1 s1' = ttl1 s1" "ok2 s2'" "ttl2 s2' = ttl2 s2"
    using shot_ledger.rsv_ok [OF L1 Cons.prems(1) a(1) Cons.prems(4), of Fine now k]
      shot_ledger.rsv_ttl [OF L1 Cons.prems(1) a(1) Cons.prems(4), of Fine now k]
      shot_ledger.rsv_ok [OF L2 Cons.prems(2) a(1) Cons.prems(5), of Fine now k]
      shot_ledger.rsv_ttl [OF L2 Cons.prems(2) a(1) Cons.prems(5), of Fine now k] r1 r2 by simp_all
  ultimately have "fst (ledger_trace rsv1 m es s1') = fst (ledger_trace rsv2 m es s2')"
    using Cons.IH [of s1' s2' now] Cons.prems e by simp
  then show ?case using e a(2) r1 r2 eq by (simp add: split_beta)
qed simp

section \<open>The tracker in memory mode is a ledger\<close>

definition memory_ok :: "budget_tracker \<times> 'r \<Rightarrow> bool" where
  "memory_ok s \<longleftrightarrow> \<not> bt_client (fst s) \<and> dict_wf (bt_in_memory_usage (fst s)) \<and>
     (\<forall>k e. dict_get (bt_in_memory_usage (fst s)) k = Some e \<longrightarrow> 0 \<le> fst e)"

definition tracker_ttl :: "budget_tracker \<times> 'r \<Rightarrow> int" where
  "tracker_ttl s = bt_session_ttl_seconds (fst s)"

definition tracker_memory_usage :: "real \<Rightarrow> string \<Rightarrow> budget_tracker \<times> 'r \<Rightarrow> int" where
  "tracker_memory_usage t sid s =
     memory_usage (bt_session_ttl_seconds (fst s)) t sid (bt_in_memory_usage (fst s))"

lemma budget_reserve_memory:
  assumes "memory_ok s" and "0 \<le> req" and "0 < m"
  shows "fst (budget_reserve K L f now sid req m s) =
      Inr (fst (reserve_memory (tracker_ttl s) now sid req m (bt_in_memory_usage (fst s))))"
    and "snd (budget_reserve K L f now sid req m s) =
      ((fst s)\<lparr>bt_in_memory_usage :=
         snd (reserve_memory (tracker_ttl s) now sid req m (bt_in_memory_usage (fst s)))\<rparr>, snd s)"
  using assms
  by (auto simp: budget_reserve_def memory_ok_def tracker_reserve_memory_def tracker_ttl_def
      split: prod.splits)

lemma memory_usage_nonneg: "memory_ok s \<Longrightarrow> 0 \<le> tracker_memory_usage t sid s"
  by (auto simp: memory_ok_def tracker_memory_usage_def memory_usage_eq split: option.split)

lemma budget_reserve_memory_ok:
  assumes "memory_ok s" and "0 \<le> req" and "0 < m"
  shows "memory_ok (snd (budget_reserve K L f now sid req m s))"
proof -
  let ?d = "bt_in_memory_usage (fst s)"
  have wf: "dict_wf ?d" using assms(1) by (simp add: memory_ok_def)
  have "0 \<le> snd (fst (reserve_memory (tracker_ttl s) now sid req m ?d))"
    using memory_usage_nonneg [OF assms(1), of now sid] assms(2) wf
    by (simp add: reserve_memory_result Let_def tracker_memory_usage_def tracker_ttl_def)
  then show ?thesis
    using assms
    by (auto simp: memory_ok_def budget_reserve_memory reserve_memory_wf reserve_memory_get evict_get
        split: option.splits if_splits)
qed

interpretation memory_budget: shot_ledger memory_ok tracker_ttl tracker_memory_usage "\<lambda>m. 0 < m"
    "budget_reserve K L" for K L
proof (unfold_locales, goal_cases)
  case (1 s t sid) then show ?case by (rule memory_usage_nonneg)
next
  case (3 s req m f now sid) then show ?case by (rule budget_reserve_memory_ok)
next
  case (4 s req m f now sid) then show ?case by (simp add: budget_reserve_memory tracker_ttl_def)
next
  case (5 s req m now sid) then show ?case by (simp add: budget_reserve_memory)
next
  case (6 s req m f now sid acc u)
  then show ?case
    by (auto simp: budget_reserve_memory reserve_memory_result tracker_memory_usage_def tracker_ttl_def
        memory_ok_def Let_def split: if_splits)
next
  case (7 s req m f now sid acc u t)
  then show ?case
    by (simp add: budget_reserve_memory reserve_memory_usage tracker_memory_usage_def tracker_ttl_def
        memory_ok_def)
next
  case (8 s req m f now sid e t) then show ?case by (simp add: budget_reserve_memory)
next
  case (9 s req m sid' sid now t f)
  then show ?case
    by (simp add: budget_reserve_memory reserve_memory_usage tracker_memory_usage_def tracker_ttl_def
        memory_ok_def)
qed simp

section \<open>The tracker in Redis mode is the same ledger\<close>

text \<open>
  \<open>redis_ok\<close>: a client, the fail-closed policy, a positive time to live, and no text under a
  session key but the decimal of a count below the range where Lua prints an exponent.
\<close>

definition count_text :: "string \<Rightarrow> int \<Rightarrow> bool" where
  "count_text v n \<longleftrightarrow> 0 \<le> n \<and> n < lua_limit \<and> v = py_str_int n"

definition redis_ok :: "'r redis_kv \<Rightarrow> budget_tracker \<times> 'r \<Rightarrow> bool" where
  "redis_ok K s \<longleftrightarrow>
     bt_client (fst s) \<and> \<not> bt_fail_open_on_redis_error (fst s) \<and> 0 < bt_session_ttl_seconds (fst s) \<and>
     (\<forall>t sid v. rk_get K t (session_key sid) (snd s) = Some v \<longrightarrow> (\<exists>n. count_text v n))"

definition text_count :: "string option \<Rightarrow> int" where
  "text_count v = (case v of None \<Rightarrow> 0 | Some x \<Rightarrow> (case py_int_of_str x of None \<Rightarrow> 0 | Some n \<Rightarrow> n))"

definition redis_usage :: "'r redis_kv \<Rightarrow> real \<Rightarrow> string \<Rightarrow> budget_tracker \<times> 'r \<Rightarrow> int" where
  "redis_usage K t sid s = text_count (rk_get K t (session_key sid) (snd s))"

definition redis_cap_ok :: "int \<Rightarrow> bool" where
  "redis_cap_ok m \<longleftrightarrow> 0 < m \<and> m < lua_limit"

lemma session_key_inj [simp]: "session_key a = session_key b \<longleftrightarrow> a = b"
  by (simp add: session_key_def)

lemma text_count_decimal [simp]: "text_count None = 0" "text_count (Some (py_str_int n)) = n"
  by (simp_all add: text_count_def int_of_str_of_int)

lemma redis_ok_get:
  assumes "redis_ok K s"
  obtains "rk_get K t (session_key sid) (snd s) = None" and "redis_usage K t sid s = 0"
  | n where "rk_get K t (session_key sid) (snd s) = Some (py_str_int n)" and "0 \<le> n" and "n < lua_limit"
      and "redis_usage K t sid s = n"
proof (cases "rk_get K t (session_key sid) (snd s)")
  case None
  then show ?thesis using that(1) by (simp add: redis_usage_def)
next
  case (Some v)
  then obtain n where n: "count_text v n" using assms unfolding redis_ok_def by blast
  then show ?thesis using that(2) [of n] Some by (simp add: count_text_def redis_usage_def)
qed

lemma redis_usage_nonneg: "redis_ok K s \<Longrightarrow> 0 \<le> redis_usage K t sid s"
  by (erule redis_ok_get [of K s t sid]) simp_all

lemma redis_usage_decay:
  "redis_kv_laws K \<Longrightarrow> redis_ok K s \<Longrightarrow> now \<le> t \<Longrightarrow> redis_usage K t sid s \<le> redis_usage K now sid s"
  using kv_decay [of K now t "session_key sid" "snd s"] redis_usage_nonneg [of K s now sid]
  by (auto simp: redis_usage_def)

lemma lua_reads_usage:
  assumes "lua_laws L" and "redis_ok K s"
  shows "lua_tonumber L (case rk_get K now (session_key sid) (snd s) of None \<Rightarrow> ''0'' | Some v \<Rightarrow> v)
    = Some (redis_usage K now sid s)"
proof -
  have "lua_tonumber L (py_str_int 0) = Some 0"
    using assms(1) by (simp add: lua_laws_def lua_limit_def)
  then have z: "lua_tonumber L ''0'' = Some 0" by (simp add: str_zero)
  show ?thesis
    by (rule redis_ok_get [OF assms(2), of now sid]) (use assms(1) z in \<open>simp_all add: lua_laws_def\<close>)
qed

text \<open>The script against the ledger: its answer and the server it leaves.\<close>

lemma lua_reserve_eq:
  fixes now :: real and sid :: string
  assumes "lua_laws L" and "redis_ok K s" and "0 \<le> req" and "redis_cap_ok m"
  defines "u \<equiv> redis_usage K now sid s"
  defines "ttl \<equiv> bt_session_ttl_seconds (fst s)"
  shows "lua_reserve K L now (session_key sid) req m ttl (snd s) =
    (if u + req \<le> m
     then (Some (True, u + req), rk_set K now (session_key sid) (py_str_int (u + req)) (Some ttl) (snd s))
     else (Some (False, u), rk_expire K now (session_key sid) ttl (snd s)))"
proof -
  have "0 < ttl" using assms(2) by (simp add: redis_ok_def ttl_def)
  moreover have "0 \<le> u" unfolding u_def by (rule redis_usage_nonneg [OF assms(2)])
  ultimately show ?thesis
    using assms(3,4)
    by (simp add: lua_reserve_def lua_reads_usage [OF assms(1,2)] u_def [symmetric] Let_def
        lua_tostring_def redis_cap_ok_def)
qed

text \<open>
  What one call does to the visible usage and to the texts on the server, whether or not the
  client hears back (\<open>r'\<close> is the server after the script ran).
\<close>

lemma script_effect:
  fixes now :: real and sid :: string
  assumes K: "redis_kv_laws K" and L: "lua_laws L" and ok: "redis_ok K s"
    and req: "0 \<le> req" and cap: "redis_cap_ok m"
  defines "ttl \<equiv> bt_session_ttl_seconds (fst s)"
  assumes r': "r' = snd (lua_reserve K L now (session_key sid) req m ttl (snd s))"
    and bt: "bt_client bt" "\<not> bt_fail_open_on_redis_error bt" "bt_session_ttl_seconds bt = ttl"
  defines "u \<equiv> redis_usage K now sid s"
  shows "redis_ok K (bt, r')"
    and "redis_usage K t sid (bt, r') =
      (if t < now + of_int ttl then (if u + req \<le> m then u + req else u) else 0)"
    and "sid' \<noteq> sid \<Longrightarrow> redis_usage K t sid' (bt, r') = redis_usage K t sid' s"
proof -
  have ttl: "0 < ttl" using ok by (simp add: redis_ok_def ttl_def)
  have u0: "0 \<le> u" unfolding u_def by (rule redis_usage_nonneg [OF ok])
  have lua: "r' = (if u + req \<le> m
      then rk_set K now (session_key sid) (py_str_int (u + req)) (Some ttl) (snd s)
      else rk_expire K now (session_key sid) ttl (snd s))"
    unfolding r' ttl_def lua_reserve_eq [OF L ok req cap] u_def by simp
  have small: "u + req \<le> m \<Longrightarrow> count_text (py_str_int (u + req)) (u + req)"
    using u0 req cap by (simp add: count_text_def redis_cap_ok_def)
  have g: "rk_get K t' (session_key k) r' =
      (if k = sid
       then (if t' < now + of_int ttl
             then (if u + req \<le> m then Some (py_str_int (u + req)) else rk_get K now (session_key sid) (snd s))
             else None)
       else rk_get K t' (session_key k) (snd s))" for t' k
    by (simp add: lua kv_set_ex [OF K ttl] kv_expire [OF K ttl])
  show "redis_ok K (bt, r')"
    using ok bt ttl small by (auto simp: redis_ok_def g split: if_splits)
  show "redis_usage K t sid (bt, r') =
      (if t < now + of_int ttl then (if u + req \<le> m then u + req else u) else 0)"
    by (simp add: redis_usage_def g u_def)
  show "sid' \<noteq> sid \<Longrightarrow> redis_usage K t sid' (bt, r') = redis_usage K t sid' s"
    by (simp add: redis_usage_def g)
qed

text \<open>\<open>budget_reserve\<close> in Redis mode, by what happened to the call.\<close>

lemma budget_reserve_redis:
  assumes "lua_laws L" and "redis_ok K s" and "0 \<le> req" and "redis_cap_ok m"
  shows "budget_reserve K L f now sid req m s =
    (let r' = snd (lua_reserve K L now (session_key sid) req m (bt_session_ttl_seconds (fst s)) (snd s));
         u = redis_usage K now sid s;
         down = Inl (BudgetBackendUnavailable ''Budget backend unavailable (Redis error)'') in
     case f of
       Refused e \<Rightarrow> (down, (fst s)\<lparr>bt_redis_last_error := Some e\<rparr>, snd s)
     | LostReply e \<Rightarrow> (down, (fst s)\<lparr>bt_redis_last_error := Some e\<rparr>, r')
     | Fine \<Rightarrow> (Inr (if u + req \<le> m then (True, u + req) else (False, u)),
               (fst s)\<lparr>bt_redis_last_error := None\<rparr>, r'))"
proof -
  obtain bt r where s: "s = (bt, r)" by (cases s)
  have m: "bt_client bt" "\<not> bt_fail_open_on_redis_error bt" "\<not> req < 0" "\<not> m \<le> 0"
    using assms(2,3,4) by (simp_all add: s redis_ok_def redis_cap_ok_def)
  have lua: "lua_reserve K L now (session_key sid) req m (bt_session_ttl_seconds bt) r =
      (Some (if redis_usage K now sid s + req \<le> m then (True, redis_usage K now sid s + req)
             else (False, redis_usage K now sid s)),
       snd (lua_reserve K L now (session_key sid) req m (bt_session_ttl_seconds bt) r))"
    using lua_reserve_eq [OF assms, of now sid] by (simp add: s)
  have fine: "call_script K L Fine now (session_key sid) req m (bt_session_ttl_seconds bt) r =
      (Inr (if redis_usage K now sid s + req \<le> m then (True, redis_usage K now sid s + req)
            else (False, redis_usage K now sid s)),
       snd (lua_reserve K L now (session_key sid) req m (bt_session_ttl_seconds bt) r))"
    unfolding call_script_def by (subst lua) simp
  show ?thesis
  proof (cases f)
    case Fine
    then show ?thesis using m fine by (simp add: s budget_reserve_def Let_def)
  next
    case (Refused e)
    then show ?thesis using m by (simp add: s budget_reserve_def Let_def call_script_def)
  next
    case (LostReply e)
    then show ?thesis using m by (simp add: s budget_reserve_def Let_def call_script_def)
  qed
qed

lemma redis_ledger:
  assumes K: "redis_kv_laws K" and L: "lua_laws L"
  shows "shot_ledger (redis_ok K) tracker_ttl (redis_usage K) redis_cap_ok (budget_reserve K L)"
proof (unfold_locales, goal_cases)
  case (1 s t sid) then show ?case by (rule redis_usage_nonneg)
next
  case (2 m) then show ?case by (simp add: redis_cap_ok_def)
next
  case (3 s req m f now sid)
  note e = script_effect(1) [OF K L 3, of _ now sid, OF refl]
  have b: "bt_client (fst s)" "\<not> bt_fail_open_on_redis_error (fst s)"
    using 3(1) by (simp_all add: redis_ok_def)
  have same: "redis_ok K ((fst s)\<lparr>bt_redis_last_error := e\<rparr>, snd s)" for e
    using 3(1) by (simp add: redis_ok_def)
  from b e same show ?case
    by (cases f) (simp_all add: budget_reserve_redis [OF L 3] Let_def)
next
  case (4 s req m f now sid)
  then show ?case
    by (cases f) (simp_all add: budget_reserve_redis [OF L 4] Let_def tracker_ttl_def)
next
  case (5 s req m now sid) then show ?case by (simp add: budget_reserve_redis [OF L 5] Let_def)
next
  case (6 s req m f now sid acc u)
  then show ?case
    by (cases f) (auto simp: budget_reserve_redis [OF L 6(1-3)] Let_def split: if_splits)
next
  case (7 s req m f now sid acc u t)
  note e = script_effect(2) [OF K L 7(1-3), of _ now sid]
  have b: "bt_client (fst s)" "\<not> bt_fail_open_on_redis_error (fst s)"
    using 7(1) by (simp_all add: redis_ok_def)
  from 7(4) e [OF refl] b show ?case
    by (cases f) (auto simp: budget_reserve_redis [OF L 7(1-3)] Let_def tracker_ttl_def split: if_splits)
next
  case (8 s req m f now sid e t)
  note e = script_effect(2) [OF K L 8(1-3), of _ now sid]
  have b: "bt_client (fst s)" "\<not> bt_fail_open_on_redis_error (fst s)"
    using 8(1) by (simp_all add: redis_ok_def)
  have d: "redis_usage K t sid s \<le> redis_usage K now sid s"
    by (rule redis_usage_decay [OF K 8(1,5)])
  from 8(2,4,6) e [OF refl] b d show ?case
    by (cases f)
       (auto simp: budget_reserve_redis [OF L 8(1-3)] Let_def tracker_ttl_def redis_usage_def split: if_splits)
next
  case (9 s req m sid' sid now t f)
  note e = script_effect(3) [OF K L 9(1-3), of _ now sid _ sid']
  have b: "bt_client (fst s)" "\<not> bt_fail_open_on_redis_error (fst s)"
    using 9(1) by (simp_all add: redis_ok_def)
  from e [OF refl] b 9(4) show ?case
    by (cases f) (simp_all add: budget_reserve_redis [OF L 9(1-3)] Let_def redis_usage_def)
qed

section \<open>Properties\<close>

definition lua_plain :: lua_num where
  "lua_plain = \<lparr>lua_sci = py_str_int, lua_tonumber = py_int_of_str\<rparr>"

lemma lua_plain_laws: "lua_laws lua_plain"
  by (simp add: lua_laws_def lua_plain_def int_of_str_of_int)

text \<open>
  C1. Hard cap, memory mode. Whatever reservations arrive, in whatever order and for whatever
  sessions, the shots granted to one session since a fresh start never exceed the session cap,
  as long as the session is not idle for a whole time to live (after which its count restarts).
\<close>

theorem memory_budget_cap:
  assumes "0 < m" and "fst (ledger_trace (budget_reserve K L) m es (budget_init None ttl fo, r)) = rs"
    and "uninterrupted ttl k t0 None es rs"
  shows "granted_shots k es rs \<le> m"
proof -
  have "memory_ok (budget_init None ttl fo, r)"
    by (simp add: memory_ok_def budget_init_def truthy_str_def)
  moreover have "tracker_ttl (budget_init None ttl fo, r) = ttl"
    by (simp add: tracker_ttl_def budget_init_def)
  ultimately show ?thesis
    using memory_budget.trace_cap [of "(budget_init None ttl fo, r)" m K L es rs k t0] assms by simp
qed

definition demo_attempts :: "attempt list" where
  "demo_attempts = [(0, ''ann'', 600, Fine), (5, ''bob'', 900, Fine), (10, ''ann'', 500, Fine),
     (20, ''ann'', 400, Fine)]"

lemma demo_answers:
  "fst (ledger_trace (budget_reserve kv_reference lua_plain) 1000 demo_attempts (budget_init None 3600 False, []))
    = [Inr (True, 600), Inr (True, 900), Inr (False, 600), Inr (True, 1000)]"
  by (simp add: demo_attempts_def budget_init_def budget_reserve_def truthy_str_def
     tracker_reserve_memory_def reserve_memory_def evict_expired_locked_def expired_sessions_def dict_get_or_def)

theorem memory_budget_cap_witness:
  "granted_shots ''ann'' demo_attempts
     (fst (ledger_trace (budget_reserve kv_reference lua_plain) 1000 demo_attempts (budget_init None 3600 False, [])))
   \<le> 1000"
proof (rule memory_budget_cap [OF _ refl])
  show "uninterrupted 3600 ''ann'' 0 None demo_attempts (fst (ledger_trace (budget_reserve kv_reference lua_plain)
      1000 demo_attempts (budget_init None 3600 False, [])))"
    by (simp only: demo_answers) (simp add: demo_attempts_def)
qed simp


definition demo_redis :: "budget_tracker \<times> kv_state" where
  "demo_redis = (budget_init (Some ''redis://budget'') 3600 False, [])"

lemma demo_redis_ok: "redis_ok kv_reference demo_redis"
  by (simp add: redis_ok_def demo_redis_def budget_init_def truthy_str_def kv_reference_def)




text \<open>
  C3. The two backends are one ledger: from empty books the atomic Lua script and the in-memory
  dictionary give the same answers, accepted flags and usages, to every sequence of reservations.
\<close>

theorem budget_backends_agree:
  assumes "redis_kv_laws K" and "lua_laws L" and "redis_ok K (bt, r)" and "redis_cap_ok m"
    and "\<forall>t k. redis_usage K t k (bt, r) = 0"
    and "sorted (t0 # map fst es)"
    and "\<forall>e \<in> set es. 0 \<le> fst (snd (snd e)) \<and> snd (snd (snd e)) = Fine"
  shows "fst (ledger_trace (budget_reserve K L) m es (bt, r)) =
     fst (ledger_trace (budget_reserve K' L') m es (budget_init None (bt_session_ttl_seconds bt) fo, r'))"
proof (rule ledgers_agree [OF redis_ledger [OF assms(1,2)] memory_budget.shot_ledger_axioms assms(3)])
  let ?mem = "(budget_init None (bt_session_ttl_seconds bt) fo, r')"
  show "memory_ok ?mem" by (simp add: memory_ok_def budget_init_def truthy_str_def)
  show "tracker_ttl (bt, r) = tracker_ttl ?mem" by (simp add: tracker_ttl_def budget_init_def)
  show "0 < m" using assms(4) by (simp add: redis_cap_ok_def)
  show "\<forall>t k. t0 \<le> t \<longrightarrow> redis_usage K t k (bt, r) = tracker_memory_usage t k ?mem"
    using assms(5) by (simp add: tracker_memory_usage_def memory_usage_eq budget_init_def)
qed (use assms in simp_all)

theorem budget_backends_agree_witness:
  "fst (ledger_trace (budget_reserve kv_reference lua_plain) 1000 demo_attempts demo_redis) =
   fst (ledger_trace (budget_reserve kv_reference lua_plain) 1000 demo_attempts
     (budget_init None (bt_session_ttl_seconds (fst demo_redis)) False, []))"
  unfolding demo_redis_def fst_conv
proof (rule budget_backends_agree [OF kv_reference_laws lua_plain_laws demo_redis_ok [unfolded demo_redis_def]])
  show "redis_cap_ok 1000" by (simp add: redis_cap_ok_def lua_limit_def)
  show "sorted ((0::real) # map fst demo_attempts)" by (simp add: demo_attempts_def)
qed (simp_all add: demo_attempts_def redis_usage_def kv_reference_def)

end
