(* ===== verification/Qubit_Usage.thy ===== *)
theory Qubit_Usage
  imports Synqc_Prelude
begin

text \<open>
  Session qubit telemetry (\<open>backend/synqc_backend/qubit_usage.py\<close>): per session the total and the
  latest number of qubits and when they were recorded, forgotten after a time to live. The code
  reads the clock several times in one locked section; each reading is an argument.
\<close>

record qubit_usage_snapshot =
  qs_session_total :: int
  qs_last_run_qubits :: int
  qs_last_updated :: real

record qubit_tracker =
  qb_ttl_seconds :: int
  qb_usage :: "(string, int \<times> int \<times> real) dict"

definition qubit_init :: "int \<Rightarrow> qubit_tracker" where
  "qubit_init ttl = \<lparr>qb_ttl_seconds = ttl, qb_usage = []\<rparr>"

definition qubit_live :: "int \<Rightarrow> real \<Rightarrow> int \<times> int \<times> real \<Rightarrow> bool" where
  "qubit_live ttl now e \<longleftrightarrow> \<not> (now - snd (snd e) \<ge> of_int ttl)"

definition qubit_evict :: "real \<Rightarrow> qubit_tracker \<Rightarrow> qubit_tracker" where
  "qubit_evict now q =
     q\<lparr>qb_usage := dict_pop_all
        (map fst (filter (\<lambda>p. \<not> qubit_live (qb_ttl_seconds q) now (snd p)) (qb_usage q))) (qb_usage q)\<rparr>"

definition qubit_record :: "real \<Rightarrow> real \<Rightarrow> string \<Rightarrow> int \<Rightarrow> qubit_tracker \<Rightarrow> qubit_tracker" where
  "qubit_record evict_now now sid qubits_used q =
     (let q1 = qubit_evict evict_now q;
          tot = fst (dict_get_or (0, 0, now) (qb_usage q1) sid) in
      q1\<lparr>qb_usage := dict_set sid (max 0 (tot + max qubits_used 0), max qubits_used 0, now) (qb_usage q1)\<rparr>)"

definition qubit_snapshot :: "real \<Rightarrow> real \<Rightarrow> string \<Rightarrow> qubit_tracker \<Rightarrow> qubit_usage_snapshot \<times> qubit_tracker" where
  "qubit_snapshot evict_now now sid q =
     (let q1 = qubit_evict evict_now q in
      case dict_get_or (0, 0, now) (qb_usage q1) sid of
        (tot, lst, ts) \<Rightarrow>
          (\<lparr>qs_session_total = tot, qs_last_run_qubits = lst, qs_last_updated = ts\<rparr>, q1))"

text \<open>\<open>health\<close>: backend name, tracked sessions, time to live.\<close>

definition qubit_health :: "real \<Rightarrow> qubit_tracker \<Rightarrow> (string \<times> int \<times> int) \<times> qubit_tracker" where
  "qubit_health now q =
     (let q1 = qubit_evict now q in ((''memory'', int (length (qb_usage q1)), qb_ttl_seconds q1), q1))"

section \<open>Totals add up while the session is active\<close>

definition qubit_ok :: "qubit_tracker \<Rightarrow> bool" where
  "qubit_ok q \<longleftrightarrow> dict_wf (qb_usage q) \<and> (\<forall>k e. dict_get (qb_usage q) k = Some e \<longrightarrow> 0 \<le> fst e)"

definition qubit_total :: "real \<Rightarrow> string \<Rightarrow> qubit_tracker \<Rightarrow> int" where
  "qubit_total now sid q = qs_session_total (fst (qubit_snapshot now now sid q))"

lemma qubit_evict_get:
  "qubit_ok q \<Longrightarrow> dict_get (qb_usage (qubit_evict now q)) k =
     (case dict_get (qb_usage q) k of None \<Rightarrow> None
      | Some e \<Rightarrow> if qubit_live (qb_ttl_seconds q) now e then Some e else None)"
  by (simp add: qubit_evict_def qubit_ok_def get_pop_where)

lemma qubit_ttl [simp]:
  "qb_ttl_seconds (qubit_evict now q) = qb_ttl_seconds q"
  "qb_ttl_seconds (qubit_record e now sid n q) = qb_ttl_seconds q"
  by (simp_all add: qubit_evict_def qubit_record_def Let_def)

lemma qubit_evict_ok: "qubit_ok q \<Longrightarrow> qubit_ok (qubit_evict now q)"
  by (auto simp: qubit_ok_def qubit_evict_def wf_pop_all get_pop_all split: if_splits)

lemma qubit_total_eq:
  "qubit_ok q \<Longrightarrow> qubit_total t sid q =
     (case dict_get (qb_usage q) sid of None \<Rightarrow> 0
      | Some e \<Rightarrow> if qubit_live (qb_ttl_seconds q) t e then fst e else 0)"
  by (simp add: qubit_total_def qubit_snapshot_def Let_def dict_get_or_def qubit_evict_get
      split: option.split prod.split)

lemma qubit_total_nonneg: "qubit_ok q \<Longrightarrow> 0 \<le> qubit_total t sid q"
  by (auto simp: qubit_total_eq qubit_ok_def split: option.split)

lemma qubit_record_entry:
  assumes "qubit_ok q"
  shows "dict_get (qb_usage (qubit_record e now sid n q)) k =
    (if k = sid then Some (qubit_total e sid q + max n 0, max n 0, now)
     else dict_get (qb_usage (qubit_evict e q)) k)"
proof -
  have "fst (dict_get_or (0, 0, now) (qb_usage (qubit_evict e q)) sid) = qubit_total e sid q"
    by (simp add: qubit_total_eq [OF assms] dict_get_or_def qubit_evict_get [OF assms] split: option.split)
  then show ?thesis
    using qubit_total_nonneg [OF assms, of e sid] by (simp add: qubit_record_def Let_def get_set)
qed

lemma qubit_record_ok:
  assumes "qubit_ok q"
  shows "qubit_ok (qubit_record e now sid n q)"
proof -
  have "dict_wf (qb_usage (qubit_record e now sid n q))"
    using qubit_evict_ok [OF assms, of e] by (simp add: qubit_record_def Let_def wf_set qubit_ok_def)
  moreover have "0 \<le> fst v" if "dict_get (qb_usage (qubit_record e now sid n q)) k = Some v" for k v
  proof (cases "k = sid")
    case True
    then show ?thesis using that qubit_total_nonneg [OF assms, of e sid] by (auto simp: qubit_record_entry [OF assms])
  next
    case False
    then have "dict_get (qb_usage (qubit_evict e q)) k = Some v" using that by (simp add: qubit_record_entry [OF assms])
    then show ?thesis using qubit_evict_ok [OF assms, of e] unfolding qubit_ok_def by blast
  qed
  ultimately show ?thesis by (simp add: qubit_ok_def)
qed

lemma qubit_record_total:
  assumes "qubit_ok q" and "e \<le> now" and "now \<le> t"
  shows "qubit_total t k (qubit_record e now sid n q) =
    (if k = sid then (if t < now + of_int (qb_ttl_seconds q) then qubit_total e sid q + max n 0 else 0)
     else qubit_total t k q)"
  using assms
  by (auto simp: qubit_total_eq qubit_record_ok qubit_record_entry qubit_evict_get qubit_live_def
      split: option.splits)

fun qubit_records :: "(real \<times> string \<times> int) list \<Rightarrow> qubit_tracker \<Rightarrow> qubit_tracker" where
  "qubit_records [] q = q"
| "qubit_records ((now, sid, n) # es) q = qubit_records es (qubit_record now now sid n q)"

text \<open>
  \<open>qubit_active\<close>: times do not go back and session \<open>k\<close> is recorded again before its entry expires
  at \<open>limit\<close>; \<open>qubit_limit\<close> is the expiry after the whole run.
\<close>

fun qubit_active :: "int \<Rightarrow> string \<Rightarrow> real \<Rightarrow> real \<Rightarrow> (real \<times> string \<times> int) list \<Rightarrow> bool" where
  "qubit_active ttl k t0 limit [] = True"
| "qubit_active ttl k t0 limit ((now, sid, n) # es) =
     (t0 \<le> now \<and> (sid = k \<longrightarrow> now < limit) \<and>
      qubit_active ttl k now (if sid = k then now + of_int ttl else limit) es)"

fun qubit_limit :: "int \<Rightarrow> string \<Rightarrow> real \<Rightarrow> (real \<times> string \<times> int) list \<Rightarrow> real" where
  "qubit_limit ttl k limit [] = limit"
| "qubit_limit ttl k limit ((now, sid, n) # es) =
     qubit_limit ttl k (if sid = k then now + of_int ttl else limit) es"

definition qubits_recorded :: "string \<Rightarrow> (real \<times> string \<times> int) list \<Rightarrow> int" where
  "qubits_recorded k es = sum_list (map (\<lambda>(_, s, n). if s = k then max n 0 else 0) es)"

lemma qubit_records_total:
  assumes "qubit_ok q" and "qubit_active (qb_ttl_seconds q) k t0 limit es"
    and "\<forall>t. t0 \<le> t \<longrightarrow> t < limit \<longrightarrow> qubit_total t k q = U"
    and "t0 \<le> t" and "\<forall>e \<in> set es. fst e \<le> t" and "t < qubit_limit (qb_ttl_seconds q) k limit es"
  shows "qubit_total t k (qubit_records es q) = U + qubits_recorded k es"
  using assms
proof (induction es arbitrary: q t0 limit U)
  case Nil
  then show ?case by (simp add: qubits_recorded_def)
next
  case (Cons x es)
  obtain now sid n where x: "x = (now, sid, n)" by (cases x)
  let ?q = "qubit_record now now sid n q"
  let ?limit = "if sid = k then now + of_int (qb_ttl_seconds q) else limit"
  let ?U = "U + (if sid = k then max n 0 else 0)"
  have a: "t0 \<le> now" "sid = k \<longrightarrow> now < limit" "qubit_active (qb_ttl_seconds q) k now ?limit es"
    using Cons.prems(2) x by auto
  have "\<forall>t'. now \<le> t' \<longrightarrow> t' < ?limit \<longrightarrow> qubit_total t' k ?q = ?U"
    using a Cons.prems(3) by (auto simp: qubit_record_total [OF Cons.prems(1)])
  then have "qubit_total t k (qubit_records es ?q) = ?U + qubits_recorded k es"
    using Cons.IH [OF qubit_record_ok [OF Cons.prems(1)], of now now sid n now ?limit ?U] a(3) Cons.prems(5,6) x
    by simp
  then show ?case by (simp add: x qubits_recorded_def)
qed

text \<open>
Qubit telemetry: while a session keeps recording within the time to live, the total its
  snapshot shows, at any moment before the last record expires, is the sum of the qubits of its
  runs (negative counts counting nothing), whatever other sessions record in between.
\<close>

theorem qubit_total_is_sum:
  assumes "qubit_active ttl k t0 (t0 + of_int ttl) es" and "t0 \<le> t" and "\<forall>e \<in> set es. fst e \<le> t"
    and "t < qubit_limit ttl k (t0 + of_int ttl) es"
  shows "qs_session_total (fst (qubit_snapshot t t k (qubit_records es (qubit_init ttl)))) = qubits_recorded k es"
proof -
  have ok: "qubit_ok (qubit_init ttl)" by (simp add: qubit_ok_def qubit_init_def)
  have ttl: "qb_ttl_seconds (qubit_init ttl) = ttl" by (simp add: qubit_init_def)
  have "\<forall>t. qubit_total t k (qubit_init ttl) = 0"
    by (simp add: qubit_total_eq [OF ok]) (simp add: qubit_init_def)
  then show ?thesis
    using qubit_records_total [OF ok, of k t0 "t0 + of_int ttl" es 0 t] assms
    by (simp add: ttl qubit_total_def)
qed

definition demo_records :: "(real \<times> string \<times> int) list" where
  "demo_records = [(0, ''ann'', 12), (10, ''bob'', 7), (20, ''ann'', -3), (25, ''ann'', 30)]"

theorem qubit_total_is_sum_witness:
  "qs_session_total (fst (qubit_snapshot 30 30 ''ann'' (qubit_records demo_records (qubit_init 60)))) = 42"
proof -
  have "qubit_active 60 ''ann'' 0 (0 + of_int 60) demo_records" by (simp add: demo_records_def)
  moreover have "30 < qubit_limit 60 ''ann'' (0 + of_int 60) demo_records" by (simp add: demo_records_def)
  moreover have "\<forall>e \<in> set demo_records. fst e \<le> 30" by (simp add: demo_records_def)
  ultimately show ?thesis
    using qubit_total_is_sum [of 60 "''ann''" 0 demo_records 30]
    by (simp add: qubits_recorded_def) (simp add: demo_records_def)
qed

end
