(* ===== verification/Experiment_Store.thy ===== *)
theory Experiment_Store
  imports Models
begin

text \<open>
  The bounded store of experiment runs with optional JSON persistence
  (\<open>backend/synqc_backend/storage.py\<close>).

  The serialiser is a parameter in two layers, as the code uses it: \<open>rc_parse\<close>/\<open>rc_render\<close> for
  the text of a list (\<open>json\<close>), \<open>rc_validate\<close>/\<open>rc_dump\<close> for one entry (pydantic). The file is a
  value next to the store, so that several processes can share it.
\<close>

record ('e, 't) run_codec =
  rc_dump :: "run_response \<Rightarrow> 'e"
  rc_validate :: "'e \<Rightarrow> run_response option"
  rc_render :: "'e list \<Rightarrow> 't"
  rc_parse :: "'t \<Rightarrow> 'e list option"

record experiment_store =
  xs_max_entries :: int
  xs_persistent :: bool
  xs_runs :: "(string, run_response) dict"
  xs_persist_mtime :: "real option"
  xs_last_persist_ok :: bool

text \<open>
  The loop that validates the entries of a parsed file: it stops at the first invalid one, with
  the runs read so far already in the dictionary.
\<close>

fun load_entries :: "('e, 't) run_codec \<Rightarrow> 'e list \<Rightarrow> (string, run_response) dict
    \<Rightarrow> bool \<times> (string, run_response) dict" where
  "load_entries c [] d = (True, d)"
| "load_entries c (e # es) d =
     (case rc_validate c e of None \<Rightarrow> (False, d)
      | Some run \<Rightarrow> load_entries c es (dict_set (rr_id run) run d))"

definition store_init :: "('e, 't) run_codec \<Rightarrow> int \<Rightarrow> bool \<Rightarrow> 't disk_file \<Rightarrow> experiment_store" where
  "store_init c max_entries persistent f =
     (let st = \<lparr>xs_max_entries = max_entries, xs_persistent = persistent, xs_runs = [],
                xs_persist_mtime = None, xs_last_persist_ok = True\<rparr> in
      if \<not> persistent then st
      else (case f of None \<Rightarrow> st
            | Some (text, mtime) \<Rightarrow>
                (case rc_parse c text of None \<Rightarrow> st
                 | Some es \<Rightarrow>
                     (case load_entries c es [] of
                        (True, d) \<Rightarrow> st\<lparr>xs_runs := d, xs_persist_mtime := Some mtime\<rparr>
                      | (False, d) \<Rightarrow> st\<lparr>xs_runs := d\<rparr>))))"

definition store_persist :: "('e, 't) run_codec \<Rightarrow> bool \<Rightarrow> real \<Rightarrow> experiment_store \<times> 't disk_file
    \<Rightarrow> experiment_store \<times> 't disk_file" where
  "store_persist c writable mt s =
     (case s of (st, f) \<Rightarrow>
        if \<not> xs_persistent st then (st, f)
        else (case fs_write writable (rc_render c (map (rc_dump c) (dict_values (xs_runs st)))) mt f of
                None \<Rightarrow> (st\<lparr>xs_last_persist_ok := False\<rparr>, f)
              | Some f' \<Rightarrow> (st\<lparr>xs_persist_mtime := Some mt, xs_last_persist_ok := True\<rparr>, f')))"

definition insert_run :: "int \<Rightarrow> run_response \<Rightarrow> (string, run_response) dict \<Rightarrow> (string, run_response) dict" where
  "insert_run max_entries run d =
     (let d1 = dict_set (rr_id run) run d in
      if int (length d1) > max_entries
      then dict_pop (rr_id (hd (py_sorted rr_created_at (dict_values d1)))) d1
      else d1)"

definition store_add :: "('e, 't) run_codec \<Rightarrow> bool \<Rightarrow> real \<Rightarrow> run_response \<Rightarrow> experiment_store \<times> 't disk_file
    \<Rightarrow> experiment_store \<times> 't disk_file" where
  "store_add c writable mt run s =
     (case s of (st, f) \<Rightarrow>
        store_persist c writable mt (st\<lparr>xs_runs := insert_run (xs_max_entries st) run (xs_runs st)\<rparr>, f))"

text \<open>
  \<open>_refresh_from_disk\<close>. A modification time of zero is falsy, so such a file is always read
  again. The dictionary is cleared before the entries are validated.
\<close>

definition store_refresh :: "('e, 't) run_codec \<Rightarrow> experiment_store \<times> 't disk_file
    \<Rightarrow> experiment_store \<times> 't disk_file" where
  "store_refresh c s =
     (case s of (st, f) \<Rightarrow>
        if \<not> xs_persistent st then (st, f)
        else (case f of None \<Rightarrow> (st, f)
              | Some (text, mtime) \<Rightarrow>
                  if (case xs_persist_mtime st of None \<Rightarrow> False | Some m \<Rightarrow> m \<noteq> 0 \<and> mtime \<le> m) then (st, f)
                  else (case rc_parse c text of
                          None \<Rightarrow> (st\<lparr>xs_last_persist_ok := False\<rparr>, f)
                        | Some es \<Rightarrow>
                            (case load_entries c es [] of
                               (True, d) \<Rightarrow> (st\<lparr>xs_runs := d, xs_persist_mtime := Some mtime,
                                                 xs_last_persist_ok := True\<rparr>, f)
                             | (False, d) \<Rightarrow> (st\<lparr>xs_runs := d, xs_last_persist_ok := False\<rparr>, f)))))"

definition store_get :: "('e, 't) run_codec \<Rightarrow> string \<Rightarrow> experiment_store \<times> 't disk_file
    \<Rightarrow> run_response option \<times> experiment_store \<times> 't disk_file" where
  "store_get c run_id s =
     (let s1 = store_refresh c s in (dict_get (xs_runs (fst s1)) run_id, s1))"

definition summarise :: "run_response \<Rightarrow> experiment_summary" where
  "summarise r =
     \<lparr>es_id = rr_id r, es_preset = rr_preset r, es_hardware_target = rr_hardware_target r,
      es_kpis = rr_kpis r, es_created_at = rr_created_at r, es_shots = rr_shots r,
      es_measurement = rr_measurement r, es_noise = rr_noise r, es_assumptions = rr_assumptions r,
      es_qubits_used = rr_qubits_used r, es_control_profile = rr_control_profile r,
      es_physics_contract = rr_physics_contract r, es_kpi_details = rr_kpi_details r,
      es_kpi_observations = rr_kpi_observations r, es_error_code = rr_error_code r,
      es_error_message = rr_error_message r, es_error_detail = rr_error_detail r,
      es_action_hint = rr_action_hint r\<rparr>"

definition store_list_recent :: "('e, 't) run_codec \<Rightarrow> int \<Rightarrow> experiment_store \<times> 't disk_file
    \<Rightarrow> experiment_summary list \<times> experiment_store \<times> 't disk_file" where
  "store_list_recent c limit s =
     (let s1 = store_refresh c s in
      (map summarise (py_take limit (py_sorted_rev rr_created_at (dict_values (xs_runs (fst s1))))), s1))"

definition store_is_empty :: "('e, 't) run_codec \<Rightarrow> experiment_store \<times> 't disk_file \<Rightarrow> bool" where
  "store_is_empty c s = (xs_runs (fst (store_refresh c s)) = [])"

record store_health =
  xh_backend :: string
  xh_persist_ok :: bool
  xh_entries :: int
  xh_last_modified :: "real option"

definition store_health_summary :: "experiment_store \<Rightarrow> store_health" where
  "store_health_summary st =
     \<lparr>xh_backend = (if xs_persistent st then ''file'' else ''memory''),
      xh_persist_ok = xs_last_persist_ok st, xh_entries = int (length (xs_runs st)),
      xh_last_modified = xs_persist_mtime st\<rparr>"

section \<open>The invariant: distinct ids, each run under its own id, never more than the bound\<close>

definition keyed :: "(string, run_response) dict \<Rightarrow> bool" where
  "keyed d \<longleftrightarrow> dict_wf d \<and> (\<forall>k r. dict_get d k = Some r \<longrightarrow> rr_id r = k)"

definition runs_ok :: "int \<Rightarrow> (string, run_response) dict \<Rightarrow> bool" where
  "runs_ok n d \<longleftrightarrow> keyed d \<and> int (length d) \<le> n"

lemma keyed_Nil [simp]: "keyed []"
  by (simp add: keyed_def)

lemma keyed_get: "keyed d \<Longrightarrow> dict_get d k = Some r \<Longrightarrow> rr_id r = k"
  by (simp add: keyed_def)

lemma keyed_set: "keyed d \<Longrightarrow> keyed (dict_set (rr_id r) r d)"
  by (auto simp: keyed_def wf_set get_set)

lemma keyed_pop: "keyed d \<Longrightarrow> keyed (dict_pop k d)"
  by (auto simp: keyed_def wf_pop get_pop)

lemma keyed_value:
  assumes "keyed d"
  shows "r \<in> set (dict_values d) \<longleftrightarrow> dict_get d (rr_id r) = Some r"
proof
  note k = assms
  assume "r \<in> set (dict_values d)"
  then obtain i where "(i, r) \<in> set d" by auto
  then have "dict_get d i = Some r" using k by (simp add: keyed_def wf_in_get)
  then show "dict_get d (rr_id r) = Some r" using k by (simp add: keyed_def)
next
  assume "dict_get d (rr_id r) = Some r"
  then have "(rr_id r, r) \<in> set d" by (rule map_of_SomeD)
  then show "r \<in> set (dict_values d)" by force
qed

lemma load_entries_keyed: "keyed d \<Longrightarrow> keyed (snd (load_entries c es d))"
  by (induction es arbitrary: d) (auto simp: keyed_set split: option.split)

text \<open>What \<open>add\<close> evicts: a run with the earliest creation time, and nothing while there is room.\<close>

definition evicted :: "int \<Rightarrow> run_response \<Rightarrow> (string, run_response) dict \<Rightarrow> run_response option" where
  "evicted n run d =
     (let d1 = dict_set (rr_id run) run d in
      if int (length d1) > n then Some (hd (py_sorted rr_created_at (dict_values d1))) else None)"

lemma evicted_oldest:
  assumes "keyed d" and "evicted n run d = Some old"
  shows "dict_get (dict_set (rr_id run) run d) (rr_id old) = Some old"
    and "\<And>r. r \<in> set (dict_values (dict_set (rr_id run) run d)) \<Longrightarrow> rr_created_at old \<le> rr_created_at r"
proof -
  let ?d = "dict_set (rr_id run) run d"
  have ne: "dict_values ?d \<noteq> []" using keys_set [of "rr_id run" run d] by force
  have old: "old = hd (py_sorted rr_created_at (dict_values ?d))"
    using assms(2) by (simp add: evicted_def Let_def split: if_splits)
  have "old \<in> set (dict_values ?d)" unfolding old by (rule py_sorted_hd_in [OF ne])
  then show "dict_get ?d (rr_id old) = Some old"
    using keyed_value [OF keyed_set [OF assms(1)]] by blast
  show "\<And>r. r \<in> set (dict_values ?d) \<Longrightarrow> rr_created_at old \<le> rr_created_at r"
    unfolding old by (rule py_sorted_hd_least [OF ne])
qed

lemma insert_run_get:
  "dict_get (insert_run n run d) k =
     (case evicted n run d of
        None \<Rightarrow> dict_get (dict_set (rr_id run) run d) k
      | Some old \<Rightarrow> if k = rr_id old then None else dict_get (dict_set (rr_id run) run d) k)"
  by (simp add: insert_run_def evicted_def Let_def get_pop)

lemma insert_run_keyed: "keyed d \<Longrightarrow> keyed (insert_run n run d)"
  by (simp add: insert_run_def Let_def keyed_set keyed_pop)

lemma insert_run_length:
  assumes "keyed d" and "0 \<le> n" and "int (length d) \<le> n"
  shows "int (length (insert_run n run d)) \<le> n"
proof (cases "evicted n run d")
  case None
  then show ?thesis by (simp add: insert_run_def evicted_def Let_def split: if_splits)
next
  case (Some old)
  let ?d = "dict_set (rr_id run) run d"
  have "dict_get ?d (rr_id old) = Some old" using evicted_oldest(1) [OF assms(1) Some] .
  then have "rr_id old \<in> set (dict_keys ?d)" by (rule in_keysI)
  moreover have "dict_wf ?d" using keyed_set [OF assms(1), of run] unfolding keyed_def by (rule conjunct1)
  ultimately have "Suc (length (dict_pop (rr_id old) ?d)) = length ?d" by (rule length_pop [rotated])
  moreover have "length ?d \<le> Suc (length d)" by (simp add: length_set)
  moreover have "insert_run n run d = dict_pop (rr_id old) ?d"
    using Some by (simp add: insert_run_def evicted_def Let_def split: if_splits)
  ultimately show ?thesis using assms(3) by simp
qed

lemma insert_run_ok: "0 \<le> n \<Longrightarrow> runs_ok n d \<Longrightarrow> runs_ok n (insert_run n run d)"
  using insert_run_keyed [of d n run] insert_run_length [of d n run] by (simp add: runs_ok_def)

lemma store_add_runs [simp]:
  "xs_runs (fst (store_add c w mt run (st, f))) = insert_run (xs_max_entries st) run (xs_runs st)"
  "xs_max_entries (fst (store_add c w mt run (st, f))) = xs_max_entries st"
  "xs_persistent (fst (store_add c w mt run (st, f))) = xs_persistent st"
  by (simp_all add: store_add_def store_persist_def split: option.split)

section \<open>A concrete store to evaluate\<close>

definition sample_run :: "string \<Rightarrow> real \<Rightarrow> run_response" where
  "sample_run i t =
     \<lparr>rr_id = i, rr_preset = HEALTH, rr_hardware_target = ''sim_local'', rr_kpis = kpi_default,
      rr_created_at = t, rr_shots = None, rr_measurement = None, rr_noise = None, rr_assumptions = [],
      rr_qubits_used = 8, rr_notes = None, rr_control_profile = None, rr_physics_contract = None,
      rr_kpi_details = None, rr_kpi_observations = None, rr_artifacts = None, rr_error_code = None,
      rr_error_message = None, rr_error_detail = None, rr_action_hint = None, rr_workflow_trace = []\<rparr>"

definition plain_codec :: "(run_response, run_response list) run_codec" where
  "plain_codec = \<lparr>rc_dump = id, rc_validate = (\<lambda>r. if rr_id r = [] then None else Some r),
                  rc_render = id, rc_parse = Some\<rparr>"

lemma sample_run_simps [simp]: "rr_id (sample_run i t) = i" "rr_created_at (sample_run i t) = t"
  by (simp_all add: sample_run_def)

section \<open>The store over a sequence of runs\<close>

fun store_adds :: "('e, 't) run_codec \<Rightarrow> (bool \<times> real \<times> run_response) list \<Rightarrow> experiment_store \<times> 't disk_file
    \<Rightarrow> experiment_store \<times> 't disk_file" where
  "store_adds c [] s = s"
| "store_adds c ((w, mt, run) # es) s = store_adds c es (store_add c w mt run s)"

definition as_dict :: "run_response list \<Rightarrow> (string, run_response) dict" where
  "as_dict rs = map (\<lambda>r. (rr_id r, r)) rs"

lemma as_dict_simps [simp]:
  "dict_values (as_dict rs) = rs" "dict_keys (as_dict rs) = map rr_id rs" "length (as_dict rs) = length rs"
  by (simp_all add: as_dict_def comp_def)

lemma pop_head: "distinct (map rr_id (r # rs)) \<Longrightarrow> dict_pop (rr_id r) (as_dict (r # rs)) = as_dict rs"
  by (auto simp: as_dict_def pop_conv_filter filter_id_conv)

lemma py_sorted_id: "sorted (map f xs) \<Longrightarrow> py_sorted f xs = xs"
  by (simp add: py_sorted_def sort_key_id_if_sorted)

lemma insert_run_newest:
  assumes "distinct (map rr_id (rs @ [run]))" and "sorted (map rr_created_at (rs @ [run]))"
    and "1 \<le> n" and "int (length rs) \<le> n"
  shows "insert_run n run (as_dict rs) = as_dict (py_last n (rs @ [run]))"
proof -
  have fresh: "rr_id run \<notin> set (dict_keys (as_dict rs))" using assms(1) by simp
  have d: "dict_set (rr_id run) run (as_dict rs) = as_dict (rs @ [run])"
    by (subst set_fresh [OF fresh]) (simp add: as_dict_def)
  show ?thesis
  proof (cases "int (length (rs @ [run])) > n")
    case False
    then have "py_last n (rs @ [run]) = rs @ [run]" using assms(3) by (simp add: py_last_def)
    then show ?thesis using False by (simp add: insert_run_def d)
  next
    case True
    then have n: "length rs = nat n" using assms(3,4) by simp
    then obtain r rs' where rs: "rs = r # rs'" using assms(3) by (cases rs) auto
    have "py_sorted rr_created_at (rs @ [run]) = rs @ [run]" using assms(2) by (rule py_sorted_id)
    then have "insert_run n run (as_dict rs) = dict_pop (rr_id r) (as_dict (r # (rs' @ [run])))"
      using True unfolding insert_run_def d Let_def by (simp add: rs)
    also have "\<dots> = as_dict (rs' @ [run])" using assms(1) by (intro pop_head) (simp add: rs)
    finally show ?thesis using n assms(3) by (simp add: py_last_def rs)
  qed
qed

lemma py_last_step: "1 \<le> n \<Longrightarrow> py_last n (py_last n xs @ ys) = py_last n (xs @ ys)"
  by (cases "nat n \<le> length xs") (simp_all add: py_last_def add.commute)

lemma distinct_py_last: "distinct (map f xs) \<Longrightarrow> distinct (map f (py_last n xs))"
  by (simp add: py_last_def drop_map [symmetric])

lemma sorted_py_last: "sorted (map f xs) \<Longrightarrow> sorted (map f (py_last n xs))"
  by (simp add: py_last_def drop_map [symmetric] sorted_wrt_drop)

lemma store_adds_runs:
  assumes "distinct (map rr_id (rs @ map (snd \<circ> snd) es))"
    and "sorted (map rr_created_at (rs @ map (snd \<circ> snd) es))"
    and "1 \<le> xs_max_entries st" and "xs_runs st = as_dict (py_last (xs_max_entries st) rs)"
  shows "xs_runs (fst (store_adds c es (st, f))) = as_dict (py_last (xs_max_entries st) (rs @ map (snd \<circ> snd) es))"
  using assms
proof (induction es arbitrary: st f rs)
  case (Cons e es)
  obtain w mt run where e: "e = (w, mt, run)" by (cases e)
  obtain st' f' where s: "store_add c w mt run (st, f) = (st', f')" by fastforce
  let ?n = "xs_max_entries st" and ?rs = "py_last (xs_max_entries st) rs"
  have st': "xs_runs st' = insert_run ?n run (xs_runs st)" "xs_max_entries st' = ?n"
    using store_add_runs(1,2) [of c w mt run st f] s by simp_all
  have "distinct (map rr_id (?rs @ [run]))"
    using distinct_py_last [of rr_id rs ?n] Cons.prems(1) e
    by (auto simp: py_last_def dest!: in_set_dropD)
  moreover have "sorted (map rr_created_at (?rs @ [run]))"
    using sorted_py_last [of rr_created_at rs ?n] Cons.prems(2) e
    by (auto simp: sorted_append py_last_def dest!: in_set_dropD)
  moreover have "int (length ?rs) \<le> ?n" using Cons.prems(3) by (simp add: length_py_last)
  ultimately have "xs_runs st' = as_dict (py_last ?n (rs @ [run]))"
    using insert_run_newest Cons.prems(3,4) by (simp add: st' py_last_step)
  then show ?case
    using Cons.IH [of "rs @ [run]" st' f'] Cons.prems e s st' by simp
qed simp

text \<open>
  C4. Retention. Starting from an empty store of capacity \<open>n\<close>, after adding any runs with
  distinct ids in the order of their creation times, the store holds exactly the last \<open>n\<close> of
  them, oldest first, whether or not each write to its file succeeds.
\<close>

theorem store_keeps_newest:
  assumes "distinct (map (rr_id \<circ> snd \<circ> snd) es)" and "sorted (map (rr_created_at \<circ> snd \<circ> snd) es)" and "1 \<le> n"
  shows "dict_values (xs_runs (fst (store_adds c es (store_init c n persistent None, None))))
    = py_last n (map (snd \<circ> snd) es)"
proof -
  let ?st = "store_init c n persistent None"
  have st: "xs_runs ?st = as_dict (py_last (xs_max_entries ?st) [])" "xs_max_entries ?st = n"
    by (simp_all add: store_init_def as_dict_def py_last_def Let_def)
  have "xs_runs (fst (store_adds c es (?st, None))) = as_dict (py_last n ([] @ map (snd \<circ> snd) es))"
    using store_adds_runs [of "[]" es ?st c None] assms st by (simp add: comp_assoc)
  then show ?thesis by simp
qed

definition sample_adds :: "(bool \<times> real \<times> run_response) list" where
  "sample_adds = [(True, 1, sample_run ''a'' 1), (False, 2, sample_run ''b'' 2), (True, 3, sample_run ''c'' 3)]"

theorem store_keeps_newest_witness:
  "dict_values (xs_runs (fst (store_adds plain_codec sample_adds (store_init plain_codec 2 True None, None))))
    = [sample_run ''b'' 2, sample_run ''c'' 3]"
proof -
  have "distinct (map (rr_id \<circ> snd \<circ> snd) sample_adds)" "sorted (map (rr_created_at \<circ> snd \<circ> snd) sample_adds)"
    by (simp_all add: sample_adds_def)
  then show ?thesis
    using store_keeps_newest [of sample_adds 2 plain_codec True] by (simp add: sample_adds_def py_last_def)
qed

section \<open>Listing\<close>

text \<open>
\<open>list_recent\<close> returns the newest runs first, at most \<open>limit\<close> of them, all from the store,
  and leaves out no run newer than one it lists.
\<close>

theorem list_recent_newest_first:
  assumes "0 \<le> limit" and "store_list_recent c limit s = (es, s1)"
  shows "sorted_wrt (\<lambda>a b. es_created_at b \<le> es_created_at a) es \<and>
    length es = min (nat limit) (length (xs_runs (fst s1))) \<and>
    set es \<subseteq> summarise ` set (dict_values (xs_runs (fst s1))) \<and>
    (\<forall>r \<in> set (dict_values (xs_runs (fst s1))). \<forall>e \<in> set es.
       summarise r \<in> set es \<or> rr_created_at r \<le> es_created_at e)"
proof (intro conjI ballI)
  let ?vs = "dict_values (xs_runs (fst s1))"
  let ?all = "py_sorted_rev rr_created_at ?vs"
  let ?newest = "take (nat limit) ?all" and ?rest = "drop (nat limit) ?all"
  have e: "es = map summarise ?newest" and s1: "s1 = store_refresh c s"
    using assms by (auto simp: store_list_recent_def Let_def py_take_def)
  have "sorted_wrt (\<lambda>x y. rr_created_at y \<le> rr_created_at x) (?newest @ ?rest)"
    using sorted_rev_py_sorted_rev [of rr_created_at ?vs] by simp
  then have srt: "sorted_wrt (\<lambda>x y. rr_created_at y \<le> rr_created_at x) ?newest"
    and split: "\<forall>a \<in> set ?newest. \<forall>b \<in> set ?rest. rr_created_at b \<le> rr_created_at a"
    unfolding sorted_wrt_append by blast+
  show "sorted_wrt (\<lambda>a b. es_created_at b \<le> es_created_at a) es"
    unfolding e sorted_wrt_map using srt by (simp add: summarise_def)
  show "length es = min (nat limit) (length (xs_runs (fst s1)))" by (simp add: e min.commute)
  show "set es \<subseteq> summarise ` set ?vs"
    using set_take_subset [of "nat limit" ?all] by (auto simp: e)
  fix r x assume r: "r \<in> set ?vs" and x: "x \<in> set es"
  have "set ?vs = set ?newest \<union> set ?rest"
    using set_append [of ?newest ?rest] by (simp only: append_take_drop_id set_py_sorted_rev)
  then consider "r \<in> set ?newest" | "r \<in> set ?rest" using r by blast
  then show "summarise r \<in> set es \<or> rr_created_at r \<le> es_created_at x"
  proof cases
    case 1
    then show ?thesis unfolding e set_map by blast
  next
    case 2
    obtain y where "y \<in> set ?newest" and "x = summarise y" using x unfolding e set_map by blast
    then show ?thesis using split 2 by (simp add: summarise_def)
  qed
qed

definition sample_store :: experiment_store where
  "sample_store = (store_init plain_codec 8 False None)
     \<lparr>xs_runs := as_dict [sample_run ''a'' 1, sample_run ''b'' 5, sample_run ''c'' 3]\<rparr>"

lemma sample_list:
  "store_list_recent plain_codec 2 (sample_store, None) =
     ([summarise (sample_run ''b'' 5), summarise (sample_run ''c'' 3)], (sample_store, None))"
  by (simp add: store_list_recent_def store_refresh_def sample_store_def store_init_def Let_def
      py_sorted_rev_def py_take_def)

theorem list_recent_newest_first_witness:
  "\<exists>es s1. store_list_recent plain_codec 2 (sample_store, None) = (es, s1) \<and>
     sorted_wrt (\<lambda>a b. es_created_at b \<le> es_created_at a) es \<and> length es = 2"
proof -
  have "length (xs_runs sample_store) = 3" by (simp add: sample_store_def)
  then show ?thesis
    using list_recent_newest_first [OF _ sample_list] sample_list by simp
qed

section \<open>Sharing the file between processes\<close>

definition codec_ok :: "('e, 't) run_codec \<Rightarrow> run_response list \<Rightarrow> bool" where
  "codec_ok c rs \<longleftrightarrow>
     (\<forall>r \<in> set rs. rc_validate c (rc_dump c r) = Some r) \<and>
     rc_parse c (rc_render c (map (rc_dump c) rs)) = Some (map (rc_dump c) rs)"

lemma load_dumped:
  assumes "\<forall>r \<in> set (dict_values d2). rc_validate c (rc_dump c r) = Some r"
    and "keyed (d1 @ d2)"
  shows "load_entries c (map (rc_dump c) (dict_values d2)) d1 = (True, d1 @ d2)"
  using assms
proof (induction d2 arbitrary: d1)
  case (Cons p d2)
  obtain k r where p: "p = (k, r)" by (cases p)
  have wf: "dict_wf (d1 @ p # d2)" using Cons.prems(2) by (simp add: keyed_def)
  then have fresh: "k \<notin> set (dict_keys d1)" by (auto simp: dict_wf_def p)
  have "dict_get (d1 @ p # d2) k = Some r"
    by (rule wf_in_get [OF wf, THEN iffD1]) (simp add: p)
  then have "rr_id r = k" using Cons.prems(2) by (rule keyed_get [rotated])
  then have "dict_set (rr_id r) r d1 = d1 @ [p]" using set_fresh [OF fresh] p by simp
  then show ?case using Cons.IH [of "d1 @ [p]"] Cons.prems p by simp
qed simp

text \<open>
  C5. Persistence round trip. After a successful \<open>add\<close> to a persistent store, any other process
  that shares the file and has read it before that moment gets, for every run id, exactly what
  the writing process holds.
\<close>

theorem store_shared_through_file:
  assumes "keyed (xs_runs st)" and "xs_persistent st"
    and "store_add c True mt run (st, f) = (st', f')"
    and "codec_ok c (dict_values (xs_runs st'))"
    and "xs_persistent other" and "case xs_persist_mtime other of None \<Rightarrow> True | Some m \<Rightarrow> m < mt"
  shows "fst (store_get c i (other, f')) = dict_get (xs_runs st') i"
proof -
  have r: "xs_runs st' = insert_run (xs_max_entries st) run (xs_runs st)"
    using store_add_runs(1) [of c True mt run st f] assms(3) by simp
  have k: "keyed (xs_runs st')" unfolding r by (rule insert_run_keyed [OF assms(1)])
  have f': "f' = Some (rc_render c (map (rc_dump c) (dict_values (xs_runs st'))), mt)"
    using assms(2,3) by (auto simp: store_add_def store_persist_def fs_write_def)
  have "load_entries c (map (rc_dump c) (dict_values (xs_runs st'))) [] = (True, xs_runs st')"
    using load_dumped [of "xs_runs st'" c "[]"] assms(4) k by (simp add: codec_ok_def)
  then show ?thesis
    using assms(4,5,6) by (auto simp: store_get_def Let_def store_refresh_def f' codec_ok_def split: option.splits)
qed

theorem store_shared_through_file_witness:
  "fst (store_get plain_codec ''a''
     (store_init plain_codec 4 True None,
      snd (store_add plain_codec True 7 (sample_run ''a'' 1) (store_init plain_codec 4 True None, None))))
   = Some (sample_run ''a'' 1)"
proof -
  let ?st = "store_init plain_codec 4 True None"
  obtain st' f' where s: "store_add plain_codec True 7 (sample_run ''a'' 1) (?st, None) = (st', f')"
    by fastforce
  have runs: "xs_runs st' = as_dict [sample_run ''a'' 1]"
  proof -
    have "xs_runs st' = insert_run (xs_max_entries ?st) (sample_run ''a'' 1) (xs_runs ?st)"
      using store_add_runs(1) [of plain_codec True 7 "sample_run ''a'' 1" ?st None] unfolding s by simp
    then show ?thesis by (simp add: insert_run_def store_init_def as_dict_def Let_def)
  qed
  have "fst (store_get plain_codec ''a'' (?st, f')) = dict_get (xs_runs st') ''a''"
    by (rule store_shared_through_file [OF _ _ s])
       (simp_all add: store_init_def Let_def codec_ok_def plain_codec_def runs)
  then show ?thesis by (simp add: s runs as_dict_def)
qed

text \<open>
A reload can lose the cache: when the file parses as a list but its first entry does not
  validate, the refresh leaves the store empty, whatever it held, and only flags the failure.
\<close>

theorem failed_reload_empties_cache:
  assumes "xs_persistent st" and "rc_parse c text = Some (e # es)" and "rc_validate c e = None"
    and "case xs_persist_mtime st of None \<Rightarrow> True | Some m \<Rightarrow> m < mt"
  shows "xs_runs (fst (store_refresh c (st, Some (text, mt)))) = [] \<and>
         \<not> xs_last_persist_ok (fst (store_refresh c (st, Some (text, mt))))"
  using assms by (auto simp: store_refresh_def split: option.splits)

theorem failed_reload_empties_cache_witness:
  "xs_runs (fst (store_refresh plain_codec
     (sample_store\<lparr>xs_persistent := True\<rparr>, Some ([sample_run [] 9, sample_run ''d'' 9], 9)))) = []"
proof -
  have "xs_persistent (sample_store\<lparr>xs_persistent := True\<rparr>)" by simp
  moreover have "rc_parse plain_codec [sample_run [] 9, sample_run ''d'' 9] = Some (sample_run [] 9 # [sample_run ''d'' 9])"
    by (simp add: plain_codec_def)
  moreover have "rc_validate plain_codec (sample_run [] 9) = None" by (simp add: plain_codec_def)
  ultimately show ?thesis
    by (rule failed_reload_empties_cache [THEN conjunct1])
       (simp add: sample_store_def store_init_def Let_def)
qed

end
