(* ===== verification/Stats_Kpi.thy ===== *)
theory Stats_Kpi
  imports Models
begin

text \<open>
  Sampling statistics and KPI estimators (\<open>stats.py\<close>, \<open>kpi_estimators.py\<close>): multinomial
  resampling, percentile and bootstrap intervals, empirical distributions and the classical
  fidelity between distributions.

  Python's \<open>random\<close> is the parameter \<open>rng_api\<close> on an abstract generator state; \<open>rng_laws\<close> states
  its documented ranges. Iteration over a \<open>set\<close> of outcomes visits the union of the supports in
  some order; the model takes the keys of the first dictionary and then the new ones of the second.
\<close>

section \<open>The random module\<close>

record 'g rng_api =
  rng_of_seed :: "int \<Rightarrow> 'g"
  rng_random :: "'g \<Rightarrow> real \<times> 'g"
  rng_uniform :: "real \<Rightarrow> real \<Rightarrow> 'g \<Rightarrow> real \<times> 'g"
  rng_randint :: "int \<Rightarrow> int \<Rightarrow> 'g \<Rightarrow> int \<times> 'g"
  rng_choices :: "string list \<Rightarrow> real list \<Rightarrow> int \<Rightarrow> 'g \<Rightarrow> string list \<times> 'g"

definition rng_laws :: "'g rng_api \<Rightarrow> bool" where
  "rng_laws R \<longleftrightarrow>
     (\<forall>g. 0 \<le> fst (rng_random R g) \<and> fst (rng_random R g) < 1) \<and>
     (\<forall>a b g. a \<le> b \<longrightarrow> a \<le> fst (rng_uniform R a b g) \<and> fst (rng_uniform R a b g) \<le> b) \<and>
     (\<forall>a b g. a \<le> b \<longrightarrow> a \<le> fst (rng_randint R a b g) \<and> fst (rng_randint R a b g) \<le> b) \<and>
     (\<forall>os ws k g. os \<noteq> [] \<longrightarrow>
        set (fst (rng_choices R os ws k g)) \<subseteq> set os \<and> length (fst (rng_choices R os ws k g)) = nat k)"

lemma rng_random_range: "rng_laws R \<Longrightarrow> 0 \<le> fst (rng_random R g) \<and> fst (rng_random R g) < 1"
  unfolding rng_laws_def by blast

lemma rng_uniform_range:
  "rng_laws R \<Longrightarrow> a \<le> b \<Longrightarrow> a \<le> fst (rng_uniform R a b g) \<and> fst (rng_uniform R a b g) \<le> b"
  unfolding rng_laws_def by blast

lemma rng_randint_range:
  "rng_laws R \<Longrightarrow> a \<le> b \<Longrightarrow> a \<le> fst (rng_randint R a b g) \<and> fst (rng_randint R a b g) \<le> b"
  unfolding rng_laws_def by blast

lemma rng_choices_draws:
  "rng_laws R \<Longrightarrow> os \<noteq> [] \<Longrightarrow>
     set (fst (rng_choices R os ws k g)) \<subseteq> set os \<and> length (fst (rng_choices R os ws k g)) = nat k"
  unfolding rng_laws_def by blast

text \<open>A generator that satisfies the laws, for the examples: the state counts the calls.\<close>

definition rng_first :: "int rng_api" where
  "rng_first =
     \<lparr>rng_of_seed = (\<lambda>s. s), rng_random = (\<lambda>g. (0, g + 1)), rng_uniform = (\<lambda>a b g. ((a + b) / 2, g + 1)),
      rng_randint = (\<lambda>a b g. (a, g + 1)), rng_choices = (\<lambda>os ws k g. (replicate (nat k) (hd os), g + 1))\<rparr>"

lemma rng_first_laws: "rng_laws rng_first"
  by (auto simp: rng_laws_def rng_first_def)

section \<open>Resampling\<close>

definition counts_total :: "counts \<Rightarrow> int" where
  "counts_total c = sum_list (dict_values c)"

definition normalize_counts :: "counts \<Rightarrow> (string list \<times> real list \<times> int) py" where
  "normalize_counts c =
     (if c = [] then Inl (ExnValue ''counts is empty'')
      else (let tot = counts_total c in
            if tot \<le> 0 then Inl (ExnValue ''counts total must be > 0'')
            else Inr (dict_keys c, map (\<lambda>v. of_int v / of_int tot) (dict_values c), tot)))"

text \<open>The counting loop: \<open>counts = {o: 0 for o in outcomes}\<close>, then \<open>counts[d] += 1\<close> for each draw.\<close>

definition zero_counts :: "string list \<Rightarrow> counts" where
  "zero_counts os = fold (\<lambda>x. dict_set x 0) os []"

definition tally :: "string list \<Rightarrow> string list \<Rightarrow> counts" where
  "tally os draws = fold bump draws (zero_counts os)"

definition multinomial_resample :: "'g rng_api \<Rightarrow> counts \<Rightarrow> int option \<Rightarrow> 'g \<Rightarrow> counts py \<times> 'g" where
  "multinomial_resample R c n g =
     (case normalize_counts c of
        Inl e \<Rightarrow> (Inl e, g)
      | Inr (os, ps, tot) \<Rightarrow>
          (let n' = (case n of None \<Rightarrow> tot | Some k \<Rightarrow> k) in
           if n' \<le> 0 then (Inl (ExnValue ''n must be > 0''), g)
           else (case rng_choices R os ps n' g of (draws, g') \<Rightarrow> (Inr (tally os draws), g'))))"

text \<open>Percentile and bootstrap intervals.\<close>

definition percentile_ci :: "real list \<Rightarrow> real \<Rightarrow> (real \<times> real) py" where
  "percentile_ci samples alpha =
     (if samples = [] then Inl (ExnValue ''samples is empty'')
      else (let s = sort samples;
                m = real (length s) - 1;
                lo_idx = max 0 \<lfloor>alpha / 2 * m\<rfloor>;
                hi_idx = min (int (length s) - 1) \<lceil>(1 - alpha / 2) * m\<rceil> in
            Inr (s ! nat lo_idx, s ! nat hi_idx)))"

fun boot_samples :: "'g rng_api \<Rightarrow> (counts \<Rightarrow> real py) \<Rightarrow> counts \<Rightarrow> int \<Rightarrow> nat \<Rightarrow> real list py" where
  "boot_samples R metric c seed 0 = Inr []"
| "boot_samples R metric c seed (Suc n) =
     py_bind (fst (multinomial_resample R c None (rng_of_seed R seed))) (\<lambda>res.
     py_bind (metric res) (\<lambda>x.
     py_bind (boot_samples R metric c (seed + 1) n) (\<lambda>xs. Inr (x # xs))))"

definition bootstrap_ci :: "'g rng_api \<Rightarrow> (counts \<Rightarrow> real py) \<Rightarrow> counts \<Rightarrow> int \<Rightarrow> real \<Rightarrow> int \<Rightarrow> (real \<times> real) py" where
  "bootstrap_ci R metric c n_boot alpha seed =
     (if n_boot < 50 then Inl (ExnValue ''n_boot should be >= 50 for a minimally stable CI'')
      else py_bind (boot_samples R metric c seed (nat n_boot)) (\<lambda>samples. percentile_ci samples alpha))"

section \<open>Estimators\<close>

definition dict_union_keys :: "('k, 'a) dict \<Rightarrow> ('k, 'b) dict \<Rightarrow> 'k list" where
  "dict_union_keys p q = dict_keys p @ filter (\<lambda>k. k \<notin> set (dict_keys p)) (dict_keys q)"

definition distribution_from_counts :: "counts \<Rightarrow> string list option \<Rightarrow> distribution py" where
  "distribution_from_counts c support =
     (if c = [] then Inl (ExnValue ''counts is empty'')
      else (let tot = counts_total c in
            if tot \<le> 0 then Inl (ExnValue ''counts total must be > 0'')
            else Inr (map (\<lambda>k. (k, of_int (dict_get_or 0 c k) / of_int tot))
                       (case support of None \<Rightarrow> dict_keys c | Some ks \<Rightarrow> ks))))"

text \<open>The loop of \<open>distribution_fidelity\<close> over the union of the supports.\<close>

fun overlap :: "distribution \<Rightarrow> distribution \<Rightarrow> string list \<Rightarrow> real \<Rightarrow> real py" where
  "overlap p q [] s = Inr s"
| "overlap p q (k # ks) s =
     (let pk = dict_get_or 0 p k; qk = dict_get_or 0 q k in
      if pk < 0 \<or> qk < 0 then Inl (ExnValue ''probabilities must be nonnegative'')
      else overlap p q ks (s + sqrt (pk * qk)))"

definition distribution_fidelity :: "distribution \<Rightarrow> distribution \<Rightarrow> real py" where
  "distribution_fidelity p q =
     (let ks = dict_union_keys p q in
      if ks = [] then Inl (ExnValue ''distributions must have at least one outcome'')
      else py_bind (overlap p q ks 0) (\<lambda>s. let s' = clamp 0 1 s in Inr (s' * s')))"

definition fidelity_dist_from_counts :: "counts \<Rightarrow> distribution \<Rightarrow> real py" where
  "fidelity_dist_from_counts c q =
     py_bind (distribution_from_counts c (Some (dict_union_keys c q))) (\<lambda>p_hat. distribution_fidelity p_hat q)"

definition fidelity_dist_ci95_from_counts :: "'g rng_api \<Rightarrow> counts \<Rightarrow> distribution \<Rightarrow> int \<Rightarrow> int \<Rightarrow> (real \<times> real) py" where
  "fidelity_dist_ci95_from_counts R c q n_boot seed =
     bootstrap_ci R (\<lambda>res. fidelity_dist_from_counts res q) c n_boot (5 / 100) seed"

section \<open>Tallies\<close>

definition counts_ok :: "counts \<Rightarrow> bool" where
  "counts_ok c \<longleftrightarrow> dict_wf c \<and> (\<forall>v \<in> set (dict_values c). 0 \<le> v)"

lemma counts_total_dict_sum: "counts_total c = dict_sum id c"
  by (simp add: counts_total_def dict_sum_def comp_def)

lemma zero_counts_props:
  "dict_wf (zero_counts os) \<and> set (dict_keys (zero_counts os)) = set os \<and>
   (\<forall>v \<in> set (dict_values (zero_counts os)). v = 0)"
proof -
  have "dict_wf d \<Longrightarrow> \<forall>v \<in> set (dict_values d). v = 0 \<Longrightarrow>
      dict_wf (fold (\<lambda>x. dict_set x 0) os d) \<and>
      set (dict_keys (fold (\<lambda>x. dict_set x 0) os d)) = set (dict_keys d) \<union> set os \<and>
      (\<forall>v \<in> set (dict_values (fold (\<lambda>x. dict_set x 0) os d)). v = 0)" for d :: counts
  proof (induction os arbitrary: d)
    case (Cons x os)
    have "\<forall>v \<in> set (dict_values (dict_set x 0 d)). v = 0"
      using Cons.prems(2) set_values_set [of _ x "0::int" d] by blast
    from Cons.IH [OF wf_set [OF Cons.prems(1)] this] show ?case
      unfolding fold_simps keys_set list.set Un_insert_left Un_insert_right by blast
  qed simp
  from this [of "[]"] show ?thesis by (simp add: zero_counts_def)
qed

lemma zero_counts_total: "counts_total (zero_counts os) = 0"
proof -
  have "\<forall>v \<in> set vs. v = 0 \<Longrightarrow> sum_list vs = 0" for vs :: "int list" by (induction vs) auto
  then show ?thesis using zero_counts_props [of os] by (simp add: counts_total_def)
qed

lemma bump_ok: "counts_ok c \<Longrightarrow> counts_ok (bump d c)"
proof -
  assume c: "counts_ok c"
  have "0 \<le> dict_get_or 0 c d"
  proof (cases "dict_get c d")
    case (Some v)
    then have "v \<in> set (dict_values c)" using map_of_SomeD by force
    then have "0 \<le> v" using c unfolding counts_ok_def by blast
    then show ?thesis using Some by (simp add: dict_get_or_def)
  qed (simp add: dict_get_or_def)
  then have "0 \<le> v" if "v \<in> set (dict_values (bump d c))" for v
    using c set_values_set [OF that [unfolded bump_def]] unfolding counts_ok_def by fastforce
  then show ?thesis using c by (simp add: counts_ok_def wf_bump)
qed

lemma bumps_props:
  assumes "counts_ok c" and "set draws \<subseteq> set (dict_keys c)"
  shows "counts_ok (fold bump draws c)" and "counts_total (fold bump draws c) = counts_total c + int (length draws)"
    and "set (dict_keys (fold bump draws c)) = set (dict_keys c)"
proof -
  have "counts_ok (fold bump draws c) \<and> counts_total (fold bump draws c) = counts_total c + int (length draws)
      \<and> set (dict_keys (fold bump draws c)) = set (dict_keys c)"
    using assms
  proof (induction draws arbitrary: c)
    case (Cons d draws)
    have "counts_total (bump d c) = counts_total c + 1"
      using Cons.prems(1) by (simp add: counts_total_dict_sum bump_sum counts_ok_def)
    moreover have "set (dict_keys (bump d c)) = set (dict_keys c)"
      using Cons.prems(2) unfolding bump_def keys_set by auto
    ultimately show ?case using Cons.IH [of "bump d c"] Cons.prems by (simp add: bump_ok)
  qed simp
  then show "counts_ok (fold bump draws c)" and "counts_total (fold bump draws c) = counts_total c + int (length draws)"
    and "set (dict_keys (fold bump draws c)) = set (dict_keys c)" by blast+
qed

lemma tally_props:
  assumes "set draws \<subseteq> set os"
  shows "counts_ok (tally os draws)" and "counts_total (tally os draws) = int (length draws)"
    and "set (dict_keys (tally os draws)) = set os"
proof -
  have z: "counts_ok (zero_counts os)" "set draws \<subseteq> set (dict_keys (zero_counts os))"
    using zero_counts_props [of os] assms by (auto simp: counts_ok_def)
  show "counts_ok (tally os draws)" unfolding tally_def by (rule bumps_props(1) [OF z])
  show "counts_total (tally os draws) = int (length draws)"
    unfolding tally_def bumps_props(2) [OF z] zero_counts_total by simp
  show "set (dict_keys (tally os draws)) = set os"
    unfolding tally_def bumps_props(3) [OF z] using zero_counts_props [of os] by blast
qed

lemma tally_total:
  "rng_laws R \<Longrightarrow> os \<noteq> [] \<Longrightarrow> counts_total (tally os (fst (rng_choices R os ws k g))) = int (nat k)"
  using tally_props(2) [of "fst (rng_choices R os ws k g)" os] rng_choices_draws [of R os ws k g] by simp

section \<open>Fidelity\<close>

definition dist_nonneg :: "distribution \<Rightarrow> bool" where
  "dist_nonneg p \<longleftrightarrow> dict_wf p \<and> (\<forall>v \<in> set (dict_values p). 0 \<le> v)"

definition dist_ok :: "distribution \<Rightarrow> bool" where
  "dist_ok p \<longleftrightarrow> dist_nonneg p \<and> sum_list (dict_values p) = 1"

definition mass :: "distribution \<Rightarrow> string \<Rightarrow> real" where
  "mass p k = dict_get_or 0 p k"

lemma mass_nonneg: "dist_nonneg p \<Longrightarrow> 0 \<le> mass p k"
proof (cases "dict_get p k")
  case (Some v)
  assume "dist_nonneg p"
  moreover have "v \<in> set (dict_values p)" using map_of_SomeD [OF Some] by force
  ultimately have "0 \<le> v" unfolding dist_nonneg_def by blast
  then show ?thesis using Some by (simp add: mass_def dict_get_or_def)
qed (simp add: mass_def dict_get_or_def)

lemma overlap_eq:
  assumes "dist_nonneg p" and "dist_nonneg q"
  shows "overlap p q ks s = Inr (s + (\<Sum>k\<leftarrow>ks. sqrt (mass p k * mass q k)))"
  using mass_nonneg [OF assms(1)] mass_nonneg [OF assms(2)]
  by (induction ks arbitrary: s) (simp_all add: mass_def Let_def not_less [symmetric])

lemma union_keys_set: "set (dict_union_keys p q) = set (dict_keys p) \<union> set (dict_keys q)"
  by (auto simp: dict_union_keys_def)

lemma union_keys_distinct: "dict_wf p \<Longrightarrow> dict_wf q \<Longrightarrow> distinct (dict_union_keys p q)"
  by (auto simp: dict_union_keys_def dict_wf_def)

lemma mass_absent: "k \<notin> set (dict_keys p) \<Longrightarrow> mass p k = 0"
  using keys_get [of k p] by (simp add: mass_def dict_get_or_def split: option.split)

lemma mass_sum_keys: "dict_wf p \<Longrightarrow> (\<Sum>k \<in> set (dict_keys p). mass p k) = sum_list (dict_values p)"
proof (induction p)
  case (Cons e p)
  obtain k v where e: "e = (k, v)" by (cases e)
  have wf: "dict_wf p" and fresh: "k \<notin> set (dict_keys p)" using Cons.prems e by (auto simp: dict_wf_def)
  have "(\<Sum>j \<in> set (dict_keys p). mass (e # p) j) = (\<Sum>j \<in> set (dict_keys p). mass p j)"
    using fresh by (intro sum.cong) (auto simp: mass_def dict_get_or_def e)
  moreover have "mass (e # p) k = v" by (simp add: mass_def dict_get_or_def e)
  ultimately show ?case using Cons.IH [OF wf] fresh by (simp add: e)
qed simp

lemma mass_sum:
  assumes "dict_wf p" and "finite A" and "set (dict_keys p) \<subseteq> A"
  shows "(\<Sum>k \<in> A. mass p k) = sum_list (dict_values p)"
proof -
  have "(\<Sum>k \<in> A. mass p k) = (\<Sum>k \<in> set (dict_keys p). mass p k)"
    using assms mass_absent by (intro sum.mono_neutral_right) auto
  then show ?thesis using mass_sum_keys [OF assms(1)] by simp
qed

text \<open>The sum the loop computes, over the union of the supports as a set.\<close>

definition bhattacharyya :: "distribution \<Rightarrow> distribution \<Rightarrow> real" where
  "bhattacharyya p q = (\<Sum>k \<in> set (dict_keys p) \<union> set (dict_keys q). sqrt (mass p k * mass q k))"

lemma overlap_bhattacharyya:
  assumes "dist_nonneg p" and "dist_nonneg q"
  shows "overlap p q (dict_union_keys p q) 0 = Inr (bhattacharyya p q)"
proof -
  have "distinct (dict_union_keys p q)" using assms by (simp add: dist_nonneg_def union_keys_distinct)
  then have "(\<Sum>k\<leftarrow>dict_union_keys p q. sqrt (mass p k * mass q k)) = bhattacharyya p q"
    by (simp add: sum_list_distinct_conv_sum_set union_keys_set bhattacharyya_def)
  then show ?thesis by (simp add: overlap_eq [OF assms])
qed

lemma bhattacharyya_nonneg: "dist_nonneg p \<Longrightarrow> dist_nonneg q \<Longrightarrow> 0 \<le> bhattacharyya p q"
  by (simp add: bhattacharyya_def sum_nonneg mass_nonneg)

lemma sqrt_le_mean: "0 \<le> a \<Longrightarrow> 0 \<le> b \<Longrightarrow> sqrt (a * b) \<le> (a + b) / 2" for a b :: real
  using arith_geo_mean_sqrt [of a b] by simp

lemma bhattacharyya_le_1:
  assumes "dist_ok p" and "dist_ok q"
  shows "bhattacharyya p q \<le> 1"
proof -
  let ?A = "set (dict_keys p) \<union> set (dict_keys q)"
  have nn: "dist_nonneg p" "dist_nonneg q" and wf: "dict_wf p" "dict_wf q"
    using assms by (auto simp: dist_ok_def dist_nonneg_def)
  have "bhattacharyya p q \<le> (\<Sum>k \<in> ?A. (mass p k + mass q k) / 2)"
    unfolding bhattacharyya_def by (intro sum_mono sqrt_le_mean mass_nonneg nn)
  also have "\<dots> = ((\<Sum>k \<in> ?A. mass p k) + (\<Sum>k \<in> ?A. mass q k)) / 2"
    by (simp add: sum.distrib sum_divide_distrib add_divide_distrib)
  also have "(\<Sum>k \<in> ?A. mass p k) = 1" using mass_sum [OF wf(1), of ?A] assms(1) by (simp add: dist_ok_def)
  also have "(\<Sum>k \<in> ?A. mass q k) = 1" using mass_sum [OF wf(2), of ?A] assms(2) by (simp add: dist_ok_def)
  finally show ?thesis by simp
qed

lemma bhattacharyya_commute: "bhattacharyya p q = bhattacharyya q p"
  by (simp add: bhattacharyya_def Un_commute mult.commute)

lemma bhattacharyya_refl: "dist_ok p \<Longrightarrow> bhattacharyya p p = 1"
  using mass_sum_keys [of p] mass_nonneg [of p]
  by (simp add: bhattacharyya_def dist_ok_def dist_nonneg_def)

lemma dist_ok_nonempty: "dist_ok p \<Longrightarrow> p \<noteq> []"
  by (auto simp: dist_ok_def)

lemma fidelity_eq:
  assumes "dist_nonneg p" and "dist_nonneg q" and "p \<noteq> [] \<or> q \<noteq> []"
  shows "distribution_fidelity p q = Inr ((clamp 0 1 (bhattacharyya p q))\<^sup>2)"
proof -
  have "dict_union_keys p q \<noteq> []" using assms(3) by (auto simp: dict_union_keys_def)
  then show ?thesis
    by (simp add: distribution_fidelity_def overlap_bhattacharyya [OF assms(1,2)] power2_eq_square Let_def)
qed

text \<open>
The classical fidelity of two probability distributions is the squared Bhattacharyya
  coefficient (the guard \<open>max(0, min(1, s))\<close> never changes it), lies between 0 and 1, does not
  depend on the order of the arguments, and is 1 for equal distributions.
\<close>

theorem fidelity_of_distributions:
  assumes "dist_ok p" and "dist_ok q"
  shows "distribution_fidelity p q = Inr ((bhattacharyya p q)\<^sup>2) \<and>
    0 \<le> (bhattacharyya p q)\<^sup>2 \<and> (bhattacharyya p q)\<^sup>2 \<le> 1 \<and>
    distribution_fidelity q p = distribution_fidelity p q \<and> distribution_fidelity p p = Inr 1"
proof -
  have nn: "dist_nonneg p" "dist_nonneg q" using assms by (auto simp: dist_ok_def)
  have ne: "p \<noteq> []" "q \<noteq> []" using assms dist_ok_nonempty by auto
  have b: "0 \<le> bhattacharyya p q" "bhattacharyya p q \<le> 1"
    by (rule bhattacharyya_nonneg [OF nn], rule bhattacharyya_le_1 [OF assms])
  have "bhattacharyya p p = 1" by (rule bhattacharyya_refl [OF assms(1)])
  then show ?thesis
    using b ne by (simp add: fidelity_eq nn clamp_id bhattacharyya_commute [of q p] power_le_one)
qed

theorem fidelity_of_distributions_witness:
  "distribution_fidelity [(''0'', 1/2), (''1'', 1/2)] [(''0'', 1/2), (''1'', 1/2)] = Inr 1"
proof -
  have "dist_ok [(''0'', 1/2), (''1'', 1/2)]" by (simp add: dist_ok_def dist_nonneg_def dict_wf_def)
  from fidelity_of_distributions [OF this this] show ?thesis by (elim conjE)
qed

section \<open>Resampling and the bootstrap interval\<close>

lemma normalize_ok:
  assumes "c \<noteq> []" and "0 < counts_total c"
  shows "normalize_counts c = Inr (dict_keys c, map (\<lambda>v. of_int v / of_int (counts_total c)) (dict_values c), counts_total c)"
  using assms by (simp add: normalize_counts_def Let_def)

text \<open>
  A multinomial resample of valid counts has the same support, no negative count, and exactly
  \<open>n\<close> shots (the original total when \<open>n\<close> is not given).
\<close>

theorem resample_keeps_total:
  assumes "rng_laws R" and "0 < counts_total c" and "n' = (case n of None \<Rightarrow> counts_total c | Some k \<Rightarrow> k)" and "0 < n'"
  shows "\<exists>out g'. multinomial_resample R c n g = (Inr out, g') \<and> counts_ok out \<and>
    set (dict_keys out) = set (dict_keys c) \<and> counts_total out = n'"
proof -
  have c: "c \<noteq> []" using assms(2) by (auto simp: counts_total_def)
  let ?ps = "map (\<lambda>v. of_int v / of_int (counts_total c)) (dict_values c) :: real list"
  obtain draws g' where d: "rng_choices R (dict_keys c) ?ps n' g = (draws, g')" by fastforce
  have "multinomial_resample R c n g = (Inr (tally (dict_keys c) draws), g')"
    using assms(4) d unfolding multinomial_resample_def normalize_ok [OF c assms(2)] Let_def
    by (simp add: assms(3) [symmetric] del: map_map)
  moreover have "set draws \<subseteq> set (dict_keys c)" "length draws = nat n'"
    using rng_choices_draws [OF assms(1), of "dict_keys c" ?ps n' g] c d by simp_all
  ultimately show ?thesis using tally_props [of draws "dict_keys c"] assms(4) by simp
qed

theorem resample_keeps_total_witness:
  "\<exists>out g'. multinomial_resample rng_first [(''00'', 3), (''11'', 5)] (Some 20) 0 = (Inr out, g') \<and>
     counts_ok out \<and> set (dict_keys out) = {''00'', ''11''} \<and> counts_total out = 20"
  using resample_keeps_total [OF rng_first_laws, of "[(''00'', 3), (''11'', 5)]" 20 "Some 20" 0]
  by (simp add: counts_total_def)

lemma percentile_ci_ok:
  assumes "samples \<noteq> []" and "0 \<le> alpha" and "alpha \<le> 1"
  shows "\<exists>lo hi. percentile_ci samples alpha = Inr (lo, hi) \<and> lo \<in> set samples \<and> hi \<in> set samples \<and> lo \<le> hi"
proof -
  define s where "s = sort samples"
  define m where "m = real (length s) - 1"
  define lo where "lo = max 0 \<lfloor>alpha / 2 * m\<rfloor>"
  define hi where "hi = min (int (length s) - 1) \<lceil>(1 - alpha / 2) * m\<rceil>"
  have len: "1 \<le> length s" using assms(1) by (cases samples) (auto simp: s_def)
  then have m: "0 \<le> m" by (simp add: m_def)
  have le: "alpha / 2 * m \<le> (1 - alpha / 2) * m" using m assms by (intro mult_right_mono) auto
  have lo0: "0 \<le> alpha / 2 * m" using m assms(2) by simp
  have "\<lfloor>alpha / 2 * m\<rfloor> \<le> \<lceil>(1 - alpha / 2) * m\<rceil>" using le by linarith
  moreover have "\<lfloor>alpha / 2 * m\<rfloor> \<le> int (length s) - 1"
  proof -
    have "alpha / 2 * m \<le> 1 * m" using m assms by (intro mult_right_mono) auto
    then have "alpha / 2 * m < real_of_int (int (length s))" by (simp add: m_def)
    then have "\<lfloor>alpha / 2 * m\<rfloor> < int (length s)" unfolding floor_less_iff .
    then show ?thesis by simp
  qed
  ultimately have lohi: "0 \<le> lo" "lo \<le> hi" "hi \<le> int (length s) - 1"
    using lo0 len by (auto simp: lo_def hi_def)
  then have idx: "nat lo \<le> nat hi" "nat hi < length s" using len by auto
  have "percentile_ci samples alpha = Inr (s ! nat lo, s ! nat hi)"
    using assms(1) by (simp add: percentile_ci_def Let_def s_def m_def lo_def hi_def)
  moreover have "s ! nat lo \<le> s ! nat hi" using idx by (intro sorted_nth_mono) (simp_all add: s_def)
  moreover have "set s = set samples" by (simp add: s_def)
  ultimately show ?thesis using idx by (metis nth_mem le_less_trans)
qed

lemma boot_samples_ok:
  assumes "rng_laws R" and "0 < counts_total c"
    and "\<And>res. counts_ok res \<Longrightarrow> 0 < counts_total res \<Longrightarrow> \<exists>x. metric res = Inr x \<and> P x"
  shows "\<exists>xs. boot_samples R metric c seed n = Inr xs \<and> length xs = n \<and> (\<forall>x \<in> set xs. P x)"
proof (induction n arbitrary: seed)
  case (Suc n)
  obtain out g' where out: "multinomial_resample R c None (rng_of_seed R seed) = (Inr out, g')"
      "counts_ok out" "counts_total out = counts_total c"
    using resample_keeps_total [OF assms(1,2), of "counts_total c" None "rng_of_seed R seed"] assms(2) by auto
  have "0 < counts_total out" using out(3) assms(2) by simp
  then obtain x where x: "metric out = Inr x" "P x" using assms(3) [OF out(2)] by blast
  obtain xs where "boot_samples R metric c (seed + 1) n = Inr xs" "length xs = n" "\<forall>x \<in> set xs. P x"
    using Suc.IH by blast
  then show ?case using out x by simp
qed simp

lemma distribution_from_counts_ok:
  assumes "counts_ok c" and "0 < counts_total c" and "distinct ks" and "set (dict_keys c) \<subseteq> set ks"
  shows "\<exists>p. distribution_from_counts c (Some ks) = Inr p \<and> dist_nonneg p \<and> p \<noteq> []"
proof -
  have c: "c \<noteq> []" using assms(2) by (auto simp: counts_total_def)
  let ?p = "map (\<lambda>k. (k, of_int (dict_get_or 0 c k) / of_int (counts_total c))) ks :: distribution"
  have nn: "0 \<le> dict_get_or 0 c k" for k
  proof (cases "dict_get c k")
    case (Some v)
    then have "v \<in> set (dict_values c)" using map_of_SomeD by force
    then have "0 \<le> v" using assms(1) unfolding counts_ok_def by blast
    then show ?thesis using Some by (simp add: dict_get_or_def)
  qed (simp add: dict_get_or_def)
  have "ks \<noteq> []" using assms(4) c by auto
  moreover have "dist_nonneg ?p" using assms(2,3) nn by (auto simp: dist_nonneg_def dict_wf_def comp_def)
  ultimately show ?thesis using c assms(2) by (auto simp: distribution_from_counts_def Let_def)
qed

lemma fidelity_from_counts_ok:
  assumes "counts_ok c" and "0 < counts_total c" and "dist_nonneg q"
  shows "\<exists>x. fidelity_dist_from_counts c q = Inr x \<and> 0 \<le> x \<and> x \<le> 1"
proof -
  have d: "distinct (dict_union_keys c q)"
    using assms(1,3) by (simp add: counts_ok_def dist_nonneg_def union_keys_distinct)
  obtain p where p: "distribution_from_counts c (Some (dict_union_keys c q)) = Inr p" "dist_nonneg p" "p \<noteq> []"
    using distribution_from_counts_ok [OF assms(1,2) d] by (auto simp: union_keys_set)
  have "0 \<le> clamp 0 1 (bhattacharyya p q)" "clamp 0 1 (bhattacharyya p q) \<le> 1"
    using clamp_bounds [of 0 1] by auto
  then have "0 \<le> (clamp 0 1 (bhattacharyya p q))\<^sup>2" "(clamp 0 1 (bhattacharyya p q))\<^sup>2 \<le> 1"
    by (simp_all add: power_le_one)
  then show ?thesis by (simp add: fidelity_dist_from_counts_def p fidelity_eq [OF p(2) assms(3)])
qed

text \<open>
The 95 percent bootstrap interval of the fidelity exists for every valid set of counts and
  every nonnegative reference, and its ends satisfy \<open>0 \<le> lo \<le> hi \<le> 1\<close>.
\<close>

theorem fidelity_ci_bounds:
  assumes "rng_laws R" and "0 < counts_total c" and "dist_nonneg q" and "50 \<le> n_boot"
  shows "\<exists>lo hi. fidelity_dist_ci95_from_counts R c q n_boot seed = Inr (lo, hi) \<and> 0 \<le> lo \<and> lo \<le> hi \<and> hi \<le> 1"
proof -
  obtain xs where xs: "boot_samples R (\<lambda>res. fidelity_dist_from_counts res q) c seed (nat n_boot) = Inr xs"
      "length xs = nat n_boot" "\<forall>x \<in> set xs. 0 \<le> x \<and> x \<le> 1"
    using boot_samples_ok [OF assms(1,2), of "\<lambda>res. fidelity_dist_from_counts res q" "\<lambda>x. 0 \<le> x \<and> x \<le> 1" seed "nat n_boot"]
      fidelity_from_counts_ok [OF _ _ assms(3)] by blast
  then have "xs \<noteq> []" using assms(4) by auto
  from percentile_ci_ok [OF this, of "5 / 100"] obtain lo hi
    where "percentile_ci xs (5 / 100) = Inr (lo, hi)" "lo \<in> set xs" "hi \<in> set xs" "lo \<le> hi" by auto
  then show ?thesis
    using xs assms(4) by (simp add: fidelity_dist_ci95_from_counts_def bootstrap_ci_def)
qed

theorem fidelity_ci_bounds_witness:
  "\<exists>lo hi. fidelity_dist_ci95_from_counts rng_first [(''00'', 30), (''11'', 70)] [(''00'', 1/2), (''11'', 1/2)] 200 0
     = Inr (lo, hi) \<and> 0 \<le> lo \<and> lo \<le> hi \<and> hi \<le> 1"
  by (rule fidelity_ci_bounds [OF rng_first_laws])
     (simp_all add: counts_total_def dist_nonneg_def dict_wf_def)

end
