(* ===== verification/Grover.thy ===== *)
theory Grover
  imports Stats_Kpi
begin

text \<open>
  The Grover helpers (\<open>grover.py\<close>, \<open>grover_utils.py\<close>): iteration count, success estimate, shot
  bound, reference distributions and the two energy-aware search loops. Running a circuit is the
  parameter \<open>run\<close>: shots to counts (or an exception) on a state of its own. The circuits themselves
  are in \<open>Grover_Circuits\<close>.

  The loop of \<open>grover.py\<close> is a terminating function; the \<open>while True\<close> of \<open>grover_utils.py\<close> may run
  forever, so its result is an option and \<open>None\<close> is not returning.
\<close>

section \<open>grover.py\<close>

definition bitstring_to_int :: "string \<Rightarrow> int option" where
  "bitstring_to_int s =
     (if s \<noteq> [] \<and> set s \<subseteq> {CHR ''0'', CHR ''1''}
      then Some (fold (\<lambda>c acc. 2 * acc + (if c = CHR ''1'' then 1 else 0)) s 0) else None)"

definition optimal_iterations :: "nat \<Rightarrow> int \<Rightarrow> int" where
  "optimal_iterations n_qubits num_marked =
     max 1 \<lfloor>(pi / 4) * sqrt (of_int (2 ^ n_qubits) / of_int (max 1 num_marked))\<rfloor>"

record grover_config =
  gc_n_qubits :: nat
  gc_marked :: "string list"
  gc_iterations :: "int option"
  gc_shots :: int
  gc_seed_sim :: "int option"

definition success_probability :: "counts \<Rightarrow> string list \<Rightarrow> real" where
  "success_probability c marked =
     (let tot = counts_total c in
      if tot = 0 then 0
      else of_int (sum_list (map snd (filter (\<lambda>(k, v). k \<in> set marked) c))) / of_int tot)"

definition min_shots_for_confidence :: "real \<Rightarrow> real \<Rightarrow> int py" where
  "min_shots_for_confidence eps delta =
     (if eps \<le> 0 \<or> delta \<le> 0 \<or> delta \<ge> 1 then Inl (ExnValue ''eps must be >0 and delta in (0,1)'')
      else Inr \<lceil>1 / 2 * (ln (2 / delta) / eps ^ 2)\<rceil>)"

text \<open>\<open>f"{i:0{n}b}"\<close>: binary digits, at least \<open>n\<close> of them.\<close>

fun bits_of :: "nat \<Rightarrow> string" where
  "bits_of n = (if n < 2 then [if n = 1 then CHR ''1'' else CHR ''0'']
                else bits_of (n div 2) @ [if n mod 2 = 1 then CHR ''1'' else CHR ''0''])"

declare bits_of.simps [simp del]

definition bin_format :: "nat \<Rightarrow> nat \<Rightarrow> string" where
  "bin_format n i = replicate (n - length (bits_of i)) (CHR ''0'') @ bits_of i"

definition all_states :: "nat \<Rightarrow> string list" where
  "all_states n = map (bin_format n) [0..<2 ^ n]"

definition ideal_marked_distribution :: "nat \<Rightarrow> string list \<Rightarrow> real \<Rightarrow> distribution" where
  "ideal_marked_distribution n_qubits marked background =
     (if marked = [] then map (\<lambda>s. (s, 1 / 2 ^ n_qubits)) (all_states n_qubits)
      else
        (let ambient = filter (\<lambda>s. s \<notin> set marked) (all_states n_qubits);
             noise_floor = max 0 background;
             signal_mass = max 0 (1 - noise_floor * real (length ambient));
             signal_share = signal_mass / real (length marked);
             d0 = fold (\<lambda>s. dict_set s signal_share) marked [];
             d = fold (\<lambda>s. dict_set s noise_floor) ambient d0;
             norm = sum_list (dict_values d) in
         map (\<lambda>(k, v). (k, v / norm)) d))"

text \<open>
  The loop of \<open>energy_aware_search\<close>. \<open>run\<close> is \<open>run_grover\<close> for the given configuration; an
  exception ends the search.
\<close>

definition grow :: "nat \<Rightarrow> int" where
  "grow shots = \<lceil>real shots * (18 / 10)\<rceil>"

lemma grow_gt: "0 < n \<Longrightarrow> int n < grow n"
  by (simp add: grow_def less_ceiling_iff)

function search_loop :: "(int \<Rightarrow> 'g \<Rightarrow> counts py \<times> 'g) \<Rightarrow> string list \<Rightarrow> real \<Rightarrow> int \<Rightarrow> nat \<Rightarrow> 'g
    \<Rightarrow> (int \<times> counts \<times> real) py \<times> 'g" where
  "search_loop run marked target cap shots g =
     (if int shots \<le> cap then
        (case run (int shots) g of
           (Inl e, g1) \<Rightarrow> (Inl e, g1)
         | (Inr c, g1) \<Rightarrow>
             (let est = success_probability c marked in
              if est \<ge> target then (Inr (int shots, c, est), g1)
              else
                (let next_shots = min cap (grow shots) in
                 if next_shots = int shots then (Inr (int shots, c, est), g1)
                 else search_loop run marked target cap (nat next_shots) g1)))
      else
        (case run cap g of
           (Inl e, g1) \<Rightarrow> (Inl e, g1)
         | (Inr c, g1) \<Rightarrow> (Inr (cap, c, success_probability c marked), g1)))"
  by pat_completeness auto
termination
proof (relation "measure (\<lambda>(run, marked, target, cap, shots, g). nat (cap - int shots))", goal_cases)
  case (2 run marked target cap shots g x g1 c est next_shots)
  show ?case
  proof (cases "shots = 0")
    case True
    then show ?thesis using 2 by (simp add: grow_def)
  next
    case False
    then have "int shots < grow shots" by (simp add: grow_gt)
    then show ?thesis using 2 by (simp add: min_def split: if_splits)
  qed
qed simp

declare search_loop.simps [simp del]

definition energy_aware_search :: "(int \<Rightarrow> 'g \<Rightarrow> counts py \<times> 'g) \<Rightarrow> grover_config \<Rightarrow> real \<Rightarrow> real \<Rightarrow> real \<Rightarrow> int \<Rightarrow> 'g
    \<Rightarrow> (int \<times> counts \<times> real) py \<times> 'g" where
  "energy_aware_search run cfg target eps delta cap g =
     (case min_shots_for_confidence eps delta of
        Inl e \<Rightarrow> (Inl e, g)
      | Inr m \<Rightarrow> search_loop run (gc_marked cfg) target cap (nat (max 16 (min m cap))) g)"

section \<open>grover\_utils.py\<close>

definition config_valid :: "grover_config \<Rightarrow> bool" where
  "config_valid cfg \<longleftrightarrow> 0 < gc_n_qubits cfg \<and> 0 < gc_shots cfg"

text \<open>\<open>replace\<close> runs \<open>__post_init__\<close> again.\<close>

definition with_shots :: "grover_config \<Rightarrow> int \<Rightarrow> grover_config py" where
  "with_shots cfg shots =
     (if gc_n_qubits cfg = 0 then Inl (ExnValue ''n_qubits must be positive'')
      else if shots \<le> 0 then Inl (ExnValue ''shots must be positive'')
      else Inr (cfg\<lparr>gc_shots := shots\<rparr>))"

definition u_min_shots_for_confidence :: "real \<Rightarrow> real \<Rightarrow> int py" where
  "u_min_shots_for_confidence eps delta =
     (if eps \<le> 0 then Inl (ExnValue ''eps must be > 0'')
      else if delta \<le> 0 \<or> delta \<ge> 1 then Inl (ExnValue ''delta must be in (0, 1)'')
      else Inr \<lceil>ln (2 / delta) / (2 * eps * eps)\<rceil>)"

text \<open>\<open>marked\<close> is a set: each marked string is counted once.\<close>

definition u_success_probability :: "counts \<Rightarrow> string list \<Rightarrow> real" where
  "u_success_probability c marked =
     (let tot = counts_total c in
      if tot \<le> 0 then 0
      else if marked = [] then 0
      else of_int (sum_list (map (dict_get_or 0 c) (remdups marked))) / of_int tot)"

definition u_ideal_marked_distribution :: "nat \<Rightarrow> string list \<Rightarrow> distribution py" where
  "u_ideal_marked_distribution n_qubits marked =
     (if n_qubits = 0 then Inl (ExnValue ''n_qubits must be positive'')
      else if marked = [] then Inr (map (\<lambda>s. (s, 1 / 2 ^ n_qubits)) (all_states n_qubits))
      else
        (let unmarked = filter (\<lambda>s. s \<notin> set marked) (all_states n_qubits);
             total_weight = 2 * real (length (remdups marked)) + 1 * real (length unmarked) in
         Inr (map (\<lambda>s. (s, (if s \<in> set marked then 2 else 1) / total_weight)) (all_states n_qubits))))"

definition fallback_counts :: "'g rng_api \<Rightarrow> 'g \<Rightarrow> grover_config \<Rightarrow> counts py" where
  "fallback_counts R g cfg =
     py_bind (u_ideal_marked_distribution (gc_n_qubits cfg) (gc_marked cfg)) (\<lambda>dist.
       Inr (fold bump (fst (rng_choices R (dict_keys dist) (dict_values dist) (gc_shots cfg) g)) []))"

partial_function (option) u_search_loop :: "(grover_config \<Rightarrow> 'g \<Rightarrow> counts py \<times> 'g) \<Rightarrow> grover_config \<Rightarrow> real
    \<Rightarrow> int \<Rightarrow> int \<Rightarrow> int \<Rightarrow> 'g \<Rightarrow> ((int \<times> counts \<times> real) py \<times> 'g) option" where
  "u_search_loop run cfg target floor_shots cap shots g =
     (let s = min shots cap in
      case with_shots cfg s of
        Inl e \<Rightarrow> Some (Inl e, g)
      | Inr test_cfg \<Rightarrow>
          (case run test_cfg g of
             (Inl e, g1) \<Rightarrow> Some (Inl e, g1)
           | (Inr c, g1) \<Rightarrow>
               (let used = counts_total c; success = u_success_probability c (gc_marked cfg) in
                if success \<ge> target then Some (Inr (used, c, success), g1)
                else if s \<ge> cap \<and> used \<ge> cap then Some (Inr (used, c, success), g1)
                else u_search_loop run cfg target floor_shots cap (min (max (s * 2) floor_shots) cap) g1)))"

definition u_energy_aware_search :: "(grover_config \<Rightarrow> 'g \<Rightarrow> counts py \<times> 'g) \<Rightarrow> grover_config \<Rightarrow> real \<Rightarrow> real \<Rightarrow> real
    \<Rightarrow> int \<Rightarrow> 'g \<Rightarrow> ((int \<times> counts \<times> real) py \<times> 'g) option" where
  "u_energy_aware_search run cfg target eps delta cap g =
     (case u_min_shots_for_confidence eps delta of
        Inl e \<Rightarrow> Some (Inl e, g)
      | Inr m \<Rightarrow> u_search_loop run cfg target m cap (max m (max 1 (gc_shots cfg))) g)"

section \<open>Facts\<close>

lemma optimal_iterations_pos: "1 \<le> optimal_iterations n m"
  by (simp add: optimal_iterations_def)

lemma filter_counts_le:
  "\<forall>v \<in> set (dict_values c). 0 \<le> v \<Longrightarrow> sum_list (map snd (filter P c)) \<le> counts_total c"
  by (induction c) (auto simp: counts_total_def)

lemma filter_counts_nonneg:
  "\<forall>v \<in> set (dict_values c). 0 \<le> v \<Longrightarrow> 0 \<le> sum_list (map snd (filter P c))" for c :: counts
  by (induction c) auto

lemma success_probability_bounds:
  assumes "counts_ok c"
  shows "0 \<le> success_probability c marked \<and> success_probability c marked \<le> 1"
proof -
  let ?hit = "sum_list (map snd (filter (\<lambda>(k, v). k \<in> set marked) c))"
  have v: "\<forall>v \<in> set (dict_values c). 0 \<le> v" using assms by (simp add: counts_ok_def)
  have "0 \<le> ?hit" "?hit \<le> counts_total c"
    by (rule filter_counts_nonneg [OF v], rule filter_counts_le [OF v])
  then show ?thesis by (simp add: success_probability_def Let_def divide_le_eq)
qed

lemma min_shots_pos:
  assumes "min_shots_for_confidence eps delta = Inr m"
  shows "0 < m"
proof -
  have e: "0 < eps" "0 < delta" "delta < 1" "m = \<lceil>1 / 2 * (ln (2 / delta) / eps ^ 2)\<rceil>"
    using assms by (auto simp: min_shots_for_confidence_def split: if_splits)
  then have "0 < ln (2 / delta)" by simp
  then show ?thesis using e by simp
qed

text \<open>What the terminating loop returns, for a runner that honours its shot count.\<close>

definition exact_runner :: "(int \<Rightarrow> 'g \<Rightarrow> counts py \<times> 'g) \<Rightarrow> bool" where
  "exact_runner run \<longleftrightarrow> (\<forall>n g c g1. run n g = (Inr c, g1) \<longrightarrow> counts_ok c \<and> counts_total c = n)"

lemma search_loop_result:
  assumes "exact_runner run" and "search_loop run marked target cap shots g = (Inr (n, c, est), g1)"
    and "0 < shots"
  shows "n \<le> cap \<and> counts_total c = n \<and> counts_ok c \<and> est = success_probability c marked \<and> (target \<le> est \<or> n = cap)"
  using assms
proof (induction run marked target cap shots g rule: search_loop.induct)
  case (1 run marked target cap shots g)
  show ?case
  proof (cases "int shots \<le> cap")
    case False
    then show ?thesis
      using 1(2,3) by (subst (asm) search_loop.simps)
        (auto simp: exact_runner_def split: prod.splits sum.splits)
  next
    case True
    note in_loop = True
    show ?thesis
    proof (cases "run (int shots) g")
      case (Pair r g2)
      show ?thesis
      proof (cases r)
        case (Inl e)
        then show ?thesis using 1(3) Pair True by (subst (asm) search_loop.simps) simp
      next
        case (Inr c2)
        note r = Pair Inr
        have tot: "counts_total c2 = int shots" "counts_ok c2" using 1(2) r unfolding exact_runner_def by blast+
        let ?next = "min cap (grow shots)"
        show ?thesis
        proof (cases "success_probability c2 marked \<ge> target \<or> ?next = int shots")
          case True
          moreover have "?next = int shots \<Longrightarrow> cap = int shots"
            using in_loop grow_gt [OF 1(4)] by (simp add: min_def split: if_splits)
          ultimately show ?thesis
            using 1(3) r in_loop tot by (subst (asm) search_loop.simps) (auto simp: Let_def split: if_splits)
        next
          case False
          then have "search_loop run marked target cap (nat ?next) g2 = (Inr (n, c, est), g1)"
            using 1(3) r in_loop by (subst (asm) search_loop.simps) (simp add: Let_def)
          moreover have "0 < nat ?next" using in_loop 1(4) grow_gt [OF 1(4)] by simp
          ultimately show ?thesis
            using 1(1) [OF in_loop Pair [symmetric] Inr refl _ refl _ 1(2)] False by blast
        qed
      qed
    qed
  qed
qed

text \<open>
The energy-aware search of \<open>grover.py\<close> always returns, and with a runner that delivers the
  shots it is asked for it returns counts of exactly the reported number of shots, never more
  than the cap, with the success estimate of those counts, and it stops below the target only at
  the cap.
\<close>

theorem energy_aware_search_result:
  assumes "exact_runner run" and "energy_aware_search run cfg target eps delta cap g = (Inr (n, c, est), g1)"
  shows "n \<le> cap \<and> counts_total c = n \<and> est = success_probability c (gc_marked cfg) \<and>
         0 \<le> est \<and> est \<le> 1 \<and> (target \<le> est \<or> n = cap)"
proof -
  obtain m where m: "min_shots_for_confidence eps delta = Inr m"
    using assms(2) by (auto simp: energy_aware_search_def split: sum.splits)
  have "search_loop run (gc_marked cfg) target cap (nat (max 16 (min m cap))) g = (Inr (n, c, est), g1)"
    using assms(2) m by (simp add: energy_aware_search_def)
  moreover have "0 < nat (max 16 (min m cap))" by simp
  ultimately have "n \<le> cap \<and> counts_total c = n \<and> counts_ok c \<and> est = success_probability c (gc_marked cfg) \<and>
      (target \<le> est \<or> n = cap)" by (rule search_loop_result [OF assms(1)])
  then have r: "n \<le> cap" "counts_total c = n" "counts_ok c" "est = success_probability c (gc_marked cfg)"
    "target \<le> est \<or> n = cap" by blast+
  with success_probability_bounds [OF r(3), of "gc_marked cfg"] show ?thesis by simp
qed

text \<open>A runner for the examples: every shot hits the first string; it logs the shots it ran.\<close>

definition hit_runner :: "string \<Rightarrow> int \<Rightarrow> int list \<Rightarrow> counts py \<times> int list" where
  "hit_runner hit n g = (if n \<le> 0 then (Inl (ExnValue ''shots''), g) else (Inr [(hit, n)], g @ [n]))"

lemma hit_runner_exact: "exact_runner (hit_runner hit)"
  by (auto simp: exact_runner_def hit_runner_def counts_ok_def dict_wf_def counts_total_def split: if_splits)

definition demo_cfg :: grover_config where
  "demo_cfg = \<lparr>gc_n_qubits = 2, gc_marked = [''11''], gc_iterations = None, gc_shots = 16, gc_seed_sim = None\<rparr>"

lemma ceiling_value: "of_int n - 1 < x \<Longrightarrow> x \<le> of_int n \<Longrightarrow> \<lceil>x\<rceil> = n" for x :: real
  by (simp add: ceiling_eq_iff)

lemma demo_min_shots: "min_shots_for_confidence 1 (1/2) = Inr 1"
proof -
  have "2 * ln (2::real) = ln 4" using ln_realpow [of 2 2] by simp
  moreover have "(0::real) < ln 2" by simp
  moreover have "ln (2::real) \<le> 1" using ln_le_minus_one [of 2] by simp
  ultimately have "\<lceil>1 / 2 * ln (4::real)\<rceil> = 1" by (intro ceiling_value) simp_all
  then show ?thesis by (simp add: min_shots_for_confidence_def)
qed

theorem energy_aware_search_result_witness:
  "\<exists>c est g1. energy_aware_search (hit_runner ''00'') demo_cfg (6/10) 1 (1/2) 40 [] = (Inr (40, c, est), g1) \<and>
     counts_total c = 40 \<and> est < 6/10 \<and> g1 = [16, 29, 40]"
proof -
  have g: "grow 16 = 29" "grow 29 = 53" by (simp_all add: grow_def ceiling_value)
  note step = search_loop.simps [of "hit_runner ''00''" "[''11'']" "6/10" 40]
  note run = hit_runner_def success_probability_def counts_total_def g Let_def
  have "search_loop (hit_runner ''00'') [''11''] (6/10) 40 40 [16, 29] = (Inr (40, [(''00'', 40)], 0), [16, 29, 40])"
    by (subst step) (simp add: run min_def grow_def ceiling_value)
  then have "search_loop (hit_runner ''00'') [''11''] (6/10) 40 29 [16] = (Inr (40, [(''00'', 40)], 0), [16, 29, 40])"
    by (subst step) (simp add: run)
  then have s: "search_loop (hit_runner ''00'') [''11''] (6/10) 40 16 [] = (Inr (40, [(''00'', 40)], 0), [16, 29, 40])"
    by (subst step) (simp add: run)
  have e: "energy_aware_search (hit_runner ''00'') demo_cfg (6/10) 1 (1/2) 40 []
      = (Inr (40, [(''00'', 40)], 0), [16, 29, 40])"
    using s by (simp add: energy_aware_search_def demo_min_shots demo_cfg_def)
  from energy_aware_search_result [OF hit_runner_exact e] show ?thesis using e by simp
qed

section \<open>Termination of the loop in grover\_utils.py\<close>

text \<open>
  A runner that delivers the shots of its configuration and raises nothing; a runner that always
  delivers fewer than \<open>cap\<close> shots without reaching the target.
\<close>

definition u_exact_runner :: "(grover_config \<Rightarrow> 'g \<Rightarrow> counts py \<times> 'g) \<Rightarrow> bool" where
  "u_exact_runner run \<longleftrightarrow> (\<forall>cfg g. \<exists>c g1. run cfg g = (Inr c, g1) \<and> counts_total c = gc_shots cfg)"

definition u_short_runner :: "(grover_config \<Rightarrow> 'g \<Rightarrow> counts py \<times> 'g) \<Rightarrow> string list \<Rightarrow> int \<Rightarrow> real \<Rightarrow> bool" where
  "u_short_runner run marked cap target \<longleftrightarrow>
     (\<forall>cfg g. \<exists>c g1. run cfg g = (Inr c, g1) \<and> counts_total c < cap \<and> u_success_probability c marked < target)"

lemma u_loop_returns:
  assumes "u_exact_runner run" and "0 < gc_n_qubits cfg" and "0 < cap" and "0 < shots"
  shows "\<exists>n c p g1. u_search_loop run cfg target m cap shots g = Some (Inr (n, c, p), g1) \<and> n \<le> cap"
  using assms(4)
proof (induction "nat (cap - shots)" arbitrary: shots g rule: less_induct)
  case less
  let ?s = "min shots cap"
  have s: "0 < ?s" using less.prems assms(3) by simp
  obtain c g1 where r: "run (cfg\<lparr>gc_shots := ?s\<rparr>) g = (Inr c, g1)" and tot: "counts_total c = ?s"
    using assms(1) unfolding u_exact_runner_def by (metis grover_config.select_convs(4) grover_config.surjective grover_config.update_convs(4))
  have s': "\<not> ?s \<le> 0" using s by linarith
  have w: "with_shots cfg ?s = Inr (cfg\<lparr>gc_shots := ?s\<rparr>)" using assms(2) by (simp add: with_shots_def s')
  show ?case
  proof (cases "target \<le> u_success_probability c (gc_marked cfg) \<or> cap \<le> ?s")
    case True
    then show ?thesis by (subst u_search_loop.simps) (auto simp: w r tot Let_def simp del: min.absorb1 min.absorb2)
  next
    case False
    let ?next = "min (max (?s * 2) m) cap"
    have lt: "shots < cap" "0 < ?next" "nat (cap - ?next) < nat (cap - shots)"
      using False s assms(3) by auto
    from less.hyps [OF lt(3,2)] obtain n c' p g2
      where "u_search_loop run cfg target m cap ?next g1 = Some (Inr (n, c', p), g2)" "n \<le> cap" by blast
    then show ?thesis
      using False lt(1) w r tot by (subst u_search_loop.simps) (simp add: Let_def)
  qed
qed

lemma u_loop_diverges_raw:
  "u_search_loop run cfg target m cap shots g = Some y \<Longrightarrow>
     u_short_runner run (gc_marked cfg) cap target \<and> 0 < gc_n_qubits cfg \<and> 0 < cap \<and> 0 < shots \<longrightarrow> False"
proof (induction rule: u_search_loop.raw_induct [rotated, consumes 1, case_names step])
  case (step loop run cfg target m cap shots g y)
  show ?case
  proof (intro impI)
    assume a: "u_short_runner run (gc_marked cfg) cap target \<and> 0 < gc_n_qubits cfg \<and> 0 < cap \<and> 0 < shots"
    let ?s = "min shots cap"
    have s: "0 < ?s" using a by simp
    then have s': "\<not> ?s \<le> 0" by linarith
    have w: "with_shots cfg ?s = Inr (cfg\<lparr>gc_shots := ?s\<rparr>)" using a by (simp add: with_shots_def s')
    obtain c g1 where r: "run (cfg\<lparr>gc_shots := ?s\<rparr>) g = (Inr c, g1)" and
      c: "counts_total c < cap" "u_success_probability c (gc_marked cfg) < target"
      using a unfolding u_short_runner_def by blast
    have "loop run cfg target m cap (min (max (?s * 2) m) cap) g1 = Some y"
      using step(2) c by (simp add: w r Let_def)
    moreover have "0 < min (max (?s * 2) m) cap" using s a by linarith
    ultimately show False using step(1) a by blast
  qed
qed

text \<open>
  C10. The search of \<open>grover_utils.py\<close> returns, with at most \<open>cap\<close> shots, whenever the runner
  delivers the shots it is asked for; with a backend that keeps delivering fewer shots than the
  cap and misses the target, the \<open>while True\<close> loop never returns.
\<close>

theorem u_search_returns_iff_shots_delivered:
  assumes "0 < gc_n_qubits cfg" and "0 < cap" and "u_min_shots_for_confidence eps delta = Inr m"
  shows "(u_exact_runner run \<longrightarrow> (\<exists>n c p g1. u_energy_aware_search run cfg target eps delta cap g = Some (Inr (n, c, p), g1) \<and> n \<le> cap))
    \<and> (u_short_runner run (gc_marked cfg) cap target \<longrightarrow> u_energy_aware_search run cfg target eps delta cap g = None)"
proof (intro conjI impI)
  have s: "0 < max m (max 1 (gc_shots cfg))" by simp
  show "\<exists>n c p g1. u_energy_aware_search run cfg target eps delta cap g = Some (Inr (n, c, p), g1) \<and> n \<le> cap"
    if "u_exact_runner run"
    using u_loop_returns [OF that assms(1,2) s] by (simp add: u_energy_aware_search_def assms(3))
  show "u_energy_aware_search run cfg target eps delta cap g = None" if "u_short_runner run (gc_marked cfg) cap target"
    using u_loop_diverges_raw [of run cfg target m cap] that assms(1,2) s
    by (cases "u_search_loop run cfg target m cap (max m (max 1 (gc_shots cfg))) g")
       (auto simp: u_energy_aware_search_def assms(3))
qed

lemma demo_u_min_shots: "u_min_shots_for_confidence 1 (1/2) = Inr 1"
proof -
  have "2 * ln (2::real) = ln 4" using ln_realpow [of 2 2] by simp
  moreover have "(0::real) < ln 2" by simp
  moreover have "ln (2::real) \<le> 1" using ln_le_minus_one [of 2] by simp
  ultimately have "\<lceil>ln (4::real) / 2\<rceil> = 1" by (intro ceiling_value) simp_all
  then show ?thesis by (simp add: u_min_shots_for_confidence_def)
qed

theorem u_search_returns_iff_shots_delivered_witness:
  "u_energy_aware_search (\<lambda>cfg g. (Inr [(''00'', 10)], g)) demo_cfg (9/10) 1 (1/2) 64 () = None"
proof -
  have "0 < gc_n_qubits demo_cfg" by (simp add: demo_cfg_def)
  from u_search_returns_iff_shots_delivered [OF this _ demo_u_min_shots, of 64 "\<lambda>cfg g. (Inr [(''00'', 10)], g)" "9/10" "()"]
  show ?thesis
    by (simp add: u_short_runner_def counts_total_def u_success_probability_def demo_cfg_def dict_get_or_def)
qed

text \<open>
  The cap bounds the shots of each run, not of the search: with a cap of 40 the loop of
  \<open>grover.py\<close> runs 16, 29 and 40 shots and reports 40.
\<close>

theorem energy_aware_search_overspends:
  "\<exists>c est g1. energy_aware_search (hit_runner ''00'') demo_cfg (6/10) 1 (1/2) 40 [] = (Inr (40, c, est), g1) \<and> sum_list g1 = 85"
proof -
  have g: "grow 16 = 29" "grow 29 = 53" by (simp_all add: grow_def ceiling_value)
  note step = search_loop.simps [of "hit_runner ''00''" "[''11'']" "6/10" 40]
  note run = hit_runner_def success_probability_def counts_total_def g Let_def
  have "search_loop (hit_runner ''00'') [''11''] (6/10) 40 40 [16, 29] = (Inr (40, [(''00'', 40)], 0), [16, 29, 40])"
    by (subst step) (simp add: run min_def grow_def ceiling_value)
  then have "search_loop (hit_runner ''00'') [''11''] (6/10) 40 29 [16] = (Inr (40, [(''00'', 40)], 0), [16, 29, 40])"
    by (subst step) (simp add: run)
  then have "search_loop (hit_runner ''00'') [''11''] (6/10) 40 16 [] = (Inr (40, [(''00'', 40)], 0), [16, 29, 40])"
    by (subst step) (simp add: run)
  then show ?thesis by (simp add: energy_aware_search_def demo_min_shots demo_cfg_def)
qed

section \<open>Reference distributions\<close>

lemma bits_of_length: "n < 2 ^ k \<Longrightarrow> 0 < k \<Longrightarrow> length (bits_of n) \<le> k"
proof (induction n arbitrary: k rule: bits_of.induct)
  case (1 n)
  show ?case
  proof (cases "n < 2")
    case True
    then show ?thesis using 1(3) by (simp add: bits_of.simps [of n])
  next
    case False
    then have "1 < k" using 1(2,3) by (cases "k = 1") auto
    then obtain j where j: "k = Suc j" "0 < j" by (cases k) auto
    have "n div 2 < 2 ^ j" using 1(2) j by auto
    then show ?thesis using 1(1) [OF False] j False by (simp add: bits_of.simps [of n])
  qed
qed

fun bits_val :: "string \<Rightarrow> nat" where
  "bits_val s = fold (\<lambda>c acc. 2 * acc + (if c = CHR ''1'' then 1 else 0)) s 0"

lemma bits_val_of: "bits_val (bits_of n) = n"
proof (induction n rule: bits_of.induct)
  case (1 n)
  show ?case
  proof (cases "n < 2")
    case True
    then show ?thesis by (auto simp: bits_of.simps [of n])
  next
    case False
    have "n mod 2 = Suc 0 \<Longrightarrow> Suc (2 * (n div 2)) = n" by presburger
    then show ?thesis using False 1 by (auto simp: bits_of.simps [of n])
  qed
qed

lemma bin_format_inj: "bin_format n i = bin_format n j \<Longrightarrow> i = j"
proof -
  have "fold (\<lambda>c acc. 2 * acc + (if c = CHR ''1'' then 1 else 0)) (replicate k CHR ''0'') (0::nat) = 0" for k
    by (induction k) auto
  then have "bits_val (bin_format n i) = i" for i using bits_val_of [of i] by (simp add: bin_format_def)
  then show "bin_format n i = bin_format n j \<Longrightarrow> i = j" by metis
qed

lemma all_states_distinct: "distinct (all_states n)"
  by (auto simp: all_states_def distinct_map intro!: inj_onI dest: bin_format_inj)

lemma all_states_length: "length (all_states n) = 2 ^ n"
  by (simp add: all_states_def)

lemma u_weights_sum:
  "(\<Sum>s\<leftarrow>xs. (if P s then 2 else 1) / w) = (2 * real (length (filter P xs)) + real (length (filter (\<lambda>s. \<not> P s) xs))) / w"
  by (induction xs) (auto simp: add_divide_distrib)

text \<open>
  The reference distribution of \<open>grover_utils.py\<close> is a probability distribution over all
  bitstrings of the register, provided every marked string is one of them.
\<close>

theorem u_reference_is_distribution:
  assumes "0 < n" and "set marked \<subseteq> set (all_states n)"
  shows "\<exists>d. u_ideal_marked_distribution n marked = Inr d \<and> dist_ok d \<and> dict_keys d = all_states n"
proof (cases "marked = []")
  case True
  have "dist_ok (map (\<lambda>s. (s, 1 / 2 ^ n)) (all_states n))"
    using all_states_distinct [of n]
    by (simp add: dist_ok_def dist_nonneg_def dict_wf_def comp_def sum_list_triv all_states_length)
  then show ?thesis using True assms(1) by (simp add: u_ideal_marked_distribution_def comp_def)
next
  case False
  let ?S = "all_states n" and ?P = "\<lambda>s. s \<in> set marked"
  define w where "w = 2 * real (length (remdups marked)) + real (length (filter (\<lambda>s. \<not> ?P s) ?S))"
  have "set (filter ?P ?S) = set (remdups marked)" using assms(2) by auto
  moreover have "distinct (filter ?P ?S)" using all_states_distinct by simp
  ultimately have len: "length (filter ?P ?S) = length (remdups marked)"
    by (metis distinct_card distinct_remdups)
  have "0 < w" using False by (simp add: w_def add_pos_nonneg)
  then have one: "(\<Sum>s\<leftarrow>?S. (if ?P s then 2 else 1) / w) = 1"
    unfolding u_weights_sum len by (simp add: w_def)
  have "u_ideal_marked_distribution n marked = Inr (map (\<lambda>s. (s, (if ?P s then 2 else 1) / w)) ?S)"
    using False assms(1) by (simp add: u_ideal_marked_distribution_def Let_def w_def)
  moreover have "dist_ok (map (\<lambda>s. (s, (if ?P s then 2 else 1) / w)) ?S)"
    using one all_states_distinct [of n] \<open>0 < w\<close>
    by (auto simp: dist_ok_def dist_nonneg_def dict_wf_def comp_def)
  ultimately show ?thesis by (simp add: comp_def)
qed

theorem u_reference_is_distribution_witness:
  "\<exists>d. u_ideal_marked_distribution 2 [''11''] = Inr d \<and> dist_ok d \<and> dict_keys d = all_states 2"
proof (rule u_reference_is_distribution)
  have "bin_format 2 3 = ''11''" by (simp add: bin_format_def bits_of.simps)
  then show "set [''11''] \<subseteq> set (all_states 2)"
    unfolding all_states_def by (auto intro!: image_eqI [of _ _ 3])
qed simp

end
