(* ===== verification/Provider_Clients.thy ===== *)
theory Provider_Clients
  imports Grover Settings
begin

text \<open>
  The provider clients (\<open>provider_clients.py\<close>, \<open>qiskit_provider.py\<close>): payload files, the IonQ,
  Azure and Rigetti stubs, the Qiskit client, and the loader that builds them from environment
  variables.

  What the clients call outside the repository is the record \<open>client_env\<close>: \<open>random\<close>, \<open>hash\<close>,
  the payload reader (\<open>None\<close> is the \<open>OSError\<close> or \<open>JSONDecodeError\<close>), the packages installed, and
  Qiskit's execution of the circuit of a preset on a world of its own, the Aer run of the Grover
  helper, and the seed a backend derives from the clock. Optional payload fields are taken at the
  type of the KPI they stand for.
\<close>

record live_result =
  lr_raw_counts :: counts
  lr_expected_distribution :: "distribution option"
  lr_fidelity :: "real option"
  lr_latency_us :: "real option"
  lr_backaction :: "real option"
  lr_shots_used :: "int option"

record payload =
  pd_raw_counts :: "json option"
  pd_expected_distribution :: "distribution option"
  pd_fidelity :: "real option"
  pd_latency_us :: "real option"
  pd_backaction :: "real option"
  pd_shots_used :: "int option"

datatype provider_client =
    FilePayload string
  | Ionq "string option" string
  | AzureStub "string option" bool
  | RigettiStub "string option" bool
  | QiskitClient string

record ('g, 'w) client_env =
  ce_rng :: "'g rng_api"
  ce_hash :: "string \<Rightarrow> int \<Rightarrow> string \<Rightarrow> int"
  ce_payload :: "string \<Rightarrow> payload option"
  ce_installed :: "string \<Rightarrow> bool"
  ce_environ :: "(string, string) dict"
  ce_execute :: "string \<Rightarrow> experiment_preset \<Rightarrow> int \<Rightarrow> 'w \<Rightarrow> counts py \<times> 'w"
  ce_random :: "'w \<Rightarrow> real \<times> 'w"
  ce_grover :: "grover_config \<Rightarrow> int \<Rightarrow> 'w \<Rightarrow> counts py \<times> 'w"
  ce_clock :: "'w \<Rightarrow> real"
  ce_seed :: "string \<Rightarrow> experiment_preset \<Rightarrow> 'w \<Rightarrow> int"

definition provider_error :: "string \<Rightarrow> error_code \<Rightarrow> string option \<Rightarrow> py_exn" where
  "provider_error msg code hint = ProviderClientError msg code hint []"

section \<open>Payload files\<close>

definition json_int :: "json \<Rightarrow> int option" where
  "json_int j =
     (case j of JInt i \<Rightarrow> Some i | JFloat x \<Rightarrow> Some (py_int x) | JBool b \<Rightarrow> Some (if b then 1 else 0)
      | JStr s \<Rightarrow> py_int_of_str s | _ \<Rightarrow> None)"

fun json_counts :: "(string \<times> json) list \<Rightarrow> counts \<Rightarrow> counts option" where
  "json_counts [] c = Some c"
| "json_counts ((k, v) # kvs) c = (case json_int v of None \<Rightarrow> None | Some i \<Rightarrow> json_counts kvs (dict_set k i c))"

text \<open>\<open>data.get("raw_counts") or \{\}\<close>, then \<open>items()\<close>: falsy values count as empty.\<close>

definition normalized_counts :: "json option \<Rightarrow> counts option" where
  "normalized_counts j =
     (case j of
        None \<Rightarrow> Some []
      | Some JNull \<Rightarrow> Some []
      | Some (JObj kvs) \<Rightarrow> json_counts kvs []
      | Some (JList []) \<Rightarrow> Some []
      | Some (JStr []) \<Rightarrow> Some []
      | Some (JBool b) \<Rightarrow> if b then None else Some []
      | Some (JInt i) \<Rightarrow> if i = 0 then Some [] else None
      | Some (JFloat x) \<Rightarrow> if x = 0 then Some [] else None
      | Some _ \<Rightarrow> None)"

definition file_payload_run :: "('g, 'w) client_env \<Rightarrow> string \<Rightarrow> live_result py" where
  "file_payload_run E payload =
     (case ce_payload E payload of
        None \<Rightarrow> Inl (provider_error (''Failed to load provider payload from '' @ payload) PROVIDER_ERROR None)
      | Some data \<Rightarrow>
          (case normalized_counts (pd_raw_counts data) of
             None \<Rightarrow> Inl (provider_error ''Invalid raw_counts in provider payload'' PROVIDER_ERROR None)
           | Some c \<Rightarrow>
               Inr \<lparr>lr_raw_counts = c, lr_expected_distribution = pd_expected_distribution data,
                    lr_fidelity = pd_fidelity data, lr_latency_us = pd_latency_us data,
                    lr_backaction = pd_backaction data, lr_shots_used = pd_shots_used data\<rparr>))"

section \<open>The stub clients\<close>

fun ionq_expected :: "experiment_preset \<Rightarrow> distribution" where
  "ionq_expected LATENCY = [(''00'', 45/100), (''01'', 25/100), (''10'', 18/100), (''11'', 12/100)]"
| "ionq_expected BACKEND_COMPARE = [(''00'', 48/100), (''01'', 19/100), (''10'', 19/100), (''11'', 14/100)]"
| "ionq_expected HELLO_QUANTUM_SIM = [(''00'', 66/100), (''01'', 17/100), (''10'', 11/100), (''11'', 6/100)]"
| "ionq_expected _ = [(''00'', 60/100), (''01'', 20/100), (''10'', 12/100), (''11'', 8/100)]"

fun azure_expected :: "experiment_preset \<Rightarrow> distribution" where
  "azure_expected LATENCY = [(''00'', 52/100), (''01'', 18/100), (''10'', 17/100), (''11'', 13/100)]"
| "azure_expected BACKEND_COMPARE = [(''00'', 41/100), (''01'', 21/100), (''10'', 20/100), (''11'', 18/100)]"
| "azure_expected HELLO_QUANTUM_SIM = [(''00'', 68/100), (''01'', 18/100), (''10'', 9/100), (''11'', 5/100)]"
| "azure_expected _ = [(''00'', 60/100), (''01'', 22/100), (''10'', 10/100), (''11'', 8/100)]"

fun rigetti_expected :: "experiment_preset \<Rightarrow> distribution" where
  "rigetti_expected LATENCY = [(''00'', 50/100), (''01'', 20/100), (''10'', 16/100), (''11'', 14/100)]"
| "rigetti_expected BACKEND_COMPARE = [(''00'', 46/100), (''01'', 18/100), (''10'', 19/100), (''11'', 17/100)]"
| "rigetti_expected HELLO_QUANTUM_SIM = [(''00'', 65/100), (''01'', 16/100), (''10'', 13/100), (''11'', 6/100)]"
| "rigetti_expected _ = [(''00'', 58/100), (''01'', 24/100), (''10'', 10/100), (''11'', 8/100)]"

text \<open>\<open>_sample_counts\<close>, the same in every client and in the backends.\<close>

definition sample_counts :: "'g rng_api \<Rightarrow> distribution \<Rightarrow> int \<Rightarrow> 'g \<Rightarrow> counts \<times> 'g" where
  "sample_counts R p shots g =
     (case rng_choices R (dict_keys p) (dict_values p) shots g of
        (draws, g') \<Rightarrow> (tally (dict_keys p) draws, g'))"

text \<open>The common tail of the three stubs: sample, then draw fidelity, latency and backaction.\<close>

definition stub_result :: "'g rng_api \<Rightarrow> distribution \<Rightarrow> int \<Rightarrow> real \<times> real \<Rightarrow> real \<times> real \<Rightarrow> real \<times> real \<Rightarrow> 'g \<Rightarrow> live_result" where
  "stub_result R expected shots_used fid lat back g =
     (case sample_counts R expected shots_used g of
        (raw_counts, g1) \<Rightarrow>
          (case rng_random R g1 of
             (x, g2) \<Rightarrow>
               (case rng_random R g2 of
                  (y, g3) \<Rightarrow>
                    \<lparr>lr_raw_counts = raw_counts, lr_expected_distribution = Some expected,
                     lr_fidelity = Some (fst fid + x * snd fid), lr_latency_us = Some (fst lat + y * snd lat),
                     lr_backaction = Some (fst back + fst (rng_random R g3) * snd back),
                     lr_shots_used = Some shots_used\<rparr>)))"

definition client_seed :: "('g, 'w) client_env \<Rightarrow> experiment_preset \<Rightarrow> int \<Rightarrow> string \<Rightarrow> 'g" where
  "client_seed E preset shot_budget backend_name =
     rng_of_seed (ce_rng E) (ce_hash E (preset_value preset) shot_budget backend_name mod 2 ^ 32)"

definition ionq_run :: "('g, 'w) client_env \<Rightarrow> string \<Rightarrow> experiment_preset \<Rightarrow> int \<Rightarrow> live_result py" where
  "ionq_run E backend_name preset shot_budget =
     Inr (stub_result (ce_rng E) (ionq_expected preset) (max 1 (min shot_budget 100000))
       (93/100, 5/100) (85, 180) (11/100, 12/100) (client_seed E preset shot_budget backend_name))"

definition azure_run :: "('g, 'w) client_env \<Rightarrow> string option \<Rightarrow> bool \<Rightarrow> experiment_preset \<Rightarrow> int \<Rightarrow> live_result py" where
  "azure_run E access_token queue_busy preset shot_budget =
     (if \<not> truthy_str access_token then
        Inl (provider_error ''Azure Quantum credentials missing.'' PROVIDER_CREDENTIALS
              (Some ''Set SYNQC_AZURE_API_KEY to enable Azure Quantum runs.''))
      else if queue_busy then
        Inl (provider_error ''Azure Quantum queue is currently busy.'' PROVIDER_QUEUE_BACKPRESSURE
              (Some ''Wait for capacity or target a different backend.''))
      else
        Inr (stub_result (ce_rng E) (azure_expected preset) (max 1 (min shot_budget 500000))
          (92/100, 5/100) (140, 120) (13/100, 10/100) (client_seed E preset shot_budget ''azure_ionq_stub'')))"

definition rigetti_run :: "('g, 'w) client_env \<Rightarrow> string option \<Rightarrow> bool \<Rightarrow> experiment_preset \<Rightarrow> int \<Rightarrow> live_result py" where
  "rigetti_run E api_key capacity_exhausted preset shot_budget =
     (if \<not> truthy_str api_key then
        Inl (provider_error ''Rigetti Forest credentials missing.'' PROVIDER_CREDENTIALS
              (Some ''Set SYNQC_RIGETTI_API_KEY to enable Rigetti runs.''))
      else if capacity_exhausted then
        Inl (provider_error ''Rigetti Forest capacity exhausted for the selected region.'' PROVIDER_CAPACITY
              (Some ''Retry later or route to a simulator.''))
      else
        Inr (stub_result (ce_rng E) (rigetti_expected preset) (max 1 (min shot_budget 100000))
          (91/100, 5/100) (60, 160) (14/100, 9/100) (client_seed E preset shot_budget ''rigetti_aspen_stub'')))"

section \<open>The Qiskit client\<close>

fun qiskit_expected :: "experiment_preset \<Rightarrow> distribution" where
  "qiskit_expected LATENCY = [(''00'', 55/100), (''01'', 22/100), (''10'', 14/100), (''11'', 9/100)]"
| "qiskit_expected BACKEND_COMPARE = [(''00'', 42/100), (''01'', 22/100), (''10'', 20/100), (''11'', 16/100)]"
| "qiskit_expected HELLO_QUANTUM_SIM = [(''00'', 70/100), (''01'', 15/100), (''10'', 10/100), (''11'', 5/100)]"
| "qiskit_expected GROVER_DEMO = [(''00'', 50/100), (''01'', 0), (''10'', 0), (''11'', 50/100)]"
| "qiskit_expected _ = [(''00'', 64/100), (''11'', 28/100), (''01'', 5/100), (''10'', 3/100)]"

definition runtime_configured :: "('g, 'w) client_env \<Rightarrow> bool" where
  "runtime_configured E \<longleftrightarrow>
     (\<exists>k \<in> set [''SYNQC_QISKIT_RUNTIME_TOKEN'', ''SYNQC_QISKIT_RUNTIME_CHANNEL'', ''SYNQC_QISKIT_RUNTIME_INSTANCE''].
        truthy_str (dict_get (ce_environ E) k))"

definition ensure_qiskit_available :: "('g, 'w) client_env \<Rightarrow> bool \<Rightarrow> unit py" where
  "ensure_qiskit_available E use_runtime =
     (if \<not> ce_installed E ''qiskit'' then
        Inl (provider_error ''Qiskit is not installed. Install the 'qiskit' extra to enable Qiskit-backed runs.''
              PROVIDER_CREDENTIALS (Some ''Install qiskit or switch to a simulator backend.''))
      else if use_runtime then
        (if \<not> ce_installed E ''qiskit_ibm_runtime'' then
           Inl (provider_error ''qiskit-ibm-runtime is required for cloud execution. Install the 'qiskit' extra or add it manually.''
                 PROVIDER_CREDENTIALS (Some ''Install qiskit-ibm-runtime or select Aer simulation.''))
         else Inr ())
      else if \<not> ce_installed E ''qiskit_aer'' then
        Inl (provider_error ''qiskit-aer is required for the configured Qiskit backend. Install qiskit-aer or the 'backend[qiskit]' extra.''
              PROVIDER_CREDENTIALS (Some ''Install qiskit-aer or target a runtime backend.''))
      else Inr ())"

definition qiskit_validate_credentials :: "('g, 'w) client_env \<Rightarrow> bool" where
  "qiskit_validate_credentials E =
     (case ensure_qiskit_available E (runtime_configured E) of
        Inl _ \<Rightarrow> False
      | Inr _ \<Rightarrow> if runtime_configured E then truthy_str (dict_get (ce_environ E) ''SYNQC_QISKIT_RUNTIME_TOKEN'') else True)"

text \<open>
  The adaptive loop of the Grover preset: \<open>size\<close> is \<open>initial_cfg.shots\<close>, \<open>used\<close> the shots so far.
  Every pass runs at least one shot, so the loop ends.
\<close>

function qiskit_grover_loop :: "(int \<Rightarrow> 'w \<Rightarrow> counts py \<times> 'w) \<Rightarrow> int \<Rightarrow> int \<Rightarrow> int \<Rightarrow> 'w \<Rightarrow> (counts \<times> int) py \<times> 'w" where
  "qiskit_grover_loop exec shots sz used w =
     (let remaining = max 0 (shots - used) in
      let current = min sz remaining in
      if current \<le> 0 then (Inl (ExnValue ''shots must be positive''), w)
      else (case exec current w of
              (Inl e, w1) \<Rightarrow> (Inl e, w1)
            | (Inr c, w1) \<Rightarrow>
                (let used1 = used + current in
                 if u_success_probability c [''11''] \<ge> 9/10 \<or> max 0 (shots - used1) \<le> 0
                 then (Inr (c, used1), w1)
                 else qiskit_grover_loop exec shots (min (current * 2) shots) used1 w1)))"
  by pat_completeness auto
termination
  by (relation "measure (\<lambda>(exec, shots, sz, used, w). nat (shots - used))") auto

declare qiskit_grover_loop.simps [simp del]

definition map_provider_failure :: "py_exn \<Rightarrow> string \<Rightarrow> py_exn" where
  "map_provider_failure e message =
     (case e of
        ProviderClientError m c h d \<Rightarrow> e
      | _ \<Rightarrow>
          (let lower_msg = py_lower message in
           if py_in ''credential'' lower_msg \<or> py_in ''token'' lower_msg then
             provider_error message PROVIDER_CREDENTIALS (Some ''Set SYNQC_QISKIT_RUNTIME_TOKEN or run with Aer simulation.'')
           else if py_in ''queue'' lower_msg \<or> py_in ''busy'' lower_msg then
             provider_error message PROVIDER_QUEUE_BACKPRESSURE (Some ''Wait for capacity or select a different backend.'')
           else provider_error message PROVIDER_ERROR (Some ''Retry later or switch to Aer simulation.'')))"

definition qiskit_run :: "('g, 'w) client_env \<Rightarrow> string \<Rightarrow> experiment_preset \<Rightarrow> int \<Rightarrow> 'w \<Rightarrow> live_result py \<times> 'w" where
  "qiskit_run E backend_name preset shot_budget w =
     (case ensure_qiskit_available E (runtime_configured E) of
        Inl e \<Rightarrow> (Inl e, w)
      | Inr _ \<Rightarrow>
          (let shots = max 1 shot_budget;
               fail = (\<lambda>e. map_provider_failure e (exn_text e)) in
           if preset = GROVER_DEMO then
             (case qiskit_grover_loop (ce_execute E backend_name preset) shots (min 64 shots) 0 w of
                (Inl e, w1) \<Rightarrow> (Inl (fail e), w1)
              | (Inr (c, used), w1) \<Rightarrow>
                  (Inr \<lparr>lr_raw_counts = c, lr_expected_distribution = Some (qiskit_expected preset),
                        lr_fidelity = Some (u_success_probability c [''11'']), lr_latency_us = None,
                        lr_backaction = None, lr_shots_used = Some used\<rparr>, w1))
           else
             (case ce_execute E backend_name preset shots w of
                (Inl e, w1) \<Rightarrow> (Inl (fail e), w1)
              | (Inr c, w1) \<Rightarrow>
                  (Inr \<lparr>lr_raw_counts = c, lr_expected_distribution = Some (qiskit_expected preset),
                        lr_fidelity = None, lr_latency_us = None, lr_backaction = None,
                        lr_shots_used = Some shots\<rparr>, w1))))"

section \<open>Dispatch and loading\<close>

fun client_run :: "('g, 'w) client_env \<Rightarrow> provider_client \<Rightarrow> experiment_preset \<Rightarrow> int \<Rightarrow> 'w \<Rightarrow> live_result py \<times> 'w" where
  "client_run E (FilePayload p) preset n w = (file_payload_run E p, w)"
| "client_run E (Ionq key name) preset n w = (ionq_run E name preset n, w)"
| "client_run E (AzureStub tok busy) preset n w = (azure_run E tok busy preset n, w)"
| "client_run E (RigettiStub key full) preset n w = (rigetti_run E key full preset n, w)"
| "client_run E (QiskitClient name) preset n w = qiskit_run E name preset n w"

text \<open>\<open>None\<close> is a client without a \<open>validate_credentials\<close> method.\<close>

fun client_validate :: "('g, 'w) client_env \<Rightarrow> provider_client \<Rightarrow> bool option" where
  "client_validate E (FilePayload p) = None"
| "client_validate E (Ionq key name) = Some (truthy_str key)"
| "client_validate E (AzureStub tok busy) = Some (truthy_str tok)"
| "client_validate E (RigettiStub key full) = Some (truthy_str key)"
| "client_validate E (QiskitClient name) = Some (qiskit_validate_credentials E)"

fun client_backend_name :: "provider_client \<Rightarrow> string option" where
  "client_backend_name (FilePayload p) = None"
| "client_backend_name (Ionq key name) = Some name"
| "client_backend_name (AzureStub tok busy) = Some ''azure_ionq_stub''"
| "client_backend_name (RigettiStub key full) = Some ''rigetti_aspen_stub''"
| "client_backend_name (QiskitClient name) = Some name"

definition env_flag :: "(string, string) dict \<Rightarrow> string \<Rightarrow> bool" where
  "env_flag env k = (py_lower (dict_get_or [] env k) \<in> set [''1'', ''true'', ''yes''])"

definition prefixed_clients :: "string \<Rightarrow> (string \<Rightarrow> provider_client) \<Rightarrow> (string, string) dict
    \<Rightarrow> (string, provider_client) dict \<Rightarrow> (string, provider_client) dict" where
  "prefixed_clients prefix mk env clients =
     fold (\<lambda>(k, v) d. if py_startswith k prefix \<and> v \<noteq> [] then dict_set (py_lower (drop (length prefix) k)) (mk v) d else d)
       env clients"

definition load_provider_clients :: "(string, string) dict \<Rightarrow> (string, provider_client) dict" where
  "load_provider_clients env =
     (let c1 = prefixed_clients ''SYNQC_PROVIDER_PAYLOAD_'' FilePayload env [];
          c2 = prefixed_clients ''SYNQC_QISKIT_BACKEND_'' QiskitClient env c1;
          key = dict_get env ''SYNQC_IONQ_API_KEY'';
          c3 = (if truthy_str key \<or> env_flag env ''SYNQC_ENABLE_IONQ_DEMO''
                then dict_set ''ionq_cloud'' (Ionq key ''ionq_qpu'') c2 else c2);
          c4 = (if env_flag env ''SYNQC_ENABLE_AZURE_SDK_STUB''
                then dict_set ''azure_quantum''
                       (AzureStub (dict_get env ''SYNQC_AZURE_API_KEY'') (env_flag env ''SYNQC_AZURE_QUEUE_BUSY'')) c3
                else c3);
          c5 = (if env_flag env ''SYNQC_ENABLE_RIGETTI_SDK_STUB''
                then dict_set ''rigetti_forest''
                       (RigettiStub (dict_get env ''SYNQC_RIGETTI_API_KEY'')
                          (env_flag env ''SYNQC_RIGETTI_CAPACITY_EXHAUSTED'')) c4
                else c4) in
      if dict_get c5 ''ibm_quantum'' = None
      then dict_set ''ibm_quantum'' (QiskitClient (dict_get_or ''aer_simulator'' env ''SYNQC_QISKIT_BACKEND'')) c5
      else c5)"

section \<open>Facts about the clients\<close>

lemma sample_counts_props:
  assumes "rng_laws R" and "p \<noteq> []" and "sample_counts R p shots g = (c, g')"
  shows "counts_ok c" and "counts_total c = int (nat shots)" and "set (dict_keys c) = set (dict_keys p)"
proof -
  obtain draws where d: "rng_choices R (dict_keys p) (dict_values p) shots g = (draws, g')"
      "c = tally (dict_keys p) draws"
    using assms(3) by (auto simp: sample_counts_def split: prod.splits)
  then have "set draws \<subseteq> set (dict_keys p)" "length draws = nat shots"
    using rng_choices_draws [OF assms(1), of "dict_keys p" "dict_values p" shots g] assms(2) by simp_all
  then show "counts_ok c" and "counts_total c = int (nat shots)" and "set (dict_keys c) = set (dict_keys p)"
    using tally_props [of draws "dict_keys p"] d(2) by simp_all
qed

lemma stub_result_counts:
  assumes "rng_laws R" and "p \<noteq> []"
  shows "counts_ok (lr_raw_counts (stub_result R p n f l b g))"
    and "counts_total (lr_raw_counts (stub_result R p n f l b g)) = int (nat n)"
    and "lr_shots_used (stub_result R p n f l b g) = Some n"
    and "lr_expected_distribution (stub_result R p n f l b g) = Some p"
proof -
  obtain c g1 where s: "sample_counts R p n g = (c, g1)" by fastforce
  note c = sample_counts_props [OF assms s]
  show "counts_ok (lr_raw_counts (stub_result R p n f l b g))"
    and "counts_total (lr_raw_counts (stub_result R p n f l b g)) = int (nat n)"
    and "lr_shots_used (stub_result R p n f l b g) = Some n"
    and "lr_expected_distribution (stub_result R p n f l b g) = Some p"
    using c by (simp_all add: stub_result_def s split: prod.splits)
qed

lemma stub_expected_ok: "dist_ok (ionq_expected p)" "dist_ok (azure_expected p)" "dist_ok (rigetti_expected p)"
    "dist_ok (qiskit_expected p)"
  by (cases p; simp add: dist_ok_def dist_nonneg_def dict_wf_def)+

definition is_stub :: "provider_client \<Rightarrow> bool" where
  "is_stub cl \<longleftrightarrow> (case cl of Ionq _ _ \<Rightarrow> True | AzureStub _ _ \<Rightarrow> True | RigettiStub _ _ \<Rightarrow> True | _ \<Rightarrow> False)"

text \<open>
The vendor stubs account for their shots exactly: whenever one of them answers, the counts
  are valid, sum to the reported shots, and that number is at least one and within the budget
  (for a positive budget), against a reference that is a probability distribution.
\<close>

theorem stub_client_shots:
  assumes "rng_laws (ce_rng E)" and "is_stub cl" and "client_run E cl preset budget w = (Inr res, w')" and "1 \<le> budget"
  shows "\<exists>n q. lr_shots_used res = Some n \<and> 1 \<le> n \<and> n \<le> budget \<and> counts_ok (lr_raw_counts res) \<and>
    counts_total (lr_raw_counts res) = n \<and> lr_expected_distribution res = Some q \<and> dist_ok q"
proof -
  have *: "\<exists>n q. lr_shots_used (stub_result (ce_rng E) p (max 1 (min budget lim)) f l b g) = Some n \<and>
      1 \<le> n \<and> n \<le> budget \<and> counts_ok (lr_raw_counts (stub_result (ce_rng E) p (max 1 (min budget lim)) f l b g)) \<and>
      counts_total (lr_raw_counts (stub_result (ce_rng E) p (max 1 (min budget lim)) f l b g)) = n \<and>
      lr_expected_distribution (stub_result (ce_rng E) p (max 1 (min budget lim)) f l b g) = Some q \<and> dist_ok q"
    if "dist_ok p" for p lim f l b g
    using stub_result_counts [OF assms(1) dist_ok_nonempty [OF that]] assms(4) that by auto
  show ?thesis
    using assms(2,3) * [OF stub_expected_ok(1)] * [OF stub_expected_ok(2)] * [OF stub_expected_ok(3)]
    by (cases cl) (auto simp: is_stub_def ionq_run_def azure_run_def rigetti_run_def split: if_splits)
qed

definition demo_env :: "(int, int) client_env" where
  "demo_env =
     \<lparr>ce_rng = rng_first, ce_hash = (\<lambda>p n b. 0), ce_payload = (\<lambda>_. None), ce_installed = (\<lambda>_. True), ce_environ = [],
      ce_execute = (\<lambda>name preset n w. (Inr [(''00'', n)], w + n)), ce_random = (\<lambda>w. (1/2, w)),
      ce_grover = (\<lambda>cfg n w. (Inr [(''10101'', n)], w + n)), ce_clock = (\<lambda>w. 0), ce_seed = (\<lambda>i p w. w)\<rparr>"

theorem stub_client_shots_witness:
  "\<exists>n q. lr_shots_used (stub_result rng_first (azure_expected HEALTH) 300 (92/100, 5/100) (140, 120) (13/100, 10/100) 0)
     = Some n \<and> n \<le> 300 \<and> dist_ok q"
proof -
  have "rng_laws (ce_rng demo_env)" by (simp add: demo_env_def rng_first_laws)
  moreover have "client_run demo_env (AzureStub (Some ''tok'') False) HEALTH 300 0
      = (Inr (stub_result rng_first (azure_expected HEALTH) 300 (92/100, 5/100) (140, 120) (13/100, 10/100) 0), 0)"
    by (simp add: azure_run_def truthy_str_def client_seed_def demo_env_def rng_first_def)
  ultimately show ?thesis
    using stub_client_shots [of demo_env "AzureStub (Some ''tok'') False" HEALTH 300 0] by (auto simp: is_stub_def)
qed

subsection \<open>The adaptive loop of the Qiskit client\<close>

text \<open>
  \<open>metered exec meter\<close>: \<open>meter\<close> reads from the world how many shots were ever executed.
\<close>

definition metered :: "(int \<Rightarrow> 'w \<Rightarrow> counts py \<times> 'w) \<Rightarrow> ('w \<Rightarrow> int) \<Rightarrow> bool" where
  "metered exec meter \<longleftrightarrow> (\<forall>n w. meter (snd (exec n w)) = meter w + n)"

lemma qiskit_loop_spends:
  assumes "metered exec meter" and "qiskit_grover_loop exec shots sz used w = (Inr (c, n), w')"
    and "0 \<le> used" and "used \<le> shots"
  shows "used < n \<and> n \<le> shots \<and> meter w' = meter w + (n - used)"
  using assms
proof (induction exec shots sz used w rule: qiskit_grover_loop.induct)
  case (1 exec shots sz used w)
  define cur where "cur = min sz (max 0 (shots - used))"
  note eq = 1(3) [unfolded qiskit_grover_loop.simps [of exec shots sz used w] Let_def, folded cur_def]
  obtain r w1 where r: "exec cur w = (r, w1)" by (cases "exec cur w")
  have pos: "\<not> cur \<le> 0" using eq by (auto split: if_splits)
  have cur: "0 < cur" "used + cur \<le> shots" using pos 1(5) by (auto simp: cur_def)
  obtain c1 where c1: "r = Inr c1" using eq pos r by (cases r) auto
  have m: "meter w1 = meter w + cur" using 1(2) r by (metis metered_def snd_conv)
  let ?done = "u_success_probability c1 [''11''] \<ge> 9/10 \<or> max 0 (shots - (used + cur)) \<le> 0"
  show ?case
  proof (cases ?done)
    case True
    then have "c = c1 \<and> n = used + cur \<and> w' = w1" using eq pos r c1 by simp
    then show ?thesis using m cur by simp
  next
    case False
    then have rec: "qiskit_grover_loop exec shots (min (cur * 2) shots) (used + cur) w1 = (Inr (c, n), w')"
      using eq pos r c1 by simp
    have "used + cur < n \<and> n \<le> shots \<and> meter w' = meter w1 + (n - (used + cur))"
      using 1(1) [OF refl cur_def pos r [symmetric] c1 refl False 1(2) rec] cur 1(4) by simp
    then show ?thesis using m cur by simp
  qed
qed

text \<open>
The Qiskit client never overspends: for every preset, the shots it reports are all the shots
  it executed, at least one and at most the budget (one for a budget below one). The Grover
  preset's adaptive loop always ends.
\<close>

theorem qiskit_client_spends_budget:
  assumes "\<And>name preset. metered (ce_execute E name preset) meter"
    and "qiskit_run E name preset budget w = (Inr res, w')"
  shows "\<exists>n. lr_shots_used res = Some n \<and> 1 \<le> n \<and> n \<le> max 1 budget \<and> meter w' = meter w + n"
proof -
  let ?n = "max 1 budget"
  obtain u where av: "ensure_qiskit_available E (runtime_configured E) = Inr u"
    using assms(2) by (auto simp: qiskit_run_def split: sum.splits)
  show ?thesis
  proof (cases "preset = GROVER_DEMO")
    case True
    then obtain c n where l: "qiskit_grover_loop (ce_execute E name preset) ?n (min 64 ?n) 0 w = (Inr (c, n), w')"
        "lr_shots_used res = Some n"
      using assms(2) by (auto simp: qiskit_run_def av Let_def split: prod.splits sum.splits)
    have "0 < n \<and> n \<le> ?n \<and> meter w' = meter w + n"
      using qiskit_loop_spends [OF assms(1) l(1)] by simp
    then show ?thesis using l(2) by simp
  next
    case False
    then obtain c where e: "ce_execute E name preset ?n w = (Inr c, w')" "lr_shots_used res = Some ?n"
      using assms(2) by (auto simp: qiskit_run_def av Let_def split: prod.splits sum.splits)
    have "meter (snd (ce_execute E name preset ?n w)) = meter w + ?n"
      using assms(1) [of name preset] unfolding metered_def by blast
    then show ?thesis using e by simp
  qed
qed

theorem qiskit_client_spends_budget_witness:
  "\<exists>res n. fst (qiskit_run demo_env ''aer_simulator'' HEALTH 500 0) = Inr res \<and> lr_shots_used res = Some n \<and> n \<le> 500"
proof -
  have m: "\<And>name preset. metered (ce_execute demo_env name preset) id" by (simp add: metered_def demo_env_def)
  have run: "qiskit_run demo_env ''aer_simulator'' HEALTH 500 0 =
      (Inr \<lparr>lr_raw_counts = [(''00'', 500)], lr_expected_distribution = Some (qiskit_expected HEALTH),
            lr_fidelity = None, lr_latency_us = None, lr_backaction = None, lr_shots_used = Some 500\<rparr>, 500)"
    by (simp add: qiskit_run_def ensure_qiskit_available_def demo_env_def runtime_configured_def truthy_str_def)
  from qiskit_client_spends_budget [OF m run] show ?thesis using run by auto
qed

end
