(* ===== verification/Run_Metrics.thy ===== *)
theory Run_Metrics
  imports Synqc_Prelude
begin

text \<open>
  The run and provider recorders (\<open>backend/synqc_backend/metrics_recorder.py\<close>). A Prometheus
  counter with labels is a dictionary from label values to its count; a histogram is the list of
  observations per label. The provider recorder also keeps the in-memory summary that the health
  endpoint reads.
\<close>

definition target_or_unknown :: "string \<Rightarrow> string" where
  "target_or_unknown t = (if t = [] then ''unknown'' else t)"

definition observe :: "'k \<Rightarrow> real \<Rightarrow> ('k, real list) dict \<Rightarrow> ('k, real list) dict" where
  "observe k x h = dict_set k (dict_get_or [] h k @ [x]) h"

record run_metrics =
  rm_runs :: "(string \<times> string, int) dict"
  rm_failures :: "(string, int) dict"
  rm_latency :: "(string \<times> string, real list) dict"

definition run_metrics_init :: run_metrics where
  "run_metrics_init = \<lparr>rm_runs = [], rm_failures = [], rm_latency = []\<rparr>"

definition record_submission :: "string \<Rightarrow> run_metrics \<Rightarrow> run_metrics" where
  "record_submission hardware_target m =
     m\<lparr>rm_runs := bump (target_or_unknown hardware_target, ''submitted'') (rm_runs m)\<rparr>"

definition run_record_success :: "string \<Rightarrow> real option \<Rightarrow> run_metrics \<Rightarrow> run_metrics" where
  "run_record_success hardware_target latency m =
     (let k = (target_or_unknown hardware_target, ''succeeded'') in
      m\<lparr>rm_runs := bump k (rm_runs m),
        rm_latency := observe k (case latency of None \<Rightarrow> 0 | Some x \<Rightarrow> x) (rm_latency m)\<rparr>)"

definition run_record_failure :: "string \<Rightarrow> string option \<Rightarrow> real option \<Rightarrow> run_metrics \<Rightarrow> run_metrics" where
  "run_record_failure hardware_target error_code latency m =
     (let k = (target_or_unknown hardware_target, ''failed'') in
      m\<lparr>rm_runs := bump k (rm_runs m), rm_failures := bump (or_str error_code ''unknown'') (rm_failures m),
        rm_latency := observe k (case latency of None \<Rightarrow> 0 | Some x \<Rightarrow> x) (rm_latency m)\<rparr>)"

section \<open>Provider metrics\<close>

record target_stats =
  ts_success :: int
  ts_failure :: int
  ts_simulated :: int
  ts_error_codes :: "(string, int) dict"

record provider_metrics =
  pm_runs :: "(string \<times> string \<times> string, int) dict"
  pm_latency :: "(string \<times> string, real list) dict"
  pm_summary :: "(string, target_stats) dict"

definition provider_metrics_init :: provider_metrics where
  "provider_metrics_init = \<lparr>pm_runs = [], pm_latency = [], pm_summary = []\<rparr>"

definition empty_stats :: target_stats where
  "empty_stats = \<lparr>ts_success = 0, ts_failure = 0, ts_simulated = 0, ts_error_codes = []\<rparr>"

definition pm_record :: "string \<Rightarrow> string \<Rightarrow> string \<Rightarrow> real option \<Rightarrow> (target_stats \<Rightarrow> target_stats)
    \<Rightarrow> provider_metrics \<Rightarrow> provider_metrics" where
  "pm_record hardware_target status code latency upd m =
     (let t = target_or_unknown hardware_target in
      m\<lparr>pm_runs := bump (t, status, code) (pm_runs m),
        pm_latency := observe (t, status) (case latency of None \<Rightarrow> 0 | Some x \<Rightarrow> x) (pm_latency m),
        pm_summary := dict_set t (upd (dict_get_or empty_stats (pm_summary m) t)) (pm_summary m)\<rparr>)"

definition pm_record_success :: "string \<Rightarrow> real option \<Rightarrow> provider_metrics \<Rightarrow> provider_metrics" where
  "pm_record_success t latency = pm_record t ''success'' ''none'' latency (\<lambda>s. s\<lparr>ts_success := ts_success s + 1\<rparr>)"

definition pm_record_failure :: "string \<Rightarrow> string option \<Rightarrow> real option \<Rightarrow> provider_metrics \<Rightarrow> provider_metrics" where
  "pm_record_failure t code latency =
     pm_record t ''failure'' (or_str code ''unknown'') latency
       (\<lambda>s. s\<lparr>ts_failure := ts_failure s + 1, ts_error_codes := bump (or_str code ''unknown'') (ts_error_codes s)\<rparr>)"

definition pm_record_simulated :: "string \<Rightarrow> real option \<Rightarrow> provider_metrics \<Rightarrow> provider_metrics" where
  "pm_record_simulated t latency = pm_record t ''simulated'' ''none'' latency (\<lambda>s. s\<lparr>ts_simulated := ts_simulated s + 1\<rparr>)"

definition pm_reset :: "provider_metrics \<Rightarrow> provider_metrics" where
  "pm_reset m = m\<lparr>pm_summary := []\<rparr>"

record provider_health =
  ph_totals :: "int \<times> int \<times> int"
  ph_targets :: "(string, target_stats) dict"
  ph_failing :: "string list"

text \<open>\<open>sorted(failing_targets)\<close> compares strings character by character.\<close>

fun str_le :: "string \<Rightarrow> string \<Rightarrow> bool" where
  "str_le [] t = True"
| "str_le (c # s) [] = False"
| "str_le (c # s) (d # t) =
     ((of_char c :: nat) < of_char d \<or> (c = d \<and> str_le s t))"

fun insert_str :: "string \<Rightarrow> string list \<Rightarrow> string list" where
  "insert_str x [] = [x]"
| "insert_str x (y # ys) = (if str_le x y then x # y # ys else y # insert_str x ys)"

definition sort_strs :: "string list \<Rightarrow> string list" where
  "sort_strs xs = foldr insert_str xs []"

definition pm_health_summary :: "provider_metrics \<Rightarrow> provider_health" where
  "pm_health_summary m =
     (let stats = dict_values (pm_summary m) in
      \<lparr>ph_totals = (sum_list (map ts_success stats), sum_list (map ts_failure stats), sum_list (map ts_simulated stats)),
       ph_targets = pm_summary m,
       ph_failing = sort_strs (map fst (filter (\<lambda>(t, s). ts_failure s > 0) (pm_summary m)))\<rparr>)"

section \<open>The summary agrees with what was recorded\<close>

datatype provider_event =
    PSuccess string "real option"
  | PFailure string "string option" "real option"
  | PSimulated string "real option"

fun pm_step :: "provider_event \<Rightarrow> provider_metrics \<Rightarrow> provider_metrics" where
  "pm_step (PSuccess t l) = pm_record_success t l"
| "pm_step (PFailure t c l) = pm_record_failure t c l"
| "pm_step (PSimulated t l) = pm_record_simulated t l"

fun event_kind :: "provider_event \<Rightarrow> nat" where
  "event_kind (PSuccess t l) = 0"
| "event_kind (PFailure t c l) = 1"
| "event_kind (PSimulated t l) = 2"

fun event_target :: "provider_event \<Rightarrow> string" where
  "event_target (PSuccess t l) = target_or_unknown t"
| "event_target (PFailure t c l) = target_or_unknown t"
| "event_target (PSimulated t l) = target_or_unknown t"

definition pm_ok :: "provider_metrics \<Rightarrow> bool" where
  "pm_ok m \<longleftrightarrow> dict_wf (pm_summary m) \<and>
     (\<forall>s \<in> set (dict_values (pm_summary m)). 0 \<le> ts_failure s \<and> dict_wf (ts_error_codes s) \<and>
        dict_sum id (ts_error_codes s) = ts_failure s)"

lemma set_insert_str [simp]: "set (insert_str x ys) = insert x (set ys)"
  by (induction ys) auto

lemma set_sort_strs [simp]: "set (sort_strs xs) = set xs"
  by (induction xs) (auto simp: sort_strs_def)

lemma summary_sum:
  assumes "dict_wf (pm_summary m)" and "f empty_stats = 0"
  shows "dict_sum f (pm_summary (pm_record t st c l upd m)) =
    dict_sum f (pm_summary m)
      + (f (upd (dict_get_or empty_stats (pm_summary m) (target_or_unknown t)))
         - f (dict_get_or empty_stats (pm_summary m) (target_or_unknown t)))"
  using assms by (simp add: pm_record_def Let_def dict_sum_set dict_get_or_def split: option.split)

lemma pm_record_ok:
  assumes "pm_ok m"
    and "\<And>s. 0 \<le> ts_failure s \<and> dict_wf (ts_error_codes s) \<and> dict_sum id (ts_error_codes s) = ts_failure s \<Longrightarrow>
      0 \<le> ts_failure (upd s) \<and> dict_wf (ts_error_codes (upd s)) \<and> dict_sum id (ts_error_codes (upd s)) = ts_failure (upd s)"
  shows "pm_ok (pm_record t st c l upd m)"
proof -
  let ?t = "target_or_unknown t" and ?d = "pm_summary m"
  let ?P = "\<lambda>s. 0 \<le> ts_failure s \<and> dict_wf (ts_error_codes s) \<and> dict_sum id (ts_error_codes s) = ts_failure s"
  have "?P (dict_get_or empty_stats ?d ?t)"
  proof (cases "dict_get ?d ?t")
    case (Some s)
    then have "s \<in> set (dict_values ?d)" using map_of_SomeD by force
    then have "?P s" using assms(1) unfolding pm_ok_def by blast
    then show ?thesis using Some by (simp add: dict_get_or_def)
  qed (simp add: dict_get_or_def empty_stats_def)
  from assms(2) [OF this] have new: "?P (upd (dict_get_or empty_stats ?d ?t))" .
  have "?P s" if "s \<in> set (dict_values (dict_set ?t (upd (dict_get_or empty_stats ?d ?t)) ?d))" for s
    using set_values_set [OF that] new assms(1) unfolding pm_ok_def by blast
  then show ?thesis using assms(1) unfolding pm_ok_def pm_record_def Let_def by (simp add: wf_set)
qed

lemma pm_step_ok: "pm_ok m \<Longrightarrow> pm_ok (pm_step e m)"
  by (cases e) (auto simp: pm_record_success_def pm_record_failure_def pm_record_simulated_def wf_bump bump_sum
      intro!: pm_record_ok)

lemma pm_step_sums:
  assumes "pm_ok m"
  shows "dict_sum ts_success (pm_summary (pm_step e m)) = dict_sum ts_success (pm_summary m) + (if event_kind e = 0 then 1 else 0)"
    and "dict_sum ts_failure (pm_summary (pm_step e m)) = dict_sum ts_failure (pm_summary m) + (if event_kind e = 1 then 1 else 0)"
    and "dict_sum ts_simulated (pm_summary (pm_step e m)) = dict_sum ts_simulated (pm_summary m) + (if event_kind e = 2 then 1 else 0)"
proof -
  have wf: "dict_wf (pm_summary m)" using assms by (simp add: pm_ok_def)
  have z: "ts_success empty_stats = 0" "ts_failure empty_stats = 0" "ts_simulated empty_stats = 0"
    by (simp_all add: empty_stats_def)
  show "dict_sum ts_success (pm_summary (pm_step e m)) = dict_sum ts_success (pm_summary m) + (if event_kind e = 0 then 1 else 0)"
    by (cases e) (simp_all add: pm_record_success_def pm_record_failure_def pm_record_simulated_def summary_sum [where f = ts_success, OF wf z(1)])
  show "dict_sum ts_failure (pm_summary (pm_step e m)) = dict_sum ts_failure (pm_summary m) + (if event_kind e = 1 then 1 else 0)"
    by (cases e) (simp_all add: pm_record_success_def pm_record_failure_def pm_record_simulated_def summary_sum [where f = ts_failure, OF wf z(2)])
  show "dict_sum ts_simulated (pm_summary (pm_step e m)) = dict_sum ts_simulated (pm_summary m) + (if event_kind e = 2 then 1 else 0)"
    by (cases e) (simp_all add: pm_record_success_def pm_record_failure_def pm_record_simulated_def summary_sum [where f = ts_simulated, OF wf z(3)])
qed

lemma pm_steps:
  assumes "pm_ok m"
  shows "pm_ok (fold pm_step es m) \<and>
    dict_sum ts_success (pm_summary (fold pm_step es m)) = dict_sum ts_success (pm_summary m) + int (length (filter (\<lambda>e. event_kind e = 0) es)) \<and>
    dict_sum ts_failure (pm_summary (fold pm_step es m)) = dict_sum ts_failure (pm_summary m) + int (length (filter (\<lambda>e. event_kind e = 1) es)) \<and>
    dict_sum ts_simulated (pm_summary (fold pm_step es m)) = dict_sum ts_simulated (pm_summary m) + int (length (filter (\<lambda>e. event_kind e = 2) es))"
  using assms
proof (induction es arbitrary: m)
  case (Cons e es)
  from Cons.IH [OF pm_step_ok [OF Cons.prems, of e]] pm_step_sums [OF Cons.prems, of e]
  show ?case by simp
qed simp

text \<open>
The provider health totals are exact: after any sequence of recorded provider calls the
  three totals are the numbers of successes, failures and simulated runs recorded, and for every
  target the per-code counts add up to its failures.
\<close>

theorem provider_totals_exact:
  "ph_totals (pm_health_summary (fold pm_step es provider_metrics_init)) =
     (int (length (filter (\<lambda>e. event_kind e = 0) es)), int (length (filter (\<lambda>e. event_kind e = 1) es)),
      int (length (filter (\<lambda>e. event_kind e = 2) es))) \<and>
   (\<forall>s \<in> set (dict_values (ph_targets (pm_health_summary (fold pm_step es provider_metrics_init)))).
      dict_sum id (ts_error_codes s) = ts_failure s)"
proof -
  let ?m = "fold pm_step es provider_metrics_init"
  have init: "pm_ok provider_metrics_init" by (simp add: pm_ok_def provider_metrics_init_def)
  note steps = pm_steps [OF init, of es]
  have sum: "sum_list (map f (dict_values d)) = dict_sum f d" for f and d :: "(string, target_stats) dict"
    by (simp add: dict_sum_def comp_def)
  have zero: "dict_sum f (pm_summary provider_metrics_init) = 0" for f by (simp add: provider_metrics_init_def)
  show ?thesis
    using steps unfolding pm_health_summary_def Let_def provider_health.select_convs sum zero pm_ok_def by auto
qed

definition demo_calls :: "provider_event list" where
  "demo_calls = [PSuccess ''ibm_quantum'' (Some 2), PFailure ''ibm_quantum'' (Some ''PROVIDER_ERROR'') None,
     PFailure ''ibm_quantum'' None None, PSimulated [] None]"

theorem provider_totals_exact_witness:
  "ph_totals (pm_health_summary (fold pm_step demo_calls provider_metrics_init)) = (1, 2, 1)"
  using provider_totals_exact [of demo_calls] by (simp add: demo_calls_def)

end
