(* ===== verification/Hardware_Backends.thy ===== *)
theory Hardware_Backends
  imports Provider_Clients Run_Metrics
begin

text \<open>
  The backends (\<open>hardware_backends.py\<close>) and the provider facade (\<open>providers/__init__.py\<close>): the
  local simulator, the provider shell with its live path and its simulation fallback, the registry
  with advertised capabilities, and \<open>run_experiment\<close> with its shot limit and error taxonomy.

  Clock readings that only feed latency metrics are arguments (\<open>lat\<close>); seeds that mix the clock
  are \<open>ce_seed\<close>. The world \<open>'w\<close> carries the SDKs and the module-level generator.
\<close>

section \<open>Distributions\<close>

definition normalize_distribution :: "distribution \<Rightarrow> distribution py" where
  "normalize_distribution d =
     (let tot = sum_list (map (\<lambda>(k, v). max 0 v) d) in
      if tot \<le> 0 then Inl (ExnValue ''distribution must have positive mass'')
      else Inr (map (\<lambda>(k, v). (k, max 0 v / tot)) d))"

fun base_distribution :: "experiment_preset \<Rightarrow> distribution" where
  "base_distribution LATENCY = [(''00'', 55/100), (''01'', 22/100), (''10'', 14/100), (''11'', 9/100)]"
| "base_distribution GROVER_DEMO = ideal_marked_distribution 5 [''10101'', ''01010''] (1/100)"
| "base_distribution BACKEND_COMPARE = [(''00'', 42/100), (''01'', 22/100), (''10'', 20/100), (''11'', 16/100)]"
| "base_distribution HELLO_QUANTUM_SIM = [(''00'', 70/100), (''01'', 15/100), (''10'', 10/100), (''11'', 5/100)]"
| "base_distribution _ = [(''00'', 64/100), (''11'', 28/100), (''01'', 5/100), (''10'', 3/100)]"

text \<open>A comprehension \<open>\{k: f(v, rng.uniform(-e, e)) for k, v in d.items()\}\<close>.\<close>

fun jitter :: "'g rng_api \<Rightarrow> real \<Rightarrow> (real \<Rightarrow> real) \<Rightarrow> distribution \<Rightarrow> 'g \<Rightarrow> distribution \<times> 'g" where
  "jitter R e f [] g = ([], g)"
| "jitter R e f ((k, v) # d) g =
     (case rng_uniform R (- e) e g of
        (u, g1) \<Rightarrow> (case jitter R e f d g1 of (d', g2) \<Rightarrow> ((k, f (v + u)) # d', g2)))"

definition expected_distribution :: "'g rng_api \<Rightarrow> experiment_preset \<Rightarrow> 'g \<Rightarrow> distribution py \<times> 'g" where
  "expected_distribution R preset g =
     (case jitter R (1/100) id (base_distribution preset) g of (d, g') \<Rightarrow> (normalize_distribution d, g'))"

text \<open>
  The search of \<open>_mix_toward_uniform\<close> over the noise weights \<open>i / 200\<close>; \<open>None\<close> is the initial
  score \<open>inf\<close>.
\<close>

fun mix_search :: "'g rng_api \<Rightarrow> distribution \<Rightarrow> real option \<Rightarrow> real list \<Rightarrow> distribution \<Rightarrow> real option \<Rightarrow> 'g
    \<Rightarrow> distribution py \<times> 'g" where
  "mix_search R q target [] best score g = (Inr best, g)"
| "mix_search R q target (noise # ns) best score g =
     (let uniform = 1 / real (length q) in
      case normalize_distribution (map (\<lambda>(k, v). (k, (1 - noise) * v + noise * uniform)) q) of
        Inl e \<Rightarrow> (Inl e, g)
      | Inr mixed \<Rightarrow>
          (case distribution_fidelity q mixed of
             Inl e \<Rightarrow> (Inl e, g)
           | Inr f \<Rightarrow>
               (let (s, g1) = (case target of
                                 None \<Rightarrow> (let (x, g') = rng_random R g in (x * (1/100), g'))
                               | Some t \<Rightarrow> (\<bar>f - t\<bar>, g)) in
                if (case score of None \<Rightarrow> True | Some b \<Rightarrow> s < b)
                then mix_search R q target ns mixed (Some s) g1
                else mix_search R q target ns best score g1)))"

definition mix_toward_uniform :: "'g rng_api \<Rightarrow> distribution \<Rightarrow> real option \<Rightarrow> 'g \<Rightarrow> distribution py \<times> 'g" where
  "mix_toward_uniform R q target g =
     (case normalize_distribution q of
        Inl e \<Rightarrow> (Inl e, g)
      | Inr best0 \<Rightarrow>
          (case mix_search R q target (map (\<lambda>i. real i / 200) [1..<80]) best0 None g of
             (Inl e, g1) \<Rightarrow> (Inl e, g1)
           | (Inr best, g1) \<Rightarrow>
               (case jitter R (5/1000) (max 0) best g1 of (d, g2) \<Rightarrow> (normalize_distribution d, g2))))"

section \<open>The local simulator\<close>

definition fidelity_status :: "real option \<Rightarrow> experiment_status" where
  "fidelity_status f =
     (case f of None \<Rightarrow> OK | Some x \<Rightarrow> if x < 90/100 then FAIL else if x < 94/100 then WARN else OK)"

definition provider_status :: "real option \<Rightarrow> real \<Rightarrow> experiment_status" where
  "provider_status f backaction =
     (if fidelity_status f \<noteq> OK then fidelity_status f else if backaction > 35/100 then WARN else OK)"

text \<open>
  Target fidelity, latency and backaction of a preset: \<open>lo + rng.random() * span\<close> each, in the
  order of the code; the \<open>LATENCY\<close> preset has no target and draws only twice.
\<close>

fun sim_ranges :: "experiment_preset \<Rightarrow> (real \<times> real) option \<times> (real \<times> real) \<times> (real \<times> real)" where
  "sim_ranges HEALTH = (Some (94/100, 4/100), (15, 6), (15/100, 10/100))"
| "sim_ranges LATENCY = (None, (10, 15), (10/100, 10/100))"
| "sim_ranges BACKEND_COMPARE = (Some (93/100, 5/100), (18, 10), (20/100, 10/100))"
| "sim_ranges HELLO_QUANTUM_SIM = (Some (975/1000, 15/1000), (9, 4), (8/100, 4/100))"
| "sim_ranges _ = (Some (90/100, 6/100), (12, 8), (10/100, 10/100))"

definition draw :: "'g rng_api \<Rightarrow> real \<times> real \<Rightarrow> 'g \<Rightarrow> real \<times> 'g" where
  "draw R rg g = (case rng_random R g of (x, g') \<Rightarrow> (fst rg + x * snd rg, g'))"

definition draw_opt :: "'g rng_api \<Rightarrow> (real \<times> real) option \<Rightarrow> 'g \<Rightarrow> real option \<times> 'g" where
  "draw_opt R rg g =
     (case rg of None \<Rightarrow> (None, g) | Some r \<Rightarrow> (case draw R r g of (x, g') \<Rightarrow> (Some x, g')))"

text \<open>\<open>try: fidelity = ... except ValueError: fidelity = None\<close>.\<close>

definition fidelity_or_none :: "counts \<Rightarrow> distribution \<Rightarrow> real option" where
  "fidelity_or_none c q = (case fidelity_dist_from_counts c q of Inl _ \<Rightarrow> None | Inr f \<Rightarrow> Some f)"

definition simulated_kpis :: "'g rng_api \<Rightarrow> distribution \<Rightarrow> real option \<Rightarrow> real \<Rightarrow> real \<Rightarrow> (real option \<Rightarrow> real \<Rightarrow> experiment_status)
    \<Rightarrow> int \<Rightarrow> int \<Rightarrow> 'g \<Rightarrow> kpi_bundle py" where
  "simulated_kpis R q target latency backaction status shots_used shot_budget g =
     (case mix_toward_uniform R q target g of
        (Inl e, _) \<Rightarrow> Inl e
      | (Inr actual, g1) \<Rightarrow>
          (let raw_counts = fst (sample_counts R actual shots_used g1);
               fidelity = (if target = None then None else fidelity_or_none raw_counts q) in
           Inr \<lparr>k_fidelity = fidelity, k_latency_us = Some latency, k_backaction = Some backaction,
                k_raw_counts = Some raw_counts, k_expected_distribution = Some q,
                k_shots_used = counts_total raw_counts, k_shot_budget = shot_budget,
                k_status = status fidelity backaction\<rparr>))"

definition local_simulate :: "('g, 'w) client_env \<Rightarrow> settings \<Rightarrow> experiment_preset \<Rightarrow> int \<Rightarrow> 'w \<Rightarrow> kpi_bundle py" where
  "local_simulate E S preset shot_budget w =
     (let R = ce_rng E; shots_used = min shot_budget (st_max_shots_per_experiment S);
          g0 = rng_of_seed R (ce_seed E ''sim_local'' preset w) in
      case expected_distribution R preset g0 of
        (Inl e, _) \<Rightarrow> Inl e
      | (Inr q, g1) \<Rightarrow>
          (case sim_ranges preset of
             (fid, lat, back) \<Rightarrow>
               (let (target, g2) = draw_opt R fid g1;
                    (latency, g3) = draw R lat g2;
                    (backaction, g4) = draw R back g3 in
                simulated_kpis R q target latency backaction (\<lambda>f _. fidelity_status f) shots_used shot_budget g4)))"

text \<open>The seed is \<open>int(time.time()) & 0xFFFF\<close>.\<close>

definition grover_preset_cfg :: "real \<Rightarrow> grover_config" where
  "grover_preset_cfg now = \<lparr>gc_n_qubits = 5, gc_marked = [''10101'', ''01010''], gc_iterations = None,
     gc_shots = 128, gc_seed_sim = Some (py_int now mod 65536)\<rparr>"

definition run_grover_preset :: "('g, 'w) client_env \<Rightarrow> settings \<Rightarrow> int \<Rightarrow> 'w \<Rightarrow> kpi_bundle py \<times> 'w" where
  "run_grover_preset E S shot_budget w =
     (let shots_cap = min shot_budget (st_max_shots_per_experiment S);
          cfg = grover_preset_cfg (ce_clock E w);
          q = ideal_marked_distribution 5 [''10101'', ''01010''] (1/100) in
      case energy_aware_search (ce_grover E cfg) cfg (65/100) (8/100) (5/100) shots_cap w of
        (Inl (ExnOther name m), w1) \<Rightarrow>
          (if name = ''GroverDependencyError''
           then (Inl (provider_error ''Grover preset requires the qiskit and qiskit-aer extras to run real circuits''
                   PROVIDER_SIM_DISABLED
                   (Some ''Install the 'backend[qiskit]' extra or enable a live provider target for Grover runs.'')), w1)
           else (Inl (ExnOther name m), w1))
      | (Inl e, w1) \<Rightarrow> (Inl e, w1)
      | (Inr (shots_used, c, _), w1) \<Rightarrow>
          (case fidelity_dist_from_counts c q of
             Inl e \<Rightarrow> (Inl e, w1)
           | Inr f \<Rightarrow>
               (case ce_random E w1 of
                  (x, w2) \<Rightarrow>
                    (case ce_random E w2 of
                       (y, w3) \<Rightarrow>
                         (Inr \<lparr>k_fidelity = Some f, k_latency_us = Some (14 + x * 6),
                               k_backaction = Some (11/100 + y * (7/100)), k_raw_counts = Some c,
                               k_expected_distribution = Some q, k_shots_used = shots_used,
                               k_shot_budget = shot_budget, k_status = fidelity_status (Some f)\<rparr>, w3)))))"

definition local_run :: "('g, 'w) client_env \<Rightarrow> settings \<Rightarrow> experiment_preset \<Rightarrow> int \<Rightarrow> 'w \<Rightarrow> kpi_bundle py \<times> 'w" where
  "local_run E S preset shot_budget w =
     (if preset = GROVER_DEMO then run_grover_preset E S shot_budget w
      else (local_simulate E S preset shot_budget w, w))"

section \<open>The provider shell\<close>

record provider_backend =
  pb_id :: string
  pb_name :: string
  pb_kind :: string
  pb_vendor :: string
  pb_fidelity_floor :: real
  pb_fidelity_ceiling :: real
  pb_latency_base_us :: real
  pb_latency_span_us :: real
  pb_backaction_base :: real
  pb_backaction_span :: real
  pb_live_client :: "provider_client option"

definition provider_rng :: "('g, 'w) client_env \<Rightarrow> provider_backend \<Rightarrow> experiment_preset \<Rightarrow> 'w \<Rightarrow> 'g" where
  "provider_rng E b preset w = rng_of_seed (ce_rng E) (ce_seed E (pb_id b) preset w)"

definition provider_simulate :: "('g, 'w) client_env \<Rightarrow> settings \<Rightarrow> provider_backend \<Rightarrow> experiment_preset \<Rightarrow> int \<Rightarrow> 'w
    \<Rightarrow> kpi_bundle py" where
  "provider_simulate E S b preset shot_budget w =
     (let R = ce_rng E; shots_used = min shot_budget (st_max_shots_per_experiment S);
          g0 = provider_rng E b preset w;
          (latency, g1) = draw R (pb_latency_base_us b, pb_latency_span_us b) g0;
          (backaction, g2) = draw R (pb_backaction_base b, pb_backaction_span b) g1 in
      case expected_distribution R preset g2 of
        (Inl e, _) \<Rightarrow> Inl e
      | (Inr q, g3) \<Rightarrow>
          (let (t, g4) = draw_opt R (if preset = LATENCY then None
                           else Some (pb_fidelity_floor b, pb_fidelity_ceiling b - pb_fidelity_floor b)) g3;
               target = map_option (clamp 0 1) t in
           simulated_kpis R q target latency backaction provider_status shots_used shot_budget g4))"

text \<open>
  \<open>_run_live\<close>: what the client answers, with the missing KPIs filled in. Every failure leaves as a
  \<open>ProviderClientError\<close>.
\<close>

definition live_kpis :: "('g, 'w) client_env \<Rightarrow> provider_backend \<Rightarrow> experiment_preset \<Rightarrow> int \<Rightarrow> live_result \<Rightarrow> 'w
    \<Rightarrow> kpi_bundle py" where
  "live_kpis E b preset shot_budget res w =
     (let R = ce_rng E; c = lr_raw_counts res;
          measured = or_int (lr_shots_used res) (counts_total c);
          expected = (case lr_expected_distribution res of
                        Some (p # ps) \<Rightarrow> normalize_distribution (p # ps)
                      | _ \<Rightarrow> fst (expected_distribution R preset (provider_rng E b preset w))) in
      case expected of
        Inl e \<Rightarrow> Inl (provider_error (''Invalid expected_distribution from provider: '' @ exn_text e) PROVIDER_ERROR None)
      | Inr q \<Rightarrow>
          (let fidelity = (case lr_fidelity res of Some f \<Rightarrow> Some f
                           | None \<Rightarrow> if q = [] then None else fidelity_or_none c q);
               latency = (case lr_latency_us res of Some x \<Rightarrow> x
                          | None \<Rightarrow> fst (draw R (pb_latency_base_us b, pb_latency_span_us b) (provider_rng E b preset w)));
               backaction = (case lr_backaction res of Some x \<Rightarrow> x
                             | None \<Rightarrow> fst (draw R (pb_backaction_base b, pb_backaction_span b) (provider_rng E b preset w))) in
           Inr \<lparr>k_fidelity = fidelity, k_latency_us = Some latency, k_backaction = Some backaction,
                k_raw_counts = Some c, k_expected_distribution = Some q, k_shots_used = measured,
                k_shot_budget = shot_budget, k_status = provider_status fidelity backaction\<rparr>))"

definition run_live :: "('g, 'w) client_env \<Rightarrow> provider_backend \<Rightarrow> provider_client \<Rightarrow> experiment_preset \<Rightarrow> int \<Rightarrow> 'w
    \<Rightarrow> kpi_bundle py \<times> 'w" where
  "run_live E b cl preset shot_budget w =
     (case client_run E cl preset shot_budget w of
        (Inl (ProviderClientError m c h d), w1) \<Rightarrow> (Inl (ProviderClientError m c h d), w1)
      | (Inl e, w1) \<Rightarrow> (Inl (provider_error (''Live provider call failed: '' @ exn_text e) PROVIDER_ERROR None), w1)
      | (Inr res, w1) \<Rightarrow> (live_kpis E b preset shot_budget res w1, w1))"

definition simulation_fallback :: "('g, 'w) client_env \<Rightarrow> settings \<Rightarrow> provider_backend \<Rightarrow> experiment_preset \<Rightarrow> int
    \<Rightarrow> real \<Rightarrow> 'w \<times> provider_metrics \<Rightarrow> kpi_bundle py \<times> 'w \<times> provider_metrics" where
  "simulation_fallback E S b preset shot_budget lat s =
     (case s of (w, pm) \<Rightarrow>
        if \<not> st_allow_provider_simulation S then
          (Inl (ExnRuntime ''Provider simulation is disabled for this deployment. To exercise provider stubs in simulation mode, set SYNQC_ALLOW_PROVIDER_SIMULATION=true or provide a live provider client via SYNQC_PROVIDER_PAYLOAD_<BACKEND_ID>.''), w, pm)
        else (case provider_simulate E S b preset shot_budget w of
                Inl e \<Rightarrow> (Inl e, w, pm)
              | Inr k \<Rightarrow> (Inr k, w, pm_record_simulated (pb_id b) (Some lat) pm)))"

definition provider_run :: "('g, 'w) client_env \<Rightarrow> settings \<Rightarrow> provider_backend \<Rightarrow> experiment_preset \<Rightarrow> int
    \<Rightarrow> real \<Rightarrow> 'w \<times> provider_metrics \<Rightarrow> kpi_bundle py \<times> 'w \<times> provider_metrics" where
  "provider_run E S b preset shot_budget lat s =
     (case s of (w, pm) \<Rightarrow>
        case pb_live_client b of
          None \<Rightarrow> simulation_fallback E S b preset shot_budget lat (w, pm)
        | Some cl \<Rightarrow>
            (case run_live E b cl preset shot_budget w of
               (Inr k, w1) \<Rightarrow> (Inr k, w1, pm_record_success (pb_id b) (Some lat) pm)
             | (Inl (ProviderClientError m c h d), w1) \<Rightarrow>
                 (let pm1 = pm_record_failure (pb_id b) (Some (error_code_value c)) (Some lat) pm in
                  if \<not> st_allow_provider_simulation S then (Inl (ProviderClientError m c h d), w1, pm1)
                  else simulation_fallback E S b preset shot_budget lat (w1, pm1))
             | (Inl e, w1) \<Rightarrow>
                 (let pm1 = pm_record_failure (pb_id b) (Some (error_code_value PROVIDER_ERROR)) (Some lat) pm in
                  if \<not> st_allow_provider_simulation S
                  then (Inl (provider_error (''Live provider call failed: '' @ exn_text e) PROVIDER_ERROR None), w1, pm1)
                  else simulation_fallback E S b preset shot_budget lat (w1, pm1))))"

section \<open>Registry and facade\<close>

datatype backend = LocalSimulator | ProviderShell provider_backend

definition mk_provider :: "(string, provider_client) dict \<Rightarrow> string \<Rightarrow> string \<Rightarrow> string \<Rightarrow> string
    \<Rightarrow> real \<times> real \<Rightarrow> real \<times> real \<Rightarrow> real \<times> real \<Rightarrow> string \<times> backend" where
  "mk_provider clients i nm kind vendor fid lat back =
     (i, ProviderShell \<lparr>pb_id = i, pb_name = nm, pb_kind = kind, pb_vendor = vendor,
           pb_fidelity_floor = fst fid, pb_fidelity_ceiling = snd fid, pb_latency_base_us = fst lat,
           pb_latency_span_us = snd lat, pb_backaction_base = fst back, pb_backaction_span = snd back,
           pb_live_client = dict_get clients i\<rparr>)"

definition backends :: "(string, provider_client) dict \<Rightarrow> (string, backend) dict" where
  "backends clients =
     [(''sim_local'', LocalSimulator),
      mk_provider clients ''aws_braket'' ''AWS Braket'' ''superconducting'' ''aws''
        (92/100, 98/100) (45, 110) (16/100, 14/100),
      mk_provider clients ''ibm_quantum'' ''IBM Quantum'' ''superconducting'' ''ibm''
        (93/100, 985/1000) (28, 65) (15/100, 16/100),
      mk_provider clients ''azure_quantum'' ''Microsoft Azure Quantum'' ''trapped_ion'' ''microsoft''
        (925/1000, 98/100) (85, 190) (12/100, 15/100),
      mk_provider clients ''ionq_cloud'' ''IonQ Cloud'' ''trapped_ion'' ''ionq''
        (935/1000, 985/1000) (120, 260) (10/100, 14/100),
      mk_provider clients ''rigetti_forest'' ''Rigetti Forest'' ''superconducting'' ''rigetti''
        (91/100, 975/1000) (32, 75) (16/100, 18/100)]"

definition get_backend :: "(string, provider_client) dict \<Rightarrow> string \<Rightarrow> backend py" where
  "get_backend clients target =
     (case dict_get (backends clients) target of
        None \<Rightarrow> Inl (ExnKey (''Unknown hardware_target '' @ target))
      | Some b \<Rightarrow> Inr b)"

definition CAPABILITIES :: "(string, provider_capabilities) dict" where
  "CAPABILITIES =
    [(''sim_local'', \<lparr>pv_max_shots = None, pv_queue_behavior = ''inline'',
        pv_supported_gates = [''h'', ''x'', ''y'', ''z'', ''cx'', ''rx'', ''ry'', ''cz''],
        pv_notes = Some ''Reference simulator with Grover preset routed through Qiskit/Aer when installed.''\<rparr>),
     (''ibm_quantum'', \<lparr>pv_max_shots = Some 32000, pv_queue_behavior = ''queued'',
        pv_supported_gates = [''h'', ''x'', ''y'', ''z'', ''cx'', ''cz'', ''rx'', ''ry''],
        pv_notes = Some ''Qiskit-backed provider supporting Aer simulation or IBM Quantum backends.''\<rparr>),
     (''aws_braket'', \<lparr>pv_max_shots = Some 100000, pv_queue_behavior = ''queued'',
        pv_supported_gates = [''ccnot'', ''cphaseshift'', ''cnot'', ''cz'', ''hadamard'', ''i'', ''phaseshift'', ''rx'', ''ry'', ''rz'', ''swap'', ''xy''],
        pv_notes = Some ''AWS Braket shell with queue semantics and file/env payload adapters.''\<rparr>),
     (''azure_quantum'', \<lparr>pv_max_shots = Some 500000, pv_queue_behavior = ''queued'',
        pv_supported_gates = [''h'', ''x'', ''y'', ''z'', ''s'', ''t'', ''cz'', ''rx'', ''ry'', ''rz'', ''swap''],
        pv_notes = Some ''Azure Quantum shell that can be wired to IonQ/Honeywell-style targets.''\<rparr>),
     (''ionq_cloud'', \<lparr>pv_max_shots = Some 100000, pv_queue_behavior = ''priority_queue'',
        pv_supported_gates = [''h'', ''x'', ''y'', ''z'', ''cz'', ''rx'', ''ry'', ''rz'', ''ms''],
        pv_notes = Some ''IonQ-native adapter supporting demo API-key wiring and synthetic fallbacks.''\<rparr>),
     (''rigetti_forest'', \<lparr>pv_max_shots = Some 100000, pv_queue_behavior = ''queued'',
        pv_supported_gates = [''i'', ''x'', ''y'', ''z'', ''rx'', ''ry'', ''rz'', ''cz'', ''cnot'', ''hadamard''],
        pv_notes = Some ''Rigetti Forest shell for Aspen-style QCS simulators or live endpoints.''\<rparr>)]"

definition default_capabilities :: "settings \<Rightarrow> provider_capabilities" where
  "default_capabilities S =
     \<lparr>pv_max_shots = Some (st_max_shots_per_experiment S), pv_queue_behavior = ''queued'',
      pv_supported_gates = [''h'', ''x'', ''y'', ''z'', ''cx'', ''rx'', ''ry'', ''cz''],
      pv_notes = Some ''Simulated provider shell''\<rparr>"

definition capabilities :: "settings \<Rightarrow> string \<Rightarrow> provider_capabilities" where
  "capabilities S target = dict_get_or (default_capabilities S) CAPABILITIES target"

record provider_target =
  pt_id :: string
  pt_name :: string
  pt_kind :: string
  pt_vendor :: string
  pt_capabilities :: provider_capabilities

definition vendor_for_backend :: "backend \<Rightarrow> string" where
  "vendor_for_backend b =
     (case b of LocalSimulator \<Rightarrow> ''synqc''
      | ProviderShell p \<Rightarrow> if pb_vendor p = [] then ''provider'' else pb_vendor p)"

definition list_targets :: "settings \<Rightarrow> (string, provider_client) dict \<Rightarrow> (string, provider_target) dict" where
  "list_targets S clients =
     map (\<lambda>(i, b).
       (case b of
          LocalSimulator \<Rightarrow>
            (i, \<lparr>pt_id = i, pt_name = ''Local simulator'', pt_kind = ''sim'', pt_vendor = vendor_for_backend b,
                 pt_capabilities = dict_get_or
                   ((default_capabilities S)\<lparr>pv_queue_behavior := ''inline'', pv_notes := Some ''Local simulator''\<rparr>) CAPABILITIES i\<rparr>)
        | ProviderShell p \<Rightarrow>
            (i, \<lparr>pt_id = i, pt_name = pb_name p, pt_kind = pb_kind p, pt_vendor = vendor_for_backend b,
                 pt_capabilities = dict_get_or (default_capabilities S) CAPABILITIES i\<rparr>)))
       (backends clients)"

definition validate_credentials :: "('g, 'w) client_env \<Rightarrow> settings \<Rightarrow> (string, provider_client) dict \<Rightarrow> string \<Rightarrow> bool py" where
  "validate_credentials E S clients target =
     (case get_backend clients target of
        Inl e \<Rightarrow> Inl e
      | Inr LocalSimulator \<Rightarrow> Inr True
      | Inr (ProviderShell p) \<Rightarrow>
          (case pb_live_client p of
             None \<Rightarrow> Inr (st_allow_provider_simulation S)
           | Some cl \<Rightarrow>
               (case client_validate E cl of
                  Some ok \<Rightarrow> Inr ok
                | None \<Rightarrow> Inr (st_allow_provider_simulation S))))"

definition backend_run :: "('g, 'w) client_env \<Rightarrow> settings \<Rightarrow> backend \<Rightarrow> experiment_preset \<Rightarrow> int \<Rightarrow> real
    \<Rightarrow> 'w \<times> provider_metrics \<Rightarrow> kpi_bundle py \<times> 'w \<times> provider_metrics" where
  "backend_run E S b preset shot_budget lat s =
     (case b of
        LocalSimulator \<Rightarrow> (case local_run E S preset shot_budget (fst s) of (res, w) \<Rightarrow> (res, w, snd s))
      | ProviderShell p \<Rightarrow> provider_run E S p preset shot_budget lat s)"

record provider_run_result =
  pr_kpis :: kpi_bundle
  pr_artifacts :: "(string, json) dict"

definition artifacts_of :: "backend \<Rightarrow> kpi_bundle \<Rightarrow> (string, json) dict" where
  "artifacts_of b k =
     (case k_raw_counts k of Some (c # cs) \<Rightarrow> [(''raw_counts'', JObj (map (\<lambda>(o', n). (o', JInt n)) (c # cs)))] | _ \<Rightarrow> []) @
     (case k_expected_distribution k of
        Some (p # ps) \<Rightarrow> [(''expected_distribution'', JObj (map (\<lambda>(o', x). (o', JFloat x)) (p # ps)))] | _ \<Rightarrow> []) @
     (case b of LocalSimulator \<Rightarrow> []
      | ProviderShell p \<Rightarrow>
          (case pb_live_client p of None \<Rightarrow> []
           | Some cl \<Rightarrow> (case client_backend_name cl of
                Some nm \<Rightarrow> if nm = [] then [] else [(''provider_backend'', JStr nm)] | None \<Rightarrow> [])))"

definition run_on :: "('g, 'w) client_env \<Rightarrow> settings \<Rightarrow> backend \<Rightarrow> experiment_preset \<Rightarrow> int \<Rightarrow> real
    \<Rightarrow> 'w \<times> provider_metrics \<Rightarrow> provider_run_result py \<times> 'w \<times> provider_metrics" where
  "run_on E S b preset shot_budget lat s =
     (case backend_run E S b preset shot_budget lat s of
        (Inr k, s1) \<Rightarrow> (Inr \<lparr>pr_kpis = k, pr_artifacts = artifacts_of b k\<rparr>, s1)
      | (Inl (ProviderClientError m c h d), s1) \<Rightarrow> (Inl (ProviderClientError m c h d), s1)
      | (Inl e, s1) \<Rightarrow> (Inl (provider_error (''Provider execution failed: '' @ exn_text e) PROVIDER_ERROR None), s1))"

definition providers_run_experiment :: "('g, 'w) client_env \<Rightarrow> settings \<Rightarrow> (string, provider_client) dict \<Rightarrow> string
    \<Rightarrow> experiment_preset \<Rightarrow> int \<Rightarrow> real \<Rightarrow> 'w \<times> provider_metrics \<Rightarrow> provider_run_result py \<times> 'w \<times> provider_metrics" where
  "providers_run_experiment E S clients target preset shot_budget lat s =
     (case get_backend clients target of
        Inl e \<Rightarrow> (Inl e, s)
      | Inr b \<Rightarrow>
          (case pv_max_shots (capabilities S target) of
             Some m \<Rightarrow>
               if m \<noteq> 0 \<and> shot_budget > m then
                 (Inl (ProviderClientError (''Requested shots ('' @ py_str_int shot_budget @ '') exceed provider limit ('' @ py_str_int m @ '')'')
                    PROVIDER_CAPACITY (Some ''Lower the shot budget for this target or select a simulator.'')
                    [(''requested'', JInt shot_budget), (''max'', JInt m)]), s)
               else run_on E S b preset shot_budget lat s
           | None \<Rightarrow> run_on E S b preset shot_budget lat s))"

section \<open>Distributions stay distributions\<close>

definition mass_total :: "distribution \<Rightarrow> real" where
  "mass_total d = (\<Sum>(k, v)\<leftarrow>d. max 0 v)"

lemma normalize_sound:
  assumes "dict_wf d" and "0 < mass_total d"
  shows "\<exists>d'. normalize_distribution d = Inr d' \<and> dist_ok d' \<and> dict_keys d' = dict_keys d"
proof -
  let ?t = "mass_total d" and ?d = "map (\<lambda>(k, v). (k, max 0 v / mass_total d)) d"
  have "normalize_distribution d = Inr ?d" using assms(2) by (simp add: normalize_distribution_def Let_def mass_total_def)
  moreover have keys: "dict_keys ?d = dict_keys d" by (simp add: comp_def case_prod_beta)
  moreover have "sum_list (dict_values ?d) = 1"
  proof -
    have "sum_list (dict_values (map (\<lambda>(k, v). (k, max 0 v / t)) xs)) = mass_total xs / t" for xs :: distribution and t
      by (induction xs) (auto simp: add_divide_distrib mass_total_def)
    then show ?thesis using assms(2) by simp
  qed
  moreover have "\<forall>v \<in> set (dict_values ?d). 0 \<le> v" using assms(2) by auto
  moreover have "dict_wf ?d" using assms(1) keys by (simp only: dict_wf_def)
  ultimately show ?thesis unfolding dist_ok_def dist_nonneg_def by blast
qed

lemma jitter_sound:
  assumes "rng_laws R" and "0 \<le> e" and "\<And>x. x \<le> max 0 (f x)"
  shows "dict_keys (fst (jitter R e f d g)) = dict_keys d \<and>
    sum_list (dict_values d) - e * real (length d) \<le> mass_total (fst (jitter R e f d g))"
proof (induction d arbitrary: g)
  case (Cons p d)
  obtain k v where p: "p = (k, v)" by (cases p)
  obtain u g1 where u: "rng_uniform R (- e) e g = (u, g1)" by fastforce
  have "- e \<le> u" using rng_uniform_range [OF assms(1), of "- e" e g] assms(2) u by simp
  then have "v - e \<le> max 0 (f (v + u))" using assms(3) [of "v + u"] by linarith
  then show ?case
    using Cons.IH [of g1] by (simp add: p u mass_total_def split_beta algebra_simps)
qed (simp add: mass_total_def)

lemma length_fold_set: "length (fold (\<lambda>s. dict_set s x) ks d) \<le> length ks + length d"
proof (induction ks arbitrary: d)
  case (Cons k ks)
  show ?case using Cons.IH [of "dict_set k x d"] length_set [of k x d] by (simp split: if_splits)
qed simp

lemma fold_set_wf: "dict_wf d \<Longrightarrow> dict_wf (fold (\<lambda>s. dict_set s x) ks d)"
  by (induction ks arbitrary: d) (simp_all add: wf_set)

lemma fold_set_values:
  "v \<in> set (dict_values (fold (\<lambda>s. dict_set s x) ks d)) \<Longrightarrow> v = x \<or> v \<in> set (dict_values d)"
proof (induction ks arbitrary: d)
  case (Cons k ks)
  then show ?case using set_values_set [of v k x d] by (metis fold_simps(2))
qed simp

lemma get_fold_set: "dict_get (fold (\<lambda>s. dict_set s x) ks d) k = (if k \<in> set ks then Some x else dict_get d k)"
  by (induction ks arbitrary: d) (auto simp: get_set)

text \<open>
  The reference distribution of \<open>grover.py\<close> is one: some key carries positive mass, whether the
  signal or the noise floor is zero.
\<close>

lemma sum_list_pos: "\<forall>v \<in> set vs. 0 \<le> v \<Longrightarrow> v \<in> set vs \<Longrightarrow> 0 < v \<Longrightarrow> 0 < sum_list vs" for v :: real
  by (induction vs) (auto simp: add_nonneg_pos add_pos_nonneg sum_list_nonneg)

lemma ideal_marked_sound: "dist_ok (ideal_marked_distribution n marked background)"
proof (cases "marked = []")
  case True
  have "dist_ok (map (\<lambda>s. (s, 1 / 2 ^ n)) (all_states n))"
    using all_states_distinct [of n]
    by (simp add: dist_ok_def dist_nonneg_def dict_wf_def comp_def sum_list_triv all_states_length)
  then show ?thesis using True by (simp add: ideal_marked_distribution_def)
next
  case False
  define ambient where "ambient = filter (\<lambda>s. s \<notin> set marked) (all_states n)"
  define nf where "nf = max 0 background"
  define share where "share = max 0 (1 - nf * real (length ambient)) / real (length marked)"
  define d where "d = fold (\<lambda>s. dict_set s nf) ambient (fold (\<lambda>s. dict_set s share) marked [])"
  have eq: "ideal_marked_distribution n marked background = map (\<lambda>(k, v). (k, v / sum_list (dict_values d))) d"
    using False by (simp add: ideal_marked_distribution_def Let_def ambient_def nf_def share_def d_def)
  have wf: "dict_wf d" unfolding d_def by (intro fold_set_wf) simp
  have nn: "\<forall>v \<in> set (dict_values d). 0 \<le> v"
  proof
    fix v assume "v \<in> set (dict_values d)"
    then have "v = nf \<or> v \<in> set (dict_values (fold (\<lambda>s. dict_set s share) marked []))"
      unfolding d_def by (rule fold_set_values)
    moreover have "v = share" if "v \<in> set (dict_values (fold (\<lambda>s. dict_set s share) marked []))"
      using fold_set_values [OF that] by simp
    ultimately have "v = nf \<or> v = share" by blast
    then show "0 \<le> v" by (auto simp: nf_def share_def)
  qed
  have "\<exists>v \<in> set (dict_values d). 0 < v"
  proof (cases "0 < nf \<and> ambient \<noteq> []")
    case True
    then have "dict_get d (hd ambient) = Some nf" by (simp add: d_def get_fold_set)
    from map_of_SomeD [OF this] have "nf \<in> set (dict_values d)" by force
    then show ?thesis using True by blast
  next
    case none: False
    then have "share = 1 / real (length marked)" by (auto simp: share_def nf_def)
    moreover have "dict_get d (hd marked) = Some share"
      using False by (simp add: d_def get_fold_set ambient_def)
    ultimately show ?thesis using map_of_SomeD [of d "hd marked" share] False by force
  qed
  then have pos: "0 < sum_list (dict_values d)" using sum_list_pos [OF nn] by blast
  have keys: "dict_keys (map (\<lambda>(k, v). (k, v / sum_list (dict_values d))) d) = dict_keys d"
    by (simp add: comp_def case_prod_beta)
  have "sum_list (dict_values (map (\<lambda>(k, v). (k, v / t)) xs)) = sum_list (dict_values xs) / t" for xs :: distribution and t
    by (induction xs) (auto simp: add_divide_distrib)
  then have "sum_list (dict_values (map (\<lambda>(k, v). (k, v / sum_list (dict_values d))) d)) = 1"
    using pos by simp
  moreover have "dict_wf (map (\<lambda>(k, v). (k, v / sum_list (dict_values d))) d)"
    using wf keys by (simp only: dict_wf_def)
  moreover have "\<forall>v \<in> set (dict_values (map (\<lambda>(k, v). (k, v / sum_list (dict_values d))) d)). 0 \<le> v"
    using nn pos by force
  ultimately show ?thesis unfolding eq dist_ok_def dist_nonneg_def by blast
qed

lemma ideal_marked_length: "length (ideal_marked_distribution n marked b) \<le> length marked + 2 ^ n"
proof (cases "marked = []")
  case False
  let ?amb = "filter (\<lambda>s. s \<notin> set marked) (all_states n)"
  have amb: "length ?amb \<le> 2 ^ n" using length_filter_le [of _ "all_states n"] by (simp add: all_states_length)
  have len: "length (fold (\<lambda>s. dict_set s x) ?amb (fold (\<lambda>s. dict_set s y) marked [])) \<le> length ?amb + length marked"
    for x y :: real
    using length_fold_set [of x ?amb "fold (\<lambda>s. dict_set s y) marked []"] length_fold_set [of y marked "[]"] by simp
  have "\<exists>(x::real) (y::real). length (ideal_marked_distribution n marked b) =
      length (fold (\<lambda>s. dict_set s x) ?amb (fold (\<lambda>s. dict_set s y) marked []))"
    unfolding ideal_marked_distribution_def Let_def if_not_P [OF False] length_map by (intro exI) (rule refl)
  then obtain x y :: real where "length (ideal_marked_distribution n marked b) =
      length (fold (\<lambda>s. dict_set s x) ?amb (fold (\<lambda>s. dict_set s y) marked []))" by blast
  then show ?thesis using len [of x y] amb by linarith
qed (simp add: ideal_marked_distribution_def all_states_length)

lemma base_sound: "dist_ok (base_distribution preset) \<and> length (base_distribution preset) \<le> 34"
proof (cases "preset = GROVER_DEMO")
  case True
  then show ?thesis using ideal_marked_sound ideal_marked_length [of 5 "[''10101'', ''01010'']" "1/100"] by simp
next
  case False
  then show ?thesis by (cases preset) (simp_all add: dist_ok_def dist_nonneg_def dict_wf_def)
qed

definition small_dist :: "distribution \<Rightarrow> bool" where
  "small_dist q \<longleftrightarrow> dist_ok q \<and> length q \<le> 34"

lemma expected_sound:
  assumes "rng_laws R"
  shows "\<exists>q g'. expected_distribution R preset g = (Inr q, g') \<and> small_dist q \<and>
    dict_keys q = dict_keys (base_distribution preset)"
proof -
  obtain d g' where d: "jitter R (1/100) id (base_distribution preset) g = (d, g')" by fastforce
  have b: "dist_ok (base_distribution preset)" "length (base_distribution preset) \<le> 34" using base_sound by auto
  have "dict_keys d = dict_keys (base_distribution preset)" "1 - 34/100 \<le> mass_total d"
    using jitter_sound [OF assms, of "1/100" id "base_distribution preset" g] d b by (auto simp: dist_ok_def)
  moreover from this have "dict_wf d" using b(1) by (simp only: dist_ok_def dist_nonneg_def dict_wf_def)
  ultimately obtain q where q: "normalize_distribution d = Inr q" "dist_ok q" "dict_keys q = dict_keys (base_distribution preset)"
    using normalize_sound [of d] by auto
  then have "length q \<le> 34" using b(2) by (metis length_map)
  then show ?thesis using q d by (simp add: expected_distribution_def small_dist_def)
qed

section \<open>A simulated run accounts for its shots\<close>

lemma mix_values_total:
  "(\<Sum>(k, v)\<leftarrow>map (\<lambda>(k, v). (k, a * v + b)) q. v) = a * sum_list (dict_values q) + b * real (length q)" for q :: distribution
  by (induction q) (auto simp: algebra_simps)

lemma mixed_sound:
  assumes "dist_ok q" and "0 < noise" and "noise < 1"
  shows "\<exists>m. normalize_distribution (map (\<lambda>(k, v). (k, (1 - noise) * v + noise * (1 / real (length q)))) q) = Inr m
    \<and> dist_ok m \<and> dict_keys m = dict_keys q"
proof -
  let ?u = "noise * (1 / real (length q))"
  let ?m = "map (\<lambda>(k, v). (k, (1 - noise) * v + ?u)) q"
  have ne: "q \<noteq> []" by (rule dist_ok_nonempty [OF assms(1)])
  have keys: "dict_keys ?m = dict_keys q" by (simp add: comp_def case_prod_beta)
  have wf: "dict_wf ?m" using assms(1) keys by (simp only: dict_wf_def dist_ok_def dist_nonneg_def)
  have "\<forall>v \<in> set (dict_values q). 0 \<le> v" using assms(1) unfolding dist_ok_def dist_nonneg_def by blast
  then have "mass_total ?m = (\<Sum>(k, v)\<leftarrow>?m. v)"
    using assms(2,3) unfolding mass_total_def by (intro arg_cong [where f = sum_list] map_cong) auto
  also have "\<dots> = 1" using assms(1) ne by (simp only: mix_values_total) (simp add: dist_ok_def)
  finally have "0 < mass_total ?m" by simp
  from normalize_sound [OF wf this] show ?thesis unfolding keys .
qed

lemma fidelity_defined: "dist_ok p \<Longrightarrow> dist_ok q \<Longrightarrow> \<exists>f. distribution_fidelity p q = Inr f"
  using fidelity_eq [of p q] dist_ok_nonempty [of p] by (auto simp: dist_ok_def)

lemma mix_search_sound:
  assumes "dist_ok q" and "\<forall>x \<in> set ns. 0 < x \<and> x < 1" and "dist_ok best" and "dict_keys best = dict_keys q"
  shows "\<exists>b g'. mix_search R q target ns best score g = (Inr b, g') \<and> dist_ok b \<and> dict_keys b = dict_keys q"
  using assms(2-4)
proof (induction ns arbitrary: best score g)
  case (Cons x ns)
  obtain m where m: "normalize_distribution (map (\<lambda>(k, v). (k, (1 - x) * v + x * (1 / real (length q)))) q) = Inr m"
      "dist_ok m" "dict_keys m = dict_keys q"
    using mixed_sound [OF assms(1), of x] Cons.prems(1) by auto
  obtain f where f: "distribution_fidelity q m = Inr f" using fidelity_defined [OF assms(1) m(2)] by blast
  obtain s g1 where s: "(case target of None \<Rightarrow> (let (x, g') = rng_random R g in (x * (1/100), g')) | Some t \<Rightarrow> (\<bar>f - t\<bar>, g)) = (s, g1)"
    by fastforce
  have step: "mix_search R q target (x # ns) best score g =
      (if (case score of None \<Rightarrow> True | Some b \<Rightarrow> s < b)
       then mix_search R q target ns m (Some s) g1 else mix_search R q target ns best score g1)"
    unfolding mix_search.simps Let_def m(1) f sum.case s [unfolded Let_def] prod.case by (rule refl)
  show ?case
    unfolding step using Cons.IH [of m "Some s" g1] Cons.IH [of best score g1] Cons.prems m by auto
qed simp

lemma mix_sound:
  assumes "rng_laws R" and "small_dist q"
  shows "\<exists>p g'. mix_toward_uniform R q target g = (Inr p, g') \<and> dist_ok p \<and> dict_keys p = dict_keys q"
proof -
  have q: "dist_ok q" "length q \<le> 34" using assms(2) by (auto simp: small_dist_def)
  have wf: "dict_wf q" using q(1) by (simp add: dist_ok_def dist_nonneg_def)
  have "mass_total q = sum_list (dict_values q)"
  proof -
    have "\<forall>v \<in> set (dict_values q). 0 \<le> v" using q(1) unfolding dist_ok_def dist_nonneg_def by blast
    then show ?thesis unfolding mass_total_def by (intro arg_cong [where f = sum_list] map_cong) auto
  qed
  then have "0 < mass_total q" using q(1) by (simp add: dist_ok_def)
  then obtain best0 where b0: "normalize_distribution q = Inr best0" "dist_ok best0" "dict_keys best0 = dict_keys q"
    using normalize_sound [OF wf] by blast
  have "\<forall>x \<in> set (map (\<lambda>i. real i / 200) [1..<80]). 0 < x \<and> x < 1" by auto
  from mix_search_sound [OF q(1) this b0(2,3), of R target None g] obtain best g1
    where b: "mix_search R q target (map (\<lambda>i. real i / 200) [1..<80]) best0 None g = (Inr best, g1)"
      "dist_ok best" "dict_keys best = dict_keys q" by blast
  obtain d g2 where d: "jitter R (5/1000) (max 0) best g1 = (d, g2)" by fastforce
  have len: "length best \<le> 34" using b(3) q(2) by (metis length_map)
  have "dict_keys d = dict_keys best" "1 - 5/1000 * real (length best) \<le> mass_total d"
    using jitter_sound [OF assms(1), of "5/1000" "max 0" best g1] d b(2) by (auto simp: dist_ok_def)
  moreover have "0 < 1 - 5/1000 * real (length best)" using len by simp
  moreover from calculation have "dict_wf d" using b(2) by (simp only: dist_ok_def dist_nonneg_def dict_wf_def)
  ultimately obtain p where "normalize_distribution d = Inr p" "dist_ok p" "dict_keys p = dict_keys best"
    using normalize_sound [of d] by auto
  then show ?thesis using b b0 d by (simp add: mix_toward_uniform_def)
qed

text \<open>What every simulated bundle satisfies.\<close>

definition kpis_sound :: "kpi_bundle \<Rightarrow> bool" where
  "kpis_sound k \<longleftrightarrow>
     (\<exists>c q. k_raw_counts k = Some c \<and> counts_ok c \<and> counts_total c = k_shots_used k \<and>
            k_expected_distribution k = Some q \<and> dist_ok q) \<and>
     (case k_fidelity k of None \<Rightarrow> True | Some f \<Rightarrow> 0 \<le> f \<and> f \<le> 1)"

lemma simulated_kpis_sound:
  assumes "rng_laws R" and "small_dist q" and "1 \<le> n"
  shows "\<exists>k. simulated_kpis R q target lat back status n budget g = Inr k \<and> kpis_sound k \<and> k_shots_used k = n \<and>
    k_shot_budget k = budget \<and> k_status k = status (k_fidelity k) back \<and> k_backaction k = Some back \<and>
    (k_fidelity k = None \<longleftrightarrow> target = None)"
proof -
  obtain p g1 where p: "mix_toward_uniform R q target g = (Inr p, g1)" "dist_ok p"
    using mix_sound [OF assms(1,2)] by blast
  obtain c g2 where c: "sample_counts R p n g1 = (c, g2)" by fastforce
  note props = sample_counts_props [OF assms(1) dist_ok_nonempty [OF p(2)] c]
  have q: "dist_nonneg q" "dist_ok q" using assms(2) by (auto simp: small_dist_def dist_ok_def)
  have tot: "counts_total c = n" using props(2) assms(3) by simp
  obtain f where f: "fidelity_dist_from_counts c q = Inr f" "0 \<le> f" "f \<le> 1"
    using fidelity_from_counts_ok [OF props(1) _ q(1)] tot assms(3) by auto
  show ?thesis
    using p c f tot props(1) q(2)
    by (auto simp: simulated_kpis_def Let_def kpis_sound_def fidelity_or_none_def)
qed

lemma local_simulator_ok:
  assumes "rng_laws (ce_rng E)" and "settings_valid S" and "preset \<noteq> GROVER_DEMO" and "1 \<le> budget"
  shows "\<exists>k. local_run E S preset budget w = (Inr k, w) \<and> kpis_sound k \<and>
    k_shots_used k = min budget (st_max_shots_per_experiment S) \<and> k_shots_used k \<le> budget \<and>
    (k_fidelity k = None \<longleftrightarrow> preset = LATENCY) \<and> k_status k = fidelity_status (k_fidelity k)"
proof -
  let ?R = "ce_rng E" and ?n = "min budget (st_max_shots_per_experiment S)"
  obtain q g1 where q: "expected_distribution ?R preset (rng_of_seed ?R (ce_seed E ''sim_local'' preset w)) = (Inr q, g1)" "small_dist q"
    using expected_sound [OF assms(1)] by blast
  obtain fid lat bk where rgs: "sim_ranges preset = (fid, lat, bk)" by (cases "sim_ranges preset")
  obtain target g2 where t: "draw_opt ?R fid g1 = (target, g2)" by fastforce
  obtain l g3 where l: "draw ?R lat g2 = (l, g3)" by fastforce
  obtain b g4 where b: "draw ?R bk g3 = (b, g4)" by fastforce
  have "1 \<le> ?n" using assms(2,4) by (simp add: settings_valid_def)
  from simulated_kpis_sound [OF assms(1) q(2) this, of target l b "\<lambda>f _. fidelity_status f" budget g4]
  obtain k where k: "simulated_kpis ?R q target l b (\<lambda>f _. fidelity_status f) ?n budget g4 = Inr k" "kpis_sound k"
      "k_shots_used k = ?n" "k_status k = fidelity_status (k_fidelity k)" "k_fidelity k = None \<longleftrightarrow> target = None"
    by (elim exE conjE) (rule that; assumption)
  have "target = None \<longleftrightarrow> preset = LATENCY"
    using t rgs assms(3) by (cases preset) (auto simp: draw_opt_def split: prod.splits)
  then show ?thesis
    using k q rgs t l b assms(3) by (auto simp: local_run_def local_simulate_def Let_def)
qed

text \<open>
  C39. The local simulator (every preset but Grover, which runs real circuits) always produces a
  result: the counts are valid and sum to the reported shots, which are the budget clipped to the
  per-experiment limit; the reference is a distribution; the fidelity, absent exactly for the
  latency preset, lies in \<open>[0, 1]\<close> and determines the status.
\<close>

theorem local_simulator_sound:
  assumes "rng_laws (ce_rng E)" and "settings_valid S" and "preset \<noteq> GROVER_DEMO" and "1 \<le> budget"
  shows "\<exists>k. local_run E S preset budget w = (Inr k, w) \<and> kpis_sound k \<and>
    k_shots_used k = min budget (st_max_shots_per_experiment S) \<and> k_shots_used k \<le> budget \<and>
    (k_fidelity k = None \<longleftrightarrow> preset = LATENCY) \<and> k_status k = fidelity_status (k_fidelity k)"
  by (rule local_simulator_ok [OF assms])

theorem local_simulator_sound_witness:
  "\<exists>k. local_run demo_env default_settings HEALTH 500 0 = (Inr k, 0) \<and> kpis_sound k \<and> k_shots_used k = 500"
proof -
  have "rng_laws (ce_rng demo_env)" by (simp add: demo_env_def rng_first_laws)
  from local_simulator_sound [OF this default_settings_valid, of HEALTH 500 0] show ?thesis
    by (auto simp: default_settings_def)
qed

lemma provider_simulate_sound:
  assumes "rng_laws (ce_rng E)" and "settings_valid S" and "1 \<le> budget"
  shows "\<exists>k. provider_simulate E S b preset budget w = Inr k \<and> kpis_sound k \<and>
    k_shots_used k = min budget (st_max_shots_per_experiment S)"
proof -
  let ?R = "ce_rng E" and ?n = "min budget (st_max_shots_per_experiment S)"
  obtain l g1 where l: "draw ?R (pb_latency_base_us b, pb_latency_span_us b) (provider_rng E b preset w) = (l, g1)" by fastforce
  obtain bk g2 where bk: "draw ?R (pb_backaction_base b, pb_backaction_span b) g1 = (bk, g2)" by fastforce
  obtain q g3 where q: "expected_distribution ?R preset g2 = (Inr q, g3)" "small_dist q"
    using expected_sound [OF assms(1)] by blast
  obtain t g4 where t: "draw_opt ?R (if preset = LATENCY then None
      else Some (pb_fidelity_floor b, pb_fidelity_ceiling b - pb_fidelity_floor b)) g3 = (t, g4)" by fastforce
  have "1 \<le> ?n" using assms(2,3) by (simp add: settings_valid_def)
  from simulated_kpis_sound [OF assms(1) q(2) this, of "map_option (clamp 0 1) t" l bk provider_status budget g4]
  obtain k where "simulated_kpis ?R q (map_option (clamp 0 1) t) l bk provider_status ?n budget g4 = Inr k"
      "kpis_sound k" "k_shots_used k = ?n" by blast
  then show ?thesis by (simp add: provider_simulate_def Let_def l bk q(1) t)
qed

section \<open>The provider shell\<close>

lemma live_kpis_fields:
  assumes "live_kpis E b preset budget ans w = Inr k"
  shows "\<exists>q. k_expected_distribution k = Some q \<and> k_raw_counts k = Some (lr_raw_counts ans) \<and>
    k_shots_used k = or_int (lr_shots_used ans) (counts_total (lr_raw_counts ans)) \<and>
    k_fidelity k = (case lr_fidelity ans of Some f \<Rightarrow> Some f
      | None \<Rightarrow> if q = [] then None else fidelity_or_none (lr_raw_counts ans) q) \<and>
    k_latency_us k = Some (case lr_latency_us ans of Some x \<Rightarrow> x
      | None \<Rightarrow> fst (draw (ce_rng E) (pb_latency_base_us b, pb_latency_span_us b) (provider_rng E b preset w))) \<and>
    k_backaction k = Some (case lr_backaction ans of Some x \<Rightarrow> x
      | None \<Rightarrow> fst (draw (ce_rng E) (pb_backaction_base b, pb_backaction_span b) (provider_rng E b preset w)))"
proof -
  define expected where "expected = (case lr_expected_distribution ans of Some (p # ps) \<Rightarrow> normalize_distribution (p # ps)
    | _ \<Rightarrow> fst (expected_distribution (ce_rng E) preset (provider_rng E b preset w)))"
  obtain q where "expected = Inr q"
    using assms unfolding live_kpis_def Let_def expected_def [symmetric] by (cases expected) simp_all
  with assms have k: "k = \<lparr>k_fidelity = (case lr_fidelity ans of Some f \<Rightarrow> Some f
         | None \<Rightarrow> if q = [] then None else fidelity_or_none (lr_raw_counts ans) q),
      k_latency_us = Some (case lr_latency_us ans of Some x \<Rightarrow> x
         | None \<Rightarrow> fst (draw (ce_rng E) (pb_latency_base_us b, pb_latency_span_us b) (provider_rng E b preset w))),
      k_backaction = Some (case lr_backaction ans of Some x \<Rightarrow> x
         | None \<Rightarrow> fst (draw (ce_rng E) (pb_backaction_base b, pb_backaction_span b) (provider_rng E b preset w))),
      k_raw_counts = Some (lr_raw_counts ans), k_expected_distribution = Some q,
      k_shots_used = or_int (lr_shots_used ans) (counts_total (lr_raw_counts ans)), k_shot_budget = budget,
      k_status = k_status k\<rparr>"
    unfolding live_kpis_def Let_def expected_def [symmetric] by (simp, elim subst) simp
  show ?thesis
    using arg_cong [OF k, of k_fidelity] arg_cong [OF k, of k_latency_us] arg_cong [OF k, of k_backaction]
      arg_cong [OF k, of k_raw_counts] arg_cong [OF k, of k_expected_distribution] arg_cong [OF k, of k_shots_used]
    by (intro exI [of _ q]) simp
qed

text \<open>
  C9. No silent simulation. When provider simulation is not allowed, a provider backend without a live
  client raises and changes nothing. With one, it calls the client once and never falls back to the
  simulation: either it raises and one failure is recorded, or the client has answered, one success
  (and no simulated run) is recorded, and counts, shots and fidelity are the client's, the fidelity
  computed from its counts when it gives none. A latency or back-action that the client leaves out is
  still filled in from the random generator, in the range of the backend.
\<close>

theorem no_silent_simulation:
  assumes "\<not> st_allow_provider_simulation S" and "provider_run E S b preset budget lat (w, pm) = (res, w', pm')"
  shows "case pb_live_client b of
      None \<Rightarrow> (\<exists>m. res = Inl (ExnRuntime m)) \<and> w' = w \<and> pm' = pm
    | Some cl \<Rightarrow> w' = snd (client_run E cl preset budget w) \<and>
       (case res of
          Inl e \<Rightarrow> \<exists>code. pm' = pm_record_failure (pb_id b) (Some code) (Some lat) pm
        | Inr k \<Rightarrow> \<exists>ans. fst (client_run E cl preset budget w) = Inr ans \<and> pm' = pm_record_success (pb_id b) (Some lat) pm \<and>
            k_raw_counts k = Some (lr_raw_counts ans) \<and>
            k_shots_used k = or_int (lr_shots_used ans) (counts_total (lr_raw_counts ans)) \<and>
            k_fidelity k = (case lr_fidelity ans of Some f \<Rightarrow> Some f
              | None \<Rightarrow> Option.bind (k_expected_distribution k)
                  (\<lambda>q. if q = [] then None else fidelity_or_none (lr_raw_counts ans) q)) \<and>
            k_latency_us k = Some (case lr_latency_us ans of Some x \<Rightarrow> x
              | None \<Rightarrow> fst (draw (ce_rng E) (pb_latency_base_us b, pb_latency_span_us b) (provider_rng E b preset w'))) \<and>
            k_backaction k = Some (case lr_backaction ans of Some x \<Rightarrow> x
              | None \<Rightarrow> fst (draw (ce_rng E) (pb_backaction_base b, pb_backaction_span b) (provider_rng E b preset w'))))"
proof (cases "pb_live_client b")
  case None
  then show ?thesis using assms by (auto simp: provider_run_def simulation_fallback_def)
next
  case (Some cl)
  obtain r w1 where r: "run_live E b cl preset budget w = (r, w1)" by fastforce
  have w1: "w1 = snd (client_run E cl preset budget w)"
    using r by (auto simp: run_live_def split: prod.splits sum.splits py_exn.splits)
  show ?thesis
  proof (cases r)
    case (Inl e)
    then have "\<exists>x code. res = Inl x \<and> w' = w1 \<and> pm' = pm_record_failure (pb_id b) (Some code) (Some lat) pm"
      using assms r Some by (cases e) (auto simp: provider_run_def Let_def)
    then show ?thesis using Some w1 by auto
  next
    case (Inr k)
    then have p: "res = Inr k" "w' = w1" "pm' = pm_record_success (pb_id b) (Some lat) pm"
      using assms r Some by (simp_all add: provider_run_def)
    obtain ans where ans: "client_run E cl preset budget w = (Inr ans, w1)" "live_kpis E b preset budget ans w1 = Inr k"
      using r Inr by (auto simp: run_live_def split: prod.splits sum.splits py_exn.splits)
    obtain q where "k_expected_distribution k = Some q" "k_raw_counts k = Some (lr_raw_counts ans)"
      "k_shots_used k = or_int (lr_shots_used ans) (counts_total (lr_raw_counts ans))"
      "k_fidelity k = (case lr_fidelity ans of Some f \<Rightarrow> Some f
         | None \<Rightarrow> if q = [] then None else fidelity_or_none (lr_raw_counts ans) q)"
      "k_latency_us k = Some (case lr_latency_us ans of Some x \<Rightarrow> x
         | None \<Rightarrow> fst (draw (ce_rng E) (pb_latency_base_us b, pb_latency_span_us b) (provider_rng E b preset w1)))"
      "k_backaction k = Some (case lr_backaction ans of Some x \<Rightarrow> x
         | None \<Rightarrow> fst (draw (ce_rng E) (pb_backaction_base b, pb_backaction_span b) (provider_rng E b preset w1)))"
      using live_kpis_fields [OF ans(2)] by blast
    then show ?thesis using Some p ans(1) by (simp split: option.split)
  qed
qed

definition demo_backend :: provider_backend where
  "demo_backend = \<lparr>pb_id = ''ionq_cloud'', pb_name = ''IonQ Cloud'', pb_kind = ''trapped_ion'', pb_vendor = ''ionq'',
     pb_fidelity_floor = 935/1000, pb_fidelity_ceiling = 985/1000, pb_latency_base_us = 120, pb_latency_span_us = 260,
     pb_backaction_base = 10/100, pb_backaction_span = 14/100,
     pb_live_client = Some (QiskitClient ''aer_simulator'')\<rparr>"

theorem no_silent_simulation_witness:
  "\<exists>k w' pm'. provider_run demo_env default_settings demo_backend HEALTH 100 0 (0, provider_metrics_init) = (Inr k, w', pm') \<and>
     k_raw_counts k = Some [(''00'', 100)] \<and> pm' = pm_record_success ''ionq_cloud'' (Some 0) provider_metrics_init"
proof -
  have av: "ensure_qiskit_available demo_env (runtime_configured demo_env) = Inr ()"
    by (simp add: ensure_qiskit_available_def demo_env_def runtime_configured_def truthy_str_def)
  have run: "client_run demo_env (QiskitClient ''aer_simulator'') HEALTH 100 0 =
      (Inr \<lparr>lr_raw_counts = [(''00'', 100)], lr_expected_distribution = Some (qiskit_expected HEALTH), lr_fidelity = None,
            lr_latency_us = None, lr_backaction = None, lr_shots_used = Some 100\<rparr>, 100)" (is "_ = (Inr ?res, _)")
    by (simp add: qiskit_run_def av) (simp add: demo_env_def)
  obtain d where d: "normalize_distribution (qiskit_expected HEALTH) = Inr d"
    by (simp add: normalize_distribution_def)
  then obtain k where k: "live_kpis demo_env demo_backend HEALTH 100 ?res 100 = Inr k"
    by (simp add: live_kpis_def Let_def)
  have off: "\<not> st_allow_provider_simulation default_settings" by (simp add: default_settings_def)
  have "provider_run demo_env default_settings demo_backend HEALTH 100 0 (0, provider_metrics_init)
      = (Inr k, 100, pm_record_success ''ionq_cloud'' (Some 0) provider_metrics_init)"
    using run k by (simp add: provider_run_def run_live_def demo_backend_def)
  from no_silent_simulation [OF off this] this run show ?thesis by (simp add: demo_backend_def)
qed

text \<open>
The facade's contract: a request above the advertised shot limit is refused with
  \<open>PROVIDER_CAPACITY\<close> before anything runs; every other failure is a \<open>ProviderClientError\<close>, except
  the \<open>KeyError\<close> of an unknown target, which escapes untranslated; an accepted run stays within
  the limit.
\<close>

theorem facade_contract:
  assumes "providers_run_experiment E S clients target preset budget lat s = (res, s')"
  shows "(case res of
      Inl e \<Rightarrow> (dict_get (backends clients) target = None \<and> s' = s \<and> (\<exists>m. e = ExnKey m)) \<or>
               (\<exists>m c h d. e = ProviderClientError m c h d)
    | Inr r \<Rightarrow> (case pv_max_shots (capabilities S target) of None \<Rightarrow> True | Some m \<Rightarrow> m = 0 \<or> budget \<le> m)) \<and>
    (\<forall>m b. dict_get (backends clients) target = Some b \<longrightarrow> pv_max_shots (capabilities S target) = Some m \<longrightarrow> m \<noteq> 0 \<longrightarrow>
       m < budget \<longrightarrow> s' = s \<and> (\<exists>msg h d. res = Inl (ProviderClientError msg PROVIDER_CAPACITY h d)))"
proof (cases "dict_get (backends clients) target")
  case None
  then show ?thesis using assms by (auto simp: providers_run_experiment_def get_backend_def)
next
  case (Some b)
  have on: "run_on E S b preset budget lat s = (Inl e, s'') \<Longrightarrow> \<exists>m c h d. e = ProviderClientError m c h d" for e s''
    by (auto simp: run_on_def provider_error_def split: prod.splits sum.splits py_exn.splits)
  show ?thesis
  proof (cases "\<exists>m. pv_max_shots (capabilities S target) = Some m \<and> m \<noteq> 0 \<and> budget > m")
    case True
    then show ?thesis using assms Some by (auto simp: providers_run_experiment_def get_backend_def)
  next
    case False
    then have "run_on E S b preset budget lat s = (res, s')"
      using assms Some by (auto simp: providers_run_experiment_def get_backend_def split: option.splits)
    then show ?thesis using on False by (cases res) (auto split: option.splits)
  qed
qed

theorem facade_contract_witness:
  "\<exists>m h d. fst (providers_run_experiment demo_env default_settings (load_provider_clients []) ''ibm_quantum'' HEALTH 40000 0
     (0, provider_metrics_init)) = Inl (ProviderClientError m PROVIDER_CAPACITY h d)"
proof -
  obtain res s' where r: "providers_run_experiment demo_env default_settings (load_provider_clients []) ''ibm_quantum'' HEALTH 40000 0
     (0, provider_metrics_init) = (res, s')" by (rule prod.exhaust)
  have "\<exists>b. dict_get (backends (load_provider_clients [])) ''ibm_quantum'' = Some b"
    by (simp add: backends_def mk_provider_def)
  moreover have "pv_max_shots (capabilities default_settings ''ibm_quantum'') = Some 32000"
    by (simp add: capabilities_def CAPABILITIES_def dict_get_or_def)
  ultimately have "\<exists>m h d. res = Inl (ProviderClientError m PROVIDER_CAPACITY h d)"
    using facade_contract [OF r] by auto
  then show ?thesis unfolding r by simp
qed

text \<open>Every registered target advertises capabilities and appears among the listed targets.\<close>

lemma registered_targets_listed:
  "dict_keys (list_targets S clients) = dict_keys (backends clients)"
  "\<forall>t \<in> set (dict_keys (backends clients)). dict_get CAPABILITIES t \<noteq> None"
  by (simp_all add: list_targets_def backends_def mk_provider_def CAPABILITIES_def)

end
