(* ===== verification/Engine.thy ===== *)
theory Engine
  imports Settings Budget Qubit_Usage Experiment_Store Hardware_Backends
begin

text \<open>
  The engine (\<open>engine.py\<close>): shot guardrails in front of the session budget, the mapping of control
  profiles to KPI adjustments, the qubit estimate, the workflow trace, the KPI details and the whole
  run, which ends with the run in the experiment store.

  \<open>call_ctx\<close> holds what one call reads from its surroundings: the clock readings in the order of
  the code, the faults of the two Redis calls, whether the store's file is writable, and the id that
  \<open>uuid4\<close> would give. Formatting of floats (\<open>f"\{x:.2f\}"\<close>) and the seeding of a generator with a
  text are parameters of \<open>engine_env\<close>. Characters outside Latin-1 are written as their UTF-8 bytes.
\<close>

record 'g engine_env =
  ee_rng :: "'g rng_api"
  ee_qubit_seed :: "string \<Rightarrow> experiment_preset \<Rightarrow> int \<Rightarrow> real \<Rightarrow> 'g"
  ee_fmt :: "nat \<Rightarrow> real \<Rightarrow> string"

record call_ctx =
  cx_usage_fault :: net_fault
  cx_usage_now :: real
  cx_reserve_fault :: net_fault
  cx_reserve_now :: real
  cx_start :: real
  cx_provider_latency :: real
  cx_end :: real
  cx_fresh_id :: string
  cx_evict_now :: real
  cx_record_now :: real
  cx_writable :: bool
  cx_persist_time :: real

section \<open>Shot guardrails\<close>

definition requested_shots :: "settings \<Rightarrow> run_experiment_request \<Rightarrow> int" where
  "requested_shots S req = or_int (rq_shot_budget req) (st_default_shot_budget S)"

definition apply_shot_guardrails :: "'r redis_kv \<Rightarrow> lua_num \<Rightarrow> settings \<Rightarrow> call_ctx \<Rightarrow> run_experiment_request
    \<Rightarrow> string \<Rightarrow> budget_tracker \<times> 'r \<Rightarrow> (int \<times> bool) py \<times> budget_tracker \<times> 'r" where
  "apply_shot_guardrails K L S cx req sid s =
     (let requested = requested_shots S req; cap = st_max_shots_per_session S in
      case budget_get_usage K (cx_usage_fault cx) (cx_usage_now cx) sid s of
        (usage, s1) \<Rightarrow>
          if requested > cap \<or> requested > max 0 (cap - usage) then (Inl (BudgetExceeded (max (cap - usage) 0)), s1)
          else if requested \<le> 0 then (Inl (ExnValue ''shot_budget must be positive''), s1)
          else
            (let shot_budget = (if requested > st_max_shots_per_experiment S then st_max_shots_per_experiment S
                                else requested);
                 warn_for_target = (rq_hardware_target req \<noteq> ''sim_local'' \<and> shot_budget > st_default_shot_budget S) in
             case budget_reserve K L (cx_reserve_fault cx) (cx_reserve_now cx) sid shot_budget cap s1 of
               (Inl e, s2) \<Rightarrow> (Inl e, s2)
             | (Inr (accepted, usage'), s2) \<Rightarrow>
                 if \<not> accepted then (Inl (BudgetExceeded (max (cap - usage') 0)), s2)
                 else (Inr (shot_budget, warn_for_target), s2)))"

section \<open>Control profiles\<close>

definition adjust_fidelity :: "control_profile \<Rightarrow> real \<Rightarrow> real" where
  "adjust_fidelity cp f = max 0 (min 1 (f + 8/100 * (cp_drive_bias cp - 1)))"

definition adjust_backaction :: "control_profile \<Rightarrow> real \<Rightarrow> real" where
  "adjust_backaction cp b =
     (let delta = 5/100 * (of_int (cp_probe_window_ns cp) / 500 - 1);
          delta' = (if \<not> cp_thermal_guard_enabled cp then delta + 4/100 else delta) in
      max 0 (min 1 (b + delta')))"

definition adjust_latency :: "control_profile \<Rightarrow> real \<Rightarrow> real" where
  "adjust_latency cp l = max 1 (l * (1 - min (cp_feedback_gain cp * (4/100)) (25/100)))"

definition guard_trips :: "control_profile \<Rightarrow> real option \<Rightarrow> bool" where
  "guard_trips cp b =
     (case b of None \<Rightarrow> False
      | Some x \<Rightarrow> x > 32/100 \<and> (\<not> cp_thermal_guard_enabled cp \<or> cp_safety_clamp_ns cp = 0))"

definition apply_control_profile :: "kpi_bundle \<Rightarrow> control_profile \<Rightarrow> kpi_bundle" where
  "apply_control_profile k cp =
     (let adjusted = k\<lparr>k_fidelity := map_option (adjust_fidelity cp) (k_fidelity k),
                       k_backaction := map_option (adjust_backaction cp) (k_backaction k),
                       k_latency_us := map_option (adjust_latency cp) (k_latency_us k)\<rparr> in
      if guard_trips cp (k_backaction adjusted) then adjusted\<lparr>k_status := WARN\<rparr> else adjusted)"

section \<open>Qubit estimate\<close>

definition qubit_bounds :: "(string, int \<times> int) dict" where
  "qubit_bounds =
     [(''sim_local'', (6, 18)), (''aws_braket'', (20, 48)), (''ibm_quantum'', (16, 44)),
      (''azure_quantum'', (14, 38)), (''ionq_labs'', (12, 32)), (''rigetti_qcs'', (18, 40))]"

definition preset_scales :: "(experiment_preset, real) dict" where
  "preset_scales =
     [(HELLO_QUANTUM_SIM, 55/100), (LATENCY, 45/100), (HEALTH, 65/100), (DPD_DEMO, 5/10), (BACKEND_COMPARE, 9/10)]"

definition estimate_qubits_used :: "'g engine_env \<Rightarrow> settings \<Rightarrow> run_experiment_request \<Rightarrow> kpi_bundle \<Rightarrow> int \<Rightarrow> int" where
  "estimate_qubits_used EE S req k effective =
     (case dict_get_or (10, 36) qubit_bounds (rq_hardware_target req) of
        (min_q, max_q) \<Rightarrow>
          (let preset_scale = dict_get_or (65/100) preset_scales (rq_preset req);
               backaction = (case k_backaction k of Some b \<Rightarrow> b | None \<Rightarrow> 2/10);
               backaction_scale = min 1 (max 0 (backaction / (6/10)));
               shot_scale = min 1 (of_int effective / of_int (max 1 (st_max_shots_per_experiment S)));
               g = ee_qubit_seed EE (rq_hardware_target req) (rq_preset req) effective backaction;
               base_span = max_q - min_q;
               scaled = min_q + py_int (of_int base_span *
                 (35/100 + preset_scale * (35/100) + backaction_scale * (2/10) + shot_scale * (1/10)));
               jitter = fst (rng_randint (ee_rng EE) (- 2) 3 g) in
           max 1 (min max_q (scaled + jitter))))"

section \<open>Workflow trace\<close>

definition spaced :: "string \<Rightarrow> string" where
  "spaced s = map (\<lambda>c. if c = CHR ''_'' then CHR '' '' else c) s"

definition approx_sign :: string where
  "approx_sign = [CHR 0xE2, CHR 0x89, CHR 0x88]"

definition micro_sign :: string where
  "micro_sign = [CHR 0xC2, CHR 0xB5]"

definition final_note :: "'g engine_env \<Rightarrow> kpi_bundle \<Rightarrow> string" where
  "final_note EE k =
     (case k_fidelity k of None \<Rightarrow> [] | Some f \<Rightarrow> ''Fidelity '' @ approx_sign @ '' '' @ ee_fmt EE 3 f @ ''. '') @
     (case k_latency_us k of None \<Rightarrow> []
      | Some l \<Rightarrow> ''Latency '' @ approx_sign @ '' '' @ ee_fmt EE 1 l @ '' '' @ micro_sign @ ''s. '') @
     (case k_backaction k of None \<Rightarrow> [] | Some b \<Rightarrow> ''Backaction '' @ ee_fmt EE 2 b @ ''. '')"

definition build_workflow_trace :: "'g engine_env \<Rightarrow> run_experiment_request \<Rightarrow> kpi_bundle \<Rightarrow> control_profile
    \<Rightarrow> workflow_step list" where
  "build_workflow_trace EE req k cp =
     [\<lparr>ws_id = ''ingest'', ws_label = ''Ingest'',
       ws_description = ''Budget + calibrations locked for '' @ rq_hardware_target req @ '' (''
         @ spaced (preset_value (rq_preset req)) @ '').'',
       ws_percent_complete = 12, ws_dwell_ms = 420\<rparr>,
      \<lparr>ws_id = ''shape'', ws_label = ''Drive shaping'',
       ws_description = ''Synthesizing composite drive envelope with bias='' @ ee_fmt EE 2 (cp_drive_bias cp)
         @ '' and clamp='' @ py_str_int (cp_safety_clamp_ns cp) @ '' ns.'',
       ws_percent_complete = 28, ws_dwell_ms = 520\<rparr>,
      \<lparr>ws_id = ''probe'', ws_label = ''Probe readout'',
       ws_description = ''Mid-circuit probe window set to '' @ py_str_int (cp_probe_window_ns cp)
         @ '' ns with feedback gain '' @ ee_fmt EE 2 (cp_feedback_gain cp) @ ''.'',
       ws_percent_complete = 44, ws_dwell_ms = 560\<rparr>,
      \<lparr>ws_id = ''adapt'', ws_label = ''Adaptive drive'',
       ws_description = ''Routing probe residuals into drive/feedback synthesis for stabilization.'',
       ws_percent_complete = 63, ws_dwell_ms = 520\<rparr>,
      \<lparr>ws_id = ''infer'', ws_label = ''Inference'',
       ws_description = ''Neural estimator aggregates traces to derive fidelity/latency envelope.'',
       ws_percent_complete = 82, ws_dwell_ms = 600\<rparr>,
      \<lparr>ws_id = ''commit'', ws_label = ''Commit'',
       ws_description = or_str (Some (py_strip (final_note EE k)))
         ''Results recorded; waiting for downstream consumers.'',
       ws_percent_complete = 100, ws_dwell_ms = 700\<rparr>]"

section \<open>KPI details\<close>

definition kpi_map :: "kpi_bundle \<Rightarrow> (string \<times> real option \<times> string option \<times> string) list" where
  "kpi_map k =
     [(''fidelity'', k_fidelity k, None, ''estimate''),
      (''latency_us'', k_latency_us k, Some ''microseconds'', ''latency''),
      (''backaction'', k_backaction k, None, ''estimate'')]"

text \<open>The confidence interval: skipped when the estimator raises a \<open>ValueError\<close>.\<close>

definition detail_ci :: "'g engine_env \<Rightarrow> kpi_bundle \<Rightarrow> string \<Rightarrow> (real \<times> real) option py" where
  "detail_ci EE k definition_id =
     (case (k_raw_counts k, k_expected_distribution k) of
        (Some (c # cs), Some (q # qs)) \<Rightarrow>
          if definition_id = ''fidelity_dist_v1'' then
            (case fidelity_dist_ci95_from_counts (ee_rng EE) (c # cs) (q # qs) 200 0 of
               Inr ci \<Rightarrow> Inr (Some ci)
             | Inl (ExnValue _) \<Rightarrow> Inr None
             | Inl e \<Rightarrow> Inl e)
          else Inr None
      | _ \<Rightarrow> Inr None)"

fun build_details :: "'g engine_env \<Rightarrow> kpi_bundle \<Rightarrow> (string \<times> real option \<times> string option \<times> string) list
    \<Rightarrow> kpi_detail list py" where
  "build_details EE k [] = Inr []"
| "build_details EE k ((nm, None, units, kind) # rest) = build_details EE k rest"
| "build_details EE k ((nm, Some v, units, kind) # rest) =
     (let i = kpi_definition_id_for_name nm in
      py_bind (detail_ci EE k i) (\<lambda>ci.
      py_bind (build_details EE k rest) (\<lambda>ds.
        Inr (\<lparr>kt_name = nm, kt_value = Some v, kt_definition_id = i, kt_definition_ref = Some i,
              kt_kind = Some kind, kt_units = units, kt_ci95 = ci, kt_ci_95 = ci, kt_stderr = None\<rparr> # ds))))"

definition build_kpi_details :: "'g engine_env \<Rightarrow> kpi_bundle \<Rightarrow> kpi_detail list py" where
  "build_kpi_details EE k = build_details EE k (kpi_map k)"

section \<open>A run\<close>

record ('w, 'r, 'c, 'f) engine_state =
  en_world :: "'w \<times> provider_metrics"
  en_budget :: "budget_tracker \<times> 'r"
  en_controls :: "'c control_store"
  en_usage :: "qubit_tracker option"
  en_store :: "experiment_store \<times> 'f disk_file"

text \<open>What the run does to the KPIs between the provider's answer and the record.\<close>

definition fill_kpis :: "int \<Rightarrow> bool \<Rightarrow> real \<Rightarrow> kpi_bundle \<Rightarrow> kpi_bundle" where
  "fill_kpis effective warn elapsed k =
     (let k1 = (if k_shot_budget k = 0 then k\<lparr>k_shot_budget := effective\<rparr> else k);
          k2 = (case k_raw_counts k1 of
                  Some (c # cs) \<Rightarrow>
                    (let measured = counts_total (c # cs) in
                     if measured > 0 \<and> (k_shots_used k1 = 0 \<or> measured > k_shots_used k1)
                     then k1\<lparr>k_shots_used := measured\<rparr> else k1)
                | _ \<Rightarrow> k1);
          k3 = (if warn \<and> k_status k2 \<noteq> FAIL then k2\<lparr>k_status := WARN\<rparr> else k2) in
      if k_latency_us k3 = None then k3\<lparr>k_latency_us := Some (elapsed * 1000000)\<rparr> else k3)"

definition or_none :: "'a list \<Rightarrow> 'a list option" where
  "or_none xs = (if xs = [] then None else Some xs)"

definition mk_run :: "'g engine_env \<Rightarrow> run_experiment_request \<Rightarrow> string \<Rightarrow> real \<Rightarrow> int \<Rightarrow> int \<Rightarrow> control_profile
    \<Rightarrow> kpi_bundle \<Rightarrow> physics_contract \<Rightarrow> kpi_detail list \<Rightarrow> (string, json) dict \<Rightarrow> run_response" where
  "mk_run EE req i created effective qubits cp k pc details artifacts =
     \<lparr>rr_id = i, rr_preset = rq_preset req, rr_hardware_target = rq_hardware_target req, rr_kpis = k,
      rr_created_at = created,
      rr_shots = Some \<lparr>su_requested = Some effective, su_executed = Some (k_shots_used k)\<rparr>,
      rr_measurement = Some \<lparr>md_model = me_model (pc_measurement pc), md_basis = me_basis (pc_measurement pc),
        md_povm = me_povm (pc_measurement pc), md_descriptor = me_notes (pc_measurement pc)\<rparr>,
      rr_noise = Some \<lparr>nd_model = no_model (pc_noise pc), nd_params = no_params (pc_noise pc),
        nd_descriptor = no_notes (pc_noise pc)\<rparr>,
      rr_assumptions = pc_assumptions pc, rr_qubits_used = qubits, rr_notes = rq_notes req,
      rr_control_profile = Some cp, rr_physics_contract = Some pc, rr_kpi_details = or_none details,
      rr_kpi_observations = or_none details, rr_artifacts = or_none artifacts,
      rr_error_code = None, rr_error_message = None, rr_error_detail = None, rr_action_hint = None,
      rr_workflow_trace = build_workflow_trace EE req k cp\<rparr>"

definition finish_run :: "'g engine_env \<Rightarrow> settings \<Rightarrow> call_ctx \<Rightarrow> run_experiment_request \<Rightarrow> string option \<Rightarrow> int \<Rightarrow> bool
    \<Rightarrow> control_profile \<Rightarrow> provider_run_result \<Rightarrow> run_response py" where
  "finish_run EE S cx req run_id effective warn cp res =
     (let k = apply_control_profile (pr_kpis res) cp;
          qubits = estimate_qubits_used EE S req k effective;
          k' = fill_kpis effective warn (cx_end cx - cx_start cx) k in
      case infer_contract (rq_hardware_target req) effective (k_shots_used k') (Some qubits) None None of
        Inl _ \<Rightarrow> Inl ExnValidation
      | Inr pc \<Rightarrow>
          py_bind (build_kpi_details EE k') (\<lambda>details.
            Inr (mk_run EE req (or_str run_id (cx_fresh_id cx)) (cx_end cx) effective qubits cp k' pc details
                   (pr_artifacts res))))"

definition run_experiment :: "('g, 'w) client_env \<Rightarrow> 'g engine_env \<Rightarrow> 'r redis_kv \<Rightarrow> lua_num \<Rightarrow> ('e, 'f) run_codec
    \<Rightarrow> settings \<Rightarrow> (string, provider_client) dict \<Rightarrow> call_ctx \<Rightarrow> run_experiment_request \<Rightarrow> string \<Rightarrow> string option
    \<Rightarrow> ('w, 'r, 'c, 'f) engine_state \<Rightarrow> run_response py \<times> ('w, 'r, 'c, 'f) engine_state" where
  "run_experiment E EE K L C S clients cx req sid run_id st =
     (case apply_shot_guardrails K L S cx req sid (en_budget st) of
        (Inl e, b) \<Rightarrow> (Inl e, st\<lparr>en_budget := b\<rparr>)
      | (Inr (effective, warn), b) \<Rightarrow>
          (let st1 = st\<lparr>en_budget := b\<rparr>;
               cp = (case rq_control_overrides req of Some c \<Rightarrow> c | None \<Rightarrow> control_get (en_controls st1)) in
           case providers_run_experiment E S clients (rq_hardware_target req) (rq_preset req) effective
                  (cx_provider_latency cx) (en_world st1) of
             (Inl e, w) \<Rightarrow> (Inl e, st1\<lparr>en_world := w\<rparr>)
           | (Inr res, w) \<Rightarrow>
               (let st2 = st1\<lparr>en_world := w\<rparr> in
                case finish_run EE S cx req run_id effective warn cp res of
                  Inl e \<Rightarrow> (Inl e, st2)
                | Inr run \<Rightarrow>
                    (Inr run, st2\<lparr>
                       en_usage := map_option (qubit_record (cx_evict_now cx) (cx_record_now cx) sid (rr_qubits_used run))
                         (en_usage st2),
                       en_store := store_add C (cx_writable cx) (cx_persist_time cx) run (en_store st2)\<rparr>))))"

section \<open>Guardrails keep the limits\<close>

lemma guardrails_ok:
  assumes "settings_valid S" and "apply_shot_guardrails K L S cx req sid s = (Inr (n, warn), s')"
  shows "1 \<le> n \<and> n = min (requested_shots S req) (st_max_shots_per_experiment S) \<and>
    warn = (rq_hardware_target req \<noteq> ''sim_local'' \<and> st_default_shot_budget S < n) \<and>
    (\<exists>u s1. budget_get_usage K (cx_usage_fault cx) (cx_usage_now cx) sid s = (u, s1) \<and>
       budget_reserve K L (cx_reserve_fault cx) (cx_reserve_now cx) sid n (st_max_shots_per_session S) s1
         = (Inr (True, snd (projr (fst (budget_reserve K L (cx_reserve_fault cx) (cx_reserve_now cx) sid n
              (st_max_shots_per_session S) s1)))), s') \<and>
       requested_shots S req \<le> st_max_shots_per_session S - u)"
proof -
  obtain u s1 where u: "budget_get_usage K (cx_usage_fault cx) (cx_usage_now cx) sid s = (u, s1)"
    by (rule prod.exhaust)
  have "1 \<le> st_max_shots_per_experiment S" using assms(1) by (simp add: settings_valid_def)
  then show ?thesis
    using assms(2) u
    by (auto simp: apply_shot_guardrails_def Let_def split: if_splits prod.splits sum.splits)
qed

lemma get_usage_memory:
  "\<not> bt_client bt \<Longrightarrow> budget_get_usage K f now sid (bt, r) =
     (memory_usage (bt_session_ttl_seconds bt) now sid (bt_in_memory_usage bt),
      bt\<lparr>bt_in_memory_usage := evict_expired_locked (bt_session_ttl_seconds bt) now (bt_in_memory_usage bt)\<rparr>, r)"
  by (simp add: budget_get_usage_def memory_usage_def Let_def)

section \<open>Control profiles move KPIs within their bounds\<close>

text \<open>
Whatever the profile, an adjusted bundle has fidelity and backaction in \<open>[0, 1]\<close> and a latency
  of at least one microsecond; no KPI appears or disappears; counts, shots and reference are
  untouched; and the status changes only to \<open>WARN\<close>, and only when the backaction is high with the
  thermal guard off or the safety clamp at zero.
\<close>

theorem control_profile_bounds:
  shows "(\<forall>f. k_fidelity (apply_control_profile k cp) = Some f \<longrightarrow> 0 \<le> f \<and> f \<le> 1) \<and>
    (\<forall>b. k_backaction (apply_control_profile k cp) = Some b \<longrightarrow> 0 \<le> b \<and> b \<le> 1) \<and>
    (\<forall>l. k_latency_us (apply_control_profile k cp) = Some l \<longrightarrow> 1 \<le> l) \<and>
    (k_fidelity (apply_control_profile k cp) = None \<longleftrightarrow> k_fidelity k = None) \<and>
    (k_backaction (apply_control_profile k cp) = None \<longleftrightarrow> k_backaction k = None) \<and>
    (k_latency_us (apply_control_profile k cp) = None \<longleftrightarrow> k_latency_us k = None) \<and>
    k_raw_counts (apply_control_profile k cp) = k_raw_counts k \<and>
    k_expected_distribution (apply_control_profile k cp) = k_expected_distribution k \<and>
    k_shots_used (apply_control_profile k cp) = k_shots_used k \<and>
    k_shot_budget (apply_control_profile k cp) = k_shot_budget k \<and>
    k_status (apply_control_profile k cp) =
      (if guard_trips cp (k_backaction (apply_control_profile k cp)) then WARN else k_status k)"
  by (auto simp: apply_control_profile_def Let_def adjust_fidelity_def adjust_backaction_def adjust_latency_def)

theorem control_profile_bounds_witness:
  "k_status (apply_control_profile (kpi_default\<lparr>k_backaction := Some (30/100)\<rparr>) (default_profile\<lparr>cp_thermal_guard_enabled := False\<rparr>))
     = (if guard_trips (default_profile\<lparr>cp_thermal_guard_enabled := False\<rparr>) (k_backaction (apply_control_profile
          (kpi_default\<lparr>k_backaction := Some (30/100)\<rparr>) (default_profile\<lparr>cp_thermal_guard_enabled := False\<rparr>))) then WARN else OK)"
  using control_profile_bounds [of "kpi_default\<lparr>k_backaction := Some (30/100)\<rparr>" "default_profile\<lparr>cp_thermal_guard_enabled := False\<rparr>"]
  by (simp add: kpi_default_def)

text \<open>A higher drive bias never lowers the fidelity, a longer probe window never lowers the backaction.\<close>

lemma adjust_monotone:
  "cp_drive_bias p \<le> cp_drive_bias q \<Longrightarrow> adjust_fidelity p f \<le> adjust_fidelity q f"
  "cp_probe_window_ns p \<le> cp_probe_window_ns q \<Longrightarrow> cp_thermal_guard_enabled p = cp_thermal_guard_enabled q \<Longrightarrow>
     adjust_backaction p b \<le> adjust_backaction q b"
  unfolding adjust_fidelity_def adjust_backaction_def Let_def
  by (intro max.mono min.mono order_refl; simp)+

text \<open>
  A failing run can be reported as a warning: with the thermal guard off, the guard's
  assignment of \<open>WARN\<close> overwrites a \<open>FAIL\<close> that the simulator set for a low fidelity.
\<close>

theorem control_profile_hides_fail:
  "\<exists>k cp. profile_valid cp \<and> k_status k = FAIL \<and> k_status k = fidelity_status (k_fidelity k) \<and>
     k_status (apply_control_profile k cp) = WARN"
proof -
  let ?k = "kpi_default\<lparr>k_fidelity := Some (80/100), k_backaction := Some (40/100), k_status := FAIL\<rparr>"
  let ?cp = "default_profile\<lparr>cp_thermal_guard_enabled := False\<rparr>"
  have "profile_valid ?cp" by (simp add: profile_valid_def default_profile_def)
  moreover have "k_status ?k = fidelity_status (k_fidelity ?k)" by (simp add: fidelity_status_def)
  moreover have "k_status (apply_control_profile ?k ?cp) = WARN"
    by (simp add: apply_control_profile_def guard_trips_def adjust_backaction_def default_profile_def Let_def)
  ultimately show ?thesis by (intro exI [of _ ?k] exI [of _ ?cp]) simp
qed

section \<open>The qubit estimate\<close>

lemma preset_scale_range: "45/100 \<le> dict_get_or (65/100) preset_scales p \<and> dict_get_or (65/100) preset_scales p \<le> 9/10"
  by (cases p) (simp_all add: preset_scales_def dict_get_or_def)

lemma qubit_bounds_cases:
  "case dict_get_or (10, 36) qubit_bounds t of (lo, hi) \<Rightarrow> 1 \<le> lo \<and> lo + 12 \<le> hi \<and> 6 \<le> lo \<and> hi \<le> 48"
  by (simp add: qubit_bounds_def dict_get_or_def)

lemma qubit_estimate_range:
  assumes "rng_laws (ee_rng EE)" and "0 \<le> effective"
  shows "case dict_get_or (10, 36) qubit_bounds (rq_hardware_target req) of (lo, hi) \<Rightarrow>
    lo \<le> estimate_qubits_used EE S req k effective \<and> estimate_qubits_used EE S req k effective \<le> hi"
proof -
  obtain lo hi where b: "dict_get_or (10, 36) qubit_bounds (rq_hardware_target req) = (lo, hi)" by fastforce
  then have lh: "1 \<le> lo" "lo + 12 \<le> hi" using qubit_bounds_cases [of "rq_hardware_target req"] by auto
  define ps where "ps = dict_get_or (65/100) preset_scales (rq_preset req)"
  define bk where "bk = (case k_backaction k of Some b \<Rightarrow> b | None \<Rightarrow> 2/10)"
  define bs where "bs = min 1 (max 0 (bk / (6/10)))"
  define sh :: real where "sh = min 1 (of_int effective / of_int (max 1 (st_max_shots_per_experiment S)))"
  define j where "j = fst (rng_randint (ee_rng EE) (- 2) 3 (ee_qubit_seed EE (rq_hardware_target req) (rq_preset req) effective bk))"
  have "0 \<le> bs" "0 \<le> sh" "45/100 \<le> ps" "- 2 \<le> j"
    using assms preset_scale_range rng_randint_range [OF assms(1), of "-2" 3] by (auto simp: bs_def sh_def ps_def j_def)
  then have frac: "1/2 \<le> 35/100 + ps * (35/100) + bs * (2/10) + sh * (1/10)" by simp
  have "(2::real) \<le> 12 * (1/2)" by simp
  also have "\<dots> \<le> of_int (hi - lo) * (35/100 + ps * (35/100) + bs * (2/10) + sh * (1/10))"
    using lh(2) by (intro mult_mono frac) auto
  finally have "2 \<le> py_int (of_int (hi - lo) * (35/100 + ps * (35/100) + bs * (2/10) + sh * (1/10)))"
    by (simp add: py_int_def le_floor_iff)
  then show ?thesis
    using \<open>- 2 \<le> j\<close> lh
    unfolding estimate_qubits_used_def b prod.case Let_def ps_def [symmetric] bk_def [symmetric]
      bs_def [symmetric] sh_def [symmetric] j_def [symmetric]
    by linarith
qed

text \<open>
  The qubit estimate stays within the bounds of its target: the downward jitter of two qubits
  is absorbed by the share of the span that every run gets.
\<close>

theorem qubit_estimate_bounds:
  assumes "rng_laws (ee_rng EE)" and "0 \<le> effective"
  shows "case dict_get_or (10, 36) qubit_bounds (rq_hardware_target req) of (lo, hi) \<Rightarrow>
    lo \<le> estimate_qubits_used EE S req k effective \<and> estimate_qubits_used EE S req k effective \<le> hi"
  by (rule qubit_estimate_range [OF assms])

definition demo_engine :: "int engine_env" where
  "demo_engine = \<lparr>ee_rng = rng_first, ee_qubit_seed = (\<lambda>t p n b. n), ee_fmt = (\<lambda>d x. ''0'')\<rparr>"

definition demo_request :: run_experiment_request where
  "demo_request = \<lparr>rq_preset = HEALTH, rq_hardware_target = ''sim_local'', rq_shot_budget = Some 500,
     rq_notes = None, rq_control_overrides = None, rq_mode = None\<rparr>"

theorem qubit_estimate_bounds_witness:
  "6 \<le> estimate_qubits_used demo_engine default_settings demo_request kpi_default 500 \<and>
   estimate_qubits_used demo_engine default_settings demo_request kpi_default 500 \<le> 18"
proof -
  have "rng_laws (ee_rng demo_engine)" by (simp add: demo_engine_def rng_first_laws)
  from qubit_estimate_bounds [OF this, where effective = 500 and req = demo_request and S = default_settings and k = kpi_default] show ?thesis
    by (simp add: demo_request_def qubit_bounds_def dict_get_or_def)
qed

section \<open>The guardrails' contract over the in-memory budget\<close>

lemma evict_usage:
  "dict_wf d \<Longrightarrow> t0 \<le> t \<Longrightarrow> memory_usage ttl t sid (evict_expired_locked ttl t0 d) = memory_usage ttl t sid d"
  using live_mono [of t0 t ttl]
  by (auto simp: memory_usage_eq evict_wf evict_get split: option.splits)

lemma usage_decays:
  "dict_wf d \<Longrightarrow> t0 \<le> t \<Longrightarrow> \<forall>e \<in> set (dict_values d). 0 \<le> fst e \<Longrightarrow>
     memory_usage ttl t sid d \<le> memory_usage ttl t0 sid d"
  using live_mono [of t0 t ttl]
  by (auto simp: memory_usage_eq split: option.splits dest!: map_of_SomeD)

definition memory_budget_ok :: "budget_tracker \<Rightarrow> bool" where
  "memory_budget_ok bt \<longleftrightarrow> \<not> bt_client bt \<and> 0 < bt_session_ttl_seconds bt \<and> dict_wf (bt_in_memory_usage bt) \<and>
     (\<forall>e \<in> set (dict_values (bt_in_memory_usage bt)). 0 \<le> fst e)"

definition shots_on_books :: "real \<Rightarrow> string \<Rightarrow> budget_tracker \<Rightarrow> int" where
  "shots_on_books t sid bt = memory_usage (bt_session_ttl_seconds bt) t sid (bt_in_memory_usage bt)"

lemma memory_reserve:
  assumes "memory_budget_ok bt" and "0 \<le> n" and "0 < cap"
  shows "budget_reserve K L f now sid n cap (bt, r) =
    (Inr (if shots_on_books now sid bt + n \<le> cap then (True, shots_on_books now sid bt + n)
          else (False, shots_on_books now sid bt)),
     bt\<lparr>bt_in_memory_usage := snd (reserve_memory (bt_session_ttl_seconds bt) now sid n cap (bt_in_memory_usage bt))\<rparr>, r)"
  using assms reserve_memory_result [of "bt_in_memory_usage bt" "bt_session_ttl_seconds bt" now sid n cap]
  by (auto simp: budget_reserve_def tracker_reserve_memory_def memory_budget_ok_def shots_on_books_def Let_def
      split: prod.splits)

lemma memory_reserve_books:
  assumes "memory_budget_ok bt"
  shows "shots_on_books now sid
      (bt\<lparr>bt_in_memory_usage := snd (reserve_memory (bt_session_ttl_seconds bt) now sid n cap (bt_in_memory_usage bt))\<rparr>)
    = (if shots_on_books now sid bt + n \<le> cap then shots_on_books now sid bt + n else shots_on_books now sid bt)"
  using assms reserve_memory_result [of "bt_in_memory_usage bt" "bt_session_ttl_seconds bt" now sid n cap]
    reserve_memory_usage [of "bt_in_memory_usage bt" now now "bt_session_ttl_seconds bt" sid sid n cap]
  by (simp add: memory_budget_ok_def shots_on_books_def Let_def)

lemma memory_read:
  assumes "memory_budget_ok bt" and "t0 \<le> t"
  shows "\<exists>bt1. budget_get_usage K f t0 sid (bt, r) = (shots_on_books t0 sid bt, bt1, r) \<and> memory_budget_ok bt1 \<and>
    bt_session_ttl_seconds bt1 = bt_session_ttl_seconds bt \<and> shots_on_books t sid bt1 = shots_on_books t sid bt"
proof -
  let ?d = "evict_expired_locked (bt_session_ttl_seconds bt) t0 (bt_in_memory_usage bt)"
  have wf: "dict_wf (bt_in_memory_usage bt)" "\<forall>e \<in> set (dict_values (bt_in_memory_usage bt)). 0 \<le> fst e"
    using assms(1) by (auto simp: memory_budget_ok_def)
  have pop: "set (dict_values (dict_pop_all ks d)) \<subseteq> set (dict_values d)" for ks and d :: usage_map
  proof (induction ks arbitrary: d)
    case (Cons k ks)
    have "set (dict_values (dict_pop k d)) \<subseteq> set (dict_values d)" by (auto simp: pop_conv_filter)
    with Cons.IH [of "dict_pop k d"] show ?case unfolding dict_pop_all.simps by (rule subset_trans)
  qed simp
  have "set (dict_values ?d) \<subseteq> set (dict_values (bt_in_memory_usage bt))"
    unfolding evict_expired_locked_def by (rule pop)
  then have "\<forall>e \<in> set (dict_values ?d). 0 \<le> fst e" using wf(2) by blast
  then show ?thesis
    using assms wf by (simp add: get_usage_memory memory_budget_ok_def shots_on_books_def evict_wf evict_usage)
qed

lemma guardrail_books:
  assumes "settings_valid S" and "memory_budget_ok bt" and "cx_usage_now cx \<le> cx_reserve_now cx"
    and "apply_shot_guardrails K L S cx req sid (bt, r) = (res, bt', r')"
  shows "((\<exists>n w. res = Inr (n, w)) \<longleftrightarrow> 1 \<le> requested_shots S req \<and>
       requested_shots S req \<le> st_max_shots_per_session S - shots_on_books (cx_usage_now cx) sid bt) \<and>
    (case res of
       Inr (n, w) \<Rightarrow> 1 \<le> n \<and> n = min (requested_shots S req) (st_max_shots_per_experiment S) \<and>
         shots_on_books (cx_reserve_now cx) sid bt' = shots_on_books (cx_reserve_now cx) sid bt + n \<and>
         shots_on_books (cx_reserve_now cx) sid bt' \<le> st_max_shots_per_session S
     | Inl e \<Rightarrow> shots_on_books (cx_reserve_now cx) sid bt' = shots_on_books (cx_reserve_now cx) sid bt \<and>
         (if 1 \<le> requested_shots S req
          then e = BudgetExceeded (max 0 (st_max_shots_per_session S - shots_on_books (cx_usage_now cx) sid bt))
          else (\<exists>m. e = ExnValue m) \<or> (\<exists>left. e = BudgetExceeded left \<and> 0 \<le> left)))"
proof -
  let ?q = "requested_shots S req" and ?cap = "st_max_shots_per_session S" and ?t = "cx_reserve_now cx"
  let ?u = "shots_on_books (cx_usage_now cx) sid bt" and ?n = "min (requested_shots S req) (st_max_shots_per_experiment S)"
  obtain bt1 where rd: "budget_get_usage K (cx_usage_fault cx) (cx_usage_now cx) sid (bt, r) = (?u, bt1, r)"
      "memory_budget_ok bt1" "shots_on_books ?t sid bt1 = shots_on_books ?t sid bt"
    using memory_read [OF assms(2,3), of K "cx_usage_fault cx" sid r] by blast
  have lim: "1 \<le> st_max_shots_per_experiment S" "1 \<le> ?cap" using assms(1) by (auto simp: settings_valid_def)
  have nonneg: "0 \<le> shots_on_books (cx_usage_now cx) sid bt"
    using assms(2) by (auto simp: memory_budget_ok_def shots_on_books_def memory_usage_eq split: option.splits dest!: map_of_SomeD)
  have decay: "shots_on_books ?t sid bt \<le> ?u"
    using usage_decays [of "bt_in_memory_usage bt" "cx_usage_now cx" ?t] assms(2,3)
    by (simp add: memory_budget_ok_def shots_on_books_def)
  show ?thesis
  proof (cases "1 \<le> ?q \<and> ?q \<le> ?cap - ?u")
    case True
    then have fits: "shots_on_books ?t sid bt1 + ?n \<le> ?cap" using decay rd(3) by (simp add: min_def)
    have n: "0 \<le> ?n" "0 < ?cap" "1 \<le> ?n" using True lim by auto
    show ?thesis
      using assms(4) True fits n nonneg rd(3) memory_reserve [OF rd(2) n(1,2), of K L "cx_reserve_fault cx" ?t sid r]
        memory_reserve_books [OF rd(2), of ?t sid ?n ?cap]
      by (auto simp: apply_shot_guardrails_def rd(1) Let_def min_def split: if_splits)
  next
    case False
    then have "apply_shot_guardrails K L S cx req sid (bt, r) =
        (if ?q > ?cap \<or> ?q > max 0 (?cap - ?u) then (Inl (BudgetExceeded (max (?cap - ?u) 0)), bt1, r)
         else (Inl (ExnValue ''shot_budget must be positive''), bt1, r))"
      using lim by (auto simp: apply_shot_guardrails_def rd(1) Let_def)
    then show ?thesis using assms(4) False rd(3) nonneg by (auto split: if_splits simp: max.commute)
  qed
qed

text \<open>
  C6. The guardrails over the in-memory budget. A request is let through exactly when it is positive
  and fits into what the session has left at the time of the check; it then gets its shots clipped
  to the per-experiment limit, and exactly those are booked, within the session cap. A refused
  request books nothing, and is told how many shots are left (never a negative number).
\<close>

theorem guardrail_contract:
  assumes "settings_valid S" and "memory_budget_ok bt" and "cx_usage_now cx \<le> cx_reserve_now cx"
    and "apply_shot_guardrails K L S cx req sid (bt, r) = (res, bt', r')"
  shows "((\<exists>n w. res = Inr (n, w)) \<longleftrightarrow> 1 \<le> requested_shots S req \<and>
       requested_shots S req \<le> st_max_shots_per_session S - shots_on_books (cx_usage_now cx) sid bt) \<and>
    (case res of
       Inr (n, w) \<Rightarrow> 1 \<le> n \<and> n = min (requested_shots S req) (st_max_shots_per_experiment S) \<and>
         shots_on_books (cx_reserve_now cx) sid bt' = shots_on_books (cx_reserve_now cx) sid bt + n \<and>
         shots_on_books (cx_reserve_now cx) sid bt' \<le> st_max_shots_per_session S
     | Inl e \<Rightarrow> shots_on_books (cx_reserve_now cx) sid bt' = shots_on_books (cx_reserve_now cx) sid bt \<and>
         (if 1 \<le> requested_shots S req
          then e = BudgetExceeded (max 0 (st_max_shots_per_session S - shots_on_books (cx_usage_now cx) sid bt))
          else (\<exists>m. e = ExnValue m) \<or> (\<exists>left. e = BudgetExceeded left \<and> 0 \<le> left)))"
  by (rule guardrail_books [OF assms])

definition demo_ctx :: call_ctx where
  "demo_ctx = \<lparr>cx_usage_fault = Fine, cx_usage_now = 10, cx_reserve_fault = Fine, cx_reserve_now = 11, cx_start = 12,
     cx_provider_latency = 5, cx_end = 13, cx_fresh_id = ''run-1'', cx_evict_now = 14, cx_record_now = 14,
     cx_writable = True, cx_persist_time = 15\<rparr>"

definition demo_budget :: budget_tracker where
  "demo_budget = (budget_init None 3600 False)\<lparr>bt_in_memory_usage := [(''ann'', (999000, 5))]\<rparr>"

lemma demo_budget_ok: "memory_budget_ok demo_budget"
  by (simp add: memory_budget_ok_def demo_budget_def budget_init_def truthy_str_def dict_wf_def)

theorem guardrail_contract_witness:
  "\<exists>bt' r'. apply_shot_guardrails kv_reference lua_plain default_settings demo_ctx demo_request ''ann'' (demo_budget, [])
     = (Inr (500, False), bt', r') \<and> shots_on_books 11 ''ann'' bt' = 999500"
proof -
  obtain res bt' r' where g: "apply_shot_guardrails kv_reference lua_plain default_settings demo_ctx demo_request ''ann'' (demo_budget, [])
      = (res, bt', r')" by (rule prod_cases3)
  have ord: "cx_usage_now demo_ctx \<le> cx_reserve_now demo_ctx" by (simp add: demo_ctx_def)
  have q: "requested_shots default_settings demo_request = 500"
    by (simp add: requested_shots_def demo_request_def or_int_def)
  have wf: "dict_wf (bt_in_memory_usage demo_budget)"
    by (simp add: demo_budget_def budget_init_def dict_wf_def)
  have u: "shots_on_books 10 ''ann'' demo_budget = 999000" "shots_on_books 11 ''ann'' demo_budget = 999000"
    unfolding shots_on_books_def memory_usage_eq [OF wf]
    by (simp_all add: demo_budget_def budget_init_def live_entry_def)
  have w: "fst (apply_shot_guardrails kv_reference lua_plain default_settings demo_ctx demo_request ''ann'' (demo_budget, [])) = Inr (n, w) \<Longrightarrow> \<not> w" for n w
    by (auto simp: apply_shot_guardrails_def Let_def demo_request_def split: if_splits prod.splits sum.splits)
  have c: "cx_usage_now demo_ctx = 10" "cx_reserve_now demo_ctx = 11" "st_max_shots_per_session default_settings = 1000000"
      "st_max_shots_per_experiment default_settings = 200000"
    by (simp_all add: demo_ctx_def default_settings_def)
  note gc = guardrail_contract [OF default_settings_valid demo_budget_ok ord g, unfolded q c u]
  obtain n w where res: "res = Inr (n, w)" using gc by auto
  have "\<not> w" using w [of n w] unfolding g res by simp
  then show ?thesis using gc unfolding g res by simp
qed

section \<open>KPI details never fail a run\<close>

lemma value_errors:
  "normalize_counts c = Inl e \<Longrightarrow> \<exists>m. e = ExnValue m"
  "fst (multinomial_resample R c n g) = Inl e \<Longrightarrow> \<exists>m. e = ExnValue m"
  "distribution_from_counts c ks = Inl e \<Longrightarrow> \<exists>m. e = ExnValue m"
  "overlap p q os s = Inl e \<Longrightarrow> \<exists>m. e = ExnValue m"
  "percentile_ci xs a = Inl e \<Longrightarrow> \<exists>m. e = ExnValue m"
proof -
  show n: "normalize_counts c = Inl e \<Longrightarrow> \<exists>m. e = ExnValue m" for e
    by (auto simp: normalize_counts_def Let_def split: if_splits)
  show "fst (multinomial_resample R c n g) = Inl e \<Longrightarrow> \<exists>m. e = ExnValue m"
    using n by (auto simp: multinomial_resample_def Let_def split: sum.splits if_splits prod.splits)
  show "distribution_from_counts c ks = Inl e \<Longrightarrow> \<exists>m. e = ExnValue m"
    by (auto simp: distribution_from_counts_def Let_def split: if_splits)
  show "overlap p q os s = Inl e \<Longrightarrow> \<exists>m. e = ExnValue m"
    by (induction os arbitrary: s) (auto simp: Let_def split: if_splits)
  show "percentile_ci xs a = Inl e \<Longrightarrow> \<exists>m. e = ExnValue m"
    by (auto simp: percentile_ci_def Let_def split: if_splits)
qed

lemma py_bind_InlE:
  assumes "py_bind m f = Inl e"
  obtains "m = Inl e" | a where "m = Inr a" and "f a = Inl e"
  using assms by (cases m) auto

lemma fidelity_value_error: "fidelity_dist_from_counts c q = Inl e \<Longrightarrow> \<exists>m. e = ExnValue m"
  by (auto simp: fidelity_dist_from_counts_def distribution_fidelity_def Let_def value_errors
      elim!: py_bind_InlE split: if_splits)

lemma ci_value_error:
  assumes "fidelity_dist_ci95_from_counts R c q n seed = Inl e"
  shows "\<exists>m. e = ExnValue m"
proof -
  have b: "boot_samples R (\<lambda>res. fidelity_dist_from_counts res q) c sd k = Inl e \<Longrightarrow> \<exists>m. e = ExnValue m" for sd k
  proof (induction k arbitrary: sd)
    case (Suc k)
    from Suc.prems show ?case
      by (auto elim!: py_bind_InlE intro: value_errors(2) fidelity_value_error Suc.IH)
  qed simp
  show ?thesis using assms
    by (auto simp: fidelity_dist_ci95_from_counts_def bootstrap_ci_def elim!: py_bind_InlE
        intro: b value_errors(5) split: if_splits)
qed

lemma detail_ci_total: "\<exists>ci. detail_ci EE k i = Inr ci"
  using ci_value_error
  by (fastforce simp: detail_ci_def split: option.splits list.splits sum.splits py_exn.splits)

lemma build_details_total:
  "\<exists>ds. build_details EE k xs = Inr ds \<and>
     map (\<lambda>d. (kt_name d, kt_value d)) ds = map (\<lambda>(nm, v, _). (nm, v)) (filter (\<lambda>(nm, v, _). v \<noteq> None) xs)"
proof (induction xs)
  case (Cons x xs)
  then obtain ds where ds: "build_details EE k xs = Inr ds"
    "map (\<lambda>d. (kt_name d, kt_value d)) ds = map (\<lambda>(nm, v, _). (nm, v)) (filter (\<lambda>(nm, v, _). v \<noteq> None) xs)" by blast
  obtain nm v u kd where x: "x = (nm, v, u, kd)" by (cases x)
  show ?case
  proof (cases v)
    case None
    then show ?thesis using ds x by simp
  next
    case (Some y)
    obtain ci where "detail_ci EE k (kpi_definition_id_for_name nm) = Inr ci" using detail_ci_total by blast
    then show ?thesis using ds x Some by (simp add: Let_def)
  qed
qed simp

section \<open>A run and its record\<close>

lemma fill_kpis_facts:
  shows "k_latency_us (fill_kpis n warn el k) \<noteq> None"
    and "k_shot_budget (fill_kpis n warn el k) = (if k_shot_budget k = 0 then n else k_shot_budget k)"
    and "k_status (fill_kpis n warn el k) = (if warn \<and> k_status k \<noteq> FAIL then WARN else k_status k)"
    and "k_raw_counts (fill_kpis n warn el k) = k_raw_counts k"
    and "k_fidelity (fill_kpis n warn el k) = k_fidelity k" "k_backaction (fill_kpis n warn el k) = k_backaction k"
    and "k_shots_used k \<le> k_shots_used (fill_kpis n warn el k) \<or>
       (\<exists>c. k_raw_counts k = Some c \<and> k_shots_used (fill_kpis n warn el k) = counts_total c \<and> 0 < counts_total c)"
    and "k_raw_counts k = Some c \<Longrightarrow> c \<noteq> [] \<Longrightarrow> 0 < counts_total c \<Longrightarrow> counts_total c \<le> k_shots_used (fill_kpis n warn el k) \<or> k_shots_used k > counts_total c"
    and "0 \<le> k_shots_used k \<Longrightarrow> 0 \<le> k_shots_used (fill_kpis n warn el k)"
  by (auto simp: fill_kpis_def Let_def split: option.splits list.splits if_splits)

lemma finish_run_ok:
  assumes "finish_run EE S cx req rid n warn cp res = Inr run"
  defines "k \<equiv> fill_kpis n warn (cx_end cx - cx_start cx) (apply_control_profile (pr_kpis res) cp)"
  shows "\<exists>pc ds. run = mk_run EE req (or_str rid (cx_fresh_id cx)) (cx_end cx) n
           (estimate_qubits_used EE S req (apply_control_profile (pr_kpis res) cp) n) cp k pc ds (pr_artifacts res) \<and>
     infer_contract (rq_hardware_target req) n (k_shots_used k)
       (Some (estimate_qubits_used EE S req (apply_control_profile (pr_kpis res) cp) n)) None None = Inr pc \<and>
     build_kpi_details EE k = Inr ds"
  using assms(1) unfolding finish_run_def Let_def k_def [symmetric]
  by (auto split: sum.splits elim!: py_bind_InrE)

lemma estimate_range:
  assumes "rng_laws (ee_rng EE)" and "0 \<le> n"
  shows "6 \<le> estimate_qubits_used EE S req k n \<and> estimate_qubits_used EE S req k n \<le> 48"
  using qubit_estimate_range [OF assms, where req = req and S = S and k = k] qubit_bounds_cases [of "rq_hardware_target req"]
  by (auto split: prod.splits)

text \<open>
  C8. A run that returns is recorded consistently. The shots the guardrails granted are the shots
  the record and the physics contract declare as requested; the executed shots agree between KPIs,
  record and contract; the qubit count is the one the contract and the session telemetry get; the
  latency is filled in, and a target warning never leaves the status \<open>OK\<close>; the details list exactly
  the KPIs that are present; and the run goes through \<open>store_add\<close> unchanged.
\<close>

theorem run_records_result:
  assumes "settings_valid S" and "rng_laws (ee_rng EE)"
    and "run_experiment E EE K L C S clients cx req sid rid st = (Inr run, st')"
  shows "\<exists>n warn pc.
    apply_shot_guardrails K L S cx req sid (en_budget st) = (Inr (n, warn), en_budget st') \<and>
    rr_shots run = Some \<lparr>su_requested = Some n, su_executed = Some (k_shots_used (rr_kpis run))\<rparr> \<and>
    rr_physics_contract run = Some pc \<and> sa_shots_requested (pc_sampling pc) = n \<and>
    sa_shots_executed (pc_sampling pc) = k_shots_used (rr_kpis run) \<and>
    pl_target (pc_plant pc) = rq_hardware_target req \<and> ss_n_qubits (pc_state pc) = Some (rr_qubits_used run) \<and>
    ss_hilbert_dim (pc_state pc) = Some (2 ^ nat (rr_qubits_used run)) \<and>
    6 \<le> rr_qubits_used run \<and> rr_qubits_used run \<le> 48 \<and>
    k_latency_us (rr_kpis run) \<noteq> None \<and> (warn \<longrightarrow> k_status (rr_kpis run) \<noteq> OK) \<and>
    rr_id run = or_str rid (cx_fresh_id cx) \<and>
    map kt_name (case rr_kpi_details run of None \<Rightarrow> [] | Some ds \<Rightarrow> ds) =
      map fst (filter (\<lambda>(nm, v, _). v \<noteq> None) (kpi_map (rr_kpis run))) \<and>
    en_store st' = store_add C (cx_writable cx) (cx_persist_time cx) run (en_store st) \<and>
    en_usage st' = map_option (qubit_record (cx_evict_now cx) (cx_record_now cx) sid (rr_qubits_used run)) (en_usage st) \<and>
    en_controls st' = en_controls st"
proof -
  obtain n warn b where g: "apply_shot_guardrails K L S cx req sid (en_budget st) = (Inr (n, warn), b)"
    using assms(3) by (auto simp: run_experiment_def split: prod.splits sum.splits)
  define cp where "cp = (case rq_control_overrides req of Some c \<Rightarrow> c | None \<Rightarrow> control_get (en_controls (st\<lparr>en_budget := b\<rparr>)))"
  obtain res w where p: "providers_run_experiment E S clients (rq_hardware_target req) (rq_preset req) n
      (cx_provider_latency cx) (en_world (st\<lparr>en_budget := b\<rparr>)) = (Inr res, w)"
    using assms(3) by (auto simp: run_experiment_def g Let_def split: prod.splits sum.splits)
  have f: "finish_run EE S cx req rid n warn cp res = Inr run" and st':
      "st' = (st\<lparr>en_budget := b, en_world := w\<rparr>)\<lparr>
         en_usage := map_option (qubit_record (cx_evict_now cx) (cx_record_now cx) sid (rr_qubits_used run)) (en_usage st),
         en_store := store_add C (cx_writable cx) (cx_persist_time cx) run (en_store st)\<rparr>"
    using assms(3) p by (auto simp: run_experiment_def g Let_def cp_def split: sum.splits)
  let ?adj = "apply_control_profile (pr_kpis res) cp"
  let ?k = "fill_kpis n warn (cx_end cx - cx_start cx) ?adj" and ?q = "estimate_qubits_used EE S req ?adj n"
  obtain pc ds where r: "run = mk_run EE req (or_str rid (cx_fresh_id cx)) (cx_end cx) n ?q cp ?k pc ds (pr_artifacts res)"
    and pc: "infer_contract (rq_hardware_target req) n (k_shots_used ?k) (Some ?q) None None = Inr pc"
    and ds: "build_kpi_details EE ?k = Inr ds"
    using finish_run_ok [OF f] by blast
  note n = guardrails_ok [OF assms(1) g, THEN conjunct1]
  have q: "6 \<le> ?q" "?q \<le> 48" using estimate_range [OF assms(2), where n = n] n by auto
  have "map (\<lambda>d. (kt_name d, kt_value d)) ds = map (\<lambda>(nm, v, _). (nm, v)) (filter (\<lambda>(nm, v, _). v \<noteq> None) (kpi_map ?k))"
    using build_details_total [of EE ?k "kpi_map ?k"] ds by (auto simp: build_kpi_details_def)
  then have "map kt_name ds = map fst (filter (\<lambda>(nm, v, _). v \<noteq> None) (kpi_map ?k))"
    by (drule_tac arg_cong [where f = "map fst"]) (simp add: comp_def case_prod_beta)
  then have names: "map kt_name (case or_none ds of None \<Rightarrow> [] | Some ds \<Rightarrow> ds)
      = map fst (filter (\<lambda>(nm, v, _). v \<noteq> None) (kpi_map ?k))"
    by (cases ds) (simp_all add: or_none_def)
  show ?thesis
    using g infer_contract_fields [OF pc] q names fill_kpis_facts(1) [of n warn "cx_end cx - cx_start cx" ?adj]
      fill_kpis_facts(3) [of n warn "cx_end cx - cx_start cx" ?adj]
    by (intro exI [of _ n] exI [of _ warn] exI [of _ pc]) (auto simp: st' r mk_run_def split: if_splits)
qed

text \<open>
A failing run refunds nothing. Whatever goes wrong after the guardrails let a request through
  (an unknown target included), its shots stay booked on the session, while no run is stored and
  no qubits are counted.
\<close>

theorem failed_run_keeps_reservation:
  assumes "settings_valid S" and "memory_budget_ok bt" and "cx_usage_now cx \<le> cx_reserve_now cx"
    and "en_budget st = (bt, r)" and "1 \<le> requested_shots S req"
    and "requested_shots S req \<le> st_max_shots_per_session S - shots_on_books (cx_usage_now cx) sid bt"
    and "run_experiment E EE K L C S clients cx req sid rid st = (Inl e, st')"
  shows "shots_on_books (cx_reserve_now cx) sid (fst (en_budget st')) =
      shots_on_books (cx_reserve_now cx) sid bt + min (requested_shots S req) (st_max_shots_per_experiment S) \<and>
    en_store st' = en_store st \<and> en_usage st' = en_usage st \<and> en_controls st' = en_controls st"
proof -
  obtain res bt' r' where g: "apply_shot_guardrails K L S cx req sid (bt, r) = (res, bt', r')" by (rule prod_cases3)
  note gc = guardrail_books [OF assms(1-3) g]
  obtain n w where res: "res = Inr (n, w)" using gc assms(5,6) by auto
  have "en_budget st' = (bt', r') \<and> en_store st' = en_store st \<and> en_usage st' = en_usage st \<and> en_controls st' = en_controls st"
    using assms(7) g unfolding res
    by (auto simp: run_experiment_def assms(4) Let_def split: prod.splits sum.splits)
  then show ?thesis using gc res by auto
qed

section \<open>Runs on the local simulator succeed\<close>

lemma finish_run_total:
  assumes "rng_laws (ee_rng EE)" and "1 \<le> n" and "0 \<le> k_shots_used (pr_kpis res)"
  shows "\<exists>run. finish_run EE S cx req rid n warn cp res = Inr run"
proof -
  let ?adj = "apply_control_profile (pr_kpis res) cp"
  let ?k = "fill_kpis n warn (cx_end cx - cx_start cx) ?adj" and ?q = "estimate_qubits_used EE S req ?adj n"
  have "0 \<le> k_shots_used ?adj"
    using assms(3) by (simp add: apply_control_profile_def Let_def)
  then have "0 \<le> k_shots_used ?k" by (rule fill_kpis_facts(9))
  moreover have "0 \<le> ?q" using estimate_range [OF assms(1), where n = n and S = S and req = req and k = ?adj] assms(2) by simp
  ultimately obtain pc where "infer_contract (rq_hardware_target req) n (k_shots_used ?k) (Some ?q) None None = Inr pc"
    using infer_contract_ok_iff [of "rq_hardware_target req" n "k_shots_used ?k" "Some ?q" None None] assms(2) by auto
  moreover obtain ds where "build_kpi_details EE ?k = Inr ds"
    using build_details_total unfolding build_kpi_details_def by blast
  ultimately show ?thesis by (simp add: finish_run_def Let_def)
qed

lemma local_run_ok:
  assumes "rng_laws (ce_rng E)" and "rng_laws (ee_rng EE)" and "settings_valid S" and "memory_budget_ok bt"
    and "cx_usage_now cx \<le> cx_reserve_now cx" and "en_budget st = (bt, r)"
    and "rq_hardware_target req = ''sim_local''" and "rq_preset req \<noteq> GROVER_DEMO" and "1 \<le> requested_shots S req"
    and "requested_shots S req \<le> st_max_shots_per_session S - shots_on_books (cx_usage_now cx) sid bt"
  defines "n \<equiv> min (requested_shots S req) (st_max_shots_per_experiment S)"
  shows "\<exists>run st'. run_experiment E EE K L C S clients cx req sid rid st = (Inr run, st') \<and>
    rr_shots run = Some \<lparr>su_requested = Some n, su_executed = Some n\<rparr> \<and>
    shots_on_books (cx_reserve_now cx) sid (fst (en_budget st')) = shots_on_books (cx_reserve_now cx) sid bt + n"
proof -
  obtain res bt' r' where g: "apply_shot_guardrails K L S cx req sid (bt, r) = (res, bt', r')" by (rule prod_cases3)
  note gc = guardrail_books [OF assms(3-5) g]
  obtain w where res: "res = Inr (n, w)" using gc assms(9,10) by (auto simp: n_def)
  have n: "1 \<le> n" "n \<le> st_max_shots_per_experiment S" using gc res by (auto simp: n_def)
  let ?cp = "case rq_control_overrides req of Some c \<Rightarrow> c | None \<Rightarrow> control_get (en_controls (st\<lparr>en_budget := (bt', r')\<rparr>))"
  obtain k where k: "local_run E S (rq_preset req) n (fst (en_world st)) = (Inr k, fst (en_world st))" "kpis_sound k"
      "k_shots_used k = n"
    using local_simulator_ok [OF assms(1,3,8) n(1), of "fst (en_world st)"] n(2) by (auto simp: min_def)
  have p: "providers_run_experiment E S clients ''sim_local'' (rq_preset req) n (cx_provider_latency cx) (en_world st)
      = (Inr \<lparr>pr_kpis = k, pr_artifacts = artifacts_of LocalSimulator k\<rparr>, en_world st)"
    by (simp add: providers_run_experiment_def get_backend_def backends_def capabilities_def CAPABILITIES_def
        dict_get_or_def run_on_def backend_run_def k(1))
  let ?res = "\<lparr>pr_kpis = k, pr_artifacts = artifacts_of LocalSimulator k\<rparr>"
  have "0 \<le> k_shots_used (pr_kpis ?res)" using k(3) n(1) by simp
  from finish_run_total [OF assms(2) n(1) this, where S = S and cx = cx and req = req and rid = rid and warn = w and cp = ?cp]
  obtain run where f: "finish_run EE S cx req rid n w ?cp ?res = Inr run" by blast
  obtain pc ds where run: "run = mk_run EE req (or_str rid (cx_fresh_id cx)) (cx_end cx) n
        (estimate_qubits_used EE S req (apply_control_profile k ?cp) n) ?cp
        (fill_kpis n w (cx_end cx - cx_start cx) (apply_control_profile k ?cp)) pc ds (artifacts_of LocalSimulator k)"
    using finish_run_ok [OF f] by auto
  obtain c where c: "k_raw_counts k = Some c" "counts_total c = n" using k(2,3) by (auto simp: kpis_sound_def)
  have "k_shots_used (fill_kpis n w (cx_end cx - cx_start cx) (apply_control_profile k ?cp)) = n"
    using c k(3) n(1) by (auto simp: fill_kpis_def apply_control_profile_def Let_def split: list.split)
  then have "rr_shots run = Some \<lparr>su_requested = Some n, su_executed = Some n\<rparr>" by (simp add: run mk_run_def)
  then show ?thesis
    using g p f gc unfolding res run_experiment_def assms(6,7) Let_def by (simp add: assms(7))
qed

text \<open>
  C7. A request for the local simulator that the session can afford succeeds (every preset but
  Grover, which needs the Qiskit extras): the run comes back with all its granted shots executed,
  and exactly these are booked on the session.
\<close>

theorem local_run_succeeds:
  assumes "rng_laws (ce_rng E)" and "rng_laws (ee_rng EE)" and "settings_valid S" and "memory_budget_ok bt"
    and "cx_usage_now cx \<le> cx_reserve_now cx" and "en_budget st = (bt, r)"
    and "rq_hardware_target req = ''sim_local''" and "rq_preset req \<noteq> GROVER_DEMO" and "1 \<le> requested_shots S req"
    and "requested_shots S req \<le> st_max_shots_per_session S - shots_on_books (cx_usage_now cx) sid bt"
  defines "n \<equiv> min (requested_shots S req) (st_max_shots_per_experiment S)"
  shows "\<exists>run st'. run_experiment E EE K L C S clients cx req sid rid st = (Inr run, st') \<and>
    rr_shots run = Some \<lparr>su_requested = Some n, su_executed = Some n\<rparr> \<and>
    shots_on_books (cx_reserve_now cx) sid (fst (en_budget st')) = shots_on_books (cx_reserve_now cx) sid bt + n"
  unfolding n_def by (rule local_run_ok [OF assms(1-10)])

definition demo_state :: "(int, kv_state, string, run_response list) engine_state" where
  "demo_state = \<lparr>en_world = (0, provider_metrics_init), en_budget = (demo_budget, []),
     en_controls = control_store_init \<lparr>codec_dump = (\<lambda>_. []), codec_load = (\<lambda>_. None)\<rparr> False None,
     en_usage = Some (qubit_init 3600), en_store = (store_init plain_codec 10 False None, None)\<rparr>"

lemma demo_books: "shots_on_books 10 ''ann'' demo_budget = 999000" "shots_on_books 11 ''ann'' demo_budget = 999000"
proof -
  have wf: "dict_wf (bt_in_memory_usage demo_budget)" by (simp add: demo_budget_def budget_init_def dict_wf_def)
  show "shots_on_books 10 ''ann'' demo_budget = 999000" "shots_on_books 11 ''ann'' demo_budget = 999000"
    unfolding shots_on_books_def memory_usage_eq [OF wf]
    by (simp_all add: demo_budget_def budget_init_def live_entry_def)
qed

lemma demo_facts:
  shows "cx_usage_now demo_ctx = 10" "cx_reserve_now demo_ctx = 11"
    and "st_max_shots_per_session default_settings = 1000000" "st_max_shots_per_experiment default_settings = 200000"
    and "requested_shots S demo_request = 500" "requested_shots S (demo_request\<lparr>rq_hardware_target := t\<rparr>) = 500"
    and "en_budget demo_state = (demo_budget, [])"
    and "rng_laws (ce_rng demo_env)" "rng_laws (ee_rng demo_engine)"
  by (simp_all add: demo_ctx_def default_settings_def requested_shots_def demo_request_def or_int_def demo_state_def
      demo_env_def demo_engine_def rng_first_laws)

abbreviation demo_run :: "string \<Rightarrow> run_response py \<times> (int, kv_state, string, run_response list) engine_state" where
  "demo_run target \<equiv> run_experiment demo_env demo_engine kv_reference lua_plain plain_codec default_settings
     (load_provider_clients []) demo_ctx (demo_request\<lparr>rq_hardware_target := target\<rparr>) ''ann'' None demo_state"

lemma demo_run_ok:
  "\<exists>run st'. demo_run ''sim_local'' = (Inr run, st') \<and>
     rr_shots run = Some \<lparr>su_requested = Some 500, su_executed = Some 500\<rparr> \<and>
     shots_on_books 11 ''ann'' (fst (en_budget st')) = 999500"
  using local_run_ok [OF demo_facts(8,9) default_settings_valid demo_budget_ok _ demo_facts(7),
      where cx = demo_ctx and req = "demo_request\<lparr>rq_hardware_target := ''sim_local''\<rparr>" and sid = "''ann''" and rid = None
        and K = kv_reference and L = lua_plain and C = plain_codec and clients = "load_provider_clients []"]
  by (simp add: demo_facts demo_books) (simp add: demo_request_def)

theorem local_run_succeeds_witness:
  "\<exists>run st'. demo_run ''sim_local'' = (Inr run, st') \<and>
     rr_shots run = Some \<lparr>su_requested = Some 500, su_executed = Some 500\<rparr> \<and>
     shots_on_books 11 ''ann'' (fst (en_budget st')) = 999500"
  using local_run_succeeds [OF demo_facts(8,9) default_settings_valid demo_budget_ok _ demo_facts(7),
      where cx = demo_ctx and req = "demo_request\<lparr>rq_hardware_target := ''sim_local''\<rparr>" and sid = "''ann''" and rid = None
        and K = kv_reference and L = lua_plain and C = plain_codec and clients = "load_provider_clients []"]
  by (simp add: demo_facts demo_books) (simp add: demo_request_def)

theorem run_records_result_witness:
  "\<exists>run st' pc. demo_run ''sim_local'' = (Inr run, st') \<and> rr_physics_contract run = Some pc \<and>
     ss_n_qubits (pc_state pc) = Some (rr_qubits_used run) \<and> 6 \<le> rr_qubits_used run"
proof -
  obtain run st' where r: "demo_run ''sim_local'' = (Inr run, st')" using demo_run_ok by blast
  from run_records_result [OF default_settings_valid demo_facts(9) r] r show ?thesis by blast
qed

theorem failed_run_keeps_reservation_witness:
  "\<exists>e st'. demo_run ''ghost'' = (Inl e, st') \<and> shots_on_books 11 ''ann'' (fst (en_budget st')) = 999500 \<and>
     en_store st' = en_store demo_state"
proof -
  obtain res st' where r: "demo_run ''ghost'' = (res, st')" by (rule prod.exhaust)
  have "\<exists>e. res = Inl e"
    using r by (auto simp: run_experiment_def providers_run_experiment_def get_backend_def backends_def mk_provider_def Let_def
        split: prod.splits sum.splits)
  then obtain e where e: "demo_run ''ghost'' = (Inl e, st')" using r by blast
  have o1: "cx_usage_now demo_ctx \<le> cx_reserve_now demo_ctx" by (simp add: demo_facts)
  have o2: "1 \<le> requested_shots default_settings (demo_request\<lparr>rq_hardware_target := ''ghost''\<rparr>)"
    and o3: "requested_shots default_settings (demo_request\<lparr>rq_hardware_target := ''ghost''\<rparr>)
      \<le> st_max_shots_per_session default_settings - shots_on_books (cx_usage_now demo_ctx) ''ann'' demo_budget"
    by (simp_all add: demo_facts demo_books)
  show ?thesis
    using failed_run_keeps_reservation [OF default_settings_valid demo_budget_ok o1 demo_facts(7) o2 o3 e] e
    by (simp add: demo_facts demo_books)
qed

end
