(* ===== verification/Step_Machine.thy ===== *)
theory Step_Machine
  imports Synqc_Prelude
begin

text \<open>
  Step relations with labels, for the components that several threads or processes drive at once:
  the runs of a relation, and the two ways the components argue about all of them. An invariant
  that every step keeps holds along every run, and a preorder that every step respects relates the
  ends of every run.
\<close>

inductive runs :: "('s \<Rightarrow> 'e \<Rightarrow> 's \<Rightarrow> bool) \<Rightarrow> 's \<Rightarrow> 'e list \<Rightarrow> 's \<Rightarrow> bool" for step where
  runs_nil: "runs step s [] s"
| runs_cons: "step s e s1 \<Longrightarrow> runs step s1 es s2 \<Longrightarrow> runs step s (e # es) s2"

inductive_cases runs_NilE [elim!]: "runs step s [] s'"
inductive_cases runs_ConsE: "runs step s (e # es) s'"

inductive_simps runs_Nil_iff [simp]: "runs step s [] s'"
inductive_simps runs_Cons_iff: "runs step s (e # es) s'"

lemma runs_append: "runs step s (es @ fs) s' \<longleftrightarrow> (\<exists>s1. runs step s es s1 \<and> runs step s1 fs s')"
  by (induction es arbitrary: s) (auto simp: runs_Cons_iff)

locale step_machine =
  fixes step :: "'s \<Rightarrow> 'e \<Rightarrow> 's \<Rightarrow> bool"
    and ok :: "'s \<Rightarrow> bool"
    and before :: "'s \<Rightarrow> 's \<Rightarrow> bool"
  assumes step_ok: "ok s \<Longrightarrow> step s e s' \<Longrightarrow> ok s'"
    and step_before: "ok s \<Longrightarrow> step s e s' \<Longrightarrow> before s s'"
    and before_refl: "before s s"
    and before_trans: "before s1 s2 \<Longrightarrow> before s2 s3 \<Longrightarrow> before s1 s3"
begin

lemma runs_ok: "runs step s es s' \<Longrightarrow> ok s \<Longrightarrow> ok s'"
  by (induction rule: runs.induct) (auto intro: step_ok)

lemma runs_before: "runs step s es s' \<Longrightarrow> ok s \<Longrightarrow> before s s'"
proof (induction rule: runs.induct)
  case (runs_cons s e s1 es s2)
  then have "before s s1" "before s1 s2" by (auto intro: step_ok step_before)
  then show ?case by (rule before_trans)
qed (rule before_refl)

text \<open>What holds of the start of a run and is kept by every step holds at its end.\<close>

lemma runs_induct_ok:
  assumes "runs step s es s'" and "ok s" and "P s"
    and "\<And>s e s'. ok s \<Longrightarrow> P s \<Longrightarrow> step s e s' \<Longrightarrow> P s'"
  shows "P s'"
  using assms(1-3)
  by (induction rule: runs.induct) (auto intro: step_ok assms(4))

end

end
