(* ===== verification/Job_Queue.thy ===== *)
theory Job_Queue
  imports Step_Machine Settings Experiment_Store Provider_Clients Run_Metrics
begin

text \<open>
  The in-process job queue (\<open>jobs.py\<close>): a thread pool runs submitted jobs, while callers cancel
  them, timers time them out and the application shuts the queue down.

  Every section under the queue's lock is one operation on \<open>job_queue\<close>, and so is every step a
  thread takes between two sections; \<open>job_step\<close> interleaves them freely. The record of a job is
  shared by all of them: it is the entry of \<open>q_jobs\<close>, which never loses an entry.

  The standard library's \<open>ThreadPoolExecutor\<close> is part of the model: \<open>q_tasks\<close> lists the submitted
  tasks in order with their progress, a task starts when it is the first pending one and a worker
  is free, and \<open>Future.cancel\<close> has an effect on a pending task only. \<open>SqliteJobStore\<close> is imported
  from a module that does not define it, so \<open>_persist\<close> is always \<open>None\<close> and the spool (rehydration
  included) is not modelled. Log messages are left out.
\<close>

record job_record =
  jr_id :: string
  jr_request :: run_experiment_request
  jr_status :: run_job_status
  jr_created_at :: real
  jr_started_at :: "real option"
  jr_finished_at :: "real option"
  jr_result :: "run_response option"
  jr_error :: "string option"
  jr_error_detail :: "(string, json) dict option"
  jr_error_code :: "error_code option"
  jr_error_message :: "string option"
  jr_action_hint :: "string option"

definition new_job :: "string \<Rightarrow> run_experiment_request \<Rightarrow> real \<Rightarrow> job_record" where
  "new_job i req now =
     \<lparr>jr_id = i, jr_request = req, jr_status = QUEUED, jr_created_at = now, jr_started_at = None,
      jr_finished_at = None, jr_result = None, jr_error = None, jr_error_detail = None,
      jr_error_code = None, jr_error_message = None, jr_action_hint = None\<rparr>"

text \<open>
  Progress of a task: submitted; started (\<open>RUNNING\<close> is set, the timer not yet armed); inside
  \<open>worker_fn\<close>; failed and about to store the failure; in the \<open>finally\<close> block; about to record
  metrics; over. \<open>T_Cancelled\<close> is a task whose future was cancelled before it started.
\<close>

datatype task_phase = T_Pending | T_Started | T_Working | T_Failing | T_Finishing | T_Observing | T_Done | T_Cancelled

definition occupies_worker :: "task_phase \<Rightarrow> bool" where
  "occupies_worker p \<longleftrightarrow> p \<notin> {T_Pending, T_Done, T_Cancelled}"

record 'f job_queue =
  q_jobs :: "(string, job_record) dict"
  q_futures :: "string list"
  q_cancel_events :: "(string, bool) dict"
  q_timers :: "string list"
  q_failure_counts :: "(error_code, int) dict"
  q_shutdown :: bool
  q_job_timeout_seconds :: int
  q_max_pending :: int
  q_max_workers :: int
  q_tasks :: "(string, string \<times> task_phase) dict"
  q_executor_shutdown :: bool
  q_entering :: "(run_experiment_request \<times> string) list"
  q_unsubmitted :: "(string \<times> string) list"
  q_assigning :: "string list"
  q_failed_outside :: "string list"
  q_store :: "(experiment_store \<times> 'f disk_file) option"
  q_metrics :: run_metrics

text \<open>
  \<open>q_entering\<close>, \<open>q_unsubmitted\<close> and \<open>q_assigning\<close> are the \<open>enqueue\<close> calls between their sections: past the
  check, past the insertion, past the submission. \<open>q_failed_outside\<close> are the \<open>cancel\<close> and timer
  calls that failed a job and still have to store the failure.
\<close>

definition job_queue_init :: "int \<Rightarrow> (experiment_store \<times> 'f disk_file) option \<Rightarrow> int \<Rightarrow> int \<Rightarrow> 'f job_queue" where
  "job_queue_init max_workers store job_timeout_seconds max_pending =
     \<lparr>q_jobs = [], q_futures = [], q_cancel_events = [], q_timers = [], q_failure_counts = [],
      q_shutdown = False, q_job_timeout_seconds = job_timeout_seconds, q_max_pending = max_pending,
      q_max_workers = max_workers, q_tasks = [], q_executor_shutdown = False, q_entering = [],
      q_unsubmitted = [], q_assigning = [], q_failed_outside = [], q_store = store, q_metrics = run_metrics_init\<rparr>"

section \<open>Submitting\<close>

definition active_status :: "run_job_status \<Rightarrow> bool" where
  "active_status s \<longleftrightarrow> s = QUEUED \<or> s = RUNNING"

definition jobs_where :: "(job_record \<Rightarrow> bool) \<Rightarrow> 'f job_queue \<Rightarrow> int" where
  "jobs_where P q = int (length (filter P (dict_values (q_jobs q))))"

definition active_jobs :: "'f job_queue \<Rightarrow> int" where
  "active_jobs q = jobs_where (\<lambda>r. active_status (jr_status r)) q"

definition enqueue_check :: "'f job_queue \<Rightarrow> unit py" where
  "enqueue_check q =
     (if q_shutdown q then Inl (ExnRuntime ''JobQueue is shutting down; cannot enqueue new jobs'')
      else if active_jobs q \<ge> q_max_pending q then Inl (ExnRuntime ''Queue is full; try again later'')
      else Inr ())"

definition enqueue_enter :: "run_experiment_request \<Rightarrow> string \<Rightarrow> 'f job_queue \<Rightarrow> unit py \<times> 'f job_queue" where
  "enqueue_enter req sid q =
     (case enqueue_check q of
        Inl e \<Rightarrow> (Inl e, q)
      | Inr _ \<Rightarrow> (Inr (), q\<lparr>q_entering := (req, sid) # q_entering q\<rparr>))"

definition enqueue_insert :: "string \<Rightarrow> real \<Rightarrow> run_experiment_request \<Rightarrow> string \<Rightarrow> 'f job_queue \<Rightarrow> 'f job_queue" where
  "enqueue_insert i now req sid q =
     q\<lparr>q_jobs := dict_set i (new_job i req now) (q_jobs q),
       q_cancel_events := dict_set i False (q_cancel_events q),
       q_futures := removeAll i (q_futures q),
       q_entering := remove1 (req, sid) (q_entering q),
       q_unsubmitted := (i, sid) # q_unsubmitted q\<rparr>"

text \<open>\<open>executor.submit\<close> raises once the executor is shut down; the record stays \<open>QUEUED\<close>.\<close>

definition enqueue_submit :: "string \<Rightarrow> string \<Rightarrow> 'f job_queue \<Rightarrow> unit py \<times> 'f job_queue" where
  "enqueue_submit i sid q =
     (let q1 = q\<lparr>q_unsubmitted := remove1 (i, sid) (q_unsubmitted q)\<rparr> in
      if q_executor_shutdown q then (Inl (ExnRuntime ''cannot schedule new futures after shutdown''), q1)
      else (Inr (), q1\<lparr>q_tasks := dict_set i (sid, T_Pending) (q_tasks q1), q_assigning := i # q_assigning q1\<rparr>))"

definition enqueue_assign :: "string \<Rightarrow> 'f job_queue \<Rightarrow> 'f job_queue" where
  "enqueue_assign i q = q\<lparr>q_futures := i # q_futures q, q_assigning := remove1 i (q_assigning q)\<rparr>"

text \<open>\<open>enqueue\<close> when no other thread gets in between.\<close>

definition enqueue :: "string \<Rightarrow> real \<Rightarrow> run_experiment_request \<Rightarrow> string \<Rightarrow> 'f job_queue \<Rightarrow> job_record py \<times> 'f job_queue" where
  "enqueue i now req sid q =
     (case enqueue_enter req sid q of
        (Inl e, q1) \<Rightarrow> (Inl e, q1)
      | (Inr _, q1) \<Rightarrow>
          (case enqueue_submit i sid (enqueue_insert i now req sid q1) of
             (Inl e, q2) \<Rightarrow> (Inl e, q2)
           | (Inr _, q2) \<Rightarrow> (Inr (new_job i req now), enqueue_assign i q2)))"

section \<open>Failing a job\<close>

definition update_job :: "string \<Rightarrow> (job_record \<Rightarrow> job_record) \<Rightarrow> 'f job_queue \<Rightarrow> 'f job_queue" where
  "update_job i f q = q\<lparr>q_jobs := map (\<lambda>(k, r). (k, if k = i then f r else r)) (q_jobs q)\<rparr>"

definition set_phase :: "string \<Rightarrow> task_phase \<Rightarrow> 'f job_queue \<Rightarrow> 'f job_queue" where
  "set_phase i p q = q\<lparr>q_tasks := map (\<lambda>(k, s, p0). (k, s, if k = i then p else p0)) (q_tasks q)\<rparr>"

definition mark_failed :: "error_code \<Rightarrow> string \<Rightarrow> string \<Rightarrow> string option \<Rightarrow> (string, json) dict \<Rightarrow> real
    \<Rightarrow> job_record \<Rightarrow> job_record" where
  "mark_failed code error message hint detail now r =
     r\<lparr>jr_error := Some error, jr_error_code := Some code, jr_error_message := Some message,
       jr_action_hint := hint, jr_error_detail := Some detail, jr_finished_at := Some now, jr_status := FAILED\<rparr>"

text \<open>Failing a job from outside: the failure is counted, the cancel event set, the future cancelled.\<close>

definition future_cancel :: "string \<Rightarrow> 'f job_queue \<Rightarrow> 'f job_queue" where
  "future_cancel i q =
     (if i \<in> set (q_futures q)
      then (case dict_get (q_tasks q) i of
              Some (s, T_Pending) \<Rightarrow> set_phase i T_Cancelled q
            | _ \<Rightarrow> q)
      else q)"

definition fail_outside :: "string \<Rightarrow> error_code \<Rightarrow> string \<Rightarrow> string \<Rightarrow> string option \<Rightarrow> (string, json) dict \<Rightarrow> real
    \<Rightarrow> 'f job_queue \<Rightarrow> 'f job_queue" where
  "fail_outside i code error message hint detail now q =
     (let q1 = update_job i (mark_failed code error message hint detail now) q;
          q2 = q1\<lparr>q_failure_counts := bump code (q_failure_counts q1),
                  q_cancel_events := (if i \<in> set (dict_keys (q_cancel_events q1))
                                      then dict_set i True (q_cancel_events q1) else q_cancel_events q1)\<rparr>;
          q3 = future_cancel i q2 in
      q3\<lparr>q_failed_outside := i # q_failed_outside q3\<rparr>)"

definition cancel_hint :: string where
  "cancel_hint = ''Retry the run or clear the queue if the workflow is stuck.''"

definition cancel :: "string \<Rightarrow> string \<Rightarrow> real \<Rightarrow> 'f job_queue \<Rightarrow> bool \<times> 'f job_queue" where
  "cancel i reason now q =
     (case dict_get (q_jobs q) i of
        None \<Rightarrow> (False, q)
      | Some r \<Rightarrow>
          if terminal (jr_status r) then (False, q)
          else (True, fail_outside i CANCELLED reason reason (Some cancel_hint)
                  [(''code'', JStr (error_code_value CANCELLED)), (''message'', JStr reason), (''action_hint'', JStr cancel_hint)]
                  now q))"

definition timeout_hint :: string where
  "timeout_hint = ''Try again with a smaller shot budget or fewer queued jobs.''"

definition timeout_job :: "string \<Rightarrow> real \<Rightarrow> 'f job_queue \<Rightarrow> 'f job_queue" where
  "timeout_job i now q =
     (case dict_get (q_jobs q) i of
        None \<Rightarrow> q
      | Some r \<Rightarrow>
          if jr_status r \<noteq> RUNNING then q
          else fail_outside i TIMEOUT ''Timed out'' ''Job exceeded timeout'' (Some timeout_hint)
                 [(''code'', JStr (error_code_value TIMEOUT)), (''message'', JStr ''Job exceeded timeout''),
                  (''timeout_seconds'', JInt (q_job_timeout_seconds q)), (''action_hint'', JStr timeout_hint)]
                 now q)"

text \<open>The failed run that goes into the experiment store.\<close>

definition failure_run :: "job_record \<Rightarrow> real \<Rightarrow> run_response" where
  "failure_run r now =
     (let req = jr_request r in
      \<lparr>rr_id = jr_id r, rr_preset = rq_preset req, rr_hardware_target = rq_hardware_target req,
       rr_kpis = kpi_default\<lparr>k_shot_budget := or_int (rq_shot_budget req) 0, k_status := FAIL\<rparr>,
       rr_created_at = (case jr_finished_at r of Some t \<Rightarrow> if t = 0 then now else t | None \<Rightarrow> now),
       rr_shots = None, rr_measurement = None, rr_noise = None, rr_assumptions = [], rr_qubits_used = 0,
       rr_notes = rq_notes req, rr_control_profile = rq_control_overrides req, rr_physics_contract = None,
       rr_kpi_details = None, rr_kpi_observations = None, rr_artifacts = None,
       rr_error_code = jr_error_code r, rr_error_message = jr_error_message r, rr_error_detail = jr_error_detail r,
       rr_action_hint = jr_action_hint r,
       rr_workflow_trace =
         [\<lparr>ws_id = ''ingest'', ws_label = ''Ingest'',
           ws_description = ''Submission rejected before execution; see error_detail.'',
           ws_percent_complete = 20, ws_dwell_ms = 300\<rparr>,
          \<lparr>ws_id = ''commit'', ws_label = ''Guardrail'',
           ws_description = ''Budget/validation guardrail halted the workflow.'',
           ws_percent_complete = 100, ws_dwell_ms = 300\<rparr>]\<rparr>)"

definition persist_failure :: "('e, 'f) run_codec \<Rightarrow> bool \<Rightarrow> real \<Rightarrow> string \<Rightarrow> 'f job_queue \<Rightarrow> 'f job_queue" where
  "persist_failure C writable now i q =
     (case dict_get (q_jobs q) i of
        None \<Rightarrow> q
      | Some r \<Rightarrow> q\<lparr>q_store := map_option (store_add C writable now (failure_run r now)) (q_store q)\<rparr>)"

section \<open>Running a job\<close>

definition first_pending :: "'f job_queue \<Rightarrow> string option" where
  "first_pending q =
     (case filter (\<lambda>(k, s, p). p = T_Pending) (q_tasks q) of [] \<Rightarrow> None | (k, _) # _ \<Rightarrow> Some k)"

definition busy_workers :: "'f job_queue \<Rightarrow> int" where
  "busy_workers q = int (length (filter (\<lambda>(k, s, p). occupies_worker p) (q_tasks q)))"

definition can_start :: "string \<Rightarrow> 'f job_queue \<Rightarrow> bool" where
  "can_start i q \<longleftrightarrow> first_pending q = Some i \<and> busy_workers q < q_max_workers q"

text \<open>\<open>_run_job\<close> up to its first section: a job that was cancelled before it started ends at once.\<close>

definition run_begin :: "string \<Rightarrow> real \<Rightarrow> 'f job_queue \<Rightarrow> 'f job_queue" where
  "run_begin i now q =
     (case dict_get (q_jobs q) i of
        None \<Rightarrow> q
      | Some r \<Rightarrow>
          if jr_status r = FAILED then set_phase i T_Done q
          else set_phase i T_Started (update_job i (\<lambda>r. r\<lparr>jr_status := RUNNING, jr_started_at := Some now\<rparr>) q))"

definition arm_timer :: "string \<Rightarrow> 'f job_queue \<Rightarrow> 'f job_queue" where
  "arm_timer i q =
     set_phase i T_Working (if q_job_timeout_seconds q > 0 then q\<lparr>q_timers := i # q_timers q\<rparr> else q)"

text \<open>\<open>worker_fn\<close> of the application is the engine, which stores its run under the job's id.\<close>

definition worker_store :: "('e, 'f) run_codec \<Rightarrow> bool \<Rightarrow> real \<Rightarrow> run_response \<Rightarrow> 'f job_queue \<Rightarrow> 'f job_queue" where
  "worker_store C writable now run q = q\<lparr>q_store := map_option (store_add C writable now run) (q_store q)\<rparr>"

definition complete_ok :: "string \<Rightarrow> run_response \<Rightarrow> 'f job_queue \<Rightarrow> 'f job_queue" where
  "complete_ok i res q =
     (case dict_get (q_jobs q) i of
        None \<Rightarrow> q
      | Some r \<Rightarrow>
          if jr_status r \<noteq> RUNNING then set_phase i T_Finishing q
          else set_phase i T_Finishing (update_job i (\<lambda>r. r\<lparr>jr_result := Some res, jr_status := SUCCEEDED\<rparr>) q))"

text \<open>The \<open>except\<close> clauses: code, extra detail and hint of each exception class.\<close>

fun classify_exn :: "py_exn \<Rightarrow> error_code \<times> (string, json) dict \<times> string option" where
  "classify_exn (BudgetExceeded r) =
     (BUDGET_EXHAUSTED, [(''remaining'', JInt r)],
      Some ''Lower the shot budget or wait for the session budget to reset.'')"
| "classify_exn (ProviderClientError m c h d) =
     (c, d, Some (or_str h ''Check provider credentials or select a simulator backend.''))"
| "classify_exn (ExnValue m) = (INVALID_REQUEST, [], Some ''Verify the request payload and try again.'')"
| "classify_exn ExnValidation = (INVALID_REQUEST, [], Some ''Verify the request payload and try again.'')"
| "classify_exn e = (INTERNAL_ERROR, [], Some ''Check backend logs for details and retry after remediation.'')"

definition failure_detail :: "error_code \<Rightarrow> string \<Rightarrow> (string, json) dict \<Rightarrow> string option \<Rightarrow> (string, json) dict" where
  "failure_detail code message extra hint =
     (let d = dict_update_all extra [(''code'', JStr (error_code_value code)), (''message'', JStr message)] in
      if truthy_str hint then dict_set ''action_hint'' (JStr (or_str hint [])) d else d)"

definition fail_record :: "string \<Rightarrow> py_exn \<Rightarrow> real \<Rightarrow> 'f job_queue \<Rightarrow> 'f job_queue" where
  "fail_record i e now q =
     (case classify_exn e of
        (code, extra, hint) \<Rightarrow>
          (case dict_get (q_jobs q) i of
             None \<Rightarrow> q
           | Some r \<Rightarrow>
               if jr_status r \<noteq> RUNNING then set_phase i T_Finishing q
               else
                 (let q1 = update_job i (mark_failed code (exn_text e) (exn_text e) hint
                             (failure_detail code (exn_text e) extra hint) now) q in
                  set_phase i T_Failing (q1\<lparr>q_failure_counts := bump code (q_failure_counts q1)\<rparr>))))"

definition run_cleanup :: "string \<Rightarrow> real \<Rightarrow> 'f job_queue \<Rightarrow> 'f job_queue" where
  "run_cleanup i now q =
     (let q1 = q\<lparr>q_timers := removeAll i (q_timers q)\<rparr> in
      set_phase i T_Observing
        (update_job i (\<lambda>r. if jr_finished_at r = None \<and> terminal (jr_status r) then r\<lparr>jr_finished_at := Some now\<rparr> else r) q1))"

definition job_latency :: "job_record \<Rightarrow> real \<Rightarrow> real" where
  "job_latency r now =
     (let started = (case jr_started_at r of Some t \<Rightarrow> if t = 0 then (if jr_created_at r = 0 then now else jr_created_at r) else t
                     | None \<Rightarrow> if jr_created_at r = 0 then now else jr_created_at r);
          finished = (case jr_finished_at r of Some t \<Rightarrow> if t = 0 then now else t | None \<Rightarrow> now) in
      max 0 (finished - started))"

definition observe_metrics :: "string \<Rightarrow> real \<Rightarrow> 'f job_queue \<Rightarrow> 'f job_queue" where
  "observe_metrics i now q =
     (case dict_get (q_jobs q) i of
        None \<Rightarrow> q
      | Some r \<Rightarrow>
          (let target = (if rq_hardware_target (jr_request r) = [] then ''unknown'' else rq_hardware_target (jr_request r));
               latency = Some (job_latency r now);
               m = (case jr_status r of
                      SUCCEEDED \<Rightarrow> run_record_success target latency (q_metrics q)
                    | FAILED \<Rightarrow> run_record_failure target
                        (Some (case jr_error_code r of Some c \<Rightarrow> error_code_value c | None \<Rightarrow> ''unknown'')) latency (q_metrics q)
                    | _ \<Rightarrow> q_metrics q) in
           set_phase i T_Done (q\<lparr>q_metrics := m\<rparr>)))"

section \<open>Shutdown, lookup and statistics\<close>

definition shutdown_flag :: "'f job_queue \<Rightarrow> 'f job_queue" where
  "shutdown_flag q = q\<lparr>q_shutdown := True, q_cancel_events := map (\<lambda>(k, _). (k, True)) (q_cancel_events q)\<rparr>"

definition executor_shutdown :: "'f job_queue \<Rightarrow> 'f job_queue" where
  "executor_shutdown q =
     q\<lparr>q_executor_shutdown := True,
       q_tasks := map (\<lambda>(k, s, p). (k, s, if p = T_Pending then T_Cancelled else p)) (q_tasks q)\<rparr>"

definition get_job_record :: "string \<Rightarrow> 'f job_queue \<Rightarrow> job_record option" where
  "get_job_record i q = dict_get (q_jobs q) i"

record queue_stats =
  st_total :: int
  st_queued :: int
  st_running :: int
  st_succeeded :: int
  st_failed :: int
  st_oldest_queued_age :: "real option"
  st_max_workers :: int
  st_max_pending_jobs :: int
  st_timeout_seconds :: int
  st_failure_codes :: "(error_code, int) dict"

fun oldest_age :: "real \<Rightarrow> job_record list \<Rightarrow> real option \<Rightarrow> real option" where
  "oldest_age now [] best = best"
| "oldest_age now (r # rs) best =
     oldest_age now rs
       (if jr_status r = QUEUED then
          (case best of None \<Rightarrow> Some (now - jr_created_at r)
           | Some b \<Rightarrow> if now - jr_created_at r > b then Some (now - jr_created_at r) else Some b)
        else best)"

definition stats :: "real \<Rightarrow> 'f job_queue \<Rightarrow> queue_stats" where
  "stats now q =
     \<lparr>st_total = int (length (q_jobs q)),
      st_queued = jobs_where (\<lambda>r. jr_status r = QUEUED) q, st_running = jobs_where (\<lambda>r. jr_status r = RUNNING) q,
      st_succeeded = jobs_where (\<lambda>r. jr_status r = SUCCEEDED) q, st_failed = jobs_where (\<lambda>r. jr_status r = FAILED) q,
      st_oldest_queued_age = oldest_age now (dict_values (q_jobs q)) None,
      st_max_workers = q_max_workers q, st_max_pending_jobs = q_max_pending q,
      st_timeout_seconds = q_job_timeout_seconds q, st_failure_codes = q_failure_counts q\<rparr>"

section \<open>Interleaving\<close>

datatype job_event =
    Enter run_experiment_request string
  | Insert string real run_experiment_request string
  | Submit string string
  | Assign string
  | Begin string real
  | Arm string
  | WorkerStores string run_response real
  | Return string run_response
  | Raise string py_exn real
  | StoreFailure string real
  | StoreOutside string real
  | Cleanup string real
  | Observe string real
  | Cancel string string real
  | TimerFires string real
  | ShutdownFlag
  | ExecutorShutdown

definition phase_of :: "'f job_queue \<Rightarrow> string \<Rightarrow> task_phase option" where
  "phase_of q i = map_option snd (dict_get (q_tasks q) i)"

text \<open>
  \<open>job_step C w\<close>: one step of one thread; \<open>w\<close> says whether the store's file is writable. A fresh
  id is one no job has (\<open>uuid4\<close>). A timer fires at most while it is armed; its thread may already be
  waiting for the lock when the timer is cancelled, which is the late firing allowed here for every
  job that has been started.
\<close>

inductive job_step :: "('e, 'f) run_codec \<Rightarrow> bool \<Rightarrow> 'f job_queue \<Rightarrow> job_event \<Rightarrow> 'f job_queue \<Rightarrow> bool"
  for C w where
  step_enter: "enqueue_enter req sid q = (Inr (), q') \<Longrightarrow> job_step C w q (Enter req sid) q'"
| step_insert: "(req, sid) \<in> set (q_entering q) \<Longrightarrow> dict_get (q_jobs q) i = None \<Longrightarrow>
    job_step C w q (Insert i now req sid) (enqueue_insert i now req sid q)"
| step_submit: "(i, sid) \<in> set (q_unsubmitted q) \<Longrightarrow> job_step C w q (Submit i sid) (snd (enqueue_submit i sid q))"
| step_assign: "i \<in> set (q_assigning q) \<Longrightarrow> job_step C w q (Assign i) (enqueue_assign i q)"
| step_begin: "can_start i q \<Longrightarrow> job_step C w q (Begin i now) (run_begin i now q)"
| step_arm: "phase_of q i = Some T_Started \<Longrightarrow> job_step C w q (Arm i) (arm_timer i q)"
| step_worker: "phase_of q i = Some T_Working \<Longrightarrow> rr_id run = i \<Longrightarrow>
    job_step C w q (WorkerStores i run now) (worker_store C w now run q)"
| step_return: "phase_of q i = Some T_Working \<Longrightarrow> job_step C w q (Return i run) (complete_ok i run q)"
| step_raise: "phase_of q i = Some T_Working \<Longrightarrow> job_step C w q (Raise i e now) (fail_record i e now q)"
| step_store_failure: "phase_of q i = Some T_Failing \<Longrightarrow>
    job_step C w q (StoreFailure i now) (set_phase i T_Finishing (persist_failure C w now i q))"
| step_store_outside: "i \<in> set (q_failed_outside q) \<Longrightarrow>
    job_step C w q (StoreOutside i now)
      ((persist_failure C w now i q)\<lparr>q_failed_outside := remove1 i (q_failed_outside q)\<rparr>)"
| step_cleanup: "phase_of q i = Some T_Finishing \<Longrightarrow> job_step C w q (Cleanup i now) (run_cleanup i now q)"
| step_observe: "phase_of q i = Some T_Observing \<Longrightarrow> job_step C w q (Observe i now) (observe_metrics i now q)"
| step_cancel: "job_step C w q (Cancel i reason now) (snd (cancel i reason now q))"
| step_timer: "phase_of q i \<noteq> None \<Longrightarrow> phase_of q i \<noteq> Some T_Pending \<Longrightarrow> q_job_timeout_seconds q > 0 \<Longrightarrow>
    job_step C w q (TimerFires i now) (timeout_job i now q)"
| step_shutdown_flag: "job_step C w q ShutdownFlag (shutdown_flag q)"
| step_executor: "q_shutdown q \<Longrightarrow> job_step C w q ExecutorShutdown (executor_shutdown q)"

definition job_move :: "('e, 'f) run_codec \<Rightarrow> 'f job_queue \<Rightarrow> job_event \<times> bool \<Rightarrow> 'f job_queue \<Rightarrow> bool" where
  "job_move C q ew q' \<longleftrightarrow> job_step C (snd ew) q (fst ew) q'"

section \<open>Reading the state after an operation\<close>

lemma get_map_entry: "dict_get (map (\<lambda>(k, r). (k, if k = i then f r else r)) d) k =
    (if k = i then map_option f (dict_get d k) else dict_get d k)"
  by (induction d) auto

lemma keys_map_entry: "dict_keys (map (\<lambda>(k, r). (k, if k = i then f r else r)) d) = dict_keys d"
  by (induction d) auto

lemma get_update_job [simp]:
  "dict_get (q_jobs (update_job i f q)) k = (if k = i then map_option f (dict_get (q_jobs q) k) else dict_get (q_jobs q) k)"
  by (simp add: update_job_def get_map_entry)

lemma phase_set_phase [simp]:
  "phase_of (set_phase i p q) k = (if k = i then map_option (\<lambda>_. p) (phase_of q k) else phase_of q k)"
proof -
  have "dict_get (map (\<lambda>(k, s, p0). (k, s, if k = i then p else p0)) d) k =
      map_option (\<lambda>(s, p0). (s, if k = i then p else p0)) (dict_get d k)" for d :: "(string, string \<times> task_phase) dict"
    by (induction d) auto
  then show ?thesis
    by (simp add: phase_of_def set_phase_def option.map_comp comp_def case_prod_beta)
qed

text \<open>The fields an operation leaves alone.\<close>

lemma update_job_fields [simp]:
  "q_tasks (update_job i f q) = q_tasks q" "q_failure_counts (update_job i f q) = q_failure_counts q"
  "q_unsubmitted (update_job i f q) = q_unsubmitted q" "q_max_workers (update_job i f q) = q_max_workers q"
  "q_max_pending (update_job i f q) = q_max_pending q" "q_store (update_job i f q) = q_store q"
  "q_metrics (update_job i f q) = q_metrics q" "q_futures (update_job i f q) = q_futures q"
  "q_shutdown (update_job i f q) = q_shutdown q" "q_entering (update_job i f q) = q_entering q"
  "q_cancel_events (update_job i f q) = q_cancel_events q"
  "dict_keys (q_jobs (update_job i f q)) = dict_keys (q_jobs q)"
  by (simp_all add: update_job_def case_prod_beta)

lemma set_phase_fields [simp]:
  "q_jobs (set_phase i p q) = q_jobs q" "q_failure_counts (set_phase i p q) = q_failure_counts q"
  "q_unsubmitted (set_phase i p q) = q_unsubmitted q" "q_max_workers (set_phase i p q) = q_max_workers q"
  "q_max_pending (set_phase i p q) = q_max_pending q" "q_store (set_phase i p q) = q_store q"
  "q_metrics (set_phase i p q) = q_metrics q" "q_futures (set_phase i p q) = q_futures q"
  "q_shutdown (set_phase i p q) = q_shutdown q" "q_entering (set_phase i p q) = q_entering q"
  "q_cancel_events (set_phase i p q) = q_cancel_events q"
  "dict_keys (q_tasks (set_phase i p q)) = dict_keys (q_tasks q)"
  by (auto simp: set_phase_def comp_def case_prod_beta)

lemma phase_of_update [simp]: "phase_of (update_job i f q) k = phase_of q k"
  by (simp add: phase_of_def)

lemma future_cancel_fields [simp]:
  "q_jobs (future_cancel i q) = q_jobs q" "q_failure_counts (future_cancel i q) = q_failure_counts q"
  "q_unsubmitted (future_cancel i q) = q_unsubmitted q" "q_max_workers (future_cancel i q) = q_max_workers q"
  "q_max_pending (future_cancel i q) = q_max_pending q" "q_store (future_cancel i q) = q_store q"
  "q_metrics (future_cancel i q) = q_metrics q" "q_shutdown (future_cancel i q) = q_shutdown q"
  "q_entering (future_cancel i q) = q_entering q"
  "dict_keys (q_tasks (future_cancel i q)) = dict_keys (q_tasks q)"
  by (auto simp: future_cancel_def split: option.split prod.split task_phase.split)

lemma phase_future_cancel:
  "phase_of (future_cancel i q) k =
     (if k = i \<and> i \<in> set (q_futures q) \<and> phase_of q i = Some T_Pending then Some T_Cancelled else phase_of q k)"
  by (auto simp: future_cancel_def phase_of_def [of q] split: option.split prod.split task_phase.split)

lemma persist_failure_fields [simp]:
  "q_jobs (persist_failure C w now i q) = q_jobs q" "q_tasks (persist_failure C w now i q) = q_tasks q"
  "q_failure_counts (persist_failure C w now i q) = q_failure_counts q"
  "q_unsubmitted (persist_failure C w now i q) = q_unsubmitted q"
  "q_max_workers (persist_failure C w now i q) = q_max_workers q"
  "q_max_pending (persist_failure C w now i q) = q_max_pending q"
  "q_metrics (persist_failure C w now i q) = q_metrics q"
  "q_entering (persist_failure C w now i q) = q_entering q"
  "phase_of (persist_failure C w now i q) k = phase_of q k"
  by (simp_all add: persist_failure_def phase_of_def split: option.split)

section \<open>What a step does to one job\<close>

text \<open>\<open>job_change r r'\<close>: the record of one job before and after a step.\<close>

inductive job_change :: "job_record \<Rightarrow> job_record \<Rightarrow> bool" where
  change_none: "job_change r r"
| change_start: "jr_status r = QUEUED \<Longrightarrow> job_change r (r\<lparr>jr_status := RUNNING, jr_started_at := Some t\<rparr>)"
| change_done: "jr_status r = RUNNING \<Longrightarrow> job_change r (r\<lparr>jr_result := Some res, jr_status := SUCCEEDED\<rparr>)"
| change_fail: "\<not> terminal (jr_status r) \<Longrightarrow> job_change r (mark_failed code e m h d t r)"
| change_finish: "terminal (jr_status r) \<Longrightarrow> jr_finished_at r = None \<Longrightarrow> job_change r (r\<lparr>jr_finished_at := Some t\<rparr>)"

text \<open>What the phase of the task says about the status of the job.\<close>

fun phase_ok :: "task_phase option \<Rightarrow> run_job_status \<Rightarrow> bool" where
  "phase_ok None s = (s = QUEUED \<or> s = FAILED)"
| "phase_ok (Some T_Pending) s = (s = QUEUED \<or> s = FAILED)"
| "phase_ok (Some T_Started) s = (s = RUNNING \<or> s = FAILED)"
| "phase_ok (Some T_Working) s = (s = RUNNING \<or> s = FAILED)"
| "phase_ok (Some T_Failing) s = (s = FAILED)"
| "phase_ok (Some T_Cancelled) s = (s = QUEUED \<or> s = FAILED)"
| "phase_ok (Some T_Finishing) s = terminal s"
| "phase_ok (Some T_Observing) s = terminal s"
| "phase_ok (Some T_Done) s = terminal s"

definition record_ok :: "job_record \<Rightarrow> bool" where
  "record_ok r \<longleftrightarrow>
     (jr_status r = QUEUED \<longrightarrow> jr_started_at r = None) \<and>
     (jr_started_at r = None \<longrightarrow> jr_status r = QUEUED \<or> jr_status r = FAILED) \<and>
     (jr_result r \<noteq> None \<longleftrightarrow> jr_status r = SUCCEEDED) \<and>
     (jr_error_code r \<noteq> None \<longleftrightarrow> jr_status r = FAILED) \<and>
     (jr_status r = FAILED \<longrightarrow> jr_finished_at r \<noteq> None) \<and>
     (jr_finished_at r \<noteq> None \<longrightarrow> terminal (jr_status r))"

definition count_of :: "(job_record \<Rightarrow> bool) \<Rightarrow> 'f job_queue \<Rightarrow> int" where
  "count_of P q = dict_sum (\<lambda>r. if P r then 1 else 0) (q_jobs q)"

lemma jobs_where_count: "jobs_where P q = count_of P q"
proof -
  have "int (length (filter P (dict_values d))) = (\<Sum>p\<leftarrow>d. if P (snd p) then 1 else 0)" for d :: "(string, job_record) dict"
    by (induction d) auto
  then show ?thesis unfolding jobs_where_def count_of_def dict_sum_def by blast
qed

lemma count_of_update:
  assumes "dict_wf (q_jobs q)" and "dict_get (q_jobs q) i = Some r"
  shows "count_of P (update_job i f q) = count_of P q + (if P (f r) then 1 else 0) - (if P r then 1 else 0)"
proof -
  have "dict_wf d \<Longrightarrow> dict_get d i = Some r \<Longrightarrow>
      dict_sum g (map (\<lambda>(k, r). (k, if k = i then f r else r)) d) = dict_sum g d + g (f r) - g r"
    for g :: "job_record \<Rightarrow> int" and d
  proof (induction d)
    case (Cons p d)
    obtain k x where p: "p = (k, x)" by (cases p)
    show ?case
    proof (cases "k = i")
      case True
      have "i \<notin> set (dict_keys d)" using Cons.prems(1) p True by (simp add: dict_wf_def)
      then have "map (\<lambda>(k, r). (k, if k = i then f r else r)) d = d"
        by (intro map_idI) (auto simp: image_iff)
      then show ?thesis using p True Cons.prems(2) by simp
    next
      case False
      then show ?thesis using Cons p by (simp add: dict_wf_def)
    qed
  qed simp
  from this [OF assms] show ?thesis by (simp add: count_of_def update_job_def)
qed

section \<open>The invariant of the queue\<close>

definition job_ok :: "'f job_queue \<Rightarrow> bool" where
  "job_ok q \<longleftrightarrow> dict_wf (q_jobs q) \<and> dict_wf (q_tasks q) \<and>
     (\<forall>i r. dict_get (q_jobs q) i = Some r \<longrightarrow> jr_id r = i \<and> record_ok r \<and> phase_ok (phase_of q i) (jr_status r)) \<and>
     (\<forall>i. dict_get (q_jobs q) i = None \<longrightarrow> phase_of q i = None) \<and>
     (\<forall>i s. (i, s) \<in> set (q_unsubmitted q) \<longrightarrow> dict_get (q_jobs q) i \<noteq> None \<and> phase_of q i = None) \<and>
     distinct (map fst (q_unsubmitted q)) \<and>
     (\<forall>c. dict_get_or 0 (q_failure_counts q) c = count_of (\<lambda>r. jr_error_code r = Some c) q)"

lemma job_okD:
  assumes "job_ok q" and "dict_get (q_jobs q) i = Some r"
  shows "jr_id r = i" and "record_ok r" and "phase_ok (phase_of q i) (jr_status r)"
  using assms by (auto simp: job_ok_def)

lemma task_has_job: "job_ok q \<Longrightarrow> phase_of q i = Some p \<Longrightarrow> \<exists>r. dict_get (q_jobs q) i = Some r"
  unfolding job_ok_def by (metis not_None_eq)

lemma job_ok_unsubmitted:
  "job_ok q \<Longrightarrow> (i, s) \<in> set (q_unsubmitted q) \<Longrightarrow> dict_get (q_jobs q) i \<noteq> None \<and> phase_of q i = None"
  unfolding job_ok_def by blast

lemma job_ok_init: "job_ok (job_queue_init n store t m)"
  by (simp add: job_ok_def job_queue_init_def phase_of_def count_of_def dict_get_or_def)

text \<open>A step that changes one record and the phase of its task.\<close>

lemma job_ok_change:
  assumes ok: "job_ok q" and r: "dict_get (q_jobs q) i = Some r"
    and jobs: "q_jobs q' = q_jobs (update_job i f q)" and keys: "dict_keys (q_tasks q') = dict_keys (q_tasks q)"
    and phase: "\<And>k. phase_of q' k = (if k = i then p else phase_of q k)" and some: "p = None \<longleftrightarrow> phase_of q i = None"
    and uns: "q_unsubmitted q' = q_unsubmitted q"
    and counts: "\<And>c. dict_get_or 0 (q_failure_counts q') c = dict_get_or 0 (q_failure_counts q) c +
      (if jr_error_code (f r) = Some c then 1 else 0) - (if jr_error_code r = Some c then 1 else 0)"
    and new: "jr_id (f r) = i" "record_ok (f r)" "phase_ok p (jr_status (f r))"
  shows "job_ok q'"
proof -
  have wf: "dict_wf (q_jobs q)" "dict_wf (q_tasks q)" using ok by (auto simp: job_ok_def)
  have "count_of P q' = count_of P (update_job i f q)" for P by (simp add: count_of_def jobs)
  then have c: "dict_get_or 0 (q_failure_counts q') c = count_of (\<lambda>r. jr_error_code r = Some c) q'" for c
    using counts [of c] ok count_of_update [OF wf(1) r, of "\<lambda>r. jr_error_code r = Some c" f] by (simp add: job_ok_def)
  have "dict_wf (q_jobs q')" "dict_wf (q_tasks q')"
    using wf update_job_fields(12) [of i f q] keys unfolding dict_wf_def jobs by (simp_all only:)
  moreover have "\<forall>k r'. dict_get (q_jobs q') k = Some r' \<longrightarrow> jr_id r' = k \<and> record_ok r' \<and> phase_ok (phase_of q' k) (jr_status r')"
    using ok new r unfolding job_ok_def jobs phase by auto
  moreover have "\<forall>k. dict_get (q_jobs q') k = None \<longrightarrow> phase_of q' k = None"
    using ok r unfolding job_ok_def jobs phase by auto
  moreover have "\<forall>k s. (k, s) \<in> set (q_unsubmitted q') \<longrightarrow> dict_get (q_jobs q') k \<noteq> None \<and> phase_of q' k = None"
    using ok some unfolding job_ok_def jobs phase uns get_update_job by (metis option.map_disc_iff)
  moreover have "distinct (map fst (q_unsubmitted q'))" using ok unfolding uns job_ok_def by blast
  ultimately show ?thesis unfolding job_ok_def using c by blast
qed

lemma update_job_id [simp]: "update_job i (\<lambda>r. r) q = q"
proof -
  have "map (\<lambda>(k, r). (k, if k = i then r else r)) (q_jobs q) = q_jobs q" by (rule map_idI) auto
  then show ?thesis by (simp add: update_job_def)
qed

lemma job_ok_phase:
  assumes ok: "job_ok q" and old: "phase_of q i = Some p0"
    and "q_jobs q' = q_jobs q" and "dict_keys (q_tasks q') = dict_keys (q_tasks q)"
    and "\<And>k. phase_of q' k = (if k = i then Some p else phase_of q k)"
    and "q_unsubmitted q' = q_unsubmitted q" and "q_failure_counts q' = q_failure_counts q"
    and "\<And>s. phase_ok (Some p0) s \<Longrightarrow> phase_ok (Some p) s"
  shows "job_ok q'"
proof -
  obtain r where r: "dict_get (q_jobs q) i = Some r" using task_has_job [OF ok old] by blast
  note d = job_okD [OF ok r]
  show ?thesis
    by (rule job_ok_change [OF ok r, where f = "\<lambda>r. r" and p = "Some p"]) (use assms d in auto)
qed

lemma job_ok_same:
  assumes "job_ok q" and "q_jobs q' = q_jobs q" and "q_tasks q' = q_tasks q"
    and "q_unsubmitted q' = q_unsubmitted q" and "q_failure_counts q' = q_failure_counts q"
  shows "job_ok q'"
  using assms by (simp add: job_ok_def phase_of_def count_of_def)

section \<open>Every operation keeps the invariant\<close>

lemma insert_ok:
  assumes "job_ok q" and "dict_get (q_jobs q) i = None"
  shows "job_ok (enqueue_insert i now req sid q)"
proof -
  let ?q = "enqueue_insert i now req sid q"
  have fresh: "i \<notin> set (dict_keys (q_jobs q))" using assms(2) unfolding keys_get by simp
  have ph: "phase_of ?q k = phase_of q k" for k by (simp add: phase_of_def enqueue_insert_def)
  have jobs: "q_jobs ?q = q_jobs q @ [(i, new_job i req now)]"
    by (simp add: enqueue_insert_def set_fresh [OF fresh])
  have none: "phase_of q i = None" using assms by (simp add: job_ok_def)
  have uns: "i \<notin> set (map fst (q_unsubmitted q))" using assms by (force simp: job_ok_def)
  have cnt: "count_of P ?q = count_of P q + (if P (new_job i req now) then 1 else 0)" for P
    by (simp add: count_of_def jobs dict_sum_def)
  have get: "dict_get (q_jobs ?q) k = (if k = i then Some (new_job i req now) else dict_get (q_jobs q) k)" for k
    by (simp add: enqueue_insert_def get_set)
  have "record_ok (new_job i req now)" "jr_id (new_job i req now) = i" "jr_status (new_job i req now) = QUEUED"
      "jr_error_code (new_job i req now) = None"
    by (simp_all add: record_ok_def new_job_def)
  then show ?thesis
    using assms(1) none uns
    unfolding job_ok_def ph get cnt by (auto simp: enqueue_insert_def wf_set)
qed

lemma remove1_keys:
  assumes "distinct (map fst xs)" and "(i, s0) \<in> set xs" and "(k, s) \<in> set (remove1 (i, s0) xs)"
  shows "k \<noteq> i \<and> (k, s) \<in> set xs"
proof -
  have "distinct xs" using assms(1) by (simp add: distinct_map)
  then have "(k, s) \<in> set xs" "(k, s) \<noteq> (i, s0)" using assms(3) by auto
  then show ?thesis using eq_key_imp_eq_value [OF assms(1)] assms(2) by blast
qed

lemma distinct_keys_remove1: "distinct (map fst xs) \<Longrightarrow> distinct (map fst (remove1 x xs))"
proof (induction xs)
  case (Cons y xs)
  then show ?case using set_remove1_subset [of x xs] by auto
qed simp

lemma submit_ok:
  assumes "job_ok q" and "(i, sid) \<in> set (q_unsubmitted q)"
  shows "job_ok (snd (enqueue_submit i sid q))"
proof -
  let ?q = "snd (enqueue_submit i sid q)"
  have d: "distinct (map fst (q_unsubmitted q))" using assms(1) by (simp add: job_ok_def)
  obtain r where r: "dict_get (q_jobs q) i = Some r" and none: "phase_of q i = None"
    using assms by (auto simp: job_ok_def)
  have st: "jr_status r = QUEUED \<or> jr_status r = FAILED" using job_okD(3) [OF assms(1) r] none by simp
  have uns: "q_unsubmitted ?q = remove1 (i, sid) (q_unsubmitted q)" by (simp add: enqueue_submit_def Let_def)
  have rest: "(k, s) \<in> set (remove1 (i, sid) (q_unsubmitted q)) \<Longrightarrow> k \<noteq> i \<and> (k, s) \<in> set (q_unsubmitted q)" for k s
    using remove1_keys [OF d assms(2)] by blast
  have ph: "phase_of ?q k = (if k = i \<and> \<not> q_executor_shutdown q then Some T_Pending else phase_of q k)" for k
    by (simp add: enqueue_submit_def Let_def phase_of_def get_set)
  have same: "q_jobs ?q = q_jobs q" "q_failure_counts ?q = q_failure_counts q" "count_of P ?q = count_of P q" for P
    by (simp_all add: enqueue_submit_def Let_def count_of_def)
  have "distinct (map fst (remove1 (i, sid) (q_unsubmitted q)))"
    using d by (rule distinct_keys_remove1)
  moreover have "dict_wf (q_tasks ?q)" using assms(1) by (simp add: enqueue_submit_def Let_def job_ok_def wf_set)
  moreover have "\<forall>k r'. dict_get (q_jobs q) k = Some r' \<longrightarrow> jr_id r' = k \<and> record_ok r' \<and>
      phase_ok (if k = i \<and> \<not> q_executor_shutdown q then Some T_Pending else phase_of q k) (jr_status r')"
    using job_okD [OF assms(1)] r st by auto
  moreover have "\<forall>k. dict_get (q_jobs q) k = None \<longrightarrow> (if k = i \<and> \<not> q_executor_shutdown q then Some T_Pending else phase_of q k) = None"
    using assms(1) r by (auto simp: job_ok_def)
  moreover have "\<forall>k s. (k, s) \<in> set (remove1 (i, sid) (q_unsubmitted q)) \<longrightarrow> dict_get (q_jobs q) k \<noteq> None \<and>
      (if k = i \<and> \<not> q_executor_shutdown q then Some T_Pending else phase_of q k) = None"
  proof (intro allI impI)
    fix k s
    assume "(k, s) \<in> set (remove1 (i, sid) (q_unsubmitted q))"
    from rest [OF this] have "k \<noteq> i" "(k, s) \<in> set (q_unsubmitted q)" by blast+
    then show "dict_get (q_jobs q) k \<noteq> None \<and> (if k = i \<and> \<not> q_executor_shutdown q then Some T_Pending else phase_of q k) = None"
      using job_ok_unsubmitted [OF assms(1), of k s] by simp
  qed
  ultimately show ?thesis
    using assms(1) unfolding job_ok_def ph same uns by blast
qed

lemma phase_frame [simp]:
  "phase_of (q_timers_update a q) k = phase_of q k" "phase_of (q_metrics_update b q) k = phase_of q k"
  "phase_of (q_failure_counts_update c q) k = phase_of q k" "phase_of (q_cancel_events_update d q) k = phase_of q k"
  "phase_of (q_failed_outside_update e q) k = phase_of q k" "phase_of (q_jobs_update f q) k = phase_of q k"
  "phase_of (q_store_update g q) k = phase_of q k" "phase_of (q_entering_update h q) k = phase_of q k"
  by (simp_all add: phase_of_def)

lemma update_job_frame [simp]:
  "update_job i f (q_timers_update a q) = q_timers_update a (update_job i f q)"
  by (simp add: update_job_def)

lemma can_start_pending: "can_start i q \<Longrightarrow> dict_wf (q_tasks q) \<Longrightarrow> phase_of q i = Some T_Pending"
proof -
  assume s: "can_start i q" and wf: "dict_wf (q_tasks q)"
  then obtain sp rest where "filter (\<lambda>(k, s, p). p = T_Pending) (q_tasks q) = (i, sp) # rest"
    by (auto simp: can_start_def first_pending_def split: list.splits)
  then have "(i, sp) \<in> set (filter (\<lambda>(k, s, p). p = T_Pending) (q_tasks q))" by simp
  then have "dict_get (q_tasks q) i = Some sp" "snd sp = T_Pending"
    using wf_in_get [OF wf] by (auto simp: case_prod_beta)
  then show ?thesis by (simp add: phase_of_def)
qed

lemma record_ok_failed: "record_ok r \<Longrightarrow> record_ok (mark_failed code e m h d t r)" if "\<not> terminal (jr_status r)"
  using that by (auto simp: record_ok_def mark_failed_def terminal_def)

lemma begin_ok:
  assumes "job_ok q" and "can_start i q"
  shows "job_ok (run_begin i now q)"
proof -
  have p: "phase_of q i = Some T_Pending" using can_start_pending assms by (auto simp: job_ok_def)
  obtain r where r: "dict_get (q_jobs q) i = Some r" using task_has_job [OF assms(1) p] by blast
  note d = job_okD [OF assms(1) r, unfolded p]
  show ?thesis
  proof (cases "jr_status r = FAILED")
    case True
    have "job_ok (set_phase i T_Done q)"
      by (rule job_ok_change [OF assms(1) r, where f = "\<lambda>r. r" and p = "Some T_Done"]) (use d p True in \<open>auto simp: terminal_def\<close>)
    then show ?thesis by (simp add: run_begin_def r True)
  next
    case False
    then have q: "jr_status r = QUEUED" using d(3) by simp
    then have rec: "record_ok (r\<lparr>jr_status := RUNNING, jr_started_at := Some now\<rparr>)" "jr_error_code r = None"
      using d(2) by (auto simp: record_ok_def terminal_def)
    have "job_ok (set_phase i T_Started (update_job i (\<lambda>r. r\<lparr>jr_status := RUNNING, jr_started_at := Some now\<rparr>) q))"
      by (rule job_ok_change [OF assms(1) r, where p = "Some T_Started" and f = "\<lambda>r. r\<lparr>jr_status := RUNNING, jr_started_at := Some now\<rparr>"])
         (use d p rec in auto)
    then show ?thesis by (simp add: run_begin_def r q)
  qed
qed

lemma arm_ok: "job_ok q \<Longrightarrow> phase_of q i = Some T_Started \<Longrightarrow> job_ok (arm_timer i q)"
  unfolding arm_timer_def by (rule job_ok_phase [where i = i and p = T_Working and p0 = T_Started and q = q]) auto

lemma complete_ok_ok:
  assumes "job_ok q" and p: "phase_of q i = Some T_Working"
  shows "job_ok (complete_ok i res q)"
proof -
  obtain r where r: "dict_get (q_jobs q) i = Some r" using task_has_job [OF assms] by blast
  note d = job_okD [OF assms(1) r, unfolded p]
  show ?thesis
  proof (cases "jr_status r = RUNNING")
    case True
    then have rec: "record_ok (r\<lparr>jr_result := Some res, jr_status := SUCCEEDED\<rparr>)" "jr_error_code r = None"
      using d(2) by (auto simp: record_ok_def terminal_def)
    have "job_ok (set_phase i T_Finishing (update_job i (\<lambda>r. r\<lparr>jr_result := Some res, jr_status := SUCCEEDED\<rparr>) q))"
      by (rule job_ok_change [OF assms(1) r, where p = "Some T_Finishing" and f = "\<lambda>r. r\<lparr>jr_result := Some res, jr_status := SUCCEEDED\<rparr>"])
         (use d p rec in \<open>auto simp: terminal_def\<close>)
    then show ?thesis by (simp add: complete_ok_def r True)
  next
    case False
    have "job_ok (set_phase i T_Finishing q)"
      by (rule job_ok_change [OF assms(1) r, where f = "\<lambda>r. r" and p = "Some T_Finishing"])
         (use d p False in \<open>auto simp: terminal_def\<close>)
    then show ?thesis by (simp add: complete_ok_def r False)
  qed
qed

lemma fail_record_ok:
  assumes "job_ok q" and p: "phase_of q i = Some T_Working"
  shows "job_ok (fail_record i e now q)"
proof -
  obtain r where r: "dict_get (q_jobs q) i = Some r" using task_has_job [OF assms] by blast
  obtain code extra hint where c: "classify_exn e = (code, extra, hint)" by (rule prod_cases3)
  note d = job_okD [OF assms(1) r, unfolded p]
  show ?thesis
  proof (cases "jr_status r = RUNNING")
    case True
    let ?f = "mark_failed code (exn_text e) (exn_text e) hint (failure_detail code (exn_text e) extra hint) now"
    let ?q = "(update_job i ?f q)\<lparr>q_failure_counts := bump code (q_failure_counts (update_job i ?f q))\<rparr>"
    have rec: "record_ok (?f r)" "jr_error_code r = None" "jr_error_code (?f r) = Some code" "jr_id (?f r) = jr_id r"
        "jr_status (?f r) = FAILED"
      using record_ok_failed [OF _ d(2)] True d(2) by (auto simp: record_ok_def terminal_def mark_failed_def)
    have "job_ok (set_phase i T_Failing ?q)"
      by (rule job_ok_change [OF assms(1) r, where p = "Some T_Failing" and f = ?f])
         (use d p rec in \<open>auto simp: bump_get\<close>)
    then show ?thesis by (simp add: fail_record_def c r True Let_def)
  next
    case False
    have "job_ok (set_phase i T_Finishing q)"
      by (rule job_ok_change [OF assms(1) r, where f = "\<lambda>r. r" and p = "Some T_Finishing"])
         (use d p False in \<open>auto simp: terminal_def\<close>)
    then show ?thesis by (simp add: fail_record_def c r False)
  qed
qed

lemma cleanup_ok:
  assumes "job_ok q" and p: "phase_of q i = Some T_Finishing"
  shows "job_ok (run_cleanup i now q)"
proof -
  obtain r where r: "dict_get (q_jobs q) i = Some r" using task_has_job [OF assms] by blast
  note d = job_okD [OF assms(1) r, unfolded p]
  let ?f = "\<lambda>r. if jr_finished_at r = None \<and> terminal (jr_status r) then r\<lparr>jr_finished_at := Some now\<rparr> else r"
  have rec: "record_ok (?f r)" "jr_error_code (?f r) = jr_error_code r" "jr_id (?f r) = jr_id r" "jr_status (?f r) = jr_status r"
    using d(2,3) by (auto simp: record_ok_def)
  show ?thesis unfolding run_cleanup_def Let_def
    by (rule job_ok_change [OF assms(1) r, where f = ?f and p = "Some T_Observing"])
       (use d p rec in \<open>simp_all del: if_split\<close>)
qed

lemma observe_ok:
  assumes "job_ok q" and p: "phase_of q i = Some T_Observing"
  shows "job_ok (observe_metrics i now q)"
proof -
  obtain r where r: "dict_get (q_jobs q) i = Some r" using task_has_job [OF assms] by blast
  have "job_ok (set_phase i T_Done (q\<lparr>q_metrics := m\<rparr>))" for m
    by (rule job_ok_phase [OF assms(1) p, where p = T_Done]) (auto simp: p)
  then show ?thesis by (simp add: observe_metrics_def r Let_def)
qed

lemma fail_outside_ok:
  assumes "job_ok q" and r: "dict_get (q_jobs q) i = Some r" and st: "\<not> terminal (jr_status r)"
  shows "job_ok (fail_outside i code e m h d now q)"
proof -
  note dd = job_okD [OF assms(1,2)]
  let ?f = "mark_failed code e m h d now"
  have rec: "record_ok (?f r)" "jr_error_code r = None" "jr_error_code (?f r) = Some code" "jr_id (?f r) = jr_id r"
      "jr_status (?f r) = FAILED"
    using record_ok_failed [OF st dd(2)] st dd(2) by (auto simp: record_ok_def terminal_def mark_failed_def)
  let ?p = "if i \<in> set (q_futures q) \<and> phase_of q i = Some T_Pending then Some T_Cancelled else phase_of q i"
  have "phase_ok ?p FAILED"
    using dd(3) st by (cases "phase_of q i") (auto simp: terminal_def elim!: phase_ok.elims)
  then show ?thesis
    unfolding fail_outside_def Let_def
    by (intro job_ok_change [OF assms(1,2), where f = ?f and p = ?p])
       (use dd rec in \<open>auto simp: phase_future_cancel bump_get\<close>)
qed

lemma cancel_ok: "job_ok q \<Longrightarrow> job_ok (snd (cancel i reason now q))"
  by (auto simp: cancel_def intro: fail_outside_ok split: option.split)

lemma timeout_ok: "job_ok q \<Longrightarrow> job_ok (timeout_job i now q)"
  by (auto simp: timeout_job_def terminal_def intro: fail_outside_ok split: option.split)

lemma executor_shutdown_ok:
  assumes "job_ok q"
  shows "job_ok (executor_shutdown q)"
proof -
  have "dict_get (map (\<lambda>(k, s, p). (k, s, if p = T_Pending then T_Cancelled else p)) d) i =
      map_option (\<lambda>(s, p). (s, if p = T_Pending then T_Cancelled else p)) (dict_get d i)"
    for d :: "(string, string \<times> task_phase) dict" and i by (induction d) auto
  then have ph: "phase_of (executor_shutdown q) i =
      (if phase_of q i = Some T_Pending then Some T_Cancelled else phase_of q i)" for i
    by (cases "dict_get (q_tasks q) i") (auto simp: phase_of_def executor_shutdown_def)
  have keys: "dict_keys (q_tasks (executor_shutdown q)) = dict_keys (q_tasks q)"
    by (simp add: executor_shutdown_def case_prod_beta)
  have po: "phase_ok (phase_of q i) s \<Longrightarrow> phase_ok (phase_of (executor_shutdown q) i) s" for i s
    by (auto simp: ph)
  have same: "q_jobs (executor_shutdown q) = q_jobs q" "q_unsubmitted (executor_shutdown q) = q_unsubmitted q"
      "q_failure_counts (executor_shutdown q) = q_failure_counts q"
      "count_of P (executor_shutdown q) = count_of P q" for P
    by (simp_all add: executor_shutdown_def count_of_def)
  have none: "phase_of q i = None \<Longrightarrow> phase_of (executor_shutdown q) i = None" for i by (simp add: ph)
  have "\<forall>i r. dict_get (q_jobs q) i = Some r \<longrightarrow> jr_id r = i \<and> record_ok r \<and> phase_ok (phase_of (executor_shutdown q) i) (jr_status r)"
    using job_okD [OF assms] po by blast
  moreover have "\<forall>i. dict_get (q_jobs q) i = None \<longrightarrow> phase_of (executor_shutdown q) i = None"
    using assms none unfolding job_ok_def by blast
  moreover have "\<forall>i s. (i, s) \<in> set (q_unsubmitted q) \<longrightarrow> dict_get (q_jobs q) i \<noteq> None \<and> phase_of (executor_shutdown q) i = None"
    using job_ok_unsubmitted [OF assms] none by blast
  moreover have "dict_wf (q_tasks (executor_shutdown q))"
    using assms unfolding job_ok_def dict_wf_def keys by blast
  ultimately show ?thesis
    using assms unfolding job_ok_def same by blast
qed

lemma step_ok: "job_step C w q e q' \<Longrightarrow> job_ok q \<Longrightarrow> job_ok q'"
proof (induction rule: job_step.induct)
  case (step_enter req sid q q')
  then show ?case
    by - (rule job_ok_same [where q = q], auto simp: enqueue_enter_def split: sum.splits)
next
  case (step_store_failure q i now)
  then show ?case by (rule_tac job_ok_phase [where i = i and p = T_Finishing and p0 = T_Failing and q = q]) (auto simp: terminal_def)
next
  case (step_store_outside i q now)
  then show ?case by - (rule job_ok_same [where q = q], auto)
next
  case (step_worker q i run now)
  then show ?case by - (rule job_ok_same [where q = q], auto simp: worker_store_def)
next
  case (step_assign i q)
  then show ?case by - (rule job_ok_same [where q = q], auto simp: enqueue_assign_def)
next
  case (step_shutdown_flag q)
  then show ?case by - (rule job_ok_same [where q = q], auto simp: shutdown_flag_def)
qed (auto intro: insert_ok submit_ok begin_ok arm_ok complete_ok_ok fail_record_ok cleanup_ok observe_ok
    cancel_ok timeout_ok executor_shutdown_ok)

section \<open>What a step does to one job\<close>

lemma fail_outside_get:
  "dict_get (q_jobs (fail_outside i c e m h d now q)) k =
     (if k = i then map_option (mark_failed c e m h d now) (dict_get (q_jobs q) k) else dict_get (q_jobs q) k)"
  by (simp add: fail_outside_def Let_def)

lemmas job_ops = enqueue_enter_def enqueue_submit_def enqueue_assign_def run_begin_def arm_timer_def worker_store_def
  complete_ok_def run_cleanup_def observe_metrics_def shutdown_flag_def executor_shutdown_def Let_def

text \<open>Every record changes as \<open>job_change\<close> says, and only an insertion adds one.\<close>

lemma step_change:
  assumes "job_step C w q e q'" and "job_ok q" and "dict_get (q_jobs q) k = Some r"
  shows "\<exists>r'. dict_get (q_jobs q') k = Some r' \<and> job_change r r'"
  using assms
proof (induction rule: job_step.induct)
  case (step_enter req sid q q')
  then show ?case by (auto simp: job_ops intro: change_none split: sum.splits)
next
  case (step_insert req sid q i now)
  then show ?case by (auto simp: enqueue_insert_def get_set intro: change_none)
next
  case (step_begin i q now)
  then have p: "phase_of q i = Some T_Pending" using can_start_pending by (auto simp: job_ok_def)
  show ?case
  proof (cases "k = i")
    case True
    then have "jr_status r = QUEUED \<or> jr_status r = FAILED" using job_okD(3) [OF step_begin(2,3)] p by simp
    then show ?thesis using step_begin(3) True by (auto simp: run_begin_def intro: change_none change_start)
  next
    case False
    then show ?thesis
      using step_begin(3) by (auto simp: run_begin_def intro: change_none split: option.split)
  qed
next
  case (step_return q i run)
  then show ?case by (cases "k = i") (auto simp: complete_ok_def intro: change_none change_done split: option.split)
next
  case (step_raise q i e now)
  show ?case
  proof (cases "k = i")
    case True
    then show ?thesis
      using step_raise(3)
      by (auto simp: fail_record_def Let_def terminal_def intro: change_none change_fail split: prod.split option.split)
  next
    case False
    then show ?thesis
      using step_raise(3) by (auto simp: fail_record_def Let_def intro: change_none split: prod.split option.split)
  qed
next
  case (step_cleanup q i now)
  then show ?case by (cases "k = i") (auto simp: job_ops intro: change_none change_finish)
next
  case (step_cancel q i reason now)
  then show ?case by (cases "k = i") (auto simp: cancel_def fail_outside_get intro: change_none change_fail split: option.split)
next
  case (step_timer q i now)
  then show ?case
    by (cases "k = i") (auto simp: timeout_job_def fail_outside_get terminal_def intro: change_none change_fail split: option.split)
qed (auto simp: job_ops intro: change_none split: option.split)

lemma step_keys:
  assumes "job_step C w q e q'"
  shows "dict_keys (q_jobs q') = dict_keys (q_jobs q) \<or>
    (\<exists>i now req sid. e = Insert i now req sid \<and> q' = enqueue_insert i now req sid q \<and> dict_get (q_jobs q) i = None \<and>
       (req, sid) \<in> set (q_entering q))"
  using assms
proof (induction rule: job_step.induct)
  case (step_raise q i e now)
  have "dict_keys (q_jobs (fail_record i e now q)) = dict_keys (q_jobs q)"
    unfolding fail_record_def Let_def by (simp split: prod.split option.split)
  then show ?case by blast
next
  case (step_cancel q i reason now)
  have "dict_keys (q_jobs (snd (cancel i reason now q))) = dict_keys (q_jobs q)"
    unfolding cancel_def fail_outside_def Let_def by (simp add: update_job_def case_prod_beta split: option.split)
  then show ?case by blast
next
  case (step_timer q i now)
  have "dict_keys (q_jobs (timeout_job i now q)) = dict_keys (q_jobs q)"
    unfolding timeout_job_def fail_outside_def Let_def by (simp add: update_job_def case_prod_beta split: option.split)
  then show ?case by blast
next
  case (step_insert req sid q i now)
  then show ?case by blast
qed (auto simp: job_ops update_job_def case_prod_beta split: option.split sum.splits)

section \<open>Runs of the queue\<close>

text \<open>
  \<open>record_before r r'\<close>: what stays of a job's record as time passes. The status never goes back;
  once it is terminal, nothing changes any more, except that a missing finish time is filled in.
\<close>

definition record_before :: "job_record \<Rightarrow> job_record \<Rightarrow> bool" where
  "record_before r r' \<longleftrightarrow>
     jr_id r' = jr_id r \<and> jr_request r' = jr_request r \<and> jr_created_at r' = jr_created_at r \<and>
     job_rank (jr_status r) \<le> job_rank (jr_status r') \<and>
     (terminal (jr_status r) \<longrightarrow> r'\<lparr>jr_finished_at := None\<rparr> = r\<lparr>jr_finished_at := None\<rparr> \<and>
        (jr_finished_at r \<noteq> None \<longrightarrow> r' = r))"

definition job_before :: "'f job_queue \<Rightarrow> 'f job_queue \<Rightarrow> bool" where
  "job_before q q' \<longleftrightarrow> (\<forall>i r. dict_get (q_jobs q) i = Some r \<longrightarrow>
     (\<exists>r'. dict_get (q_jobs q') i = Some r' \<and> record_before r r'))"

lemma record_before_refl: "record_before r r"
  by (simp add: record_before_def)

lemma job_rank_le: "job_rank s \<le> 2" "terminal s \<longleftrightarrow> job_rank s = 2"
  by (cases s; simp add: terminal_def)+

lemma record_before_trans:
  assumes "record_before r1 r2" and "record_before r2 r3"
  shows "record_before r1 r3"
proof -
  have t: "terminal (jr_status r2)" if "terminal (jr_status r1)"
    using that assms(1) job_rank_le(1) [of "jr_status r2"] by (simp add: record_before_def job_rank_le)
  then show ?thesis using assms by (auto simp: record_before_def)
qed

lemma change_before: "job_change r r' \<Longrightarrow> record_before r r'"
  by (induction rule: job_change.induct)
     (auto simp: record_before_def mark_failed_def terminal_def job_rank_le)

lemma step_job_before: "job_ok q \<Longrightarrow> job_step C w q e q' \<Longrightarrow> job_before q q'"
  unfolding job_before_def using step_change change_before by blast

interpretation jobs: step_machine "job_move C" job_ok job_before for C
proof (unfold_locales, goal_cases)
  case (1 s e s') then show ?case unfolding job_move_def by (rule step_ok [rotated])
next
  case (2 s e s') then show ?case unfolding job_move_def by (rule step_job_before)
next
  case (3 s) show ?case by (auto simp: job_before_def intro: record_before_refl)
next
  case (4 s1 s2 s3) then show ?case unfolding job_before_def by (meson record_before_trans)
qed

text \<open>
  C11. The first terminal status of a job wins. Along every interleaving of submissions, workers,
  cancellations, timers and shutdowns, a job that has succeeded or failed keeps its status, result
  and error for good: no late result and no late timeout overwrites them.
\<close>

theorem first_terminal_status_wins:
  assumes "runs (job_move C) (job_queue_init n store t m) es q" and "dict_get (q_jobs q) i = Some r"
    and "terminal (jr_status r)" and "runs (job_move C) q fs q'"
  shows "\<exists>r'. dict_get (q_jobs q') i = Some r' \<and> jr_status r' = jr_status r \<and> jr_result r' = jr_result r \<and>
    jr_error_code r' = jr_error_code r \<and> jr_error_detail r' = jr_error_detail r \<and>
    jr_request r' = jr_request r \<and> (jr_finished_at r \<noteq> None \<longrightarrow> jr_finished_at r' = jr_finished_at r)"
proof -
  have "job_ok q" using jobs.runs_ok [OF assms(1) job_ok_init] .
  from jobs.runs_before [OF assms(4) this] obtain r' where r': "dict_get (q_jobs q') i = Some r'" "record_before r r'"
    using assms(2) unfolding job_before_def by blast
  then have e: "r'\<lparr>jr_finished_at := None\<rparr> = r\<lparr>jr_finished_at := None\<rparr>" "jr_finished_at r \<noteq> None \<longrightarrow> r' = r"
    using assms(3) by (auto simp: record_before_def)
  have "f (r'\<lparr>jr_finished_at := None\<rparr>) = f (r\<lparr>jr_finished_at := None\<rparr>)" for f :: "job_record \<Rightarrow> 'x" by (simp add: e(1))
  from this [of jr_status] arg_cong [OF e(1), of jr_result] arg_cong [OF e(1), of jr_error_code]
    arg_cong [OF e(1), of jr_error_detail] arg_cong [OF e(1), of jr_request]
  show ?thesis using r' e(2) by auto
qed

text \<open>
  C12. What a job's record says is consistent in every reachable state: a result exactly for a job
  that succeeded, an error code exactly for one that failed, a start time for every job that runs
  or succeeded, a finish time for every failed one and for none that is still queued or running;
  and the failure counters count the failed jobs by code.
\<close>

theorem job_records_consistent:
  assumes "runs (job_move C) (job_queue_init n store t m) es q"
  shows "(\<forall>i r. dict_get (q_jobs q) i = Some r \<longrightarrow> jr_id r = i \<and> record_ok r) \<and>
    (\<forall>c. dict_get_or 0 (st_failure_codes (stats now q)) c = jobs_where (\<lambda>r. jr_error_code r = Some c) q)"
proof -
  have "job_ok q" using jobs.runs_ok [OF assms job_ok_init] .
  then show ?thesis by (auto simp: job_ok_def stats_def jobs_where_count)
qed

text \<open>The statistics add up: every job is in exactly one of the four states.\<close>

lemma stats_total: "st_total (stats now q) = st_queued (stats now q) + st_running (stats now q) +
    st_succeeded (stats now q) + st_failed (stats now q)"
proof -
  have "int (length rs) = int (length (filter (\<lambda>r. jr_status r = QUEUED) rs)) + int (length (filter (\<lambda>r. jr_status r = RUNNING) rs)) +
      int (length (filter (\<lambda>r. jr_status r = SUCCEEDED) rs)) + int (length (filter (\<lambda>r. jr_status r = FAILED) rs))" for rs
  proof (induction rs)
    case (Cons r rs)
    then show ?case by (cases "jr_status r") auto
  qed simp
  from this [of "dict_values (q_jobs q)"] show ?thesis by (simp add: stats_def jobs_where_def)
qed

section \<open>The bound on pending jobs\<close>

lemma count_of_mono:
  assumes "dict_keys (q_jobs q') = dict_keys (q_jobs q)" and "dict_wf (q_jobs q)"
    and "\<And>i r r'. dict_get (q_jobs q) i = Some r \<Longrightarrow> dict_get (q_jobs q') i = Some r' \<Longrightarrow> P r' \<Longrightarrow> P r"
  shows "count_of P q' \<le> count_of P q"
proof -
  have "dict_keys d' = dict_keys d \<Longrightarrow> dict_wf d \<Longrightarrow>
      (\<And>i r r'. dict_get d i = Some r \<Longrightarrow> dict_get d' i = Some r' \<Longrightarrow> P r' \<Longrightarrow> P r) \<Longrightarrow>
      dict_sum (\<lambda>r. if P r then 1 else 0) d' \<le> dict_sum (\<lambda>r. if P r then 1 else 0) d" for d d'
  proof (induction d' d rule: list_induct2')
    case (4 x xs y ys)
    obtain i a b where xy: "x = (i, a)" "y = (i, b)" using 4(2) by (cases x; cases y) auto
    have i: "i \<notin> set (dict_keys ys)" "i \<notin> set (dict_keys xs)" using 4(2,3) xy by (auto simp: dict_wf_def)
    have "dict_sum (\<lambda>r. if P r then 1 else 0) xs \<le> dict_sum (\<lambda>r. if P r then 1 else 0) ys"
    proof (rule 4(1))
      fix k r r'
      assume k: "dict_get ys k = Some r" "dict_get xs k = Some r'" "P r'"
      then have "k \<noteq> i" using i in_keysI by metis
      then show "P r" using 4(4) [of k r r'] k xy by simp
    qed (use 4(2,3) xy in \<open>auto simp: dict_wf_def\<close>)
    moreover have "P a \<Longrightarrow> P b" using 4(4) [of i b a] xy by simp
    ultimately show ?case using xy by simp
  qed auto
  from this [OF assms(1,2)] assms(3) show ?thesis unfolding count_of_def by blast
qed

lemma change_active: "job_change r r' \<Longrightarrow> active_status (jr_status r') \<Longrightarrow> active_status (jr_status r)"
  by (induction rule: job_change.induct) (auto simp: active_status_def mark_failed_def terminal_def)

lemma step_entering:
  assumes "job_step C w q e q'"
  shows "(\<exists>req sid. e = Enter req sid \<and> q_entering q' = (req, sid) # q_entering q \<and> active_jobs q < q_max_pending q \<and> q_jobs q' = q_jobs q)
    \<or> (\<exists>i now req sid. e = Insert i now req sid) \<or> q_entering q' = q_entering q"
  using assms
  by (induction rule: job_step.induct)
     (auto simp: job_ops enqueue_check_def fail_record_def cancel_def timeout_job_def fail_outside_def
        split: option.split prod.split sum.splits if_splits)

lemma step_max_pending: "job_step C w q e q' \<Longrightarrow> q_max_pending q' = q_max_pending q"
  by (induction rule: job_step.induct)
     (auto simp: job_ops enqueue_insert_def fail_record_def cancel_def timeout_job_def fail_outside_def
        split: option.split prod.split sum.splits)

inductive_cases step_InsertE: "job_step C w q (Insert i now req sid) q'"

text \<open>
  No two \<open>enqueue\<close> calls overlap between their check and their insertion.
\<close>

definition serial_move :: "('e, 'f) run_codec \<Rightarrow> 'f job_queue \<Rightarrow> job_event \<times> bool \<Rightarrow> 'f job_queue \<Rightarrow> bool" where
  "serial_move C q ew q' \<longleftrightarrow> job_move C q ew q' \<and> (\<forall>req sid. fst ew = Enter req sid \<longrightarrow> q_entering q = [])"

definition pending_ok :: "'f job_queue \<Rightarrow> bool" where
  "pending_ok q \<longleftrightarrow> active_jobs q + int (length (q_entering q)) \<le> q_max_pending q"

lemma step_active:
  assumes "job_step C w q e q'" and "job_ok q" and "dict_keys (q_jobs q') = dict_keys (q_jobs q)"
  shows "active_jobs q' \<le> active_jobs q"
proof -
  have "dict_wf (q_jobs q)" using assms(2) by (simp add: job_ok_def)
  from count_of_mono [OF assms(3) this, of "\<lambda>r. active_status (jr_status r)"] show ?thesis
    using step_change [OF assms(1,2)] change_active unfolding active_jobs_def jobs_where_count by fastforce
qed

lemma insert_active:
  assumes "dict_get (q_jobs q) i = None"
  shows "active_jobs (enqueue_insert i now req sid q) = active_jobs q + 1"
proof -
  have "i \<notin> set (dict_keys (q_jobs q))" using assms unfolding keys_get by simp
  then show ?thesis
    by (simp add: active_jobs_def jobs_where_def enqueue_insert_def set_fresh new_job_def active_status_def)
qed

lemma serial_pending:
  assumes "serial_move C q ew q'" and "job_ok q" and "pending_ok q"
  shows "pending_ok q'"
proof -
  obtain e w where ew: "ew = (e, w)" by (cases ew)
  have st: "job_step C w q e q'" using assms(1) by (simp add: serial_move_def job_move_def ew)
  note m = step_max_pending [OF st]
  consider (ins) i now req sid where "e = Insert i now req sid" "q' = enqueue_insert i now req sid q" "dict_get (q_jobs q) i = None"
      "(req, sid) \<in> set (q_entering q)"
    | (other) "dict_keys (q_jobs q') = dict_keys (q_jobs q)" "\<nexists>i now req sid. e = Insert i now req sid"
  proof (cases "\<exists>i now req sid. e = Insert i now req sid")
    case True
    then show ?thesis using st that(1) by (auto elim: step_InsertE)
  next
    case False
    then show ?thesis using step_keys [OF st] that(2) by blast
  qed
  then show ?thesis
  proof cases
    case ins
    then have "0 < length (q_entering q)" and "length (q_entering q') = length (q_entering q) - 1"
      by (auto simp: enqueue_insert_def length_remove1)
    then have "int (length (q_entering q')) = int (length (q_entering q)) - 1" by linarith
    then show ?thesis using assms(3) insert_active [OF ins(3)] ins(2) m by (simp add: pending_ok_def)
  next
    case other
    show ?thesis
    proof (cases "q_entering q' = q_entering q")
      case True
      then show ?thesis using step_active [OF st assms(2) other(1)] assms(3) m by (simp add: pending_ok_def)
    next
      case False
      then obtain req sid where en: "e = Enter req sid" "q_entering q' = (req, sid) # q_entering q"
          "active_jobs q < q_max_pending q" "q_jobs q' = q_jobs q"
        using step_entering [OF st] other(2) by blast
      then have "q_entering q = []" using assms(1) by (auto simp: serial_move_def ew)
      then show ?thesis using en m by (simp add: pending_ok_def active_jobs_def jobs_where_def)
    qed
  qed
qed

text \<open>
  C13. As long as no two \<open>enqueue\<close> calls overlap, the queue never holds more than \<open>max_pending\<close> jobs
  that are queued or running, whatever workers, timers and cancellations do.
\<close>

theorem pending_jobs_bounded:
  assumes "runs (serial_move C) (job_queue_init n store t m) es q" and "0 \<le> m"
  shows "active_jobs q \<le> m"
proof -
  have ini: "job_ok (job_queue_init n store t m)" "pending_ok (job_queue_init n store t m)"
      "q_max_pending (job_queue_init n store t m) = m"
    using assms(2) job_ok_init by (auto simp: pending_ok_def active_jobs_def jobs_where_def job_queue_init_def)
  have "job_ok q \<and> pending_ok q \<and> q_max_pending q = m"
    using assms(1) ini
  proof (induction rule: runs.induct)
    case (runs_cons s e s1 es s2)
    have "job_move C s e s1" using runs_cons(1) by (simp add: serial_move_def)
    then have "job_ok s1" "q_max_pending s1 = q_max_pending s"
      using step_ok step_max_pending runs_cons(4) by (auto simp: job_move_def)
    then show ?case using serial_pending [OF runs_cons(1)] runs_cons by simp
  qed simp
  then show ?thesis by (simp add: pending_ok_def)
qed

section \<open>Executing steps\<close>

text \<open>The step an event stands for, if it is enabled.\<close>

definition guarded :: "bool \<Rightarrow> 'a \<Rightarrow> 'a option" where
  "guarded b x = (if b then Some x else None)"

lemma guarded_Some [simp]: "guarded b x = Some y \<longleftrightarrow> b \<and> x = y"
  by (auto simp: guarded_def)

fun job_exec :: "('e, 'f) run_codec \<Rightarrow> bool \<Rightarrow> job_event \<Rightarrow> 'f job_queue \<Rightarrow> 'f job_queue option" where
  "job_exec C w (Enter req sid) q = guarded (fst (enqueue_enter req sid q) = Inr ()) (snd (enqueue_enter req sid q))"
| "job_exec C w (Insert i now req sid) q =
     guarded ((req, sid) \<in> set (q_entering q) \<and> dict_get (q_jobs q) i = None) (enqueue_insert i now req sid q)"
| "job_exec C w (Submit i sid) q = guarded ((i, sid) \<in> set (q_unsubmitted q)) (snd (enqueue_submit i sid q))"
| "job_exec C w (Assign i) q = guarded (i \<in> set (q_assigning q)) (enqueue_assign i q)"
| "job_exec C w (Begin i now) q = guarded (can_start i q) (run_begin i now q)"
| "job_exec C w (Arm i) q = guarded (phase_of q i = Some T_Started) (arm_timer i q)"
| "job_exec C w (WorkerStores i run now) q =
     guarded (phase_of q i = Some T_Working \<and> rr_id run = i) (worker_store C w now run q)"
| "job_exec C w (Return i run) q = guarded (phase_of q i = Some T_Working) (complete_ok i run q)"
| "job_exec C w (Raise i e now) q = guarded (phase_of q i = Some T_Working) (fail_record i e now q)"
| "job_exec C w (StoreFailure i now) q =
     guarded (phase_of q i = Some T_Failing) (set_phase i T_Finishing (persist_failure C w now i q))"
| "job_exec C w (StoreOutside i now) q = guarded (i \<in> set (q_failed_outside q))
     ((persist_failure C w now i q)\<lparr>q_failed_outside := remove1 i (q_failed_outside q)\<rparr>)"
| "job_exec C w (Cleanup i now) q = guarded (phase_of q i = Some T_Finishing) (run_cleanup i now q)"
| "job_exec C w (Observe i now) q = guarded (phase_of q i = Some T_Observing) (observe_metrics i now q)"
| "job_exec C w (Cancel i reason now) q = Some (snd (cancel i reason now q))"
| "job_exec C w (TimerFires i now) q =
     guarded (phase_of q i \<noteq> None \<and> phase_of q i \<noteq> Some T_Pending \<and> q_job_timeout_seconds q > 0) (timeout_job i now q)"
| "job_exec C w ShutdownFlag q = Some (shutdown_flag q)"
| "job_exec C w ExecutorShutdown q = guarded (q_shutdown q) (executor_shutdown q)"

lemma job_exec_step: "job_exec C w e q = Some q' \<longleftrightarrow> job_step C w q e q'"
proof
  show "job_exec C w e q = Some q' \<Longrightarrow> job_step C w q e q'"
    by (cases e) (auto intro: job_step.intros simp: prod_eq_iff)
  show "job_step C w q e q' \<Longrightarrow> job_exec C w e q = Some q'"
    by (induction rule: job_step.induct) auto
qed

fun job_execs :: "('e, 'f) run_codec \<Rightarrow> job_event list \<Rightarrow> 'f job_queue \<Rightarrow> 'f job_queue option" where
  "job_execs C [] q = Some q"
| "job_execs C (e # es) q = (case job_exec C True e q of None \<Rightarrow> None | Some q1 \<Rightarrow> job_execs C es q1)"

lemma job_execs_runs: "job_execs C es q = Some q' \<Longrightarrow> runs (job_move C) q (map (\<lambda>e. (e, True)) es) q'"
  by (induction es arbitrary: q) (auto simp: runs_Cons_iff job_move_def job_exec_step split: option.splits)

section \<open>Concrete runs\<close>

definition job_request :: run_experiment_request where
  "job_request = \<lparr>rq_preset = HEALTH, rq_hardware_target = ''sim_local'', rq_shot_budget = Some 500,
     rq_notes = None, rq_control_overrides = None, rq_mode = None\<rparr>"

definition demo_queue :: "run_response list job_queue" where
  "demo_queue = job_queue_init 1 (Some (store_init plain_codec 10 False None, None)) 90 1"

definition timeout_events :: "job_event list" where
  "timeout_events =
     [Enter job_request ''ann'', Insert ''j'' 1 job_request ''ann'', Submit ''j'' ''ann'', Assign ''j'',
      Begin ''j'' 2, Arm ''j'', TimerFires ''j'' 92, StoreOutside ''j'' 92]"

definition late_events :: "job_event list" where
  "late_events = [WorkerStores ''j'' (sample_run ''j'' 95) 95, Return ''j'' (sample_run ''j'' 95), Cleanup ''j'' 95, Observe ''j'' 95]"

definition state_after :: "job_event list \<Rightarrow> run_response list job_queue" where
  "state_after es = the (job_execs plain_codec es demo_queue)"

lemmas job_eval = demo_queue_def job_queue_init_def job_ops enqueue_check_def enqueue_insert_def new_job_def active_jobs_def
  jobs_where_def active_status_def can_start_def first_pending_def busy_workers_def occupies_worker_def phase_of_def
  set_phase_def update_job_def timeout_job_def fail_outside_def future_cancel_def mark_failed_def persist_failure_def
  guarded_def terminal_def bump_def dict_get_or_def

lemma timeout_run:
  shows "job_execs plain_codec timeout_events demo_queue = Some (state_after timeout_events)"
    and "\<exists>r. dict_get (q_jobs (state_after timeout_events)) ''j'' = Some r \<and> jr_status r = FAILED \<and> jr_error_code r = Some TIMEOUT"
    and "\<exists>st f run. q_store (state_after timeout_events) = Some (st, f) \<and> dict_get (xs_runs st) ''j'' = Some run \<and>
      rr_error_code run = Some TIMEOUT \<and> k_status (rr_kpis run) = FAIL"
  by (simp_all add: timeout_events_def state_after_def job_eval store_init_def store_add_def store_persist_def
      insert_run_def failure_run_def)

lemma late_run:
  shows "job_execs plain_codec (timeout_events @ late_events) demo_queue = Some (state_after (timeout_events @ late_events))"
    and "\<exists>r. dict_get (q_jobs (state_after (timeout_events @ late_events))) ''j'' = Some r \<and> jr_status r = FAILED \<and>
      jr_error_code r = Some TIMEOUT \<and> jr_result r = None"
    and "\<exists>st f run. q_store (state_after (timeout_events @ late_events)) = Some (st, f) \<and> dict_get (xs_runs st) ''j'' = Some run \<and>
      rr_error_code run = None \<and> k_status (rr_kpis run) = OK"
  by (simp_all add: timeout_events_def late_events_def state_after_def job_eval store_init_def store_add_def store_persist_def
      insert_run_def failure_run_def sample_run_def kpi_default_def run_record_failure_def)

lemma late_part: "runs (job_move plain_codec) (state_after timeout_events) (map (\<lambda>e. (e, True)) late_events)
    (state_after (timeout_events @ late_events))"
proof -
  have "job_execs plain_codec (es @ fs) q = (case job_execs plain_codec es q of None \<Rightarrow> None | Some q1 \<Rightarrow> job_execs plain_codec fs q1)"
    for es fs q by (induction es arbitrary: q) (auto split: option.split)
  then show ?thesis using timeout_run(1) late_run(1) by (intro job_execs_runs) simp
qed

theorem first_terminal_status_wins_witness:
  "\<exists>r. dict_get (q_jobs (state_after (timeout_events @ late_events))) ''j'' = Some r \<and> jr_status r = FAILED \<and> jr_result r = None"
proof -
  obtain r where r: "dict_get (q_jobs (state_after timeout_events)) ''j'' = Some r" "jr_status r = FAILED" using timeout_run(2) by blast
  have "runs (job_move plain_codec) demo_queue (map (\<lambda>e. (e, True)) timeout_events) (state_after timeout_events)"
    by (rule job_execs_runs [OF timeout_run(1)])
  from first_terminal_status_wins [OF this [unfolded demo_queue_def] r(1) _ late_part] r(2)
  show ?thesis using late_run(2) by (auto simp: terminal_def)
qed

theorem job_records_consistent_witness:
  "dict_get_or 0 (st_failure_codes (stats 100 (state_after timeout_events))) TIMEOUT = 1"
proof -
  have "runs (job_move plain_codec) demo_queue (map (\<lambda>e. (e, True)) timeout_events) (state_after timeout_events)"
    by (rule job_execs_runs [OF timeout_run(1)])
  from job_records_consistent [OF this [unfolded demo_queue_def], of 100]
  have "dict_get_or 0 (st_failure_codes (stats 100 (state_after timeout_events))) TIMEOUT
      = jobs_where (\<lambda>r. jr_error_code r = Some TIMEOUT) (state_after timeout_events)" by blast
  also have "\<dots> = 1" by (simp add: timeout_events_def state_after_def job_eval)
  finally show ?thesis .
qed

text \<open>
  The record in the experiment store does not share that guarantee: the engine stores its run
  under the job's id, so a worker that ends after its timeout replaces the stored failure by a
  success, while the job itself stays failed.
\<close>

theorem late_result_replaces_stored_failure:
  "\<exists>es q r st f run. runs (job_move plain_codec) demo_queue es q \<and>
     dict_get (q_jobs q) ''j'' = Some r \<and> jr_status r = FAILED \<and> jr_error_code r = Some TIMEOUT \<and>
     q_store q = Some (st, f) \<and> dict_get (xs_runs st) ''j'' = Some run \<and>
     rr_error_code run = None \<and> k_status (rr_kpis run) = OK"
  using job_execs_runs [OF late_run(1)] late_run(2,3) by blast

text \<open>
  The check and the insertion of \<open>enqueue\<close> are separate sections, so two overlapping calls can
  take a queue with one free place above its limit.
\<close>

theorem overlapping_enqueue_exceeds_limit:
  "\<exists>es q. runs (job_move C) (job_queue_init n store t 1) es q \<and> active_jobs q = 2"
proof -
  let ?es = "[Enter job_request ''ann'', Enter job_request ''bob'', Insert ''i'' 1 job_request ''ann'', Insert ''j'' 1 job_request ''bob'']"
  obtain q where "job_execs C ?es (job_queue_init n store t 1) = Some q" "active_jobs q = 2" by (simp add: job_eval)
  then show ?thesis using job_execs_runs by blast
qed

theorem pending_jobs_bounded_witness:
  "active_jobs (state_after [Enter job_request ''ann'', Insert ''j'' 1 job_request ''ann'']) \<le> 1"
proof -
  let ?es = "[(Enter job_request ''ann'', True), (Insert ''j'' 1 job_request ''ann'', True)]"
  have "runs (serial_move plain_codec) demo_queue ?es (state_after [Enter job_request ''ann'', Insert ''j'' 1 job_request ''ann''])"
    by (auto simp: runs_Cons_iff serial_move_def job_move_def state_after_def simp flip: job_exec_step)
       (simp_all add: job_eval)
  from pending_jobs_bounded [OF this [unfolded demo_queue_def]] show ?thesis by simp
qed

end
