(* ===== verification/Prime_Moduli.thy ===== *)
theory Prime_Moduli
  imports Synqc_Prelude
begin

text \<open>
  Prime numbers as the RSA add-on needs them: a test by trial that computes, Euclid's lemma,
  Fermat's little theorem, square roots of one, and the exponent identity behind RSA. The number
  theory sessions of the distribution are not imported; the proofs start from divisibility.
\<close>

named_theorems mod_simps \<open>moving \<open>mod\<close> through sums, products and powers\<close>

declare mod_mult_eq [mod_simps] mod_mult_left_eq [mod_simps] mod_mult_right_eq [mod_simps]
  power_mod [mod_simps]

definition is_prime :: "int \<Rightarrow> bool" where
  "is_prime p = (1 < p \<and> list_all (\<lambda>d. \<not> d dvd p) [2..p - 1])"

lemma is_prime_iff: "is_prime p \<longleftrightarrow> 1 < p \<and> (\<forall>d. 1 < d \<and> d < p \<longrightarrow> \<not> d dvd p)"
  by (auto simp: is_prime_def list_all_iff)

lemma prime_gt: "is_prime p \<Longrightarrow> 1 < p"
  by (simp add: is_prime_def)

lemma prime_divisors:
  assumes "is_prime p" and "d dvd p" and "0 < d"
  shows "d = 1 \<or> d = p"
proof -
  have "0 < p" using prime_gt [OF assms(1)] by simp
  with assms(2) have "d \<le> p" by (rule zdvd_imp_le)
  moreover have "\<not> (1 < d \<and> d < p)" using assms(1,2) unfolding is_prime_iff by blast
  ultimately show ?thesis using assms(3) by linarith
qed

lemma prime_gcd:
  assumes "is_prime p" and "\<not> p dvd a"
  shows "gcd p a = 1"
proof -
  have "0 < gcd p a" using prime_gt [OF assms(1)] by (simp add: gcd_pos_int)
  moreover have "gcd p a \<noteq> p" using assms(2) by (metis gcd_dvd2)
  ultimately show ?thesis using prime_divisors [OF assms(1), of "gcd p a"] by simp
qed

lemma prime_coprime: "is_prime p \<Longrightarrow> \<not> p dvd a \<Longrightarrow> coprime p a"
  using prime_gcd by (simp add: coprime_iff_gcd_eq_1)

lemma prime_dvd_mult: "is_prime p \<Longrightarrow> p dvd a * b \<longleftrightarrow> p dvd a \<or> p dvd b"
  using prime_coprime coprime_dvd_mult_right_iff by (metis dvd_mult dvd_mult2)

lemma primes_coprime:
  assumes "is_prime p" and "is_prime q" and "p \<noteq> q"
  shows "coprime p q"
proof (rule prime_coprime [OF assms(1)])
  show "\<not> p dvd q" using prime_divisors [OF assms(2), of p] prime_gt [OF assms(1)] assms(3) by auto
qed

section \<open>Fermat's little theorem\<close>

lemma prime_dvd_binomial:
  assumes "is_prime (int n)" and "0 < k" and "k < n"
  shows "int n dvd int (n choose k)"
proof -
  obtain k' n' where kn: "k = Suc k'" "n = Suc n'" using assms by (metis gr0_implies_Suc less_trans)
  have "Suc k' * (Suc n' choose Suc k') = Suc n' * (n' choose k')" by (rule Suc_times_binomial)
  then have "int (k * (n choose k)) = int (n * (n' choose k'))" by (simp only: kn)
  then have "int n dvd int k * int (n choose k)" by (metis dvd_triv_left of_nat_mult)
  moreover have "\<not> int n dvd int k" using assms(2,3) by (simp add: nat_dvd_not_less)
  ultimately show ?thesis using prime_dvd_mult [OF assms(1)] by blast
qed

lemma freshman:
  fixes a :: int
  assumes "is_prime (int n)"
  shows "(a + 1) ^ n mod int n = (a ^ n + 1) mod int n"
proof -
  have n: "1 < n" using prime_gt [OF assms] by simp
  have "(a + 1) ^ n = (\<Sum>k\<le>n. of_nat (n choose k) * a ^ k)"
    by (simp add: binomial_ring [of a 1])
  also have "{..n} = insert 0 (insert n {1..<n})" using n by auto
  also have "(\<Sum>k\<in>\<dots>. of_nat (n choose k) * a ^ k)
      = 1 + a ^ n + (\<Sum>k\<in>{1..<n}. of_nat (n choose k) * a ^ k)"
    using n by (simp add: algebra_simps)
  finally have eq: "(a + 1) ^ n = (1 + a ^ n) + (\<Sum>k\<in>{1..<n}. of_nat (n choose k) * a ^ k)" .
  have "int n dvd (\<Sum>k\<in>{1..<n}. of_nat (n choose k) * a ^ k)"
    using prime_dvd_binomial [OF assms] by (intro dvd_sum) auto
  then have "(\<Sum>k\<in>{1..<n}. of_nat (n choose k) * a ^ k) mod int n = 0" by (rule dvd_imp_mod_0)
  then show ?thesis unfolding eq by (metis add.commute add.right_neutral mod_add_right_eq)
qed

lemma fermat_nat:
  assumes "is_prime (int n)"
  shows "int a ^ n mod int n = int a mod int n"
proof (induction a)
  case 0
  show ?case using prime_gt [OF assms] by (simp add: power_0_left)
next
  case (Suc a)
  have "int (Suc a) ^ n mod int n = (int a ^ n + 1) mod int n"
    using freshman [OF assms, of "int a"] by (simp add: add.commute)
  also have "\<dots> = (int a + 1) mod int n" using Suc by (metis mod_add_left_eq)
  finally show ?case by (simp add: add.commute)
qed

theorem fermat:
  assumes "is_prime p"
  shows "a ^ nat p mod p = a mod p"
proof -
  have p: "int (nat p) = p" using prime_gt [OF assms] by simp
  have "int (nat (a mod p)) = a mod p" using prime_gt [OF assms] by simp
  then have "(a mod p) ^ nat p mod p = a mod p mod p"
    using fermat_nat [of "nat p" "nat (a mod p)"] assms p by simp
  then show ?thesis by (simp add: power_mod)
qed

lemma fermat_one:
  assumes "is_prime p" and "\<not> p dvd a"
  shows "a ^ nat (p - 1) mod p = 1"
proof -
  have p: "1 < p" by (rule prime_gt [OF assms(1)])
  then have n: "nat p = Suc (nat (p - 1))" by simp
  have "p dvd a ^ nat p - a" using fermat [OF assms(1), of a] by (simp add: mod_eq_dvd_iff)
  then have "p dvd a * (a ^ nat (p - 1) - 1)" by (simp add: n algebra_simps)
  then have "p dvd a ^ nat (p - 1) - 1" using assms prime_dvd_mult by blast
  then have "a ^ nat (p - 1) mod p = 1 mod p" by (simp add: mod_eq_dvd_iff)
  with p show ?thesis by simp
qed

text \<open>A prime modulus has no square roots of one but one and minus one.\<close>

lemma root_of_one:
  assumes "is_prime p" and "x\<^sup>2 mod p = 1" and "0 \<le> x" and "x < p"
  shows "x = 1 \<or> x = p - 1"
proof -
  have "x\<^sup>2 mod p = 1 mod p" using assms(2) prime_gt [OF assms(1)] by simp
  then have "p dvd (x - 1) * (x + 1)" by (simp add: mod_eq_dvd_iff power2_eq_square algebra_simps)
  then consider "p dvd x - 1" | "p dvd x + 1" using assms(1) prime_dvd_mult by blast
  then show ?thesis
  proof cases
    case 1
    with assms(3,4) have "x = 1 \<or> x = 0" by (cases "x \<ge> 1") (use zdvd_imp_le in fastforce)+
    then show ?thesis using assms(2) by (auto simp: power2_eq_square)
  next
    case 2
    with assms(3) have "p \<le> x + 1" by (intro zdvd_imp_le) auto
    with assms(4) show ?thesis by simp
  qed
qed

section \<open>The exponent identity of RSA\<close>

lemma power_id_mod_prime:
  assumes "is_prime p" and "p - 1 dvd int k - 1" and "0 < k"
  shows "m ^ k mod p = m mod p"
proof (cases "p dvd m")
  case True
  with \<open>0 < k\<close> have "p dvd m ^ k" by (metis dvd_power_same dvd_power dvd_trans)
  with True show ?thesis by (simp add: dvd_imp_mod_0)
next
  case False
  have "int (nat (p - 1)) dvd int (k - 1)"
    using assms(2,3) prime_gt [OF assms(1)] by (simp add: of_nat_diff)
  then have "nat (p - 1) dvd k - 1" by (simp only: of_nat_dvd_iff)
  then obtain j where j: "k - 1 = nat (p - 1) * j" by (rule dvdE)
  then have "k = Suc (nat (p - 1) * j)" using \<open>0 < k\<close> by simp
  then have "m ^ k mod p = m * (m ^ nat (p - 1)) ^ j mod p" by (simp add: power_mult)
  also have "\<dots> = m * ((m ^ nat (p - 1)) mod p) ^ j mod p" by (metis mod_mult_right_eq power_mod)
  also have "\<dots> = m mod p" by (simp add: fermat_one [OF assms(1) False])
  finally show ?thesis .
qed

lemma rsa_identity:
  assumes "is_prime p" and "is_prime q" and "p \<noteq> q" and "e * d mod ((p - 1) * (q - 1)) = 1"
    and "0 < e" and "0 \<le> d" and "0 \<le> m" and "m < p * q"
  shows "(m ^ nat e) ^ nat d mod (p * q) = m"
proof -
  define k where "k = nat e * nat d"
  have pq: "1 < p" "1 < q" using assms(1,2) prime_gt by auto
  have ik: "int k = e * d" using assms(5,6) by (simp add: k_def)
  have "d \<noteq> 0" using assms(4) by auto
  then have k: "0 < k" using assms(5,6) by (simp add: k_def)
  have "(p - 1) * (q - 1) dvd int k - 1"
    using dvd_minus_mod [of "(p - 1) * (q - 1)" "e * d"] assms(4) by (simp add: ik)
  then have "p - 1 dvd int k - 1" and "q - 1 dvd int k - 1"
    by (blast dest: dvd_mult_left, blast dest: dvd_mult_right)
  then have "m ^ k mod p = m mod p" and "m ^ k mod q = m mod q"
    using power_id_mod_prime assms(1,2) k by blast+
  then have "p dvd m ^ k - m" and "q dvd m ^ k - m" by (simp_all add: mod_eq_dvd_iff)
  then have "p * q dvd m ^ k - m" using primes_coprime [OF assms(1-3)] by (rule divides_mult)
  then have "m ^ k mod (p * q) = m mod (p * q)" by (simp add: mod_eq_dvd_iff)
  then show ?thesis using assms(7,8) by (simp add: k_def power_mult)
qed

end
