(* ===== verification/Shor_Rsa.thy ===== *)
theory Shor_Rsa
  imports Prime_Moduli Models
begin

text \<open>
  The toy RSA of the Shor add-on, \<open>rsa.py\<close>: extended Euclid and modular inverses, the
  Miller-Rabin test, prime and key generation, raw encryption and decryption, and the text
  encoding. Python's \<open>int\<close> is \<open>int\<close>; its \<open>//\<close> and \<open>%\<close> round downwards, as \<open>div\<close> and \<open>mod\<close> do
  for a nonzero divisor. \<open>secrets\<close> is a generator state with the two draws the code makes. The
  loops that search for a prime are \<open>partial_function (option)\<close>: \<open>None\<close> is a search that never
  ends. A text is its list of code points, so that UTF-8 is modelled in full.
\<close>

section \<open>Extended Euclid\<close>

function egcd :: "int \<Rightarrow> int \<Rightarrow> int \<times> int \<times> int" where
  "egcd a b =
     (if b = 0 then (\<bar>a\<bar>, if a \<ge> 0 then 1 else -1, 0)
      else case egcd b (a mod b) of (g, x1, y1) \<Rightarrow> (g, y1, x1 - (a div b) * y1))"
  by pat_completeness auto
termination by (relation "measure (\<lambda>(a, b). nat \<bar>b\<bar>)") (auto simp: abs_mod_less)

declare egcd.simps [simp del]

definition modinv :: "int \<Rightarrow> int \<Rightarrow> int py" where
  "modinv a m =
     (case egcd a m of
        (g, x, _) \<Rightarrow>
          if g \<noteq> 1 then Inl (ExnValue (''No modular inverse for a='' @ py_str_int a @ '' mod m='' @
            py_str_int m @ '' (gcd='' @ py_str_int g @ '').''))
          else if m = 0 then Inl (ExnOther ''ZeroDivisionError'' ''integer modulo by zero'')
          else Inr (x mod m))"

text \<open>
  The built-in \<open>pow(b, e, n)\<close>: a negative exponent asks for a power of the inverse, and there is
  no result for a zero modulus.
\<close>

definition py_pow3 :: "int \<Rightarrow> int \<Rightarrow> int \<Rightarrow> int py" where
  "py_pow3 b e n =
     (if n = 0 then Inl (ExnValue ''pow() 3rd argument cannot be 0'')
      else if e \<ge> 0 then Inr (b ^ nat e mod n)
      else if gcd b n \<noteq> 1 then Inl (ExnValue ''base is not invertible for the given modulus'')
      else Inr ((fst (snd (egcd b n)) mod n) ^ nat (- e) mod n))"

section \<open>Miller-Rabin\<close>

fun try_primes :: "int list \<Rightarrow> int \<Rightarrow> bool" where
  "try_primes [] n = True"
| "try_primes (p # ps) n = (if n = p then True else if n mod p = 0 then False else try_primes ps n)"

definition try_small_primes :: "int \<Rightarrow> bool" where
  "try_small_primes n = try_primes [2, 3, 5, 7, 11, 13, 17, 19, 23, 29, 31, 37] n"

text \<open>The loop that writes \<open>n - 1\<close> as \<open>d * 2 ^ s\<close> with \<open>d\<close> odd; at zero it would not end.\<close>

function split_twos :: "int \<Rightarrow> nat \<Rightarrow> int \<times> nat" where
  "split_twos d s = (if d \<noteq> 0 \<and> d mod 2 = 0 then split_twos (d div 2) (Suc s) else (d, s))"
  by pat_completeness auto
termination by (relation "measure (\<lambda>(d, s). nat \<bar>d\<bar>)") auto

declare split_twos.simps [simp del]

text \<open>The squarings of one round: whether \<open>n - 1\<close> is met within \<open>r\<close> of them.\<close>

fun mr_squarings :: "nat \<Rightarrow> int \<Rightarrow> int \<Rightarrow> bool" where
  "mr_squarings 0 n x = False"
| "mr_squarings (Suc r) n x = (let x' = x\<^sup>2 mod n in if x' = n - 1 then True else mr_squarings r n x')"

definition mr_round :: "int \<Rightarrow> int \<Rightarrow> nat \<Rightarrow> int \<Rightarrow> bool" where
  "mr_round n d s a =
     (let x = a ^ nat d mod n in if x = 1 \<or> x = n - 1 then True else mr_squarings (s - 1) n x)"

record 'g secrets =
  sc_randbelow :: "int \<Rightarrow> 'g \<Rightarrow> int \<times> 'g"
  sc_randbits :: "int \<Rightarrow> 'g \<Rightarrow> int \<times> 'g"

definition secrets_ok :: "'g secrets \<Rightarrow> bool" where
  "secrets_ok R =
     ((\<forall>m g. 0 < m \<longrightarrow> 0 \<le> fst (sc_randbelow R m g) \<and> fst (sc_randbelow R m g) < m) \<and>
      (\<forall>b g. 0 \<le> fst (sc_randbits R b g) \<and> fst (sc_randbits R b g) < 2 ^ nat b))"

fun mr_rounds :: "'g secrets \<Rightarrow> nat \<Rightarrow> int \<Rightarrow> int \<Rightarrow> nat \<Rightarrow> 'g \<Rightarrow> bool \<times> 'g" where
  "mr_rounds R 0 n d s g = (True, g)"
| "mr_rounds R (Suc k) n d s g =
     (case sc_randbelow R (n - 3) g of
        (r, g') \<Rightarrow> if mr_round n d s (r + 2) then mr_rounds R k n d s g' else (False, g'))"

definition is_probable_prime :: "'g secrets \<Rightarrow> int \<Rightarrow> nat \<Rightarrow> 'g \<Rightarrow> bool \<times> 'g" where
  "is_probable_prime R n k g =
     (if n < 2 then (False, g)
      else if n = 2 \<or> n = 3 then (True, g)
      else if n mod 2 = 0 then (False, g)
      else if \<not> try_small_primes n then (False, g)
      else case split_twos (n - 1) 0 of (d, s) \<Rightarrow> mr_rounds R k n d s g)"

section \<open>Facts about Euclid and Miller-Rabin\<close>

lemma egcd_zero [simp]: "egcd a 0 = (\<bar>a\<bar>, if a \<ge> 0 then 1 else -1, 0)"
  by (simp add: egcd.simps)

lemma egcd_step: "b \<noteq> 0 \<Longrightarrow> egcd a b = (case egcd b (a mod b) of (g, x, y) \<Rightarrow> (g, y, x - (a div b) * y))"
  by (simp add: egcd.simps [of a b])

lemma egcd_bezout: "egcd a b = (g, x, y) \<Longrightarrow> a * x + b * y = g \<and> g = gcd a b"
proof (induction a b arbitrary: g x y rule: egcd.induct)
  case (1 a b)
  show ?case
  proof (cases "b = 0")
    case True
    with 1(2) show ?thesis by (auto simp: abs_if)
  next
    case False
    obtain g' x' y' where e: "egcd b (a mod b) = (g', x', y')" by (rule prod_cases3)
    then have v: "g = g'" "x = y'" "y = x' - (a div b) * y'"
      using 1(2) False by (auto simp: egcd_step)
    have ih: "b * x' + (a mod b) * y' = g'" "g' = gcd b (a mod b)" using 1(1) [OF False e] by auto
    have "a * x + b * y = b * x' + (a - b * (a div b)) * y'" by (simp add: v algebra_simps)
    also have "\<dots> = g" using ih(1) v(1) by (simp add: minus_mult_div_eq_mod)
    finally show ?thesis using ih(2) v(1) by (metis gcd.commute gcd_red_int)
  qed
qed

lemma modinv_ok: "modinv a m = Inr y \<Longrightarrow> gcd a m = 1 \<and> m \<noteq> 0 \<and> a * y mod m = 1 mod m \<and> y = y mod m"
proof -
  assume m: "modinv a m = Inr y"
  obtain g x z where e: "egcd a m = (g, x, z)" by (rule prod_cases3)
  with m have g: "g = 1" "m \<noteq> 0" "y = x mod m" by (auto simp: modinv_def split: if_splits)
  have b: "a * x + m * z = 1" "1 = gcd a m" using egcd_bezout [OF e] g(1) by auto
  have "a * y mod m = (a * x + m * z) mod m" by (simp add: g(3) mod_mult_right_eq)
  with b g show ?thesis by simp
qed

lemma modinv_exists: "gcd a m = 1 \<Longrightarrow> m \<noteq> 0 \<Longrightarrow> \<exists>y. modinv a m = Inr y"
proof -
  assume a: "gcd a m = 1" "m \<noteq> 0"
  obtain g x z where e: "egcd a m = (g, x, z)" by (rule prod_cases3)
  then have "g = 1" using egcd_bezout [OF e] a(1) by simp
  with e a show ?thesis by (simp add: modinv_def)
qed

lemma split_twos_ok:
  "split_twos d s = (d', s') \<Longrightarrow> 0 < d \<Longrightarrow> d' * 2 ^ s' = d * 2 ^ s \<and> odd d' \<and> 0 < d' \<and> s \<le> s'"
proof (induction d s arbitrary: d' s' rule: split_twos.induct)
  case (1 d s)
  show ?case
  proof (cases "d mod 2 = 0")
    case True
    then have "split_twos (d div 2) (Suc s) = (d', s')" using 1(2,3) by (simp add: split_twos.simps [of d])
    then have "d' * 2 ^ s' = d div 2 * 2 ^ Suc s \<and> odd d' \<and> 0 < d' \<and> Suc s \<le> s'"
      using True 1 by (intro 1(1)) auto
    then show ?thesis using True by (auto simp: mult.assoc [symmetric])
  next
    case False
    then show ?thesis using 1(2,3) by (auto simp: split_twos.simps [of d])
  qed
qed

lemma mr_squarings_prime:
  assumes "is_prime n" and "0 \<le> x" and "x < n" and "x \<noteq> 1" and "x \<noteq> n - 1"
    and "x ^ (2 ^ Suc r) mod n = 1"
  shows "mr_squarings r n x"
  using assms(2-)
proof (induction r arbitrary: x)
  case 0
  then have "x\<^sup>2 mod n = 1" by simp
  then have "x = 1 \<or> x = n - 1" using 0 by (intro root_of_one [OF assms(1)])
  with 0 show ?case by simp
next
  case (Suc r)
  define x' where "x' = x\<^sup>2 mod n"
  have n: "1 < n" by (rule prime_gt [OF assms(1)])
  have "x' \<noteq> 1" using root_of_one [OF assms(1)] Suc.prems by (auto simp: x'_def)
  moreover have "x' ^ (2 ^ Suc r) mod n = 1"
    using Suc.prems(5) by (simp add: x'_def power_mod flip: power_mult)
  ultimately have "x' \<noteq> n - 1 \<Longrightarrow> mr_squarings r n x'"
    using n by (intro Suc.IH) (auto simp: x'_def)
  then show ?case by (auto simp: Let_def x'_def)
qed

lemma mr_round_prime:
  assumes "is_prime n" and "2 \<le> a" and "a \<le> n - 2" and "d * 2 ^ s = n - 1" and "0 < d" and "0 < s"
  shows "mr_round n d s a"
proof -
  define x where "x = a ^ nat d mod n"
  have n: "1 < n" by (rule prime_gt [OF assms(1)])
  have "\<not> n dvd a" using assms(2,3) by (simp add: zdvd_not_zless)
  then have "a ^ nat (n - 1) mod n = 1" by (rule fermat_one [OF assms(1)])
  moreover have "nat (n - 1) = nat d * 2 ^ s"
    using assms(5) by (simp flip: assms(4) add: nat_mult_distrib nat_power_eq)
  ultimately have "x ^ (2 ^ Suc (s - 1)) mod n = 1"
    using assms(6) by (simp add: x_def power_mod power_mult)
  then have "x = 1 \<or> x = n - 1 \<or> mr_squarings (s - 1) n x"
    using mr_squarings_prime [OF assms(1), of x "s - 1"] n by (auto simp: x_def)
  then show ?thesis by (auto simp: mr_round_def Let_def x_def)
qed

lemma mr_rounds_prime:
  assumes "is_prime n" and "3 < n" and "secrets_ok R" and "d * 2 ^ s = n - 1" and "0 < d" and "0 < s"
  shows "fst (mr_rounds R k n d s g)"
proof (induction k arbitrary: g)
  case (Suc k)
  obtain r g' where r: "sc_randbelow R (n - 3) g = (r, g')" by (rule prod.exhaust)
  have "0 \<le> r \<and> r < n - 3" using assms(2,3) r by (metis secrets_ok_def diff_gt_0_iff_gt fst_conv)
  then have "mr_round n d s (r + 2)" using assms by (intro mr_round_prime) auto
  with r Suc show ?case by simp
qed simp

lemma try_primes_prime: "is_prime n \<Longrightarrow> (\<And>p. p \<in> set ps \<Longrightarrow> 1 < p) \<Longrightarrow> try_primes ps n"
proof (induction ps)
  case (Cons p ps)
  have "n mod p \<noteq> 0" if "n \<noteq> p"
    using prime_divisors [OF Cons.prems(1), of p] that Cons.prems(2) [of p]
    by (auto simp: mod_eq_0_iff_dvd)
  with Cons show ?case by auto
qed simp

lemma probable_prime_complete:
  assumes "is_prime n" and "secrets_ok R"
  shows "fst (is_probable_prime R n k g)"
proof (cases "n = 2 \<or> n = 3")
  case False
  have n: "3 < n" using prime_gt [OF assms(1)] False by simp
  have odd: "n mod 2 \<noteq> 0"
    using prime_divisors [OF assms(1), of 2] n by (auto simp: mod_eq_0_iff_dvd)
  have small: "try_small_primes n"
    unfolding try_small_primes_def by (rule try_primes_prime [OF assms(1)]) auto
  obtain d s where ds: "split_twos (n - 1) 0 = (d, s)" by (rule prod.exhaust)
  have *: "d * 2 ^ s = n - 1" "odd d" "0 < d" using split_twos_ok [OF ds] n by auto
  have "even (n - 1)" using odd by presburger
  have "s \<noteq> 0"
  proof
    assume "s = 0"
    with * \<open>even (n - 1)\<close> show False by simp
  qed
  then have "fst (mr_rounds R k n d s g)" using assms n * by (intro mr_rounds_prime) auto
  with odd small n ds show ?thesis by (simp add: is_probable_prime_def)
qed (auto simp: is_probable_prime_def)

lemma try_primes_divisor: "try_primes ps n \<Longrightarrow> p \<in> set ps \<Longrightarrow> p dvd n \<Longrightarrow> n \<in> set ps"
  by (induction ps) (auto split: if_splits)

lemma small_divisor:
  fixes d :: int
  assumes "2 \<le> d" and "d \<le> 40"
  shows "\<exists>p \<in> set [2, 3, 5, 7, 11, 13, 17, 19, 23, 29, 31, 37]. p dvd d"
proof -
  have "\<forall>d \<in> set [2..40::int]. \<exists>p \<in> set [2, 3, 5, 7, 11, 13, 17, 19, 23, 29, 31, 37]. p dvd d"
    by code_simp
  then show ?thesis using assms by (simp only: set_upto atLeastAtMost_iff)
qed

lemma small_prime_table:
  "\<forall>n \<in> set [2, 3, 5, 7, 11, 13, 17, 19, 23, 29, 31, 37]. \<forall>d \<in> set [2..6::int].
     d * d \<le> n \<longrightarrow> \<not> d dvd n"
  by code_simp

text \<open>A number without a divisor up to its square root is prime.\<close>

lemma prime_by_trial:
  assumes "1 < n" and "\<And>d. 2 \<le> d \<Longrightarrow> d * d \<le> n \<Longrightarrow> \<not> d dvd n"
  shows "is_prime n"
  unfolding is_prime_iff
proof (intro conjI allI impI notI)
  fix d assume d: "1 < d \<and> d < n" and "d dvd n"
  then obtain e where e: "n = d * e" by (auto elim: dvdE)
  have "1 < e" using d e assms(1) by (smt (verit) mult_cancel_left2 mult_le_0_iff)
  show False
  proof (cases "d \<le> e")
    case True
    then have "d * d \<le> n" using d e by (simp add: mult_left_mono)
    then show False using assms(2) [of d] d \<open>d dvd n\<close> by simp
  next
    case False
    then have "e * e \<le> n" using \<open>1 < e\<close> e by (simp add: mult_right_mono)
    then show False using assms(2) [of e] \<open>1 < e\<close> e by simp
  qed
qed (use assms in simp)

lemma probable_prime_small:
  assumes "fst (is_probable_prime R n k g)" and "n < 41 * 41"
  shows "is_prime n"
proof (cases "n = 2 \<or> n = 3")
  case True
  have "is_prime 2" and "is_prime 3" by code_simp+
  with True show ?thesis by blast
next
  case False
  have small: "try_small_primes n" and n: "2 \<le> n"
    using assms(1) False by (auto simp: is_probable_prime_def split: if_splits)
  show ?thesis
  proof (rule prime_by_trial)
    fix d assume d: "2 \<le> d" "d * d \<le> n"
    have "d \<le> 40"
    proof (rule ccontr)
      assume "\<not> d \<le> 40"
      then have "41 * 41 \<le> d * d" by (intro mult_mono) auto
      with d(2) assms(2) show False by simp
    qed
    then obtain p where p: "p \<in> set [2, 3, 5, 7, 11, 13, 17, 19, 23, 29, 31, 37]" "p dvd d"
      using small_divisor d(1) by blast
    show "\<not> d dvd n"
    proof
      assume "d dvd n"
      then have "p dvd n" using p(2) by (rule dvd_trans [rotated])
      then have n': "n \<in> set [2, 3, 5, 7, 11, 13, 17, 19, 23, 29, 31, 37]"
        using try_primes_divisor [OF small [unfolded try_small_primes_def]] p(1) by blast
      have "n \<le> 37" using n' by auto
      have "d \<le> 6"
      proof (rule ccontr)
        assume "\<not> d \<le> 6"
        then have "7 * 7 \<le> d * d" by (intro mult_mono) auto
        with d(2) \<open>n \<le> 37\<close> show False by simp
      qed
      then have "d \<in> set [2..6]" using d(1) by (simp only: set_upto atLeastAtMost_iff)
      from bspec [OF bspec [OF small_prime_table n'] this] show False
        using d(2) \<open>d dvd n\<close> by blast
    qed
  qed (use n in simp)
qed

section \<open>Primes and keys\<close>

unbundle bit_operations_syntax

definition prime_candidate :: "int \<Rightarrow> int \<Rightarrow> int" where
  "prime_candidate bits r = (r OR push_bit (nat (bits - 1)) 1) OR 1"

partial_function (option) prime_search :: "'g secrets \<Rightarrow> int \<Rightarrow> 'g \<Rightarrow> (int \<times> 'g) option" where
  "prime_search R bits g =
     (let (r, g1) = sc_randbits R bits g;
          candidate = prime_candidate bits r;
          (accepted, g2) = is_probable_prime R candidate 10 g1 in
      if accepted then Some (candidate, g2) else prime_search R bits g2)"

definition generate_prime :: "'g secrets \<Rightarrow> int \<Rightarrow> 'g \<Rightarrow> (int py \<times> 'g) option" where
  "generate_prime R bits g =
     (if bits < 2 then Some (Inl (ExnValue ''bits must be >= 2''), g)
      else map_option (\<lambda>(p, g'). (Inr p, g')) (prime_search R bits g))"

record rsa_key_pair =
  kp_p :: int
  kp_q :: int
  kp_N :: int
  kp_phi :: int
  kp_e :: int
  kp_d :: int

partial_function (option) key_search :: "'g secrets \<Rightarrow> int \<Rightarrow> int \<Rightarrow> 'g \<Rightarrow> (rsa_key_pair py \<times> 'g) option" where
  "key_search R bits e g =
     Option.bind (generate_prime R bits g) (\<lambda>(rp, g1).
       case rp of
         Inl x \<Rightarrow> Some (Inl x, g1)
       | Inr p \<Rightarrow>
           Option.bind (generate_prime R bits g1) (\<lambda>(rq, g2).
             case rq of
               Inl x \<Rightarrow> Some (Inl x, g2)
             | Inr q \<Rightarrow>
                 if p = q then key_search R bits e g2
                 else if fst (egcd e ((p - 1) * (q - 1))) \<noteq> 1 then key_search R bits e g2
                 else Some (py_bind (modinv e ((p - 1) * (q - 1))) (\<lambda>d. Inr
                        \<lparr>kp_p = p, kp_q = q, kp_N = p * q, kp_phi = (p - 1) * (q - 1), kp_e = e, kp_d = d\<rparr>), g2)))"

definition generate_rsa_keypair :: "'g secrets \<Rightarrow> int \<Rightarrow> int \<Rightarrow> 'g \<Rightarrow> (rsa_key_pair py \<times> 'g) option" where
  "generate_rsa_keypair R prime_bits e g =
     (if prime_bits < 4 then Some (Inl (ExnValue ''prime_bits must be >= 4 for a meaningful demo''), g)
      else if e \<le> 1 then Some (Inl (ExnValue ''e must be > 1''), g)
      else key_search R prime_bits e g)"

section \<open>Raw RSA\<close>

definition rsa_encrypt_int :: "int \<Rightarrow> int \<Rightarrow> int \<Rightarrow> int py" where
  "rsa_encrypt_int m N e =
     (if m < 0 then Inl (ExnValue ''plaintext must be non-negative'')
      else if m \<ge> N then Inl (ExnValue ''plaintext must be < N for raw RSA (no padding)'')
      else py_pow3 m e N)"

definition rsa_decrypt_int :: "int \<Rightarrow> int \<Rightarrow> int \<Rightarrow> int py" where
  "rsa_decrypt_int c N d =
     (if c < 0 then Inl (ExnValue ''ciphertext must be non-negative'')
      else if c \<ge> N then Inl (ExnValue ''ciphertext must be < N'')
      else py_pow3 c d N)"

section \<open>What the searches return\<close>

definition prime_shape :: "int \<Rightarrow> int \<Rightarrow> bool" where
  "prime_shape bits p = (odd p \<and> 2 ^ nat (bits - 1) \<le> p \<and> p < 2 ^ nat bits)"

definition passes_test :: "'g secrets \<Rightarrow> int \<Rightarrow> bool" where
  "passes_test R p = (\<exists>g. fst (is_probable_prime R p 10 g))"

lemma prime_candidate_shape:
  assumes "0 \<le> r" and "r < 2 ^ nat bits" and "0 < bits"
  shows "prime_shape bits (prime_candidate bits r)"
proof -
  have one: "(2::int) ^ nat (bits - 1) < 2 ^ nat bits" "(1::int) < 2 ^ nat bits"
    using assms(3) by (simp_all add: one_less_power)
  have "odd (prime_candidate bits r)" by (simp add: prime_candidate_def even_or_iff)
  moreover have "2 ^ nat (bits - 1) \<le> prime_candidate bits r"
    using assms or_greater_eq [of r "2 ^ nat (bits - 1)"] or_greater_eq [of 1 "r OR 2 ^ nat (bits - 1)"]
    by (simp add: prime_candidate_def push_bit_eq_mult or.commute)
  moreover have "prime_candidate bits r < 2 ^ nat bits"
    using assms one by (simp add: prime_candidate_def push_bit_eq_mult OR_upper)
  ultimately show ?thesis by (simp add: prime_shape_def)
qed

lemma prime_search_ok:
  assumes "prime_search R bits g = Some y"
  shows "secrets_ok R \<and> 0 < bits \<longrightarrow> prime_shape bits (fst y) \<and> passes_test R (fst y)"
  using assms
proof (induction rule: prime_search.raw_induct [rotated, consumes 1, case_names step])
  case (step search R bits g y)
  obtain r g1 where r: "sc_randbits R bits g = (r, g1)" by (rule prod.exhaust)
  obtain ok g2 where t: "is_probable_prime R (prime_candidate bits r) 10 g1 = (ok, g2)" by (rule prod.exhaust)
  show ?case
  proof (intro impI)
    assume a: "secrets_ok R \<and> 0 < bits"
    show "prime_shape bits (fst y) \<and> passes_test R (fst y)"
    proof (cases ok)
      case True
      with step r t have y: "y = (prime_candidate bits r, g2)" by simp
      have "0 \<le> r \<and> r < 2 ^ nat bits" using a r by (metis secrets_ok_def fst_conv)
      then have "prime_shape bits (prime_candidate bits r)" using a prime_candidate_shape by blast
      moreover have "passes_test R (prime_candidate bits r)"
        unfolding passes_test_def using t True by (metis fst_conv)
      ultimately show ?thesis by (simp add: y)
    next
      case False
      with step r t a show ?thesis by simp
    qed
  qed
qed

lemma generate_prime_ok:
  assumes "generate_prime R bits g = Some (y, g')" and "secrets_ok R" and "2 \<le> bits"
  obtains p where "y = Inr p" and "prime_shape bits p" and "passes_test R p"
proof -
  obtain p where p: "y = Inr p" "prime_search R bits g = Some (p, g')"
    using assms by (auto simp: generate_prime_def)
  then show ?thesis using prime_search_ok [OF p(2)] assms(2,3) that by simp
qed

text \<open>What holds of a generated key, whether or not the test erred on its primes.\<close>

definition key_shape :: "'g secrets \<Rightarrow> int \<Rightarrow> int \<Rightarrow> rsa_key_pair \<Rightarrow> bool" where
  "key_shape R bits e kp =
     (prime_shape bits (kp_p kp) \<and> passes_test R (kp_p kp) \<and> prime_shape bits (kp_q kp) \<and>
      passes_test R (kp_q kp) \<and> kp_p kp \<noteq> kp_q kp \<and> kp_N kp = kp_p kp * kp_q kp \<and>
      kp_phi kp = (kp_p kp - 1) * (kp_q kp - 1) \<and> kp_e kp = e \<and> gcd e (kp_phi kp) = 1 \<and>
      e * kp_d kp mod kp_phi kp = 1 \<and> 0 \<le> kp_d kp \<and> kp_d kp < kp_phi kp)"

lemma prime_shape_gt: "prime_shape bits p \<Longrightarrow> 4 \<le> bits \<Longrightarrow> 8 \<le> p"
proof -
  assume a: "prime_shape bits p" "4 \<le> bits"
  have "(2::int) ^ 3 \<le> 2 ^ nat (bits - 1)" using a(2) by (intro power_increasing) auto
  with a(1) show ?thesis by (simp add: prime_shape_def)
qed

lemma new_key_shape:
  assumes "prime_shape bits p" "passes_test R p" "prime_shape bits q" "passes_test R q" "p \<noteq> q"
    and "fst (egcd e ((p - 1) * (q - 1))) = 1" and "4 \<le> bits"
    and "y = py_bind (modinv e ((p - 1) * (q - 1))) (\<lambda>d. Inr
           \<lparr>kp_p = p, kp_q = q, kp_N = p * q, kp_phi = (p - 1) * (q - 1), kp_e = e, kp_d = d\<rparr>)"
  shows "\<exists>kp. y = Inr kp \<and> key_shape R bits e kp"
proof -
  define phi where "phi = (p - 1) * (q - 1)"
  have "8 \<le> p" "8 \<le> q" using assms prime_shape_gt by auto
  then have phi: "1 < phi" unfolding phi_def by (intro less_1_mult) auto
  have g: "gcd e phi = 1"
    using assms(6) by (metis phi_def egcd_bezout prod.collapse)
  then obtain d where d: "modinv e phi = Inr d" using modinv_exists phi by (metis less_irrefl less_trans zero_less_one)
  with phi modinv_ok [OF d] have "e * d mod phi = 1" "0 \<le> d" "d < phi"
    by (auto simp: mod_pos_pos_trivial) (metis pos_mod_sign pos_mod_bound less_trans zero_less_one)+
  with g d assms(1-5,8) show ?thesis by (simp add: key_shape_def phi_def)
qed

lemma key_search_ok:
  assumes "key_search R bits e g = Some y"
  shows "secrets_ok R \<and> 4 \<le> bits \<longrightarrow> (\<exists>kp. fst y = Inr kp \<and> key_shape R bits e kp)"
  using assms
proof (induction rule: key_search.raw_induct [rotated, consumes 1, case_names step])
  case (step search R bits e g y)
  show ?case
  proof (intro impI)
    assume a: "secrets_ok R \<and> 4 \<le> bits"
    obtain rp g1 where 1: "generate_prime R bits g = Some (rp, g1)"
      using step(2) by (auto simp: bind_eq_Some_conv)
    from 1 a obtain p where p: "rp = Inr p" "prime_shape bits p" "passes_test R p"
      by (elim generate_prime_ok) auto
    obtain rq g2 where 2: "generate_prime R bits g1 = Some (rq, g2)"
      using step(2) 1 p by (auto simp: bind_eq_Some_conv)
    from 2 a obtain q where q: "rq = Inr q" "prime_shape bits q" "passes_test R q"
      by (elim generate_prime_ok) auto
    show "\<exists>kp. fst y = Inr kp \<and> key_shape R bits e kp"
    proof (cases "p = q \<or> fst (egcd e ((p - 1) * (q - 1))) \<noteq> 1")
      case True
      then have "search R bits e g2 = Some y" using step(2) 1 2 p q by (auto split: if_splits)
      with step(1) a show ?thesis by blast
    next
      case False
      then have "fst y = py_bind (modinv e ((p - 1) * (q - 1))) (\<lambda>d. Inr
           \<lparr>kp_p = p, kp_q = q, kp_N = p * q, kp_phi = (p - 1) * (q - 1), kp_e = e, kp_d = d\<rparr>)"
        using step(2) 1 2 p q by auto
      with False p q a show ?thesis by (intro new_key_shape) auto
    qed
  qed
qed

lemma generated_key_shape:
  assumes "generate_rsa_keypair R bits e g = Some (Inr kp, g')" and "secrets_ok R"
  shows "key_shape R bits e kp \<and> 4 \<le> bits \<and> 1 < e"
proof -
  have b: "4 \<le> bits" "1 < e" "key_search R bits e g = Some (Inr kp, g')"
    using assms(1) by (auto simp: generate_rsa_keypair_def split: if_splits)
  then show ?thesis using key_search_ok [OF b(3)] assms(2) by simp
qed

section \<open>Text\<close>

text \<open>
  UTF-8 for one code point, most significant byte first; a surrogate has no encoding. The decoder
  is strict, as Python's: no overlong form, no surrogate, nothing above \<open>0x10FFFF\<close>.
\<close>

definition utf8_char :: "int \<Rightarrow> int list option" where
  "utf8_char c =
     (if c < 128 then Some [c]
      else if c < 2048 then Some [192 + c div 64, 128 + c mod 64]
      else if 55296 \<le> c \<and> c \<le> 57343 then None
      else if c < 65536 then Some [224 + c div 4096, 128 + c div 64 mod 64, 128 + c mod 64]
      else Some [240 + c div 262144, 128 + c div 4096 mod 64, 128 + c div 64 mod 64, 128 + c mod 64])"

fun utf8_encode :: "int list \<Rightarrow> int list option" where
  "utf8_encode [] = Some []"
| "utf8_encode (c # cs) =
     (case utf8_char c of
        None \<Rightarrow> None
      | Some bs \<Rightarrow> map_option (\<lambda>r. bs @ r) (utf8_encode cs))"

definition is_cont :: "int \<Rightarrow> bool" where
  "is_cont b = (128 \<le> b \<and> b < 192)"

fun utf8_decode :: "int list \<Rightarrow> int list option" where
  "utf8_decode [] = Some []"
| "utf8_decode (b # bs) =
     (if b < 128 then map_option (\<lambda>r. b # r) (utf8_decode bs)
      else if 194 \<le> b \<and> b < 224 then
        (case bs of
           b1 # r1 \<Rightarrow>
             if is_cont b1 then map_option (\<lambda>r. ((b - 192) * 64 + (b1 - 128)) # r) (utf8_decode r1)
             else None
         | [] \<Rightarrow> None)
      else if 224 \<le> b \<and> b < 240 then
        (case bs of
           b1 # b2 # r2 \<Rightarrow>
             (let c = (b - 224) * 4096 + (b1 - 128) * 64 + (b2 - 128) in
              if is_cont b1 \<and> is_cont b2 \<and> 2048 \<le> c \<and> \<not> (55296 \<le> c \<and> c \<le> 57343)
              then map_option (\<lambda>r. c # r) (utf8_decode r2) else None)
         | _ \<Rightarrow> None)
      else if 240 \<le> b \<and> b < 245 then
        (case bs of
           b1 # b2 # b3 # r3 \<Rightarrow>
             (let c = (b - 240) * 262144 + (b1 - 128) * 4096 + (b2 - 128) * 64 + (b3 - 128) in
              if is_cont b1 \<and> is_cont b2 \<and> is_cont b3 \<and> 65536 \<le> c \<and> c \<le> 1114111
              then map_option (\<lambda>r. c # r) (utf8_decode r3) else None)
         | _ \<Rightarrow> None)
      else None)"

definition from_bytes :: "int list \<Rightarrow> int" where
  "from_bytes bs = foldl (\<lambda>acc b. acc * 256 + b) 0 bs"

fun to_bytes :: "nat \<Rightarrow> int \<Rightarrow> int list" where
  "to_bytes 0 n = []"
| "to_bytes (Suc k) n = to_bytes k (n div 256) @ [n mod 256]"

text \<open>\<open>int.bit_length\<close>: the number of binary digits of the absolute value.\<close>

function bit_length :: "int \<Rightarrow> int" where
  "bit_length n = (if n = 0 then 0 else 1 + bit_length (\<bar>n\<bar> div 2))"
  by pat_completeness auto
termination by (relation "measure (\<lambda>n. nat \<bar>n\<bar>)") auto

declare bit_length.simps [simp del]

text \<open>The text of \<open>UnicodeEncodeError\<close> is kept as its reason only.\<close>

definition text_to_int :: "int list \<Rightarrow> int py" where
  "text_to_int s =
     (case utf8_encode s of
        None \<Rightarrow> Inl (ExnOther ''UnicodeEncodeError'' ''surrogates not allowed'')
      | Some b \<Rightarrow> if length b = 0 then Inr 0 else Inr (from_bytes b))"

definition int_to_text :: "int \<Rightarrow> int list option" where
  "int_to_text n =
     (if n < 0 then None
      else if n = 0 then Some []
      else utf8_decode (to_bytes (nat ((bit_length n + 7) div 8)) n))"

definition is_text :: "int list \<Rightarrow> bool" where
  "is_text s = list_all (\<lambda>c. 0 \<le> c \<and> c \<le> 1114111) s"

lemma utf8_decode_3:
  assumes "0 \<le> x" "x < 16" "0 \<le> y" "y < 64" "0 \<le> z" "z < 64" and "c = x * 4096 + y * 64 + z"
    and "2048 \<le> c" and "\<not> (55296 \<le> c \<and> c \<le> 57343)"
  shows "utf8_decode ((224 + x) # (128 + y) # (128 + z) # r) = map_option (\<lambda>t. c # t) (utf8_decode r)"
proof -
  have "(224 + x - 224) * 4096 + (128 + y - 128) * 64 + (128 + z - 128) = c" using assms(7) by simp
  with assms(1-6,8,9) show ?thesis by (auto simp: is_cont_def Let_def)
qed

lemma utf8_decode_4:
  assumes "0 \<le> w" "w < 5" "0 \<le> x" "x < 64" "0 \<le> y" "y < 64" "0 \<le> z" "z < 64"
    and "c = w * 262144 + x * 4096 + y * 64 + z" and "65536 \<le> c" and "c \<le> 1114111"
  shows "utf8_decode ((240 + w) # (128 + x) # (128 + y) # (128 + z) # r) = map_option (\<lambda>t. c # t) (utf8_decode r)"
proof -
  have "(240 + w - 240) * 262144 + (128 + x - 128) * 4096 + (128 + y - 128) * 64 + (128 + z - 128) = c"
    using assms(9) by simp
  with assms(1-8,10,11) show ?thesis by (auto simp: is_cont_def Let_def add.assoc)
qed

lemma utf8_decode_char:
  assumes "utf8_char c = Some bs" and "0 \<le> c" and "c \<le> 1114111"
  shows "utf8_decode (bs @ r) = map_option (\<lambda>t. c # t) (utf8_decode r)"
proof -
  have m: "0 \<le> x mod 64" "x mod 64 < 64" for x :: int by simp_all
  consider "c < 128" | "128 \<le> c" "c < 2048" | "2048 \<le> c" "c < 65536" "\<not> (55296 \<le> c \<and> c \<le> 57343)" |
    "65536 \<le> c"
    using assms by (force simp: utf8_char_def split: if_splits)
  then show "utf8_decode (bs @ r) = map_option (\<lambda>t. c # t) (utf8_decode r)"
  proof cases
    case 1
    with assms show ?thesis by (auto simp: utf8_char_def)
  next
    case 2
    have d: "2 \<le> c div 64" "c div 64 < 32" using 2 by simp_all
    have "c = c div 64 * 64 + c mod 64" by simp
    with 2 d assms show ?thesis by (auto simp: utf8_char_def is_cont_def)
  next
    case 3
    have d: "0 \<le> c div 4096" "c div 4096 < 16" using 3 by simp_all
    have e: "c div 64 div 64 = c div 4096" by (simp add: zdiv_zmult2_eq [symmetric])
    have "c = c div 4096 * 4096 + c div 64 mod 64 * 64 + c mod 64"
      using div_mult_mod_eq [of c 64] div_mult_mod_eq [of "c div 64" 64] unfolding e by linarith
    then show ?thesis
      using utf8_decode_3 [OF d m m, of c "c div 64" c] 3 assms(1) by (auto simp: utf8_char_def)
  next
    case 4
    have d: "0 \<le> c div 262144" "c div 262144 < 5" using 4 assms by simp_all
    have e: "c div 64 div 64 = c div 4096" "c div 4096 div 64 = c div 262144"
      by (simp_all add: zdiv_zmult2_eq [symmetric])
    have "c = c div 262144 * 262144 + c div 4096 mod 64 * 4096 + c div 64 mod 64 * 64 + c mod 64"
      using div_mult_mod_eq [of c 64] div_mult_mod_eq [of "c div 64" 64]
        div_mult_mod_eq [of "c div 4096" 64] unfolding e by linarith
    then have "utf8_decode ((240 + c div 262144) # (128 + c div 4096 mod 64) # (128 + c div 64 mod 64) #
        (128 + c mod 64) # r) = map_option (\<lambda>t. c # t) (utf8_decode r)"
      using 4 assms(3) by (intro utf8_decode_4 d m)
    moreover have "bs = [240 + c div 262144, 128 + c div 4096 mod 64, 128 + c div 64 mod 64, 128 + c mod 64]"
      using 4 assms(1) by (simp add: utf8_char_def)
    ultimately show ?thesis by simp
  qed
qed

lemma utf8_char_bytes:
  assumes "utf8_char c = Some bs" and "0 \<le> c" and "c \<le> 1114111"
  shows "(\<forall>b \<in> set bs. 0 \<le> b \<and> b < 256) \<and> bs \<noteq> [] \<and> (c \<noteq> 0 \<longrightarrow> 0 < hd bs)"
proof -
  have n: "0 \<le> 128 + x mod 64 \<and> 128 + x mod 64 < 256" for x :: int
    using pos_mod_sign [of 64 x] pos_mod_bound [of 64 x] by linarith
  consider "bs = [c]" "c < 128" | "bs = [192 + c div 64, 128 + c mod 64]" "c < 2048" |
    "bs = [224 + c div 4096, 128 + c div 64 mod 64, 128 + c mod 64]" "c < 65536" |
    "bs = [240 + c div 262144, 128 + c div 4096 mod 64, 128 + c div 64 mod 64, 128 + c mod 64]"
    using assms(1) unfolding utf8_char_def by (metis option.distinct(1) option.inject)
  then show ?thesis
  proof cases
    case 1
    with assms(2) show ?thesis by simp
  next
    case 2
    have "0 \<le> c div 64" "c div 64 < 32" using 2(2) assms(2) by simp_all
    then have "0 < 192 + c div 64 \<and> 192 + c div 64 < 256" by linarith
    moreover note 2
    ultimately show ?thesis using n [of c] by (simp only: list.set ball_simps simp_thms list.sel list.distinct) auto
  next
    case 3
    have "0 \<le> c div 4096" "c div 4096 < 16" using 3(2) assms(2) by simp_all
    then have "0 < 224 + c div 4096 \<and> 224 + c div 4096 < 256" by linarith
    moreover note 3
    ultimately show ?thesis using n [of c] n [of "c div 64"] by (simp only: list.set ball_simps simp_thms list.sel list.distinct) auto
  next
    case 4
    have "0 \<le> c div 262144" "c div 262144 < 5" using assms(2,3) by simp_all
    then have "0 < 240 + c div 262144 \<and> 240 + c div 262144 < 256" by linarith
    moreover note 4
    ultimately show ?thesis using n [of c] n [of "c div 64"] n [of "c div 4096"]
      by (simp only: list.set ball_simps simp_thms list.sel list.distinct) auto
  qed
qed

lemma utf8_decode_encode:
  assumes "utf8_encode s = Some bs" and "is_text s"
  shows "utf8_decode bs = Some s \<and> (\<forall>b \<in> set bs. 0 \<le> b \<and> b < 256)"
  using assms
proof (induction s arbitrary: bs)
  case (Cons c s)
  from Cons.prems(1) obtain b r where b: "utf8_char c = Some b" "utf8_encode s = Some r" "bs = b @ r"
    by (auto split: option.splits)
  from Cons.prems(2) have c: "0 \<le> c" "c \<le> 1114111" "is_text s" by (simp_all add: is_text_def)
  from Cons.IH [OF b(2) c(3)] utf8_decode_char [OF b(1) c(1,2)]
    utf8_char_bytes [OF b(1) c(1,2)] show ?case
    by (auto simp: b(3))
qed simp

lemma utf8_encode_strip:
  "utf8_encode s = Some bs \<Longrightarrow> is_text s \<Longrightarrow>
   utf8_encode (dropWhile (\<lambda>c. c = 0) s) = Some (dropWhile (\<lambda>b. b = 0) bs)"
proof (induction s arbitrary: bs)
  case (Cons c s)
  from Cons.prems(1) obtain b r where b: "utf8_char c = Some b" "utf8_encode s = Some r" "bs = b @ r"
    by (auto split: option.splits)
  from Cons.prems(2) have c: "0 \<le> c" "c \<le> 1114111" "is_text s" by (simp_all add: is_text_def)
  show ?case
  proof (cases "c = 0")
    case True
    then have "b = [0]" using b(1) by (simp add: utf8_char_def)
    with True Cons.IH [OF b(2) c(3)] show ?thesis by (simp add: b(3))
  next
    case False
    obtain x xs where x: "b = x # xs" using utf8_char_bytes [OF b(1) c(1,2)] by (cases b) auto
    then have "x \<noteq> 0" using utf8_char_bytes [OF b(1) c(1,2)] False by auto
    with False b x show ?thesis by simp
  qed
qed simp

section \<open>Numbers as bytes\<close>

lemma foldl_bytes: "foldl (\<lambda>acc b. acc * 256 + b) (a::int) bs = a * 256 ^ length bs + from_bytes bs"
proof (induction bs arbitrary: a)
  case (Cons b bs)
  have "foldl (\<lambda>acc b. acc * 256 + b) a (b # bs) = (a * 256 + b) * 256 ^ length bs + from_bytes bs"
    using Cons.IH by simp
  moreover have "from_bytes (b # bs) = b * 256 ^ length bs + from_bytes bs"
    using Cons.IH [of b] by (simp add: from_bytes_def)
  ultimately show ?case by (simp add: algebra_simps)
qed (simp add: from_bytes_def)

lemma from_bytes_simps [simp]:
  "from_bytes [] = 0" "from_bytes (b # bs) = b * 256 ^ length bs + from_bytes bs"
  "from_bytes (bs @ [b]) = from_bytes bs * 256 + b"
  using foldl_bytes [of b bs] by (simp_all add: from_bytes_def)

lemma from_bytes_bounds:
  "\<forall>b \<in> set bs. 0 \<le> b \<and> b < 256 \<Longrightarrow> 0 \<le> from_bytes bs \<and> from_bytes bs < 256 ^ length bs"
proof (induction bs)
  case (Cons b bs)
  then have ih: "0 \<le> from_bytes bs" "from_bytes bs < 256 ^ length bs" and b: "0 \<le> b" "b \<le> 255" by auto
  have "b * 256 ^ length bs \<le> 255 * 256 ^ length bs" using b by (intro mult_right_mono) auto
  moreover have "0 \<le> b * 256 ^ length bs" using b by simp
  moreover have "from_bytes (b # bs) = b * 256 ^ length bs + from_bytes bs"
    and "(256::int) ^ length (b # bs) = 256 * 256 ^ length bs" by simp_all
  ultimately show ?case using ih by linarith
qed simp

lemma to_bytes_from_bytes:
  "\<forall>b \<in> set bs. 0 \<le> b \<and> b < 256 \<Longrightarrow> to_bytes (length bs) (from_bytes bs) = bs"
  by (induction bs rule: rev_induct) auto

lemma from_bytes_strip: "from_bytes (dropWhile (\<lambda>b. b = 0) bs) = from_bytes bs"
  by (induction bs) auto

lemma bit_length_bounds: "0 < n \<Longrightarrow> 0 < bit_length n \<and> 2 ^ nat (bit_length n - 1) \<le> n \<and> n < 2 ^ nat (bit_length n)"
proof (induction n rule: bit_length.induct)
  case (1 n)
  show ?case
  proof (cases "n = 1")
    case True
    then show ?thesis by (simp add: bit_length.simps)
  next
    case False
    define h where "h = n div 2"
    have h: "0 < h" "n = 2 * h \<or> n = 2 * h + 1" using 1(2) False by (auto simp: h_def)
    have l: "bit_length n = 1 + bit_length h" using 1(2) by (subst bit_length.simps) (simp add: h_def)
    have ih: "0 < bit_length h" "2 ^ nat (bit_length h - 1) \<le> h" "h < 2 ^ nat (bit_length h)"
      using 1 h(1) by (simp_all add: h_def)
    have p: "(2::int) ^ nat (1 + bit_length h) = 2 * 2 ^ nat (bit_length h)"
      "(2::int) ^ nat (bit_length h) = 2 * 2 ^ nat (bit_length h - 1)"
      using ih(1) by (simp_all add: nat_add_distrib flip: power_Suc)
    from ih h(2) p show ?thesis by (auto simp: l)
  qed
qed

text \<open>The width \<open>int_to_text\<close> computes is that of the shortest byte string.\<close>

lemma byte_width:
  assumes "\<forall>b \<in> set bs. 0 \<le> b \<and> b < 256" and "bs \<noteq> []" and "hd bs \<noteq> 0"
  shows "nat ((bit_length (from_bytes bs) + 7) div 8) = length bs" and "0 < from_bytes bs"
proof -
  obtain b r where br: "bs = b # r" using assms(2) by (cases bs) auto
  define n where "n = from_bytes bs"
  define k where "k = int (length r)"
  have b: "0 < b" using assms(1,3) br by (cases "b = 0") auto
  have r: "0 \<le> from_bytes r" using assms(1) br from_bytes_bounds [of r] by auto
  have "1 * 256 ^ length r \<le> b * 256 ^ length r" using b by (intro mult_right_mono) auto
  moreover have "n = b * 256 ^ length r + from_bytes r" by (simp add: n_def br)
  ultimately have lo: "256 ^ length r \<le> n" using r by linarith
  then show pos: "0 < from_bytes bs" unfolding n_def by (smt (verit) zero_less_power)
  have hi: "n < 256 ^ Suc (length r)" using from_bytes_bounds [OF assms(1)] by (simp add: n_def br)
  have e: "(256::int) ^ m = 2 ^ (8 * m)" for m by (simp add: power_mult)
  have bl: "0 < bit_length n" "2 ^ nat (bit_length n - 1) \<le> n" "n < 2 ^ nat (bit_length n)"
    using bit_length_bounds [of n] pos by (simp_all add: n_def)
  have "(256::int) ^ length r < 2 ^ nat (bit_length n)" using lo bl(3) by linarith
  then have "8 * length r < nat (bit_length n)" unfolding e by (simp add: power_strict_increasing_iff)
  moreover have "(2::int) ^ nat (bit_length n - 1) < 256 ^ Suc (length r)" using hi bl(2) by linarith
  then have "nat (bit_length n - 1) < 8 * Suc (length r)" unfolding e by (simp add: power_strict_increasing_iff)
  ultimately have "8 * k < bit_length n" "bit_length n \<le> 8 * k + 8" using bl(1) by (auto simp: k_def)
  then have "(bit_length n + 7) div 8 = k + 1" by presburger
  then have "nat ((bit_length n + 7) div 8) = length bs" by (simp add: k_def br)
  then show "nat ((bit_length (from_bytes bs) + 7) div 8) = length bs" unfolding n_def .
qed

section \<open>Properties\<close>

text \<open>
  C16. The Miller-Rabin test never rejects a prime, whatever numbers the generator draws, and
  below 41 * 41 it accepts exactly the primes.
\<close>

theorem miller_rabin_verdict:
  assumes "secrets_ok R"
  shows "(is_prime n \<longrightarrow> fst (is_probable_prime R n k g)) \<and>
    (n < 1681 \<longrightarrow> (fst (is_probable_prime R n k g) \<longleftrightarrow> is_prime n))"
  using probable_prime_complete [OF _ assms, of n k g] probable_prime_small [of R n k g] by auto

lemma generated_key_primes:
  assumes "generate_rsa_keypair R bits e g = Some (Inr kp, g')" and "secrets_ok R" and "bits \<le> 10"
  shows "is_prime (kp_p kp) \<and> is_prime (kp_q kp)"
proof -
  have k: "key_shape R bits e kp" "4 \<le> bits" using generated_key_shape [OF assms(1,2)] by simp_all
  have "(2::int) ^ nat bits \<le> 2 ^ 10" using assms(3) k(2) by (intro power_increasing) auto
  then have "kp_p kp < 41 * 41" and "kp_q kp < 41 * 41"
    using k(1) by (auto simp: key_shape_def prime_shape_def)
  with k(1) probable_prime_small show ?thesis by (auto simp: key_shape_def passes_test_def)
qed

lemma key_inverts:
  assumes "key_shape R bits e kp" and "4 \<le> bits" and "1 < e" and "is_prime (kp_p kp)" and "is_prime (kp_q kp)"
    and "0 \<le> m" and "m < kp_N kp"
  shows "\<exists>c. rsa_encrypt_int m (kp_N kp) (kp_e kp) = Inr c \<and> rsa_decrypt_int c (kp_N kp) (kp_d kp) = Inr m"
proof -
  have N: "1 < kp_N kp" using assms(1,4,5) prime_gt
    by (metis key_shape_def less_1_mult)
  define c where "c = m ^ nat e mod kp_N kp"
  have "rsa_encrypt_int m (kp_N kp) (kp_e kp) = Inr c"
    using assms N by (auto simp: rsa_encrypt_int_def py_pow3_def c_def key_shape_def)
  moreover have "rsa_decrypt_int c (kp_N kp) (kp_d kp) = Inr m"
  proof -
  have c: "0 \<le> c" "c < kp_N kp" using N by (simp_all add: c_def)
  have k: "kp_p kp \<noteq> kp_q kp" "kp_N kp = kp_p kp * kp_q kp" "0 \<le> kp_d kp"
    "e * kp_d kp mod ((kp_p kp - 1) * (kp_q kp - 1)) = 1"
    using assms(1) unfolding key_shape_def by auto
  have "c ^ nat (kp_d kp) mod kp_N kp = (m ^ nat e) ^ nat (kp_d kp) mod kp_N kp"
    by (simp add: c_def power_mod)
  also have "\<dots> = m"
    using rsa_identity [OF assms(4,5) k(1) k(4) _ k(3) assms(6)] assms(3,7) by (simp add: k(2))
  finally show ?thesis
    using c N assms(1) by (auto simp: rsa_decrypt_int_def py_pow3_def key_shape_def)
  qed
  ultimately show ?thesis by blast
qed

text \<open>
  C15. A generated key decrypts what it encrypts: for every plaintext below the modulus the two
  routines succeed and give the plaintext back. Up to 10 bits per prime this needs nothing else,
  since the test is exact there; above, it needs that the accepted numbers are primes.
\<close>

theorem rsa_key_roundtrip:
  assumes "generate_rsa_keypair R bits e g = Some (Inr kp, g')" and "secrets_ok R"
    and "bits \<le> 10 \<or> is_prime (kp_p kp) \<and> is_prime (kp_q kp)" and "0 \<le> m" and "m < kp_N kp"
  shows "\<exists>c. rsa_encrypt_int m (kp_N kp) (kp_e kp) = Inr c \<and> rsa_decrypt_int c (kp_N kp) (kp_d kp) = Inr m"
  using generated_key_shape [OF assms(1,2)] generated_key_primes [OF assms(1,2)] assms(3-5)
  by (intro key_inverts) auto

text \<open>
A key request with an even public exponent never returns: both primes are odd, so the
  exponent is never coprime to \<open>phi\<close> and the search loop draws new primes for ever, whatever the
  generator delivers.
\<close>

theorem even_exponent_never_returns:
  assumes "even e" and "1 < e" and "4 \<le> bits" and "secrets_ok R"
  shows "generate_rsa_keypair R bits e g = None"
proof (rule ccontr)
  assume "generate_rsa_keypair R bits e g \<noteq> None"
  then obtain y g' where y: "key_search R bits e g = Some (y, g')"
    using assms by (auto simp: generate_rsa_keypair_def)
  from key_search_ok [OF y] assms obtain kp where "key_shape R bits e kp" by auto
  then have "gcd e ((kp_p kp - 1) * (kp_q kp - 1)) = 1" and "even (kp_p kp - 1)"
    by (auto simp: key_shape_def prime_shape_def)
  with \<open>even e\<close> show False by (metis dvd_mult2 gcd_greatest odd_one)
qed

text \<open>
Text survives the conversion to a number and back, except for leading NUL characters,
  which disappear; only text with a surrogate is refused.
\<close>

theorem text_roundtrip:
  assumes "is_text s"
  shows "case text_to_int s of
      Inl e \<Rightarrow> utf8_encode s = None
    | Inr n \<Rightarrow> 0 \<le> n \<and> int_to_text n = Some (dropWhile (\<lambda>c. c = 0) s)"
proof (cases "utf8_encode s")
  case None
  then show ?thesis by (simp add: text_to_int_def)
next
  case (Some bs)
  define bs' where "bs' = dropWhile (\<lambda>b. b = 0) bs"
  have t: "text_to_int s = Inr (from_bytes bs')"
    using Some by (cases bs) (simp_all add: text_to_int_def bs'_def from_bytes_strip)
  have e: "utf8_encode (dropWhile (\<lambda>c. c = 0) s) = Some bs'"
    using utf8_encode_strip [OF Some assms] by (simp add: bs'_def)
  have "is_text (dropWhile (\<lambda>c. c = 0) s)"
    using assms by (auto simp: is_text_def list_all_iff dest: set_dropWhileD)
  with e have d: "utf8_decode bs' = Some (dropWhile (\<lambda>c. c = 0) s)" "\<forall>b \<in> set bs'. 0 \<le> b \<and> b < 256"
    using utf8_decode_encode by blast+
  have "int_to_text (from_bytes bs') = Some (dropWhile (\<lambda>c. c = 0) s)"
  proof (cases "bs' = []")
    case True
    with d(1) show ?thesis by (simp add: int_to_text_def)
  next
    case False
    then have "hd bs' \<noteq> 0" unfolding bs'_def by (rule hd_dropWhile)
    with byte_width [OF d(2) False] to_bytes_from_bytes [OF d(2)] d(1) show ?thesis
      by (simp add: int_to_text_def)
  qed
  with from_bytes_bounds [OF d(2)] show ?thesis by (simp add: t)
qed

section \<open>Witnesses\<close>

definition demo_secrets :: "bool secrets" where
  "demo_secrets = \<lparr>sc_randbelow = (\<lambda>m g. (0, g)),
     sc_randbits = (\<lambda>b g. ((if g then 13 else 11) mod 2 ^ nat b, \<not> g))\<rparr>"

lemma demo_secrets_ok: "secrets_ok demo_secrets"
  by (simp add: secrets_ok_def demo_secrets_def)

lemma demo_search:
  "prime_search demo_secrets 4 False = Some (11, True)" "prime_search demo_secrets 4 True = Some (13, False)"
proof -
  have t: "sc_randbits demo_secrets 4 False = (11, True)" "prime_candidate 4 11 = 11"
    "is_probable_prime demo_secrets 11 10 True = (True, True)"
    "sc_randbits demo_secrets 4 True = (13, False)" "prime_candidate 4 13 = 13"
    "is_probable_prime demo_secrets 13 10 False = (True, False)"
    by code_simp+
  show "prime_search demo_secrets 4 False = Some (11, True)"
    by (subst prime_search.simps) (simp add: t)
  show "prime_search demo_secrets 4 True = Some (13, False)"
    by (subst prime_search.simps) (simp add: t)
qed

lemma demo_key:
  "generate_rsa_keypair demo_secrets 4 7 False =
     Some (Inr \<lparr>kp_p = 11, kp_q = 13, kp_N = 143, kp_phi = 120, kp_e = 7, kp_d = 103\<rparr>, False)"
proof -
  have "fst (egcd 7 120) = 1" "modinv 7 120 = Inr 103" by code_simp+
  then have "key_search demo_secrets 4 7 False =
     Some (Inr \<lparr>kp_p = 11, kp_q = 13, kp_N = 143, kp_phi = 120, kp_e = 7, kp_d = 103\<rparr>, False)"
    by (subst key_search.simps) (simp add: generate_prime_def demo_search)
  then show ?thesis by (simp add: generate_rsa_keypair_def)
qed

theorem miller_rabin_verdict_witness:
  "fst (is_probable_prime demo_secrets 1087 10 False) = is_prime 1087"
  using miller_rabin_verdict [OF demo_secrets_ok, of 1087 10 False] by simp

theorem rsa_key_roundtrip_witness:
  "\<exists>c. rsa_encrypt_int 100 143 7 = Inr c \<and> rsa_decrypt_int c 143 103 = Inr 100"
  using rsa_key_roundtrip [OF demo_key demo_secrets_ok, of 100] by simp

theorem even_exponent_never_returns_witness: "generate_rsa_keypair demo_secrets 12 4 False = None"
  using even_exponent_never_returns [of 4 12 demo_secrets False] demo_secrets_ok by simp

theorem text_roundtrip_witness:
  "case text_to_int [0, 233, 8364, 128512] of
      Inl e \<Rightarrow> False
    | Inr n \<Rightarrow> int_to_text n = Some [233, 8364, 128512]"
proof -
  have "is_text [0, 233, 8364, 128512]" by code_simp
  from text_roundtrip [OF this] show ?thesis by (simp add: text_to_int_def utf8_char_def)
qed

end
