(* ===== verification/Shor_Factor.thy ===== *)
theory Shor_Factor
  imports Shor_Rsa
begin

text \<open>
  Factoring in the Shor add-on: \<open>classical_factor.py\<close>, the Qiskit integration of
  \<open>qiskit_shor.py\<close>, the facade \<open>factor.py\<close> and the estimator \<open>estimate.py\<close>. Pollard's rho is
  two nested \<open>partial_function (option)\<close> loops, so that a search without end is \<open>None\<close>. The
  Qiskit packages are the fields of \<open>qiskit\<close>: what importing, constructing and calling them
  gives, with one type \<open>'o\<close> for all their objects.
\<close>

section \<open>Classical factoring\<close>

function isqrt :: "int \<Rightarrow> int" where
  "isqrt n =
     (if n \<le> 0 then 0
      else let r = 2 * isqrt (n div 4) in if (r + 1) * (r + 1) \<le> n then r + 1 else r)"
  by pat_completeness auto
termination by (relation "measure nat") auto

declare isqrt.simps [simp del]

function trial_loop :: "int \<Rightarrow> int \<Rightarrow> int \<Rightarrow> (int \<times> int) option" where
  "trial_loop n limit f =
     (if f \<le> limit then
        if n mod f = 0 then Some (f, n div f) else trial_loop n limit (f + 2)
      else None)"
  by pat_completeness auto
termination by (relation "measure (\<lambda>(n, limit, f). nat (limit + 1 - f))") auto

declare trial_loop.simps [simp del]

definition trial_division :: "int \<Rightarrow> (int \<times> int) option" where
  "trial_division n = (if n mod 2 = 0 then Some (2, n div 2) else trial_loop n (isqrt n) 3)"

text \<open>\<open>random.randrange(lo, hi)\<close> is a draw from the generator state.\<close>

type_synonym 'g randrange = "int \<Rightarrow> int \<Rightarrow> 'g \<Rightarrow> int \<times> 'g"

definition rho_step :: "int \<Rightarrow> int \<Rightarrow> int \<Rightarrow> int" where
  "rho_step n c v = (v\<^sup>2 mod n + c) mod n"

partial_function (option) rho_cycle :: "int \<Rightarrow> int \<Rightarrow> int \<times> int \<times> int \<Rightarrow> int option" where
  "rho_cycle n c s =
     (case s of (x, y, d) \<Rightarrow>
        if d = 1 then
          (let x' = rho_step n c x; y' = rho_step n c (rho_step n c y) in
           rho_cycle n c (x', y', gcd \<bar>x' - y'\<bar> n))
        else Some d)"

partial_function (option) rho_search :: "'g randrange \<Rightarrow> int \<Rightarrow> 'g \<Rightarrow> (int \<times> 'g) option" where
  "rho_search rr n g =
     (let (c, g1) = rr 1 n g; (x, g2) = rr 0 n g1 in
      Option.bind (rho_cycle n c (x, x, 1)) (\<lambda>d.
        if d \<noteq> n then Some (d, g2) else rho_search rr n g2))"

definition pollards_rho :: "'g randrange \<Rightarrow> int \<Rightarrow> 'g \<Rightarrow> (int \<times> 'g) option" where
  "pollards_rho rr n g =
     (if n mod 2 = 0 then Some (2, g)
      else if n mod 3 = 0 then Some (3, g)
      else rho_search rr n g)"

definition factor_semiprime :: "'g randrange \<Rightarrow> int \<Rightarrow> 'g \<Rightarrow> ((int \<times> int) py \<times> 'g) option" where
  "factor_semiprime rr N g =
     (if N \<le> 1 then Some (Inl (ExnValue ''N must be > 1''), g)
      else if N mod 2 = 0 then Some (Inr (2, N div 2), g)
      else case trial_division N of
        Some (p, q) \<Rightarrow> Some (Inr (min p q, max p q), g)
      | None \<Rightarrow>
          Option.bind (pollards_rho rr N g) (\<lambda>(p, g').
            let q = N div p in
            if p * q \<noteq> N then Some (Inl (ExnValue ''Failed to factor N''), g')
            else Some (Inr (min p q, max p q), g')))"

section \<open>Facts about classical factoring\<close>

lemma isqrt_bounds: "0 \<le> n \<Longrightarrow> 0 \<le> isqrt n \<and> isqrt n * isqrt n \<le> n \<and> n < (isqrt n + 1) * (isqrt n + 1)"
proof (induction n rule: isqrt.induct)
  case (1 n)
  show ?case
  proof (cases "n = 0")
    case True
    then show ?thesis by (simp add: isqrt.simps)
  next
    case False
    define s where "s = isqrt (n div 4)"
    have ih: "0 \<le> s" "s * s \<le> n div 4" "n div 4 < (s + 1) * (s + 1)"
      using 1 False by (simp_all add: s_def)
    have lo: "4 * (s * s) \<le> n" and hi: "n < 4 * ((s + 1) * (s + 1))" using ih(2,3) by presburger+
    have "isqrt n = (if (2 * s + 1) * (2 * s + 1) \<le> n then 2 * s + 1 else 2 * s)"
      using 1(2) False by (subst isqrt.simps) (simp add: s_def Let_def)
    with ih(1) lo hi show ?thesis by (auto simp: algebra_simps)
  qed
qed

lemma trial_loop_ok:
  assumes "trial_loop n limit f = r"
  shows "case r of
      Some (p, q) \<Rightarrow> p dvd n \<and> q = n div p \<and> f \<le> p \<and> p \<le> limit \<and>
        (\<forall>k. f \<le> k \<and> k < p \<and> even (k - f) \<longrightarrow> \<not> k dvd n)
    | None \<Rightarrow> \<forall>k. f \<le> k \<and> k \<le> limit \<and> even (k - f) \<longrightarrow> \<not> k dvd n"
  using assms
proof (induction n limit f arbitrary: r rule: trial_loop.induct)
  case (1 n limit f)
  have next_odd: "k = f \<or> f + 2 \<le> k \<and> even (k - (f + 2))" if "f \<le> k" "even (k - f)" for k
    using that by presburger
  consider "\<not> f \<le> limit" | "f \<le> limit" "n mod f = 0" | "f \<le> limit" "n mod f \<noteq> 0" by blast
  then show ?case
  proof cases
    case 1
    with "1.prems" show ?thesis by (auto simp: trial_loop.simps [of n])
  next
    case 2
    with "1.prems" show ?thesis by (auto simp: trial_loop.simps [of n])
  next
    case 3
    then have r: "trial_loop n limit (f + 2) = r" using "1.prems" by (simp add: trial_loop.simps [of n limit f])
    have f: "\<not> f dvd n" using 3 by (simp add: dvd_eq_mod_eq_0)
    from "1.IH" [OF 3 r] f next_odd show ?thesis by (auto split: option.splits)
  qed
qed

lemma rho_cycle_ok:
  assumes "rho_cycle n c s = Some r"
  shows "(snd (snd s) = 1 \<or> snd (snd s) dvd n \<and> 0 \<le> snd (snd s)) \<longrightarrow> r dvd n \<and> r \<noteq> 1 \<and> 0 \<le> r"
  using assms
proof (induction rule: rho_cycle.raw_induct [rotated, consumes 1, case_names step])
  case (step loop n c s r)
  obtain x y d where s: "s = (x, y, d)" by (rule prod_cases3)
  show ?case
  proof (cases "d = 1")
    case True
    then obtain x' y' where "loop n c (x', y', gcd \<bar>x' - y'\<bar> n) = Some r"
      using step(2) by (auto simp: Let_def s)
    from step(1) [OF this] show ?thesis by simp
  next
    case False
    with step(2) show ?thesis by (auto simp: s)
  qed
qed

lemma rho_search_ok: "rho_search rr n g = Some y \<Longrightarrow> fst y dvd n \<and> fst y \<noteq> 1 \<and> fst y \<noteq> n \<and> 0 \<le> fst y"
proof (induction rule: rho_search.raw_induct [rotated, consumes 1, case_names step])
  case (step search rr n g y)
  obtain c g1 x g2 where rr: "rr 1 n g = (c, g1)" "rr 0 n g1 = (x, g2)" by (metis prod.exhaust)
  with step(2) obtain d where d: "rho_cycle n c (x, x, 1) = Some d" by (auto simp: bind_eq_Some_conv)
  have "d dvd n \<and> d \<noteq> 1 \<and> 0 \<le> d" using rho_cycle_ok [OF d] by simp
  with step rr d show ?case by (auto split: if_splits)
qed

text \<open>Trial division is complete, so rho is only ever asked about primes, and it finds the least divisor.\<close>

definition least_divisor :: "int \<Rightarrow> int \<Rightarrow> bool" where
  "least_divisor p n = (p dvd n \<and> (\<forall>k. 2 \<le> k \<and> k < p \<longrightarrow> \<not> k dvd n))"

lemma composite_divisor:
  assumes "1 < N" and "\<not> is_prime N"
  obtains d where "2 \<le> d" and "d * d \<le> N" and "d dvd N"
  using prime_by_trial [OF assms(1)] assms(2) by blast

lemma trial_division_composite:
  assumes "1 < N" and "\<not> is_prime N" and "odd N"
  obtains p q where "trial_division N = Some (p, q)" and "p * q = N" and "is_prime p" and "p \<le> q" and "least_divisor p N"
proof -
  obtain d where d: "2 \<le> d" "d * d \<le> N" "d dvd N" using assms(1,2) by (rule composite_divisor)
  have odd: "odd k" if "k dvd N" for k using assms(3) that by (meson dvd_trans)
  have s: "isqrt N * isqrt N \<le> N" "N < (isqrt N + 1) * (isqrt N + 1)" "0 \<le> isqrt N"
    using isqrt_bounds [of N] assms(1) by simp_all
  have "d \<le> isqrt N"
  proof (rule ccontr)
    assume "\<not> d \<le> isqrt N"
    then have "(isqrt N + 1) * (isqrt N + 1) \<le> d * d" using s(3) by (intro mult_mono) auto
    with d(2) s(2) show False by simp
  qed
  moreover have "3 \<le> d" "even (d - 3)" using d(1) odd [OF d(3)] by presburger+
  ultimately obtain p q where t: "trial_loop N (isqrt N) 3 = Some (p, q)"
    using trial_loop_ok [where n = N and limit = "isqrt N" and f = 3, OF refl] d(3) by (auto split: option.splits)
  have p: "p dvd N" "q = N div p" "3 \<le> p" "p \<le> isqrt N"
      "\<And>k. 3 \<le> k \<Longrightarrow> k < p \<Longrightarrow> even (k - 3) \<Longrightarrow> \<not> k dvd N"
    using trial_loop_ok [OF t] by auto
  have pq: "p * q = N" using p(1,2) by simp
  have "p * p \<le> isqrt N * isqrt N" using p(3,4) by (intro mult_mono) auto
  then have "p * p \<le> p * q" using s(1) pq by simp
  then have "p \<le> q" using p(3) by simp
  moreover have "is_prime p"
  proof (rule prime_by_trial)
    fix k assume k: "2 \<le> k" "k * k \<le> p"
    show "\<not> k dvd p"
    proof
      assume "k dvd p"
      then have "k dvd N" using p(1) by (rule dvd_trans)
      moreover from odd [OF this] k(1) have "3 \<le> k" "even (k - 3)" by presburger+
      moreover have "2 * k \<le> k * k" using k(1) by (intro mult_right_mono) auto
      then have "k < p" using k by linarith
      ultimately show False using p(5) by blast
    qed
  qed (use p(3) in simp)
  moreover have "least_divisor p N"
    unfolding least_divisor_def
  proof (intro conjI allI impI)
    fix k assume k: "2 \<le> k \<and> k < p"
    show "\<not> k dvd N"
    proof
      assume d: "k dvd N"
      from odd [OF d] k have "3 \<le> k" "even (k - 3)" by presburger+
      with p(5) [of k] k d show False by blast
    qed
  qed (rule p(1))
  ultimately show thesis using that [of p q] t pq assms(3) by (simp add: trial_division_def odd_iff_mod_2_eq_one)
qed

lemma trial_division_prime:
  assumes "is_prime N" and "odd N"
  shows "trial_division N = None"
proof (cases "trial_division N")
  case (Some r)
  obtain p q where r: "r = (p, q)" by (rule prod.exhaust)
  have t: "trial_loop N (isqrt N) 3 = Some (p, q)"
    using Some r assms(2) by (simp add: trial_division_def odd_iff_mod_2_eq_one)
  have N: "1 < N" by (rule prime_gt [OF assms(1)])
  have p: "p dvd N" "3 \<le> p" "p \<le> isqrt N" using trial_loop_ok [OF t] by auto
  have "p = N" using prime_divisors [OF assms(1) p(1)] p(2) by auto
  moreover have "p * p \<le> isqrt N * isqrt N" using p(2,3) by (intro mult_mono) auto
  then have "p * p \<le> N" using isqrt_bounds [of N] N by simp
  moreover have "1 * p < p * p" using p(2) by (intro mult_strict_right_mono) auto
  ultimately show ?thesis by simp
qed

lemma factor_composite:
  assumes "1 < N" and "\<not> is_prime N"
  obtains p q where "factor_semiprime rr N g = Some (Inr (p, q), g)" and "p * q = N" and "is_prime p"
    and "p \<le> q" and "least_divisor p N"
proof (cases "even N")
  case True
  have "is_prime 2" by code_simp
  then have "N \<noteq> 2" using assms(2) by auto
  then have "4 \<le> N" using True assms(1) by presburger
  then show ?thesis using True assms(1) \<open>is_prime 2\<close>
    by (intro that [of 2 "N div 2"]) (auto simp: factor_semiprime_def least_divisor_def)
next
  case False
  with assms obtain p q where t: "trial_division N = Some (p, q)" "p * q = N" "is_prime p" "p \<le> q" "least_divisor p N"
    by (rule trial_division_composite)
  with False assms(1) show ?thesis
    by (intro that [of p q]) (auto simp: factor_semiprime_def odd_iff_mod_2_eq_one)
qed

lemma factor_prime:
  assumes "is_prime N" and "3 < N"
  shows "factor_semiprime rr N g = None"
proof -
  have o: "odd N" using prime_divisors [OF assms(1), of 2] assms(2) by auto
  have "\<not> 3 dvd N" using prime_divisors [OF assms(1), of 3] assms(2) by auto
  then have r: "pollards_rho rr N g = rho_search rr N g"
    using o by (simp add: pollards_rho_def odd_iff_mod_2_eq_one dvd_eq_mod_eq_0)
  have "rho_search rr N g = None"
  proof (rule ccontr)
    assume "rho_search rr N g \<noteq> None"
    then obtain y where "rho_search rr N g = Some y" by blast
    from rho_search_ok [OF this] have y: "fst y dvd N" "fst y \<noteq> 1" "fst y \<noteq> N" "0 \<le> fst y" by auto
    have "fst y \<noteq> 0" using y(1) assms(2) by auto
    with prime_divisors [OF assms(1) y(1)] y show False by auto
  qed
  with o r assms(2) trial_division_prime [OF assms(1) o] show ?thesis
    by (simp add: factor_semiprime_def odd_iff_mod_2_eq_one)
qed

text \<open>The factors of a product of two primes are found exactly.\<close>

lemma factor_two_primes:
  assumes "is_prime a" and "is_prime b"
  shows "factor_semiprime rr (a * b) g = Some (Inr (min a b, max a b), g)"
proof -
  have ab: "1 < a" "1 < b" using assms prime_gt by auto
  have "a dvd a * b" "a < a * b" using ab by simp_all
  then have "1 < a * b" "\<not> is_prime (a * b)" using prime_divisors [of "a * b" a] ab
    by (auto simp: less_1_mult)
  then obtain p q where f: "factor_semiprime rr (a * b) g = Some (Inr (p, q), g)" "p * q = a * b"
    "is_prime p" "p \<le> q" "least_divisor p (a * b)"
    by (rule factor_composite)
  have "p dvd a * b" using f(2) by (metis dvd_triv_left)
  then have "p dvd a \<or> p dvd b" using prime_dvd_mult [OF f(3)] by blast
  then have "p = a \<or> p = b" using prime_divisors assms prime_gt [OF f(3)] by (metis less_irrefl less_trans zero_less_one)
  then have "p = a \<and> q = b \<or> p = b \<and> q = a" using f(2) ab by (auto simp: mult.commute)
  with f(1,4) show ?thesis by (auto simp: min_def max_def)
qed

section \<open>The Qiskit integration\<close>

text \<open>
  What \<open>Shor.factor\<close> returned: an object with the attribute, a dictionary, or something else.
  The value of \<open>factors\<close> is modelled as \<open>json\<close>, tuples as lists.
\<close>

datatype shor_raw = With_factors json | Raw_dict "(string, json) dict" | Raw_other

datatype 'o shor_primitive = Quantum_instance 'o | Sampler_primitive 'o | No_primitive

text \<open>
  The packages: which names can be imported (\<open>None\<close> or an exception where they cannot) and what
  the constructors and methods answer. \<open>qk_kwargs\<close> is \<open>kwargs.update(json.loads(raw))\<close>, \<open>None\<close>
  for a text it raises on. \<open>qk_factor\<close> has a flag for the call with \<open>N\<close> as keyword.
\<close>

record 'o qiskit =
  qk_installed :: bool
  qk_shor_algorithms :: "'o option"
  qk_shor_legacy :: "'o option"
  qk_parameters :: "'o \<Rightarrow> string list"
  qk_shor_new :: "'o \<Rightarrow> 'o shor_primitive \<Rightarrow> 'o py"
  qk_factor :: "'o \<Rightarrow> bool \<Rightarrow> int \<Rightarrow> shor_raw py"
  qk_quantum_instance :: "('o \<Rightarrow> int \<Rightarrow> 'o py) option"
  qk_aer_simulator :: "'o py"
  qk_ibm_provider :: "string \<Rightarrow> 'o py"
  qk_runtime :: "((string, string) dict \<Rightarrow> 'o py) option"
  qk_service_backend :: "'o \<Rightarrow> string \<Rightarrow> 'o py"
  qk_runtime_sampler :: "('o \<Rightarrow> 'o \<Rightarrow> int \<Rightarrow> 'o py) option"
  qk_aer_sampler :: "int \<Rightarrow> 'o py"
  qk_sampler :: "int \<Rightarrow> 'o py"
  qk_backend_sampler :: "'o \<Rightarrow> int \<Rightarrow> 'o py"
  qk_load_class :: "string \<Rightarrow> string \<Rightarrow> 'o py"
  qk_new_provider :: "'o \<Rightarrow> (string, json) dict \<Rightarrow> 'o py"
  qk_get_backend :: "'o \<Rightarrow> string \<Rightarrow> 'o py"
  qk_kwargs :: "string \<Rightarrow> (string, json) dict option"
  qk_environ :: "(string, string) dict"

definition env_strip :: "'o qiskit \<Rightarrow> string \<Rightarrow> string" where
  "env_strip Q k = py_strip (dict_get_or [] (qk_environ Q) k)"

definition is_qiskit_available :: "'o qiskit \<Rightarrow> bool" where
  "is_qiskit_available Q = qk_installed Q"

definition import_shor_class :: "'o qiskit \<Rightarrow> 'o py" where
  "import_shor_class Q =
     (case qk_shor_algorithms Q of
        Some c \<Rightarrow> Inr c
      | None \<Rightarrow>
          (case qk_shor_legacy Q of
             Some c \<Rightarrow> Inr c
           | None \<Rightarrow> Inl (ExnOther ''ImportError'' ''Could not import Shor from qiskit_algorithms.factorizers or qiskit.algorithms. Install qiskit-algorithms (or upgrade Qiskit) to enable quantum factoring.'')))"

text \<open>\<open>try: ... except Exception as e: raise RuntimeError(m) from e\<close>\<close>

definition reraise :: "string \<Rightarrow> 'a py \<Rightarrow> 'a py" where
  "reraise m r = (case r of Inl _ \<Rightarrow> Inl (ExnRuntime m) | Inr x \<Rightarrow> Inr x)"

definition pick_aer_backend :: "'o qiskit \<Rightarrow> 'o py" where
  "pick_aer_backend Q =
     reraise ''Requested Aer simulator but qiskit-aer is not installed.'' (qk_aer_simulator Q)"

text \<open>\<open>path.split(':', 1)\<close> when there is a colon, otherwise \<open>path.rsplit('.', 1)\<close>, unpacked.\<close>

definition split_provider_path :: "string \<Rightarrow> (string \<times> string) py" where
  "split_provider_path p =
     (if CHR '':'' \<in> set p then
        (case py_split1 CHR '':'' p of [m, c] \<Rightarrow> Inr (m, c) | _ \<Rightarrow> Inl (ExnValue ''not enough values to unpack (expected 2, got 1)''))
      else
        (case py_split1 CHR ''.'' (rev p) of
           [c, m] \<Rightarrow> Inr (rev m, rev c)
         | _ \<Rightarrow> Inl (ExnValue ''not enough values to unpack (expected 2, got 1)'')))"

definition provider_kwargs :: "'o qiskit \<Rightarrow> (string, json) dict" where
  "provider_kwargs Q =
     (let raw_kwargs = env_strip Q ''SYNQC_SHOR_PROVIDER_KWARGS'';
          kwargs = (if raw_kwargs \<noteq> [] then (case qk_kwargs Q raw_kwargs of Some d \<Rightarrow> d | None \<Rightarrow> []) else []);
          token = dict_get (qk_environ Q) ''SYNQC_SHOR_PROVIDER_TOKEN'' in
      if truthy_str token \<and> ''token'' \<notin> set (dict_keys kwargs)
      then dict_set ''token'' (JStr (or_str token [])) kwargs else kwargs)"

definition load_provider_backend :: "'o qiskit \<Rightarrow> string option \<Rightarrow> string option \<Rightarrow> 'o py" where
  "load_provider_backend Q provider_loader backend_name =
     (let provider_path = or_str (Some (py_strip (or_str provider_loader []))) (or_str (Some (env_strip Q ''SYNQC_SHOR_PROVIDER_CLASS''))
            (env_strip Q ''SYNQC_SHOR_PROVIDER_LOADER''));
          name = or_str backend_name (env_strip Q ''SYNQC_SHOR_PROVIDER_BACKEND'') in
      if provider_path = [] then Inl (ExnRuntime ''Custom backend requested but no provider loader specified. Set provider_loader or SYNQC_SHOR_PROVIDER_CLASS.'')
      else if name = [] then Inl (ExnRuntime ''Custom backend requested but no backend name specified. Set provider_backend_name or SYNQC_SHOR_PROVIDER_BACKEND.'')
      else py_bind (split_provider_path provider_path) (\<lambda>(module_name, class_name).
           py_bind (qk_load_class Q module_name class_name) (\<lambda>provider_cls.
           py_bind (qk_new_provider Q provider_cls (provider_kwargs Q)) (\<lambda>provider.
           qk_get_backend Q provider name))))"

definition build_sampler_from_backend :: "'o qiskit \<Rightarrow> 'o \<Rightarrow> int \<Rightarrow> 'o py" where
  "build_sampler_from_backend Q backend shots =
     reraise ''Custom backend requested but BackendSampler is unavailable. Ensure your Qiskit version supports primitives for hardware backends.''
       (qk_backend_sampler Q backend shots)"

definition get_ibm_runtime_service :: "'o qiskit \<Rightarrow> 'o py" where
  "get_ibm_runtime_service Q =
     (case qk_runtime Q of
        None \<Rightarrow> Inl (ExnRuntime ''IBM Runtime requested but qiskit-ibm-runtime is not installed.'')
      | Some new_service \<Rightarrow>
          (case new_service [] of
             Inr s \<Rightarrow> Inr s
           | Inl _ \<Rightarrow>
               (let token = or_str (dict_get (qk_environ Q) ''QISKIT_IBM_TOKEN'')
                              (or_str (dict_get (qk_environ Q) ''IBM_QUANTUM_TOKEN'') []);
                    channel = dict_get_or ''ibm_quantum'' (qk_environ Q) ''QISKIT_IBM_CHANNEL'';
                    inst = dict_get (qk_environ Q) ''QISKIT_IBM_INSTANCE'' in
                if token = [] then Inl (ExnRuntime ''IBM Runtime requested, but no saved account and no QISKIT_IBM_TOKEN/IBM_QUANTUM_TOKEN env var.'')
                else new_service ([(''channel'', channel), (''token'', token)] @
                  (if truthy_str inst then [(''instance'', or_str inst [])] else [])))))"

text \<open>
  \<open>int(x)\<close> on a JSON-like value. The text of \<open>TypeError\<close> and of the format error below leave out
  the type and the value they quote.
\<close>

fun factor_int :: "json \<Rightarrow> int py" where
  "factor_int (JInt i) = Inr i"
| "factor_int (JBool b) = Inr (if b then 1 else 0)"
| "factor_int (JFloat x) = Inr (py_int x)"
| "factor_int (JStr s) =
     (case py_int_of_str s of Some i \<Rightarrow> Inr i | None \<Rightarrow> Inl (ExnValue ''invalid literal for int() with base 10''))"
| "factor_int _ = Inl (ExnOther ''TypeError'' ''int() argument must be a string, a bytes-like object or a real number'')"

definition raw_factors :: "shor_raw \<Rightarrow> json" where
  "raw_factors raw =
     (case raw of
        With_factors f \<Rightarrow> f
      | Raw_dict d \<Rightarrow> dict_get_or JNull d ''factors''
      | Raw_other \<Rightarrow> JNull)"

definition parse_factors :: "int \<Rightarrow> shor_raw \<Rightarrow> (int \<times> int) py" where
  "parse_factors N raw =
     (let factors = raw_factors raw in
      if \<not> json_truthy factors then Inl (ExnRuntime ''Qiskit Shor did not return factors (it may have failed).'')
      else
        (let first = (case factors of JList (x # _) \<Rightarrow> x | _ \<Rightarrow> factors) in
         case first of
           JList (a # b # _) \<Rightarrow>
             py_bind (factor_int a) (\<lambda>p. py_bind (factor_int b) (\<lambda>q.
               if p * q \<noteq> N then
                 Inl (ExnRuntime (''Invalid factors from Shor: p*q != N ('' @ py_str_int p @ ''*'' @ py_str_int q @
                   '' != '' @ py_str_int N @ '')''))
               else Inr (min p q, max p q)))
         | _ \<Rightarrow> Inl (ExnRuntime ''Unexpected Shor factors format'')))"

record qiskit_shor_result =
  qr_p :: int
  qr_q :: int
  qr_raw :: shor_raw
  qr_backend_mode :: string

definition aer_modes :: "string list" where
  "aer_modes = [''aer'', ''sim'', ''simulator'']"

definition ibm_modes :: "string list" where
  "ibm_modes = [''ibm'', ''runtime'', ''ibm_quantum'']"

text \<open>\<open>shor.factor(N)\<close>, and with the keyword when the positional call raises \<open>TypeError\<close>.\<close>

definition shor_factor_call :: "'o qiskit \<Rightarrow> 'o \<Rightarrow> int \<Rightarrow> shor_raw py" where
  "shor_factor_call Q shor N =
     (case qk_factor Q shor False N of
        Inl (ExnOther n m) \<Rightarrow> if n = ''TypeError'' then qk_factor Q shor True N else Inl (ExnOther n m)
      | r \<Rightarrow> r)"

definition run_shor :: "'o qiskit \<Rightarrow> 'o \<Rightarrow> 'o shor_primitive \<Rightarrow> int \<Rightarrow> string \<Rightarrow> qiskit_shor_result py" where
  "run_shor Q cls prim N backend_mode =
     py_bind (qk_shor_new Q cls prim) (\<lambda>shor.
     py_bind (shor_factor_call Q shor N) (\<lambda>raw.
     py_bind (parse_factors N raw) (\<lambda>(p, q).
       Inr \<lparr>qr_p = p, qr_q = q, qr_raw = raw, qr_backend_mode = backend_mode\<rparr>)))"

definition ibm_name :: "'o qiskit \<Rightarrow> string option \<Rightarrow> string" where
  "ibm_name Q ibm_backend_name =
     or_str ibm_backend_name (or_str (dict_get (qk_environ Q) ''SYNQC_SHOR_IBM_BACKEND'')
       (or_str (dict_get (qk_environ Q) ''IBM_BACKEND'') []))"

record shor_options =
  so_backend_mode :: string
  so_shots :: int
  so_ibm_backend_name :: "string option"
  so_provider_backend_name :: "string option"
  so_provider_loader :: "string option"

definition legacy_backend :: "'o qiskit \<Rightarrow> shor_options \<Rightarrow> string \<Rightarrow> 'o py" where
  "legacy_backend Q opt mode =
     (if mode \<in> set aer_modes then pick_aer_backend Q
      else if mode \<in> set ibm_modes then
        (let name = ibm_name Q (so_ibm_backend_name opt) in
         if name = [] then Inl (ExnRuntime ''IBM backend requested but no backend name provided (SYNQC_SHOR_IBM_BACKEND).'')
         else case qk_ibm_provider Q name of
           Inr b \<Rightarrow> Inr b
         | Inl _ \<Rightarrow>
             reraise ''Could not acquire IBM backend. Configure qiskit-ibm-provider or qiskit-ibm-runtime.''
               (py_bind (get_ibm_runtime_service Q) (\<lambda>service. qk_service_backend Q service name)))
      else if mode = ''custom'' then load_provider_backend Q (so_provider_loader opt) (so_provider_backend_name opt)
      else Inl (ExnValue (''Unknown backend_mode: '' @ mode)))"

definition pick_sampler :: "'o qiskit \<Rightarrow> shor_options \<Rightarrow> string \<Rightarrow> 'o py" where
  "pick_sampler Q opt mode =
     (if mode \<in> set aer_modes then
        (case qk_aer_sampler Q (so_shots opt) of
           Inr s \<Rightarrow> Inr s
         | Inl _ \<Rightarrow> reraise ''Could not construct a Sampler primitive. Install qiskit-aer or a compatible Qiskit version.''
             (qk_sampler Q (so_shots opt)))
      else if mode \<in> set ibm_modes then
        (let name = ibm_name Q (so_ibm_backend_name opt) in
         if name = [] then Inl (ExnRuntime ''IBM Runtime requested but no backend name provided. Set SYNQC_SHOR_IBM_BACKEND.'')
         else py_bind (get_ibm_runtime_service Q) (\<lambda>service.
              py_bind (qk_service_backend Q service name) (\<lambda>backend.
                case qk_runtime_sampler Q of
                  None \<Rightarrow> Inl (ExnRuntime ''IBM Runtime requested but qiskit-ibm-runtime primitives are unavailable.'')
                | Some new_sampler \<Rightarrow> new_sampler service backend (so_shots opt))))
      else if mode = ''custom'' then
        py_bind (load_provider_backend Q (so_provider_loader opt) (so_provider_backend_name opt))
          (\<lambda>backend. build_sampler_from_backend Q backend (so_shots opt))
      else Inl (ExnValue (''Unknown backend_mode: '' @ mode)))"

definition factor_with_qiskit_shor :: "'o qiskit \<Rightarrow> int \<Rightarrow> shor_options \<Rightarrow> qiskit_shor_result py" where
  "factor_with_qiskit_shor Q N opt =
     (let mode = py_strip (py_lower (or_str (Some (so_backend_mode opt)) ''aer'')) in
      py_bind (import_shor_class Q) (\<lambda>cls.
        if ''quantum_instance'' \<in> set (qk_parameters Q cls) then
          (case qk_quantum_instance Q of
             None \<Rightarrow> Inl (ExnRuntime ''This Qiskit Shor expects quantum_instance but QuantumInstance is unavailable. Install a compatible Qiskit version or use the sampler-based Shor.'')
           | Some new_instance \<Rightarrow>
               py_bind (legacy_backend Q opt mode) (\<lambda>backend.
               py_bind (new_instance backend (so_shots opt)) (\<lambda>qi.
                 run_shor Q cls (Quantum_instance qi) N mode)))
        else if ''sampler'' \<in> set (qk_parameters Q cls) then
          py_bind (pick_sampler Q opt mode) (\<lambda>sampler. run_shor Q cls (Sampler_primitive sampler) N mode)
        else run_shor Q cls No_primitive N ''default''))"

section \<open>The facade\<close>

record step_timing =
  sg_name :: string
  sg_ok :: bool
  sg_detail :: "string option"

record factor_result =
  fr_N :: int
  fr_p :: int
  fr_q :: int
  fr_method_used :: string
  fr_steps :: "step_timing list"

definition step_ok :: "string \<Rightarrow> step_timing" where
  "step_ok n = \<lparr>sg_name = n, sg_ok = True, sg_detail = None\<rparr>"

definition validate_N :: "int \<Rightarrow> int \<Rightarrow> unit py" where
  "validate_N max_bits N =
     (if N \<le> 3 then Inl (ExnValue ''N must be > 3'')
      else if bit_length N > max_bits then
        Inl (ExnValue (''N too large for demo (bit_length='' @ py_str_int (bit_length N) @ '' > max='' @
          py_str_int max_bits @ ''). Reduce N or raise SYNQC_SHOR_MAX_N_BITS intentionally.''))
      else Inr ())"

definition classical_result :: "int \<Rightarrow> step_timing list \<Rightarrow> ((int \<times> int) py \<times> 'g) option \<Rightarrow> (factor_result py \<times> 'g) option" where
  "classical_result N steps r =
     map_option (\<lambda>(f, g). (py_bind f (\<lambda>(p, q).
       Inr \<lparr>fr_N = N, fr_p = p, fr_q = q, fr_method_used = ''classical_fallback'',
            fr_steps = steps @ [step_ok ''classical_factor'']\<rparr>), g)) r"

definition qiskit_result :: "int \<Rightarrow> step_timing list \<Rightarrow> qiskit_shor_result \<Rightarrow> factor_result" where
  "qiskit_result N steps res =
     \<lparr>fr_N = N, fr_p = qr_p res, fr_q = qr_q res, fr_method_used = ''qiskit_shor:'' @ qr_backend_mode res,
      fr_steps = steps @ [step_ok ''qiskit_shor'']\<rparr>"

text \<open>The measured times of the steps and of the whole are left out; the outer \<open>None\<close> is a run without end.\<close>

definition factor_N :: "'o qiskit \<Rightarrow> 'g randrange \<Rightarrow> int \<Rightarrow> int \<Rightarrow> string \<Rightarrow> shor_options \<Rightarrow> 'g
    \<Rightarrow> (factor_result py \<times> 'g) option" where
  "factor_N Q rr max_bits N method0 opt g =
     (case validate_N max_bits N of
        Inl e \<Rightarrow> Some (Inl e, g)
      | Inr _ \<Rightarrow>
          (let steps = [step_ok ''validate''];
               method = py_strip (py_lower (or_str (Some method0) ''auto'')) in
           if method = ''classical'' then classical_result N steps (factor_semiprime rr N g)
           else if method = ''qiskit'' then
             Some (py_bind (factor_with_qiskit_shor Q N opt) (\<lambda>res. Inr (qiskit_result N steps res)), g)
           else if method = ''auto'' then
             (if is_qiskit_available Q then
                (case factor_with_qiskit_shor Q N opt of
                   Inr res \<Rightarrow> Some (Inr (qiskit_result N steps res), g)
                 | Inl e \<Rightarrow>
                     classical_result N
                       (steps @ [\<lparr>sg_name = ''qiskit_shor'', sg_ok = False,
                          sg_detail = Some (''failed; used classical fallback ('' @ exn_name e @ '': '' @ exn_text e @ '')'')\<rparr>])
                       (factor_semiprime rr N g))
              else classical_result N steps (factor_semiprime rr N g))
           else Some (Inl (ExnValue (''Unknown method: '' @ method)), g)))"

section \<open>The estimator\<close>

record shor_estimate =
  es_n_bits :: int
  es_max_bits_cap :: int
  es_qiskit_available :: bool
  es_logical_qubits_textbook :: int

definition estimate_shor_resources :: "'o qiskit \<Rightarrow> int \<Rightarrow> int \<Rightarrow> shor_estimate py" where
  "estimate_shor_resources Q max_bits N =
     (if N \<le> 0 then Inl (ExnValue ''N must be positive'')
      else Inr \<lparr>es_n_bits = bit_length N, es_max_bits_cap = max_bits,
                es_qiskit_available = is_qiskit_available Q, es_logical_qubits_textbook = 3 * bit_length N\<rparr>)"

section \<open>Facts about the facade\<close>

lemma parse_factors_ok: "parse_factors N raw = Inr (p, q) \<Longrightarrow> p * q = N \<and> p \<le> q"
proof -
  assume a: "parse_factors N raw = Inr (p, q)"
  then obtain a b where "a * b = N" "p = min a b" "q = max a b"
    by (auto simp: parse_factors_def Let_def elim!: py_bind_InrE split: if_splits json.splits list.splits)
  then show ?thesis by (auto simp: min_def max_def mult.commute)
qed

lemma run_shor_ok: "run_shor Q cls prim N mode = Inr res \<Longrightarrow> qr_p res * qr_q res = N \<and> qr_p res \<le> qr_q res"
  by (auto simp: run_shor_def elim!: py_bind_InrE dest: parse_factors_ok)

lemma qiskit_factors_ok:
  assumes "factor_with_qiskit_shor Q N opt = Inr res"
  shows "qr_p res * qr_q res = N \<and> qr_p res \<le> qr_q res"
proof -
  obtain cls prim mode where "run_shor Q cls prim N mode = Inr res"
    using assms
    by (auto simp: factor_with_qiskit_shor_def Let_def elim!: py_bind_InrE split: if_splits option.splits)
  then show ?thesis by (rule run_shor_ok)
qed

lemma classical_result_composite:
  assumes "1 < N" and "\<not> is_prime N"
  obtains p q where "classical_result N steps (factor_semiprime rr N g) =
      Some (Inr \<lparr>fr_N = N, fr_p = p, fr_q = q, fr_method_used = ''classical_fallback'',
                 fr_steps = steps @ [step_ok ''classical_factor'']\<rparr>, g)"
    and "p * q = N" and "is_prime p" and "p \<le> q"
proof -
  obtain p q where "factor_semiprime rr N g = Some (Inr (p, q), g)" "p * q = N" "is_prime p" "p \<le> q"
    using assms by (rule factor_composite)
  then show ?thesis by (intro that [of p q]) (auto simp: classical_result_def)
qed

lemma mode_names [simp]:
  "py_strip (py_lower ''classical'') = ''classical''" "py_strip (py_lower ''auto'') = ''auto''"
  "py_strip (py_lower ''qiskit'') = ''qiskit''"
  by code_simp+

section \<open>Properties\<close>

text \<open>
  C17. Classical factoring of a number above three returns exactly when the number is composite:
  it then gives its smallest prime factor, below which no number from two on divides it, and the
  cofactor; on a prime the rho loop never ends, whatever the generator draws.
\<close>

theorem factor_semiprime_verdict:
  assumes "3 < N"
  shows "case factor_semiprime rr N g of
      None \<Rightarrow> is_prime N
    | Some (Inl e, g') \<Rightarrow> False
    | Some (Inr (p, q), g') \<Rightarrow> \<not> is_prime N \<and> p * q = N \<and> is_prime p \<and> p \<le> q \<and> (\<forall>k. 2 \<le> k \<and> k < p \<longrightarrow> \<not> k dvd N)"
proof (cases "is_prime N")
  case True
  with factor_prime [OF True assms, of rr g] show ?thesis by simp
next
  case False
  moreover have "1 < N" using assms by simp
  ultimately obtain p q where "factor_semiprime rr N g = Some (Inr (p, q), g)" "p * q = N" "is_prime p" "p \<le> q"
    "least_divisor p N" by (elim factor_composite)
  with False show ?thesis by (simp add: least_divisor_def)
qed

text \<open>
With any installation of the Qiskit packages, missing and failing ones included, factoring
  a composite number within the bit limit by \<open>auto\<close> or \<open>classical\<close> succeeds with two ordered
  factors whose product is the number; the fallback finds a prime one.
\<close>

theorem factor_N_succeeds:
  assumes "3 < N" and "bit_length N \<le> max_bits" and "\<not> is_prime N"
    and "method = ''auto'' \<or> method = ''classical''"
  shows "\<exists>r g'. factor_N Q rr max_bits N method opt g = Some (Inr r, g') \<and> fr_N r = N \<and>
    fr_p r * fr_q r = N \<and> fr_p r \<le> fr_q r \<and> (fr_method_used r = ''classical_fallback'' \<longrightarrow> is_prime (fr_p r))"
proof -
  have v: "validate_N max_bits N = Inr ()" using assms(1,2) by (simp add: validate_N_def)
  have N: "1 < N" using assms(1) by simp
  have cl: "\<exists>r g'. classical_result N steps (factor_semiprime rr N g) = Some (Inr r, g') \<and> fr_N r = N \<and>
      fr_p r * fr_q r = N \<and> fr_p r \<le> fr_q r \<and> is_prime (fr_p r)" for steps
    by (rule classical_result_composite [OF N assms(3), of steps rr g]) force
  show ?thesis
  proof (cases "method = ''auto'' \<and> is_qiskit_available Q")
    case True
    show ?thesis
    proof (cases "factor_with_qiskit_shor Q N opt")
      case (Inl e)
      then show ?thesis using True v cl by (simp add: factor_N_def or_str_def) blast
    next
      case (Inr res)
      then show ?thesis using True v qiskit_factors_ok [OF Inr]
        by (simp add: factor_N_def or_str_def qiskit_result_def)
    qed
  next
    case False
    then show ?thesis using assms(4) v cl by (auto simp: factor_N_def or_str_def) blast+
  qed
qed

section \<open>Witnesses\<close>

text \<open>An installation whose Shor class cannot be imported, as \<open>qiskit\<close> without \<open>qiskit-algorithms\<close>.\<close>

definition bare_qiskit :: "unit qiskit" where
  "bare_qiskit = \<lparr>qk_installed = True, qk_shor_algorithms = None, qk_shor_legacy = None,
     qk_parameters = (\<lambda>_. []), qk_shor_new = (\<lambda>_ _. Inr ()), qk_factor = (\<lambda>_ _ _. Inr Raw_other),
     qk_quantum_instance = None, qk_aer_simulator = Inl ExnValidation, qk_ibm_provider = (\<lambda>_. Inl ExnValidation),
     qk_runtime = None, qk_service_backend = (\<lambda>_ _. Inr ()), qk_runtime_sampler = None,
     qk_aer_sampler = (\<lambda>_. Inl ExnValidation), qk_sampler = (\<lambda>_. Inr ()), qk_backend_sampler = (\<lambda>_ _. Inr ()),
     qk_load_class = (\<lambda>_ _. Inl ExnValidation), qk_new_provider = (\<lambda>_ _. Inr ()),
     qk_get_backend = (\<lambda>_ _. Inr ()), qk_kwargs = (\<lambda>_. None), qk_environ = []\<rparr>"

definition demo_options :: shor_options where
  "demo_options = \<lparr>so_backend_mode = ''aer'', so_shots = 1024, so_ibm_backend_name = None,
     so_provider_backend_name = None, so_provider_loader = None\<rparr>"

definition low_range :: "unit randrange" where
  "low_range lo hi g = (lo, g)"

theorem factor_semiprime_verdict_witness:
  "case factor_semiprime low_range 91 () of None \<Rightarrow> is_prime 91
    | Some (Inl e, g') \<Rightarrow> False
    | Some (Inr (p, q), g') \<Rightarrow> \<not> is_prime 91 \<and> p * q = 91 \<and> is_prime p \<and> p \<le> q \<and>
        (\<forall>k. 2 \<le> k \<and> k < p \<longrightarrow> \<not> k dvd 91)"
  using factor_semiprime_verdict [of 91 low_range "()"] by simp

theorem factor_N_succeeds_witness:
  "\<exists>r g'. factor_N bare_qiskit low_range 20 143 ''auto'' demo_options () = Some (Inr r, g') \<and> fr_N r = 143 \<and>
    fr_p r * fr_q r = 143 \<and> fr_p r \<le> fr_q r \<and> (fr_method_used r = ''classical_fallback'' \<longrightarrow> is_prime (fr_p r))"
proof -
  have "bit_length 143 \<le> 20" and "\<not> is_prime 143" by code_simp+
  then show ?thesis
    using factor_N_succeeds [of 143 20 "''auto''" bare_qiskit low_range demo_options "()"] by simp
qed

end
