(* ===== verification/Shor_Service.thy ===== *)
theory Shor_Service
  imports Shor_Factor
begin

text \<open>
  The service of the Shor add-on: configuration (\<open>config.py\<close>), the ring buffer of runs
  (\<open>run_store.py\<close>) and the FastAPI routes (\<open>api.py\<close>). A route takes what it reads from outside
  as a \<open>call\<close> (new run id, time, measured duration, whether the log file is writable) and returns
  its answer or exception with the new state; \<open>None\<close> is a request that never returns. Measured
  durations of single steps are left out of the payloads.
\<close>

section \<open>Configuration\<close>

definition env_int :: "(string, string) dict \<Rightarrow> string \<Rightarrow> int \<Rightarrow> int" where
  "env_int env name dflt =
     (case py_int_of_str (py_strip (dict_get_or (py_str_int dflt) env name)) of
        Some i \<Rightarrow> i
      | None \<Rightarrow> dflt)"

definition env_bool :: "(string, string) dict \<Rightarrow> string \<Rightarrow> bool \<Rightarrow> bool" where
  "env_bool env name dflt =
     (case dict_get env name of
        None \<Rightarrow> dflt
      | Some raw \<Rightarrow> py_lower (py_strip raw) \<in> set [''1'', ''true'', ''yes'', ''y'', ''on''])"

record shor_config =
  sh_enable :: bool
  sh_max_n_bits :: int
  sh_allow_text :: bool
  sh_default_e :: int
  sh_default_key_bits :: int
  sh_run_log_path :: string
  sh_run_log_max :: int
  sh_include_steps :: bool

definition load_shor_config :: "(string, string) dict \<Rightarrow> shor_config" where
  "load_shor_config env =
     \<lparr>sh_enable = env_bool env ''SYNQC_SHOR_ENABLE'' True,
      sh_max_n_bits = env_int env ''SYNQC_SHOR_MAX_N_BITS'' 20,
      sh_allow_text = env_bool env ''SYNQC_SHOR_ALLOW_TEXT'' True,
      sh_default_e = env_int env ''SYNQC_SHOR_DEFAULT_E'' 65537,
      sh_default_key_bits = env_int env ''SYNQC_SHOR_DEFAULT_KEY_BITS'' 12,
      sh_run_log_path = py_strip (dict_get_or [] env ''SYNQC_SHOR_RUN_LOG_PATH''),
      sh_run_log_max = env_int env ''SYNQC_SHOR_RUN_LOG_MAX'' 200,
      sh_include_steps = env_bool env ''SYNQC_SHOR_INCLUDE_STEPS'' True\<rparr>"

section \<open>The run log\<close>

record shor_run =
  sr_run_id :: string
  sr_ts_utc :: string
  sr_kind :: string
  sr_ok :: bool
  sr_runtime_ms :: real
  sr_request :: json
  sr_response :: "json option"
  sr_error :: "string option"

definition to_public_summary :: "shor_run \<Rightarrow> (string, json) dict" where
  "to_public_summary r =
     [(''run_id'', JStr (sr_run_id r)), (''ts_utc'', JStr (sr_ts_utc r)), (''kind'', JStr (sr_kind r)),
      (''ok'', JBool (sr_ok r)), (''runtime_ms'', JFloat (sr_runtime_ms r))]"

text \<open>The list in memory, and the lines of the JSONL file.\<close>

record run_log =
  rl_runs :: "shor_run list"
  rl_file :: "shor_run list"

record call =
  ca_id :: string
  ca_ts :: string
  ca_ms :: real
  ca_writable :: bool

definition record_run :: "shor_config \<Rightarrow> call \<Rightarrow> string \<Rightarrow> bool \<Rightarrow> json \<Rightarrow> json option \<Rightarrow> string option \<Rightarrow> run_log
    \<Rightarrow> shor_run \<times> run_log" where
  "record_run C c kind ok request response error L =
     (let r = \<lparr>sr_run_id = ca_id c, sr_ts_utc = ca_ts c, sr_kind = kind, sr_ok = ok, sr_runtime_ms = ca_ms c,
               sr_request = request, sr_response = response, sr_error = error\<rparr>;
          runs = rl_runs L @ [r];
          kept = (if int (length runs) > sh_run_log_max C
                  then drop (nat (int (length runs) - sh_run_log_max C)) runs else runs) in
      (r, \<lparr>rl_runs = kept,
           rl_file = (if sh_run_log_path C \<noteq> [] \<and> ca_writable c then rl_file L @ [r] else rl_file L)\<rparr>))"

definition list_runs :: "int \<Rightarrow> run_log \<Rightarrow> (string, json) dict list" where
  "list_runs limit L = map to_public_summary (rev (py_last (max 1 (min limit 500)) (rl_runs L)))"

definition get_run :: "string \<Rightarrow> run_log \<Rightarrow> shor_run option" where
  "get_run i L = List.find (\<lambda>r. sr_run_id r = i) (rl_runs L)"

section \<open>Routes\<close>

definition ensure_enabled :: "shor_config \<Rightarrow> unit py" where
  "ensure_enabled C = (if sh_enable C then Inr () else Inl (HTTPExn 404 ''Shor demo feature is disabled.''))"

definition default_guardrails :: "shor_config \<Rightarrow> (string \<times> int) list" where
  "default_guardrails C =
     (let caps = [(''auto'', 32000), (''aer'', 32000), (''ibm'', 4096), (''custom'', 4096), (''classical'', 5000000)] in
      if sh_max_n_bits C > 0
      then map (\<lambda>(k, v). (k, min v (2 ^ nat (sh_max_n_bits C) - 1))) caps
      else caps)"

definition shor_health :: "shor_config \<Rightarrow> 'o qiskit \<Rightarrow> (bool \<times> int \<times> (string \<times> int) list) py" where
  "shor_health C Q =
     py_bind (ensure_enabled C) (\<lambda>_. Inr (is_qiskit_available Q, sh_max_n_bits C, default_guardrails C))"

text \<open>
  The common frame of the routes: the outcome of the body is recorded, and any exception becomes
  a 400 with its text, an \<open>HTTPException\<close> raised inside included.
\<close>

definition close_run :: "shor_config \<Rightarrow> call \<Rightarrow> string \<Rightarrow> json \<Rightarrow> ('a \<Rightarrow> json) \<Rightarrow> 'a py \<Rightarrow> run_log
    \<Rightarrow> (string \<times> 'a) py \<times> run_log" where
  "close_run C c kind req dump body L =
     (case body of
        Inr a \<Rightarrow> (case record_run C c kind True req (Some (dump a)) None L of (r, L') \<Rightarrow> (Inr (sr_run_id r, a), L'))
      | Inl e \<Rightarrow> (Inl (HTTPExn 400 (exn_text e)), snd (record_run C c kind False req None (Some (exn_text e)) L)))"

record factor_request =
  fq_N :: int
  fq_method :: string
  fq_options :: shor_options
  fq_mode :: "string option"

definition dump_options :: "shor_options \<Rightarrow> (string, json) dict" where
  "dump_options opt =
     [(''backend_mode'', JStr (so_backend_mode opt)), (''shots'', JInt (so_shots opt)),
      (''ibm_backend_name'', json_opt JStr (so_ibm_backend_name opt)),
      (''provider_backend_name'', json_opt JStr (so_provider_backend_name opt)),
      (''provider_loader'', json_opt JStr (so_provider_loader opt))]"

text \<open>The \<open>Literal\<close> and range constraints of the request models.\<close>

definition options_valid :: "string \<Rightarrow> shor_options \<Rightarrow> bool" where
  "options_valid method opt =
     (method \<in> set [''auto'', ''qiskit'', ''classical''] \<and>
      so_backend_mode opt \<in> set [''aer'', ''ibm'', ''custom''] \<and> 1 \<le> so_shots opt \<and> so_shots opt \<le> 20000)"

definition dump_step :: "step_timing \<Rightarrow> json" where
  "dump_step s = JObj [(''name'', JStr (sg_name s)), (''ok'', JBool (sg_ok s)), (''detail'', json_opt JStr (sg_detail s))]"

definition dump_steps :: "shor_config \<Rightarrow> step_timing list \<Rightarrow> json" where
  "dump_steps C steps = (if sh_include_steps C then JList (map dump_step steps) else JNull)"

definition dump_factor :: "shor_config \<Rightarrow> call \<Rightarrow> factor_result \<Rightarrow> json" where
  "dump_factor C c r =
     JObj [(''N'', JInt (fr_N r)), (''p'', JInt (fr_p r)), (''q'', JInt (fr_q r)),
           (''method_used'', JStr (fr_method_used r)), (''runtime_ms'', JFloat (ca_ms c)),
           (''steps'', dump_steps C (fr_steps r))]"

definition shor_factor :: "shor_config \<Rightarrow> 'o qiskit \<Rightarrow> 'g randrange \<Rightarrow> call \<Rightarrow> factor_request \<Rightarrow> run_log \<times> 'g
    \<Rightarrow> ((string \<times> factor_result) py \<times> run_log \<times> 'g) option" where
  "shor_factor C Q rr c req s =
     (case s of (L, g) \<Rightarrow>
        case ensure_enabled C of
          Inl e \<Rightarrow> Some (Inl e, L, g)
        | Inr _ \<Rightarrow>
            map_option (\<lambda>(body, g').
                case close_run C c ''shor_factor''
                    (JObj ([(''N'', JInt (fq_N req)), (''method'', JStr (fq_method req))] @ dump_options (fq_options req) @
                       [(''mode'', json_opt JStr (fq_mode req))]))
                    (dump_factor C c) body L of (a, L') \<Rightarrow> (a, L', g'))
              (factor_N Q rr (sh_max_n_bits C) (fq_N req) (fq_method req) (fq_options req) g))"

record keygen_request =
  kg_bits :: "int option"
  kg_e :: "int option"
  kg_mode :: "string option"

text \<open>Constraints hold for values the client gives; the configured defaults are not validated.\<close>

definition keygen_valid :: "keygen_request \<Rightarrow> bool" where
  "keygen_valid req =
     ((case kg_bits req of None \<Rightarrow> True | Some b \<Rightarrow> 4 \<le> b \<and> b \<le> 32) \<and>
      (case kg_e req of None \<Rightarrow> True | Some e \<Rightarrow> 3 \<le> e))"

definition dump_key :: "rsa_key_pair \<Rightarrow> json" where
  "dump_key kp =
     JObj [(''p'', JInt (kp_p kp)), (''q'', JInt (kp_q kp)), (''N'', JInt (kp_N kp)), (''phi'', JInt (kp_phi kp)),
           (''e'', JInt (kp_e kp)), (''d'', JInt (kp_d kp))]"

definition or_default :: "'a option \<Rightarrow> 'a \<Rightarrow> 'a" where
  "or_default a d = (case a of None \<Rightarrow> d | Some x \<Rightarrow> x)"

definition rsa_generate :: "shor_config \<Rightarrow> 'g secrets \<Rightarrow> call \<Rightarrow> keygen_request \<Rightarrow> run_log \<times> 'g
    \<Rightarrow> ((string \<times> rsa_key_pair) py \<times> run_log \<times> 'g) option" where
  "rsa_generate C R c req s =
     (case s of (L, g) \<Rightarrow>
        case ensure_enabled C of
          Inl e \<Rightarrow> Some (Inl e, L, g)
        | Inr _ \<Rightarrow>
            (let bits = or_default (kg_bits req) (sh_default_key_bits C);
                 e = or_default (kg_e req) (sh_default_e C) in
             map_option (\<lambda>(body, g').
                 case close_run C c ''rsa_generate''
                     (JObj [(''bits'', JInt bits), (''e'', JInt e), (''mode'', json_opt JStr (kg_mode req))])
                     dump_key body L of (a, L') \<Rightarrow> (a, L', g'))
               (generate_rsa_keypair R bits e g)))"

record encrypt_request =
  eq_N :: int
  eq_e :: int
  eq_plaintext_int :: "int option"
  eq_plaintext_text :: "int list option"

definition encrypt_body :: "shor_config \<Rightarrow> encrypt_request \<Rightarrow> (int \<times> int) py" where
  "encrypt_body C req =
     py_bind
       (case eq_plaintext_int req of
          Some m \<Rightarrow> Inr m
        | None \<Rightarrow>
            if \<not> sh_allow_text C then Inl (HTTPExn 400 ''Text mode disabled by SYNQC_SHOR_ALLOW_TEXT=0.'')
            else text_to_int (or_default (eq_plaintext_text req) []))
       (\<lambda>m. py_bind (rsa_encrypt_int m (eq_N req) (eq_e req)) (\<lambda>c. Inr (c, m)))"

text \<open>A text is dumped by its code points.\<close>

definition dump_text :: "int list option \<Rightarrow> json" where
  "dump_text t = json_opt (\<lambda>s. JList (map JInt s)) t"

definition rsa_encrypt :: "shor_config \<Rightarrow> call \<Rightarrow> encrypt_request \<Rightarrow> run_log \<Rightarrow> (string \<times> int \<times> int) py \<times> run_log" where
  "rsa_encrypt C c req L =
     (case ensure_enabled C of
        Inl e \<Rightarrow> (Inl e, L)
      | Inr _ \<Rightarrow>
          if eq_plaintext_int req = None \<and> (eq_plaintext_text req = None \<or> eq_plaintext_text req = Some [])
          then (Inl (HTTPExn 400 ''Provide plaintext_int or plaintext_text.''), L)
          else close_run C c ''rsa_encrypt''
            (JObj [(''N'', JInt (eq_N req)), (''e'', JInt (eq_e req)),
                   (''plaintext_int'', json_opt JInt (eq_plaintext_int req)),
                   (''plaintext_text'', dump_text (eq_plaintext_text req))])
            (\<lambda>(c, m). JObj [(''ciphertext_int'', JInt c), (''plaintext_int'', JInt m)])
            (encrypt_body C req) L)"

record decrypt_request =
  dq_N :: int
  dq_e :: int
  dq_ciphertext_int :: int
  dq_method :: string
  dq_options :: shor_options

record decrypt_response =
  dr_plaintext_int :: int
  dr_plaintext_text :: "int list option"
  dr_p :: int
  dr_q :: int
  dr_d :: int
  dr_method_used :: string
  dr_steps :: "step_timing list"

definition decrypt_body :: "shor_config \<Rightarrow> decrypt_request \<Rightarrow> factor_result \<Rightarrow> decrypt_response py" where
  "decrypt_body C req fres =
     py_bind (modinv (dq_e req) ((fr_p fres - 1) * (fr_q fres - 1))) (\<lambda>d.
     py_bind (rsa_decrypt_int (dq_ciphertext_int req) (dq_N req) d) (\<lambda>m.
       Inr \<lparr>dr_plaintext_int = m,
            dr_plaintext_text = (if sh_allow_text C then int_to_text m else None),
            dr_p = fr_p fres, dr_q = fr_q fres, dr_d = d, dr_method_used = fr_method_used fres,
            dr_steps = fr_steps fres @ [step_ok ''derive_private_key+decrypt'']\<rparr>))"

definition dump_decrypt :: "shor_config \<Rightarrow> call \<Rightarrow> decrypt_response \<Rightarrow> json" where
  "dump_decrypt C c r =
     JObj [(''plaintext_int'', JInt (dr_plaintext_int r)), (''plaintext_text'', dump_text (dr_plaintext_text r)),
           (''p'', JInt (dr_p r)), (''q'', JInt (dr_q r)), (''d'', JInt (dr_d r)),
           (''method_used'', JStr (dr_method_used r)), (''runtime_ms'', JFloat (ca_ms c)),
           (''steps'', dump_steps C (dr_steps r))]"

definition rsa_decrypt :: "shor_config \<Rightarrow> 'o qiskit \<Rightarrow> 'g randrange \<Rightarrow> call \<Rightarrow> decrypt_request \<Rightarrow> run_log \<times> 'g
    \<Rightarrow> ((string \<times> decrypt_response) py \<times> run_log \<times> 'g) option" where
  "rsa_decrypt C Q rr c req s =
     (case s of (L, g) \<Rightarrow>
        case ensure_enabled C of
          Inl e \<Rightarrow> Some (Inl e, L, g)
        | Inr _ \<Rightarrow>
            map_option (\<lambda>(fres, g').
                case close_run C c ''rsa_decrypt''
                    (JObj ([(''N'', JInt (dq_N req)), (''e'', JInt (dq_e req)),
                            (''ciphertext_int'', JInt (dq_ciphertext_int req)),
                            (''method'', JStr (dq_method req))] @ dump_options (dq_options req)))
                    (dump_decrypt C c) (py_bind fres (decrypt_body C req)) L of (a, L') \<Rightarrow> (a, L', g'))
              (factor_N Q rr (sh_max_n_bits C) (dq_N req) (dq_method req) (dq_options req) g))"

definition dump_estimate :: "shor_estimate \<Rightarrow> json" where
  "dump_estimate e =
     JObj [(''estimate'', JObj [(''n_bits'', JInt (es_n_bits e)), (''max_bits_cap'', JInt (es_max_bits_cap e)),
       (''qiskit_available'', JBool (es_qiskit_available e)),
       (''logical_qubits_textbook'', JInt (es_logical_qubits_textbook e))])]"

definition shor_estimate_route :: "shor_config \<Rightarrow> 'o qiskit \<Rightarrow> call \<Rightarrow> int \<Rightarrow> run_log
    \<Rightarrow> (string \<times> shor_estimate) py \<times> run_log" where
  "shor_estimate_route C Q c N L =
     (case ensure_enabled C of
        Inl e \<Rightarrow> (Inl e, L)
      | Inr _ \<Rightarrow>
          close_run C c ''shor_estimate'' (JObj [(''N'', JInt N)]) dump_estimate
            (estimate_shor_resources Q (sh_max_n_bits C) N) L)"

definition shor_runs :: "shor_config \<Rightarrow> int \<Rightarrow> run_log \<Rightarrow> (string, json) dict list py" where
  "shor_runs C limit L = py_bind (ensure_enabled C) (\<lambda>_. Inr (list_runs limit L))"

definition shor_run_detail :: "shor_config \<Rightarrow> string \<Rightarrow> run_log \<Rightarrow> shor_run py" where
  "shor_run_detail C i L =
     py_bind (ensure_enabled C) (\<lambda>_.
       case get_run i L of Some r \<Rightarrow> Inr r | None \<Rightarrow> Inl (HTTPExn 404 ''run not found''))"

section \<open>The shipped configuration\<close>

lemma strip_strip: "py_strip (py_strip s) = py_strip s"
proof -
  define u where "u = dropWhile is_space s"
  define v where "v = dropWhile is_space (rev u)"
  have t: "py_strip s = rev v" by (simp add: py_strip_def u_def v_def)
  show ?thesis
  proof (cases "v = []")
    case True
    then show ?thesis by (simp only: t rev.simps) (simp add: py_strip_def)
  next
    case False
    then have "\<not> is_space (hd v)" unfolding v_def by (rule hd_dropWhile)
    moreover obtain w where w: "rev u = w @ v" by (metis v_def takeWhile_dropWhile_id)
    then have "u = rev v @ rev w" by (metis rev_append rev_rev_ident)
    then have "hd u = hd (rev v)" "u \<noteq> []" using False by simp_all
    then have "\<not> is_space (hd (rev v))" unfolding u_def by (metis hd_dropWhile)
    ultimately show ?thesis using False by (simp add: t strip_id last_rev)
  qed
qed

lemma env_int_default: "env_int [] name d = d"
proof -
  have "py_int_of_str (py_strip s) = py_int_of_str s" for s by (simp add: py_int_of_str_def strip_strip)
  then show ?thesis by (simp add: env_int_def dict_get_or_def int_of_str_of_int)
qed

lemma default_config:
  "load_shor_config [] =
     \<lparr>sh_enable = True, sh_max_n_bits = 20, sh_allow_text = True, sh_default_e = 65537, sh_default_key_bits = 12,
      sh_run_log_path = [], sh_run_log_max = 200, sh_include_steps = True\<rparr>"
  by (simp add: load_shor_config_def env_int_default env_bool_def dict_get_or_def py_strip_def)

section \<open>Facts about the run log\<close>

lemma close_run_ok [simp]:
  "close_run C c kind req dump (Inr a) L =
     (Inr (ca_id c, a), snd (record_run C c kind True req (Some (dump a)) None L))"
  by (simp add: close_run_def record_run_def Let_def)

lemma close_run_failed [simp]:
  "close_run C c kind req dump (Inl e) L =
     (Inl (HTTPExn 400 (exn_text e)), snd (record_run C c kind False req None (Some (exn_text e)) L))"
  by (simp add: close_run_def)

definition last_n :: "nat \<Rightarrow> 'a list \<Rightarrow> 'a list" where
  "last_n m xs = drop (length xs - m) xs"

lemma last_n_short [simp]: "length xs \<le> m \<Longrightarrow> last_n m xs = xs"
  by (simp add: last_n_def)

lemma length_last_n: "length (last_n m xs) = min m (length xs)"
  by (auto simp: last_n_def)

lemma last_n_append: "last_n m (last_n m xs @ ys) = last_n m (xs @ ys)"
proof (cases "length xs \<le> m")
  case False
  define k where "k = length xs - m"
  have "last_n m (last_n m xs @ ys) = drop (length ys) (drop k (xs @ ys))"
    using False by (simp add: last_n_def k_def)
  also have "\<dots> = last_n m (xs @ ys)" using False by (simp add: last_n_def k_def add.commute)
  finally show ?thesis .
qed simp

lemma rev_last_n: "rev (last_n m xs) = take m (rev xs)"
  by (cases "length xs \<le> m") (simp_all add: last_n_def rev_drop)

lemma py_last_last_n: "0 < n \<Longrightarrow> py_last n xs = last_n (nat n) xs"
  by (simp add: py_last_def last_n_def)

lemma record_run_newest:
  assumes "0 \<le> sh_run_log_max C"
  shows "rl_runs (snd (record_run C c kind ok req resp err L)) =
    last_n (nat (sh_run_log_max C)) (rl_runs L @ [fst (record_run C c kind ok req resp err L)])"
proof -
  define m where "m = nat (sh_run_log_max C)"
  have m: "sh_run_log_max C = int m" using assms by (simp add: m_def)
  have "nat (1 + int k) = Suc k" for k by simp
  then show ?thesis by (simp add: record_run_def Let_def last_n_def m nat_diff_distrib)
qed

text \<open>A sequence of recorded runs: the calls with their kind and outcome.\<close>

type_synonym run_entry = "call \<times> string \<times> bool \<times> json \<times> json option \<times> string option"

fun record_all :: "shor_config \<Rightarrow> run_entry list \<Rightarrow> run_log \<Rightarrow> run_log" where
  "record_all C [] L = L"
| "record_all C ((c, k, b, q, r, e) # es) L = record_all C es (snd (record_run C c k b q r e L))"

fun entry_run :: "run_entry \<Rightarrow> shor_run" where
  "entry_run (c, k, b, q, r, e) =
     \<lparr>sr_run_id = ca_id c, sr_ts_utc = ca_ts c, sr_kind = k, sr_ok = b, sr_runtime_ms = ca_ms c,
      sr_request = q, sr_response = r, sr_error = e\<rparr>"

lemma record_run_entry: "fst (record_run C c k b q r e L) = entry_run (c, k, b, q, r, e)"
  by (simp add: record_run_def Let_def)

lemma record_all_newest:
  assumes "0 \<le> sh_run_log_max C" and "length (rl_runs L) \<le> nat (sh_run_log_max C)"
  shows "rl_runs (record_all C es L) = last_n (nat (sh_run_log_max C)) (rl_runs L @ map entry_run es)"
  using assms(2)
proof (induction es arbitrary: L)
  case (Cons x es)
  obtain c k b q r e where x: "x = (c, k, b, q, r, e)" by (metis surj_pair)
  define L' where "L' = snd (record_run C c k b q r e L)"
  have L': "rl_runs L' = last_n (nat (sh_run_log_max C)) (rl_runs L @ [entry_run x])"
    using record_run_newest [OF assms(1)] by (simp add: L'_def x record_run_entry)
  then have "rl_runs (record_all C es L') = last_n (nat (sh_run_log_max C)) (rl_runs L' @ map entry_run es)"
    by (intro Cons.IH) (simp add: length_last_n)
  then show ?case by (simp add: x L'_def [symmetric]) (simp add: L' last_n_append x)
qed simp

section \<open>Properties\<close>

text \<open>
  The run listing shows the newest runs first: of all recorded runs the last ones up to the
  limit (between 1 and 500) and up to the capacity of the buffer, in reverse order.
\<close>

theorem runs_newest_first:
  assumes "0 \<le> sh_run_log_max C"
  shows "list_runs limit (record_all C es \<lparr>rl_runs = [], rl_file = f\<rparr>) =
    map to_public_summary
      (take (min (nat (sh_run_log_max C)) (nat (max 1 (min limit 500)))) (rev (map entry_run es)))"
  using record_all_newest [OF assms, of "\<lparr>rl_runs = [], rl_file = f\<rparr>" es]
  by (simp add: list_runs_def py_last_last_n rev_last_n min.commute)

lemma factor_N_two_primes:
  assumes "is_prime a" and "is_prime b" and "3 < a * b" and "bit_length (a * b) \<le> max_bits"
  shows "\<exists>r. factor_N Q rr max_bits (a * b) ''classical'' opt g = Some (Inr r, g) \<and>
    fr_p r = min a b \<and> fr_q r = max a b"
  using assms factor_two_primes [OF assms(1,2), of rr g]
  by (simp add: factor_N_def validate_N_def or_str_def classical_result_def)

lemma min_max_mult: "(min a b - 1) * (max a b - 1) = (a - 1) * (b - 1 :: int)"
  by (simp add: min_def max_def)

text \<open>
  C14. The attack the demo shows works when the add-on is enabled and the modulus, the product of two
  different primes, is above three and within the configured bit limit (the keys of the default size
  are not, and are refused): for an exponent prime to the totient and an integer plaintext from zero
  to below the modulus, what the encrypt route returns the decrypt route, asked for the classical
  method, turns back into the plaintext by factoring the modulus, with the inverse of the exponent.
\<close>

theorem decrypt_recovers_plaintext:
  assumes "sh_enable C" and "is_prime a" and "is_prime b" and "a \<noteq> b" and "3 < a * b"
    and "bit_length (a * b) \<le> sh_max_n_bits C" and "0 < e" and "gcd e ((a - 1) * (b - 1)) = 1"
    and "1 < (a - 1) * (b - 1)" and "0 \<le> m" and "m < a * b"
    and "req = \<lparr>eq_N = a * b, eq_e = e, eq_plaintext_int = Some m, eq_plaintext_text = t\<rparr>"
  shows "\<exists>x L1. rsa_encrypt C c1 req L = (Inr (ca_id c1, x, m), L1) \<and>
    (\<exists>r L2. rsa_decrypt C Q rr c2 \<lparr>dq_N = a * b, dq_e = e, dq_ciphertext_int = x, dq_method = ''classical'',
         dq_options = opt\<rparr> (L1, g) = Some (Inr (ca_id c2, r), L2, g) \<and> dr_plaintext_int r = m \<and>
       e * dr_d r mod ((a - 1) * (b - 1)) = 1)"
proof -
  define x where "x = m ^ nat e mod (a * b)"
  have N: "0 < a * b" "a \<noteq> 0" "b \<noteq> 0" using assms(5) by auto
  have enc: "encrypt_body C req = Inr (x, m)"
    using assms(7,10,11) N by (simp add: encrypt_body_def assms(12) rsa_encrypt_int_def py_pow3_def x_def)
  then obtain L1 where e1: "rsa_encrypt C c1 req L = (Inr (ca_id c1, x, m), L1)"
    using assms(1,12) by (simp add: rsa_encrypt_def ensure_enabled_def)
  obtain fr where f: "factor_N Q rr (sh_max_n_bits C) (a * b) ''classical'' opt g = Some (Inr fr, g)"
    "fr_p fr = min a b" "fr_q fr = max a b"
    using factor_N_two_primes [OF assms(2,3,5,6), of Q rr opt g] by blast
  obtain d where d: "modinv e ((a - 1) * (b - 1)) = Inr d"
    using modinv_exists [OF assms(8)] assms(9) by (metis less_trans zero_less_one less_irrefl)
  have dd: "e * d mod ((a - 1) * (b - 1)) = 1" "0 \<le> d"
    using modinv_ok [OF d] assms(9) by (auto simp: mod_pos_pos_trivial) (metis pos_mod_sign less_trans zero_less_one)
  have "x ^ nat d mod (a * b) = (m ^ nat e) ^ nat d mod (a * b)" by (simp add: x_def power_mod)
  also have "\<dots> = m" using rsa_identity [OF assms(2-4) dd(1) assms(7) dd(2) assms(10,11)] .
  finally have "rsa_decrypt_int x (a * b) d = Inr m"
    using N dd(2) pos_mod_sign [OF N(1), of "m ^ nat e"] pos_mod_bound [OF N(1), of "m ^ nat e"]
    unfolding x_def [symmetric] by (simp add: rsa_decrypt_int_def py_pow3_def)
  then have "\<exists>r. decrypt_body C \<lparr>dq_N = a * b, dq_e = e, dq_ciphertext_int = x, dq_method = ''classical'',
      dq_options = opt\<rparr> fr = Inr r \<and> dr_plaintext_int r = m \<and> dr_d r = d"
    using d by (simp add: decrypt_body_def f(2,3) min_max_mult)
  then show ?thesis using e1 f(1) dd(1) assms(1) by (auto simp: rsa_decrypt_def ensure_enabled_def)
qed

lemma bit_length_lower: "2 ^ k \<le> n \<Longrightarrow> int k < bit_length n"
proof -
  assume a: "2 ^ k \<le> n"
  then have "0 < n" by (smt (verit) zero_less_power)
  then have "(2::int) ^ k < 2 ^ nat (bit_length n)" using a bit_length_bounds [of n] by linarith
  then have "k < nat (bit_length n)" by (simp add: power_strict_increasing_iff)
  then show ?thesis by simp
qed

text \<open>
A generated key of \<open>bits\<close> per prime has a modulus of at least \<open>2 * bits - 1\<close> bits, so when
  that exceeds the limit every attempt to factor it is refused before anything runs. The shipped
  defaults, 12 bits and a limit of 20, are such a pair: the demo cannot attack its own keys.
\<close>

theorem default_keys_are_refused:
  assumes "generate_rsa_keypair R bits e g = Some (Inr kp, g')" and "secrets_ok R" and "max_bits < 2 * bits - 1"
  shows "\<exists>msg. factor_N Q rr max_bits (kp_N kp) method opt h = Some (Inl (ExnValue msg), h)"
proof -
  have k: "key_shape R bits e kp" "4 \<le> bits" using generated_key_shape [OF assms(1,2)] by simp_all
  define n where "n = nat (bits - 1)"
  have b: "bits = int n + 1" using k(2) by (simp add: n_def)
  have pq: "2 ^ n \<le> kp_p kp" "2 ^ n \<le> kp_q kp" "kp_N kp = kp_p kp * kp_q kp"
    using k(1) by (simp_all add: key_shape_def prime_shape_def b)
  have "(2::int) ^ n * 2 ^ n \<le> kp_N kp"
    unfolding pq(3) using pq(1,2) by (intro mult_mono) (auto intro: order_trans [of 0 "2 ^ n"])
  then have "int (n + n) < bit_length (kp_N kp)" by (intro bit_length_lower) (simp add: power_add)
  then have "\<not> bit_length (kp_N kp) \<le> max_bits" using assms(3) by (simp add: b)
  then show ?thesis by (simp add: factor_N_def validate_N_def)
qed

text \<open>
  The decrypt route does not notice a modulus that is not a product of two different primes:
  for 9, the square of a prime, it reports success with a wrong plaintext (8 where 2 was
  encrypted).
\<close>

theorem decrypt_of_square_is_wrong:
  "\<exists>x L1 r L2. rsa_encrypt (load_shor_config []) c1
       \<lparr>eq_N = 9, eq_e = 3, eq_plaintext_int = Some 2, eq_plaintext_text = None\<rparr> L = (Inr (ca_id c1, x, 2), L1) \<and>
     rsa_decrypt (load_shor_config []) Q rr c2 \<lparr>dq_N = 9, dq_e = 3, dq_ciphertext_int = x,
       dq_method = ''classical'', dq_options = opt\<rparr> (L1, g) = Some (Inr (ca_id c2, r), L2, g) \<and>
     dr_plaintext_int r = 8"
proof -
  let ?C = "load_shor_config []"
  have C: "sh_enable ?C" "sh_max_n_bits ?C = 20" by (simp_all add: default_config)
  have en: "ensure_enabled ?C = Inr ()" using C(1) by (simp add: ensure_enabled_def)
  have enc: "encrypt_body ?C \<lparr>eq_N = 9, eq_e = 3, eq_plaintext_int = Some 2, eq_plaintext_text = None\<rparr> = Inr (8, 2)"
    by (simp add: encrypt_body_def rsa_encrypt_int_def py_pow3_def)
  have "is_prime 3" and b: "bit_length 9 \<le> 20" by code_simp+
  then have "factor_semiprime rr 9 g = Some (Inr (3, 3), g)" using factor_two_primes [of 3 3 rr g] by simp
  then obtain fr where f: "factor_N Q rr (sh_max_n_bits ?C) 9 ''classical'' opt g = Some (Inr fr, g)"
    "fr_p fr = 3" "fr_q fr = 3"
    using b by (simp add: factor_N_def validate_N_def or_str_def classical_result_def C(2))
  have "modinv 3 4 = Inr 3" by code_simp
  then obtain r where "decrypt_body ?C \<lparr>dq_N = 9, dq_e = 3, dq_ciphertext_int = 8, dq_method = ''classical'',
      dq_options = opt\<rparr> fr = Inr r" "dr_plaintext_int r = 8"
    by (simp add: decrypt_body_def f(2,3) rsa_decrypt_int_def py_pow3_def)
  then show ?thesis using enc f(1) by (auto simp: rsa_encrypt_def rsa_decrypt_def en)
qed

section \<open>Witnesses\<close>

definition demo_call :: "string \<Rightarrow> call" where
  "demo_call i = \<lparr>ca_id = i, ca_ts = ''2025-01-01T00:00:00Z'', ca_ms = 1, ca_writable = True\<rparr>"

theorem runs_newest_first_witness:
  "list_runs 1 (record_all (load_shor_config [])
      [(demo_call ''a'', ''shor_factor'', True, JNull, None, None), (demo_call ''b'', ''rsa_encrypt'', False, JNull, None, None)]
      \<lparr>rl_runs = [], rl_file = []\<rparr>) =
   [to_public_summary (entry_run (demo_call ''b'', ''rsa_encrypt'', False, JNull, None, None))]"
proof -
  have c: "sh_run_log_max (load_shor_config []) = 200" by (simp add: default_config)
  then have "0 \<le> sh_run_log_max (load_shor_config [])" by simp
  from runs_newest_first [OF this, of 1
      "[(demo_call ''a'', ''shor_factor'', True, JNull, None, None), (demo_call ''b'', ''rsa_encrypt'', False, JNull, None, None)]" "[]"]
  show ?thesis by (simp add: c)
qed

theorem decrypt_recovers_plaintext_witness:
  "\<exists>x r L1 L2. rsa_encrypt (load_shor_config []) (demo_call ''a'')
      \<lparr>eq_N = 143, eq_e = 7, eq_plaintext_int = Some 100, eq_plaintext_text = None\<rparr>
      \<lparr>rl_runs = [], rl_file = []\<rparr> = (Inr (''a'', x, 100), L1) \<and>
    rsa_decrypt (load_shor_config []) bare_qiskit low_range (demo_call ''b'') \<lparr>dq_N = 143, dq_e = 7, dq_ciphertext_int = x,
      dq_method = ''classical'', dq_options = demo_options\<rparr> (L1, ()) = Some (Inr (''b'', r), L2, ()) \<and>
    dr_plaintext_int r = 100"
proof -
  have C: "sh_enable (load_shor_config [])" "sh_max_n_bits (load_shor_config []) = 20"
    by (simp_all add: default_config)
  have p: "is_prime 11" "is_prime 13" and b: "bit_length 143 \<le> 20" by code_simp+
  have g: "gcd 7 (120 :: int) = 1" by code_simp
  show ?thesis
    using decrypt_recovers_plaintext [OF C(1) p, of 7 100 _ None "demo_call ''a''" "\<lparr>rl_runs = [], rl_file = []\<rparr>"
        bare_qiskit low_range "demo_call ''b''" demo_options "()"] b g C(2)
    by (simp add: demo_call_def) blast
qed

theorem default_keys_are_refused_witness:
  "\<exists>msg. factor_N bare_qiskit low_range 6 143 ''auto'' demo_options () = Some (Inl (ExnValue msg), ())"
  using default_keys_are_refused [OF demo_key demo_secrets_ok, of 6 bare_qiskit low_range "''auto''" demo_options "()"]
  by simp

end
