(* ===== verification/Auth_Security.thy ===== *)
theory Auth_Security
  imports Base64 Models
begin

text \<open>
  The helpers of \<open>auth/security.py\<close>: password hashes, prefixed tokens and e-mail normalisation.
  The digests of \<open>hashlib\<close> are the fields of \<open>digests\<close>; base64 is that of theory \<open>Base64\<close>.
\<close>

record digests =
  dg_pbkdf2 :: "string \<Rightarrow> int list \<Rightarrow> int \<Rightarrow> nat \<Rightarrow> int list"
  dg_sha256_hex :: "string \<Rightarrow> string"

text \<open>What \<open>pbkdf2_hmac\<close> documents: as many bytes as asked for.\<close>

definition digests_ok :: "digests \<Rightarrow> bool" where
  "digests_ok D = (\<forall>p s i n. length (dg_pbkdf2 D p s i n) = n \<and> is_bytes (dg_pbkdf2 D p s i n))"

section \<open>Passwords\<close>

text \<open>\<open>s.split(c, n)\<close>: at most \<open>n\<close> splits from the left.\<close>

fun py_splitn :: "nat \<Rightarrow> char \<Rightarrow> string \<Rightarrow> string list" where
  "py_splitn 0 c s = [s]"
| "py_splitn (Suc n) c s = (case py_split1 c s of [h, t] \<Rightarrow> h # py_splitn n c t | _ \<Rightarrow> [s])"

definition pbkdf2_hmac :: "digests \<Rightarrow> string \<Rightarrow> int list \<Rightarrow> int \<Rightarrow> nat \<Rightarrow> int list py" where
  "pbkdf2_hmac D password salt iterations dklen =
     (if iterations < 1 then Inl (ExnValue ''iteration value must be greater than 0.'')
      else if dklen < 1 then Inl (ExnValue ''key length must be greater than 0.'')
      else Inr (dg_pbkdf2 D password salt iterations dklen))"

definition hash_password :: "digests \<Rightarrow> int list \<Rightarrow> string \<Rightarrow> int \<Rightarrow> string py" where
  "hash_password D salt password iterations =
     (if length password < 8 then Inl (ExnValue ''Password must be a string of length >= 8'')
      else py_bind (pbkdf2_hmac D password salt iterations 32) (\<lambda>dk.
        Inr (''pbkdf2_sha256$'' @ py_str_int iterations @ CHR ''$'' # b64url_encode salt @ CHR ''$'' # b64url_encode dk)))"

definition verify_password :: "digests \<Rightarrow> string \<Rightarrow> string \<Rightarrow> bool" where
  "verify_password D password stored =
     (case py_splitn 3 CHR ''$'' stored of
        [scheme, iters_s, salt_b64, dk_b64] \<Rightarrow>
          (if scheme \<noteq> ''pbkdf2_sha256'' then False
           else case (py_int_of_str iters_s, b64url_decode salt_b64, b64url_decode dk_b64) of
             (Some iterations, Some salt, Some expected) \<Rightarrow>
               (case pbkdf2_hmac D password salt iterations (length expected) of
                  Inl _ \<Rightarrow> False
                | Inr actual \<Rightarrow> actual = expected)
           | _ \<Rightarrow> False)
      | _ \<Rightarrow> False)"

section \<open>Tokens and e-mail addresses\<close>

text \<open>\<open>uuid4().hex\<close> and \<open>secrets.token_urlsafe\<close> are drawn by the caller of the model.\<close>

definition make_prefixed_token :: "string \<Rightarrow> string \<Rightarrow> string \<Rightarrow> string \<times> string" where
  "make_prefixed_token prefix uid secret = (prefix @ uid @ CHR ''.'' # secret, uid)"

definition normalize_email :: "string \<Rightarrow> string" where
  "normalize_email email = py_lower (py_strip email)"

lemma str_int_no_dollar: "CHR ''$'' \<notin> set (py_str_int i)"
proof
  assume "CHR ''$'' \<in> set (py_str_int i)"
  then have "CHR ''$'' \<in> set (nat_dec (nat \<bar>i\<bar>))" by (auto simp: py_str_int_def split: if_splits)
  then obtain d where d: "d < 10" "CHR ''$'' = digit_char d" using nat_dec_digits by blast
  then have "is_digit CHR ''$''" using digit_char_props(1) by simp
  then show False by (simp add: is_digit_def)
qed

lemma split_hash:
  assumes "is_bytes salt"
  shows "py_splitn 3 CHR ''$'' (''pbkdf2_sha256$'' @ py_str_int i @ CHR ''$'' # b64url_encode salt @ CHR ''$'' # r)
    = [''pbkdf2_sha256'', py_str_int i, b64url_encode salt, r]"
proof -
  have "py_split1 CHR ''$'' (''pbkdf2_sha256'' @ CHR ''$'' # x) = [''pbkdf2_sha256'', x]" for x
    by (rule py_split1_append) simp
  moreover have "py_split1 CHR ''$'' (py_str_int i @ CHR ''$'' # x) = [py_str_int i, x]" for x
    by (rule py_split1_append) (rule str_int_no_dollar)
  moreover have "py_split1 CHR ''$'' (b64url_encode salt @ CHR ''$'' # x) = [b64url_encode salt, x]" for x
    by (rule py_split1_append) (rule b64_no_dollar [OF assms])
  ultimately show ?thesis by (simp add: numeral_3_eq_3)
qed

text \<open>
A password verifies against the hash made from it, and another password verifies exactly
  when it has the same derived key: the salt, the iteration count and the key survive the stored
  text unchanged.
\<close>

theorem password_verifies:
  assumes "hash_password D salt password iterations = Inr stored" and "digests_ok D" and "is_bytes salt"
  shows "verify_password D password stored \<and>
    (verify_password D other stored \<longleftrightarrow>
      dg_pbkdf2 D other salt iterations 32 = dg_pbkdf2 D password salt iterations 32)"
proof -
  define dk where "dk = dg_pbkdf2 D password salt iterations 32"
  have it: "1 \<le> iterations" and stored: "stored = ''pbkdf2_sha256$'' @ py_str_int iterations @
      CHR ''$'' # b64url_encode salt @ CHR ''$'' # b64url_encode dk"
    using assms(1) by (auto simp: hash_password_def pbkdf2_hmac_def dk_def split: if_splits)
  have dk: "is_bytes dk" "length dk = 32" using assms(2) by (simp_all add: digests_ok_def dk_def)
  have "verify_password D p stored \<longleftrightarrow> dg_pbkdf2 D p salt iterations 32 = dk" for p
    unfolding verify_password_def stored split_hash [OF assms(3)]
    using it dk by (simp add: int_of_str_of_int b64_decode_encode assms(3) pbkdf2_hmac_def)
  then show ?thesis by (simp add: dk_def)
qed

text \<open>A toy digest that repeats the length of the password, to instantiate the parameter.\<close>

definition demo_digests :: digests where
  "demo_digests = \<lparr>dg_pbkdf2 = (\<lambda>p s i n. replicate n (int (length p) mod 256)), dg_sha256_hex = id\<rparr>"

lemma demo_digests_ok: "digests_ok demo_digests"
  by (simp add: digests_ok_def demo_digests_def is_bytes_def list_all_iff)

theorem password_verifies_witness:
  "\<exists>stored. hash_password demo_digests [1, 2, 3] ''correct horse'' 100000 = Inr stored \<and>
    verify_password demo_digests ''correct horse'' stored \<and> \<not> verify_password demo_digests ''guess'' stored"
proof -
  obtain stored where h: "hash_password demo_digests [1, 2, 3] ''correct horse'' 100000 = Inr stored"
    by (simp add: hash_password_def pbkdf2_hmac_def)
  have "is_bytes [1, 2, 3]" by (simp add: is_bytes_def)
  from password_verifies [OF h demo_digests_ok this, of "''guess''"] h show ?thesis
    by (simp add: demo_digests_def numeral_eq_Suc)
qed

end
