(* ===== verification/Auth_Store.thy ===== *)
theory Auth_Store
  imports Auth_Security
begin

text \<open>
  The SQLite store of \<open>auth/store.py\<close>: users, sessions, API tokens and the cache of verified
  tokens. The pool of four connections and the transactions of the \<open>sqlite3\<close> module are part of
  the model. The first \<open>INSERT\<close>, \<open>UPDATE\<close> or \<open>DELETE\<close> on a connection opens a transaction, which
  stays open until a commit; other connections keep reading the committed database, and their
  own writes fail with \<open>database is locked\<close>. Every method holds the lock of the store
  throughout, so methods run one after another.
\<close>

section \<open>Tables\<close>

record user_row =
  us_id :: int
  us_email :: string
  us_password_hash :: string
  us_is_admin :: bool
  us_is_active :: bool
  us_created_at :: real

record session_row =
  se_id :: string
  se_user_id :: int
  se_csrf_token :: string
  se_created_at :: real
  se_last_seen_at :: real
  se_expires_at :: real
  se_revoked_at :: "real option"

text \<open>\<open>tk_scopes\<close> is the parsed JSON list, \<open>None\<close> for a text that does not parse.\<close>

record token_row =
  tk_id :: string
  tk_user_id :: int
  tk_label :: "string option"
  tk_prefix :: string
  tk_token_hash :: string
  tk_scopes :: "string list option"
  tk_created_at :: real
  tk_expires_at :: "real option"
  tk_last_used_at :: "real option"
  tk_revoked_at :: "real option"

record auth_db =
  db_users :: "user_row list"
  db_next_id :: int
  db_sessions :: "session_row list"
  db_tokens :: "token_row list"

record token_info =
  ti_user_id :: int
  ti_email :: string
  ti_is_admin :: bool
  ti_scopes :: "string list"

section \<open>Connections and transactions\<close>

record auth_store =
  as_committed :: auth_db
  as_writer :: "(nat \<times> auth_db) option"
  as_pool :: "nat list"
  as_cache :: "(string, real \<times> token_info) dict"

text \<open>Opening the store on a database file: four connections, the schema script runs on the first.\<close>

definition open_store :: "auth_db \<Rightarrow> auth_store" where
  "open_store d = \<lparr>as_committed = d, as_writer = None, as_pool = [1, 2, 3, 0], as_cache = []\<rparr>"

definition db_view :: "auth_store \<Rightarrow> nat \<Rightarrow> auth_db" where
  "db_view s c =
     (case as_writer s of
        Some (w, d) \<Rightarrow> if w = c then d else as_committed s
      | None \<Rightarrow> as_committed s)"

text \<open>A statement that writes: it takes the write lock, also when it fails or changes no row.\<close>

definition db_write :: "nat \<Rightarrow> (auth_db \<Rightarrow> 'a py \<times> auth_db) \<Rightarrow> auth_store \<Rightarrow> 'a py \<times> auth_store" where
  "db_write c f s =
     (if (case as_writer s of Some (w, _) \<Rightarrow> w \<noteq> c | None \<Rightarrow> False)
      then (Inl (ExnOther ''OperationalError'' ''database is locked''), s)
      else case f (db_view s c) of (r, d) \<Rightarrow> (r, s\<lparr>as_writer := Some (c, d)\<rparr>))"

text \<open>
  \<open>_conn\<close>: take the connection at the head of the queue and put it back at its end. On an empty
  queue \<open>get\<close> would block; four connections and the lock rule that out.
\<close>

definition with_conn :: "(nat \<Rightarrow> auth_store \<Rightarrow> 'a py \<times> auth_store) \<Rightarrow> auth_store \<Rightarrow> 'a py \<times> auth_store" where
  "with_conn body s =
     (case as_pool s of
        [] \<Rightarrow> (Inl (ExnOther ''Blocked'' ''pool.get''), s)
      | c # cs \<Rightarrow> (case body c s of (r, s') \<Rightarrow> (r, s'\<lparr>as_pool := cs @ [c]\<rparr>)))"

definition db_read :: "(auth_db \<Rightarrow> 'a) \<Rightarrow> auth_store \<Rightarrow> 'a py \<times> auth_store" where
  "db_read q s = with_conn (\<lambda>c s. (Inr (q (db_view s c)), s)) s"

section \<open>Users\<close>

definition user_count :: "auth_store \<Rightarrow> int py \<times> auth_store" where
  "user_count s = db_read (\<lambda>d. int (length (db_users d))) s"

definition get_user_by_email :: "string \<Rightarrow> auth_store \<Rightarrow> user_row option py \<times> auth_store" where
  "get_user_by_email email s = db_read (\<lambda>d. List.find (\<lambda>u. us_email u = normalize_email email) (db_users d)) s"

definition find_user :: "int \<Rightarrow> auth_db \<Rightarrow> user_row option" where
  "find_user i d = List.find (\<lambda>u. us_id u = i) (db_users d)"

definition get_user_by_id :: "int \<Rightarrow> auth_store \<Rightarrow> user_row option py \<times> auth_store" where
  "get_user_by_id i s = db_read (find_user i) s"

definition insert_user :: "string \<Rightarrow> string \<Rightarrow> bool \<Rightarrow> real \<Rightarrow> auth_db \<Rightarrow> user_row py \<times> auth_db" where
  "insert_user email_n password_hash is_admin now d =
     (if \<exists>u \<in> set (db_users d). us_email u = email_n then (Inl (ExnValue ''User already exists''), d)
      else (let u = \<lparr>us_id = db_next_id d, us_email = email_n, us_password_hash = password_hash,
                     us_is_admin = is_admin, us_is_active = True, us_created_at = now\<rparr> in
            (Inr u, d\<lparr>db_users := db_users d @ [u], db_next_id := db_next_id d + 1\<rparr>)))"

definition create_user :: "string \<Rightarrow> string \<Rightarrow> bool \<Rightarrow> real \<Rightarrow> auth_store \<Rightarrow> user_row py \<times> auth_store" where
  "create_user email password_hash is_admin now s =
     with_conn (\<lambda>c. db_write c (insert_user (normalize_email email) password_hash is_admin now)) s"

definition verify_credentials :: "digests \<Rightarrow> string \<Rightarrow> string \<Rightarrow> auth_store \<Rightarrow> user_row option py \<times> auth_store" where
  "verify_credentials D email password s =
     (case get_user_by_email email s of
        (Inl e, s1) \<Rightarrow> (Inl e, s1)
      | (Inr None, s1) \<Rightarrow> (Inr None, s1)
      | (Inr (Some u), s1) \<Rightarrow>
          (Inr (if us_is_active u \<and> verify_password D password (us_password_hash u) then Some u else None), s1))"

section \<open>Sessions\<close>

definition integrity_error :: "string \<Rightarrow> py_exn" where
  "integrity_error m = ExnOther ''IntegrityError'' m"

definition insert_session :: "session_row \<Rightarrow> auth_db \<Rightarrow> unit py \<times> auth_db" where
  "insert_session r d =
     (if \<exists>x \<in> set (db_sessions d). se_id x = se_id r then (Inl (integrity_error ''UNIQUE constraint failed: sessions.id''), d)
      else if find_user (se_user_id r) d = None then (Inl (integrity_error ''FOREIGN KEY constraint failed''), d)
      else (Inr (), d\<lparr>db_sessions := db_sessions d @ [r]\<rparr>))"

text \<open>The id and the two secrets come from the token helpers; the id is all of the session token that is kept.\<close>

definition create_session :: "string \<Rightarrow> string \<Rightarrow> string \<Rightarrow> real \<Rightarrow> int \<Rightarrow> int \<Rightarrow> auth_store
    \<Rightarrow> (string \<times> string \<times> real) py \<times> auth_store" where
  "create_session uid csrf_uid csrf_secret now user_id ttl_seconds s =
     (let sid = snd (make_prefixed_token ''synqc_sess_'' uid []);
          csrf_token = fst (make_prefixed_token ''synqc_csrf_'' csrf_uid csrf_secret);
          exp = now + of_int ttl_seconds in
      case with_conn (\<lambda>c. db_write c (insert_session
             \<lparr>se_id = sid, se_user_id = user_id, se_csrf_token = csrf_token, se_created_at = now,
              se_last_seen_at = now, se_expires_at = exp, se_revoked_at = None\<rparr>)) s of
        (r, s') \<Rightarrow> (py_bind r (\<lambda>_. Inr (sid, csrf_token, exp)), s'))"

text \<open>A timestamp in a column is falsy when it is null or zero.\<close>

definition truthy_time :: "real option \<Rightarrow> bool" where
  "truthy_time t = (case t of None \<Rightarrow> False | Some x \<Rightarrow> x \<noteq> 0)"

definition get_session :: "string \<Rightarrow> real \<Rightarrow> real \<Rightarrow> auth_store \<Rightarrow> session_row option py \<times> auth_store" where
  "get_session sid now1 now2 s =
     with_conn (\<lambda>c s.
       case List.find (\<lambda>r. se_id r = sid) (db_sessions (db_view s c)) of
         None \<Rightarrow> (Inr None, s)
       | Some r \<Rightarrow>
           if truthy_time (se_revoked_at r) then (Inr None, s)
           else if se_expires_at r \<le> now1 then
             db_write c (\<lambda>d. (Inr None, d\<lparr>db_sessions := filter (\<lambda>x. se_id x \<noteq> sid) (db_sessions d)\<rparr>)) s
           else
             db_write c (\<lambda>d. (Inr (Some r), d\<lparr>db_sessions :=
               map (\<lambda>x. if se_id x = sid then x\<lparr>se_last_seen_at := now2\<rparr> else x) (db_sessions d)\<rparr>)) s) s"

definition revoke_session :: "string \<Rightarrow> real \<Rightarrow> auth_store \<Rightarrow> unit py \<times> auth_store" where
  "revoke_session sid now s =
     with_conn (\<lambda>c. db_write c (\<lambda>d. (Inr (), d\<lparr>db_sessions :=
       map (\<lambda>x. if se_id x = sid then x\<lparr>se_revoked_at := Some now\<rparr> else x) (db_sessions d)\<rparr>))) s"

section \<open>API tokens\<close>

definition insert_token :: "token_row \<Rightarrow> auth_db \<Rightarrow> token_row py \<times> auth_db" where
  "insert_token r d =
     (if \<exists>x \<in> set (db_tokens d). tk_id x = tk_id r then (Inl (integrity_error ''UNIQUE constraint failed: api_tokens.id''), d)
      else if find_user (tk_user_id r) d = None then (Inl (integrity_error ''FOREIGN KEY constraint failed''), d)
      else (Inr r, d\<lparr>db_tokens := db_tokens d @ [r]\<rparr>))"

definition create_api_token :: "digests \<Rightarrow> string \<Rightarrow> string \<Rightarrow> real \<Rightarrow> int \<Rightarrow> string list \<Rightarrow> string option \<Rightarrow> real option
    \<Rightarrow> auth_store \<Rightarrow> (string \<times> token_row) py \<times> auth_store" where
  "create_api_token D uid secret now user_id scopes label expires_at s =
     (case make_prefixed_token ''synqc_at_'' uid secret of
        (token, token_id) \<Rightarrow>
          (case with_conn (\<lambda>c. db_write c (insert_token
               \<lparr>tk_id = token_id, tk_user_id = user_id, tk_label = label,
                tk_prefix = take 8 (last (py_split1 CHR ''.'' token)), tk_token_hash = dg_sha256_hex D token,
                tk_scopes = Some scopes, tk_created_at = now, tk_expires_at = expires_at,
                tk_last_used_at = None, tk_revoked_at = None\<rparr>)) s of
             (r, s') \<Rightarrow> (py_bind r (\<lambda>row. Inr (token, row)), s')))"

definition scopes_or_empty :: "string list option \<Rightarrow> string list" where
  "scopes_or_empty t = (case t of None \<Rightarrow> [] | Some l \<Rightarrow> l)"

definition list_api_tokens :: "int \<Rightarrow> auth_store \<Rightarrow> token_row list py \<times> auth_store" where
  "list_api_tokens user_id s =
     db_read (\<lambda>d. map (\<lambda>r. r\<lparr>tk_scopes := Some (scopes_or_empty (tk_scopes r))\<rparr>)
       (py_sorted_rev tk_created_at (filter (\<lambda>r. tk_user_id r = user_id) (db_tokens d)))) s"

definition revoke_matches :: "string \<Rightarrow> int option \<Rightarrow> token_row \<Rightarrow> bool" where
  "revoke_matches token_id user_id r =
     (tk_id r = token_id \<and> tk_revoked_at r = None \<and> (case user_id of None \<Rightarrow> True | Some u \<Rightarrow> tk_user_id r = u))"

definition revoke_api_token :: "string \<Rightarrow> int option \<Rightarrow> real \<Rightarrow> auth_store \<Rightarrow> bool py \<times> auth_store" where
  "revoke_api_token token_id user_id now s =
     with_conn (\<lambda>c. db_write c (\<lambda>d.
       (Inr (\<exists>r \<in> set (db_tokens d). revoke_matches token_id user_id r),
        d\<lparr>db_tokens := map (\<lambda>r. if revoke_matches token_id user_id r then r\<lparr>tk_revoked_at := Some now\<rparr> else r)
            (db_tokens d)\<rparr>))) s"

definition cache_ttl :: real where
  "cache_ttl = 30"

definition token_info_of :: "token_row \<Rightarrow> user_row \<Rightarrow> token_info" where
  "token_info_of r u =
     \<lparr>ti_user_id = tk_user_id r, ti_email = us_email u, ti_is_admin = us_is_admin u,
      ti_scopes = scopes_or_empty (tk_scopes r)\<rparr>"

text \<open>The three early returns of the database part of \<open>verify_api_token\<close>, and the update of the row.\<close>

definition token_usable :: "string \<Rightarrow> real \<Rightarrow> token_row \<Rightarrow> bool" where
  "token_usable token_hash now1 r =
     (\<not> truthy_time (tk_revoked_at r) \<and> (case tk_expires_at r of None \<Rightarrow> True | Some e \<Rightarrow> \<not> e \<le> now1) \<and>
      token_hash = tk_token_hash r)"

definition touch_token :: "string \<Rightarrow> real \<Rightarrow> auth_db \<Rightarrow> auth_db" where
  "touch_token i now2 d =
     d\<lparr>db_tokens := map (\<lambda>x. if tk_id x = i then x\<lparr>tk_last_used_at := Some now2\<rparr> else x) (db_tokens d)\<rparr>"

definition accept_token :: "string \<Rightarrow> real \<Rightarrow> token_row \<Rightarrow> user_row option \<Rightarrow> auth_store \<Rightarrow> token_info option py \<times> auth_store" where
  "accept_token token_hash now r user s =
     (case user of
        None \<Rightarrow> (Inr None, s)
      | Some u \<Rightarrow>
          if \<not> us_is_active u then (Inr None, s)
          else (Inr (Some (token_info_of r u)),
                s\<lparr>as_cache := dict_set token_hash (now + cache_ttl, token_info_of r u) (as_cache s)\<rparr>))"

definition token_body :: "string \<Rightarrow> string \<Rightarrow> real \<Rightarrow> real \<Rightarrow> real \<Rightarrow> nat \<Rightarrow> auth_store \<Rightarrow> token_info option py \<times> auth_store" where
  "token_body token_hash i now now1 now2 c s =
     (case List.find (\<lambda>r. tk_id r = i) (db_tokens (db_view s c)) of
        None \<Rightarrow> (Inr None, s)
      | Some r \<Rightarrow>
          if \<not> token_usable token_hash now1 r then (Inr None, s)
          else (case db_write c (\<lambda>d. (Inr (), touch_token i now2 d)) s of
                  (Inl e, s1) \<Rightarrow> (Inl e, s1)
                | (Inr _, s1) \<Rightarrow> accept_token token_hash now r (find_user (tk_user_id r) (db_view s1 c)) s1))"

definition lookup_token :: "digests \<Rightarrow> real \<Rightarrow> real \<Rightarrow> real \<Rightarrow> string \<Rightarrow> auth_store \<Rightarrow> token_info option py \<times> auth_store" where
  "lookup_token D now now1 now2 token s =
     with_conn (token_body (dg_sha256_hex D token) (py_removeprefix (hd (py_split1 CHR ''.'' token)) ''synqc_at_'')
       now now1 now2) s"

definition verify_api_token :: "digests \<Rightarrow> real \<Rightarrow> real \<Rightarrow> real \<Rightarrow> string \<Rightarrow> auth_store \<Rightarrow> token_info option py \<times> auth_store" where
  "verify_api_token D now now1 now2 token s =
     (if \<not> py_startswith token ''synqc_at_'' then (Inr None, s)
      else
        (let token_hash = dg_sha256_hex D token in
         case dict_get (as_cache s) token_hash of
           Some (expires_at, payload) \<Rightarrow>
             if expires_at > now then (Inr (Some payload), s)
             else lookup_token D now now1 now2 token (s\<lparr>as_cache := dict_pop token_hash (as_cache s)\<rparr>)
         | None \<Rightarrow> lookup_token D now now1 now2 token s))"

section \<open>Runs of the store\<close>

datatype auth_op =
    Op_count
  | Op_user_by_email string
  | Op_user_by_id int
  | Op_create_user string string bool real
  | Op_verify_credentials string string
  | Op_create_session string string string real int int
  | Op_get_session string real real
  | Op_revoke_session string real
  | Op_create_token string string real int "string list" "string option" "real option"
  | Op_list_tokens int
  | Op_revoke_token string "int option" real
  | Op_verify_token real real real string

fun auth_step :: "digests \<Rightarrow> auth_op \<Rightarrow> auth_store \<Rightarrow> auth_store" where
  "auth_step D Op_count s = snd (user_count s)"
| "auth_step D (Op_user_by_email e) s = snd (get_user_by_email e s)"
| "auth_step D (Op_user_by_id i) s = snd (get_user_by_id i s)"
| "auth_step D (Op_create_user e h a t) s = snd (create_user e h a t s)"
| "auth_step D (Op_verify_credentials e p) s = snd (verify_credentials D e p s)"
| "auth_step D (Op_create_session i ci cs t u ttl) s = snd (create_session i ci cs t u ttl s)"
| "auth_step D (Op_get_session i t1 t2) s = snd (get_session i t1 t2 s)"
| "auth_step D (Op_revoke_session i t) s = snd (revoke_session i t s)"
| "auth_step D (Op_create_token i sec t u sc l e) s = snd (create_api_token D i sec t u sc l e s)"
| "auth_step D (Op_list_tokens u) s = snd (list_api_tokens u s)"
| "auth_step D (Op_revoke_token i u t) s = snd (revoke_api_token i u t s)"
| "auth_step D (Op_verify_token t0 t1 t2 tok) s = snd (verify_api_token D t0 t1 t2 tok s)"

definition auth_run :: "digests \<Rightarrow> auth_op list \<Rightarrow> auth_store \<Rightarrow> auth_store" where
  "auth_run D ops s = fold (auth_step D) ops s"

section \<open>What every method keeps\<close>

text \<open>
  \<open>store_rel\<close> relates the store before and after a method: the committed database is the same,
  the queue has moved on by at most one place, and a connection that holds the write lock keeps it.
\<close>

definition writer_kept :: "nat \<Rightarrow> auth_store \<Rightarrow> auth_store \<Rightarrow> bool" where
  "writer_kept c s s' =
     (as_committed s' = as_committed s \<and>
      (as_writer s = None \<and> (as_writer s' = None \<or> (\<exists>d. as_writer s' = Some (c, d))) \<or>
       (\<exists>w d d'. as_writer s = Some (w, d) \<and> as_writer s' = Some (w, d'))))"

definition store_rel :: "auth_store \<Rightarrow> auth_store \<Rightarrow> bool" where
  "store_rel s s' =
     (writer_kept (hd (as_pool s)) s s' \<and> (as_pool s' = as_pool s \<or> as_pool s' = rotate1 (as_pool s)))"

text \<open>A body touches neither the committed database nor the queue.\<close>

definition body_ok :: "(nat \<Rightarrow> auth_store \<Rightarrow> 'a py \<times> auth_store) \<Rightarrow> bool" where
  "body_ok body = (\<forall>c s r s'. body c s = (r, s') \<longrightarrow> writer_kept c s s' \<and> as_pool s' = as_pool s)"

named_theorems store_rels \<open>methods keep to \<open>store_rel\<close>\<close>
named_theorems body_intros \<open>bodies of the methods that keep to \<open>body_ok\<close>\<close>

lemma writer_kept_refl [simp]: "writer_kept c s s"
  by (cases "as_writer s") (auto simp: writer_kept_def)

lemma writer_kept_trans: "writer_kept c s s1 \<Longrightarrow> writer_kept c s1 s2 \<Longrightarrow> writer_kept c s s2"
  by (auto simp: writer_kept_def)

lemma writer_kept_other [simp]:
  "writer_kept c s (s'\<lparr>as_pool := p\<rparr>) = writer_kept c s s'" "writer_kept c s (s'\<lparr>as_cache := k\<rparr>) = writer_kept c s s'"
  "writer_kept c (s\<lparr>as_cache := k\<rparr>) s' = writer_kept c s s'"
  by (simp_all add: writer_kept_def)

lemma with_conn_rel:
  assumes "body_ok body"
  shows "store_rel s (snd (with_conn body s))"
proof (cases "as_pool s")
  case Nil
  then show ?thesis by (simp add: with_conn_def store_rel_def)
next
  case (Cons c cs)
  obtain r s' where b: "body c s = (r, s')" by (rule prod.exhaust)
  with assms have "writer_kept c s s' \<and> as_pool s' = as_pool s" unfolding body_ok_def by blast
  then show ?thesis using Cons b by (simp add: store_rel_def with_conn_def)
qed

lemma db_write_ok: "db_write c f s = (r, s') \<Longrightarrow> writer_kept c s s' \<and> as_pool s' = as_pool s \<and> as_cache s' = as_cache s"
  by (auto simp: db_write_def writer_kept_def split: if_splits prod.splits option.splits)

lemma body_read [body_intros]: "body_ok (\<lambda>c s. (f c s, s))"
  by (auto simp: body_ok_def)

lemma body_write [body_intros]: "body_ok (\<lambda>c. db_write c f)"
  unfolding body_ok_def using db_write_ok by blast

lemma body_session [body_intros]:
  "body_ok (\<lambda>c s. case q c s of None \<Rightarrow> (Inr None, s) | Some r \<Rightarrow>
     if b1 r then (Inr None, s) else if b2 r then db_write c f s else db_write c (g r) s)"
  unfolding body_ok_def by (auto split: option.splits if_splits dest: db_write_ok)

lemma store_rel_simps [store_rels]:
  "store_rel s (snd (db_read q s))" "store_rel s (snd (create_user e h a t s))"
  "store_rel s (snd (user_count s))" "store_rel s (snd (get_user_by_email e s))" "store_rel s (snd (get_user_by_id i s))"
  "store_rel s (snd (get_session sid t1 t2 s))" "store_rel s (snd (revoke_session sid t s))"
  "store_rel s (snd (revoke_api_token tid u t s))" "store_rel s (snd (list_api_tokens u' s))"
  by (auto simp: db_read_def create_user_def user_count_def get_user_by_email_def get_user_by_id_def
      get_session_def revoke_session_def revoke_api_token_def list_api_tokens_def
      intro!: with_conn_rel body_intros)

lemma snd_keep: "snd (case x of (a, b) \<Rightarrow> (f a b, b)) = snd x"
  by (simp split: prod.split)

lemma store_rel_session [store_rels]: "store_rel s (snd (create_session i ci cs t u ttl s))"
  unfolding create_session_def Let_def snd_keep by (rule with_conn_rel [OF body_write])

lemma store_rel_token [store_rels]: "store_rel s (snd (create_api_token D i sec t u sc l e s))"
  unfolding create_api_token_def make_prefixed_token_def prod.case snd_keep
  by (rule with_conn_rel [OF body_write])

lemma store_rel_credentials [store_rels]: "store_rel s (snd (verify_credentials D e p s))"
  using store_rel_simps(4) [of s e]
  by (auto simp: verify_credentials_def split: prod.split sum.split option.split)

lemma accept_token_frame:
  "accept_token h now r u s = (res, s') \<Longrightarrow> writer_kept c s s' \<and> as_pool s' = as_pool s"
  by (auto simp: accept_token_def split: option.splits if_splits)

lemma token_body_ok: "body_ok (token_body h i now now1 now2)"
  unfolding body_ok_def
proof (intro allI impI)
  fix c s r s'
  assume b: "token_body h i now now1 now2 c s = (r, s')"
  obtain w s1 where w: "db_write c (\<lambda>d. (Inr (), touch_token i now2 d)) s = (w, s1)" by (rule prod.exhaust)
  have "s' = s \<or> s' = s1 \<or> (\<exists>t u. accept_token h now t u s1 = (r, s'))"
    using b by (auto simp: token_body_def w split: option.splits if_splits sum.splits)
  then show "writer_kept c s s' \<and> as_pool s' = as_pool s"
    using db_write_ok [OF w] accept_token_frame writer_kept_trans by (metis writer_kept_refl)
qed

lemma store_rel_lookup [store_rels]: "store_rel s (snd (lookup_token D t0 t1 t2 tok s))"
  unfolding lookup_token_def by (rule with_conn_rel [OF token_body_ok])

lemma store_rel_cache [simp]: "store_rel (s\<lparr>as_cache := k\<rparr>) s' = store_rel s s'"
  by (simp add: store_rel_def)

lemma store_rel_refl [simp]: "store_rel s s"
  by (simp add: store_rel_def)

lemma store_rel_verify [store_rels]: "store_rel s (snd (verify_api_token D t0 t1 t2 tok s))"
proof -
  have "store_rel s (snd (lookup_token D t0 t1 t2 tok (s\<lparr>as_cache := k\<rparr>)))" for k
    using store_rel_lookup [of "s\<lparr>as_cache := k\<rparr>"] by simp
  then show ?thesis using store_rel_lookup by (auto simp: verify_api_token_def Let_def split: option.split)
qed

lemma auth_step_rel: "store_rel s (auth_step D op s)"
  by (cases op) (simp_all add: store_rels)

section \<open>Nothing is ever committed\<close>

lemma auth_run_committed: "as_committed (auth_run D ops s) = as_committed s"
proof (induction ops arbitrary: s)
  case (Cons op ops)
  have "as_committed (auth_step D op s) = as_committed s"
    using auth_step_rel [of s D op] by (simp add: store_rel_def writer_kept_def)
  with Cons show ?case by (simp add: auth_run_def)
qed (simp add: auth_run_def)

lemma auth_run_pool: "set (as_pool (auth_run D ops s)) = set (as_pool s) \<and> length (as_pool (auth_run D ops s)) = length (as_pool s)"
proof (induction ops arbitrary: s)
  case (Cons op ops)
  have "as_pool (auth_step D op s) = as_pool s \<or> as_pool (auth_step D op s) = rotate1 (as_pool s)"
    using auth_step_rel [of s D op] by (simp add: store_rel_def)
  then have "set (as_pool (auth_step D op s)) = set (as_pool s) \<and>
      length (as_pool (auth_step D op s)) = length (as_pool s)" by (elim disjE) simp_all
  with Cons.IH [of "auth_step D op s"] show ?case by (simp add: auth_run_def)
qed (simp add: auth_run_def)

lemma auth_run_writer:
  "as_writer s = Some (w, d) \<Longrightarrow> \<exists>d'. as_writer (auth_run D ops s) = Some (w, d')"
proof (induction ops arbitrary: s d)
  case (Cons op ops)
  have "\<exists>d'. as_writer (auth_step D op s) = Some (w, d')"
    using auth_step_rel [of s D op] Cons.prems by (auto simp: store_rel_def writer_kept_def)
  then obtain d' where "as_writer (auth_step D op s) = Some (w, d')" ..
  from Cons.IH [OF this] show ?case by (simp add: auth_run_def)
qed (simp add: auth_run_def)

text \<open>
  C20. No sequence of store methods ever changes the database on disk: the store never commits, so
  a restarted process finds what it found before. The first connection that writes keeps the
  write lock for the life of the process.
\<close>

theorem auth_store_never_commits:
  "as_committed (auth_run D ops (open_store d)) = d \<and>
   set (as_pool (auth_run D ops (open_store d))) = {0, 1, 2, 3} \<and>
   (case as_writer (auth_run D ops (open_store d)) of
      None \<Rightarrow> True
    | Some (w, _) \<Rightarrow> \<exists>d'. as_writer (auth_run D later (auth_run D ops (open_store d))) = Some (w, d'))"
  using auth_run_committed [of D ops "open_store d"] auth_run_pool [of D ops "open_store d"]
    auth_run_writer [of "auth_run D ops (open_store d)" _ _ D later]
  by (auto simp: open_store_def split: option.split)

section \<open>Token verification\<close>

text \<open>The row and the user a positive answer of the database rests on.\<close>

definition token_backed :: "digests \<Rightarrow> real \<Rightarrow> string \<Rightarrow> auth_db \<Rightarrow> token_info \<Rightarrow> bool" where
  "token_backed D now1 token d info =
     (\<exists>r u. r \<in> set (db_tokens d) \<and> tk_token_hash r = dg_sha256_hex D token \<and> \<not> truthy_time (tk_revoked_at r) \<and>
        (case tk_expires_at r of None \<Rightarrow> True | Some e \<Rightarrow> now1 < e) \<and>
        u \<in> set (db_users d) \<and> us_id u = tk_user_id r \<and> us_is_active u \<and> info = token_info_of r u)"

lemma find_user_Some: "find_user i d = Some u \<Longrightarrow> u \<in> set (db_users d) \<and> us_id u = i"
  by (auto simp: find_user_def find_Some_iff in_set_conv_nth)

lemma find_in: "List.find P xs = Some x \<Longrightarrow> x \<in> set xs \<and> P x"
  by (auto simp: find_Some_iff in_set_conv_nth)

lemma touch_view:
  "db_write c (\<lambda>d. (Inr (), touch_token i t d)) s = (Inr x, s1) \<Longrightarrow> find_user j (db_view s1 c) = find_user j (db_view s c)"
  by (auto simp: db_write_def db_view_def find_user_def touch_token_def split: if_splits option.splits)

lemma token_body_accepts:
  assumes "token_body h i now now1 now2 c s = (Inr (Some info), s')"
  obtains r u where "r \<in> set (db_tokens (db_view s c))" and "tk_token_hash r = h" and "token_usable h now1 r"
    and "find_user (tk_user_id r) (db_view s c) = Some u" and "us_is_active u" and "info = token_info_of r u"
    and "dict_get (as_cache s') h = Some (now + cache_ttl, info)"
proof -
  obtain w s1 where w: "db_write c (\<lambda>d. (Inr (), touch_token i now2 d)) s = (w, s1)" by (rule prod.exhaust)
  obtain r x where r: "List.find (\<lambda>r. tk_id r = i) (db_tokens (db_view s c)) = Some r" "token_usable h now1 r"
    "w = Inr x" "accept_token h now r (find_user (tk_user_id r) (db_view s1 c)) s1 = (Inr (Some info), s')"
    using assms by (auto simp: token_body_def w split: option.splits if_splits sum.splits)
  have v: "find_user j (db_view s1 c) = find_user j (db_view s c)" for j using w r(3) touch_view by simp
  obtain u where u: "find_user (tk_user_id r) (db_view s c) = Some u" "us_is_active u" "info = token_info_of r u"
    "s' = s1\<lparr>as_cache := dict_set h (now + cache_ttl, info) (as_cache s1)\<rparr>"
    using r(4) by (auto simp: accept_token_def v split: option.splits if_splits)
  then show thesis using find_in [OF r(1)] r(2) by (intro that [of r u]) (auto simp: token_usable_def get_set)
qed

lemma lookup_token_ok:
  assumes "lookup_token D now now1 now2 token s = (Inr (Some info), s')"
  shows "(\<exists>c \<in> set (as_pool s). token_backed D now1 token (db_view s c) info) \<and>
    dict_get (as_cache s') (dg_sha256_hex D token) = Some (now + cache_ttl, info)"
proof -
  obtain c cs where p: "as_pool s = c # cs"
    using assms by (cases "as_pool s") (auto simp: lookup_token_def with_conn_def)
  define i where "i = py_removeprefix (hd (py_split1 CHR ''.'' token)) ''synqc_at_''"
  obtain s1 where b: "token_body (dg_sha256_hex D token) i now now1 now2 c s = (Inr (Some info), s1)"
    and s': "s' = s1\<lparr>as_pool := cs @ [c]\<rparr>"
    using assms by (auto simp: lookup_token_def with_conn_def p i_def split: prod.splits)
  from b obtain r u where t: "r \<in> set (db_tokens (db_view s c))" "tk_token_hash r = dg_sha256_hex D token"
    "token_usable (dg_sha256_hex D token) now1 r" "find_user (tk_user_id r) (db_view s c) = Some u" "us_is_active u"
    "info = token_info_of r u" "dict_get (as_cache s1) (dg_sha256_hex D token) = Some (now + cache_ttl, info)"
    by (rule token_body_accepts)
  have "case tk_expires_at r of None \<Rightarrow> True | Some e \<Rightarrow> now1 < e"
    using t(3) by (auto simp: token_usable_def split: option.splits)
  then have "token_backed D now1 token (db_view s c) info"
    unfolding token_backed_def using t(1,2,5,6) t(3) [unfolded token_usable_def] find_user_Some [OF t(4)] by blast
  then show ?thesis using t(7) by (simp add: p s')
qed

text \<open>
  C19. A token is accepted only on the strength of an answer cached less than its lifetime ago, or
  of a stored row with the hash of exactly this token that is neither revoked nor expired and
  belongs to an active user; the answer carries that user's rights and that row's scopes.
\<close>

theorem accepted_tokens_are_backed:
  assumes "verify_api_token D now now1 now2 token s = (Inr (Some info), s')"
  shows "py_startswith token ''synqc_at_'' \<and>
    ((\<exists>expires. dict_get (as_cache s) (dg_sha256_hex D token) = Some (expires, info) \<and> now < expires) \<or>
     (\<exists>c \<in> set (as_pool s). token_backed D now1 token (db_view s c) info))"
proof -
  have v: "db_view (s\<lparr>as_cache := k\<rparr>) c = db_view s c" for k c by (simp add: db_view_def split: option.split)
  have b: "\<exists>c \<in> set (as_pool s). token_backed D now1 token (db_view s c) info"
    if "lookup_token D now now1 now2 token (s\<lparr>as_cache := k\<rparr>) = (Inr (Some info), s')" for k
    using lookup_token_ok [OF that] by (simp add: v)
  have b0: "\<exists>c \<in> set (as_pool s). token_backed D now1 token (db_view s c) info"
    if "lookup_token D now now1 now2 token s = (Inr (Some info), s')"
    using lookup_token_ok [OF that] by simp
  have p: "py_startswith token ''synqc_at_''" using assms by (auto simp: verify_api_token_def split: if_splits)
  show ?thesis
  proof (cases "dict_get (as_cache s) (dg_sha256_hex D token)")
    case None
    then show ?thesis using assms p b0 by (simp add: verify_api_token_def)
  next
    case (Some e)
    obtain exp info' where e: "e = (exp, info')" by (rule prod.exhaust)
    show ?thesis
    proof (cases "now < exp")
      case True
      then show ?thesis using assms p Some e by (simp add: verify_api_token_def)
    next
      case False
      then show ?thesis using assms p Some e b by (simp add: verify_api_token_def)
    qed
  qed
qed

text \<open>
Revocation takes effect late: once a token has been verified, it is accepted again without
  asking the database until its cache entry expires, 30 seconds later, even when it has been
  revoked in between.
\<close>

theorem revoked_token_still_accepted:
  assumes "verify_api_token D now t1 t2 token s = (Inr (Some info), s1)"
    and "dict_get (as_cache s) (dg_sha256_hex D token) = None" and "now' < now + 30"
  shows "fst (verify_api_token D now' t3 t4 token (snd (revoke_api_token token_id user_id t s1))) = Inr (Some info)"
proof -
  have l: "lookup_token D now t1 t2 token s = (Inr (Some info), s1)" and p: "py_startswith token ''synqc_at_''"
    using assms(1,2) by (auto simp: verify_api_token_def split: if_splits)
  define s2 where "s2 = snd (revoke_api_token token_id user_id t s1)"
  have "as_cache s2 = as_cache s1"
    by (auto simp: s2_def revoke_api_token_def with_conn_def split: list.split prod.split dest: db_write_ok)
  then have "dict_get (as_cache s2) (dg_sha256_hex D token) = Some (now + cache_ttl, info)"
    using lookup_token_ok [OF l] by simp
  then show ?thesis using assms(3) p by (simp add: verify_api_token_def s2_def [symmetric] cache_ttl_def)
qed

section \<open>Witnesses\<close>

definition demo_user :: user_row where
  "demo_user = \<lparr>us_id = 1, us_email = ''a@b.c'', us_password_hash = [], us_is_admin = False, us_is_active = True,
     us_created_at = 0\<rparr>"

definition demo_token :: token_row where
  "demo_token = \<lparr>tk_id = ''u1'', tk_user_id = 1, tk_label = None, tk_prefix = ''sec'',
     tk_token_hash = ''synqc_at_u1.sec'', tk_scopes = Some [''runs:read''], tk_created_at = 0, tk_expires_at = None,
     tk_last_used_at = None, tk_revoked_at = None\<rparr>"

definition demo_auth_db :: auth_db where
  "demo_auth_db = \<lparr>db_users = [demo_user], db_next_id = 2, db_sessions = [], db_tokens = [demo_token]\<rparr>"

lemma demo_verify:
  "\<exists>s1. verify_api_token demo_digests 0 0 0 ''synqc_at_u1.sec'' (open_store demo_auth_db) =
     (Inr (Some (token_info_of demo_token demo_user)), s1)"
proof -
  have i: "hd (py_split1 CHR ''.'' ''synqc_at_u1.sec'') = ''synqc_at_u1''"
    "py_removeprefix ''synqc_at_u1'' ''synqc_at_'' = ''u1''" by code_simp+
  have p: "py_startswith ''synqc_at_u1.sec'' ''synqc_at_''" by code_simp
  show ?thesis
    unfolding verify_api_token_def lookup_token_def i
    by (simp add: p with_conn_def open_store_def token_body_def db_view_def
        demo_auth_db_def demo_token_def token_usable_def truthy_time_def demo_digests_def db_write_def
        touch_token_def accept_token_def find_user_def demo_user_def split: option.splits)
qed

theorem accepted_tokens_are_backed_witness:
  "\<exists>c \<in> {1, 2, 3, 0}. token_backed demo_digests 0 ''synqc_at_u1.sec'' (db_view (open_store demo_auth_db) c)
     (token_info_of demo_token demo_user)"
proof -
  obtain s1 where v: "verify_api_token demo_digests 0 0 0 ''synqc_at_u1.sec'' (open_store demo_auth_db) =
      (Inr (Some (token_info_of demo_token demo_user)), s1)" using demo_verify by blast
  from accepted_tokens_are_backed [OF v] show ?thesis by (simp add: open_store_def)
qed

theorem revoked_token_still_accepted_witness:
  "\<exists>s1. fst (verify_api_token demo_digests 29 29 29 ''synqc_at_u1.sec''
      (snd (revoke_api_token ''u1'' (Some 1) 1 s1))) = Inr (Some (token_info_of demo_token demo_user)) \<and>
    verify_api_token demo_digests 0 0 0 ''synqc_at_u1.sec'' (open_store demo_auth_db) =
      (Inr (Some (token_info_of demo_token demo_user)), s1)"
proof -
  obtain s1 where v: "verify_api_token demo_digests 0 0 0 ''synqc_at_u1.sec'' (open_store demo_auth_db) =
      (Inr (Some (token_info_of demo_token demo_user)), s1)" using demo_verify by blast
  have "dict_get (as_cache (open_store demo_auth_db)) (dg_sha256_hex demo_digests ''synqc_at_u1.sec'') = None"
    by (simp add: open_store_def)
  from revoked_token_still_accepted [OF v this, of 29] v show ?thesis by simp
qed

end
