(* ===== verification/Auth_Service.thy ===== *)
theory Auth_Service
  imports Auth_Store Settings
begin

text \<open>
  Who a request is and what it may do: the dependencies of \<open>auth/deps.py\<close>, the request models of
  \<open>auth/schemas.py\<close> and the routes of \<open>auth/routes.py\<close>. An \<open>HTTPException\<close> carries the \<open>code\<close> of
  its detail dictionary; ids, secrets, the salt and the clock are arguments.
\<close>

section \<open>Requests and principals\<close>

record auth_request =
  aq_method :: string
  aq_cookies :: "(string, string) dict"
  aq_authorization :: "string option"
  aq_x_api_key :: "string option"
  aq_csrf_header :: "string option"

datatype principal_kind = Anonymous | Api_key_admin | User_session | Api_token

record principal =
  pr_kind :: principal_kind
  pr_user_id :: "int option"
  pr_email :: "string option"
  pr_is_admin :: bool
  pr_scopes :: "string set"

definition parse_bearer :: "string option \<Rightarrow> string option" where
  "parse_bearer authorization =
     (if \<not> truthy_str authorization then None
      else (case py_split1 CHR '' '' (or_str authorization []) of
              [scheme, value] \<Rightarrow>
                if py_lower scheme \<noteq> ''bearer'' then None
                else if py_strip value = [] then None else Some (py_strip value)
            | _ \<Rightarrow> None))"

definition auth_required :: "settings \<Rightarrow> bool" where
  "auth_required S = (truthy_str (st_api_key S) \<or> st_auth_required S)"

definition api_key_admin :: principal where
  "api_key_admin = \<lparr>pr_kind = Api_key_admin, pr_user_id = None, pr_email = None, pr_is_admin = True, pr_scopes = {''*''}\<rparr>"

definition session_principal :: "user_row \<Rightarrow> principal" where
  "session_principal u =
     \<lparr>pr_kind = User_session, pr_user_id = Some (us_id u), pr_email = Some (us_email u),
      pr_is_admin = us_is_admin u, pr_scopes = {''*''}\<rparr>"

definition token_principal :: "token_info \<Rightarrow> principal" where
  "token_principal i =
     \<lparr>pr_kind = Api_token, pr_user_id = Some (ti_user_id i), pr_email = Some (ti_email i),
      pr_is_admin = ti_is_admin i,
      pr_scopes = set (ti_scopes i) \<union> (if ti_is_admin i then {''*''} else {})\<rparr>"

definition anonymous :: principal where
  "anonymous = \<lparr>pr_kind = Anonymous, pr_user_id = None, pr_email = None, pr_is_admin = False, pr_scopes = {}\<rparr>"

text \<open>The clock readings of one request: two for the session, three for the token.\<close>

record clock =
  ck_session1 :: real
  ck_session2 :: real
  ck_token0 :: real
  ck_token1 :: real
  ck_token2 :: real

text \<open>Step 2: the user of a live session, if there is one. The flag \<open>is_active\<close> is not consulted.\<close>

definition session_user :: "settings \<Rightarrow> clock \<Rightarrow> auth_request \<Rightarrow> auth_store \<Rightarrow> user_row option py \<times> auth_store" where
  "session_user S k q s =
     (let session_id = dict_get (aq_cookies q) (st_session_cookie_name S) in
      if \<not> truthy_str session_id then (Inr None, s)
      else (case get_session (or_str session_id []) (ck_session1 k) (ck_session2 k) s of
              (Inl e, s1) \<Rightarrow> (Inl e, s1)
            | (Inr None, s1) \<Rightarrow> (Inr None, s1)
            | (Inr (Some r), s1) \<Rightarrow> get_user_by_id (se_user_id r) s1))"

definition bearer_or_anonymous :: "digests \<Rightarrow> settings \<Rightarrow> clock \<Rightarrow> string option \<Rightarrow> auth_store \<Rightarrow> principal py \<times> auth_store" where
  "bearer_or_anonymous D S k bearer s =
     (let fallback = (\<lambda>s. (if \<not> auth_required S then Inr anonymous else Inl (HTTPExn 401 ''unauthorized''), s)) in
      case bearer of
        None \<Rightarrow> fallback s
      | Some token \<Rightarrow>
          (case verify_api_token D (ck_token0 k) (ck_token1 k) (ck_token2 k) token s of
             (Inl e, s1) \<Rightarrow> (Inl e, s1)
           | (Inr (Some i), s1) \<Rightarrow> (Inr (token_principal i), s1)
           | (Inr None, s1) \<Rightarrow> fallback s1))"

definition get_principal :: "digests \<Rightarrow> settings \<Rightarrow> clock \<Rightarrow> auth_request \<Rightarrow> auth_store \<Rightarrow> principal py \<times> auth_store" where
  "get_principal D S k q s =
     (let bearer = parse_bearer (aq_authorization q) in
      if truthy_str (st_api_key S) \<and> (aq_x_api_key q = st_api_key S \<or> bearer = st_api_key S)
      then (Inr api_key_admin, s)
      else (case session_user S k q s of
              (Inl e, s1) \<Rightarrow> (Inl e, s1)
            | (Inr (Some u), s1) \<Rightarrow> (Inr (session_principal u), s1)
            | (Inr None, s1) \<Rightarrow> bearer_or_anonymous D S k bearer s1))"

definition require_scopes :: "string list \<Rightarrow> settings \<Rightarrow> principal \<Rightarrow> principal py" where
  "require_scopes required S p =
     (if \<not> auth_required S then Inr p
      else if pr_kind p = Anonymous then Inl (HTTPExn 401 ''unauthorized'')
      else if ''*'' \<in> pr_scopes p then Inr p
      else if filter (\<lambda>x. x \<notin> pr_scopes p) required \<noteq> [] then Inl (HTTPExn 403 ''missing_scope'')
      else Inr p)"

definition require_csrf :: "settings \<Rightarrow> auth_request \<Rightarrow> unit py" where
  "require_csrf S q =
     (if py_upper (aq_method q) \<in> set [''GET'', ''HEAD'', ''OPTIONS''] then Inr ()
      else if \<not> truthy_str (dict_get (aq_cookies q) (st_session_cookie_name S)) then Inr ()
      else (let csrf_cookie = dict_get (aq_cookies q) (st_csrf_cookie_name S); csrf_header = aq_csrf_header q in
            if \<not> truthy_str csrf_cookie \<or> \<not> truthy_str csrf_header \<or> csrf_cookie \<noteq> csrf_header
            then Inl (HTTPExn 403 ''csrf_failed'') else Inr ()))"

section \<open>Request models\<close>

record register_request =
  rg_email :: string
  rg_password :: string

definition register_valid :: "register_request \<Rightarrow> bool" where
  "register_valid r =
     (3 \<le> length (rg_email r) \<and> length (rg_email r) \<le> 320 \<and> 12 \<le> length (rg_password r) \<and> length (rg_password r) \<le> 256 \<and>
      CHR ''@'' \<in> set (normalize_email (rg_email r)) \<and>
      CHR ''.'' \<in> set (last (py_split CHR ''@'' (normalize_email (rg_email r)))))"

record login_request =
  lg_email :: string
  lg_password :: string

definition login_valid :: "login_request \<Rightarrow> bool" where
  "login_valid r =
     (3 \<le> length (lg_email r) \<and> length (lg_email r) \<le> 320 \<and> 1 \<le> length (lg_password r) \<and> length (lg_password r) \<le> 256)"

record token_request =
  tq_label :: "string option"
  tq_scopes :: "string list"
  tq_expires_in_seconds :: "int option"

definition token_request_valid :: "token_request \<Rightarrow> bool" where
  "token_request_valid r =
     ((case tq_label r of None \<Rightarrow> True | Some l \<Rightarrow> length l \<le> 80) \<and>
      (case tq_expires_in_seconds r of None \<Rightarrow> True | Some n \<Rightarrow> 60 \<le> n))"

definition clean_scopes :: "string list \<Rightarrow> string list" where
  "clean_scopes v =
     (if v = [] then [''*'']
      else let out = map py_strip (filter (\<lambda>x. x \<noteq> [] \<and> py_strip x \<noteq> []) v) in if out = [] then [''*''] else out)"

section \<open>Routes\<close>

record user_out =
  uo_id :: int
  uo_email :: string
  uo_is_admin :: bool
  uo_created_at :: real

definition mk_user_out :: "user_row \<Rightarrow> user_out" where
  "mk_user_out u = \<lparr>uo_id = us_id u, uo_email = us_email u, uo_is_admin = us_is_admin u, uo_created_at = us_created_at u\<rparr>"

definition register_user :: "digests \<Rightarrow> settings \<Rightarrow> int list \<Rightarrow> real \<Rightarrow> register_request \<Rightarrow> auth_store \<Rightarrow> user_out py \<times> auth_store" where
  "register_user D S salt now req s =
     (if \<not> register_valid req then (Inl ExnValidation, s)
      else case user_count s of
        (Inl e, s1) \<Rightarrow> (Inl e, s1)
      | (Inr n, s1) \<Rightarrow>
          if n > 0 then (Inl (HTTPExn 403 ''registration_disabled''), s1)
          else (case hash_password D salt (rg_password req) (st_password_pbkdf2_iterations S) of
                  Inl e \<Rightarrow> (Inl e, s1)
                | Inr h \<Rightarrow>
                    (case create_user (normalize_email (rg_email req)) h True now s1 of
                       (r, s2) \<Rightarrow> (py_bind r (\<lambda>u. Inr (mk_user_out u)), s2))))"

record me_response =
  me_kind :: principal_kind
  me_user :: "user_out option"
  me_scopes :: "string set"

text \<open>\<open>sorted(scopes)\<close> is kept as the set it lists.\<close>

definition me :: "principal \<Rightarrow> auth_store \<Rightarrow> me_response py \<times> auth_store" where
  "me p s =
     (if pr_kind p = Anonymous then (Inr \<lparr>me_kind = Anonymous, me_user = None, me_scopes = {}\<rparr>, s)
      else case pr_user_id p of
        None \<Rightarrow> (Inr \<lparr>me_kind = pr_kind p, me_user = None, me_scopes = pr_scopes p\<rparr>, s)
      | Some i \<Rightarrow>
          (case get_user_by_id i s of
             (Inl e, s1) \<Rightarrow> (Inl e, s1)
           | (Inr None, s1) \<Rightarrow> (Inl (HTTPExn 401 ''unauthorized''), s1)
           | (Inr (Some u), s1) \<Rightarrow>
               (Inr \<lparr>me_kind = pr_kind p, me_user = Some (mk_user_out u), me_scopes = pr_scopes p\<rparr>, s1)))"

record cookie =
  co_key :: string
  co_value :: string
  co_httponly :: bool
  co_max_age :: int
  co_secure :: bool
  co_samesite :: string

definition cookie_samesite :: "settings \<Rightarrow> string" where
  "cookie_samesite S =
     (let x = py_lower (st_cookie_samesite S) in if x \<in> set [''lax'', ''strict'', ''none''] then x else ''lax'')"

definition set_cookie :: "settings \<Rightarrow> string \<Rightarrow> string \<Rightarrow> bool \<Rightarrow> cookie" where
  "set_cookie S key v httponly =
     \<lparr>co_key = key, co_value = v, co_httponly = httponly, co_max_age = st_session_ttl_seconds S,
      co_secure = st_cookie_secure S, co_samesite = cookie_samesite S\<rparr>"

definition session_login :: "digests \<Rightarrow> settings \<Rightarrow> string \<Rightarrow> string \<Rightarrow> string \<Rightarrow> real \<Rightarrow> login_request \<Rightarrow> auth_store
    \<Rightarrow> (user_out \<times> cookie list) py \<times> auth_store" where
  "session_login D S uid csrf_uid csrf_secret now req s =
     (if \<not> login_valid req then (Inl ExnValidation, s)
      else case verify_credentials D (normalize_email (lg_email req)) (lg_password req) s of
        (Inl e, s1) \<Rightarrow> (Inl e, s1)
      | (Inr None, s1) \<Rightarrow> (Inl (HTTPExn 401 ''bad_credentials''), s1)
      | (Inr (Some u), s1) \<Rightarrow>
          (case create_session uid csrf_uid csrf_secret now (us_id u) (st_session_ttl_seconds S) s1 of
             (r, s2) \<Rightarrow>
               (py_bind r (\<lambda>(sid, csrf_token, _).
                  Inr (mk_user_out u,
                       [set_cookie S (st_session_cookie_name S) sid True,
                        set_cookie S (st_csrf_cookie_name S) csrf_token False])), s2)))"

text \<open>Logout revokes the session of the cookie and deletes the two cookies it names.\<close>

definition session_logout :: "settings \<Rightarrow> real \<Rightarrow> auth_request \<Rightarrow> auth_store \<Rightarrow> string list py \<times> auth_store" where
  "session_logout S now q s =
     (let sid = dict_get (aq_cookies q) (st_session_cookie_name S);
          deleted = [st_session_cookie_name S, st_csrf_cookie_name S] in
      if truthy_str sid then
        (case revoke_session (or_str sid []) now s of (r, s1) \<Rightarrow> (py_bind r (\<lambda>_. Inr deleted), s1))
      else (Inr deleted, s))"

text \<open>
  The dependencies of a token route: CSRF (where listed), then the scopes of the principal. They are
  resolved before the fields of the body are validated (\<open>valid\<close>); the handler then asks for the user.
\<close>

definition token_route :: "digests \<Rightarrow> settings \<Rightarrow> clock \<Rightarrow> bool \<Rightarrow> string \<Rightarrow> auth_request \<Rightarrow> bool
    \<Rightarrow> (int \<Rightarrow> auth_store \<Rightarrow> 'a py \<times> auth_store) \<Rightarrow> auth_store \<Rightarrow> 'a py \<times> auth_store" where
  "token_route D S k csrf scope q valid body s =
     (case (if csrf then require_csrf S q else Inr ()) of
        Inl e \<Rightarrow> (Inl e, s)
      | Inr _ \<Rightarrow>
          (case get_principal D S k q s of
             (Inl e, s1) \<Rightarrow> (Inl e, s1)
           | (Inr p, s1) \<Rightarrow>
               (case require_scopes [scope] S p of
                  Inl e \<Rightarrow> (Inl e, s1)
                | Inr p' \<Rightarrow>
                    if \<not> valid then (Inl ExnValidation, s1)
                    else (case pr_user_id p' of
                       None \<Rightarrow> (Inl (HTTPExn 401 ''unauthorized''), s1)
                     | Some user_id \<Rightarrow> body user_id s1))))"

definition create_token :: "digests \<Rightarrow> settings \<Rightarrow> clock \<Rightarrow> string \<Rightarrow> string \<Rightarrow> real \<Rightarrow> real \<Rightarrow> auth_request \<Rightarrow> token_request
    \<Rightarrow> auth_store \<Rightarrow> (string \<times> token_row) py \<times> auth_store" where
  "create_token D S k uid secret now1 now2 q req s =
     token_route D S k True ''tokens:write'' q (token_request_valid req) (\<lambda>user_id.
        create_api_token D uid secret now2 user_id (clean_scopes (tq_scopes req)) (tq_label req)
          (map_option (\<lambda>n. now1 + of_int n) (tq_expires_in_seconds req))) s"

definition list_tokens :: "digests \<Rightarrow> settings \<Rightarrow> clock \<Rightarrow> auth_request \<Rightarrow> auth_store \<Rightarrow> token_row list py \<times> auth_store" where
  "list_tokens D S k q s = token_route D S k False ''tokens:read'' q True list_api_tokens s"

definition revoke_token :: "digests \<Rightarrow> settings \<Rightarrow> clock \<Rightarrow> string \<Rightarrow> real \<Rightarrow> auth_request \<Rightarrow> auth_store \<Rightarrow> bool py \<times> auth_store" where
  "revoke_token D S k token_id now q s =
     token_route D S k True ''tokens:write'' q True (\<lambda>user_id. revoke_api_token token_id (Some user_id) now) s"

section \<open>Properties\<close>

lemma require_scopes_iff:
  "require_scopes required S p = Inr p' \<longleftrightarrow> p' = p \<and>
     (\<not> auth_required S \<or> pr_kind p \<noteq> Anonymous \<and> (''*'' \<in> pr_scopes p \<or> set required \<subseteq> pr_scopes p))"
  by (auto simp: require_scopes_def filter_empty_conv)

lemma require_csrf_iff:
  "require_csrf S q = Inr () \<longleftrightarrow>
     py_upper (aq_method q) \<in> {''GET'', ''HEAD'', ''OPTIONS''} \<or>
     \<not> truthy_str (dict_get (aq_cookies q) (st_session_cookie_name S)) \<or>
     truthy_str (aq_csrf_header q) \<and> dict_get (aq_cookies q) (st_csrf_cookie_name S) = aq_csrf_header q"
  by (auto simp: require_csrf_def Let_def)

lemma anonymous_has_no_user:
  assumes "get_principal D S k q s = (Inr p, s1)" and "pr_user_id p = Some u"
  shows "pr_kind p \<noteq> Anonymous"
  using assms
  by (auto simp: get_principal_def bearer_or_anonymous_def Let_def anonymous_def api_key_admin_def session_principal_def
      token_principal_def split: if_splits prod.splits sum.splits option.splits)

text \<open>
  C18. When a token route acts. Its body runs, and the route answers with its result, exactly when
  the request identifies a user (never the anonymous principal); the principal holds the scope of the
  route or all scopes, which is asked only when authentication is required (an API key is configured
  or \<open>auth_required\<close> is set; by default neither is); on a route with CSRF protection the request
  is safe, has no session cookie, or shows the token of its CSRF cookie in the header; and the fields
  of its body are valid.
\<close>

theorem token_routes_are_protected:
  "token_route D S k csrf scope q valid body s = (Inr x, s') \<longleftrightarrow>
    (\<exists>p user_id s1. get_principal D S k q s = (Inr p, s1) \<and> pr_user_id p = Some user_id \<and> pr_kind p \<noteq> Anonymous \<and>
      (if auth_required S then ''*'' \<in> pr_scopes p \<or> scope \<in> pr_scopes p else True) \<and>
      (if csrf then py_upper (aq_method q) \<in> {''GET'', ''HEAD'', ''OPTIONS''} \<or>
          \<not> truthy_str (dict_get (aq_cookies q) (st_session_cookie_name S)) \<or>
          truthy_str (aq_csrf_header q) \<and> dict_get (aq_cookies q) (st_csrf_cookie_name S) = aq_csrf_header q
        else True) \<and>
      valid \<and> body user_id s1 = (Inr x, s'))" (is "?L \<longleftrightarrow> ?R")
proof
  assume L: ?L
  then have c: "csrf \<longrightarrow> require_csrf S q = Inr ()"
    by (auto simp: token_route_def split: sum.splits if_splits)
  from L obtain p s1 p' u where p: "get_principal D S k q s = (Inr p, s1)"
    "require_scopes [scope] S p = Inr p'" "pr_user_id p' = Some u" "valid" "body u s1 = (Inr x, s')"
    by (auto simp: token_route_def split: sum.splits prod.splits option.splits if_splits)
  then show ?R using c anonymous_has_no_user [OF p(1)] by (auto simp: require_scopes_iff require_csrf_iff)
next
  assume ?R
  then obtain p u s1 where p: "get_principal D S k q s = (Inr p, s1)" "pr_user_id p = Some u" "pr_kind p \<noteq> Anonymous"
    "auth_required S \<Longrightarrow> ''*'' \<in> pr_scopes p \<or> scope \<in> pr_scopes p" "csrf \<Longrightarrow> require_csrf S q = Inr ()"
    "valid" "body u s1 = (Inr x, s')"
    unfolding require_csrf_iff by (auto split: if_splits)
  have "require_scopes [scope] S p = Inr p" using p(3,4) by (auto simp: require_scopes_iff)
  with p show ?L by (simp add: token_route_def)
qed

lemma with_conn_write:
  assumes "as_pool s = c # cs" and "as_writer s = None"
  shows "with_conn (\<lambda>c. db_write c f) s =
    (fst (f (as_committed s)), s\<lparr>as_writer := Some (c, snd (f (as_committed s))), as_pool := cs @ [c]\<rparr>)"
  using assms by (simp add: with_conn_def db_write_def db_view_def split: prod.split)

lemma with_conn_locked:
  assumes "as_pool s = c # cs" and "as_writer s = Some (w, d)" and "w \<noteq> c"
  shows "with_conn (\<lambda>c. db_write c f) s =
    (Inl (ExnOther ''OperationalError'' ''database is locked''), s\<lparr>as_pool := cs @ [c]\<rparr>)"
  using assms by (simp add: with_conn_def db_write_def)

lemma db_read_other:
  assumes "as_pool s = c # cs" and "as_writer s = Some (w, d)" and "w \<noteq> c"
  shows "db_read q s = (Inr (q (as_committed s)), s\<lparr>as_pool := cs @ [c]\<rparr>)"
  using assms by (simp add: db_read_def with_conn_def db_view_def)

lemma register_on_empty:
  assumes "db_users d = []" and "register_valid req" and "1 \<le> st_password_pbkdf2_iterations S"
  shows "\<exists>u d1. register_user D S salt now req (open_store d) =
    (Inr u, \<lparr>as_committed = d, as_writer = Some (2, d1), as_pool = [3, 0, 1, 2], as_cache = []\<rparr>) \<and> uo_is_admin u"
proof -
  have len: "\<not> length (rg_password req) < 8" using assms(2) by (simp add: register_valid_def)
  obtain h where h: "hash_password D salt (rg_password req) (st_password_pbkdf2_iterations S) = Inr h"
    using assms(3) len by (simp add: hash_password_def pbkdf2_hmac_def)
  have "user_count (open_store d) = (Inr 0, (open_store d)\<lparr>as_pool := [2, 3, 0, 1]\<rparr>)"
    by (simp add: user_count_def db_read_def with_conn_def open_store_def db_view_def assms(1))
  then show ?thesis
    using assms(2) h
    by (simp add: register_user_def create_user_def open_store_def with_conn_write insert_user_def assms(1)
        mk_user_out_def Let_def)
qed

text \<open>
The bootstrap does not survive the connection it ran on: on a database without users,
  registering succeeds and makes an administrator, but the login that follows, with the same
  address and password, is refused, because it reads another connection; and a second
  registration is not refused as such, it fails on the lock the first one still holds.
\<close>

theorem login_after_register_fails:
  assumes "db_users d = []" and "register_valid req" and "1 \<le> st_password_pbkdf2_iterations S"
    and "register_valid req'"
  shows "\<exists>u s1. register_user D S salt now req (open_store d) = (Inr u, s1) \<and> uo_is_admin u \<and>
    fst (session_login D S uid cid csec now' \<lparr>lg_email = rg_email req, lg_password = rg_password req\<rparr> s1)
      = Inl (HTTPExn 401 ''bad_credentials'') \<and>
    fst (register_user D S salt' now' req' s1) = Inl (ExnOther ''OperationalError'' ''database is locked'')"
proof -
  obtain u d1 where r: "register_user D S salt now req (open_store d) =
      (Inr u, \<lparr>as_committed = d, as_writer = Some (2, d1), as_pool = [3, 0, 1, 2], as_cache = []\<rparr>)" "uo_is_admin u"
    using register_on_empty [OF assms(1-3)] by blast
  let ?s = "\<lparr>as_committed = d, as_writer = Some (2, d1), as_pool = [3, 0, 1, 2], as_cache = []\<rparr>"
  have login: "fst (session_login D S uid cid csec now' \<lparr>lg_email = rg_email req, lg_password = rg_password req\<rparr> ?s)
      = Inl (HTTPExn 401 ''bad_credentials'')"
  proof -
    have "login_valid \<lparr>lg_email = rg_email req, lg_password = rg_password req\<rparr>"
      using assms(2) by (simp add: login_valid_def register_valid_def)
    moreover have "get_user_by_email e ?s = (Inr None, ?s\<lparr>as_pool := [0, 1, 2, 3]\<rparr>)" for e
      unfolding get_user_by_email_def by (subst db_read_other [where c = 3 and w = 2]) (simp_all add: assms(1))
    ultimately show ?thesis by (simp add: session_login_def verify_credentials_def)
  qed
  have "length (rg_password req') \<ge> 8" using assms(4) by (simp add: register_valid_def)
  then obtain h where h: "hash_password D salt' (rg_password req') (st_password_pbkdf2_iterations S) = Inr h"
    using assms(3) by (simp add: hash_password_def pbkdf2_hmac_def)
  have "user_count ?s = (Inr 0, ?s\<lparr>as_pool := [0, 1, 2, 3]\<rparr>)"
    unfolding user_count_def by (subst db_read_other [where c = 3 and w = 2]) (simp_all add: assms(1))
  moreover have "create_user e h True t (?s\<lparr>as_pool := [0, 1, 2, 3]\<rparr>) =
      (Inl (ExnOther ''OperationalError'' ''database is locked''), ?s\<lparr>as_pool := [1, 2, 3, 0]\<rparr>)" for e t
    unfolding create_user_def by (subst with_conn_locked [where c = 0 and w = 2]) simp_all
  ultimately have "fst (register_user D S salt' now' req' ?s) = Inl (ExnOther ''OperationalError'' ''database is locked'')"
    using assms(4) h by (simp add: register_user_def)
  with r login show ?thesis by blast
qed

section \<open>Witnesses\<close>

definition demo_register :: register_request where
  "demo_register = \<lparr>rg_email = ''a@b.c'', rg_password = ''correct horse''\<rparr>"

lemma demo_register_valid: "register_valid demo_register"
  by code_simp

theorem login_after_register_fails_witness:
  "\<exists>s1. fst (session_login demo_digests default_settings ''s'' ''c'' ''x'' 2
      \<lparr>lg_email = ''a@b.c'', lg_password = ''correct horse''\<rparr> s1) = Inl (HTTPExn 401 ''bad_credentials'')"
  using login_after_register_fails [OF _ demo_register_valid _ demo_register_valid,
      of "\<lparr>db_users = [], db_next_id = 1, db_sessions = [], db_tokens = []\<rparr>" default_settings demo_digests "[]" 1
        "''s''" "''c''" "''x''" 2 "[]"]
  by (auto simp: demo_register_def default_settings_def)

definition strict_settings :: settings where
  "strict_settings = default_settings\<lparr>st_auth_required := True\<rparr>"

definition demo_request :: auth_request where
  "demo_request = \<lparr>aq_method = ''GET'', aq_cookies = [], aq_authorization = Some ''Bearer synqc_at_u1.sec'',
     aq_x_api_key = None, aq_csrf_header = None\<rparr>"

definition demo_clock :: clock where
  "demo_clock = \<lparr>ck_session1 = 0, ck_session2 = 0, ck_token0 = 0, ck_token1 = 0, ck_token2 = 0\<rparr>"

lemma demo_principal:
  "\<exists>s1. get_principal demo_digests strict_settings demo_clock demo_request (open_store demo_auth_db) =
     (Inr (token_principal (token_info_of demo_token demo_user)), s1)"
proof -
  have b: "parse_bearer (aq_authorization demo_request) = Some ''synqc_at_u1.sec''" by code_simp
  have "session_user strict_settings demo_clock demo_request s = (Inr None, s)" for s
    by (simp add: session_user_def demo_request_def truthy_str_def)
  moreover have "\<not> truthy_str (st_api_key strict_settings)"
    by (simp add: strict_settings_def default_settings_def truthy_str_def)
  moreover obtain s1 where "verify_api_token demo_digests 0 0 0 ''synqc_at_u1.sec'' (open_store demo_auth_db) =
      (Inr (Some (token_info_of demo_token demo_user)), s1)" using demo_verify by blast
  ultimately show ?thesis
    unfolding get_principal_def b by (simp add: bearer_or_anonymous_def demo_clock_def)
qed

theorem token_routes_are_protected_witness:
  "\<exists>p s1. get_principal demo_digests strict_settings demo_clock demo_request (open_store demo_auth_db) = (Inr p, s1) \<and>
     pr_kind p \<noteq> Anonymous \<and> (''*'' \<in> pr_scopes p \<or> ''runs:read'' \<in> pr_scopes p)"
proof -
  obtain s1 where p: "get_principal demo_digests strict_settings demo_clock demo_request (open_store demo_auth_db) =
     (Inr (token_principal (token_info_of demo_token demo_user)), s1)" using demo_principal by blast
  have req: "auth_required strict_settings" by (simp add: auth_required_def strict_settings_def)
  have m: "require_csrf strict_settings demo_request = Inr ()" by (simp add: require_csrf_def demo_request_def py_upper_def)
  have "token_route demo_digests strict_settings demo_clock True ''runs:read'' demo_request True (\<lambda>u s. (Inr u, s))
      (open_store demo_auth_db) = (Inr 1, s1)"
    by (simp add: token_route_def p m require_scopes_def req token_principal_def token_info_of_def demo_token_def
        demo_user_def scopes_or_empty_def)
  from iffD1 [OF token_routes_are_protected this] req show ?thesis by auto
qed

end
