(* ===== verification/Redis_Data.thy ===== *)
theory Redis_Data
  imports Synqc_Prelude
begin

text \<open>
  The Redis server of the agent jobs and of the run queue: strings, hashes, lists and sorted sets.
  The server is a parameter of the model: \<open>redis_data\<close> holds the commands the sources call, on an
  abstract state, and \<open>redis_laws K V\<close> states what the commands document about the contents
  \<open>V r\<close> of a state \<open>r\<close>. Keys do not expire by themselves within the laws; a pipeline is one
  transaction and is modelled by its commands in order. The texts of numbers and of JSON are those
  of \<open>text_codec\<close>, \<open>str\<close>, \<open>float\<close> and \<open>json\<close> of the standard library.
\<close>

named_theorems redis_simps \<open>the contents of the server after a command\<close>

section \<open>The server\<close>

record redis_view =
  rv_string :: "string \<Rightarrow> string option"
  rv_hash :: "string \<Rightarrow> string \<Rightarrow> string option"
  rv_list :: "string \<Rightarrow> string list"
  rv_zset :: "string \<Rightarrow> string \<Rightarrow> real option"

record 'r redis_data =
  rd_ping :: "'r \<Rightarrow> bool option"
  rd_get :: "string \<Rightarrow> 'r \<Rightarrow> string option"
  rd_setex :: "string \<Rightarrow> int \<Rightarrow> string \<Rightarrow> 'r \<Rightarrow> 'r"
  rd_expire :: "string \<Rightarrow> int \<Rightarrow> 'r \<Rightarrow> 'r"
  rd_hgetall :: "string \<Rightarrow> 'r \<Rightarrow> (string, string) dict"
  rd_hget :: "string \<Rightarrow> string \<Rightarrow> 'r \<Rightarrow> string option"
  rd_hset :: "string \<Rightarrow> (string, string) dict \<Rightarrow> 'r \<Rightarrow> 'r"
  rd_hincrby :: "string \<Rightarrow> string \<Rightarrow> int \<Rightarrow> 'r \<Rightarrow> int \<times> 'r"
  rd_llen :: "string \<Rightarrow> 'r \<Rightarrow> nat"
  rd_lindex0 :: "string \<Rightarrow> 'r \<Rightarrow> string option"
  rd_lpush :: "string \<Rightarrow> string \<Rightarrow> 'r \<Rightarrow> 'r"
  rd_rpush :: "string \<Rightarrow> string \<Rightarrow> 'r \<Rightarrow> 'r"
  rd_blpop :: "string \<Rightarrow> 'r \<Rightarrow> string option \<times> 'r"
  rd_brpop :: "string \<Rightarrow> 'r \<Rightarrow> string option \<times> 'r"
  rd_zcard :: "string \<Rightarrow> 'r \<Rightarrow> nat"
  rd_zadd :: "string \<Rightarrow> string \<Rightarrow> real \<Rightarrow> 'r \<Rightarrow> 'r"
  rd_zpopmin :: "string \<Rightarrow> 'r \<Rightarrow> (string \<times> real) option \<times> 'r"

text \<open>\<open>HINCRBY\<close> works on 64-bit signed integers; a missing field counts as zero.\<close>

definition int64 :: "int \<Rightarrow> bool" where
  "int64 i = (- (2 ^ 63) \<le> i \<and> i < 2 ^ 63)"

definition holds_int :: "redis_view \<Rightarrow> string \<Rightarrow> string \<Rightarrow> int \<Rightarrow> bool" where
  "holds_int v k f i = (case rv_hash v k f of None \<Rightarrow> i = 0 | Some t \<Rightarrow> t = py_str_int i)"

definition string_laws :: "'r redis_data \<Rightarrow> ('r \<Rightarrow> redis_view) \<Rightarrow> bool" where
  "string_laws K V =
     (\<forall>k n t r. rd_get K k r = rv_string (V r) k \<and>
        V (rd_setex K k n t r) = (V r)\<lparr>rv_string := (rv_string (V r))(k \<mapsto> t)\<rparr> \<and>
        V (rd_expire K k n r) = V r)"

definition hash_laws :: "'r redis_data \<Rightarrow> ('r \<Rightarrow> redis_view) \<Rightarrow> bool" where
  "hash_laws K V =
     ((\<forall>k f m r. map_of (rd_hgetall K k r) = rv_hash (V r) k \<and> dict_wf (rd_hgetall K k r) \<and> rd_hget K k f r = rv_hash (V r) k f \<and>
         V (rd_hset K k m r) = (V r)\<lparr>rv_hash := (rv_hash (V r))(k := rv_hash (V r) k ++ map_of (rev m))\<rparr>) \<and>
      (\<forall>k f n i r. holds_int (V r) k f i \<longrightarrow> int64 i \<longrightarrow> int64 (i + n) \<longrightarrow>
         fst (rd_hincrby K k f n r) = i + n \<and>
         V (snd (rd_hincrby K k f n r)) =
           (V r)\<lparr>rv_hash := (rv_hash (V r))(k := (rv_hash (V r) k)(f \<mapsto> py_str_int (i + n)))\<rparr>))"

definition list_laws :: "'r redis_data \<Rightarrow> ('r \<Rightarrow> redis_view) \<Rightarrow> bool" where
  "list_laws K V =
     (\<forall>k t r. rd_llen K k r = length (rv_list (V r) k) \<and>
        rd_lindex0 K k r = (case rv_list (V r) k of [] \<Rightarrow> None | x # xs \<Rightarrow> Some x) \<and>
        V (rd_lpush K k t r) = (V r)\<lparr>rv_list := (rv_list (V r))(k := t # rv_list (V r) k)\<rparr> \<and>
        V (rd_rpush K k t r) = (V r)\<lparr>rv_list := (rv_list (V r))(k := rv_list (V r) k @ [t])\<rparr> \<and>
        (rv_list (V r) k = [] \<longrightarrow> rd_blpop K k r = (None, r) \<and> rd_brpop K k r = (None, r)) \<and>
        (rv_list (V r) k \<noteq> [] \<longrightarrow>
           fst (rd_blpop K k r) = Some (hd (rv_list (V r) k)) \<and>
           V (snd (rd_blpop K k r)) = (V r)\<lparr>rv_list := (rv_list (V r))(k := tl (rv_list (V r) k))\<rparr> \<and>
           fst (rd_brpop K k r) = Some (last (rv_list (V r) k)) \<and>
           V (snd (rd_brpop K k r)) = (V r)\<lparr>rv_list := (rv_list (V r))(k := butlast (rv_list (V r) k))\<rparr>))"

definition zset_laws :: "'r redis_data \<Rightarrow> ('r \<Rightarrow> redis_view) \<Rightarrow> bool" where
  "zset_laws K V =
     (\<forall>k m x r. finite (dom (rv_zset (V r) k)) \<and> rd_zcard K k r = card (dom (rv_zset (V r) k)) \<and>
        V (rd_zadd K k m x r) = (V r)\<lparr>rv_zset := (rv_zset (V r))(k := (rv_zset (V r) k)(m \<mapsto> x))\<rparr> \<and>
        (rv_zset (V r) k = Map.empty \<longrightarrow> rd_zpopmin K k r = (None, r)) \<and>
        (rv_zset (V r) k \<noteq> Map.empty \<longrightarrow>
           (\<exists>m x. fst (rd_zpopmin K k r) = Some (m, x) \<and> rv_zset (V r) k m = Some x \<and>
              (\<forall>m' x'. rv_zset (V r) k m' = Some x' \<longrightarrow> x \<le> x') \<and>
              V (snd (rd_zpopmin K k r)) = (V r)\<lparr>rv_zset := (rv_zset (V r))(k := (rv_zset (V r) k)(m := None))\<rparr>)))"

definition redis_laws :: "'r redis_data \<Rightarrow> ('r \<Rightarrow> redis_view) \<Rightarrow> bool" where
  "redis_laws K V = (string_laws K V \<and> hash_laws K V \<and> list_laws K V \<and> zset_laws K V)"

lemma redis_string_simps [redis_simps]:
  assumes "redis_laws K V"
  shows "rd_get K k r = rv_string (V r) k"
    and "V (rd_setex K k n t r) = (V r)\<lparr>rv_string := (rv_string (V r))(k \<mapsto> t)\<rparr>"
    and "V (rd_expire K k n r) = V r"
  using assms by (simp_all add: redis_laws_def string_laws_def)

lemma redis_hash_simps [redis_simps]:
  assumes "redis_laws K V"
  shows "map_of (rd_hgetall K k r) = rv_hash (V r) k"
    and "rd_hget K k f r = rv_hash (V r) k f"
    and "V (rd_hset K k m r) = (V r)\<lparr>rv_hash := (rv_hash (V r))(k := rv_hash (V r) k ++ map_of (rev m))\<rparr>"
  using assms by (simp_all add: redis_laws_def hash_laws_def)

lemma redis_hgetall_wf: "redis_laws K V \<Longrightarrow> dict_wf (rd_hgetall K k r)"
  by (simp add: redis_laws_def hash_laws_def)

lemma redis_hgetall_empty [redis_simps]:
  assumes "redis_laws K V"
  shows "rd_hgetall K k r = [] \<longleftrightarrow> rv_hash (V r) k = Map.empty"
  using redis_hash_simps(1) [OF assms, of k r] by (metis map_of_eq_empty_iff)

lemma redis_hincrby:
  assumes "redis_laws K V" and "holds_int (V r) k f i" and "int64 i" and "int64 (i + n)"
  shows "fst (rd_hincrby K k f n r) = i + n"
    and "V (snd (rd_hincrby K k f n r)) =
      (V r)\<lparr>rv_hash := (rv_hash (V r))(k := (rv_hash (V r) k)(f \<mapsto> py_str_int (i + n)))\<rparr>"
  using assms by (simp_all add: redis_laws_def hash_laws_def)

lemma redis_list_simps [redis_simps]:
  assumes "redis_laws K V"
  shows "rd_llen K k r = length (rv_list (V r) k)"
    and "rd_lindex0 K k r = (case rv_list (V r) k of [] \<Rightarrow> None | x # xs \<Rightarrow> Some x)"
    and "V (rd_lpush K k t r) = (V r)\<lparr>rv_list := (rv_list (V r))(k := t # rv_list (V r) k)\<rparr>"
    and "V (rd_rpush K k t r) = (V r)\<lparr>rv_list := (rv_list (V r))(k := rv_list (V r) k @ [t])\<rparr>"
    and "rv_list (V r) k = [] \<Longrightarrow> rd_blpop K k r = (None, r)"
    and "rv_list (V r) k = [] \<Longrightarrow> rd_brpop K k r = (None, r)"
    and "rv_list (V r) k \<noteq> [] \<Longrightarrow> fst (rd_blpop K k r) = Some (hd (rv_list (V r) k))"
    and "rv_list (V r) k \<noteq> [] \<Longrightarrow> fst (rd_brpop K k r) = Some (last (rv_list (V r) k))"
    and "rv_list (V r) k \<noteq> [] \<Longrightarrow>
      V (snd (rd_blpop K k r)) = (V r)\<lparr>rv_list := (rv_list (V r))(k := tl (rv_list (V r) k))\<rparr>"
    and "rv_list (V r) k \<noteq> [] \<Longrightarrow>
      V (snd (rd_brpop K k r)) = (V r)\<lparr>rv_list := (rv_list (V r))(k := butlast (rv_list (V r) k))\<rparr>"
  using assms by (simp_all add: redis_laws_def list_laws_def)

lemma redis_zset_simps [redis_simps]:
  assumes "redis_laws K V"
  shows "finite (dom (rv_zset (V r) k))"
    and "rd_zcard K k r = card (dom (rv_zset (V r) k))"
    and "V (rd_zadd K k m x r) = (V r)\<lparr>rv_zset := (rv_zset (V r))(k := (rv_zset (V r) k)(m \<mapsto> x))\<rparr>"
    and "rv_zset (V r) k = Map.empty \<Longrightarrow> rd_zpopmin K k r = (None, r)"
  using assms by (simp_all add: redis_laws_def zset_laws_def)

lemma redis_zpopmin:
  assumes "redis_laws K V" and "rv_zset (V r) k \<noteq> Map.empty"
  obtains m x r' where "rd_zpopmin K k r = (Some (m, x), r')" and "rv_zset (V r) k m = Some x"
    and "\<And>m' x'. rv_zset (V r) k m' = Some x' \<Longrightarrow> x \<le> x'"
    and "V r' = (V r)\<lparr>rv_zset := (rv_zset (V r))(k := (rv_zset (V r) k)(m := None))\<rparr>"
proof -
  from assms obtain m x where "fst (rd_zpopmin K k r) = Some (m, x)" "rv_zset (V r) k m = Some x"
      "\<forall>m' x'. rv_zset (V r) k m' = Some x' \<longrightarrow> x \<le> x'"
      "V (snd (rd_zpopmin K k r)) = (V r)\<lparr>rv_zset := (rv_zset (V r))(k := (rv_zset (V r) k)(m := None))\<rparr>"
    unfolding redis_laws_def zset_laws_def by metis
  then show thesis using that [of m x "snd (rd_zpopmin K k r)"] by (metis prod.collapse)
qed

section \<open>Texts\<close>

text \<open>
  Only finitely many texts exist for a length, so not every \<open>real\<close> has one of its own: that a value
  reads back from its text is a property of the value (\<open>str\<close> of a double reads back).
\<close>

record text_codec =
  tx_str :: "real \<Rightarrow> string"
  tx_float :: "string \<Rightarrow> real option"
  tx_dumps :: "json \<Rightarrow> string"
  tx_loads :: "string \<Rightarrow> json option"

definition float_reads_back :: "text_codec \<Rightarrow> real \<Rightarrow> bool" where
  "float_reads_back X x = (tx_float X (tx_str X x) = Some x \<and> tx_str X x \<noteq> [] \<and> py_strip (tx_str X x) = tx_str X x)"

definition json_reads_back :: "text_codec \<Rightarrow> json \<Rightarrow> bool" where
  "json_reads_back X j = (tx_loads X (tx_dumps X j) = Some j \<and> tx_dumps X j \<noteq> [])"

section \<open>A server that keeps the laws\<close>

record redis_db =
  db_strings :: "(string, string) dict"
  db_hashes :: "(string, (string, string) dict) dict"
  db_lists :: "(string, string list) dict"
  db_zsets :: "(string, (string, real) dict) dict"

definition db_hash :: "redis_db \<Rightarrow> string \<Rightarrow> (string, string) dict" where
  "db_hash r k = dict_get_or [] (db_hashes r) k"

definition db_list :: "redis_db \<Rightarrow> string \<Rightarrow> string list" where
  "db_list r k = dict_get_or [] (db_lists r) k"

definition db_zset :: "redis_db \<Rightarrow> string \<Rightarrow> (string, real) dict" where
  "db_zset r k = dict_get_or [] (db_zsets r) k"

definition db_contents :: "redis_db \<Rightarrow> redis_view" where
  "db_contents r = \<lparr>rv_string = map_of (db_strings r), rv_hash = (\<lambda>k. map_of (db_hash r k)),
     rv_list = db_list r, rv_zset = (\<lambda>k. map_of (db_zset r k))\<rparr>"

definition db_set_hash :: "string \<Rightarrow> (string, string) dict \<Rightarrow> redis_db \<Rightarrow> redis_db" where
  "db_set_hash k h r = r\<lparr>db_hashes := dict_set k h (db_hashes r)\<rparr>"

definition db_set_list :: "string \<Rightarrow> string list \<Rightarrow> redis_db \<Rightarrow> redis_db" where
  "db_set_list k l r = r\<lparr>db_lists := dict_set k l (db_lists r)\<rparr>"

definition db_set_zset :: "string \<Rightarrow> (string, real) dict \<Rightarrow> redis_db \<Rightarrow> redis_db" where
  "db_set_zset k z r = r\<lparr>db_zsets := dict_set k z (db_zsets r)\<rparr>"

lemma db_contents_set:
  "db_contents (db_set_hash k h r) = (db_contents r)\<lparr>rv_hash := (rv_hash (db_contents r))(k := map_of h)\<rparr>"
  "db_contents (db_set_list k l r) = (db_contents r)\<lparr>rv_list := (rv_list (db_contents r))(k := l)\<rparr>"
  "db_contents (db_set_zset k z r) = (db_contents r)\<lparr>rv_zset := (rv_zset (db_contents r))(k := map_of z)\<rparr>"
  by (auto simp: db_contents_def db_set_hash_def db_set_list_def db_set_zset_def db_hash_def db_list_def db_zset_def
      dict_get_or_def dict_simps fun_eq_iff)

definition redis_reference :: "redis_db redis_data" where
  "redis_reference = \<lparr>
     rd_ping = (\<lambda>r. Some True),
     rd_get = (\<lambda>k r. dict_get (db_strings r) k),
     rd_setex = (\<lambda>k n t r. r\<lparr>db_strings := dict_set k t (db_strings r)\<rparr>),
     rd_expire = (\<lambda>k n r. r),
     rd_hgetall = (\<lambda>k r. AList.clearjunk (db_hash r k)),
     rd_hget = (\<lambda>k f r. dict_get (db_hash r k) f),
     rd_hset = (\<lambda>k m r. db_set_hash k (dict_update_all m (db_hash r k)) r),
     rd_hincrby = (\<lambda>k f n r.
       let i = (case dict_get (db_hash r k) f of None \<Rightarrow> 0
                | Some t \<Rightarrow> (case py_int_of_str t of None \<Rightarrow> 0 | Some i \<Rightarrow> i)) in
       (i + n, db_set_hash k (dict_set f (py_str_int (i + n)) (db_hash r k)) r)),
     rd_llen = (\<lambda>k r. length (db_list r k)),
     rd_lindex0 = (\<lambda>k r. case db_list r k of [] \<Rightarrow> None | x # xs \<Rightarrow> Some x),
     rd_lpush = (\<lambda>k t r. db_set_list k (t # db_list r k) r),
     rd_rpush = (\<lambda>k t r. db_set_list k (db_list r k @ [t]) r),
     rd_blpop = (\<lambda>k r. case db_list r k of [] \<Rightarrow> (None, r) | x # xs \<Rightarrow> (Some x, db_set_list k xs r)),
     rd_brpop = (\<lambda>k r. case db_list r k of [] \<Rightarrow> (None, r)
       | x # xs \<Rightarrow> (Some (last (x # xs)), db_set_list k (butlast (x # xs)) r)),
     rd_zcard = (\<lambda>k r. card (set (dict_keys (db_zset r k)))),
     rd_zadd = (\<lambda>k m x r. db_set_zset k (dict_set m x (db_zset r k)) r),
     rd_zpopmin = (\<lambda>k r. case py_sorted snd (filter (\<lambda>(m, x). dict_get (db_zset r k) m = Some x) (db_zset r k)) of
         [] \<Rightarrow> (None, r)
       | (m, x) # xs \<Rightarrow> (Some (m, x), db_set_zset k (dict_pop m (db_zset r k)) r))\<rparr>"

lemma update_all_map: "map_of (dict_update_all m d) = map_of d ++ map_of (rev m)"
proof (induction m arbitrary: d)
  case (Cons kv m)
  obtain k v where kv: "kv = (k, v)" by (cases kv)
  show ?case by (rule ext) (simp add: kv Cons.IH map_add_def dict_simps split: option.split)
qed simp

lemma map_of_pop: "map_of (dict_pop k d) = (map_of d)(k := None)"
  by (simp add: dict_simps fun_eq_iff)

lemma least_entry:
  assumes "map_of z \<noteq> Map.empty"
  obtains m x xs where "py_sorted snd (filter (\<lambda>(m, x). dict_get z m = Some x) z) = (m, x) # xs"
    and "map_of z m = Some (x :: real)" and "\<And>m' x'. map_of z m' = Some x' \<Longrightarrow> x \<le> x'"
proof -
  let ?L = "filter (\<lambda>(m, x). dict_get z m = Some x) z"
  have in_L: "(m, x) \<in> set ?L \<longleftrightarrow> map_of z m = Some x" for m x
    by (auto dest: map_of_SomeD)
  obtain m0 x0 where "map_of z m0 = Some x0" using assms by fastforce
  then have ne: "?L \<noteq> []" using in_L by (metis empty_iff empty_set)
  then obtain m x xs where s: "py_sorted snd ?L = (m, x) # xs"
    by (cases "py_sorted snd ?L") (auto dest: arg_cong [of _ _ length])
  have "(m, x) \<in> set ?L" using py_sorted_hd_in [OF ne, of snd] s by simp
  moreover have "x \<le> x'" if "map_of z m' = Some x'" for m' x'
  proof -
    from that have "(m', x') \<in> set ?L" by (simp only: in_L)
    from py_sorted_hd_least [OF ne this, of snd] s show ?thesis by simp
  qed
  ultimately show thesis using that [OF s] in_L by blast
qed

lemma redis_reference_zset: "zset_laws redis_reference db_contents"
proof -
  have pop: "\<exists>m x. fst (rd_zpopmin redis_reference k r) = Some (m, x) \<and> rv_zset (db_contents r) k m = Some x \<and>
      (\<forall>m' x'. rv_zset (db_contents r) k m' = Some x' \<longrightarrow> x \<le> x') \<and>
      db_contents (snd (rd_zpopmin redis_reference k r)) =
        (db_contents r)\<lparr>rv_zset := (rv_zset (db_contents r))(k := (rv_zset (db_contents r) k)(m := None))\<rparr>"
    if ne: "rv_zset (db_contents r) k \<noteq> Map.empty" for k r
  proof -
    have "map_of (db_zset r k) \<noteq> Map.empty" using ne by (simp add: db_contents_def)
    from least_entry [OF this] obtain m x xs where
      s: "py_sorted snd (filter (\<lambda>(m, x). dict_get (db_zset r k) m = Some x) (db_zset r k)) = (m, x) # xs"
      and mx: "map_of (db_zset r k) m = Some x" "\<And>m' x'. map_of (db_zset r k) m' = Some x' \<Longrightarrow> x \<le> x'"
      by metis
    have "rd_zpopmin redis_reference k r = (Some (m, x), db_set_zset k (dict_pop m (db_zset r k)) r)"
      using s by (simp add: redis_reference_def)
    then show ?thesis using mx by (simp add: db_contents_set map_of_pop) (simp add: db_contents_def)
  qed
  have none: "rd_zpopmin redis_reference k r = (None, r)" if "rv_zset (db_contents r) k = Map.empty" for k r
  proof -
    from that have "db_zset r k = []" by (simp add: db_contents_def)
    then show ?thesis by (simp add: redis_reference_def py_sorted_def)
  qed
  have fin: "finite (dom (rv_zset (db_contents r) k))" for k r
    by (simp add: db_contents_def finite_dom_map_of)
  have card: "rd_zcard redis_reference k r = card (dom (rv_zset (db_contents r) k))" for k r
    by (simp add: redis_reference_def db_contents_def dom_map_of_conv_image_fst)
  have add: "db_contents (rd_zadd redis_reference k m x r) =
      (db_contents r)\<lparr>rv_zset := (rv_zset (db_contents r))(k := (rv_zset (db_contents r) k)(m \<mapsto> x))\<rparr>" for k m x r
    by (simp add: redis_reference_def db_contents_set update_conv') (simp add: db_contents_def)
  show ?thesis unfolding zset_laws_def by (intro allI conjI impI fin card add none pop)
qed

lemma redis_reference_hash: "hash_laws redis_reference db_contents"
proof -
  have "map_of (rd_hgetall redis_reference k r) = rv_hash (db_contents r) k \<and>
      dict_wf (rd_hgetall redis_reference k r) \<and>
      rd_hget redis_reference k f r = rv_hash (db_contents r) k f \<and>
      db_contents (rd_hset redis_reference k m r) =
        (db_contents r)\<lparr>rv_hash := (rv_hash (db_contents r))(k := rv_hash (db_contents r) k ++ map_of (rev m))\<rparr>"
    for k f m r
    by (simp add: redis_reference_def db_contents_set update_all_map map_of_clearjunk dict_wf_def) (simp add: db_contents_def)
  moreover have "fst (rd_hincrby redis_reference k f n r) = i + n \<and>
      db_contents (snd (rd_hincrby redis_reference k f n r)) = (db_contents r)\<lparr>rv_hash :=
        (rv_hash (db_contents r))(k := (rv_hash (db_contents r) k)(f \<mapsto> py_str_int (i + n)))\<rparr>"
    if h: "holds_int (db_contents r) k f i" for k f n i r
  proof -
    have i: "(case dict_get (db_hash r k) f of None \<Rightarrow> 0
        | Some t \<Rightarrow> (case py_int_of_str t of None \<Rightarrow> 0 | Some i \<Rightarrow> i)) = i"
      using h by (auto simp: holds_int_def db_contents_def int_of_str_of_int split: option.splits)
    have "rd_hincrby redis_reference k f n r =
        (i + n, db_set_hash k (dict_set f (py_str_int (i + n)) (db_hash r k)) r)"
      by (simp add: redis_reference_def i)
    then show ?thesis by (simp add: db_contents_set update_conv') (simp add: db_contents_def)
  qed
  ultimately show ?thesis unfolding hash_laws_def by blast
qed

lemma redis_reference_laws: "redis_laws redis_reference db_contents"
proof -
  have "string_laws redis_reference db_contents"
    by (auto simp: string_laws_def redis_reference_def db_contents_def update_conv' db_hash_def db_zset_def db_list_def fun_eq_iff)
  moreover have "list_laws redis_reference db_contents"
  proof -
    have c: "rv_list (db_contents r) = db_list r" for r by (simp add: db_contents_def)
    show ?thesis
      unfolding list_laws_def c
      by (auto simp: redis_reference_def db_contents_set c split: list.split)
  qed
  ultimately show ?thesis
    by (simp add: redis_laws_def redis_reference_hash redis_reference_zset)
qed

end
