(* ===== verification/Agent_Jobs.thy ===== *)
theory Agent_Jobs
  imports Models Redis_Data
begin

text \<open>
  The jobs of the agent API in Redis: the records of \<open>job_store.py\<close>, one hash per job, and the
  queues of \<open>queueing.py\<close>, a list of ready jobs and a sorted set of delayed ones. Each operation is
  a function on the state of the server; the clock and the identifier that \<open>uuid4\<close> draws are
  arguments. The texts of the messages of library exceptions are not modelled: an exception carries
  the name of the field at fault.
\<close>

section \<open>Job records\<close>

datatype agent_status = Aqueued | Arunning | Asucceeded | Afailed | Acancelled

fun agent_status_value :: "agent_status \<Rightarrow> string" where
  "agent_status_value Aqueued = ''queued''"
| "agent_status_value Arunning = ''running''"
| "agent_status_value Asucceeded = ''succeeded''"
| "agent_status_value Afailed = ''failed''"
| "agent_status_value Acancelled = ''cancelled''"

definition parse_agent_status :: "string \<Rightarrow> agent_status option" where
  "parse_agent_status v =
     List.find (\<lambda>x. agent_status_value x = v) [Aqueued, Arunning, Asucceeded, Afailed, Acancelled]"

record job_error_info =
  je_code :: string
  je_message :: string
  je_details :: "(string \<times> json) list"

record agent_job =
  aj_job_id :: string
  aj_agent :: string
  aj_status :: agent_status
  aj_created_at_unix :: real
  aj_started_at_unix :: "real option"
  aj_finished_at_unix :: "real option"
  aj_attempts :: int
  aj_max_attempts :: int
  aj_run_input :: "(string \<times> json) list"
  aj_result :: "(string \<times> json) list option"
  aj_error :: "job_error_info option"
  aj_cancel_requested :: bool

definition job_key :: "string \<Rightarrow> string" where
  "job_key job_id = ''synqc:job:'' @ job_id"

definition idempotency_key :: "string \<Rightarrow> string \<Rightarrow> string" where
  "idempotency_key agent key = ''synqc:idempotency:'' @ agent @ '':'' @ key"

text \<open>The new record as the pipeline writes it.\<close>

definition job_fields :: "text_codec \<Rightarrow> string \<Rightarrow> real \<Rightarrow> int \<Rightarrow> (string \<times> json) list \<Rightarrow> (string, string) dict" where
  "job_fields X agent now max_attempts run_input =
     [(''agent'', agent), (''status'', agent_status_value Aqueued), (''created_at_unix'', tx_str X now),
      (''started_at_unix'', []), (''finished_at_unix'', []), (''attempts'', py_str_int 0),
      (''max_attempts'', py_str_int max_attempts), (''run_input_json'', tx_dumps X (JObj run_input)),
      (''result_json'', []), (''error_json'', []), (''cancel_requested'', ''0'')]"

text \<open>\<open>create_job\<close> looks its idempotency key up and then writes the record in one transaction.\<close>

definition create_record :: "'r redis_data \<Rightarrow> text_codec \<Rightarrow> string \<Rightarrow> real \<Rightarrow> string \<Rightarrow> (string \<times> json) list \<Rightarrow> string option
    \<Rightarrow> int \<Rightarrow> int \<Rightarrow> int \<Rightarrow> 'r \<Rightarrow> 'r" where
  "create_record K X new_id now agent run_input ikey max_attempts job_ttl ikey_ttl r =
     (let r1 = rd_hset K (job_key new_id) (job_fields X agent now max_attempts run_input) r;
          r2 = rd_expire K (job_key new_id) job_ttl r1 in
      if truthy_str ikey then rd_setex K (idempotency_key agent (or_str ikey [])) ikey_ttl new_id r2 else r2)"

definition create_job :: "'r redis_data \<Rightarrow> text_codec \<Rightarrow> string \<Rightarrow> real \<Rightarrow> string \<Rightarrow> (string \<times> json) list \<Rightarrow> string option
    \<Rightarrow> int \<Rightarrow> int \<Rightarrow> int \<Rightarrow> 'r \<Rightarrow> (string \<times> bool) \<times> 'r" where
  "create_job K X new_id now agent run_input ikey max_attempts job_ttl ikey_ttl r =
     (let existing = (if truthy_str ikey then rd_get K (idempotency_key agent (or_str ikey [])) r else None) in
      if truthy_str existing then ((or_str existing [], True), r)
      else ((new_id, False), create_record K X new_id now agent run_input ikey max_attempts job_ttl ikey_ttl r))"

subsection \<open>Reading a record\<close>

definition error_value :: "job_error_info \<Rightarrow> json" where
  "error_value e =
     JObj [(''code'', JStr (je_code e)), (''message'', JStr (je_message e)), (''details'', JObj (je_details e))]"

fun json_object :: "json \<Rightarrow> (string \<times> json) list option" where
  "json_object (JObj d) = Some d"
| "json_object _ = None"

text \<open>\<open>JobErrorInfo.model_validate\<close>; \<open>details\<close> has a default.\<close>

definition validate_error :: "json \<Rightarrow> job_error_info option" where
  "validate_error j =
     (case json_object j of None \<Rightarrow> None
      | Some d \<Rightarrow>
         (case (dict_get d ''code'', dict_get d ''message'', json_object (dict_get_or (JObj []) d ''details'')) of
            (Some (JStr c), Some (JStr m), Some x) \<Rightarrow> Some \<lparr>je_code = c, je_message = m, je_details = x\<rparr>
          | _ \<Rightarrow> None))"

definition unparsed_error :: job_error_info where
  "unparsed_error = \<lparr>je_code = ''unknown_error'', je_message = ''Failed to parse stored error.'', je_details = []\<rparr>"

definition parse_float :: "text_codec \<Rightarrow> string \<Rightarrow> real option" where
  "parse_float X raw = (let t = py_strip raw in if t = [] then None else tx_float X t)"

definition parse_int :: "string \<Rightarrow> int \<Rightarrow> int" where
  "parse_int raw d = (case py_int_of_str raw of None \<Rightarrow> d | Some i \<Rightarrow> i)"

text \<open>The hash of a job by its fields; \<open>data.get(k, d)\<close>.\<close>

type_synonym job_hash = "string \<Rightarrow> string option"

definition field_or :: "string \<Rightarrow> job_hash \<Rightarrow> string \<Rightarrow> string" where
  "field_or d data k = (case data k of None \<Rightarrow> d | Some t \<Rightarrow> t)"

definition stored_error :: "text_codec \<Rightarrow> job_hash \<Rightarrow> job_error_info option" where
  "stored_error X data =
     (let t = field_or [] data ''error_json'' in
      if t = [] then None
      else Some (case Option.bind (tx_loads X t) validate_error of None \<Rightarrow> unparsed_error | Some e \<Rightarrow> e))"

definition stored_result :: "text_codec \<Rightarrow> job_hash \<Rightarrow> json" where
  "stored_result X data =
     (let t = field_or [] data ''result_json'' in
      if t = [] then JNull
      else (case tx_loads X t of None \<Rightarrow> JObj [(''_parse_error'', JBool True)] | Some j \<Rightarrow> j))"

text \<open>\<open>data.get(k, d) or d\<close>.\<close>

definition text_field :: "job_hash \<Rightarrow> string \<Rightarrow> string \<Rightarrow> string" where
  "text_field data k d = (let t = field_or d data k in if t = [] then d else t)"

definition validate_result :: "json \<Rightarrow> (string \<times> json) list option option" where
  "validate_result j = (case j of JNull \<Rightarrow> Some None | JObj d \<Rightarrow> Some (Some d) | _ \<Rightarrow> None)"

definition parse_job :: "text_codec \<Rightarrow> string \<Rightarrow> job_hash \<Rightarrow> agent_job py" where
  "parse_job X job_id data =
     (case parse_agent_status (field_or ''failed'' data ''status'') of
        None \<Rightarrow> Inl (ExnValue ''status'')
      | Some status \<Rightarrow>
     (case tx_float X (text_field data ''created_at_unix'' ''0'') of
        None \<Rightarrow> Inl (ExnValue ''created_at_unix'')
      | Some created \<Rightarrow>
     (case tx_loads X (text_field data ''run_input_json'' ''{}'') of
        None \<Rightarrow> Inl (ExnValue ''run_input_json'')
      | Some run_input \<Rightarrow>
     (case (json_object run_input, validate_result (stored_result X data)) of
        (Some i, Some res) \<Rightarrow>
          Inr \<lparr>aj_job_id = job_id, aj_agent = field_or [] data ''agent'', aj_status = status,
            aj_created_at_unix = created,
            aj_started_at_unix = parse_float X (field_or [] data ''started_at_unix''),
            aj_finished_at_unix = parse_float X (field_or [] data ''finished_at_unix''),
            aj_attempts = parse_int (field_or ''0'' data ''attempts'') 0,
            aj_max_attempts = parse_int (field_or ''3'' data ''max_attempts'') 3,
            aj_run_input = i, aj_result = res, aj_error = stored_error X data,
            aj_cancel_requested = (field_or ''0'' data ''cancel_requested'' = ''1'')\<rparr>
      | _ \<Rightarrow> Inl ExnValidation))))"

definition get_job :: "'r redis_data \<Rightarrow> text_codec \<Rightarrow> string \<Rightarrow> 'r \<Rightarrow> agent_job option py" where
  "get_job K X job_id r =
     (let data = rd_hgetall K (job_key job_id) r in
      if data = [] then Inr None else py_bind (parse_job X job_id (dict_get data)) (\<lambda>j. Inr (Some j)))"

subsection \<open>Changing a record\<close>

definition update_status :: "'r redis_data \<Rightarrow> text_codec \<Rightarrow> string \<Rightarrow> agent_status \<Rightarrow> bool \<Rightarrow> bool \<Rightarrow> real \<Rightarrow> 'r \<Rightarrow> 'r" where
  "update_status K X job_id status started finished now r =
     rd_hset K (job_key job_id)
       ([(''status'', agent_status_value status)] @
        (if started then [(''started_at_unix'', tx_str X now)] else []) @
        (if finished then [(''finished_at_unix'', tx_str X now)] else [])) r"

definition increment_attempts :: "'r redis_data \<Rightarrow> string \<Rightarrow> 'r \<Rightarrow> int \<times> 'r" where
  "increment_attempts K job_id r = rd_hincrby K (job_key job_id) ''attempts'' 1 r"

definition set_result :: "'r redis_data \<Rightarrow> text_codec \<Rightarrow> string \<Rightarrow> json \<Rightarrow> 'r \<Rightarrow> 'r" where
  "set_result K X job_id result r = rd_hset K (job_key job_id) [(''result_json'', tx_dumps X result)] r"

definition set_error :: "'r redis_data \<Rightarrow> text_codec \<Rightarrow> string \<Rightarrow> string \<Rightarrow> string \<Rightarrow> (string \<times> json) list \<Rightarrow> 'r \<Rightarrow> 'r" where
  "set_error K X job_id code message details r =
     rd_hset K (job_key job_id)
       [(''error_json'', tx_dumps X (error_value \<lparr>je_code = code, je_message = message, je_details = details\<rparr>))] r"

definition request_cancel :: "'r redis_data \<Rightarrow> string \<Rightarrow> 'r \<Rightarrow> 'r" where
  "request_cancel K job_id r = rd_hset K (job_key job_id) [(''cancel_requested'', ''1'')] r"

section \<open>Queues\<close>

definition queue_key :: "string \<Rightarrow> string" where
  "queue_key queue_name = ''synqc:q:'' @ queue_name"

definition delayed_key :: "string \<Rightarrow> string" where
  "delayed_key queue_name = ''synqc:q:'' @ queue_name @ '':delayed''"

definition enqueue_ready :: "'r redis_data \<Rightarrow> string \<Rightarrow> string \<Rightarrow> 'r \<Rightarrow> 'r" where
  "enqueue_ready K queue_name job_id r = rd_lpush K (queue_key queue_name) job_id r"

text \<open>\<open>dequeue\<close>: \<open>None\<close> when nothing arrives within the blocking time.\<close>

definition dequeue :: "'r redis_data \<Rightarrow> string \<Rightarrow> 'r \<Rightarrow> string option \<times> 'r" where
  "dequeue K queue_name r = rd_brpop K (queue_key queue_name) r"

definition schedule_delayed :: "'r redis_data \<Rightarrow> string \<Rightarrow> string \<Rightarrow> real \<Rightarrow> real \<Rightarrow> 'r \<Rightarrow> 'r" where
  "schedule_delayed K queue_name job_id delay_seconds now r =
     rd_zadd K (delayed_key queue_name) job_id (now + delay_seconds) r"

fun pump_loop :: "'r redis_data \<Rightarrow> string \<Rightarrow> string \<Rightarrow> real \<Rightarrow> nat \<Rightarrow> 'r \<Rightarrow> nat \<times> 'r" where
  "pump_loop K delayed q now 0 r = (0, r)"
| "pump_loop K delayed q now (Suc n) r =
     (case rd_zpopmin K delayed r of
        (None, r1) \<Rightarrow> (0, r1)
      | (Some (job_id, score), r1) \<Rightarrow>
          if score > now then (0, rd_zadd K delayed job_id score r1)
          else (case pump_loop K delayed q now n (rd_lpush K q job_id r1) of (moved, r2) \<Rightarrow> (moved + 1, r2)))"

definition pump_delayed :: "'r redis_data \<Rightarrow> string \<Rightarrow> int \<Rightarrow> real \<Rightarrow> 'r \<Rightarrow> nat \<times> 'r" where
  "pump_delayed K queue_name limit now r =
     pump_loop K (delayed_key queue_name) (queue_key queue_name) now (nat limit) r"

definition queue_depth :: "'r redis_data \<Rightarrow> string \<Rightarrow> 'r \<Rightarrow> nat" where
  "queue_depth K queue_name r = rd_llen K (queue_key queue_name) r"

definition delayed_depth :: "'r redis_data \<Rightarrow> string \<Rightarrow> 'r \<Rightarrow> nat" where
  "delayed_depth K queue_name r = rd_zcard K (delayed_key queue_name) r"

section \<open>Records read and written\<close>

text \<open>\<open>job_in v id\<close> is the hash of a job in the contents \<open>v\<close> of the server.\<close>

definition job_in :: "redis_view \<Rightarrow> string \<Rightarrow> job_hash" where
  "job_in v job_id = rv_hash v (job_key job_id)"

lemma job_key_eq [simp]: "job_key a = job_key b \<longleftrightarrow> a = b"
  by (simp add: job_key_def)

lemma queue_key_neq [simp]: "queue_key a = queue_key b \<longleftrightarrow> a = b" "delayed_key a = delayed_key b \<longleftrightarrow> a = b"
  by (simp_all add: queue_key_def delayed_key_def)

named_theorems job_simps \<open>the hash of a job after a change\<close>

lemma job_in_simps [job_simps]:
  "job_in (v\<lparr>rv_hash := (rv_hash v)(job_key a := h)\<rparr>) b = (if b = a then h else job_in v b)"
  "job_in (v\<lparr>rv_list := l\<rparr>) b = job_in v b"
  "job_in (v\<lparr>rv_zset := z\<rparr>) b = job_in v b"
  "job_in (v\<lparr>rv_string := s\<rparr>) b = job_in v b"
  by (auto simp: job_in_def)

lemma get_job_hash:
  assumes "redis_laws K V"
  shows "get_job K X job_id r =
    (if job_in (V r) job_id = Map.empty then Inr None
     else py_bind (parse_job X job_id (job_in (V r) job_id)) (\<lambda>j. Inr (Some j)))"
  using assms by (simp add: get_job_def redis_simps job_in_def Let_def)

text \<open>What a record holds when it reads as \<open>j\<close>.\<close>

definition reads_job :: "text_codec \<Rightarrow> string \<Rightarrow> job_hash \<Rightarrow> agent_job \<Rightarrow> bool" where
  "reads_job X job_id h j = (h \<noteq> Map.empty \<and> parse_job X job_id h = Inr j)"

lemma get_job_Some:
  assumes "redis_laws K V"
  shows "get_job K X job_id r = Inr (Some j) \<longleftrightarrow> reads_job X job_id (job_in (V r) job_id) j"
  by (cases "parse_job X job_id (job_in (V r) job_id)")
     (auto simp: get_job_hash [OF assms] reads_job_def)

lemma agent_status_parse [simp]: "parse_agent_status (agent_status_value s) = Some s"
  by (cases s) (simp_all add: parse_agent_status_def)

lemma field_upd [job_simps]: "field_or d (h(k \<mapsto> t)) k' = (if k' = k then t else field_or d h k')"
  by (simp add: field_or_def)

lemma reads_job_fields:
  "reads_job X job_id h j \<longleftrightarrow> h \<noteq> Map.empty \<and>
    (\<exists>status created i res. parse_agent_status (field_or ''failed'' h ''status'') = Some status \<and>
      tx_float X (text_field h ''created_at_unix'' ''0'') = Some created \<and>
      tx_loads X (text_field h ''run_input_json'' ''{}'') = Some (JObj i) \<and>
      validate_result (stored_result X h) = Some res \<and>
      j = \<lparr>aj_job_id = job_id, aj_agent = field_or [] h ''agent'', aj_status = status,
            aj_created_at_unix = created,
            aj_started_at_unix = parse_float X (field_or [] h ''started_at_unix''),
            aj_finished_at_unix = parse_float X (field_or [] h ''finished_at_unix''),
            aj_attempts = parse_int (field_or ''0'' h ''attempts'') 0,
            aj_max_attempts = parse_int (field_or ''3'' h ''max_attempts'') 3,
            aj_run_input = i, aj_result = res, aj_error = stored_error X h,
            aj_cancel_requested = (field_or ''0'' h ''cancel_requested'' = ''1'')\<rparr>)"
proof -
  have obj: "json_object x = Some i \<longleftrightarrow> x = JObj i" for x i by (cases x) auto
  show ?thesis
    by (auto simp: reads_job_def parse_job_def obj split: option.splits prod.splits)
qed

lemma parse_float_text: "float_reads_back X x \<Longrightarrow> parse_float X (tx_str X x) = Some x"
  by (simp add: parse_float_def float_reads_back_def)

lemma reads_status:
  assumes "reads_job X job_id h j"
  shows "reads_job X job_id (h(''status'' \<mapsto> agent_status_value s)) (j\<lparr>aj_status := s\<rparr>)"
  using assms by (auto simp: reads_job_fields job_simps text_field_def stored_result_def stored_error_def)

lemma reads_started:
  assumes "reads_job X job_id h j" and "float_reads_back X x"
  shows "reads_job X job_id (h(''started_at_unix'' \<mapsto> tx_str X x)) (j\<lparr>aj_started_at_unix := Some x\<rparr>)"
  using assms by (auto simp: reads_job_fields job_simps text_field_def stored_result_def stored_error_def parse_float_text)

lemma reads_finished:
  assumes "reads_job X job_id h j" and "float_reads_back X x"
  shows "reads_job X job_id (h(''finished_at_unix'' \<mapsto> tx_str X x)) (j\<lparr>aj_finished_at_unix := Some x\<rparr>)"
  using assms by (auto simp: reads_job_fields job_simps text_field_def stored_result_def stored_error_def parse_float_text)

lemma reads_attempts:
  assumes "reads_job X job_id h j"
  shows "reads_job X job_id (h(''attempts'' \<mapsto> py_str_int n)) (j\<lparr>aj_attempts := n\<rparr>)"
  using assms by (auto simp: reads_job_fields job_simps text_field_def stored_result_def stored_error_def parse_int_def int_of_str_of_int)

lemma reads_cancel:
  assumes "reads_job X job_id h j"
  shows "reads_job X job_id (h(''cancel_requested'' \<mapsto> ''1'')) (j\<lparr>aj_cancel_requested := True\<rparr>)"
  using assms by (auto simp: reads_job_fields job_simps text_field_def stored_result_def stored_error_def)

lemma validate_error_value [simp]: "validate_error (error_value e) = Some e"
  by (simp add: validate_error_def error_value_def dict_get_or_def)

lemma reads_error:
  assumes "reads_job X job_id h j" and "json_reads_back X (error_value e)"
  shows "reads_job X job_id (h(''error_json'' \<mapsto> tx_dumps X (error_value e))) (j\<lparr>aj_error := Some e\<rparr>)"
  using assms by (auto simp: reads_job_fields job_simps text_field_def stored_result_def stored_error_def json_reads_back_def)

lemma reads_result:
  assumes "reads_job X job_id h j" and "json_reads_back X (JObj d)"
  shows "reads_job X job_id (h(''result_json'' \<mapsto> tx_dumps X (JObj d))) (j\<lparr>aj_result := Some d\<rparr>)"
  using assms
  by (auto simp: reads_job_fields job_simps text_field_def stored_result_def stored_error_def json_reads_back_def validate_result_def)

text \<open>The hash of a job after each change of \<open>job_store.py\<close>; the rest of the server is left alone.\<close>

definition put_job :: "redis_view \<Rightarrow> string \<Rightarrow> job_hash \<Rightarrow> redis_view" where
  "put_job v job_id h = v\<lparr>rv_hash := (rv_hash v)(job_key job_id := h)\<rparr>"

lemma put_job_simps [job_simps]:
  "job_in (put_job v a h) b = (if b = a then h else job_in v b)"
  "rv_list (put_job v a h) = rv_list v" "rv_zset (put_job v a h) = rv_zset v" "rv_string (put_job v a h) = rv_string v"
  "put_job (put_job v a h) a h' = put_job v a h'"
  by (simp_all add: put_job_def job_in_def)

definition status_fields :: "text_codec \<Rightarrow> agent_status \<Rightarrow> bool \<Rightarrow> bool \<Rightarrow> real \<Rightarrow> job_hash \<Rightarrow> job_hash" where
  "status_fields X s started finished now h =
     (let h1 = h(''status'' \<mapsto> agent_status_value s);
          h2 = (if started then h1(''started_at_unix'' \<mapsto> tx_str X now) else h1) in
      if finished then h2(''finished_at_unix'' \<mapsto> tx_str X now) else h2)"

lemma update_status_view [job_simps]:
  assumes "redis_laws K V"
  shows "V (update_status K X a s started finished now r) =
    put_job (V r) a (status_fields X s started finished now (job_in (V r) a))"
  using assms by (simp add: update_status_def redis_simps put_job_def job_in_def status_fields_def Let_def)

lemma set_result_view [job_simps]:
  assumes "redis_laws K V"
  shows "V (set_result K X a x r) = put_job (V r) a ((job_in (V r) a)(''result_json'' \<mapsto> tx_dumps X x))"
  using assms by (simp add: set_result_def redis_simps put_job_def job_in_def)

lemma set_error_view [job_simps]:
  assumes "redis_laws K V"
  shows "V (set_error K X a c m d r) = put_job (V r) a ((job_in (V r) a)(''error_json'' \<mapsto>
    tx_dumps X (error_value \<lparr>je_code = c, je_message = m, je_details = d\<rparr>)))"
  using assms by (simp add: set_error_def redis_simps put_job_def job_in_def)

lemma request_cancel_view [job_simps]:
  assumes "redis_laws K V"
  shows "V (request_cancel K a r) = put_job (V r) a ((job_in (V r) a)(''cancel_requested'' \<mapsto> ''1''))"
  using assms by (simp add: request_cancel_def redis_simps put_job_def job_in_def)

lemma reads_status_fields:
  assumes "reads_job X job_id h j" and "started \<or> finished \<Longrightarrow> float_reads_back X now"
  shows "reads_job X job_id (status_fields X s started finished now h)
    (j\<lparr>aj_status := s, aj_started_at_unix := (if started then Some now else aj_started_at_unix j),
       aj_finished_at_unix := (if finished then Some now else aj_finished_at_unix j)\<rparr>)"
proof -
  note 1 = reads_status [OF assms(1), of s]
  show ?thesis
    using 1 assms(2) reads_started [OF 1, of now] reads_finished [OF 1, of now]
      reads_finished [OF reads_started [OF 1, of now], of now]
    by (auto simp: status_fields_def Let_def)
qed

section \<open>New records\<close>

definition fresh_job :: "string \<Rightarrow> string \<Rightarrow> real \<Rightarrow> int \<Rightarrow> (string \<times> json) list \<Rightarrow> agent_job" where
  "fresh_job job_id agent now max_attempts run_input =
     \<lparr>aj_job_id = job_id, aj_agent = agent, aj_status = Aqueued, aj_created_at_unix = now, aj_started_at_unix = None,
      aj_finished_at_unix = None, aj_attempts = 0, aj_max_attempts = max_attempts, aj_run_input = run_input,
      aj_result = None, aj_error = None, aj_cancel_requested = False\<rparr>"

definition new_hash :: "text_codec \<Rightarrow> string \<Rightarrow> real \<Rightarrow> int \<Rightarrow> (string \<times> json) list \<Rightarrow> job_hash" where
  "new_hash X agent now max_attempts run_input = map_of (job_fields X agent now max_attempts run_input)"

lemma new_hash_rev: "map_of (rev (job_fields X agent now m i)) = new_hash X agent now m i"
proof -
  have "distinct (map fst (job_fields X agent now m i))" by (simp add: job_fields_def)
  then show ?thesis by (simp add: new_hash_def map_of_inject_set rev_map [symmetric])
qed

lemma new_hash_reads:
  assumes "float_reads_back X now" and "json_reads_back X (JObj i)"
  shows "reads_job X job_id (new_hash X agent now m i) (fresh_job job_id agent now m i)"
proof -
  have f: "field_or d (new_hash X agent now m i) k = dict_get_or d (job_fields X agent now m i) k" for d k
    by (simp add: field_or_def new_hash_def dict_get_or_def)
  have "text_field (new_hash X agent now m i) ''created_at_unix'' ''0'' = tx_str X now"
    using assms(1) by (simp add: text_field_def f dict_get_or_def job_fields_def float_reads_back_def)
  moreover have "text_field (new_hash X agent now m i) ''run_input_json'' ''{}'' = tx_dumps X (JObj i)"
    using assms(2) by (simp add: text_field_def f dict_get_or_def job_fields_def json_reads_back_def)
  moreover have "new_hash X agent now m i ''agent'' = Some agent" by (simp add: new_hash_def job_fields_def)
  then have "new_hash X agent now m i \<noteq> Map.empty" by auto
  moreover have "stored_error X (new_hash X agent now m i) = None"
    by (simp add: stored_error_def f dict_get_or_def job_fields_def)
  moreover have "stored_result X (new_hash X agent now m i) = JNull"
    by (simp add: stored_result_def f dict_get_or_def job_fields_def)
  moreover have "parse_agent_status (field_or ''failed'' (new_hash X agent now m i) ''status'') = Some Aqueued"
  proof -
    have "field_or ''failed'' (new_hash X agent now m i) ''status'' = agent_status_value Aqueued"
      by (simp add: f dict_get_or_def job_fields_def)
    then show ?thesis by (simp only: agent_status_parse)
  qed
  ultimately show ?thesis
    using assms
    by (simp add: reads_job_fields float_reads_back_def json_reads_back_def validate_result_def)
       (simp add: fresh_job_def f dict_get_or_def job_fields_def parse_float_def py_strip_def parse_int_def int_of_str_of_int)
qed

text \<open>A submission with no known idempotency key adds the record; one with a known key changes nothing.\<close>

lemma create_job_new:
  assumes "redis_laws K V" and "job_in (V r) new_id = Map.empty"
    and "\<And>k. ikey = Some k \<Longrightarrow> k \<noteq> [] \<Longrightarrow> rv_string (V r) (idempotency_key agent k) = None"
  shows "fst (create_job K X new_id now agent i ikey m ttl ikey_ttl r) = (new_id, False)"
    and "rv_list (V (snd (create_job K X new_id now agent i ikey m ttl ikey_ttl r))) = rv_list (V r)"
    and "rv_zset (V (snd (create_job K X new_id now agent i ikey m ttl ikey_ttl r))) = rv_zset (V r)"
    and "job_in (V (snd (create_job K X new_id now agent i ikey m ttl ikey_ttl r))) a =
      (if a = new_id then new_hash X agent now m i else job_in (V r) a)"
    and "ikey = Some k \<Longrightarrow> k \<noteq> [] \<Longrightarrow>
      rv_string (V (snd (create_job K X new_id now agent i ikey m ttl ikey_ttl r))) (idempotency_key agent k) = Some new_id"
proof -
  have e: "rv_hash (V r) (job_key new_id) = Map.empty" using assms(2) by (simp add: job_in_def)
  note d = create_job_def create_record_def Let_def redis_string_simps [OF assms(1)] redis_hash_simps [OF assms(1)] truthy_str_def or_str_def new_hash_rev e job_in_def
  show "fst (create_job K X new_id now agent i ikey m ttl ikey_ttl r) = (new_id, False)"
    and "rv_list (V (snd (create_job K X new_id now agent i ikey m ttl ikey_ttl r))) = rv_list (V r)"
    and "rv_zset (V (snd (create_job K X new_id now agent i ikey m ttl ikey_ttl r))) = rv_zset (V r)"
    and "job_in (V (snd (create_job K X new_id now agent i ikey m ttl ikey_ttl r))) a =
      (if a = new_id then new_hash X agent now m i else job_in (V r) a)"
    and "ikey = Some k \<Longrightarrow> k \<noteq> [] \<Longrightarrow>
      rv_string (V (snd (create_job K X new_id now agent i ikey m ttl ikey_ttl r))) (idempotency_key agent k) = Some new_id"
    using assms(3) by (auto simp: d split: option.split)
qed

lemma create_job_reused:
  assumes "redis_laws K V" and "k \<noteq> []" and "rv_string (V r) (idempotency_key agent k) = Some old" and "old \<noteq> []"
  shows "create_job K X new_id now agent i (Some k) m ttl ikey_ttl r = ((old, True), r)"
  using assms by (simp add: create_job_def Let_def redis_simps truthy_str_def or_str_def)

section \<open>The delayed jobs\<close>

text \<open>
  A pump moves the due jobs \<open>ms\<close>, the earliest first, behind those that are ready, and stops at
  its limit or when no due job is left.
\<close>

definition pumped :: "redis_view \<Rightarrow> string \<Rightarrow> string \<Rightarrow> string list \<Rightarrow> redis_view" where
  "pumped v d q ms = v\<lparr>rv_list := (rv_list v)(q := rev ms @ rv_list v q), rv_zset := (rv_zset v)(d := rv_zset v d |` (- set ms))\<rparr>"

lemma pumped_Nil [simp]: "pumped v d q [] = v"
proof -
  have "z |` UNIV = z" for z :: "string \<Rightarrow> real option" by (simp add: restrict_map_def)
  then show ?thesis by (simp add: pumped_def)
qed

lemma pumped_simps [job_simps]:
  "job_in (pumped v d q ms) a = job_in v a" "rv_string (pumped v d q ms) = rv_string v"
  "rv_list (pumped v d q ms) k = (if k = q then rev ms @ rv_list v q else rv_list v k)"
  "rv_zset (pumped v d q ms) k = (if k = d then rv_zset v d |` (- set ms) else rv_zset v k)"
  by (simp_all add: pumped_def job_in_def)

lemma pump_loop_view:
  assumes L: "redis_laws K V" and "pump_loop K d q now n r = (k, r')"
  shows "\<exists>ms. length ms = k \<and> k \<le> n \<and> distinct ms \<and> (\<forall>m\<in>set ms. \<exists>x\<le>now. rv_zset (V r) d m = Some x) \<and>
    sorted (map (\<lambda>m. the (rv_zset (V r) d m)) ms) \<and> V r' = pumped (V r) d q ms \<and>
    (k < n \<longrightarrow> (\<forall>m x. rv_zset (V r') d m = Some x \<longrightarrow> now < x))"
  using assms(2)
proof (induction n arbitrary: r k)
  case 0
  then show ?case by (intro exI [of _ "[]"]) simp
next
  case (Suc n)
  show ?case
  proof (cases "rv_zset (V r) d = Map.empty")
    case True
    then show ?thesis using Suc.prems redis_zset_simps(4) [OF L True]
      by (intro exI [of _ "[]"]) auto
  next
    case False
    from redis_zpopmin [OF L False] obtain m x r1 where p: "rd_zpopmin K d r = (Some (m, x), r1)"
      and m: "rv_zset (V r) d m = Some x" and least: "\<And>m' x'. rv_zset (V r) d m' = Some x' \<Longrightarrow> x \<le> x'"
      and v1: "V r1 = (V r)\<lparr>rv_zset := (rv_zset (V r))(d := (rv_zset (V r) d)(m := None))\<rparr>"
      by metis
    show ?thesis
    proof (cases "x > now")
      case True
      then have "k = 0" "r' = rd_zadd K d m x r1" using Suc.prems p by auto
      moreover have "V (rd_zadd K d m x r1) = V r"
        using m by (simp add: redis_simps L v1 map_upd_triv)
      ultimately show ?thesis using True least by (intro exI [of _ "[]"]) fastforce
    next
      case False
      then obtain k1 where k1: "pump_loop K d q now n (rd_lpush K q m r1) = (k1, r')" "k = Suc k1"
        using Suc.prems p by (auto split: prod.splits)
      let ?r2 = "rd_lpush K q m r1"
      have v2: "V ?r2 = (V r)\<lparr>rv_list := (rv_list (V r))(q := m # rv_list (V r) q),
          rv_zset := (rv_zset (V r))(d := (rv_zset (V r) d)(m := None))\<rparr>"
        by (simp add: redis_simps L v1)
      from Suc.IH [OF k1(1)] obtain ms where ms: "length ms = k1" "k1 \<le> n" "distinct ms"
        "\<forall>m\<in>set ms. \<exists>x\<le>now. rv_zset (V ?r2) d m = Some x"
        "sorted (map (\<lambda>m. the (rv_zset (V ?r2) d m)) ms)" "V r' = pumped (V ?r2) d q ms"
        "k1 < n \<longrightarrow> (\<forall>m x. rv_zset (V r') d m = Some x \<longrightarrow> now < x)"
        by blast
      have out: "m \<notin> set ms" using ms(4) by (auto simp: v2)
      then have same: "map (\<lambda>m. the (rv_zset (V ?r2) d m)) ms = map (\<lambda>m. the (rv_zset (V r) d m)) ms"
        by (auto simp: v2)
      have set: "\<exists>x\<le>now. rv_zset (V r) d m' = Some x" if "m' \<in> set ms" for m'
        using bspec [OF ms(4) that] out that by (auto simp: v2 split: if_splits)
      have "sorted (map (\<lambda>m. the (rv_zset (V r) d m)) (m # ms))"
        using ms(5) set least m unfolding same by fastforce
      moreover have "V r' = pumped (V r) d q (m # ms)"
        by (simp add: ms(6)) (auto simp: v2 pumped_def restrict_map_def fun_eq_iff)
      ultimately show ?thesis
        using ms(1-3,7) out set m False k1(2) by (intro exI [of _ "m # ms"]) (auto simp: not_less)
    qed
  qed
qed

text \<open>
  C22. One pump moves jobs that are due, the earliest first, and no other: they join the queue behind
  the jobs that are ready, each once, at most \<open>limit\<close> of them; when it stops before its limit no due
  job is left behind.
\<close>

theorem pump_moves_due_jobs:
  assumes "redis_laws K V" and "pump_delayed K q limit now r = (moved, r')"
  shows "\<exists>ms. length ms = moved \<and> moved \<le> nat limit \<and> distinct ms \<and>
    (\<forall>m\<in>set ms. \<exists>x\<le>now. rv_zset (V r) (delayed_key q) m = Some x) \<and>
    sorted (map (\<lambda>m. the (rv_zset (V r) (delayed_key q) m)) ms) \<and>
    rv_list (V r') (queue_key q) = rev ms @ rv_list (V r) (queue_key q) \<and>
    rv_zset (V r') (delayed_key q) = rv_zset (V r) (delayed_key q) |` (- set ms) \<and>
    (moved < nat limit \<longrightarrow> (\<forall>m x. rv_zset (V r') (delayed_key q) m = Some x \<longrightarrow> now < x))"
proof -
  from pump_loop_view [OF assms(1) assms(2) [unfolded pump_delayed_def]]
  obtain ms where "length ms = moved" "moved \<le> nat limit" "distinct ms"
    "\<forall>m\<in>set ms. \<exists>x\<le>now. rv_zset (V r) (delayed_key q) m = Some x"
    "sorted (map (\<lambda>m. the (rv_zset (V r) (delayed_key q) m)) ms)"
    "V r' = pumped (V r) (delayed_key q) (queue_key q) ms"
    "moved < nat limit \<longrightarrow> (\<forall>m x. rv_zset (V r') (delayed_key q) m = Some x \<longrightarrow> now < x)" by blast
  then show ?thesis by (intro exI [of _ ms]) (simp add: pumped_simps)
qed

definition demo_delayed :: redis_db where
  "demo_delayed = \<lparr>db_strings = [], db_hashes = [], db_lists = [(''synqc:q:default'', [''c''])],
     db_zsets = [(''synqc:q:default:delayed'', [(''a'', 5), (''b'', 1)])]\<rparr>"

theorem pump_moves_due_jobs_witness:
  "\<exists>ms. rv_list (db_contents (snd (pump_delayed redis_reference ''default'' 100 2 demo_delayed))) (queue_key ''default'') =
     rev ms @ [''c''] \<and> set ms \<subseteq> {''b''}"
proof -
  have z: "rv_zset (db_contents demo_delayed) (delayed_key ''default'') = [''a'' \<mapsto> 5, ''b'' \<mapsto> 1]"
    and l: "rv_list (db_contents demo_delayed) (queue_key ''default'') = [''c'']"
    by (auto simp: db_contents_def demo_delayed_def db_zset_def db_list_def dict_get_or_def queue_key_def delayed_key_def)
  from pump_moves_due_jobs [OF redis_reference_laws prod.collapse [symmetric], where q = "''default''" and limit = 100
      and now = 2 and r = demo_delayed]
  obtain ms where "\<forall>m\<in>set ms. \<exists>x\<le>2. rv_zset (db_contents demo_delayed) (delayed_key ''default'') m = Some x"
    "rv_list (db_contents (snd (pump_delayed redis_reference ''default'' 100 2 demo_delayed))) (queue_key ''default'') =
      rev ms @ [''c'']"
    unfolding l by blast
  then show ?thesis by (intro exI [of _ ms]) (auto simp: z split: if_splits)
qed

end
