(* ===== verification/Agent_Worker.thy ===== *)
theory Agent_Worker
  imports Agent_Jobs Step_Machine
begin

text \<open>
  The agents of \<open>agents/base.py\<close>, \<open>agents/registry.py\<close> and \<open>agents/echo.py\<close>, and the worker of
  \<open>worker_service.py\<close> that runs them: one call of \<open>process_one\<close> pumps the delayed jobs, takes a ready
  one, runs its agent in a child process and writes the outcome, with a retry for transient errors.
  \<open>worker_next\<close> is the same code one Redis command at a time, and the step relation at the end
  interleaves the commands of several workers, submissions and cancellations.

  An agent is a record of its metadata and its methods. What the child process does is an argument,
  \<open>child_fate\<close>: it ends after putting its answer, it is still alive when the join times out, or the
  queue is empty after it ended. Every exception of a child reaches the parent as type, message and
  traceback.
\<close>

section \<open>Agents\<close>

record agent_metadata =
  am_name :: string
  am_version :: string
  am_description :: string
  am_requires :: "string list"

record agent_run_input =
  ri_shots :: int
  ri_target :: string
  ri_seed :: "int option"
  ri_params :: "(string \<times> json) list"
  ri_metadata :: "(string \<times> json) list"

record agent_run_output =
  ro_agent :: string
  ro_ok :: bool
  ro_kpis :: "(string \<times> json) list"
  ro_data :: "(string \<times> json) list"
  ro_warnings :: "string list"

record agent_self_test =
  st_agent :: string
  st_ok :: bool
  st_details :: "(string \<times> json) list"
  st_warnings :: "string list"

record agent =
  ag_info :: agent_metadata
  ag_run :: "agent_run_input \<Rightarrow> agent_run_output py"
  ag_self_test :: "agent_self_test py"

text \<open>\<open>BaseAgent.self_test\<close>; \<open>importable\<close> says which packages the interpreter finds.\<close>

definition base_self_test :: "(string \<Rightarrow> bool) \<Rightarrow> agent_metadata \<Rightarrow> agent_self_test" where
  "base_self_test importable m =
     (let missing = filter (\<lambda>p. \<not> importable p) (am_requires m) in
      if missing \<noteq> []
      then \<lparr>st_agent = am_name m, st_ok = False,
            st_details = [(''missing_dependencies'', JList (map JStr missing))], st_warnings = []\<rparr>
      else \<lparr>st_agent = am_name m, st_ok = True, st_details = [(''deps_ok'', JBool True)], st_warnings = []\<rparr>)"

definition echo_metadata :: agent_metadata where
  "echo_metadata = \<lparr>am_name = ''echo'', am_version = ''1.0.0'',
     am_description = ''Returns whatever you send it. Useful for smoke tests and demos.'', am_requires = []\<rparr>"

definition echo_run :: "agent_run_input \<Rightarrow> agent_run_output py" where
  "echo_run run_input =
     Inr \<lparr>ro_agent = am_name echo_metadata, ro_ok = True, ro_kpis = [(''latency_ms'', JInt 0)],
       ro_data = [(''echo'', JObj [(''shots'', JInt (ri_shots run_input)), (''target'', JStr (ri_target run_input)),
         (''seed'', json_opt JInt (ri_seed run_input)), (''params'', JObj (ri_params run_input))])],
       ro_warnings = []\<rparr>"

definition echo_agent :: agent where
  "echo_agent = \<lparr>ag_info = echo_metadata, ag_run = echo_run,
     ag_self_test = Inr \<lparr>st_agent = am_name echo_metadata, st_ok = True,
       st_details = [(''echo'', JStr ''ok'')], st_warnings = []\<rparr>\<rparr>"

text \<open>\<open>_AGENT_TYPES\<close> is the echo agent and whatever further agent imports.\<close>

definition agent_types :: "agent option \<Rightarrow> agent list" where
  "agent_types grover = echo_agent # (case grover of None \<Rightarrow> [] | Some g \<Rightarrow> [g])"

definition list_agents :: "agent list \<Rightarrow> agent_metadata list" where
  "list_agents types = map ag_info types"

definition get_agent :: "agent list \<Rightarrow> string \<Rightarrow> agent py" where
  "get_agent types name =
     (case List.find (\<lambda>t. am_name (ag_info t) = name) types of
        Some t \<Rightarrow> Inr t
      | None \<Rightarrow> Inl (ExnOther ''AgentError'' (''Unknown agent: '' @ name)))"

text \<open>
  \<open>AgentRunInput.model_validate\<close>: defaults for missing fields and \<open>1 \<le> shots \<le> 100000\<close>. \<open>lax\<close> is the
  conversion of the validation library for values that are no JSON integers.
\<close>

definition lax_int :: "(json \<Rightarrow> int option) \<Rightarrow> json \<Rightarrow> int option" where
  "lax_int lax j = (case j of JInt i \<Rightarrow> Some i | _ \<Rightarrow> lax j)"

fun json_string :: "json \<Rightarrow> string option" where
  "json_string (JStr s) = Some s"
| "json_string _ = None"

definition validate_run_input :: "(json \<Rightarrow> int option) \<Rightarrow> (string \<times> json) list \<Rightarrow> agent_run_input py" where
  "validate_run_input lax d =
     (let seed = dict_get_or JNull d ''seed'' in
      case (lax_int lax (dict_get_or (JInt 256) d ''shots''),
            json_string (dict_get_or (JStr ''simulator'') d ''target''),
            if seed = JNull then Some None else map_option Some (lax_int lax seed),
            json_object (dict_get_or (JObj []) d ''params''),
            json_object (dict_get_or (JObj []) d ''metadata'')) of
        (Some n, Some t, Some s, Some p, Some m) \<Rightarrow>
          if 1 \<le> n \<and> n \<le> 100000
          then Inr \<lparr>ri_shots = n, ri_target = t, ri_seed = s, ri_params = p, ri_metadata = m\<rparr>
          else Inl ExnValidation
      | _ \<Rightarrow> Inl ExnValidation)"

text \<open>\<open>model_dump\<close> of an input and of an output.\<close>

definition run_input_value :: "agent_run_input \<Rightarrow> (string \<times> json) list" where
  "run_input_value i =
     [(''shots'', JInt (ri_shots i)), (''target'', JStr (ri_target i)), (''seed'', json_opt JInt (ri_seed i)),
      (''params'', JObj (ri_params i)), (''metadata'', JObj (ri_metadata i))]"

definition run_output_value :: "agent_run_output \<Rightarrow> (string \<times> json) list" where
  "run_output_value out =
     [(''agent'', JStr (ro_agent out)), (''ok'', JBool (ro_ok out)), (''kpis'', JObj (ro_kpis out)),
      (''data'', JObj (ro_data out)), (''warnings'', JList (map JStr (ro_warnings out)))]"

section \<open>The worker\<close>

definition worker_env_int :: "string option \<Rightarrow> int \<Rightarrow> int" where
  "worker_env_int raw d =
     (case raw of None \<Rightarrow> d | Some t \<Rightarrow> if t = [] then d else (case py_int_of_str t of None \<Rightarrow> d | Some i \<Rightarrow> i))"

text \<open>
  What a worker is given: the agents, the text of its heartbeat payload, the environment variable of
  the heartbeat, the validation library, the text of a traceback and \<open>format(x, '.1f')\<close>.
\<close>

record worker_env =
  we_agents :: "agent list"
  we_payload :: "string option \<Rightarrow> string"
  we_heartbeat_ttl :: "string option"
  we_lax :: "json \<Rightarrow> int option"
  we_traceback :: "py_exn \<Rightarrow> string"
  we_fixed1 :: "real \<Rightarrow> string"

definition heartbeat_key :: "string \<Rightarrow> string" where
  "heartbeat_key worker_id = ''synqc:worker:'' @ worker_id"

definition write_heartbeat :: "'r redis_data \<Rightarrow> worker_env \<Rightarrow> string \<Rightarrow> string option \<Rightarrow> 'r \<Rightarrow> 'r" where
  "write_heartbeat K W worker_id current_job r =
     rd_setex K (heartbeat_key worker_id) (worker_env_int (we_heartbeat_ttl W) 30) (we_payload W current_job) r"

text \<open>The answer of the child: the result, or the type, message and traceback of its exception.\<close>

type_synonym child_answer = "(string \<times> string \<times> string) + (string \<times> json) list"

definition run_agent_in_subprocess :: "worker_env \<Rightarrow> string \<Rightarrow> (string \<times> json) list \<Rightarrow> child_answer" where
  "run_agent_in_subprocess W agent_name run_input =
     (case py_bind (get_agent (we_agents W) agent_name)
         (\<lambda>agent. py_bind (validate_run_input (we_lax W) run_input) (ag_run agent)) of
        Inr out \<Rightarrow> Inr (run_output_value out)
      | Inl e \<Rightarrow> Inl (exn_name e, exn_text e, we_traceback W e))"

definition transient_markers :: "string list" where
  "transient_markers =
     [''Timeout'', ''timed out'', ''temporarily unavailable'', ''connection reset'', ''connection refused'', ''503'', ''429'']"

definition is_transient_error :: "string \<Rightarrow> string \<Rightarrow> bool" where
  "is_transient_error err_type message =
     (let blob = py_lower (err_type @ '': '' @ message) in
      list_ex (\<lambda>m. py_in (py_lower m) blob) transient_markers)"

datatype child_fate = Child_answers | Child_alive | Child_silent

text \<open>The times that the calls of \<open>time.time()\<close> read, in order.\<close>

record worker_times =
  wt_pump :: real
  wt_started :: real
  wt_scheduled :: real
  wt_finished :: real

text \<open>\<open>process_one\<close> up to the start of the child.\<close>

datatype worker_claim =
    Claim_idle
  | Claim_dropped
  | Claim_raised py_exn
  | Claim_running string agent_job int

definition begin_job :: "'r redis_data \<Rightarrow> text_codec \<Rightarrow> worker_env \<Rightarrow> string \<Rightarrow> string \<Rightarrow> worker_times \<Rightarrow> 'r \<Rightarrow> worker_claim \<times> 'r" where
  "begin_job K X W queue_name worker_id t r =
     (let r1 = snd (pump_delayed K queue_name 100 (wt_pump t) r);
          (item, r2) = dequeue K queue_name r1;
          job_id = or_str item [] in
      if job_id = [] then (Claim_idle, write_heartbeat K W worker_id None r2)
      else (let r3 = write_heartbeat K W worker_id (Some job_id) r2 in
        case get_job K X job_id r3 of
          Inl e \<Rightarrow> (Claim_raised e, r3)
        | Inr None \<Rightarrow> (Claim_dropped, r3)
        | Inr (Some job) \<Rightarrow>
            if aj_cancel_requested job
            then (Claim_dropped, update_status K X job_id Acancelled False True (wt_finished t) r3)
            else (let r4 = update_status K X job_id Arunning True False (wt_started t) r3;
                      (attempt, r5) = increment_attempts K job_id r4 in
                  (Claim_running job_id job attempt, r5))))"

text \<open>\<open>float(2 ** e)\<close>; a result beyond the range of doubles raises \<open>OverflowError\<close>.\<close>

definition float_pow2 :: "int \<Rightarrow> real py" where
  "float_pow2 e =
     (if 1024 \<le> e then Inl (ExnOther ''OverflowError'' ''int too large to convert to float'')
      else if 0 \<le> e then Inr (2 ^ nat e) else Inr (1 / 2 ^ nat (- e)))"

definition retry_message :: "worker_env \<Rightarrow> real \<Rightarrow> int \<Rightarrow> int \<Rightarrow> string" where
  "retry_message W delay attempt max_attempts =
     ''Transient error; retrying in '' @ we_fixed1 W delay @ ''s (attempt '' @ py_str_int attempt @ ''/'' @
     py_str_int max_attempts @ '').''"

definition fail_job :: "'r redis_data \<Rightarrow> text_codec \<Rightarrow> string \<Rightarrow> string \<Rightarrow> string \<Rightarrow> (string \<times> json) list \<Rightarrow> real \<Rightarrow> 'r \<Rightarrow> 'r" where
  "fail_job K X job_id code message details now r =
     update_status K X job_id Afailed False True now (set_error K X job_id code message details r)"

text \<open>What the parent decides once the child has ended or was ended.\<close>

datatype job_outcome =
    Job_result "(string \<times> json) list"
  | Job_failed string string "(string \<times> json) list"
  | Job_retry real string "(string \<times> json) list"
  | Job_raises py_exn

definition child_outcome :: "worker_env \<Rightarrow> int \<Rightarrow> child_fate \<Rightarrow> agent_job \<Rightarrow> int \<Rightarrow> job_outcome" where
  "child_outcome W timeout fate job attempt =
     (case fate of
        Child_alive \<Rightarrow> Job_failed ''timeout'' (''Job exceeded '' @ py_str_int timeout @ ''s and was terminated.'') []
      | Child_silent \<Rightarrow> Job_failed ''worker_error'' ''Worker finished without returning a result.'' []
      | Child_answers \<Rightarrow>
      (case run_agent_in_subprocess W (aj_agent job) (aj_run_input job) of
        Inr result \<Rightarrow> Job_result result
      | Inl (err_type, msg, tb) \<Rightarrow>
          (let max_attempts = or_int (Some (aj_max_attempts job)) 3 in
           if attempt < max_attempts \<and> is_transient_error err_type msg
           then (case float_pow2 (attempt - 1) of
               Inl e \<Rightarrow> Job_raises e
             | Inr p \<Rightarrow>
                 (let delay = min 60 p in
                  Job_retry delay (retry_message W delay attempt max_attempts)
                    [(''err_type'', JStr err_type), (''message'', JStr msg)]))
           else Job_failed ''agent_failed'' msg [(''err_type'', JStr err_type), (''traceback'', JStr tb)])))"

text \<open>The rest of \<open>process_one\<close>, from the end of the child on.\<close>

definition finish_job :: "'r redis_data \<Rightarrow> text_codec \<Rightarrow> worker_env \<Rightarrow> string \<Rightarrow> int \<Rightarrow> worker_times \<Rightarrow> child_fate
    \<Rightarrow> string \<Rightarrow> agent_job \<Rightarrow> int \<Rightarrow> 'r \<Rightarrow> unit py \<times> 'r" where
  "finish_job K X W queue_name timeout t fate job_id job attempt r =
     (case child_outcome W timeout fate job attempt of
        Job_result result \<Rightarrow>
          (Inr (), update_status K X job_id Asucceeded False True (wt_finished t) (set_result K X job_id (JObj result) r))
      | Job_failed code message details \<Rightarrow> (Inr (), fail_job K X job_id code message details (wt_finished t) r)
      | Job_retry delay message details \<Rightarrow>
          (let r1 = set_error K X job_id ''retry_scheduled'' message details r;
               r2 = update_status K X job_id Aqueued False False 0 r1 in
           (Inr (), schedule_delayed K queue_name job_id delay (wt_scheduled t) r2))
      | Job_raises e \<Rightarrow> (Inl e, r))"

definition process_one :: "'r redis_data \<Rightarrow> text_codec \<Rightarrow> worker_env \<Rightarrow> string \<Rightarrow> string \<Rightarrow> int \<Rightarrow> worker_times \<Rightarrow> child_fate
    \<Rightarrow> 'r \<Rightarrow> bool py \<times> 'r" where
  "process_one K X W queue_name worker_id timeout t fate r =
     (case begin_job K X W queue_name worker_id t r of
        (Claim_idle, r1) \<Rightarrow> (Inr False, r1)
      | (Claim_dropped, r1) \<Rightarrow> (Inr True, r1)
      | (Claim_raised e, r1) \<Rightarrow> (Inl e, r1)
      | (Claim_running job_id job attempt, r1) \<Rightarrow>
          (case finish_job K X W queue_name timeout t fate job_id job attempt r1 of
             (Inl e, r2) \<Rightarrow> (Inl e, r2)
           | (Inr _, r2) \<Rightarrow> (Inr True, r2)))"

text \<open>
  One turn of the loop of \<open>main\<close>, with the pause before the next one in seconds: an exception is
  logged and the loop goes on after a second, an idle turn waits a fifth of one.
\<close>

definition worker_service_turn :: "'r redis_data \<Rightarrow> text_codec \<Rightarrow> worker_env \<Rightarrow> string \<Rightarrow> string \<Rightarrow> int \<Rightarrow> worker_times \<Rightarrow> child_fate
    \<Rightarrow> 'r \<Rightarrow> real \<times> 'r" where
  "worker_service_turn K X W queue_name worker_id timeout t fate r =
     (case process_one K X W queue_name worker_id timeout t fate r of
        (Inl e, r1) \<Rightarrow> (1, r1)
      | (Inr did, r1) \<Rightarrow> (if did then 0 else 2 / 10, r1))"

section \<open>A worker, one command at a time\<close>

text \<open>
  Where a worker stands with the job it holds: it has popped the job off the delayed set and not yet
  put it anywhere, or has taken it off the list, or has written its heartbeat, has read the record,
  has marked it as running, has counted the attempt and waits for the child, has stored the result or
  the error and not yet the final status, or has stored the error of a retry, or its status as well.
\<close>

datatype worker_phase =
    Wk_moving real real
  | Wk_taken
  | Wk_beat
  | Wk_read agent_job
  | Wk_marked agent_job
  | Wk_running agent_job int
  | Wk_ending agent_status
  | Wk_retrying real
  | Wk_delaying real

text \<open>
  The next command and what follows it: another phase, nothing when the worker lets go of the job, or an exception. The first
  phase is the turn of the loop of \<open>pump_delayed\<close>, at the time \<open>now\<close>, with the score it popped.
\<close>

fun worker_next :: "'r redis_data \<Rightarrow> text_codec \<Rightarrow> worker_env \<Rightarrow> string \<Rightarrow> string \<Rightarrow> int \<Rightarrow> worker_times \<Rightarrow> child_fate
    \<Rightarrow> string \<Rightarrow> worker_phase \<Rightarrow> 'r \<Rightarrow> worker_phase option py \<times> 'r" where
  "worker_next K X W queue_name worker_id timeout t fate job_id (Wk_moving now score) r =
     (Inr None, if score > now then rd_zadd K (delayed_key queue_name) job_id score r
                else rd_lpush K (queue_key queue_name) job_id r)"
| "worker_next K X W queue_name worker_id timeout t fate job_id Wk_taken r =
     (Inr (Some Wk_beat), write_heartbeat K W worker_id (Some job_id) r)"
| "worker_next K X W queue_name worker_id timeout t fate job_id Wk_beat r =
     (case get_job K X job_id r of
        Inl e \<Rightarrow> (Inl e, r)
      | Inr None \<Rightarrow> (Inr None, r)
      | Inr (Some job) \<Rightarrow> (Inr (Some (Wk_read job)), r))"
| "worker_next K X W queue_name worker_id timeout t fate job_id (Wk_read job) r =
     (if aj_cancel_requested job
      then (Inr None, update_status K X job_id Acancelled False True (wt_finished t) r)
      else (Inr (Some (Wk_marked job)), update_status K X job_id Arunning True False (wt_started t) r))"
| "worker_next K X W queue_name worker_id timeout t fate job_id (Wk_marked job) r =
     (case increment_attempts K job_id r of (attempt, r1) \<Rightarrow> (Inr (Some (Wk_running job attempt)), r1))"
| "worker_next K X W queue_name worker_id timeout t fate job_id (Wk_running job attempt) r =
     (case child_outcome W timeout fate job attempt of
        Job_result result \<Rightarrow> (Inr (Some (Wk_ending Asucceeded)), set_result K X job_id (JObj result) r)
      | Job_failed code message details \<Rightarrow> (Inr (Some (Wk_ending Afailed)), set_error K X job_id code message details r)
      | Job_retry delay message details \<Rightarrow>
          (Inr (Some (Wk_retrying delay)), set_error K X job_id ''retry_scheduled'' message details r)
      | Job_raises e \<Rightarrow> (Inl e, r))"
| "worker_next K X W queue_name worker_id timeout t fate job_id (Wk_ending status) r =
     (Inr None, update_status K X job_id status False True (wt_finished t) r)"
| "worker_next K X W queue_name worker_id timeout t fate job_id (Wk_retrying delay) r =
     (Inr (Some (Wk_delaying delay)), update_status K X job_id Aqueued False False 0 r)"
| "worker_next K X W queue_name worker_id timeout t fate job_id (Wk_delaying delay) r =
     (Inr None, schedule_delayed K queue_name job_id delay (wt_scheduled t) r)"

fun worker_runs :: "'r redis_data \<Rightarrow> text_codec \<Rightarrow> worker_env \<Rightarrow> string \<Rightarrow> string \<Rightarrow> int \<Rightarrow> worker_times \<Rightarrow> child_fate
    \<Rightarrow> string \<Rightarrow> nat \<Rightarrow> worker_phase \<Rightarrow> 'r \<Rightarrow> worker_phase option py \<times> 'r" where
  "worker_runs K X W q worker timeout t fate a 0 ph r = (Inr (Some ph), r)"
| "worker_runs K X W q worker timeout t fate a (Suc n) ph r =
     (case worker_next K X W q worker timeout t fate a ph r of
        (Inr (Some ph1), r1) \<Rightarrow> worker_runs K X W q worker timeout t fate a n ph1 r1
      | res \<Rightarrow> res)"

text \<open>The two phases of \<open>process_one\<close> and the turns of the pump are these commands, in this order.\<close>

fun claim_phase :: "worker_claim \<Rightarrow> worker_phase option py" where
  "claim_phase (Claim_raised e) = Inl e"
| "claim_phase (Claim_running job_id job attempt) = Inr (Some (Wk_running job attempt))"
| "claim_phase _ = Inr None"

lemma finish_job_commands:
  "worker_runs K X W q worker timeout t fate a 3 (Wk_running job attempt) r =
     (case finish_job K X W q timeout t fate a job attempt r of (res, r1) \<Rightarrow> (py_bind res (\<lambda>_. Inr None), r1))"
  by (simp add: finish_job_def fail_job_def Let_def numeral_3_eq_3 split: job_outcome.split)

lemma begin_job_commands:
  assumes "dequeue K q (snd (pump_delayed K q 100 (wt_pump t) r)) = (Some a, r1)" and "a \<noteq> []"
  shows "worker_runs K X W q worker timeout t fate a 4 Wk_taken r1 =
    (case begin_job K X W q worker t r of (c, r2) \<Rightarrow> (claim_phase c, r2))"
  using assms
  by (auto simp: begin_job_def or_str_def Let_def eval_nat_numeral split: sum.split option.split prod.split)

lemma pump_turn_commands:
  assumes "rd_zpopmin K (delayed_key q) r = (Some (a, score), r1)"
  shows "pump_loop K (delayed_key q) (queue_key q) now (Suc n) r =
    (let r2 = snd (worker_next K X W q worker timeout t fate a (Wk_moving now score) r1) in
     if score > now then (0, r2) else (case pump_loop K (delayed_key q) (queue_key q) now n r2 of (moved, r3) \<Rightarrow> (moved + 1, r3)))"
  using assms by (simp add: Let_def)

section \<open>The jobs while several workers run\<close>

text \<open>
  The system is the server, the submissions that have written their record and not yet queued it, the
  requests to cancel that have read their job and not yet marked it, and the jobs that workers hold,
  each with its phase. A step is one command of Redis, or one transaction. The jobs are those of one
  queue and are not routed to the sandbox, which is off unless \<open>SYNQC_AGENT_GROVER_URL\<close> is set; a
  worker that is killed and a connection that fails while a job is held are not steps.
\<close>

record 'r agent_sys =
  sy_redis :: 'r
  sy_new :: "string list"
  sy_cancels :: "string list"
  sy_held :: "(string, worker_phase) dict"

definition agents_init :: "'r \<Rightarrow> 'r agent_sys" where
  "agents_init r = \<lparr>sy_redis = r, sy_new = [], sy_cancels = [], sy_held = []\<rparr>"

datatype agent_event =
    Ev_create string
  | Ev_enqueue string
  | Ev_ask string
  | Ev_cancel string
  | Ev_idle
  | Ev_move string
  | Ev_take string
  | Ev_work string
  | Ev_crash string

text \<open>The jobs held after a command on one of them.\<close>

definition held_after :: "string \<Rightarrow> worker_phase option \<Rightarrow> (string, worker_phase) dict \<Rightarrow> (string, worker_phase) dict" where
  "held_after a res held = (case res of None \<Rightarrow> dict_pop a held | Some ph \<Rightarrow> dict_set a ph held)"

definition results_read_back :: "text_codec \<Rightarrow> worker_env \<Rightarrow> worker_phase \<Rightarrow> bool" where
  "results_read_back X W ph =
     (case ph of
        Wk_running job attempt \<Rightarrow>
          (case run_agent_in_subprocess W (aj_agent job) (aj_run_input job) of Inr res \<Rightarrow> json_reads_back X (JObj res) | Inl _ \<Rightarrow> True)
      | _ \<Rightarrow> True)"

inductive agent_step :: "'r redis_data \<Rightarrow> text_codec \<Rightarrow> worker_env \<Rightarrow> string \<Rightarrow> 'r agent_sys \<Rightarrow> agent_event \<Rightarrow> 'r agent_sys \<Rightarrow> bool"
  for K X W q where
  step_create: "jid \<noteq> [] \<Longrightarrow> rd_hgetall K (job_key jid) (sy_redis s) = [] \<Longrightarrow>
    float_reads_back X now \<Longrightarrow> json_reads_back X (JObj i) \<Longrightarrow> m \<le> 1025 \<Longrightarrow>
    agent_step K X W q s (Ev_create jid)
      (s\<lparr>sy_redis := create_record K X jid now agent i ikey m ttl ikey_ttl (sy_redis s), sy_new := jid # sy_new s\<rparr>)"
| step_enqueue: "jid \<in> set (sy_new s) \<Longrightarrow>
    agent_step K X W q s (Ev_enqueue jid)
      (s\<lparr>sy_redis := enqueue_ready K q jid (sy_redis s), sy_new := remove1 jid (sy_new s)\<rparr>)"
| step_ask: "get_job K X jid (sy_redis s) = Inr (Some j) \<Longrightarrow>
    agent_step K X W q s (Ev_ask jid) (s\<lparr>sy_cancels := jid # sy_cancels s\<rparr>)"
| step_cancel: "jid \<in> set (sy_cancels s) \<Longrightarrow>
    agent_step K X W q s (Ev_cancel jid)
      (s\<lparr>sy_redis := request_cancel K jid (sy_redis s), sy_cancels := remove1 jid (sy_cancels s)\<rparr>)"
| step_idle: "agent_step K X W q s Ev_idle (s\<lparr>sy_redis := write_heartbeat K W worker None (sy_redis s)\<rparr>)"
| step_move: "rd_zpopmin K (delayed_key q) (sy_redis s) = (Some (jid, score), r) \<Longrightarrow>
    agent_step K X W q s (Ev_move jid) (s\<lparr>sy_redis := r, sy_held := (jid, Wk_moving now score) # sy_held s\<rparr>)"
| step_take: "dequeue K q (sy_redis s) = (Some jid, r) \<Longrightarrow>
    agent_step K X W q s (Ev_take jid) (s\<lparr>sy_redis := r, sy_held := (jid, Wk_taken) # sy_held s\<rparr>)"
| step_work: "dict_get (sy_held s) jid = Some ph \<Longrightarrow> results_read_back X W ph \<Longrightarrow>
    worker_next K X W q worker timeout t fate jid ph (sy_redis s) = (Inr res, r) \<Longrightarrow>
    agent_step K X W q s (Ev_work jid) (s\<lparr>sy_redis := r, sy_held := held_after jid res (sy_held s)\<rparr>)"
| step_crash: "dict_get (sy_held s) jid = Some ph \<Longrightarrow> results_read_back X W ph \<Longrightarrow>
    worker_next K X W q worker timeout t fate jid ph (sy_redis s) = (Inl e, r) \<Longrightarrow>
    agent_step K X W q s (Ev_crash jid) (s\<lparr>sy_redis := r, sy_held := dict_pop jid (sy_held s)\<rparr>)"

inductive_cases agent_stepE: "agent_step K X W q s e s'"

text \<open>A record in order: it reads, its attempts are within the limit.\<close>

definition attempt_limit :: "int \<Rightarrow> int" where
  "attempt_limit m = max 1 (or_int (Some m) 3)"

definition job_sound :: "text_codec \<Rightarrow> string \<Rightarrow> job_hash \<Rightarrow> agent_job \<Rightarrow> bool" where
  "job_sound X jid h j =
     (jid \<noteq> [] \<and> reads_job X jid h j \<and> h ''attempts'' = Some (py_str_int (aj_attempts j)) \<and>
      0 \<le> aj_attempts j \<and> aj_attempts j \<le> attempt_limit (aj_max_attempts j) \<and>
      attempt_limit (aj_max_attempts j) \<le> 1025)"

definition attempts_left :: "agent_job \<Rightarrow> bool" where
  "attempts_left j = (aj_attempts j < attempt_limit (aj_max_attempts j))"

text \<open>The phases in which the record still says, or says again, that the job is queued.\<close>

fun queued_phase :: "worker_phase \<Rightarrow> bool" where
  "queued_phase (Wk_moving now score) = True"
| "queued_phase Wk_taken = True"
| "queued_phase Wk_beat = True"
| "queued_phase (Wk_read job) = True"
| "queued_phase (Wk_delaying delay) = True"
| "queued_phase ph = False"

fun phase_fits :: "worker_phase \<Rightarrow> agent_job \<Rightarrow> bool" where
  "phase_fits (Wk_read job) j = (aj_max_attempts job = aj_max_attempts j \<and> attempts_left j)"
| "phase_fits (Wk_marked job) j = (aj_max_attempts job = aj_max_attempts j \<and> attempts_left j)"
| "phase_fits (Wk_running job attempt) j = (attempt = aj_attempts j \<and> aj_max_attempts job = aj_max_attempts j)"
| "phase_fits (Wk_ending status) j = (status \<in> {Asucceeded, Afailed})"
| "phase_fits ph j = attempts_left j"

text \<open>
  A job is queued exactly when it waits or a worker holds it in such a phase, and running exactly
  when a worker holds it in another one.
\<close>

definition held_queued :: "worker_phase option \<Rightarrow> bool" where
  "held_queued held = (case held of None \<Rightarrow> False | Some ph \<Rightarrow> queued_phase ph)"

definition job_fits :: "agent_job \<Rightarrow> bool \<Rightarrow> worker_phase option \<Rightarrow> bool" where
  "job_fits j waits held =
     ((aj_status j = Aqueued \<longleftrightarrow> waits \<or> held_queued held) \<and>
      (aj_status j = Arunning \<longleftrightarrow> held \<noteq> None \<and> \<not> held_queued held) \<and>
      (waits \<longrightarrow> attempts_left j) \<and> (case held of None \<Rightarrow> True | Some ph \<Rightarrow> phase_fits ph j))"

definition job_placed :: "text_codec \<Rightarrow> string \<Rightarrow> job_hash \<Rightarrow> bool \<Rightarrow> worker_phase option \<Rightarrow> bool" where
  "job_placed X jid h waits held =
     (if h = Map.empty then \<not> waits \<and> held = None
      else \<exists>j. job_sound X jid h j \<and> job_fits j waits held)"

definition ready_list :: "redis_view \<Rightarrow> string \<Rightarrow> string list" where
  "ready_list v q = rv_list v (queue_key q)"

definition delayed_set :: "redis_view \<Rightarrow> string \<Rightarrow> string set" where
  "delayed_set v q = dom (rv_zset v (delayed_key q))"

definition waits_in :: "redis_view \<Rightarrow> string \<Rightarrow> string list \<Rightarrow> string \<Rightarrow> bool" where
  "waits_in v q new a = (a \<in> set new \<or> a \<in> set (ready_list v q) \<or> a \<in> delayed_set v q)"

definition places_apart :: "redis_view \<Rightarrow> string \<Rightarrow> string list \<Rightarrow> (string, worker_phase) dict \<Rightarrow> bool" where
  "places_apart v q new held =
     (distinct (new @ ready_list v q @ dict_keys held) \<and>
      set (new @ ready_list v q @ dict_keys held) \<inter> delayed_set v q = {})"

definition agent_ok :: "('r \<Rightarrow> redis_view) \<Rightarrow> text_codec \<Rightarrow> string \<Rightarrow> 'r agent_sys \<Rightarrow> bool" where
  "agent_ok V X q s =
     (places_apart (V (sy_redis s)) q (sy_new s) (sy_held s) \<and>
      (\<forall>a. job_placed X a (job_in (V (sy_redis s)) a) (waits_in (V (sy_redis s)) q (sy_new s) a) (dict_get (sy_held s) a)) \<and>
      (\<forall>a \<in> set (sy_cancels s). job_in (V (sy_redis s)) a \<noteq> Map.empty))"

lemma field_simps_reads: "reads_job X jid h j \<Longrightarrow> h \<noteq> Map.empty"
  by (simp add: reads_job_def)

lemma reads_times:
  assumes "reads_job X jid h j"
  shows "reads_job X jid (h(''started_at_unix'' \<mapsto> t)) (j\<lparr>aj_started_at_unix := parse_float X t\<rparr>)"
    and "reads_job X jid (h(''finished_at_unix'' \<mapsto> t)) (j\<lparr>aj_finished_at_unix := parse_float X t\<rparr>)"
    and "reads_job X jid (h(''error_json'' \<mapsto> t)) (j\<lparr>aj_error := stored_error X (h(''error_json'' \<mapsto> t))\<rparr>)"
  using assms by (auto simp: reads_job_fields job_simps text_field_def stored_result_def stored_error_def)

lemma reads_other:
  assumes "reads_job X jid h j" and "k \<in> {''started_at_unix'', ''finished_at_unix'', ''error_json''}"
  shows "\<exists>j'. reads_job X jid (h(k \<mapsto> t)) j' \<and> aj_status j' = aj_status j \<and> aj_attempts j' = aj_attempts j \<and>
      aj_max_attempts j' = aj_max_attempts j"
proof -
  from assms(2) consider "k = ''started_at_unix''" | "k = ''finished_at_unix''" | "k = ''error_json''" by blast
  then show ?thesis
  proof cases
    case 1
    then show ?thesis using reads_times(1) [OF assms(1), of t]
      by (intro exI [of _ "j\<lparr>aj_started_at_unix := parse_float X t\<rparr>"]) simp
  next
    case 2
    then show ?thesis using reads_times(2) [OF assms(1), of t]
      by (intro exI [of _ "j\<lparr>aj_finished_at_unix := parse_float X t\<rparr>"]) simp
  next
    case 3
    then show ?thesis using reads_times(3) [OF assms(1), of t]
      by (intro exI [of _ "j\<lparr>aj_error := stored_error X (h(''error_json'' \<mapsto> t))\<rparr>"]) simp
  qed
qed

lemma sound_other:
  assumes "job_sound X jid h j" and "k \<in> {''started_at_unix'', ''finished_at_unix'', ''error_json''}"
  shows "\<exists>j'. job_sound X jid (h(k \<mapsto> t)) j' \<and> aj_status j' = aj_status j \<and> aj_attempts j' = aj_attempts j \<and>
    aj_max_attempts j' = aj_max_attempts j"
proof -
  from assms(1) have "reads_job X jid h j" by (simp add: job_sound_def)
  from reads_other [OF this assms(2), of t] obtain j' where "reads_job X jid (h(k \<mapsto> t)) j'" "aj_status j' = aj_status j"
    "aj_attempts j' = aj_attempts j" "aj_max_attempts j' = aj_max_attempts j" by blast
  moreover have "(h(k \<mapsto> t)) ''attempts'' = h ''attempts''" using assms(2) by auto
  ultimately show ?thesis using assms(1) unfolding job_sound_def by metis
qed

lemma sound_status:
  assumes "job_sound X jid h j"
  shows "job_sound X jid (h(''status'' \<mapsto> agent_status_value s)) (j\<lparr>aj_status := s\<rparr>)"
  using assms reads_status [of X jid h j s] by (simp add: job_sound_def)

lemma sound_status_fields:
  assumes "job_sound X jid h j"
  shows "\<exists>j'. job_sound X jid (status_fields X s started finished now h) j' \<and> aj_status j' = s \<and>
    aj_attempts j' = aj_attempts j \<and> aj_max_attempts j' = aj_max_attempts j"
proof -
  let ?P = "\<lambda>h. \<exists>j'. job_sound X jid h j' \<and> aj_status j' = s \<and> aj_attempts j' = aj_attempts j \<and>
    aj_max_attempts j' = aj_max_attempts j"
  let ?h1 = "h(''status'' \<mapsto> agent_status_value s)"
  have keep: "?P (g(k \<mapsto> t))" if "?P g" "k \<in> {''started_at_unix'', ''finished_at_unix''}" for g k t
    using that sound_other [of X jid g _ k t] by fastforce
  have 1: "?P ?h1" using sound_status [OF assms, of s] by fastforce
  then have 2: "?P (if started then ?h1(''started_at_unix'' \<mapsto> tx_str X now) else ?h1)"
    using keep [OF 1, of "''started_at_unix''" "tx_str X now"] by (cases started) simp_all
  show ?thesis
    using 2 keep [OF 2, of "''finished_at_unix''" "tx_str X now"]
    unfolding status_fields_def Let_def by (cases finished) simp_all
qed

lemma sound_result:
  assumes "job_sound X jid h j" and "json_reads_back X (JObj d)"
  shows "job_sound X jid (h(''result_json'' \<mapsto> tx_dumps X (JObj d))) (j\<lparr>aj_result := Some d\<rparr>)"
  using assms reads_result [of X jid h j d] by (simp add: job_sound_def)

lemma sound_cancel:
  assumes "job_sound X jid h j"
  shows "job_sound X jid (h(''cancel_requested'' \<mapsto> ''1'')) (j\<lparr>aj_cancel_requested := True\<rparr>)"
  using assms reads_cancel [of X jid h j] by (simp add: job_sound_def)

lemma sound_attempts:
  assumes "job_sound X jid h j" and "0 \<le> n" and "n \<le> attempt_limit (aj_max_attempts j)"
  shows "job_sound X jid (h(''attempts'' \<mapsto> py_str_int n)) (j\<lparr>aj_attempts := n\<rparr>)"
  using assms reads_attempts [of X jid h j n] by (simp add: job_sound_def)

lemma sound_unique: "job_sound X jid h j \<Longrightarrow> reads_job X jid h j' \<Longrightarrow> j' = j"
  by (simp add: job_sound_def reads_job_def)

subsection \<open>The invariant after a step\<close>

lemma agent_okD:
  assumes "agent_ok V X q s"
  shows "places_apart (V (sy_redis s)) q (sy_new s) (sy_held s)"
    and "job_placed X a (job_in (V (sy_redis s)) a) (waits_in (V (sy_redis s)) q (sy_new s) a) (dict_get (sy_held s) a)"
    and "a \<in> set (sy_cancels s) \<Longrightarrow> job_in (V (sy_redis s)) a \<noteq> Map.empty"
  using assms by (simp_all add: agent_ok_def)

lemma placed_job:
  assumes "job_placed X a h w held" and "h \<noteq> Map.empty"
  obtains j where "job_sound X a h j" and "job_fits j w held"
  using assms unfolding job_placed_def by auto

lemma placed_present: "job_placed X a h w held \<Longrightarrow> w \<or> held \<noteq> None \<Longrightarrow> h \<noteq> Map.empty"
  by (auto simp: job_placed_def)

lemma sound_present: "job_sound X a h j \<Longrightarrow> h \<noteq> Map.empty"
  by (simp add: job_sound_def reads_job_def)

lemma placedI: "job_sound X a h j \<Longrightarrow> job_fits j w held \<Longrightarrow> job_placed X a h w held"
  unfolding job_placed_def by (auto simp: job_sound_def reads_job_def)

text \<open>A step shows that the places stay apart, and places the one job it touches; the others are as before.\<close>

lemma agent_ok_change:
  assumes ok: "agent_ok V X q s" and "places_apart (V (sy_redis s')) q (sy_new s') (sy_held s')"
    and p: "job_sound X a (job_in (V (sy_redis s')) a) k"
      "job_fits k (waits_in (V (sy_redis s')) q (sy_new s') a) (dict_get (sy_held s') a)"
    and "\<And>b. b \<noteq> a \<Longrightarrow> job_in (V (sy_redis s')) b = job_in (V (sy_redis s)) b"
    and "\<And>b. b \<noteq> a \<Longrightarrow> waits_in (V (sy_redis s')) q (sy_new s') b = waits_in (V (sy_redis s)) q (sy_new s) b"
    and "\<And>b. b \<noteq> a \<Longrightarrow> dict_get (sy_held s') b = dict_get (sy_held s) b"
    and "set (sy_cancels s') \<subseteq> insert a (set (sy_cancels s))"
  shows "agent_ok V X q s'"
  unfolding agent_ok_def
proof (intro conjI allI ballI)
  fix b
  show "job_placed X b (job_in (V (sy_redis s')) b) (waits_in (V (sy_redis s')) q (sy_new s') b) (dict_get (sy_held s') b)"
    using agent_okD(2) [OF ok, of b] assms(5-7) placedI [OF p] by (cases "b = a") simp_all
next
  fix b
  assume "b \<in> set (sy_cancels s')"
  then show "job_in (V (sy_redis s')) b \<noteq> Map.empty"
    using assms(5) [of b] assms(8) sound_present [OF p(1)] agent_okD(3) [OF ok, of b] by (cases "b = a") auto
qed (rule assms(2))

text \<open>Nor does a step that touches no job.\<close>

lemma agent_ok_same:
  assumes ok: "agent_ok V X q s" and "\<And>b. job_in (V (sy_redis s')) b = job_in (V (sy_redis s)) b"
    and "ready_list (V (sy_redis s')) q = ready_list (V (sy_redis s)) q" "delayed_set (V (sy_redis s')) q = delayed_set (V (sy_redis s)) q"
    and "sy_new s' = sy_new s" "sy_held s' = sy_held s"
    and "\<And>b. b \<in> set (sy_cancels s') \<Longrightarrow> job_in (V (sy_redis s)) b \<noteq> Map.empty"
  shows "agent_ok V X q s'"
  using ok unfolding agent_ok_def by (simp add: assms(2-7) places_apart_def waits_in_def)

lemma job_fits_same:
  "job_fits j w held \<Longrightarrow> aj_status j' = aj_status j \<Longrightarrow> aj_attempts j' = aj_attempts j \<Longrightarrow>
   aj_max_attempts j' = aj_max_attempts j \<Longrightarrow> job_fits j' w held"
  unfolding job_fits_def attempts_left_def by (cases held) (simp, cases "the held", auto simp: attempts_left_def)

subsection \<open>Submissions and cancellations\<close>

lemma ready_simps [job_simps]:
  "ready_list (put_job v a h) q = ready_list v q" "delayed_set (put_job v a h) q = delayed_set v q"
  "waits_in (put_job v a h) q new b = waits_in v q new b"
  "places_apart (put_job v a h) q new busy = places_apart v q new busy"
  by (simp_all add: ready_list_def delayed_set_def waits_in_def places_apart_def put_job_simps)

lemma record_view:
  assumes L: "redis_laws K V" and e: "job_in (V r) a = Map.empty"
  shows "rv_list (V (create_record K X a now agent i ikey m ttl ikey_ttl r)) = rv_list (V r)"
    and "rv_zset (V (create_record K X a now agent i ikey m ttl ikey_ttl r)) = rv_zset (V r)"
    and "job_in (V (create_record K X a now agent i ikey m ttl ikey_ttl r)) b = (if b = a then new_hash X agent now m i else job_in (V r) b)"
proof -
  have e': "rv_hash (V r) (job_key a) = Map.empty" using e by (simp add: job_in_def)
  show "rv_list (V (create_record K X a now agent i ikey m ttl ikey_ttl r)) = rv_list (V r)"
    and "rv_zset (V (create_record K X a now agent i ikey m ttl ikey_ttl r)) = rv_zset (V r)"
    and "job_in (V (create_record K X a now agent i ikey m ttl ikey_ttl r)) b = (if b = a then new_hash X agent now m i else job_in (V r) b)"
    by (simp_all add: create_record_def Let_def redis_string_simps [OF L] redis_hash_simps [OF L] new_hash_rev e' job_in_def)
qed

lemma create_view:
  assumes L: "redis_laws K V" and c: "create_job K X a now agent i ikey m ttl ikey_ttl r0 = ((a, False), r)"
    and e: "job_in (V r0) a = Map.empty"
  shows "rv_list (V r) = rv_list (V r0)" and "rv_zset (V r) = rv_zset (V r0)"
    and "job_in (V r) b = (if b = a then new_hash X agent now m i else job_in (V r0) b)"
proof -
  have "r = create_record K X a now agent i ikey m ttl ikey_ttl r0"
    using c by (auto simp: create_job_def Let_def split: if_splits)
  then show "rv_list (V r) = rv_list (V r0)" and "rv_zset (V r) = rv_zset (V r0)"
    and "job_in (V r) b = (if b = a then new_hash X agent now m i else job_in (V r0) b)"
    using record_view [OF L e] by simp_all
qed

lemma create_step_ok:
  assumes L: "redis_laws K V" and ok: "agent_ok V X q s"
    and a: "a \<noteq> []" "rd_hgetall K (job_key a) (sy_redis s) = []"
    and t: "float_reads_back X now" "json_reads_back X (JObj i)" "m \<le> 1025"
  shows "agent_ok V X q (s\<lparr>sy_redis := create_record K X a now agent i ikey m ttl ikey_ttl (sy_redis s), sy_new := a # sy_new s\<rparr>)"
proof -
  let ?v = "V (sy_redis s)" and ?r = "create_record K X a now agent i ikey m ttl ikey_ttl (sy_redis s)"
  have e: "job_in ?v a = Map.empty"
    using a(2) by (simp add: redis_hgetall_empty [OF L] job_in_def)
  note v = record_view [OF L e, where X = X and now = now and agent = agent and i = i and ikey = ikey and m = m and ttl = ttl and ikey_ttl = ikey_ttl]
  have w: "ready_list (V ?r) q = ready_list ?v q" "delayed_set (V ?r) q = delayed_set ?v q"
    by (simp_all add: ready_list_def delayed_set_def v)
  have out: "\<not> waits_in ?v q (sy_new s) a" "a \<notin> set (dict_keys (sy_held s))"
    using agent_okD(2) [OF ok, of a] e by (simp_all add: job_placed_def map_of_eq_None_iff)
  have "job_sound X a (new_hash X agent now m i) (fresh_job a agent now m i)"
    using new_hash_reads [OF t(1,2), of a agent m] a(1) t(3)
    by (auto simp: job_sound_def fresh_job_def attempt_limit_def or_int_def new_hash_def job_fields_def)
  moreover have "job_fits (fresh_job a agent now m i) True None"
    by (auto simp: job_fits_def held_queued_def attempts_left_def fresh_job_def attempt_limit_def)
  ultimately show ?thesis
    using agent_okD(1) [OF ok] out v w
    by (intro agent_ok_change [OF ok, where a = a and k = "fresh_job a agent now m i"])
       (auto simp: places_apart_def waits_in_def map_of_eq_None_iff [THEN iffD2])
qed

lemma enqueue_step_ok:
  assumes L: "redis_laws K V" and ok: "agent_ok V X q s" and a: "a \<in> set (sy_new s)"
  shows "agent_ok V X q (s\<lparr>sy_redis := enqueue_ready K q a (sy_redis s), sy_new := remove1 a (sy_new s)\<rparr>)"
proof -
  let ?v = "V (sy_redis s)" and ?v' = "V (enqueue_ready K q a (sy_redis s))"
  have v: "?v' = ?v\<lparr>rv_list := (rv_list ?v)(queue_key q := a # rv_list ?v (queue_key q))\<rparr>"
    by (simp add: enqueue_ready_def redis_simps L)
  have w: "ready_list ?v' q = a # ready_list ?v q" "delayed_set ?v' q = delayed_set ?v q" "\<And>b. job_in ?v' b = job_in ?v b"
    by (simp_all add: v ready_list_def delayed_set_def job_simps)
  have apart: "places_apart ?v q (sy_new s) (sy_held s)" by (rule agent_okD(1) [OF ok])
  have d: "distinct (sy_new s)" using apart by (simp add: places_apart_def)
  have same: "waits_in ?v' q (remove1 a (sy_new s)) b = waits_in ?v q (sy_new s) b" for b
    using a d by (auto simp: waits_in_def w)
  have "places_apart ?v' q (remove1 a (sy_new s)) (sy_held s)"
    using apart a d by (auto simp: places_apart_def w)
  then show ?thesis using ok by (simp add: agent_ok_def same w(3))
qed

lemma cancel_step_ok:
  assumes L: "redis_laws K V" and ok: "agent_ok V X q s" and a: "a \<in> set (sy_cancels s)"
  shows "agent_ok V X q (s\<lparr>sy_redis := request_cancel K a (sy_redis s), sy_cancels := remove1 a (sy_cancels s)\<rparr>)"
proof -
  let ?v = "V (sy_redis s)"
  from placed_job [OF agent_okD(2) [OF ok, of a] agent_okD(3) [OF ok a]] obtain k where k: "job_sound X a (job_in ?v a) k"
    "job_fits k (waits_in ?v q (sy_new s) a) (dict_get (sy_held s) a)" .
  have "job_fits (k\<lparr>aj_cancel_requested := True\<rparr>) (waits_in ?v q (sy_new s) a) (dict_get (sy_held s) a)"
    by (rule job_fits_same [OF k(2)]) simp_all
  then show ?thesis
    using agent_okD(1) [OF ok] sound_cancel [OF k(1)] set_remove1_subset [of a "sy_cancels s"]
    by (intro agent_ok_change [OF ok, where a = a and k = "k\<lparr>aj_cancel_requested := True\<rparr>"])
      (simp_all add: request_cancel_view [OF L] job_simps, blast)
qed

subsection \<open>Taking a job\<close>

lemma heartbeat_view [job_simps]:
  assumes "redis_laws K V"
  shows "V (write_heartbeat K W worker c r) =
    (V r)\<lparr>rv_string := (rv_string (V r))(heartbeat_key worker \<mapsto> we_payload W c)\<rparr>"
  using assms by (simp add: write_heartbeat_def redis_simps)

lemma string_upd_simps [job_simps]:
  "ready_list (v\<lparr>rv_string := x\<rparr>) q = ready_list v q" "delayed_set (v\<lparr>rv_string := x\<rparr>) q = delayed_set v q"
  "waits_in (v\<lparr>rv_string := x\<rparr>) q new b = waits_in v q new b"
  "places_apart (v\<lparr>rv_string := x\<rparr>) q new busy = places_apart v q new busy"
  by (simp_all add: ready_list_def delayed_set_def waits_in_def places_apart_def)

text \<open>A worker takes a job from the end of the list or off the delayed set.\<close>

definition grabs :: "redis_view \<Rightarrow> string \<Rightarrow> string \<Rightarrow> redis_view \<Rightarrow> bool" where
  "grabs v q a v' =
     ((\<forall>b. job_in v' b = job_in v b) \<and>
      (ready_list v q = ready_list v' q @ [a] \<and> delayed_set v' q = delayed_set v q \<or>
       a \<in> delayed_set v q \<and> ready_list v' q = ready_list v q \<and> delayed_set v' q = delayed_set v q - {a}))"

lemma dequeue_grabs:
  assumes L: "redis_laws K V" and d: "dequeue K q r0 = (Some a, r)"
  shows "grabs (V r0) q a (V r)"
proof -
  let ?l = "rv_list (V r0) (queue_key q)"
  have ne: "?l \<noteq> []" using d by (auto simp: dequeue_def redis_list_simps [OF L])
  have "a = last ?l" "V r = (V r0)\<lparr>rv_list := (rv_list (V r0))(queue_key q := butlast ?l)\<rparr>"
    using d redis_list_simps(8,10) [OF L ne] by (simp_all add: dequeue_def)
  then show ?thesis using ne by (simp add: grabs_def ready_list_def delayed_set_def job_simps)
qed

lemma zpopmin_grabs:
  assumes L: "redis_laws K V" and d: "rd_zpopmin K (delayed_key q) r0 = (Some (a, x), r)"
  shows "grabs (V r0) q a (V r)"
proof -
  let ?z = "rv_zset (V r0) (delayed_key q)"
  have ne: "?z \<noteq> Map.empty"
  proof
    assume "?z = Map.empty"
    from redis_zset_simps(4) [OF L this] d show False by simp
  qed
  from redis_zpopmin [OF L ne] d have z: "?z a = Some x"
      "V r = (V r0)\<lparr>rv_zset := (rv_zset (V r0))(delayed_key q := ?z(a := None))\<rparr>"
    by (metis Pair_inject option.inject)+
  then show ?thesis by (auto simp: grabs_def ready_list_def delayed_set_def job_simps)
qed

lemma grabbed_ok:
  assumes ok: "agent_ok V X q s" and g: "grabs (V (sy_redis s)) q a (V r)"
    and ph: "queued_phase ph" "\<And>j. attempts_left j \<Longrightarrow> phase_fits ph j"
  shows "agent_ok V X q (s\<lparr>sy_redis := r, sy_held := (a, ph) # sy_held s\<rparr>)"
    and "waits_in (V (sy_redis s)) q (sy_new s) a"
    and "b \<noteq> a \<Longrightarrow> waits_in (V r) q (sy_new s) b = waits_in (V (sy_redis s)) q (sy_new s) b"
proof -
  let ?v = "V (sy_redis s)" and ?R = "ready_list (V (sy_redis s)) q" and ?D = "delayed_set (V (sy_redis s)) q"
  let ?R' = "ready_list (V r) q" and ?D' = "delayed_set (V r) q"
  have j: "job_in (V r) b = job_in ?v b" for b using g by (simp add: grabs_def)
  have places: "?R = ?R' @ [a] \<and> ?D' = ?D \<or> a \<in> ?D \<and> ?R' = ?R \<and> ?D' = ?D - {a}" using g by (simp add: grabs_def)
  define H where "H = dict_keys (sy_held s)"
  have apart: "distinct (sy_new s @ ?R @ H)" "set (sy_new s @ ?R @ H) \<inter> ?D = {}"
    using agent_okD(1) [OF ok] by (simp_all add: places_apart_def H_def)
  show w: "waits_in ?v q (sy_new s) a" using places by (auto simp: waits_in_def)
  have aH: "a \<notin> set H" "a \<notin> set (sy_new s)" "a \<notin> set ?R'" "a \<notin> ?D'" using places apart by auto
  have apart': "places_apart (V r) q (sy_new s) ((a, ph) # sy_held s)"
    unfolding places_apart_def list.map fst_conv H_def [symmetric] using places apart aH by auto
  have others: "waits_in (V r) q (sy_new s) b = waits_in ?v q (sy_new s) b" if "b \<noteq> a" for b
    using places
  proof (elim disjE conjE)
    assume e: "?R = ?R' @ [a]" "?D' = ?D"
    show ?thesis by (simp add: waits_in_def e that)
  next
    assume e: "?R' = ?R" "?D' = ?D - {a}"
    show ?thesis by (simp add: waits_in_def e that)
  qed
  show "b \<noteq> a \<Longrightarrow> waits_in (V r) q (sy_new s) b = waits_in ?v q (sy_new s) b" by (rule others)
  have none: "dict_get (sy_held s) a = None" using aH(1) by (simp add: H_def map_of_eq_None_iff)
  note p = agent_okD(2) [OF ok, of a]
  from placed_job [OF p placed_present [OF p]] w obtain k where k: "job_sound X a (job_in ?v a) k"
      "job_fits k True None" by (auto simp: none)
  have "\<not> waits_in (V r) q (sy_new s) a" using aH by (simp add: waits_in_def)
  then have "job_fits k (waits_in (V r) q (sy_new s) a) (Some ph)"
    using k(2) ph by (simp add: job_fits_def held_queued_def)
  then show "agent_ok V X q (s\<lparr>sy_redis := r, sy_held := (a, ph) # sy_held s\<rparr>)"
    using apart' others k(1) j by (intro agent_ok_change [OF ok, where a = a and k = k]) (simp_all add: subset_insertI)
qed

subsection \<open>A command of a worker\<close>

text \<open>The command may change the record of the held job, and put it back when the worker lets go of it.\<close>

definition works :: "redis_view \<Rightarrow> string \<Rightarrow> string \<Rightarrow> bool \<Rightarrow> redis_view \<Rightarrow> bool" where
  "works v q a again v' =
     ((\<forall>b. b \<noteq> a \<longrightarrow> job_in v' b = job_in v b) \<and>
      (if again then ready_list v' q = a # ready_list v q \<and> delayed_set v' q = delayed_set v q \<or>
         ready_list v' q = ready_list v q \<and> delayed_set v' q = insert a (delayed_set v q)
       else ready_list v' q = ready_list v q \<and> delayed_set v' q = delayed_set v q))"

lemma worked_ok:
  assumes ok: "agent_ok V X q s" and held: "dict_get (sy_held s) a = Some ph"
    and w: "works (V (sy_redis s)) q a again (V r)" and again: "again \<Longrightarrow> res = None"
    and p: "job_sound X a (job_in (V r) a) k" "job_fits k again res"
  shows "agent_ok V X q (s\<lparr>sy_redis := r, sy_held := held_after a res (sy_held s)\<rparr>)"
    and "b \<noteq> a \<Longrightarrow> job_in (V r) b = job_in (V (sy_redis s)) b"
    and "b \<noteq> a \<Longrightarrow> waits_in (V r) q (sy_new s) b = waits_in (V (sy_redis s)) q (sy_new s) b"
proof -
  let ?v = "V (sy_redis s)" and ?R = "ready_list (V (sy_redis s)) q" and ?D = "delayed_set (V (sy_redis s)) q"
  define H where "H = dict_keys (sy_held s)"
  define H' where "H' = dict_keys (held_after a res (sy_held s))"
  have aH: "a \<in> set H" using held unfolding H_def by (force dest: map_of_SomeD)
  have apart: "distinct (sy_new s @ ?R @ H)" "set (sy_new s @ ?R @ H) \<inter> ?D = {}"
    using agent_okD(1) [OF ok] by (simp_all add: places_apart_def H_def)
  then have H: "distinct H" by simp
  have H': "if res = None then distinct H' \<and> a \<notin> set H' \<and> set H' \<subseteq> set H else H' = H"
  proof (cases res)
    case None
    have "distinct H'" "a \<notin> set H'" "set H' \<subseteq> set H"
      using H by (auto simp: None H'_def H_def held_after_def pop_conv_filter distinct_map_filter)
    then show ?thesis using None by simp
  next
    case (Some x)
    then show ?thesis using aH by (simp add: H'_def H_def held_after_def update_keys)
  qed
  show jobs: "b \<noteq> a \<Longrightarrow> job_in (V r) b = job_in ?v b" for b using w by (simp add: works_def)
  have out: "a \<notin> set (sy_new s)" "a \<notin> set ?R" "a \<notin> ?D" using apart aH by auto
  have waits: "waits_in (V r) q (sy_new s) b = (if b = a then again else waits_in ?v q (sy_new s) b)" for b
    using w out by (cases again) (auto simp: works_def waits_in_def)
  then show "b \<noteq> a \<Longrightarrow> waits_in (V r) q (sy_new s) b = waits_in ?v q (sy_new s) b" by simp
  have "places_apart (V r) q (sy_new s) (held_after a res (sy_held s))"
  proof (cases again)
    case True
    have r: "distinct H'" "a \<notin> set H'" "set H' \<subseteq> set H" using H' again [OF True] by simp_all
    have "ready_list (V r) q = a # ?R \<and> delayed_set (V r) q = ?D \<or> ready_list (V r) q = ?R \<and> delayed_set (V r) q = insert a ?D"
      using w True by (simp add: works_def)
    then show ?thesis unfolding places_apart_def H'_def [symmetric] using r apart out by auto
  next
    case False
    then have v: "ready_list (V r) q = ?R" "delayed_set (V r) q = ?D" using w by (simp_all add: works_def)
    have "distinct H' \<and> set H' \<subseteq> set H" using H' H by (auto split: if_splits)
    then show ?thesis unfolding places_apart_def H'_def [symmetric] v using apart by auto
  qed
  moreover have "dict_get (held_after a res (sy_held s)) b = (if b = a then res else dict_get (sy_held s) b)" for b
    by (simp add: held_after_def dict_simps split: option.split)
  ultimately show "agent_ok V X q (s\<lparr>sy_redis := r, sy_held := held_after a res (sy_held s)\<rparr>)"
    using p waits jobs by (intro agent_ok_change [OF ok, where a = a and k = k]) (simp_all add: subset_insertI)
qed

lemma works_put: "works v q a False (put_job v a h)"
  by (simp add: works_def job_simps)

lemma sound_error:
  assumes "job_sound X jid h j"
  obtains k where "job_sound X jid (h(''error_json'' \<mapsto> t)) k" "aj_status k = aj_status j" "aj_attempts k = aj_attempts j"
    "aj_max_attempts k = aj_max_attempts j"
  using sound_other [OF assms, of "''error_json''" t] by auto

lemma sound_status_obtain:
  assumes "job_sound X jid h j"
  obtains k where "job_sound X jid (status_fields X st started finished now h) k" "aj_status k = st"
    "aj_attempts k = aj_attempts j" "aj_max_attempts k = aj_max_attempts j"
  using sound_status_fields [OF assms] by blast

text \<open>
  What the next command does to the job a worker holds: it does not raise, and the record and the
  phase it leads to fit again.
\<close>

lemma child_outcome_cases:
  assumes "attempt = aj_attempts j" "aj_max_attempts job = aj_max_attempts j" "attempt_limit (aj_max_attempts j) \<le> 1025"
    and "results_read_back X W (Wk_running job attempt)"
  obtains (result) d where "child_outcome W timeout fate job attempt = Job_result d" "json_reads_back X (JObj d)"
  | (failed) c m d where "child_outcome W timeout fate job attempt = Job_failed c m d"
  | (retry) x m d where "child_outcome W timeout fate job attempt = Job_retry x m d" "attempts_left j"
proof (cases fate)
  case Child_answers
  show thesis
  proof (cases "run_agent_in_subprocess W (aj_agent job) (aj_run_input job)")
    case (Inr d)
    then show thesis using assms(4) Child_answers by (intro result [of d]) (simp_all add: child_outcome_def results_read_back_def)
  next
    case (Inl x)
    obtain y m tb where x: "x = (y, m, tb)" by (cases x)
    let ?max = "or_int (Some (aj_max_attempts job)) 3"
    show thesis
    proof (cases "attempt < ?max \<and> is_transient_error y m")
      case True
      then have "attempt < ?max" "?max \<le> 1025" using assms(2,3) by (simp_all add: attempt_limit_def)
      then obtain p where "float_pow2 (attempt - 1) = Inr p" by (cases "0 \<le> attempt - 1") (auto simp: float_pow2_def)
      then show thesis
        using True Inl x Child_answers assms(1,2) by (intro retry) (auto simp: child_outcome_def Let_def attempts_left_def attempt_limit_def)
    next
      case False
      then show thesis using Inl x Child_answers by (intro failed) (auto simp: child_outcome_def Let_def)
    qed
  qed
qed (auto simp: child_outcome_def intro: failed)

lemma worker_next_ok:
  assumes L: "redis_laws K V" and j: "job_sound X a (job_in (V r) a) j" and f: "job_fits j False (Some ph)"
    and rb: "results_read_back X W ph" and n: "worker_next K X W q worker timeout t fate a ph r = (res, r')"
  shows "\<exists>again x k. res = Inr x \<and> (again \<longrightarrow> x = None) \<and> works (V r) q a again (V r') \<and>
    job_sound X a (job_in (V r') a) k \<and> job_fits k again x"
proof -
  have ans: ?thesis if "res = Inr x" "again \<Longrightarrow> x = None" "works (V r) q a again (V r')" "job_sound X a (job_in (V r') a) k" "job_fits k again x"
    for x again k using that by blast
  have lim: "0 \<le> aj_attempts j" "aj_attempts j \<le> attempt_limit (aj_max_attempts j)" "attempt_limit (aj_max_attempts j) \<le> 1025"
    using j by (simp_all add: job_sound_def)
  have fit: "aj_status j = Aqueued \<longleftrightarrow> queued_phase ph" "aj_status j = Arunning \<longleftrightarrow> \<not> queued_phase ph" "phase_fits ph j"
    using f by (simp_all add: job_fits_def held_queued_def)
  show ?thesis
  proof (cases ph)
    case (Wk_moving now score)
    have e: "res = Inr None" "r' = (if score > now then rd_zadd K (delayed_key q) a score r else rd_lpush K (queue_key q) a r)"
      using n by (simp_all add: Wk_moving)
    have "works (V r) q a True (V r')" "job_in (V r') a = job_in (V r) a"
      by (auto simp: e(2) works_def ready_list_def delayed_set_def redis_list_simps [OF L] redis_zset_simps [OF L] job_simps)
    then show ?thesis using j fit by (intro ans [OF e(1)]) (auto simp: job_fits_def held_queued_def Wk_moving)
  next
    case Wk_taken
    have e: "res = Inr (Some Wk_beat)" "r' = write_heartbeat K W worker (Some a) r" using n by (simp_all add: Wk_taken)
    have "works (V r) q a False (V r')" "job_in (V r') a = job_in (V r) a"
      by (simp_all add: e(2) heartbeat_view [OF L] works_def job_simps)
    then show ?thesis using j fit by (intro ans [OF e(1)]) (auto simp: job_fits_def held_queued_def Wk_taken)
  next
    case Wk_beat
    have "get_job K X a r = Inr (Some j)" using j by (simp add: get_job_Some [OF L] job_sound_def)
    then have e: "res = Inr (Some (Wk_read j))" "r' = r" using n by (simp_all add: Wk_beat)
    have "works (V r) q a False (V r')" by (simp add: e(2) works_def)
    then show ?thesis using j fit e(2) by (intro ans [OF e(1)]) (auto simp: job_fits_def held_queued_def Wk_beat)
  next
    case (Wk_read job)
    show ?thesis
    proof (cases "aj_cancel_requested job")
      case True
      have e: "res = Inr None" "V r' = put_job (V r) a (status_fields X Acancelled False True (wt_finished t) (job_in (V r) a))"
        using n True by (auto simp: Wk_read update_status_view [OF L])
      obtain k where "job_sound X a (status_fields X Acancelled False True (wt_finished t) (job_in (V r) a)) k" "aj_status k = Acancelled"
        by (rule sound_status_obtain [OF j])
      then show ?thesis by (intro ans [OF e(1), of False k]) (simp_all add: e(2) works_put job_simps job_fits_def held_queued_def)
    next
      case False
      have e: "res = Inr (Some (Wk_marked job))"
          "V r' = put_job (V r) a (status_fields X Arunning True False (wt_started t) (job_in (V r) a))"
        using n False by (auto simp: Wk_read update_status_view [OF L])
      obtain k where "job_sound X a (status_fields X Arunning True False (wt_started t) (job_in (V r) a)) k" "aj_status k = Arunning"
          "aj_attempts k = aj_attempts j" "aj_max_attempts k = aj_max_attempts j"
        by (rule sound_status_obtain [OF j])
      then show ?thesis using fit
        by (intro ans [OF e(1), of False k]) (simp_all add: e(2) works_put job_simps job_fits_def held_queued_def Wk_read attempts_left_def)
    qed
  next
    case (Wk_marked job)
    let ?n = "aj_attempts j"
    have left: "?n < attempt_limit (aj_max_attempts j)" "aj_max_attempts job = aj_max_attempts j"
      using fit by (simp_all add: Wk_marked attempts_left_def)
    have "holds_int (V r) (job_key a) ''attempts'' ?n" using j by (simp add: holds_int_def job_sound_def job_in_def)
    from redis_hincrby [OF L this, of 1] lim left
    have inc: "fst (increment_attempts K a r) = ?n + 1"
        "V (snd (increment_attempts K a r)) = put_job (V r) a ((job_in (V r) a)(''attempts'' \<mapsto> py_str_int (?n + 1)))"
      by (simp_all add: increment_attempts_def int64_def put_job_def job_in_def)
    have e: "res = Inr (Some (Wk_running job (?n + 1)))" "V r' = put_job (V r) a ((job_in (V r) a)(''attempts'' \<mapsto> py_str_int (?n + 1)))"
      using n inc by (cases "increment_attempts K a r", auto simp: Wk_marked)+
    have "job_sound X a ((job_in (V r) a)(''attempts'' \<mapsto> py_str_int (?n + 1))) (j\<lparr>aj_attempts := ?n + 1\<rparr>)"
      by (rule sound_attempts [OF j]) (use lim left in simp_all)
    then show ?thesis using fit left
      by (intro ans [OF e(1), of False "j\<lparr>aj_attempts := ?n + 1\<rparr>"])
         (simp_all add: e(2) works_put job_simps job_fits_def held_queued_def Wk_marked)
  next
    case (Wk_running job attempt)
    have att: "attempt = aj_attempts j" "aj_max_attempts job = aj_max_attempts j" using fit by (simp_all add: Wk_running)
    show ?thesis
    proof (rule child_outcome_cases [OF att lim(3) rb [unfolded Wk_running], of timeout fate])
      fix d
      assume o: "child_outcome W timeout fate job attempt = Job_result d" "json_reads_back X (JObj d)"
      have e: "res = Inr (Some (Wk_ending Asucceeded))" "V r' = put_job (V r) a ((job_in (V r) a)(''result_json'' \<mapsto> tx_dumps X (JObj d)))"
        using n o(1) by (auto simp: Wk_running set_result_view [OF L])
      show ?thesis using fit sound_result [OF j o(2)]
        by (intro ans [OF e(1), of False "j\<lparr>aj_result := Some d\<rparr>"])
           (simp_all add: e(2) works_put job_simps job_fits_def held_queued_def Wk_running)
    next
      fix c m d
      assume o: "child_outcome W timeout fate job attempt = Job_failed c m d"
      let ?h = "(job_in (V r) a)(''error_json'' \<mapsto> tx_dumps X (error_value \<lparr>je_code = c, je_message = m, je_details = d\<rparr>))"
      have e: "res = Inr (Some (Wk_ending Afailed))" "V r' = put_job (V r) a ?h"
        using n o by (auto simp: Wk_running set_error_view [OF L])
      obtain k where "job_sound X a ?h k" "aj_status k = aj_status j" by (rule sound_error [OF j])
      then show ?thesis using fit
        by (intro ans [OF e(1), of False k]) (simp_all add: e(2) works_put job_simps job_fits_def held_queued_def Wk_running)
    next
      fix x m d
      assume o: "child_outcome W timeout fate job attempt = Job_retry x m d" "attempts_left j"
      let ?h = "(job_in (V r) a)(''error_json'' \<mapsto> tx_dumps X (error_value \<lparr>je_code = ''retry_scheduled'', je_message = m, je_details = d\<rparr>))"
      have e: "res = Inr (Some (Wk_retrying x))" "V r' = put_job (V r) a ?h"
        using n o(1) by (auto simp: Wk_running set_error_view [OF L])
      obtain k where "job_sound X a ?h k" "aj_status k = aj_status j" "aj_attempts k = aj_attempts j" "aj_max_attempts k = aj_max_attempts j"
        by (rule sound_error [OF j])
      then show ?thesis using fit o(2)
        by (intro ans [OF e(1), of False k])
           (simp_all add: e(2) works_put job_simps job_fits_def held_queued_def Wk_running attempts_left_def)
    qed
  next
    case (Wk_ending st)
    have e: "res = Inr None" "V r' = put_job (V r) a (status_fields X st False True (wt_finished t) (job_in (V r) a))"
      using n by (auto simp: Wk_ending update_status_view [OF L])
    obtain k where "job_sound X a (status_fields X st False True (wt_finished t) (job_in (V r) a)) k" "aj_status k = st"
      by (rule sound_status_obtain [OF j])
    then show ?thesis using fit
      by (intro ans [OF e(1), of False k]) (auto simp: e(2) works_put job_simps job_fits_def held_queued_def Wk_ending)
  next
    case (Wk_retrying x)
    have e: "res = Inr (Some (Wk_delaying x))" "V r' = put_job (V r) a (status_fields X Aqueued False False 0 (job_in (V r) a))"
      using n by (auto simp: Wk_retrying update_status_view [OF L])
    obtain k where "job_sound X a (status_fields X Aqueued False False 0 (job_in (V r) a)) k" "aj_status k = Aqueued"
        "aj_attempts k = aj_attempts j" "aj_max_attempts k = aj_max_attempts j"
      by (rule sound_status_obtain [OF j])
    then show ?thesis using fit
      by (intro ans [OF e(1), of False k])
         (simp_all add: e(2) works_put job_simps job_fits_def held_queued_def Wk_retrying attempts_left_def)
  next
    case (Wk_delaying x)
    have e: "res = Inr None" "r' = schedule_delayed K q a x (wt_scheduled t) r" using n by (simp_all add: Wk_delaying)
    have "works (V r) q a True (V r')" "job_in (V r') a = job_in (V r) a"
      by (auto simp: e(2) schedule_delayed_def works_def ready_list_def delayed_set_def redis_zset_simps [OF L] job_simps)
    then show ?thesis using j fit by (intro ans [OF e(1)]) (auto simp: job_fits_def held_queued_def Wk_delaying)
  qed
qed

lemma work_step_ok:
  assumes L: "redis_laws K V" and ok: "agent_ok V X q s" and held: "dict_get (sy_held s) a = Some ph"
    and rb: "results_read_back X W ph" and n: "worker_next K X W q worker timeout t fate a ph (sy_redis s) = (res, r)"
  obtains x where "res = Inr x" and "agent_ok V X q (s\<lparr>sy_redis := r, sy_held := held_after a x (sy_held s)\<rparr>)"
    and "\<And>b. b \<noteq> a \<Longrightarrow> job_in (V r) b = job_in (V (sy_redis s)) b"
    and "\<And>b. b \<noteq> a \<Longrightarrow> waits_in (V r) q (sy_new s) b = waits_in (V (sy_redis s)) q (sy_new s) b"
proof -
  let ?v = "V (sy_redis s)"
  have "a \<in> set (dict_keys (sy_held s))" using held by (force dest: map_of_SomeD)
  then have out: "\<not> waits_in ?v q (sy_new s) a"
    using agent_okD(1) [OF ok] by (auto simp: places_apart_def waits_in_def)
  note p = agent_okD(2) [OF ok, of a]
  from placed_job [OF p placed_present [OF p]] held out obtain j where
    j: "job_sound X a (job_in ?v a) j" "job_fits j False (Some ph)" by auto
  from worker_next_ok [OF L j rb n] obtain again x k where w: "res = Inr x" "again \<longrightarrow> x = None" "works ?v q a again (V r)"
    "job_sound X a (job_in (V r) a) k" "job_fits k again x" by blast
  from worked_ok [OF ok held w(3) _ w(4,5)] w(2) show thesis by (intro that [OF w(1)]) blast+
qed

section \<open>Every run\<close>

text \<open>A settled job neither waits nor is held: it has ended. A later state may only add a request to cancel it.\<close>

definition settled :: "('r \<Rightarrow> redis_view) \<Rightarrow> string \<Rightarrow> 'r agent_sys \<Rightarrow> string \<Rightarrow> bool" where
  "settled V q s a =
     (job_in (V (sy_redis s)) a \<noteq> Map.empty \<and> \<not> waits_in (V (sy_redis s)) q (sy_new s) a \<and> dict_get (sy_held s) a = None)"

definition agent_before :: "('r \<Rightarrow> redis_view) \<Rightarrow> string \<Rightarrow> 'r agent_sys \<Rightarrow> 'r agent_sys \<Rightarrow> bool" where
  "agent_before V q s s' =
     (\<forall>a. settled V q s a \<longrightarrow> settled V q s' a \<and>
        (job_in (V (sy_redis s')) a = job_in (V (sy_redis s)) a \<or>
         job_in (V (sy_redis s')) a = (job_in (V (sy_redis s)) a)(''cancel_requested'' \<mapsto> ''1'')))"

lemma agent_step_ok:
  assumes L: "redis_laws K V" and ok: "agent_ok V X q s" and st: "agent_step K X W q s e s'"
  shows "agent_ok V X q s'"
  using st
proof cases
  case (step_create jid now i m agent ikey ttl ikey_ttl)
  then show ?thesis using create_step_ok [OF L ok step_create(3-7)] by simp
next
  case (step_enqueue jid)
  then show ?thesis using enqueue_step_ok [OF L ok] by simp
next
  case (step_ask jid j)
  have "job_in (V (sy_redis s)) jid \<noteq> Map.empty" using step_ask(3) by (simp add: get_job_Some [OF L] reads_job_def)
  then show ?thesis unfolding step_ask(2) by (intro agent_ok_same [OF ok]) (auto dest: agent_okD(3) [OF ok])
next
  case (step_cancel jid)
  then show ?thesis using cancel_step_ok [OF L ok] by simp
next
  case (step_idle worker)
  show ?thesis unfolding step_idle(2)
    by (intro agent_ok_same [OF ok]) (simp_all add: heartbeat_view [OF L] job_simps agent_okD(3) [OF ok])
next
  case (step_move jid score r now)
  show ?thesis unfolding step_move(2) by (rule grabbed_ok(1) [OF ok zpopmin_grabs [OF L step_move(3)]]) simp_all
next
  case (step_take jid r)
  show ?thesis unfolding step_take(2) by (rule grabbed_ok(1) [OF ok dequeue_grabs [OF L step_take(3)]]) simp_all
next
  case (step_work jid ph worker timeout t fate res r)
  show ?thesis using work_step_ok [OF L ok step_work(3-5)] unfolding step_work(2) by auto
next
  case (step_crash jid ph worker timeout t fate ex r)
  show ?thesis using work_step_ok [OF L ok step_crash(3-5)] by auto
qed

lemma agent_step_before:
  assumes L: "redis_laws K V" and ok: "agent_ok V X q s" and st: "agent_step K X W q s e s'"
  shows "agent_before V q s s'"
  unfolding agent_before_def
proof (intro allI impI)
  fix b
  assume b: "settled V q s b"
  then have h: "job_in (V (sy_redis s)) b \<noteq> Map.empty" "\<not> waits_in (V (sy_redis s)) q (sy_new s) b" "dict_get (sy_held s) b = None"
    by (simp_all add: settled_def)
  let ?G = "settled V q s' b \<and> (job_in (V (sy_redis s')) b = job_in (V (sy_redis s)) b \<or>
      job_in (V (sy_redis s')) b = (job_in (V (sy_redis s)) b)(''cancel_requested'' \<mapsto> ''1''))"
  have same: ?G if "job_in (V (sy_redis s')) b = job_in (V (sy_redis s)) b"
      "\<not> waits_in (V (sy_redis s')) q (sy_new s') b" "dict_get (sy_held s') b = None"
    using b that by (auto simp: settled_def)
  show ?G
    using st
  proof cases
    case (step_create jid now i m agent ikey ttl ikey_ttl)
    have e: "job_in (V (sy_redis s)) jid = Map.empty"
      using step_create(4) by (simp add: redis_hgetall_empty [OF L] job_in_def)
    have ne: "b \<noteq> jid" using e h(1) by auto
    then show ?thesis
      using h by (intro same) (auto simp: step_create(2) record_view [OF L e] waits_in_def ready_list_def delayed_set_def)
  next
    case (step_enqueue jid)
    have ne: "b \<noteq> jid" using step_enqueue(3) h(2) by (auto simp: waits_in_def)
    have "V (enqueue_ready K q jid (sy_redis s)) = (V (sy_redis s))\<lparr>rv_list :=
        (rv_list (V (sy_redis s)))(queue_key q := jid # rv_list (V (sy_redis s)) (queue_key q))\<rparr>"
      by (simp add: enqueue_ready_def redis_list_simps [OF L])
    then show ?thesis
      using h ne by (intro same) (auto simp: step_enqueue(2) job_simps waits_in_def ready_list_def delayed_set_def dest: notin_set_remove1)
  next
    case (step_ask jid j)
    show ?thesis using h by (intro same) (simp_all add: step_ask(2))
  next
    case (step_cancel jid)
    show ?thesis
      using b h by (cases "b = jid") (auto simp: step_cancel(2) settled_def request_cancel_view [OF L] job_simps)
  next
    case (step_idle worker)
    show ?thesis using h by (intro same) (simp_all add: step_idle(2) heartbeat_view [OF L] job_simps)
  next
    case (step_move jid score r now)
    have g: "grabs (V (sy_redis s)) q jid (V r)" by (rule zpopmin_grabs [OF L step_move(3)])
    note w = grabbed_ok(2,3) [OF ok g, of "Wk_moving now score"]
    have "b \<noteq> jid" using h(2) w(1) by auto
    then show ?thesis using h g w(2) [of b] by (intro same) (simp_all add: step_move(2) grabs_def)
  next
    case (step_take jid r)
    have g: "grabs (V (sy_redis s)) q jid (V r)" by (rule dequeue_grabs [OF L step_take(3)])
    note w = grabbed_ok(2,3) [OF ok g, of Wk_taken]
    have "b \<noteq> jid" using h(2) w(1) by auto
    then show ?thesis using h g w(2) [of b] by (intro same) (simp_all add: step_take(2) grabs_def)
  next
    case (step_work jid ph worker timeout t fate res r)
    have ne: "b \<noteq> jid" using h(3) step_work(3) by auto
    obtain "job_in (V r) b = job_in (V (sy_redis s)) b"
        "waits_in (V r) q (sy_new s) b = waits_in (V (sy_redis s)) q (sy_new s) b"
      by (rule work_step_ok [OF L ok step_work(3-5)]) (use ne in blast)
    then show ?thesis
      using h ne by (intro same) (simp_all add: step_work(2) held_after_def dict_simps split: option.split)
  next
    case (step_crash jid ph worker timeout t fate ex r)
    show ?thesis using work_step_ok [OF L ok step_crash(3-5)] by auto
  qed
qed

lemma agent_before_refl: "agent_before V q s s"
  by (simp add: agent_before_def)

lemma agent_before_trans: "agent_before V q s1 s2 \<Longrightarrow> agent_before V q s2 s3 \<Longrightarrow> agent_before V q s1 s3"
  unfolding agent_before_def by (metis fun_upd_upd)

interpretation agents: step_machine "agent_step K X W q" "\<lambda>s. redis_laws K V \<and> agent_ok V X q s" "agent_before V q"
  for K X W q V
proof (unfold_locales, goal_cases)
  case (1 s e s') then show ?case using agent_step_ok by blast
next
  case (2 s e s') then show ?case using agent_step_before by blast
next
  case (3 s) show ?case by (rule agent_before_refl)
next
  case (4 s1 s2 s3) then show ?case by (rule agent_before_trans)
qed

text \<open>A server with no job and no queue.\<close>

definition agents_start :: "('r \<Rightarrow> redis_view) \<Rightarrow> string \<Rightarrow> 'r \<Rightarrow> bool" where
  "agents_start V q r =
     ((\<forall>a. job_in (V r) a = Map.empty) \<and> rv_list (V r) (queue_key q) = [] \<and> rv_zset (V r) (delayed_key q) = Map.empty)"

lemma agents_start_ok: "agents_start V q r \<Longrightarrow> agent_ok V X q (agents_init r)"
  by (simp add: agents_start_def agents_init_def agent_ok_def places_apart_def waits_in_def job_placed_def ready_list_def delayed_set_def)

lemma settled_job:
  assumes L: "redis_laws K V" and ok: "agent_ok V X q s" and j: "get_job K X a (sy_redis s) = Inr (Some j)"
  shows "settled V q s a \<longleftrightarrow> aj_status j \<in> {Asucceeded, Afailed, Acancelled}"
proof -
  have r: "reads_job X a (job_in (V (sy_redis s)) a) j" using j by (simp add: get_job_Some [OF L])
  then have ne: "job_in (V (sy_redis s)) a \<noteq> Map.empty" by (simp add: reads_job_def)
  from placed_job [OF agent_okD(2) [OF ok] ne] obtain k where k: "job_sound X a (job_in (V (sy_redis s)) a) k"
    "job_fits k (waits_in (V (sy_redis s)) q (sy_new s) a) (dict_get (sy_held s) a)" .
  have "j = k" using sound_unique [OF k(1) r] .
  then show ?thesis
    using k(2) ne by (cases "aj_status j") (auto simp: settled_def job_fits_def held_queued_def split: option.splits)
qed

text \<open>\<open>process_one\<close> is a run of these steps, from the job it takes off the list to its last command.\<close>

lemma worker_runs_steps:
  "worker_runs K X W q worker timeout t fate a n ph (sy_redis s) = (Inr res, r) \<Longrightarrow> dict_get (sy_held s) a = Some ph \<Longrightarrow>
   (\<And>ph. results_read_back X W ph) \<Longrightarrow>
   \<exists>es. set es \<subseteq> {Ev_work a} \<and> runs (agent_step K X W q) s es (s\<lparr>sy_redis := r, sy_held := held_after a res (sy_held s)\<rparr>)"
proof (induction n arbitrary: ph s)
  case 0
  from 0(1) have e: "res = Some ph" "r = sy_redis s" by auto
  have "held_after a res (sy_held s) = sy_held s" unfolding e(1) held_after_def by (simp add: update_triv [OF 0(2)])
  with e(2) show ?case by (intro exI [of _ "[]"]) simp
next
  case (Suc n)
  obtain y r1 where y: "worker_next K X W q worker timeout t fate a ph (sy_redis s) = (y, r1)" by force
  obtain x where x: "y = Inr x" using Suc.prems(1) y by (cases y) auto
  let ?s1 = "s\<lparr>sy_redis := r1, sy_held := held_after a x (sy_held s)\<rparr>"
  have step: "agent_step K X W q s (Ev_work a) ?s1" by (rule step_work [OF Suc.prems(2,3)]) (use y x in simp)
  show ?case
  proof (cases x)
    case None
    then have "?s1 = s\<lparr>sy_redis := r, sy_held := held_after a res (sy_held s)\<rparr>" using Suc.prems(1) y x by simp
    then show ?thesis using step by (intro exI [of _ "[Ev_work a]"]) (simp add: runs_Cons_iff)
  next
    case (Some ph1)
    have "worker_runs K X W q worker timeout t fate a n ph1 (sy_redis ?s1) = (Inr res, r)" using Suc.prems(1) y x Some by simp
    moreover have "dict_get (sy_held ?s1) a = Some ph1" by (simp add: held_after_def Some dict_simps)
    ultimately obtain es where es: "set es \<subseteq> {Ev_work a}"
        "runs (agent_step K X W q) ?s1 es (?s1\<lparr>sy_redis := r, sy_held := held_after a res (sy_held ?s1)\<rparr>)"
      using Suc.IH Suc.prems(3) by blast
    have "held_after a res (sy_held ?s1) = held_after a res (sy_held s)"
      by (auto simp: held_after_def Some delete_update_same update_last split: option.split)
    then have "?s1\<lparr>sy_redis := r, sy_held := held_after a res (sy_held ?s1)\<rparr> = s\<lparr>sy_redis := r, sy_held := held_after a res (sy_held s)\<rparr>"
      by simp
    then show ?thesis using es step by (intro exI [of _ "Ev_work a # es"]) (auto simp: runs_Cons_iff)
  qed
qed

section \<open>Properties\<close>

text \<open>
  C21. From an empty server, over every interleaving of the Redis commands of submissions,
  cancellations and workers of one queue: no identifier is in two places; every stored job reads; it is
  queued exactly when it is on its way to the queue, ready, delayed, or held by a worker that has not
  yet marked it as running or has just written it back, and running exactly when a worker holds it in
  between; its attempts never exceed the limit of its submission. So no command of a worker raises or
  drops its job, which would leave a job that waits nowhere.
\<close>

theorem no_agent_job_is_lost:
  assumes "redis_laws K V" and "agents_start V q r0"
    and "runs (agent_step K X W q) (agents_init r0) es s"
  shows "distinct (sy_new s @ rv_list (V (sy_redis s)) (queue_key q) @ dict_keys (sy_held s)) \<and>
    set (sy_new s @ rv_list (V (sy_redis s)) (queue_key q) @ dict_keys (sy_held s)) \<inter> dom (rv_zset (V (sy_redis s)) (delayed_key q)) = {} \<and>
    (\<forall>a. get_job K X a (sy_redis s) \<noteq> Inr None \<longrightarrow>
      (\<exists>j. get_job K X a (sy_redis s) = Inr (Some j) \<and>
        (aj_status j = Aqueued \<longleftrightarrow> a \<in> set (sy_new s) \<union> set (rv_list (V (sy_redis s)) (queue_key q)) \<union>
           dom (rv_zset (V (sy_redis s)) (delayed_key q)) \<or> (\<exists>ph. dict_get (sy_held s) a = Some ph \<and> queued_phase ph)) \<and>
        (aj_status j = Arunning \<longleftrightarrow> (\<exists>ph. dict_get (sy_held s) a = Some ph \<and> \<not> queued_phase ph)) \<and>
        0 \<le> aj_attempts j \<and> aj_attempts j \<le> max 1 (or_int (Some (aj_max_attempts j)) 3)))"
proof (intro conjI allI impI)
  have ok: "agent_ok V X q s"
    using agents.runs_ok [OF assms(3)] assms(1) agents_start_ok [OF assms(2)] by blast
  show "distinct (sy_new s @ rv_list (V (sy_redis s)) (queue_key q) @ dict_keys (sy_held s))"
    "set (sy_new s @ rv_list (V (sy_redis s)) (queue_key q) @ dict_keys (sy_held s)) \<inter> dom (rv_zset (V (sy_redis s)) (delayed_key q)) = {}"
    using agent_okD(1) [OF ok] by (simp_all add: places_apart_def ready_list_def delayed_set_def)
  fix a
  assume "get_job K X a (sy_redis s) \<noteq> Inr None"
  then have ne: "job_in (V (sy_redis s)) a \<noteq> Map.empty" by (auto simp: get_job_hash [OF assms(1)])
  from placed_job [OF agent_okD(2) [OF ok, of a] this] obtain j where
    j: "job_sound X a (job_in (V (sy_redis s)) a) j"
    and f: "job_fits j (waits_in (V (sy_redis s)) q (sy_new s) a) (dict_get (sy_held s) a)" .
  have g: "get_job K X a (sy_redis s) = Inr (Some j)"
    using j by (simp add: get_job_Some [OF assms(1)] job_sound_def)
  have h: "held_queued held \<longleftrightarrow> (\<exists>ph. held = Some ph \<and> queued_phase ph)"
    "held \<noteq> None \<and> \<not> held_queued held \<longleftrightarrow> (\<exists>ph. held = Some ph \<and> \<not> queued_phase ph)" for held
    by (auto simp: held_queued_def split: option.splits)
  have "aj_status j = Aqueued \<longleftrightarrow> waits_in (V (sy_redis s)) q (sy_new s) a \<or> held_queued (dict_get (sy_held s) a)"
    "aj_status j = Arunning \<longleftrightarrow> dict_get (sy_held s) a \<noteq> None \<and> \<not> held_queued (dict_get (sy_held s) a)"
    using f by (simp_all only: job_fits_def)
  then have q: "aj_status j = Aqueued \<longleftrightarrow> waits_in (V (sy_redis s)) q (sy_new s) a \<or> (\<exists>ph. dict_get (sy_held s) a = Some ph \<and> queued_phase ph)"
    "aj_status j = Arunning \<longleftrightarrow> (\<exists>ph. dict_get (sy_held s) a = Some ph \<and> \<not> queued_phase ph)"
    unfolding h(2) unfolding h(1) by blast+
  have lim: "0 \<le> aj_attempts j" "aj_attempts j \<le> max 1 (or_int (Some (aj_max_attempts j)) 3)"
    using j by (simp_all add: job_sound_def attempt_limit_def)
  show "\<exists>j. get_job K X a (sy_redis s) = Inr (Some j) \<and>
        (aj_status j = Aqueued \<longleftrightarrow> a \<in> set (sy_new s) \<union> set (rv_list (V (sy_redis s)) (queue_key q)) \<union>
           dom (rv_zset (V (sy_redis s)) (delayed_key q)) \<or> (\<exists>ph. dict_get (sy_held s) a = Some ph \<and> queued_phase ph)) \<and>
        (aj_status j = Arunning \<longleftrightarrow> (\<exists>ph. dict_get (sy_held s) a = Some ph \<and> \<not> queued_phase ph)) \<and>
        0 \<le> aj_attempts j \<and> aj_attempts j \<le> max 1 (or_int (Some (aj_max_attempts j)) 3)"
    by (rule exI [of _ j])
       (simp only: g q lim waits_in_def ready_list_def delayed_set_def Un_iff simp_thms disj_assoc)
qed

text \<open>
A job that has succeeded, failed or been cancelled is never run again: whatever workers and
  clients do afterwards, its record stays as it is, but for a request to cancel it.
\<close>

theorem ended_agent_job_stays:
  assumes "redis_laws K V" and "agents_start V q r0"
    and "runs (agent_step K X W q) (agents_init r0) es s"
    and "get_job K X a (sy_redis s) = Inr (Some j)" and "aj_status j \<in> {Asucceeded, Afailed, Acancelled}"
    and "runs (agent_step K X W q) s es' s'"
  shows "\<exists>c. get_job K X a (sy_redis s') = Inr (Some (j\<lparr>aj_cancel_requested := c\<rparr>))"
proof -
  have ok: "redis_laws K V \<and> agent_ok V X q s"
    using agents.runs_ok [OF assms(3)] assms(1) agents_start_ok [OF assms(2)] by blast
  have "settled V q s a" using settled_job [OF assms(1) _ assms(4)] ok assms(5) by blast
  moreover have "agent_before V q s s'" by (rule agents.runs_before [OF assms(6) ok])
  ultimately have h: "job_in (V (sy_redis s')) a = job_in (V (sy_redis s)) a \<or>
      job_in (V (sy_redis s')) a = (job_in (V (sy_redis s)) a)(''cancel_requested'' \<mapsto> ''1'')"
    unfolding agent_before_def by blast
  have r: "reads_job X a (job_in (V (sy_redis s)) a) j" using assms(4) by (simp add: get_job_Some [OF assms(1)])
  from h show ?thesis
  proof
    assume "job_in (V (sy_redis s')) a = job_in (V (sy_redis s)) a"
    then have "get_job K X a (sy_redis s') = Inr (Some (j\<lparr>aj_cancel_requested := aj_cancel_requested j\<rparr>))"
      using r by (simp add: get_job_Some [OF assms(1)])
    then show ?thesis ..
  next
    assume "job_in (V (sy_redis s')) a = (job_in (V (sy_redis s)) a)(''cancel_requested'' \<mapsto> ''1'')"
    then have "get_job K X a (sy_redis s') = Inr (Some (j\<lparr>aj_cancel_requested := True\<rparr>))"
      using reads_cancel [OF r] by (simp add: get_job_Some [OF assms(1)])
    then show ?thesis ..
  qed
qed

section \<open>A run\<close>

definition demo_texts :: text_codec where
  "demo_texts = \<lparr>tx_str = (\<lambda>x. ''1.0''), tx_float = (\<lambda>t. if t = ''1.0'' then Some 1 else None),
     tx_dumps = (\<lambda>j. ''{}''), tx_loads = (\<lambda>t. if t = ''{}'' then Some (JObj []) else None)\<rparr>"

definition demo_worker :: worker_env where
  "demo_worker = \<lparr>we_agents = [], we_payload = (\<lambda>c. []), we_heartbeat_ttl = None, we_lax = (\<lambda>j. None),
     we_traceback = exn_text, we_fixed1 = (\<lambda>x. ''1.0'')\<rparr>"

definition demo_times :: worker_times where
  "demo_times = \<lparr>wt_pump = 1, wt_started = 1, wt_scheduled = 1, wt_finished = 1\<rparr>"

definition empty_db :: redis_db where
  "empty_db = \<lparr>db_strings = [], db_hashes = [], db_lists = [], db_zsets = []\<rparr>"

definition demo_created :: redis_db where
  "demo_created = snd (create_job redis_reference demo_texts ''j'' 1 ''echo'' [] None 3 60 60 empty_db)"

definition demo_ready :: redis_db where
  "demo_ready = enqueue_ready redis_reference ''default'' ''j'' demo_created"

definition demo_claim :: "worker_claim \<times> redis_db" where
  "demo_claim = begin_job redis_reference demo_texts demo_worker ''default'' ''w'' demo_times demo_ready"

definition demo_failed :: redis_db where
  "demo_failed = snd (finish_job redis_reference demo_texts demo_worker ''default'' 60 demo_times Child_alive ''j''
     (fresh_job ''j'' ''echo'' 1 3 []) 1 (snd demo_claim))"

lemma demo_start: "agents_start db_contents ''default'' empty_db"
  by (simp add: agents_start_def empty_db_def db_contents_def job_in_def db_hash_def db_list_def db_zset_def dict_get_or_def)

lemma pump_loop_none: "rd_zpopmin K d r = (None, r) \<Longrightarrow> pump_loop K d q now n r = (0, r)"
  by (cases n) simp_all

lemma demo_ready_eq: "demo_ready = \<lparr>db_strings = [], db_hashes = [(''synqc:job:j'', job_fields demo_texts ''echo'' 1 3 [])],
    db_lists = [(''synqc:q:default'', [''j''])], db_zsets = []\<rparr>"
proof -
  have "dict_update_all (job_fields demo_texts ''echo'' 1 3 []) [] = job_fields demo_texts ''echo'' 1 3 []"
    by (simp add: job_fields_def)
  then show ?thesis
    by (simp add: demo_ready_def demo_created_def create_job_def create_record_def Let_def truthy_str_def enqueue_ready_def redis_reference_def
      empty_db_def db_hash_def db_set_hash_def db_set_list_def db_list_def dict_get_or_def job_key_def queue_key_def)
qed

definition demo_taken :: redis_db where
  "demo_taken = demo_ready\<lparr>db_lists := [(''synqc:q:default'', [])]\<rparr>"

lemma demo_take:
  "pump_delayed redis_reference ''default'' 100 1 demo_ready = (0, demo_ready)"
  "dequeue redis_reference ''default'' demo_ready = (Some ''j'', demo_taken)"
proof -
  have "rd_zpopmin redis_reference (delayed_key ''default'') demo_ready = (None, demo_ready)"
    by (simp add: redis_reference_def demo_ready_eq db_zset_def dict_get_or_def py_sorted_def)
  then show "pump_delayed redis_reference ''default'' 100 1 demo_ready = (0, demo_ready)"
    by (simp add: pump_delayed_def pump_loop_none)
  show "dequeue redis_reference ''default'' demo_ready = (Some ''j'', demo_taken)"
    by (simp add: demo_taken_def dequeue_def redis_reference_def demo_ready_eq db_list_def dict_get_or_def queue_key_def db_set_list_def)
qed

lemma demo_claim_eq: "fst demo_claim = Claim_running ''j'' (fresh_job ''j'' ''echo'' 1 3 []) 1"
proof -
  note p = demo_take(1) and d = demo_take(2) [unfolded demo_taken_def]
  let ?r2 = "demo_ready\<lparr>db_lists := [(''synqc:q:default'', [])]\<rparr>"
  let ?r3 = "write_heartbeat redis_reference demo_worker ''w'' (Some ''j'') ?r2"
  have h: "db_hashes (write_heartbeat redis_reference demo_worker w c x) = db_hashes x" for w c x
    by (simp add: write_heartbeat_def redis_reference_def)
  have j: "job_in (db_contents ?r3) ''j'' = new_hash demo_texts ''echo'' 1 3 []"
    by (simp add: job_in_def db_contents_def db_hash_def h demo_ready_eq dict_get_or_def job_key_def new_hash_def)
  have "get_job redis_reference demo_texts ''j'' ?r3 = Inr (Some (fresh_job ''j'' ''echo'' 1 3 []))"
  proof -
    have "float_reads_back demo_texts 1" "json_reads_back demo_texts (JObj [])"
      by (simp_all add: float_reads_back_def json_reads_back_def demo_texts_def py_strip_def is_space_def)
    then show ?thesis
      using new_hash_reads [of demo_texts 1 "[]" "''j''" "''echo''" 3] by (simp add: get_job_Some [OF redis_reference_laws] j)
  qed
  moreover have "fst (increment_attempts redis_reference ''j'' (update_status redis_reference demo_texts ''j'' Arunning True False 1 ?r3)) = 1"
  proof -
    let ?r4 = "update_status redis_reference demo_texts ''j'' Arunning True False 1 ?r3"
    have "new_hash demo_texts ''echo'' 1 3 [] ''attempts'' = Some (py_str_int 0)" by (simp add: new_hash_def job_fields_def)
    then have "holds_int (db_contents ?r4) (job_key ''j'') ''attempts'' 0"
      unfolding update_status_view [OF redis_reference_laws] j by (simp add: holds_int_def put_job_def status_fields_def Let_def)
    with redis_hincrby(1) [where K = redis_reference and V = db_contents and r = ?r4 and k = "job_key ''j''" and
        f = "''attempts''" and i = 0 and n = 1] redis_reference_laws
    show ?thesis by (simp add: increment_attempts_def int64_def)
  qed
  ultimately show ?thesis
    using p d by (simp add: demo_claim_def begin_job_def demo_times_def or_str_def Let_def split_def fresh_job_def)
qed

definition demo_sys :: "redis_db agent_sys" where
  "demo_sys = agents_init demo_failed"

lemma demo_agent_run:
  obtains es where "runs (agent_step redis_reference demo_texts demo_worker ''default'') (agents_init empty_db) es demo_sys"
proof -
  let ?step = "agent_step redis_reference demo_texts demo_worker ''default''"
  let ?j = "fresh_job ''j'' ''echo'' 1 3 []"
  let ?s1 = "(agents_init demo_created)\<lparr>sy_new := [''j'']\<rparr>" and ?s2 = "agents_init demo_ready"
  let ?s3 = "(agents_init demo_taken)\<lparr>sy_held := [(''j'', Wk_taken)]\<rparr>"
  let ?s4 = "(agents_init (snd demo_claim))\<lparr>sy_held := [(''j'', Wk_running ?j 1)]\<rparr>"
  have c: "demo_created = create_record redis_reference demo_texts ''j'' 1 ''echo'' [] None 3 60 60 empty_db"
    by (simp add: demo_created_def create_job_def Let_def truthy_str_def)
  have 1: "?step (agents_init empty_db) (Ev_create ''j'') ?s1"
    using step_create [of "''j''" redis_reference "agents_init empty_db" demo_texts 1 "[]" 3 demo_worker "''default''" "''echo''" None 60 60]
    by (simp add: c agents_init_def float_reads_back_def json_reads_back_def demo_texts_def py_strip_def is_space_def)
       (simp add: redis_reference_def empty_db_def db_hash_def dict_get_or_def)
  have 2: "?step ?s1 (Ev_enqueue ''j'') ?s2"
    using step_enqueue [of "''j''" ?s1] by (simp add: demo_ready_def agents_init_def)
  have 3: "?step ?s2 (Ev_take ''j'') ?s3"
    using step_take [of redis_reference "''default''" ?s2 "''j''" demo_taken] demo_take(2) by (simp add: agents_init_def)
  have rb: "results_read_back demo_texts demo_worker ph" for ph
    by (cases ph) (simp_all add: results_read_back_def run_agent_in_subprocess_def demo_worker_def get_agent_def)
  have "worker_runs redis_reference demo_texts demo_worker ''default'' ''w'' 60 demo_times Child_alive ''j'' 4 Wk_taken (sy_redis ?s3) =
      (Inr (Some (Wk_running ?j 1)), snd demo_claim)"
  proof -
    have "dequeue redis_reference ''default'' (snd (pump_delayed redis_reference ''default'' 100 (wt_pump demo_times) demo_ready)) =
        (Some ''j'', demo_taken)" using demo_take by (simp add: demo_times_def)
    from begin_job_commands [OF this, of demo_texts demo_worker "''w''" 60 Child_alive] show ?thesis
      by (simp add: demo_claim_def [symmetric] split_def demo_claim_eq agents_init_def)
  qed
  from worker_runs_steps [OF this _ rb] obtain es4 where 4: "runs ?step ?s3 es4 ?s4"
    by (auto simp: agents_init_def held_after_def)
  have "worker_runs redis_reference demo_texts demo_worker ''default'' ''w'' 60 demo_times Child_alive ''j'' 3 (Wk_running ?j 1) (sy_redis ?s4) =
      (Inr None, demo_failed)"
    by (simp add: finish_job_commands demo_failed_def agents_init_def split_def) (simp add: finish_job_def child_outcome_def)
  from worker_runs_steps [OF this _ rb] obtain es5 where 5: "runs ?step ?s4 es5 demo_sys"
    by (auto simp: agents_init_def held_after_def demo_sys_def)
  have "runs ?step (agents_init empty_db) [Ev_create ''j'', Ev_enqueue ''j'', Ev_take ''j''] ?s3"
    using 1 2 3 by (auto simp: runs_Cons_iff)
  then have "runs ?step (agents_init empty_db) ([Ev_create ''j'', Ev_enqueue ''j'', Ev_take ''j''] @ es4 @ es5) demo_sys"
    using 4 5 by (auto simp only: runs_append)
  then show thesis by (rule that)
qed

lemma status_fields_status: "reads_job X a (status_fields X st started finished now h) j \<Longrightarrow> aj_status j = st"
  by (auto simp: reads_job_fields status_fields_def Let_def job_simps split: if_splits)

lemma demo_failed_job:
  obtains j where "get_job redis_reference demo_texts ''j'' demo_failed = Inr (Some j)" and "aj_status j = Afailed"
proof -
  have ok: "agent_ok db_contents demo_texts ''default'' demo_sys"
    by (rule demo_agent_run) (use agents.runs_ok redis_reference_laws agents_start_ok [OF demo_start] in blast)
  have "\<exists>h. job_in (db_contents demo_failed) ''j'' = status_fields demo_texts Afailed False True 1 h"
    by (simp add: demo_failed_def finish_job_def child_outcome_def fail_job_def update_status_view [OF redis_reference_laws] job_simps
        demo_times_def) blast
  then obtain h where h: "job_in (db_contents demo_failed) ''j'' = status_fields demo_texts Afailed False True 1 h" ..
  then have ne: "job_in (db_contents (sy_redis demo_sys)) ''j'' \<noteq> Map.empty"
    by (simp add: demo_sys_def agents_init_def status_fields_def Let_def)
  from placed_job [OF agent_okD(2) [OF ok, of "''j''"] ne] obtain j where
    "job_sound demo_texts ''j'' (job_in (db_contents (sy_redis demo_sys)) ''j'') j" by metis
  then have r: "reads_job demo_texts ''j'' (job_in (db_contents demo_failed) ''j'') j"
    by (simp add: job_sound_def demo_sys_def agents_init_def)
  then have "aj_status j = Afailed" unfolding h by (rule status_fields_status)
  then show thesis using that r by (simp add: get_job_Some [OF redis_reference_laws])
qed

theorem no_agent_job_is_lost_witness:
  "\<exists>j. get_job redis_reference demo_texts ''j'' (sy_redis demo_sys) = Inr (Some j) \<and> aj_attempts j \<le> max 1 (or_int (Some (aj_max_attempts j)) 3)"
proof (rule demo_agent_run)
  fix es
  assume run: "runs (agent_step redis_reference demo_texts demo_worker ''default'') (agents_init empty_db) es demo_sys"
  have "get_job redis_reference demo_texts ''j'' (sy_redis demo_sys) \<noteq> Inr None"
    by (rule demo_failed_job) (simp add: demo_sys_def agents_init_def)
  then show ?thesis
    using no_agent_job_is_lost [OF redis_reference_laws demo_start run] by blast
qed

theorem ended_agent_job_stays_witness:
  "\<exists>j c. get_job redis_reference demo_texts ''j'' (request_cancel redis_reference ''j'' demo_failed) = Inr (Some (j\<lparr>aj_cancel_requested := c\<rparr>))"
proof (rule demo_agent_run, rule demo_failed_job)
  fix es j
  assume run: "runs (agent_step redis_reference demo_texts demo_worker ''default'') (agents_init empty_db) es demo_sys"
  assume j: "get_job redis_reference demo_texts ''j'' demo_failed = Inr (Some j)" and f: "aj_status j = Afailed"
  let ?s1 = "demo_sys\<lparr>sy_cancels := [''j'']\<rparr>"
  have "agent_step redis_reference demo_texts demo_worker ''default'' demo_sys (Ev_ask ''j'') ?s1"
    using step_ask [of redis_reference demo_texts "''j''" demo_sys j] j by (simp add: demo_sys_def agents_init_def)
  moreover have "agent_step redis_reference demo_texts demo_worker ''default'' ?s1 (Ev_cancel ''j'')
      (agents_init (request_cancel redis_reference ''j'' demo_failed))"
    using step_cancel [of "''j''" ?s1] by (simp add: demo_sys_def agents_init_def)
  ultimately have "runs (agent_step redis_reference demo_texts demo_worker ''default'') demo_sys [Ev_ask ''j'', Ev_cancel ''j'']
      (agents_init (request_cancel redis_reference ''j'' demo_failed))" by (auto simp: runs_Cons_iff)
  from ended_agent_job_stays [OF redis_reference_laws demo_start run _ _ this, of "''j''" j] j f
  show ?thesis by (auto simp: demo_sys_def agents_init_def)
qed

end
