(* ===== verification/Consumer_Api.thy ===== *)
theory Consumer_Api
  imports Agent_Worker
begin

text \<open>
  The agent endpoints of \<open>consumer_api.py\<close> and the benchmark events of \<open>bench_store.py\<close> that the
  sandbox route records. The state is the server of the jobs and the sink of the events. The sandbox
  service, the environment variables and the readings of the clock are arguments.
\<close>

section \<open>Benchmark events\<close>

record bench_event =
  be_ts_unix :: real
  be_kind :: string
  be_agent :: string
  be_job_id :: string
  be_ok :: bool
  be_latency_ms :: int
  be_details :: "(string \<times> json) list"

text \<open>
  The three places an event may go: rows of the SQLite table, entries of the Redis stream, samples
  of the Prometheus counter and histogram. \<open>be_sink_fails\<close> is the exception of a database that
  cannot be opened or a server that does not answer.
\<close>

record bench_sink =
  bs_rows :: "bench_event list"
  bs_stream :: "bench_event list"
  bs_counts :: "((string \<times> bool), int) dict"
  bs_latencies :: "(string \<times> real) list"

record bench_env =
  bv_mode :: "string option"
  bv_redis_url :: "string option"
  bv_fallback_url :: "string option"
  bv_sink_fails :: "py_exn option"

definition storage_mode :: "bench_env \<Rightarrow> string" where
  "storage_mode B = py_lower (py_strip (case bv_mode B of None \<Rightarrow> ''sqlite'' | Some m \<Rightarrow> m))"

definition env_strip_or_empty :: "string option \<Rightarrow> string" where
  "env_strip_or_empty raw = py_strip (case raw of None \<Rightarrow> [] | Some t \<Rightarrow> t)"

definition bench_redis_url :: "bench_env \<Rightarrow> string" where
  "bench_redis_url B =
     (let u = env_strip_or_empty (bv_redis_url B) in if u = [] then env_strip_or_empty (bv_fallback_url B) else u)"

definition record_event :: "bench_env \<Rightarrow> bench_event \<Rightarrow> bench_sink \<Rightarrow> unit py \<times> bench_sink" where
  "record_event B event s =
     (let mode = storage_mode B in
      if mode = ''sqlite'' then
        (case bv_sink_fails B of Some e \<Rightarrow> (Inl e, s) | None \<Rightarrow> (Inr (), s\<lparr>bs_rows := bs_rows s @ [event]\<rparr>))
      else if mode = ''redis'' then
        (if bench_redis_url B = []
         then (Inl (ExnRuntime ''SYNQC_STORAGE_MODE=redis requires SYNQC_REDIS_URL (or REDIS_URL).''), s)
         else (case bv_sink_fails B of Some e \<Rightarrow> (Inl e, s) | None \<Rightarrow> (Inr (), s\<lparr>bs_stream := bs_stream s @ [event]\<rparr>)))
      else if mode = ''prometheus'' then
        (Inr (), s\<lparr>bs_counts := dict_set (be_agent event, be_ok event)
                     (dict_get_or 0 (bs_counts s) (be_agent event, be_ok event) + 1) (bs_counts s),
                   bs_latencies := bs_latencies s @ [(be_agent event, of_int (be_latency_ms event))]\<rparr>)
      else (Inl (ExnValue (''Unknown SYNQC_STORAGE_MODE='' @ CHR 0x27 # mode @ [CHR 0x27])), s))"

section \<open>Agents\<close>

definition agents_list :: "agent list \<Rightarrow> agent_metadata list" where
  "agents_list types = list_agents types"

text \<open>An agent whose self test raises is reported with the text of the exception.\<close>

definition agents_health :: "agent list \<Rightarrow> agent_self_test list" where
  "agents_health types =
     map (\<lambda>meta. case py_bind (get_agent types (am_name meta)) ag_self_test of
            Inr res \<Rightarrow> res
          | Inl e \<Rightarrow> \<lparr>st_agent = am_name meta, st_ok = False, st_details = [(''error'', JStr (exn_text e))], st_warnings = []\<rparr>)
       (list_agents types)"

section \<open>Submissions\<close>

record job_submit_response =
  js_job_id :: string
  js_reused_existing :: bool
  js_status :: agent_status

text \<open>
  The environment of a request: the agents, \<open>SYNQC_JOB_MAX_ATTEMPTS\<close>, the two sandbox variables, the
  sandbox service (its JSON answer or the exception of the call), and the times of the request.
\<close>

record consumer_env =
  ce_agents :: "agent list"
  ce_max_attempts :: "string option"
  ce_sandbox_url :: "string option"
  ce_sandbox_enable :: "string option"
  ce_sandbox :: "agent_run_input \<Rightarrow> json py"
  ce_bench :: bench_env
  ce_now :: real
  ce_finished :: real
  ce_latency_ms :: int

definition sandbox_enabled :: "consumer_env \<Rightarrow> bool" where
  "sandbox_enabled E =
     (py_lower (case ce_sandbox_enable E of None \<Rightarrow> ''true'' | Some t \<Rightarrow> t) \<in> {''1'', ''true'', ''yes''})"

definition sandbox_routed :: "consumer_env \<Rightarrow> string \<Rightarrow> bool" where
  "sandbox_routed E agent_name =
     (sandbox_enabled E \<and> py_lower agent_name = ''grover_search'' \<and> env_strip_or_empty (ce_sandbox_url E) \<noteq> [])"

definition sandbox_event :: "consumer_env \<Rightarrow> string \<Rightarrow> string \<Rightarrow> bool \<Rightarrow> (string \<times> json) list \<Rightarrow> bench_event" where
  "sandbox_event E agent_name job_id succeeded extra =
     \<lparr>be_ts_unix = ce_finished E, be_kind = ''sandbox_run'', be_agent = agent_name, be_job_id = job_id, be_ok = succeeded,
       be_latency_ms = ce_latency_ms E,
       be_details = [(''sandbox_url'', JStr (env_strip_or_empty (ce_sandbox_url E))),
         (''status'', JStr (if succeeded then ''succeeded'' else ''failed''))] @ extra\<rparr>"

text \<open>The exception handler: it also runs when the event of a success could not be recorded.\<close>

definition sandbox_failed :: "'r redis_data \<Rightarrow> text_codec \<Rightarrow> consumer_env \<Rightarrow> string \<Rightarrow> string \<Rightarrow> py_exn \<Rightarrow> 'r \<times> bench_sink
    \<Rightarrow> unit py \<times> 'r \<times> bench_sink" where
  "sandbox_failed K X E agent_name job_id e s =
     (let r1 = set_error K X job_id ''SANDBOX_ERROR'' (exn_text e)
                 [(''sandbox'', JStr ''grover''), (''latency_ms'', JInt (ce_latency_ms E))] (fst s);
          r2 = update_status K X job_id Afailed False True (ce_finished E) r1;
          (res, b) = record_event (ce_bench E)
             (sandbox_event E agent_name job_id False [(''error'', JStr (exn_text e))]) (snd s) in
      (res, r2, b))"

definition sandbox_run :: "'r redis_data \<Rightarrow> text_codec \<Rightarrow> consumer_env \<Rightarrow> string \<Rightarrow> agent_run_input \<Rightarrow> string \<Rightarrow> 'r \<times> bench_sink
    \<Rightarrow> unit py \<times> 'r \<times> bench_sink" where
  "sandbox_run K X E agent_name run_input job_id s =
     (let r1 = update_status K X job_id Arunning True False (ce_now E) (fst s) in
      case ce_sandbox E run_input of
        Inl e \<Rightarrow> sandbox_failed K X E agent_name job_id e (r1, snd s)
      | Inr payload \<Rightarrow>
          (let r2 = set_result K X job_id
                 (JObj [(''sandbox'', JStr ''grover''), (''latency_ms'', JInt (ce_latency_ms E)), (''payload'', payload)]) r1;
               r3 = update_status K X job_id Asucceeded False True (ce_finished E) r2 in
           case record_event (ce_bench E) (sandbox_event E agent_name job_id True []) (snd s) of
             (Inr _, b) \<Rightarrow> (Inr (), r3, b)
           | (Inl e, b) \<Rightarrow> sandbox_failed K X E agent_name job_id e (r3, b)))"

text \<open>
  The polling loop of a caller that waits. Each element is one iteration: the time its test reads
  and the server its \<open>get_job\<close> reads; the list stands for the iterations the clock allows.
\<close>

fun wait_loop :: "'r redis_data \<Rightarrow> text_codec \<Rightarrow> string \<Rightarrow> bool \<Rightarrow> real \<Rightarrow> (real \<times> 'r) list \<Rightarrow> job_submit_response py" where
  "wait_loop K X job_id reused deadline [] =
     Inr \<lparr>js_job_id = job_id, js_reused_existing = reused, js_status = Arunning\<rparr>"
| "wait_loop K X job_id reused deadline ((now, r) # polls) =
     (if now < deadline
      then (case get_job K X job_id r of
          Inl e \<Rightarrow> Inl e
        | Inr None \<Rightarrow> Inr \<lparr>js_job_id = job_id, js_reused_existing = reused, js_status = Arunning\<rparr>
        | Inr (Some job) \<Rightarrow>
            if aj_status job \<in> {Asucceeded, Afailed, Acancelled}
            then Inr \<lparr>js_job_id = job_id, js_reused_existing = reused, js_status = aj_status job\<rparr>
            else wait_loop K X job_id reused deadline polls)
      else Inr \<lparr>js_job_id = job_id, js_reused_existing = reused, js_status = Arunning\<rparr>)"

text \<open>\<open>run_agent\<close> after the sandbox part: the job is queued whatever the sandbox did.\<close>

definition queue_and_answer :: "'r redis_data \<Rightarrow> text_codec \<Rightarrow> consumer_env \<Rightarrow> string \<Rightarrow> bool \<Rightarrow> int \<Rightarrow> (real \<times> 'r) list
    \<Rightarrow> string \<Rightarrow> bool \<Rightarrow> 'r \<times> bench_sink \<Rightarrow> job_submit_response py \<times> 'r \<times> bench_sink" where
  "queue_and_answer K X E queue_name wait timeout polls job_id reused s =
     (let r1 = (if reused then fst s else enqueue_ready K queue_name job_id (fst s)) in
      if \<not> wait then (Inr \<lparr>js_job_id = job_id, js_reused_existing = reused, js_status = Aqueued\<rparr>, r1, snd s)
      else (wait_loop K X job_id reused (ce_now E + of_int timeout) polls, r1, snd s))"

definition run_agent :: "'r redis_data \<Rightarrow> text_codec \<Rightarrow> consumer_env \<Rightarrow> string \<Rightarrow> string \<Rightarrow> agent_run_input \<Rightarrow> string option
    \<Rightarrow> string \<Rightarrow> bool \<Rightarrow> int \<Rightarrow> (real \<times> 'r) list \<Rightarrow> 'r \<times> bench_sink \<Rightarrow> job_submit_response py \<times> 'r \<times> bench_sink" where
  "run_agent K X E new_id agent_name run_input ikey queue_name wait timeout polls s =
     (case get_agent (ce_agents E) agent_name of
        Inl e \<Rightarrow> (Inl (HTTPExn 404 (exn_text e)), s)
      | Inr _ \<Rightarrow>
          (let ((job_id, reused), r1) = create_job K X new_id (ce_now E) agent_name (run_input_value run_input) ikey
                 (worker_env_int (ce_max_attempts E) 3) (7 * 24 * 3600) (24 * 3600) (fst s) in
           if sandbox_routed E agent_name
           then (case sandbox_run K X E agent_name run_input job_id (r1, snd s) of
               (Inl e, s2) \<Rightarrow> (Inl e, s2)
             | (Inr _, s2) \<Rightarrow>
                 if wait
                 then (py_bind (get_job K X job_id (fst s2))
                         (\<lambda>j. Inr \<lparr>js_job_id = job_id, js_reused_existing = reused,
                                   js_status = (case j of None \<Rightarrow> Afailed | Some job \<Rightarrow> aj_status job)\<rparr>), s2)
                 else queue_and_answer K X E queue_name wait timeout polls job_id reused s2)
           else queue_and_answer K X E queue_name wait timeout polls job_id reused (r1, snd s)))"

section \<open>Jobs\<close>

record job_public =
  jp_job_id :: string
  jp_agent :: string
  jp_status :: agent_status
  jp_created_at_unix :: real
  jp_started_at_unix :: "real option"
  jp_finished_at_unix :: "real option"
  jp_attempts :: int
  jp_max_attempts :: int
  jp_cancel_requested :: bool
  jp_result :: "(string \<times> json) list option"
  jp_error :: "json option"

definition job_status :: "'r redis_data \<Rightarrow> text_codec \<Rightarrow> string \<Rightarrow> bool \<Rightarrow> 'r \<Rightarrow> job_public py" where
  "job_status K X job_id include_result r =
     py_bind (get_job K X job_id r) (\<lambda>j. case j of
        None \<Rightarrow> Inl (HTTPExn 404 ''Unknown job id'')
      | Some job \<Rightarrow>
          Inr \<lparr>jp_job_id = aj_job_id job, jp_agent = aj_agent job, jp_status = aj_status job,
            jp_created_at_unix = aj_created_at_unix job, jp_started_at_unix = aj_started_at_unix job,
            jp_finished_at_unix = aj_finished_at_unix job, jp_attempts = aj_attempts job,
            jp_max_attempts = aj_max_attempts job, jp_cancel_requested = aj_cancel_requested job,
            jp_result = (if include_result then aj_result job else None),
            jp_error = map_option error_value (aj_error job)\<rparr>)"

definition job_cancel :: "'r redis_data \<Rightarrow> text_codec \<Rightarrow> string \<Rightarrow> 'r \<Rightarrow> unit py \<times> 'r" where
  "job_cancel K X job_id r =
     (case get_job K X job_id r of
        Inl e \<Rightarrow> (Inl e, r)
      | Inr None \<Rightarrow> (Inl (HTTPExn 404 ''Unknown job id''), r)
      | Inr (Some job) \<Rightarrow> (Inr (), request_cancel K job_id r))"

record queue_health =
  qh_redis_ok :: bool
  qh_name :: string
  qh_depth :: nat
  qh_delayed_depth :: nat

text \<open>\<open>rd_ping\<close> gives \<open>None\<close> for the exception of a server that does not answer.\<close>

definition health_extended :: "'r redis_data \<Rightarrow> string \<Rightarrow> 'r \<Rightarrow> queue_health" where
  "health_extended K queue_name r =
     \<lparr>qh_redis_ok = (rd_ping K r = Some True), qh_name = queue_name, qh_depth = queue_depth K queue_name r,
      qh_delayed_depth = delayed_depth K queue_name r\<rparr>"

section \<open>Properties\<close>

lemma get_job_frame:
  assumes "redis_laws K V" and "rv_hash (V r') = rv_hash (V r)"
  shows "get_job K X a r' = get_job K X a r"
  using assms by (simp add: get_job_hash job_in_def)

text \<open>
Two submissions of an agent with one idempotency key, while the key lives: the second answers
  with the job of the first, whatever its own input and queue, and leaves the server as it was.
\<close>

theorem idempotent_submission:
  assumes L: "redis_laws K V" and "k \<noteq> []" and "new_id \<noteq> []"
    and "\<not> sandbox_routed E agent" and "\<not> sandbox_routed E' agent" and "ce_agents E' = ce_agents E"
    and first: "run_agent K X E new_id agent i (Some k) q False timeout polls s =
      (Inr \<lparr>js_job_id = job_id, js_reused_existing = False, js_status = st\<rparr>, s1)"
  shows "job_id = new_id \<and>
    run_agent K X E' other_id agent i' (Some k) q' False timeout' polls' s1 =
      (Inr \<lparr>js_job_id = job_id, js_reused_existing = True, js_status = Aqueued\<rparr>, s1)"
proof -
  obtain ag where ag: "get_agent (ce_agents E) agent = Inr ag"
    using first by (cases "get_agent (ce_agents E) agent") (auto simp: run_agent_def)
  obtain jid reused r1 where c: "create_job K X new_id (ce_now E) agent (run_input_value i) (Some k)
      (worker_env_int (ce_max_attempts E) 3) (7 * 24 * 3600) (24 * 3600) (fst s) = ((jid, reused), r1)"
    by (metis prod.exhaust)
  have f: "reused = False" "job_id = jid" "s1 = (enqueue_ready K q jid r1, snd s)"
    using first ag c assms(4) by (auto simp: run_agent_def queue_and_answer_def Let_def)
  have "jid = new_id" and key: "rv_string (V r1) (idempotency_key agent k) = Some new_id"
    using c assms(2) f(1)
    by (auto simp: create_job_def create_record_def truthy_str_def or_str_def Let_def redis_string_simps [OF L] redis_hash_simps [OF L] split: if_splits option.splits)
  moreover have "rv_string (V (fst s1)) (idempotency_key agent k) = Some new_id"
    by (simp add: f(3) enqueue_ready_def redis_list_simps [OF L] key)
  then have "create_job K X other_id (ce_now E') agent (run_input_value i') (Some k)
      (worker_env_int (ce_max_attempts E') 3) (7 * 24 * 3600) (24 * 3600) (fst s1) = ((new_id, True), fst s1)"
    by (rule create_job_reused [OF L assms(2) _ assms(3)])
  ultimately show ?thesis
    using ag assms(5,6) f(2) by (simp add: run_agent_def queue_and_answer_def Let_def)
qed

lemma begin_job_head:
  assumes L: "redis_laws K V" and z: "rv_zset (V r) (delayed_key q) = Map.empty" and l: "rv_list (V r) (queue_key q) = [a]"
    and a: "a \<noteq> []" and j: "reads_job X a (job_in (V r) a) j" "\<not> aj_cancel_requested j"
    and n: "job_in (V r) a ''attempts'' = Some (py_str_int n)" "int64 n" "int64 (n + 1)"
  shows "fst (begin_job K X W q worker t r) = Claim_running a j (n + 1)"
proof -
  have p: "pump_delayed K q 100 (wt_pump t) r = (0, r)"
    using pump_loop_none [OF redis_zset_simps(4) [OF L z]] by (simp add: pump_delayed_def)
  obtain r2 where d: "dequeue K q r = (Some a, r2)" and v2: "V r2 = (V r)\<lparr>rv_list := (rv_list (V r))(queue_key q := [])\<rparr>"
    using redis_list_simps(8,10) [OF L, of r "queue_key q"] l by (cases "dequeue K q r") (simp add: dequeue_def)
  let ?r3 = "write_heartbeat K W worker (Some a) r2"
  let ?r4 = "update_status K X a Arunning True False (wt_started t) ?r3"
  have v3: "job_in (V ?r3) a = job_in (V r) a" by (simp add: heartbeat_view [OF L] v2 job_simps)
  have g: "get_job K X a ?r3 = Inr (Some j)" using j by (simp add: get_job_Some [OF L] v3)
  have "holds_int (V ?r4) (job_key a) ''attempts'' n"
    using n(1) by (simp add: update_status_view [OF L] v3 holds_int_def put_job_def status_fields_def Let_def)
  then have "fst (increment_attempts K a ?r4) = n + 1"
    using redis_hincrby(1) [where K = K and V = V and r = ?r4 and i = n and n = 1] L n(2,3) by (simp add: increment_attempts_def)
  then show ?thesis using p d g a j(2) by (simp add: begin_job_def or_str_def Let_def split_def)
qed

text \<open>
A job that the sandbox has run is queued as well when the caller does not wait: its record says
  it succeeded, and the next worker to look at the queue claims it and runs its agent again.
\<close>

theorem sandboxed_job_runs_again:
  assumes L: "redis_laws K V" and a: "a \<noteq> []" "job_in (V r) a = Map.empty"
    and q: "rv_list (V r) (queue_key q) = []" "rv_zset (V r) (delayed_key q) = Map.empty"
    and E: "get_agent (ce_agents E) agent = Inr ag" "sandbox_routed E agent" "ce_sandbox E i = Inr payload"
      "fst (record_event (ce_bench E) (sandbox_event E agent a True []) b) = Inr ()"
    and t: "float_reads_back X (ce_now E)" "float_reads_back X (ce_finished E)" "json_reads_back X (JObj (run_input_value i))"
      "json_reads_back X (JObj [(''sandbox'', JStr ''grover''), (''latency_ms'', JInt (ce_latency_ms E)), (''payload'', payload)])"
    and s': "run_agent K X E a agent i None q False timeout polls (r, b) = (res, s')"
  shows "res = Inr \<lparr>js_job_id = a, js_reused_existing = False, js_status = Aqueued\<rparr> \<and>
    (\<exists>j. aj_status j = Asucceeded \<and> get_job K X a (fst s') = Inr (Some j) \<and>
       fst (begin_job K X W q worker t (fst s')) = Claim_running a j 1)"
proof -
  let ?m = "worker_env_int (ce_max_attempts E) 3"
  define r1 where "r1 = snd (create_job K X a (ce_now E) agent (run_input_value i) None ?m (7 * 24 * 3600) (24 * 3600) r)"
  have c: "create_job K X a (ce_now E) agent (run_input_value i) None ?m (7 * 24 * 3600) (24 * 3600) r = ((a, False), r1)"
    by (simp add: r1_def create_job_def truthy_str_def Let_def)
  note v1 = create_view [OF L c a(2)]
  let ?res = "[(''sandbox'', JStr ''grover''), (''latency_ms'', JInt (ce_latency_ms E)), (''payload'', payload)]"
  define r4 where "r4 = update_status K X a Asucceeded False True (ce_finished E)
      (set_result K X a (JObj ?res) (update_status K X a Arunning True False (ce_now E) r1))"
  obtain b' where b': "record_event (ce_bench E) (sandbox_event E agent a True []) b = (Inr (), b')"
    using E(4) by (metis prod.collapse)
  have "sandbox_run K X E agent i a (r1, b) = (Inr (), r4, b')"
    using E(3) b' by (simp add: sandbox_run_def r4_def Let_def)
  then have run: "run_agent K X E a agent i None q False timeout polls (r, b) =
      (Inr \<lparr>js_job_id = a, js_reused_existing = False, js_status = Aqueued\<rparr>, enqueue_ready K q a r4, b')"
    using E(1,2) c by (simp add: run_agent_def queue_and_answer_def Let_def)
  let ?h0 = "new_hash X agent (ce_now E) ?m (run_input_value i)"
  let ?h1 = "status_fields X Arunning True False (ce_now E) ?h0"
  let ?h2 = "?h1(''result_json'' \<mapsto> tx_dumps X (JObj ?res))"
  let ?h3 = "status_fields X Asucceeded False True (ce_finished E) ?h2"
  have v4: "V r4 = put_job (V r1) a ?h3"
    by (simp add: r4_def update_status_view [OF L] set_result_view [OF L] job_simps v1(3))
  have v5: "V (enqueue_ready K q a r4) = (put_job (V r1) a ?h3)\<lparr>rv_list := (rv_list (V r1))(queue_key q := [a])\<rparr>"
    by (simp add: enqueue_ready_def redis_list_simps [OF L] v4 job_simps v1(1) q(1))
  note j0 = new_hash_reads [OF t(1,3), of a agent ?m]
  note j1 = reads_status_fields [OF j0, of True False "ce_now E" Arunning, OF t(1)]
  note j2 = reads_result [OF j1 t(4)]
  note j3 = reads_status_fields [OF j2, of False True "ce_finished E" Asucceeded, OF t(2)]
  then obtain j where j: "reads_job X a ?h3 j" "aj_status j = Asucceeded" "\<not> aj_cancel_requested j"
    by (rule that) (simp_all add: fresh_job_def)
  have h: "job_in (V (enqueue_ready K q a r4)) a = ?h3" by (simp add: v5 job_simps)
  have "?h3 ''attempts'' = Some (py_str_int 0)" by (simp add: status_fields_def Let_def new_hash_def job_fields_def)
  then have "fst (begin_job K X W q worker t (enqueue_ready K q a r4)) = Claim_running a j (0 + 1)"
    using a(1) j q(2)
    by (intro begin_job_head [OF L]) (simp_all add: h v5 job_simps v1(2) int64_def)
  then show ?thesis
    using run s' j h by (auto simp: get_job_Some [OF L])
qed

definition demo_consumer :: consumer_env where
  "demo_consumer = \<lparr>ce_agents = [echo_agent, echo_agent\<lparr>ag_info := echo_metadata\<lparr>am_name := ''grover_search''\<rparr>\<rparr>],
     ce_max_attempts = None, ce_sandbox_url = Some ''http://sandbox'', ce_sandbox_enable = None,
     ce_sandbox = (\<lambda>i. Inr (JObj [])),
     ce_bench = \<lparr>bv_mode = None, bv_redis_url = None, bv_fallback_url = None, bv_sink_fails = None\<rparr>,
     ce_now = 1, ce_finished = 1, ce_latency_ms = 5\<rparr>"

definition demo_input :: agent_run_input where
  "demo_input = \<lparr>ri_shots = 256, ri_target = ''simulator'', ri_seed = None, ri_params = [], ri_metadata = []\<rparr>"

definition empty_sink :: bench_sink where
  "empty_sink = \<lparr>bs_rows = [], bs_stream = [], bs_counts = [], bs_latencies = []\<rparr>"

text \<open>Texts for two JSON values and for the time 1.\<close>

definition two_texts :: "json \<Rightarrow> json \<Rightarrow> text_codec" where
  "two_texts x y = \<lparr>tx_str = (\<lambda>x. ''1.0''), tx_float = (\<lambda>t. if t = ''1.0'' then Some 1 else None),
     tx_dumps = (\<lambda>j. if j = x then ''x'' else ''y''), tx_loads = (\<lambda>t. Some (if t = ''x'' then x else y))\<rparr>"

lemma two_texts_ok: "float_reads_back (two_texts x y) 1" "json_reads_back (two_texts x y) x" "json_reads_back (two_texts x y) y"
  by (simp_all add: float_reads_back_def json_reads_back_def two_texts_def py_strip_def is_space_def)

lemma demo_routes: "\<not> sandbox_routed demo_consumer ''echo''" "sandbox_routed demo_consumer ''grover_search''"
  by (simp_all add: sandbox_routed_def sandbox_enabled_def demo_consumer_def env_strip_or_empty_def py_lower_def lower_char_def
      py_strip_def is_space_def Let_def)

theorem idempotent_submission_witness:
  "\<exists>s1. fst (run_agent redis_reference demo_texts demo_consumer ''j'' ''echo'' demo_input (Some ''k'') ''default'' False 20 [] (empty_db, empty_sink)) =
      Inr \<lparr>js_job_id = ''j'', js_reused_existing = False, js_status = Aqueued\<rparr> \<and>
    run_agent redis_reference demo_texts demo_consumer ''other'' ''echo'' demo_input (Some ''k'') ''low'' False 20 [] s1 =
      (Inr \<lparr>js_job_id = ''j'', js_reused_existing = True, js_status = Aqueued\<rparr>, s1)"
proof -
  let ?run = "run_agent redis_reference demo_texts demo_consumer ''j'' ''echo'' demo_input (Some ''k'') ''default'' False 20 [] (empty_db, empty_sink)"
  have g: "get_agent (ce_agents demo_consumer) ''echo'' = Inr echo_agent"
    by (simp add: get_agent_def demo_consumer_def echo_agent_def echo_metadata_def)
  have "fst ?run = Inr \<lparr>js_job_id = ''j'', js_reused_existing = False, js_status = Aqueued\<rparr>"
    by (simp add: run_agent_def g demo_routes create_job_def truthy_str_def or_str_def Let_def queue_and_answer_def
        redis_string_simps [OF redis_reference_laws] empty_db_def db_contents_def)
  then have "?run = (Inr \<lparr>js_job_id = ''j'', js_reused_existing = False, js_status = Aqueued\<rparr>, snd ?run)"
    by (metis prod.collapse)
  from idempotent_submission [OF redis_reference_laws _ _ demo_routes(1) demo_routes(1) refl this, of "''other''" demo_input "''low''" 20 "[]"]
  show ?thesis using \<open>fst ?run = _\<close> by (intro exI [of _ "snd ?run"]) auto
qed

theorem sandboxed_job_runs_again_witness:
  "\<exists>s' j. aj_status j = Asucceeded \<and>
    fst (begin_job redis_reference (two_texts (JObj (run_input_value demo_input))
        (JObj [(''sandbox'', JStr ''grover''), (''latency_ms'', JInt 5), (''payload'', JObj [])]))
      demo_worker ''default'' ''w'' demo_times (s' :: redis_db)) = Claim_running ''j'' j 1"
proof -
  let ?X = "two_texts (JObj (run_input_value demo_input))
        (JObj [(''sandbox'', JStr ''grover''), (''latency_ms'', JInt 5), (''payload'', JObj [])])"
  let ?run = "run_agent redis_reference ?X demo_consumer ''j'' ''grover_search'' demo_input None ''default'' False 20 [] (empty_db, empty_sink)"
  obtain ag where g: "get_agent (ce_agents demo_consumer) ''grover_search'' = Inr ag"
    by (simp add: get_agent_def demo_consumer_def echo_agent_def echo_metadata_def)
  have e: "fst (record_event (ce_bench demo_consumer) (sandbox_event demo_consumer ''grover_search'' ''j'' True []) empty_sink) = Inr ()"
    by (simp add: record_event_def storage_mode_def demo_consumer_def py_strip_def is_space_def py_lower_def lower_char_def Let_def)
  have start: "job_in (db_contents empty_db) ''j'' = Map.empty" "rv_list (db_contents empty_db) (queue_key ''default'') = []"
    "rv_zset (db_contents empty_db) (delayed_key ''default'') = Map.empty"
    using demo_start by (simp_all add: agents_start_def)
  have env: "ce_now demo_consumer = 1" "ce_finished demo_consumer = 1" "ce_latency_ms demo_consumer = 5"
    "ce_sandbox demo_consumer demo_input = Inr (JObj [])" by (simp_all add: demo_consumer_def)
  show ?thesis
    using sandboxed_job_runs_again [where K = redis_reference and V = db_contents and a = "''j''" and r = empty_db and
        q = "''default''" and E = demo_consumer and agent = "''grover_search''" and ag = ag and i = demo_input and
        payload = "JObj []" and b = empty_sink and X = ?X and timeout = 20 and polls = "[]" and res = "fst ?run" and
        s' = "snd ?run" and W = demo_worker and worker = "''w''" and t = demo_times]
      redis_reference_laws start g demo_routes(2) env e two_texts_ok
    by auto
qed

end
