(* ===== verification/Orchestration.thy ===== *)
theory Orchestration
  imports Models Settings
begin

text \<open>
  The workflow engine of \<open>orchestration/\<close> and the agent of \<open>agents/multicall.py\<close> that runs it: the
  event store, a step that starts a call and polls it until it is done or its deadline has passed,
  and the run bundle built from the trace. A payload is a JSON object. The polling loop is a
  \<open>partial_function\<close>: with a clock that stands still and a call that is never done it does not
  return. The clock at each test of the loop, the timestamps and the identifiers drawn are arguments.
\<close>

section \<open>Events\<close>

type_synonym payload = "(string \<times> json) list"

type_synonym event_store = "(string, payload list) dict"

definition event_append :: "string \<Rightarrow> payload \<Rightarrow> real \<Rightarrow> event_store \<Rightarrow> payload \<times> event_store" where
  "event_append experiment_id event now s =
     (let p = dict_setdefault ''timestamp'' (JFloat now) event in
      (p, dict_set experiment_id (dict_get_or [] s experiment_id @ [p]) s))"

definition event_list :: "string \<Rightarrow> int \<Rightarrow> event_store \<Rightarrow> payload list py" where
  "event_list experiment_id limit s =
     (if limit \<le> 0 then Inl (ExnValue ''limit must be positive'')
      else (let items = dict_get_or [] s experiment_id in
            if limit \<ge> int (length items) then Inr items else Inr (py_last limit items)))"

definition event_clear :: "string \<Rightarrow> event_store \<Rightarrow> event_store" where
  "event_clear experiment_id s = dict_pop experiment_id s"

section \<open>Calls and steps\<close>

record http_call_spec =
  hc_method :: string
  hc_url :: string
  hc_json :: "payload option"
  hc_retries :: int
  hc_timeout_seconds :: real
  hc_headers :: "(string, string) dict"

record workflow_ctx =
  wx_experiment_id :: string
  wx_events :: event_store
  wx_state :: "(string, payload) dict"
  wx_trace :: "workflow_step list"

record poll_step =
  pst_name :: string
  pst_start_spec :: http_call_spec
  pst_poll_spec :: "workflow_ctx \<Rightarrow> http_call_spec py"
  pst_is_done :: "payload \<Rightarrow> bool"
  pst_interval_seconds :: real
  pst_timeout_seconds :: real
  pst_save_as :: string

text \<open>
  The outside of a run: the clock when the step starts, at each test of its loop and at each event,
  and the identifier \<open>uuid4\<close> would draw at the start and at each poll.
\<close>

record workflow_env =
  wv_start :: real
  wv_clock :: "nat \<Rightarrow> real"
  wv_stamp :: "nat \<Rightarrow> real"
  wv_uuid :: "nat \<Rightarrow> string"

definition record_workflow_event :: "string \<Rightarrow> payload \<Rightarrow> real \<Rightarrow> workflow_ctx \<Rightarrow> workflow_ctx" where
  "record_workflow_event name p now ctx =
     ctx\<lparr>wx_events := snd (event_append (wx_experiment_id ctx) [(''name'', JStr name), (''payload'', JObj p)] now (wx_events ctx))\<rparr>"

definition add_trace :: "workflow_step \<Rightarrow> workflow_ctx \<Rightarrow> workflow_ctx" where
  "add_trace st ctx = ctx\<lparr>wx_trace := wx_trace ctx @ [st]\<rparr>"

definition set_state :: "string \<Rightarrow> payload \<Rightarrow> workflow_ctx \<Rightarrow> workflow_ctx" where
  "set_state k p ctx = ctx\<lparr>wx_state := dict_set k p (wx_state ctx)\<rparr>"

text \<open>\<open>_simulate_http\<close>: the first poll answers \<open>RUNNING\<close>, every later one \<open>SUCCEEDED\<close>.\<close>

definition simulate_http :: "http_call_spec \<Rightarrow> int \<Rightarrow> payload option \<Rightarrow> string \<Rightarrow> payload" where
  "simulate_http spec attempt prior fresh_id =
     (let prior_id = (case prior of None \<Rightarrow> None | Some p \<Rightarrow> dict_get p ''job_id'');
          job = (case prior_id of None \<Rightarrow> JStr fresh_id | Some j \<Rightarrow> j);
          p = [(''url'', JStr (hc_url spec)), (''method'', JStr (hc_method spec)), (''attempt'', JInt attempt), (''job_id'', job)] in
      if attempt = 0 then p @ [(''status'', JStr ''RUNNING'')]
      else p @ [(''status'', JStr ''SUCCEEDED''),
        (''result'', JObj [(''shots_consumed'', dict_get_or (JInt 0) (case hc_json spec of None \<Rightarrow> [] | Some j \<Rightarrow> j) ''shots'')])])"

definition json_text :: "json option \<Rightarrow> string" where
  "json_text j = (case j of Some (JStr t) \<Rightarrow> t | _ \<Rightarrow> ''None'')"

definition trace_step :: "string \<Rightarrow> string \<Rightarrow> string \<Rightarrow> real \<Rightarrow> workflow_step" where
  "trace_step sid label description percent =
     \<lparr>ws_id = sid, ws_label = label, ws_description = description, ws_percent_complete = percent, ws_dwell_ms = 450\<rparr>"

definition poll_result :: "poll_step \<Rightarrow> payload \<Rightarrow> workflow_ctx \<Rightarrow> workflow_ctx" where
  "poll_result S response ctx =
     add_trace (trace_step (pst_name S @ ''_done'') (pst_name S @ '' done'')
       (pst_name S @ '' finished with status='' @ json_text (dict_get response ''status'')) 85)
     (set_state (pst_save_as S) response ctx)"

definition poll_once :: "poll_step \<Rightarrow> workflow_env \<Rightarrow> nat \<Rightarrow> payload \<Rightarrow> workflow_ctx \<Rightarrow> (payload \<times> workflow_ctx) py" where
  "poll_once S E attempt last_payload ctx =
     py_bind (pst_poll_spec S ctx) (\<lambda>spec.
       let response = simulate_http spec (int attempt) (Some last_payload) (wv_uuid E (attempt + 1));
           ctx1 = set_state (pst_name S @ ''.poll.'' @ py_str_int (int attempt)) response ctx in
       Inr (response, record_workflow_event (pst_name S @ ''.poll'') response (wv_stamp E (attempt + 1)) ctx1))"

definition timed_out :: "poll_step \<Rightarrow> py_exn" where
  "timed_out S = ExnTimeout (''Workflow step '' @ pst_name S @ '' timed out'')"

partial_function (option) poll_loop ::
    "poll_step \<Rightarrow> workflow_env \<Rightarrow> real \<Rightarrow> nat \<Rightarrow> payload \<Rightarrow> workflow_ctx \<Rightarrow> (payload py \<times> workflow_ctx) option" where
  "poll_loop S E deadline attempt last_payload ctx =
     (if wv_clock E attempt < deadline
      then (case poll_once S E attempt last_payload ctx of
          Inl e \<Rightarrow> Some (Inl e, ctx)
        | Inr (response, ctx1) \<Rightarrow>
            if pst_is_done S response then Some (Inr response, poll_result S response ctx1)
            else poll_loop S E deadline (attempt + 1) response ctx1)
      else Some (Inl (timed_out S), ctx))"

definition start_step :: "poll_step \<Rightarrow> workflow_env \<Rightarrow> workflow_ctx \<Rightarrow> payload \<times> workflow_ctx" where
  "start_step S E ctx =
     (let p = simulate_http (pst_start_spec S) 0 None (wv_uuid E 0);
          ctx1 = set_state (pst_name S @ ''.start'') p ctx;
          ctx2 = record_workflow_event (pst_name S @ ''.start'') p (wv_stamp E 0) ctx1 in
      (p, add_trace (trace_step (pst_name S @ ''_start'') (pst_name S @ '' start'')
            (''Started '' @ pst_name S @ '' call to '' @ hc_url (pst_start_spec S)) 10) ctx2))"

definition run_poll_step :: "poll_step \<Rightarrow> workflow_env \<Rightarrow> workflow_ctx \<Rightarrow> (payload py \<times> workflow_ctx) option" where
  "run_poll_step S E ctx =
     (case start_step S E ctx of (p, ctx1) \<Rightarrow>
        poll_loop S E (wv_start E + pst_timeout_seconds S) 0 p ctx1)"

text \<open>\<open>Workflow.run\<close>: the steps in order; an exception of one ends the run.\<close>

fun run_workflow :: "poll_step list \<Rightarrow> workflow_env \<Rightarrow> workflow_ctx \<Rightarrow> (unit py \<times> workflow_ctx) option" where
  "run_workflow [] E ctx = Some (Inr (), ctx)"
| "run_workflow (S # steps) E ctx =
     (case run_poll_step S E ctx of
        None \<Rightarrow> None
      | Some (Inl e, ctx1) \<Rightarrow> Some (Inl e, ctx1)
      | Some (Inr _, ctx1) \<Rightarrow> run_workflow steps E ctx1)"

definition build_workflow_context :: "string \<Rightarrow> event_store \<Rightarrow> workflow_ctx" where
  "build_workflow_context experiment_id events =
     \<lparr>wx_experiment_id = experiment_id, wx_events = events, wx_state = [], wx_trace = []\<rparr>"

definition kpi_bundle_from_trace :: "workflow_ctx \<Rightarrow> int \<Rightarrow> kpi_bundle" where
  "kpi_bundle_from_trace ctx shot_budget =
     (let found = dict_get_or [] (wx_state ctx) ''provider_job_status'' \<noteq> [] in
      \<lparr>k_fidelity = Some (if found then 94 / 100 else 9 / 10),
       k_latency_us = (if wx_trace ctx \<noteq> [] then Some (of_nat (length (wx_trace ctx)) * 500000) else None),
       k_backaction = Some (if found then 18 / 100 else 22 / 100),
       k_raw_counts = Some [(''00'', shot_budget div 2), (''11'', shot_budget div 2)],
       k_expected_distribution = Some [(''00'', 1 / 2), (''11'', 1 / 2)],
       k_shots_used = shot_budget, k_shot_budget = shot_budget, k_status = OK\<rparr>)"

section \<open>The multi-call agent\<close>

definition provider_base :: string where
  "provider_base = ''https://provider.example.com''"

text \<open>\<open>c.state['provider_job.start']['job_id']\<close> raises \<open>KeyError\<close> when the entry is missing.\<close>

definition provider_poll_spec :: "workflow_ctx \<Rightarrow> http_call_spec py" where
  "provider_poll_spec ctx =
     (case dict_get (wx_state ctx) ''provider_job.start'' of
        None \<Rightarrow> Inl (ExnKey ''provider_job.start'')
      | Some p \<Rightarrow>
     (case dict_get p ''job_id'' of
        None \<Rightarrow> Inl (ExnKey ''job_id'')
      | Some j \<Rightarrow>
          Inr \<lparr>hc_method = ''GET'', hc_url = provider_base @ ''/jobs/'' @ json_text (Some j), hc_json = None, hc_retries = 2,
            hc_timeout_seconds = 10, hc_headers = []\<rparr>))"

definition status_final :: "payload \<Rightarrow> bool" where
  "status_final p =
     (case dict_get p ''status'' of Some (JStr t) \<Rightarrow> t \<in> {''SUCCEEDED'', ''FAILED''} | _ \<Rightarrow> False)"

text \<open>The request as \<open>model_dump\<close> gives it has no \<open>program\<close>; its \<open>shot_budget\<close> may be \<open>None\<close>.\<close>

definition provider_job_step :: "run_experiment_request \<Rightarrow> poll_step" where
  "provider_job_step req =
     \<lparr>pst_name = ''provider_job'',
       pst_start_spec = \<lparr>hc_method = ''POST'', hc_url = provider_base @ ''/jobs'',
         hc_json = Some [(''program'', JStr ''...''), (''shots'', json_opt JInt (rq_shot_budget req))],
         hc_retries = 2, hc_timeout_seconds = 10, hc_headers = []\<rparr>,
       pst_poll_spec = provider_poll_spec, pst_is_done = status_final, pst_interval_seconds = 3 / 2,
       pst_timeout_seconds = 600, pst_save_as = ''provider_job_status''\<rparr>"

text \<open>
  \<open>run_multicall_agent\<close>. A contract that does not validate raises before the bundle is built; the
  workflow state goes into the artifacts.
\<close>

definition run_multicall_agent :: "settings \<Rightarrow> workflow_env \<Rightarrow> string \<Rightarrow> run_experiment_request \<Rightarrow> real \<Rightarrow> event_store
    \<Rightarrow> (run_response py \<times> event_store) option" where
  "run_multicall_agent cfg E experiment_id req created_at events =
     (case run_workflow [provider_job_step req] E (build_workflow_context experiment_id events) of
        None \<Rightarrow> None
      | Some (Inl e, ctx) \<Rightarrow> Some (Inl e, wx_events ctx)
      | Some (Inr _, ctx) \<Rightarrow>
          (let shot_budget = or_int (rq_shot_budget req) (st_default_shot_budget cfg) in
           Some (case infer_contract (rq_hardware_target req) shot_budget shot_budget (Some 18) None (Some ''Z'') of
               Inl _ \<Rightarrow> Inl ExnValidation
             | Inr contract \<Rightarrow>
                 (let kpis = kpi_bundle_from_trace ctx shot_budget in
                  Inr \<lparr>rr_id = experiment_id, rr_preset = MULTICALL_DUAL_CLOCKING, rr_hardware_target = rq_hardware_target req,
                    rr_kpis = kpis, rr_created_at = created_at,
                    rr_shots = Some \<lparr>su_requested = Some shot_budget, su_executed = Some (k_shots_used kpis)\<rparr>,
                    rr_measurement = Some \<lparr>md_model = me_model (pc_measurement contract), md_basis = me_basis (pc_measurement contract),
                      md_povm = me_povm (pc_measurement contract), md_descriptor = me_notes (pc_measurement contract)\<rparr>,
                    rr_noise = Some \<lparr>nd_model = no_model (pc_noise contract), nd_params = no_params (pc_noise contract),
                      nd_descriptor = no_notes (pc_noise contract)\<rparr>,
                    rr_assumptions = pc_assumptions contract, rr_qubits_used = 18, rr_notes = rq_notes req,
                    rr_control_profile = rq_control_overrides req, rr_physics_contract = Some contract,
                    rr_kpi_details = None, rr_kpi_observations = None,
                    rr_artifacts = Some [(''workflow_state'', JObj (map (\<lambda>(k, p). (k, JObj p)) (wx_state ctx)))],
                    rr_error_code = None, rr_error_message = None, rr_error_detail = None, rr_action_hint = None,
                    rr_workflow_trace = wx_trace ctx\<rparr>), wx_events ctx)))"

section \<open>Properties\<close>

lemma simulate_first:
  "simulate_http spec 0 prior u = [(''url'', JStr (hc_url spec)), (''method'', JStr (hc_method spec)), (''attempt'', JInt 0),
     (''job_id'', case Option.bind prior (\<lambda>p. dict_get p ''job_id'') of None \<Rightarrow> JStr u | Some j \<Rightarrow> j), (''status'', JStr ''RUNNING'')]"
  by (simp add: simulate_http_def Let_def split: option.split)

lemma simulate_status:
  "dict_get (simulate_http spec k prior u) ''status'' = Some (JStr (if k = 0 then ''RUNNING'' else ''SUCCEEDED''))"
  by (simp add: simulate_http_def Let_def)

lemma simulate_job_id:
  "dict_get (simulate_http spec k prior u) ''job_id'' =
     Some (case Option.bind prior (\<lambda>p. dict_get p ''job_id'') of None \<Rightarrow> JStr u | Some j \<Rightarrow> j)"
  by (simp add: simulate_http_def Let_def split: option.split)

lemma status_final_simulated: "status_final (simulate_http spec k prior u) \<longleftrightarrow> k \<noteq> 0"
  by (simp add: status_final_def simulate_status)

definition has_job :: "workflow_ctx \<Rightarrow> bool" where
  "has_job ctx = (\<exists>p j. dict_get (wx_state ctx) ''provider_job.start'' = Some p \<and> dict_get p ''job_id'' = Some j)"

lemma provider_step_simps:
  "pst_name (provider_job_step req) = ''provider_job''" "pst_is_done (provider_job_step req) = status_final"
  "pst_poll_spec (provider_job_step req) = provider_poll_spec" "pst_timeout_seconds (provider_job_step req) = 600"
  "pst_save_as (provider_job_step req) = ''provider_job_status''"
  by (simp_all add: provider_job_step_def)

lemma ctx_simps [simp]:
  "wx_state (record_workflow_event n p t ctx) = wx_state ctx" "wx_trace (record_workflow_event n p t ctx) = wx_trace ctx"
  "wx_state (add_trace st ctx) = wx_state ctx" "wx_trace (add_trace st ctx) = wx_trace ctx @ [st]"
  "wx_events (add_trace st ctx) = wx_events ctx" "wx_events (set_state k p ctx) = wx_events ctx"
  "wx_state (set_state k p ctx) = dict_set k p (wx_state ctx)" "wx_trace (set_state k p ctx) = wx_trace ctx"
  "wx_experiment_id (set_state k p ctx) = wx_experiment_id ctx" "wx_experiment_id (add_trace st ctx) = wx_experiment_id ctx"
  "wx_experiment_id (record_workflow_event n p t ctx) = wx_experiment_id ctx"
  by (simp_all add: record_workflow_event_def add_trace_def set_state_def)

lemma poll_once_provider:
  assumes "has_job ctx"
  obtains spec where "poll_once (provider_job_step req) E n last_payload ctx =
      Inr (simulate_http spec (int n) (Some last_payload) (wv_uuid E (n + 1)),
        record_workflow_event ''provider_job.poll'' (simulate_http spec (int n) (Some last_payload) (wv_uuid E (n + 1))) (wv_stamp E (n + 1))
          (set_state (''provider_job.poll.'' @ py_str_int (int n)) (simulate_http spec (int n) (Some last_payload) (wv_uuid E (n + 1))) ctx))"
proof -
  from assms obtain spec where "provider_poll_spec ctx = Inr spec"
    by (auto simp: has_job_def provider_poll_spec_def)
  then show thesis using that by (simp add: poll_once_def provider_step_simps Let_def)
qed

lemma event_append_get:
  "dict_get_or [] (snd (event_append a ev t s)) b =
    (if b = a then dict_get_or [] s a @ [dict_setdefault ''timestamp'' (JFloat t) ev] else dict_get_or [] s b)"
  by (simp add: event_append_def Let_def dict_get_or_def dict_simps)

lemma record_event_count:
  "length (dict_get_or [] (wx_events (record_workflow_event n p t ctx)) b) =
    length (dict_get_or [] (wx_events ctx) b) + (if b = wx_experiment_id ctx then 1 else 0)"
  by (simp add: record_workflow_event_def event_append_get)

text \<open>The step of the agent: it is done after its second poll, or it times out.\<close>

lemma provider_step_outcome:
  assumes "run_poll_step (provider_job_step req) E (build_workflow_context a ev) = out"
  shows "\<exists>r ctx. out = Some (r, ctx) \<and> wx_experiment_id ctx = a \<and>
    (if wv_clock E 0 < wv_start E + 600 \<and> wv_clock E 1 < wv_start E + 600
     then (\<exists>p. r = Inr p \<and> dict_get p ''status'' = Some (JStr ''SUCCEEDED'') \<and> dict_get (wx_state ctx) ''provider_job_status'' = Some p) \<and>
       map ws_id (wx_trace ctx) = [''provider_job_start'', ''provider_job_done''] \<and>
       length (dict_get_or [] (wx_events ctx) a) = length (dict_get_or [] ev a) + 3
     else r = Inl (timed_out (provider_job_step req)))"
proof -
  let ?S = "provider_job_step req"
  obtain p0 c0 where st: "start_step ?S E (build_workflow_context a ev) = (p0, c0)" by fastforce
  have c0: "has_job c0" "wx_experiment_id c0 = a" "map ws_id (wx_trace c0) = [''provider_job_start'']"
      "length (dict_get_or [] (wx_events c0) a) = length (dict_get_or [] ev a) + 1"
    using st
    by (auto simp: start_step_def Let_def has_job_def provider_step_simps build_workflow_context_def simulate_job_id dict_simps
        record_event_count trace_step_def)
  from poll_once_provider [OF c0(1), of req E 0 p0] obtain sp0 where
    p0: "poll_once ?S E 0 p0 c0 = Inr (simulate_http sp0 (int 0) (Some p0) (wv_uuid E (0 + 1)),
      record_workflow_event ''provider_job.poll'' (simulate_http sp0 (int 0) (Some p0) (wv_uuid E (0 + 1))) (wv_stamp E (0 + 1))
        (set_state (''provider_job.poll.'' @ py_str_int (int 0)) (simulate_http sp0 (int 0) (Some p0) (wv_uuid E (0 + 1))) c0))"
    by blast
  define p1 where "p1 = simulate_http sp0 (int 0) (Some p0) (wv_uuid E (0 + 1))"
  define c1 where "c1 = record_workflow_event ''provider_job.poll'' p1 (wv_stamp E (0 + 1))
        (set_state (''provider_job.poll.'' @ py_str_int (int 0)) p1 c0)"
  have c1: "has_job c1" "wx_experiment_id c1 = a" "map ws_id (wx_trace c1) = [''provider_job_start'']"
      "length (dict_get_or [] (wx_events c1) a) = length (dict_get_or [] ev a) + 2"
    using c0 by (auto simp: c1_def has_job_def dict_simps record_event_count)
  from poll_once_provider [OF c1(1), of req E 1 p1] obtain sp1 where
    "poll_once ?S E 1 p1 c1 = Inr (simulate_http sp1 (int 1) (Some p1) (wv_uuid E (1 + 1)),
      record_workflow_event ''provider_job.poll'' (simulate_http sp1 (int 1) (Some p1) (wv_uuid E (1 + 1))) (wv_stamp E (1 + 1))
        (set_state (''provider_job.poll.'' @ py_str_int (int 1)) (simulate_http sp1 (int 1) (Some p1) (wv_uuid E (1 + 1))) c1))"
    by blast
  moreover define p2 where "p2 = simulate_http sp1 (int 1) (Some p1) (wv_uuid E (1 + 1))"
  moreover define c2 where "c2 = record_workflow_event ''provider_job.poll'' p2 (wv_stamp E (1 + 1))
        (set_state (''provider_job.poll.'' @ py_str_int (int 1)) p2 c1)"
  ultimately have o1: "poll_once ?S E 1 p1 c1 = Inr (p2, c2)" by simp
  have o0: "poll_once ?S E 0 p0 c0 = Inr (p1, c1)" using p0 by (simp add: p1_def c1_def)
  have f: "\<not> status_final p1" "status_final p2" "dict_get p2 ''status'' = Some (JStr ''SUCCEEDED'')"
    by (simp_all add: p1_def p2_def status_final_simulated simulate_status)
  have c2: "wx_experiment_id c2 = a" "map ws_id (wx_trace c2) = [''provider_job_start'']"
      "length (dict_get_or [] (wx_events c2) a) = length (dict_get_or [] ev a) + 3"
    using c1 by (auto simp: c2_def record_event_count)
  let ?d = "wv_start E + 600"
  have l1: "poll_loop ?S E ?d 1 p1 c1 = (if wv_clock E 1 < ?d then Some (Inr p2, poll_result ?S p2 c2) else Some (Inl (timed_out ?S), c1))"
    by (subst poll_loop.simps) (use f(2) in \<open>simp add: o1 provider_step_simps del: One_nat_def\<close>)
  have l0: "poll_loop ?S E ?d 0 p0 c0 = (if wv_clock E 0 < ?d then poll_loop ?S E ?d 1 p1 c1 else Some (Inl (timed_out ?S), c0))"
    by (subst poll_loop.simps) (use f(1) in \<open>simp add: o0 provider_step_simps\<close>)
  have out: "out = (if wv_clock E 0 < ?d then
        (if wv_clock E 1 < ?d then Some (Inr p2, poll_result ?S p2 c2) else Some (Inl (timed_out ?S), c1))
      else Some (Inl (timed_out ?S), c0))"
    unfolding assms [symmetric] by (auto simp: run_poll_step_def st provider_step_simps l0 l1 simp del: One_nat_def)
  show ?thesis
    using c0 c1 c2 f(3) by (auto simp: out poll_result_def provider_step_simps dict_simps trace_step_def)
qed


lemma finished_kpis:
  assumes "dict_get p ''status'' = Some (JStr ''SUCCEEDED'')" and "dict_get (wx_state ctx) ''provider_job_status'' = Some p"
    and "map ws_id (wx_trace ctx) = [''provider_job_start'', ''provider_job_done'']"
  shows "k_fidelity (kpi_bundle_from_trace ctx n) = Some (94 / 100)" "k_latency_us (kpi_bundle_from_trace ctx n) = Some 1000000"
    "k_shots_used (kpi_bundle_from_trace ctx n) = n"
proof -
  have "p \<noteq> []" using assms(1) by auto
  moreover have "length (wx_trace ctx) = 2" using arg_cong [OF assms(3), of length] by simp
  then have "wx_trace ctx \<noteq> []" by auto
  ultimately show "k_fidelity (kpi_bundle_from_trace ctx n) = Some (94 / 100)" "k_latency_us (kpi_bundle_from_trace ctx n) = Some 1000000"
    "k_shots_used (kpi_bundle_from_trace ctx n) = n"
    using assms(2) \<open>length (wx_trace ctx) = 2\<close> by (simp_all add: kpi_bundle_from_trace_def dict_get_or_def Let_def)
qed

lemma multicall_contract:
  "1 \<le> n \<Longrightarrow> \<exists>c. infer_contract target n n (Some 18) None (Some ''Z'') = Inr c"
  "\<not> 1 \<le> n \<Longrightarrow> infer_contract target n n (Some 18) None (Some ''Z'') = Inl ()"
  by (cases "target_class target"; simp add: infer_contract_def hilbert_dim_def sampling_valid_def Let_def)+

text \<open>
  C28. The multi-call agent always returns. When the clock is within its ten minutes at the first two
  tests of the loop it succeeds after exactly two polls: three events are stored, the trace has the
  start and the end of the step, and the bundle reports the requested shots as used; otherwise it
  raises the timeout. A request without a positive budget fails its contract after the calls.
\<close>

theorem multicall_run_outcome:
  "\<exists>r ev'. run_multicall_agent cfg E a req t ev = Some (r, ev') \<and>
    (let shots = or_int (rq_shot_budget req) (st_default_shot_budget cfg);
         in_time = (wv_clock E 0 < wv_start E + 600 \<and> wv_clock E 1 < wv_start E + 600) in
     case r of
       Inr run \<Rightarrow> in_time \<and> 1 \<le> shots \<and> rr_id run = a \<and> k_shots_used (rr_kpis run) = shots \<and>
         k_latency_us (rr_kpis run) = Some 1000000 \<and> k_fidelity (rr_kpis run) = Some (94 / 100) \<and>
         map ws_id (rr_workflow_trace run) = [''provider_job_start'', ''provider_job_done''] \<and>
         length (dict_get_or [] ev' a) = length (dict_get_or [] ev a) + 3
     | Inl e \<Rightarrow> if in_time then shots < 1 \<and> e = ExnValidation
               else e = ExnTimeout ''Workflow step provider_job timed out'')"
proof -
  let ?S = "provider_job_step req"
  let ?shots = "or_int (rq_shot_budget req) (st_default_shot_budget cfg)"
  let ?in = "wv_clock E 0 < wv_start E + 600 \<and> wv_clock E 1 < wv_start E + 600"
  from provider_step_outcome [OF refl, of req E a ev] obtain r ctx where
    o: "run_poll_step ?S E (build_workflow_context a ev) = Some (r, ctx)" and
    c: "if ?in then (\<exists>p. r = Inr p \<and> dict_get p ''status'' = Some (JStr ''SUCCEEDED'') \<and>
          dict_get (wx_state ctx) ''provider_job_status'' = Some p) \<and>
        map ws_id (wx_trace ctx) = [''provider_job_start'', ''provider_job_done''] \<and>
        length (dict_get_or [] (wx_events ctx) a) = length (dict_get_or [] ev a) + 3
      else r = Inl (timed_out ?S)" by blast
  have rw: "run_workflow [?S] E (build_workflow_context a ev) =
      (case r of Inl e \<Rightarrow> Some (Inl e, ctx) | Inr _ \<Rightarrow> Some (Inr (), ctx))"
    by (simp add: o split: sum.split)
  show ?thesis
  proof (cases ?in)
    case False
    then have "r = Inl (timed_out ?S)" using c by (simp del: One_nat_def)
    then have "run_multicall_agent cfg E a req t ev = Some (Inl (timed_out ?S), wx_events ctx)"
      by (simp add: run_multicall_agent_def rw del: run_workflow.simps)
    then show ?thesis using False by (simp add: timed_out_def provider_step_simps Let_def del: One_nat_def)
  next
    case True
    with c obtain p where p: "r = Inr p" "dict_get p ''status'' = Some (JStr ''SUCCEEDED'')"
        "dict_get (wx_state ctx) ''provider_job_status'' = Some p"
      and w: "map ws_id (wx_trace ctx) = [''provider_job_start'', ''provider_job_done'']"
      and n: "length (dict_get_or [] (wx_events ctx) a) = length (dict_get_or [] ev a) + 3"
      by (auto simp del: One_nat_def)
    note k = finished_kpis [OF p(2,3) w, of ?shots]
    show ?thesis
    proof (cases "1 \<le> ?shots")
      case valid: True
      then obtain contract where i: "infer_contract (rq_hardware_target req) ?shots ?shots (Some 18) None (Some ''Z'') = Inr contract"
        using multicall_contract(1) by blast
      show ?thesis
        using p(1) i True valid k w n by (simp add: run_multicall_agent_def rw Let_def del: One_nat_def run_workflow.simps)
    next
      case invalid: False
      then have "infer_contract (rq_hardware_target req) ?shots ?shots (Some 18) None (Some ''Z'') = Inl ()"
        by (rule multicall_contract(2))
      then show ?thesis
        using p(1) True invalid by (simp add: run_multicall_agent_def rw Let_def del: One_nat_def run_workflow.simps)
    qed
  qed
qed

text \<open>The counts of the bundle lose a shot when the budget is odd.\<close>

lemma multicall_counts: "dict_sum id (the (k_raw_counts (kpi_bundle_from_trace ctx n))) = n - n mod 2"
  by (simp add: kpi_bundle_from_trace_def Let_def dict_sum_def minus_mod_eq_mult_div)

end
