(* ===== verification/Run_Queue.thy ===== *)
theory Run_Queue
  imports Redis_Data Run_Metrics Job_Queue Settings Step_Machine "HOL-Library.Multiset"
begin

text \<open>
  The run queue that the API and the worker processes share in Redis (\<open>run_queue.py\<close>): one hash per
  run, the list of pending runs, the recent runs by time and the counters per status, failure code
  and target; and the adapter over the in-process queue when Redis is not configured. Requests and
  results are stored as the JSON texts of pydantic, which are parameters (\<open>run_texts\<close>). The state is
  the server and the process's run metrics. The step relation interleaves the API and the workers by
  the commands and transactions they send; \<open>mark_running\<close> and \<open>claim_next\<close> are two steps each.
\<close>

section \<open>Keys and texts\<close>

record run_texts =
  rt_request :: "(run_experiment_request, string) codec"
  rt_response :: "(run_response, string) codec"
  rt_texts :: text_codec

fun run_status_value :: "run_job_status \<Rightarrow> string" where
  "run_status_value QUEUED = ''queued''"
| "run_status_value RUNNING = ''running''"
| "run_status_value SUCCEEDED = ''succeeded''"
| "run_status_value FAILED = ''failed''"

definition runq_pending :: string where "runq_pending = ''synqc:runq:pending''"
definition runq_counts :: string where "runq_counts = ''synqc:runq:status_counts''"
definition runq_recent :: string where "runq_recent = ''synqc:runq:recent''"
definition runq_failure_codes :: string where "runq_failure_codes = ''synqc:runq:failure_codes''"
definition runq_failure_targets :: string where "runq_failure_targets = ''synqc:runq:failures_by_target''"

definition runq_job_key :: "string \<Rightarrow> string" where
  "runq_job_key job_id = ''synqc:runq:job:'' @ job_id"

record queued_run =
  qu_id :: string
  qu_request :: run_experiment_request
  qu_session_id :: string
  qu_created_at :: real
  qu_started_at :: "real option"
  qu_finished_at :: "real option"

section \<open>Operations\<close>

text \<open>\<open>HINCRBY\<close> of the counter of a status.\<close>

definition count_status :: "'r redis_data \<Rightarrow> run_job_status \<Rightarrow> int \<Rightarrow> 'r \<Rightarrow> 'r" where
  "count_status K s n r = snd (rd_hincrby K runq_counts (run_status_value s) n r)"

definition runq_enqueue :: "'r redis_data \<Rightarrow> run_texts \<Rightarrow> string \<Rightarrow> real \<Rightarrow> run_experiment_request \<Rightarrow> string \<Rightarrow> 'r \<times> run_metrics
    \<Rightarrow> (string \<times> real) \<times> 'r \<times> run_metrics" where
  "runq_enqueue K T new_id created_at req session_id s =
     (let r1 = rd_hset K (runq_job_key new_id)
            [(''status'', run_status_value QUEUED), (''created_at'', tx_str (rt_texts T) created_at),
             (''session_id'', session_id), (''request_json'', codec_dump (rt_request T) req)] (fst s);
          r2 = rd_rpush K runq_pending new_id r1;
          r3 = rd_zadd K runq_recent new_id created_at r2;
          r4 = count_status K QUEUED 1 r3 in
      ((new_id, created_at), r4, record_submission (rq_hardware_target req) (snd s)))"

text \<open>
  \<open>claim_next\<close> pops a run and reads its record; a run whose record is missing or whose request does not
  validate is dropped.
\<close>

definition claim_read :: "'r redis_data \<Rightarrow> run_texts \<Rightarrow> real \<Rightarrow> string \<Rightarrow> 'r \<Rightarrow> queued_run option py" where
  "claim_read K T now job_id r =
     (let data = rd_hgetall K (runq_job_key job_id) r in
      if data = [] then Inr None
      else (case codec_load (rt_request T) (or_str (dict_get data ''request_json'') ''{}'') of
          None \<Rightarrow> Inr None
        | Some req \<Rightarrow>
            (case (case dict_get data ''created_at'' of None \<Rightarrow> Some now | Some t \<Rightarrow> tx_float (rt_texts T) t) of
               None \<Rightarrow> Inl (ExnValue ''created_at'')
             | Some created \<Rightarrow>
                 Inr (Some \<lparr>qu_id = job_id, qu_request = req, qu_session_id = dict_get_or [] data ''session_id'',
                   qu_created_at = created, qu_started_at = None, qu_finished_at = None\<rparr>))))"

definition claim_next :: "'r redis_data \<Rightarrow> run_texts \<Rightarrow> real \<Rightarrow> 'r \<Rightarrow> queued_run option py \<times> 'r" where
  "claim_next K T now r =
     (case rd_blpop K runq_pending r of
        (None, r1) \<Rightarrow> (Inr None, r1)
      | (Some job_id, r1) \<Rightarrow> (claim_read K T now job_id r1, r1))"

text \<open>\<open>mark_running\<close> writes the record with one command and moves the counters in a transaction of its own.\<close>

definition mark_record :: "'r redis_data \<Rightarrow> run_texts \<Rightarrow> real \<Rightarrow> queued_run \<Rightarrow> 'r \<Rightarrow> queued_run \<times> 'r" where
  "mark_record K T now job r =
     (job\<lparr>qu_started_at := Some now\<rparr>,
      rd_hset K (runq_job_key (qu_id job))
        [(''status'', run_status_value RUNNING), (''started_at'', tx_str (rt_texts T) now),
         (''created_at'', tx_str (rt_texts T) (qu_created_at job))] r)"

definition mark_count :: "'r redis_data \<Rightarrow> 'r \<Rightarrow> 'r" where
  "mark_count K r = count_status K RUNNING 1 (count_status K QUEUED (-1) r)"

definition mark_running :: "'r redis_data \<Rightarrow> run_texts \<Rightarrow> real \<Rightarrow> queued_run \<Rightarrow> 'r \<Rightarrow> queued_run \<times> 'r" where
  "mark_running K T now job r = (case mark_record K T now job r of (job1, r1) \<Rightarrow> (job1, mark_count K r1))"

definition complete_success :: "'r redis_data \<Rightarrow> run_texts \<Rightarrow> real \<Rightarrow> queued_run \<Rightarrow> run_response \<Rightarrow> 'r \<Rightarrow> queued_run \<times> 'r" where
  "complete_success K T now job res r =
     (let r1 = rd_hset K (runq_job_key (qu_id job))
            [(''status'', run_status_value SUCCEEDED), (''finished_at'', tx_str (rt_texts T) now),
             (''result_json'', codec_dump (rt_response T) res), (''created_at'', tx_str (rt_texts T) (qu_created_at job))] r;
          r2 = count_status K SUCCEEDED 1 (count_status K RUNNING (-1) r1) in
      (job\<lparr>qu_finished_at := Some now\<rparr>, r2))"

definition runq_failure_detail :: "error_code \<Rightarrow> string \<Rightarrow> string option \<Rightarrow> (string, json) dict option \<Rightarrow> (string, json) dict" where
  "runq_failure_detail code message action_hint detail =
     (let d0 = (case detail of None \<Rightarrow> [] | Some d \<Rightarrow> d);
          d1 = dict_setdefault ''code'' (JStr (error_code_value code)) d0;
          d2 = dict_setdefault ''message'' (JStr message) d1 in
      if truthy_str action_hint then dict_setdefault ''action_hint'' (JStr (or_str action_hint [])) d2 else d2)"

definition complete_failure :: "'r redis_data \<Rightarrow> run_texts \<Rightarrow> real \<Rightarrow> queued_run \<Rightarrow> error_code \<Rightarrow> string \<Rightarrow> string option
    \<Rightarrow> (string, json) dict option \<Rightarrow> 'r \<Rightarrow> queued_run \<times> 'r" where
  "complete_failure K T now job code message action_hint detail r =
     (let r1 = rd_hset K (runq_job_key (qu_id job))
            [(''status'', run_status_value FAILED), (''finished_at'', tx_str (rt_texts T) now), (''error'', message),
             (''error_code'', error_code_value code), (''error_message'', message),
             (''error_detail'', tx_dumps (rt_texts T) (JObj (runq_failure_detail code message action_hint detail))),
             (''action_hint'', or_str action_hint []), (''created_at'', tx_str (rt_texts T) (qu_created_at job))] r;
          r2 = count_status K FAILED 1 (count_status K RUNNING (-1) r1);
          r3 = snd (rd_hincrby K runq_failure_codes (error_code_value code) 1 r2);
          r4 = (if rq_hardware_target (qu_request job) \<noteq> []
                then snd (rd_hincrby K runq_failure_targets (rq_hardware_target (qu_request job)) 1 r3) else r3) in
      (job\<lparr>qu_finished_at := Some now\<rparr>, r4))"

text \<open>The answer of \<open>get\<close>: the status is the stored text, \<open>queued\<close> when it is missing.\<close>

record run_view =
  rx_id :: string
  rx_status :: string
  rx_created_at :: real
  rx_started_at :: "real option"
  rx_finished_at :: "real option"
  rx_error :: "string option"
  rx_error_code :: "string option"
  rx_error_message :: "string option"
  rx_error_detail :: "json option"
  rx_action_hint :: "string option"
  rx_result :: "run_response option"

definition as_float :: "run_texts \<Rightarrow> string option \<Rightarrow> real option" where
  "as_float T v = Option.bind v (tx_float (rt_texts T))"

definition stored_text :: "string option \<Rightarrow> (string \<Rightarrow> 'a option) \<Rightarrow> 'a option" where
  "stored_text v load = (if truthy_str v then load (or_str v []) else None)"

definition runq_get :: "'r redis_data \<Rightarrow> run_texts \<Rightarrow> string \<Rightarrow> 'r \<Rightarrow> run_view option py" where
  "runq_get K T job_id r =
     (let data = rd_hgetall K (runq_job_key job_id) r in
      if data = [] then Inr None
      else (case (if truthy_str (dict_get data ''created_at'') then tx_float (rt_texts T) (or_str (dict_get data ''created_at'') []) else Some 0) of
          None \<Rightarrow> Inl (ExnValue ''created_at'')
        | Some created \<Rightarrow>
            Inr (Some \<lparr>rx_id = job_id, rx_status = dict_get_or (run_status_value QUEUED) data ''status'',
              rx_created_at = created, rx_started_at = as_float T (dict_get data ''started_at''),
              rx_finished_at = as_float T (dict_get data ''finished_at''), rx_error = dict_get data ''error'',
              rx_error_code = dict_get data ''error_code'', rx_error_message = dict_get data ''error_message'',
              rx_error_detail = stored_text (dict_get data ''error_detail'') (tx_loads (rt_texts T)),
              rx_action_hint = dict_get data ''action_hint'',
              rx_result = stored_text (dict_get data ''result_json'') (codec_load (rt_response T))\<rparr>)))"

record run_queue_stats =
  rs_queued :: int
  rs_running :: int
  rs_succeeded :: int
  rs_failed :: int
  rs_oldest_age :: "real option"
  rs_workers :: int
  rs_codes :: "(string \<times> int) list"
  rs_targets :: "(string \<times> int) list"

definition rs_all :: "run_queue_stats \<Rightarrow> int" where
  "rs_all s = rs_queued s + rs_running s + rs_succeeded s + rs_failed s"

text \<open>\<open>int(d.get(k, 0) or 0)\<close>, and \<open>int(v)\<close> for each entry; a text that is no number raises.\<close>

definition count_read :: "(string, string) dict \<Rightarrow> run_job_status \<Rightarrow> int option" where
  "count_read d s =
     (case dict_get d (run_status_value s) of None \<Rightarrow> Some 0
      | Some t \<Rightarrow> if t = [] then Some 0 else py_int_of_str t)"

fun ints_of :: "(string, string) dict \<Rightarrow> (string \<times> int) list option" where
  "ints_of [] = Some []"
| "ints_of ((k, t) # d) =
     (case (py_int_of_str t, ints_of d) of (Some i, Some is) \<Rightarrow> Some ((k, i) # is) | _ \<Rightarrow> None)"

definition oldest_queued :: "'r redis_data \<Rightarrow> run_texts \<Rightarrow> real \<Rightarrow> string option \<Rightarrow> 'r \<Rightarrow> real option py" where
  "oldest_queued K T now first r =
     (if \<not> truthy_str first then Inr None
      else (let created = rd_hget K (runq_job_key (or_str first [])) ''created_at'' r in
            if \<not> truthy_str created then Inr None
            else (case tx_float (rt_texts T) (or_str created []) of
                None \<Rightarrow> Inl (ExnValue ''created_at'')
              | Some c \<Rightarrow> Inr (Some (max 0 (now - c))))))"

text \<open>
  \<open>stats\<close> reads three times: the head of the list from the server \<open>r0\<close>, then the hashes of the
  counters in one transaction from \<open>r1\<close>, and the time of the run at the head from \<open>r2\<close>.
\<close>

definition runq_stats_reads :: "'r redis_data \<Rightarrow> run_texts \<Rightarrow> int \<Rightarrow> real \<Rightarrow> 'r \<Rightarrow> 'r \<Rightarrow> 'r \<Rightarrow> run_queue_stats py" where
  "runq_stats_reads K T max_workers now r0 r1 r2 =
     (let queued_oldest = rd_lindex0 K runq_pending r0; d = rd_hgetall K runq_counts r1 in
      case (count_read d QUEUED, count_read d RUNNING, count_read d SUCCEEDED, count_read d FAILED) of
        (Some a, Some b, Some c, Some e) \<Rightarrow>
          py_bind (oldest_queued K T now queued_oldest r2) (\<lambda>age.
            case (ints_of (rd_hgetall K runq_failure_codes r1), ints_of (rd_hgetall K runq_failure_targets r1)) of
              (Some codes, Some targets) \<Rightarrow>
                Inr \<lparr>rs_queued = a, rs_running = b, rs_succeeded = c, rs_failed = e, rs_oldest_age = age,
                  rs_workers = max_workers, rs_codes = codes, rs_targets = targets\<rparr>
            | _ \<Rightarrow> Inl (ExnValue ''failures''))
      | _ \<Rightarrow> Inl (ExnValue ''status_counts''))"

definition runq_stats :: "'r redis_data \<Rightarrow> run_texts \<Rightarrow> int \<Rightarrow> real \<Rightarrow> 'r \<Rightarrow> run_queue_stats py" where
  "runq_stats K T max_workers now r = runq_stats_reads K T max_workers now r r r"

record run_queue_health =
  rh_backend :: string
  rh_connected :: bool
  rh_queue_depth :: int
  rh_oldest_age :: "real option"
  rh_workers :: int

definition runq_health :: "'r redis_data \<Rightarrow> run_texts \<Rightarrow> int \<Rightarrow> real \<Rightarrow> 'r \<Rightarrow> run_queue_health py" where
  "runq_health K T max_workers now r =
     py_bind (runq_stats K T max_workers now r) (\<lambda>st.
       Inr \<lparr>rh_backend = ''redis'', rh_connected = (rd_ping K r \<noteq> None), rh_queue_depth = rs_queued st,
         rh_oldest_age = rs_oldest_age st, rh_workers = max_workers\<rparr>)"

section \<open>The embedded queue\<close>

text \<open>
  The adapter counts the submission before it asks the queue, so a refused one is counted too. The
  worker operations do nothing: no worker process serves an embedded queue.
\<close>

definition embedded_enqueue :: "string \<Rightarrow> real \<Rightarrow> run_experiment_request \<Rightarrow> string \<Rightarrow> 'f job_queue
    \<Rightarrow> (string \<times> real) py \<times> 'f job_queue" where
  "embedded_enqueue new_id now req session_id q =
     (case enqueue new_id now req session_id (q\<lparr>q_metrics := record_submission (rq_hardware_target req) (q_metrics q)\<rparr>) of
        (Inl e, q1) \<Rightarrow> (Inl e, q1)
      | (Inr record, q1) \<Rightarrow> (Inr (jr_id record, jr_created_at record), q1))"

definition embedded_claim_next :: "'f job_queue \<Rightarrow> queued_run option" where
  "embedded_claim_next q = None"

definition embedded_get :: "string \<Rightarrow> 'f job_queue \<Rightarrow> run_view option" where
  "embedded_get job_id q =
     (case get_job_record job_id q of
        None \<Rightarrow> None
      | Some record \<Rightarrow>
          Some \<lparr>rx_id = jr_id record, rx_status = run_status_value (jr_status record), rx_created_at = jr_created_at record,
            rx_started_at = jr_started_at record, rx_finished_at = jr_finished_at record, rx_error = jr_error record,
            rx_error_code = map_option error_code_value (jr_error_code record), rx_error_message = jr_error_message record,
            rx_error_detail = map_option JObj (jr_error_detail record), rx_action_hint = jr_action_hint record,
            rx_result = jr_result record\<rparr>)"

definition embedded_health :: "real \<Rightarrow> 'f job_queue \<Rightarrow> run_queue_health" where
  "embedded_health now q =
     (let st = stats now q in
      \<lparr>rh_backend = ''embedded'', rh_connected = True, rh_queue_depth = st_queued st,
       rh_oldest_age = st_oldest_queued_age st, rh_workers = st_max_workers st\<rparr>)"

text \<open>\<open>build_run_queue\<close>.\<close>

datatype run_queue_kind = Redis_run_queue string int | Embedded_run_queue

definition build_run_queue :: "settings \<Rightarrow> run_queue_kind" where
  "build_run_queue cfg =
     (if truthy_str (st_redis_url cfg) then Redis_run_queue (or_str (st_redis_url cfg) []) (st_worker_pool_size cfg)
      else Embedded_run_queue)"

section \<open>The counters\<close>

definition status_of :: "redis_view \<Rightarrow> string \<Rightarrow> string option" where
  "status_of v a = rv_hash v (runq_job_key a) ''status''"

definition ids_with :: "redis_view \<Rightarrow> string set \<Rightarrow> run_job_status \<Rightarrow> string set" where
  "ids_with v I s = {a \<in> I. status_of v a = Some (run_status_value s)}"

text \<open>
  The status a run is counted with: a run in \<open>M\<close>, between the two writes of \<open>mark_running\<close>, is still
  counted as queued.
\<close>

definition counted_status :: "redis_view \<Rightarrow> string set \<Rightarrow> string \<Rightarrow> string option" where
  "counted_status v M a = (if a \<in> M then Some (run_status_value QUEUED) else status_of v a)"

definition ids_counted :: "redis_view \<Rightarrow> string set \<Rightarrow> string set \<Rightarrow> run_job_status \<Rightarrow> string set" where
  "ids_counted v M I s = {a \<in> I. counted_status v M a = Some (run_status_value s)}"

definition counters_ok :: "redis_view \<Rightarrow> string set \<Rightarrow> string set \<Rightarrow> bool" where
  "counters_ok v M I = (\<forall>s. holds_int v runq_counts (run_status_value s) (int (card (ids_counted v M I s))))"

lemma run_status_value_eq [simp]: "run_status_value s = run_status_value t \<longleftrightarrow> s = t"
  by (cases s; cases t) simp_all

declare run_status_value.simps [simp del]

lemma runq_keys [simp]:
  "runq_job_key a = runq_job_key b \<longleftrightarrow> a = b" "runq_job_key a \<noteq> runq_counts" "runq_counts \<noteq> runq_job_key a"
  "runq_job_key a \<noteq> runq_failure_codes" "runq_failure_codes \<noteq> runq_job_key a"
  "runq_job_key a \<noteq> runq_failure_targets" "runq_failure_targets \<noteq> runq_job_key a"
  "runq_counts \<noteq> runq_failure_codes" "runq_counts \<noteq> runq_failure_targets" "runq_failure_codes \<noteq> runq_failure_targets"
  "runq_failure_codes \<noteq> runq_counts" "runq_failure_targets \<noteq> runq_counts" "runq_failure_targets \<noteq> runq_failure_codes"
  by (simp_all add: runq_job_key_def runq_counts_def runq_failure_codes_def runq_failure_targets_def)

lemma ids_with_finite: "finite I \<Longrightarrow> finite (ids_with v I s)"
  by (simp add: ids_with_def)

lemma ids_counted_finite: "finite I \<Longrightarrow> finite (ids_counted v M I s)"
  by (simp add: ids_counted_def)

lemma ids_counted_le: "finite I \<Longrightarrow> card (ids_counted v M I s) \<le> card I"
  by (rule card_mono) (auto simp: ids_counted_def)

lemma ids_counted_cong: "(\<And>a. a \<in> I \<Longrightarrow> counted_status v M a = counted_status v' M' a) \<Longrightarrow> ids_counted v M I s = ids_counted v' M' I s"
  by (auto simp: ids_counted_def)

text \<open>One counter of a hash, moved by a law-abiding \<open>HINCRBY\<close>.\<close>

definition set_count :: "redis_view \<Rightarrow> string \<Rightarrow> string \<Rightarrow> int \<Rightarrow> redis_view" where
  "set_count v k f n = v\<lparr>rv_hash := (rv_hash v)(k := (rv_hash v k)(f \<mapsto> py_str_int n))\<rparr>"

lemma hincrby_view:
  assumes "redis_laws K V" and "holds_int (V r) k f i" and "int64 i" and "int64 (i + n)"
  shows "V (snd (rd_hincrby K k f n r)) = set_count (V r) k f (i + n)"
  using redis_hincrby(2) [OF assms] by (simp add: set_count_def)

lemma set_count_simps [redis_simps]:
  "holds_int (set_count v k f n) k' f' i \<longleftrightarrow> (if k' = k \<and> f' = f then i = n else holds_int v k' f' i)"
  "k' \<noteq> k \<Longrightarrow> rv_hash (set_count v k f n) k' = rv_hash v k'"
  "rv_list (set_count v k f n) = rv_list v" "rv_zset (set_count v k f n) = rv_zset v"
  "rv_string (set_count v k f n) = rv_string v"
proof -
  have "py_str_int n = py_str_int i \<longleftrightarrow> n = i" by (metis int_of_str_of_int option.inject)
  then show "holds_int (set_count v k f n) k' f' i \<longleftrightarrow> (if k' = k \<and> f' = f then i = n else holds_int v k' f' i)"
    by (auto simp: holds_int_def set_count_def)
qed (simp_all add: set_count_def)

lemma status_of_set_count [redis_simps]:
  "status_of (set_count v runq_counts f n) a = status_of v a"
  "ids_with (set_count v runq_counts f n) I s = ids_with v I s"
  "counted_status (set_count v runq_counts f n) M = counted_status v M"
  "ids_counted (set_count v runq_counts f n) M I s = ids_counted v M I s"
  by (simp_all add: status_of_def ids_with_def ids_counted_def counted_status_def fun_eq_iff redis_simps)

definition put_run :: "redis_view \<Rightarrow> string \<Rightarrow> (string \<Rightarrow> string option) \<Rightarrow> redis_view" where
  "put_run v a m = v\<lparr>rv_hash := (rv_hash v)(runq_job_key a := rv_hash v (runq_job_key a) ++ m)\<rparr>"

lemma put_run_simps [redis_simps]:
  "rv_hash (put_run v a m) k = (if k = runq_job_key a then rv_hash v (runq_job_key a) ++ m else rv_hash v k)"
  "rv_list (put_run v a m) = rv_list v" "rv_zset (put_run v a m) = rv_zset v" "rv_string (put_run v a m) = rv_string v"
  "holds_int (put_run v a m) runq_counts f i = holds_int v runq_counts f i"
  "holds_int (put_run v a m) runq_failure_codes f i = holds_int v runq_failure_codes f i"
  "holds_int (put_run v a m) runq_failure_targets f i = holds_int v runq_failure_targets f i"
  by (simp_all add: put_run_def holds_int_def)

lemma status_of_put_run:
  assumes "m ''status'' = Some (run_status_value t)"
  shows "status_of (put_run v a m) b = (if b = a then Some (run_status_value t) else status_of v b)"
  using assms by (simp add: status_of_def put_run_simps)

text \<open>Both counters of a run that goes from one status to another.\<close>

definition recount :: "redis_view \<Rightarrow> run_job_status \<Rightarrow> int \<Rightarrow> run_job_status \<Rightarrow> int \<Rightarrow> redis_view" where
  "recount v s i t j = set_count (set_count v runq_counts (run_status_value s) i) runq_counts (run_status_value t) j"

lemma recount_simps [redis_simps]:
  "rv_list (recount v s i t j) = rv_list v" "status_of (recount v s i t j) = status_of v"
  "counted_status (recount v s i t j) M = counted_status v M"
  "k \<noteq> runq_counts \<Longrightarrow> rv_hash (recount v s i t j) k = rv_hash v k"
  "k \<noteq> runq_counts \<Longrightarrow> holds_int (recount v s i t j) k f n = holds_int v k f n"
  by (simp_all add: recount_def set_count_simps status_of_set_count fun_eq_iff)

text \<open>The counts of the moved run go down and up by one.\<close>

lemma counted_move:
  assumes I: "finite I" and a: "a \<in> I" "counted_status v M a = Some (run_status_value s)" "s \<noteq> t"
    and st: "\<And>b. counted_status w M' b = (if b = a then Some (run_status_value t) else counted_status v M b)"
  shows "int (card (ids_counted w M' I x)) = (if x = t then int (card (ids_counted v M I t)) + 1
      else if x = s then int (card (ids_counted v M I s)) - 1 else int (card (ids_counted v M I x)))"
    and "1 \<le> int (card (ids_counted v M I s))" and "int (card (ids_counted v M I t)) + 1 \<le> int (card I)"
proof -
  have fin: "finite (ids_counted v M I y)" for y by (rule ids_counted_finite [OF I])
  have as: "a \<in> ids_counted v M I s" using a by (simp add: ids_counted_def)
  have at: "a \<notin> ids_counted v M I y" if "y \<noteq> s" for y using a that by (simp add: ids_counted_def)
  have "card (ids_counted v M I s) \<noteq> 0" using as fin by (metis card_0_eq empty_iff)
  then show n1: "1 \<le> int (card (ids_counted v M I s))" by linarith
  have up: "card (insert a (ids_counted v M I t)) = card (ids_counted v M I t) + 1" using at [OF a(3) [symmetric]] fin by simp
  have "insert a (ids_counted v M I t) \<subseteq> I" using a(1) by (auto simp: ids_counted_def)
  from card_mono [OF I this] show "int (card (ids_counted v M I t)) + 1 \<le> int (card I)" unfolding up by linarith
  have down: "int (card (ids_counted v M I s - {a})) = int (card (ids_counted v M I s)) - 1"
    using as n1 fin by (simp add: card_Diff_singleton of_nat_diff)
  have "ids_counted w M' I x = (if x = t then insert a (ids_counted v M I t) else ids_counted v M I x - {a})"
    using a(1) by (auto simp: ids_counted_def st)
  then show "int (card (ids_counted w M' I x)) = (if x = t then int (card (ids_counted v M I t)) + 1
      else if x = s then int (card (ids_counted v M I s)) - 1 else int (card (ids_counted v M I x)))"
    using up down at by (auto simp: a(3))
qed

lemma move_status:
  assumes L: "redis_laws K V" and c: "counters_ok v M I" and I: "finite I" "int (card I) < 2 ^ 63"
    and a: "a \<in> I" "counted_status v M a = Some (run_status_value s)" "s \<noteq> t"
    and h: "\<And>f i. holds_int (V r) runq_counts f i = holds_int v runq_counts f i"
    and st: "\<And>b. counted_status (V r) M' b = (if b = a then Some (run_status_value t) else counted_status v M b)"
  obtains i j where "V (count_status K t 1 (count_status K s (-1) r)) = recount (V r) s i t j"
    and "counters_ok (recount (V r) s i t j) M' I"
proof -
  let ?ns = "int (card (ids_counted v M I s))" and ?nt = "int (card (ids_counted v M I t))"
  note m = counted_move [OF I(1) a st]
  have hv: "holds_int (V r) runq_counts (run_status_value x) (int (card (ids_counted v M I x)))" for x
    using c by (simp add: counters_ok_def h)
  have bs: "int64 ?ns" "int64 (?ns + - 1)" "int64 ?nt" "int64 (?nt + 1)"
    using m(2,3) I(2) ids_counted_le [OF I(1), of v M s] by (auto simp: int64_def)
  have v1: "V (count_status K s (-1) r) = set_count (V r) runq_counts (run_status_value s) (?ns - 1)"
    using hincrby_view [OF L, of r runq_counts "run_status_value s" ?ns "-1"] hv bs by (simp add: count_status_def)
  have v2: "V (count_status K t 1 (count_status K s (-1) r)) = recount (V r) s (?ns - 1) t (?nt + 1)"
    using hincrby_view [OF L, of "count_status K s (-1) r" runq_counts "run_status_value t" ?nt 1] hv bs a(3)
    by (simp add: count_status_def [of K t] v1 set_count_simps recount_def)
  have "ids_counted (recount (V r) s (?ns - 1) t (?nt + 1)) M' I = ids_counted (V r) M' I"
    by (simp add: ids_counted_def recount_simps fun_eq_iff)
  then have "counters_ok (recount (V r) s (?ns - 1) t (?nt + 1)) M' I"
    using hv a(3) by (auto simp: counters_ok_def m(1) recount_def set_count_simps)
  with v2 show thesis by (rule that)
qed

section \<open>The API and the workers together\<close>

text \<open>
  The server, the runs submitted so far, and the runs that workers hold: taken off the list and not
  yet read, claimed, marked as running in their record and not yet in the counters, and running. Each step is one command or one
  transaction of the server, but for \<open>complete_success\<close>, \<open>complete_failure\<close> and the submission, which are one
  transaction each as a whole. A worker that is killed while it holds a run is not a step.
\<close>

record 'r runq_sys =
  rz_redis :: 'r
  rz_ids :: "string list"
  rz_popped :: "string list"
  rz_claimed :: "queued_run list"
  rz_marked :: "queued_run list"
  rz_active :: "queued_run list"

datatype runq_event =
    Rq_enqueue string
  | Rq_pop string
  | Rq_claim string
  | Rq_drop string
  | Rq_mark string
  | Rq_start string
  | Rq_success string
  | Rq_failure string

inductive runq_step :: "'r redis_data \<Rightarrow> run_texts \<Rightarrow> 'r runq_sys \<Rightarrow> runq_event \<Rightarrow> 'r runq_sys \<Rightarrow> bool"
  for K T where
  rq_enqueue: "a \<notin> set (rz_ids s) \<Longrightarrow> int (length (rz_ids s)) + 1 < 2 ^ 63 \<Longrightarrow> float_reads_back (rt_texts T) now \<Longrightarrow>
    runq_enqueue K T a now req session (rz_redis s, M) = (ans, r, M') \<Longrightarrow>
    runq_step K T s (Rq_enqueue a) (s\<lparr>rz_redis := r, rz_ids := a # rz_ids s\<rparr>)"
| rq_pop: "rd_blpop K runq_pending (rz_redis s) = (Some a, r) \<Longrightarrow>
    runq_step K T s (Rq_pop a) (s\<lparr>rz_redis := r, rz_popped := a # rz_popped s\<rparr>)"
| rq_claim: "a \<in> set (rz_popped s) \<Longrightarrow> claim_read K T now a (rz_redis s) = Inr (Some job) \<Longrightarrow>
    runq_step K T s (Rq_claim a) (s\<lparr>rz_popped := remove1 a (rz_popped s), rz_claimed := job # rz_claimed s\<rparr>)"
| rq_drop: "a \<in> set (rz_popped s) \<Longrightarrow> claim_read K T now a (rz_redis s) = Inr None \<Longrightarrow>
    runq_step K T s (Rq_drop a) (s\<lparr>rz_popped := remove1 a (rz_popped s)\<rparr>)"
| rq_mark: "job \<in> set (rz_claimed s) \<Longrightarrow> mark_record K T now job (rz_redis s) = (job', r) \<Longrightarrow>
    runq_step K T s (Rq_mark (qu_id job))
      (s\<lparr>rz_redis := r, rz_claimed := remove1 job (rz_claimed s), rz_marked := job' # rz_marked s\<rparr>)"
| rq_start: "job \<in> set (rz_marked s) \<Longrightarrow>
    runq_step K T s (Rq_start (qu_id job))
      (s\<lparr>rz_redis := mark_count K (rz_redis s), rz_marked := remove1 job (rz_marked s), rz_active := job # rz_active s\<rparr>)"
| rq_success: "job \<in> set (rz_active s) \<Longrightarrow> complete_success K T now job res (rz_redis s) = (job', r) \<Longrightarrow>
    runq_step K T s (Rq_success (qu_id job)) (s\<lparr>rz_redis := r, rz_active := remove1 job (rz_active s)\<rparr>)"
| rq_failure: "job \<in> set (rz_active s) \<Longrightarrow> complete_failure K T now job code msg hint det (rz_redis s) = (job', r) \<Longrightarrow>
    runq_step K T s (Rq_failure (qu_id job)) (s\<lparr>rz_redis := r, rz_active := remove1 job (rz_active s)\<rparr>)"

definition fails_ok :: "redis_view \<Rightarrow> string \<Rightarrow> string set \<Rightarrow> bool" where
  "fails_ok v k I = (\<forall>f. \<exists>n. 0 \<le> n \<and> n \<le> int (card (ids_with v I FAILED)) \<and> holds_int v k f n)"

definition run_readable :: "text_codec \<Rightarrow> redis_view \<Rightarrow> string \<Rightarrow> bool" where
  "run_readable X v a = ((\<exists>st. status_of v a = Some (run_status_value st)) \<and>
     (\<exists>c. rv_hash v (runq_job_key a) ''created_at'' = Some (tx_str X c) \<and> float_reads_back X c))"

text \<open>\<open>pend\<close> are the runs on the list and those taken off it.\<close>

definition runq_fits :: "text_codec \<Rightarrow> redis_view \<Rightarrow> string list \<Rightarrow> string list \<Rightarrow> queued_run list \<Rightarrow> queued_run list
    \<Rightarrow> queued_run list \<Rightarrow> bool" where
  "runq_fits X v ids pend claimed marked active =
     (distinct ids \<and> int (length ids) < 2 ^ 63 \<and>
      distinct (pend @ map qu_id claimed @ map qu_id marked @ map qu_id active) \<and>
      set pend \<union> qu_id ` (set claimed \<union> set marked \<union> set active) \<subseteq> set ids \<and>
      counters_ok v (qu_id ` set marked) (set ids) \<and>
      fails_ok v runq_failure_codes (set ids) \<and> fails_ok v runq_failure_targets (set ids) \<and>
      (\<forall>a\<in>set ids. run_readable X v a) \<and>
      (\<forall>a\<in>set pend \<union> qu_id ` set claimed. status_of v a = Some (run_status_value QUEUED)) \<and>
      (\<forall>a\<in>qu_id ` (set marked \<union> set active). status_of v a = Some (run_status_value RUNNING)) \<and>
      (\<forall>job\<in>set claimed \<union> set marked \<union> set active. float_reads_back X (qu_created_at job)))"

definition runq_ok :: "('r \<Rightarrow> redis_view) \<Rightarrow> run_texts \<Rightarrow> 'r runq_sys \<Rightarrow> bool" where
  "runq_ok V T s =
     runq_fits (rt_texts T) (V (rz_redis s)) (rz_ids s) (rv_list (V (rz_redis s)) runq_pending @ rz_popped s)
       (rz_claimed s) (rz_marked s) (rz_active s)"

lemma runq_okD:
  assumes "runq_ok V T s"
  shows "distinct (rz_ids s)" and "counters_ok (V (rz_redis s)) (qu_id ` set (rz_marked s)) (set (rz_ids s))"
    and "int (length (rz_ids s)) = int (card (set (rz_ids s)))"
    and "a \<in> set (rz_ids s) \<Longrightarrow> run_readable (rt_texts T) (V (rz_redis s)) a"
    and "a \<in> set (rz_popped s) \<union> qu_id ` set (rz_claimed s) \<Longrightarrow> a \<in> set (rz_ids s) \<and> status_of (V (rz_redis s)) a = Some (run_status_value QUEUED)"
    and "a \<in> qu_id ` (set (rz_marked s) \<union> set (rz_active s)) \<Longrightarrow> a \<in> set (rz_ids s) \<and> status_of (V (rz_redis s)) a = Some (run_status_value RUNNING)"
  using assms distinct_card [of "rz_ids s"] unfolding runq_ok_def runq_fits_def by (auto simp del: ball_simps)

lemma fails_ok_set_counts [redis_simps]:
  "k \<noteq> runq_counts \<Longrightarrow> fails_ok (set_count v runq_counts f n) k I = fails_ok v k I"
  by (simp add: fails_ok_def set_count_simps status_of_set_count)

lemma fails_ok_mono:
  assumes "fails_ok v k I" and "\<And>f n. holds_int v k f n \<Longrightarrow> holds_int v' k f n"
    and "card (ids_with v I FAILED) \<le> card (ids_with v' J FAILED)"
  shows "fails_ok v' k J"
  unfolding fails_ok_def
proof
  fix f
  from assms(1) obtain n where "0 \<le> n" "n \<le> int (card (ids_with v I FAILED))" "holds_int v k f n"
    unfolding fails_ok_def by blast
  then show "\<exists>n. 0 \<le> n \<and> n \<le> int (card (ids_with v' J FAILED)) \<and> holds_int v' k f n"
    using assms(2,3) by (intro exI [of _ n]) auto
qed

lemma enqueue_counters:
  assumes L: "redis_laws K V" and c: "counters_ok (V r0) N I" and N: "N \<subseteq> I" and I: "finite I" "a \<notin> I" "int (card I) + 1 < 2 ^ 63"
    and e: "runq_enqueue K T a now req session (r0, M) = (ans, r, M')"
  shows "counters_ok (V r) N (insert a I)"
    and "rv_list (V r) runq_pending = rv_list (V r0) runq_pending @ [a]"
    and "\<And>b. status_of (V r) b = (if b = a then Some (run_status_value QUEUED) else status_of (V r0) b)"
    and "\<And>b. rv_hash (V r) (runq_job_key b) ''created_at'' =
      (if b = a then Some (tx_str (rt_texts T) now) else rv_hash (V r0) (runq_job_key b) ''created_at'')"
    and "rv_hash (V r) (runq_job_key a) = rv_hash (V r0) (runq_job_key a) ++
      map_of (rev [(''status'', run_status_value QUEUED), (''created_at'', tx_str (rt_texts T) now), (''session_id'', session),
        (''request_json'', codec_dump (rt_request T) req)])"
    and "\<And>f n. holds_int (V r) runq_failure_codes f n = holds_int (V r0) runq_failure_codes f n"
    and "\<And>f n. holds_int (V r) runq_failure_targets f n = holds_int (V r0) runq_failure_targets f n"
    and "\<And>b. b \<noteq> a \<Longrightarrow> rv_hash (V r) (runq_job_key b) = rv_hash (V r0) (runq_job_key b)"
proof -
  let ?m = "[(''status'', run_status_value QUEUED), (''created_at'', tx_str (rt_texts T) now), (''session_id'', session),
      (''request_json'', codec_dump (rt_request T) req)]"
  let ?r1 = "rd_zadd K runq_recent a now (rd_rpush K runq_pending a (rd_hset K (runq_job_key a) ?m r0))"
  let ?v1 = "V ?r1" and ?n = "int (card (ids_counted (V r0) N I QUEUED))"
  have r: "r = count_status K QUEUED 1 ?r1" using e by (simp add: runq_enqueue_def Let_def)
  have v1: "rv_hash ?v1 k = (if k = runq_job_key a then rv_hash (V r0) k ++ map_of (rev ?m) else rv_hash (V r0) k)" for k
    by (simp add: redis_zset_simps [OF L] redis_list_simps [OF L] redis_hash_simps [OF L] del: rev.simps)
  have l1: "rv_list ?v1 runq_pending = rv_list (V r0) runq_pending @ [a]"
    by (simp add: redis_zset_simps [OF L] redis_list_simps [OF L] redis_hash_simps [OF L])
  have s1: "status_of ?v1 b = (if b = a then Some (run_status_value QUEUED) else status_of (V r0) b)" for b
    by (simp add: status_of_def v1)
  have h1: "holds_int ?v1 k f n = holds_int (V r0) k f n" if "k \<in> {runq_counts, runq_failure_codes, runq_failure_targets}" for k f n
  proof -
    have "k \<noteq> runq_job_key a" using that by auto
    then have "rv_hash ?v1 k = rv_hash (V r0) k" using v1 [of k] by (simp only: if_False)
    then show ?thesis by (simp only: holds_int_def)
  qed
  have ids: "ids_counted ?v1 N (insert a I) s = (if s = QUEUED then insert a (ids_counted (V r0) N I s) else ids_counted (V r0) N I s)" for s
    using I(2) N by (auto simp: ids_counted_def counted_status_def s1)
  have h: "holds_int (V r0) runq_counts (run_status_value s) (int (card (ids_counted (V r0) N I s)))" for s
    using c by (simp add: counters_ok_def)
  have "int64 ?n" "int64 (?n + 1)" using I(3) ids_counted_le [OF I(1), of "V r0" N QUEUED] by (auto simp: int64_def)
  then have v: "V r = set_count ?v1 runq_counts (run_status_value QUEUED) (?n + 1)"
    using hincrby_view [OF L, of ?r1 runq_counts "run_status_value QUEUED" ?n 1] h h1 by (simp add: r count_status_def)
  have "a \<notin> ids_counted (V r0) N I QUEUED" using I(2) by (simp add: ids_counted_def)
  then show "counters_ok (V r) N (insert a I)"
    using h ids_counted_finite [OF I(1)]
    by (auto simp: counters_ok_def v set_count_simps status_of_set_count ids h1)
  show "rv_list (V r) runq_pending = rv_list (V r0) runq_pending @ [a]" by (simp add: v set_count_simps l1)
  show "\<And>b. status_of (V r) b = (if b = a then Some (run_status_value QUEUED) else status_of (V r0) b)"
    by (simp add: v status_of_set_count s1)
  show "\<And>b. rv_hash (V r) (runq_job_key b) ''created_at'' =
      (if b = a then Some (tx_str (rt_texts T) now) else rv_hash (V r0) (runq_job_key b) ''created_at'')"
    by (simp add: v set_count_simps v1)
  show "rv_hash (V r) (runq_job_key a) = rv_hash (V r0) (runq_job_key a) ++ map_of (rev ?m)"
    using v1 [of "runq_job_key a"] by (simp add: v set_count_simps)
  show "\<And>f n. holds_int (V r) runq_failure_codes f n = holds_int (V r0) runq_failure_codes f n"
    "\<And>f n. holds_int (V r) runq_failure_targets f n = holds_int (V r0) runq_failure_targets f n"
    by (simp_all add: v set_count_simps h1)
  show "\<And>b. b \<noteq> a \<Longrightarrow> rv_hash (V r) (runq_job_key b) = rv_hash (V r0) (runq_job_key b)"
    by (simp add: v set_count_simps v1)
qed

lemma enqueue_room:
  assumes "runq_ok V T s" and "int (length (rz_ids s)) + 1 < 2 ^ 63"
  shows "counters_ok (V (rz_redis s)) (qu_id ` set (rz_marked s)) (set (rz_ids s))"
    and "qu_id ` set (rz_marked s) \<subseteq> set (rz_ids s)" and "int (card (set (rz_ids s))) + 1 < 2 ^ 63"
  using assms runq_okD(2,3,6) [OF assms(1)] by auto

lemma enqueue_step:
  assumes L: "redis_laws K V" and ok: "runq_ok V T s" and a: "a \<notin> set (rz_ids s)" "int (length (rz_ids s)) + 1 < 2 ^ 63"
    and t: "float_reads_back (rt_texts T) now"
    and e: "runq_enqueue K T a now req session (rz_redis s, M) = (ans, r, M')"
  shows "runq_ok V T (s\<lparr>rz_redis := r, rz_ids := a # rz_ids s\<rparr>)"
proof -
  let ?I = "set (rz_ids s)" and ?v = "V (rz_redis s)"
  have d: "fails_ok ?v runq_failure_codes ?I" "fails_ok ?v runq_failure_targets ?I"
    using ok by (simp_all add: runq_ok_def runq_fits_def)
  note n = enqueue_room [OF ok a(2)]
  note v = enqueue_counters [OF L n(1,2) finite_set a(1) n(3) e]
  have "ids_with (V r) (insert a ?I) FAILED = ids_with ?v ?I FAILED"
    using a(1) by (auto simp: ids_with_def v(3))
  then have "fails_ok (V r) runq_failure_codes (insert a ?I)" "fails_ok (V r) runq_failure_targets (insert a ?I)"
    using fails_ok_mono [OF d(1), of "V r" "insert a ?I"] fails_ok_mono [OF d(2), of "V r" "insert a ?I"] by (simp_all add: v(6,7))
  moreover have "run_readable (rt_texts T) (V r) b" if "b \<in> insert a ?I" for b
    using that ok t by (auto simp: run_readable_def runq_ok_def runq_fits_def v(3,4))
  moreover have "distinct ((rv_list (V r) runq_pending @ rz_popped s) @ map qu_id (rz_claimed s) @ map qu_id (rz_marked s) @ map qu_id (rz_active s))"
    using ok a(1) unfolding runq_ok_def runq_fits_def v(2) by auto
  ultimately show ?thesis
    using ok a v(1) unfolding runq_ok_def runq_fits_def by (auto simp: v(2,3))
qed

definition pop_pending :: "redis_view \<Rightarrow> redis_view" where
  "pop_pending v = v\<lparr>rv_list := (rv_list v)(runq_pending := tl (rv_list v runq_pending))\<rparr>"

lemma pop_pending_status: "status_of (pop_pending v) = status_of v" "holds_int (pop_pending v) = holds_int v"
  by (simp_all add: pop_pending_def fun_eq_iff status_of_def holds_int_def)

lemma pop_pending_simps [redis_simps]:
  "rv_hash (pop_pending v) = rv_hash v" "rv_list (pop_pending v) runq_pending = tl (rv_list v runq_pending)"
  "status_of (pop_pending v) = status_of v" "ids_with (pop_pending v) = ids_with v" "ids_counted (pop_pending v) = ids_counted v"
  "holds_int (pop_pending v) = holds_int v" "counters_ok (pop_pending v) = counters_ok v"
  "fails_ok (pop_pending v) = fails_ok v" "run_readable X (pop_pending v) = run_readable X v"
proof -
  show h: "rv_hash (pop_pending v) = rv_hash v" "rv_list (pop_pending v) runq_pending = tl (rv_list v runq_pending)"
    by (simp_all add: pop_pending_def)
  show i: "ids_with (pop_pending v) = ids_with v" "ids_counted (pop_pending v) = ids_counted v"
    by (simp_all add: fun_eq_iff ids_with_def ids_counted_def counted_status_def pop_pending_status)
  show "counters_ok (pop_pending v) = counters_ok v" "fails_ok (pop_pending v) = fails_ok v"
    "run_readable X (pop_pending v) = run_readable X v"
    by (simp_all add: fun_eq_iff counters_ok_def fails_ok_def run_readable_def i pop_pending_status h)
qed (simp_all add: pop_pending_status)

lemma pop_view:
  assumes L: "redis_laws K V" and p: "rd_blpop K runq_pending r0 = (Some a, r)"
  shows "V r = pop_pending (V r0)" and "rv_list (V r0) runq_pending = a # tl (rv_list (V r0) runq_pending)"
proof -
  have ne: "rv_list (V r0) runq_pending \<noteq> []" using p by (auto simp: redis_list_simps [OF L])
  show "V r = pop_pending (V r0)" "rv_list (V r0) runq_pending = a # tl (rv_list (V r0) runq_pending)"
    using redis_list_simps(7,9) [OF L ne] p ne by (simp_all add: pop_pending_def)
qed

lemma claim_read_job:
  assumes L: "redis_laws K V" and c: "claim_read K T now a r = Inr (Some job)"
  shows "qu_id job = a" and "rv_hash (V r) (runq_job_key a) ''created_at'' = Some t \<Longrightarrow> tx_float (rt_texts T) t = Some (qu_created_at job)"
  using c by (auto simp: claim_read_def Let_def redis_hash_simps(1) [OF L, symmetric] split: option.splits if_splits)

lemma fits_perm:
  "mset pend = mset pend' \<Longrightarrow> runq_fits X v ids pend cl mk ac \<Longrightarrow> runq_fits X v ids pend' cl mk ac"
  unfolding runq_fits_def distinct_append using mset_eq_setD [of pend pend'] mset_eq_imp_distinct_iff [of pend pend'] by simp

lemma fits_claim:
  assumes "runq_fits X v ids (qu_id job # q) cl mk ac" and "float_reads_back X (qu_created_at job)"
  shows "runq_fits X v ids q (job # cl) mk ac"
  using assms unfolding runq_fits_def by auto

lemma fits_drop: "runq_fits X v ids (a # q) cl mk ac \<Longrightarrow> runq_fits X v ids q cl mk ac"
  unfolding runq_fits_def by auto

lemma runq_fits_pop: "runq_fits X (pop_pending v) = runq_fits X v"
  by (simp add: runq_fits_def fun_eq_iff pop_pending_simps)

lemma fits_readable:
  assumes "runq_fits X v ids pend cl mk ac" and "a \<in> set ids"
  obtains t where "rv_hash v (runq_job_key a) ''created_at'' = Some (tx_str X t)" "float_reads_back X t"
proof -
  have "run_readable X v a" using assms by (simp add: runq_fits_def)
  then show ?thesis using that by (auto simp: run_readable_def)
qed

lemma pop_step:
  assumes L: "redis_laws K V" and ok: "runq_ok V T s" and p: "rd_blpop K runq_pending (rz_redis s) = (Some a, r)"
  shows "runq_ok V T (s\<lparr>rz_redis := r, rz_popped := a # rz_popped s\<rparr>)"
proof -
  note v = pop_view [OF L p]
  have "mset (rv_list (V (rz_redis s)) runq_pending @ rz_popped s) = mset (tl (rv_list (V (rz_redis s)) runq_pending) @ a # rz_popped s)"
    by (subst v(2)) simp
  from fits_perm [OF this ok [unfolded runq_ok_def]] show ?thesis
    by (simp add: runq_ok_def v(1) runq_fits_pop pop_pending_simps)
qed

text \<open>A run that was taken off the list leaves the waiting runs.\<close>

lemma fits_popped:
  assumes "runq_ok V T s" and "a \<in> set (rz_popped s)"
  shows "runq_fits (rt_texts T) (V (rz_redis s)) (rz_ids s)
    (a # rv_list (V (rz_redis s)) runq_pending @ remove1 a (rz_popped s)) (rz_claimed s) (rz_marked s) (rz_active s)"
  by (rule fits_perm [OF _ assms(1) [unfolded runq_ok_def]]) (use assms(2) in simp)

lemma claim_step:
  assumes L: "redis_laws K V" and ok: "runq_ok V T s" and a: "a \<in> set (rz_popped s)"
    and c: "claim_read K T now a (rz_redis s) = Inr (Some job)"
  shows "runq_ok V T (s\<lparr>rz_popped := remove1 a (rz_popped s), rz_claimed := job # rz_claimed s\<rparr>)"
proof -
  note f = fits_popped [OF ok a] and j = claim_read_job [OF L c]
  have "a \<in> set (rz_ids s)" using runq_okD(5) [OF ok] a by blast
  then obtain t where "rv_hash (V (rz_redis s)) (runq_job_key a) ''created_at'' = Some (tx_str (rt_texts T) t)" "float_reads_back (rt_texts T) t"
    by (rule fits_readable [OF f])
  then have "float_reads_back (rt_texts T) (qu_created_at job)" using j(2) by (auto simp: float_reads_back_def)
  from fits_claim [OF f [folded j(1)] this] show ?thesis by (simp add: runq_ok_def j(1))
qed

lemma drop_step:
  assumes ok: "runq_ok V T s" and a: "a \<in> set (rz_popped s)"
  shows "runq_ok V T (s\<lparr>rz_popped := remove1 a (rz_popped s)\<rparr>)"
  using fits_drop [OF fits_popped [OF ok a]] by (simp add: runq_ok_def)

text \<open>A run's record and two status counters are written at once.\<close>

definition moved :: "redis_view \<Rightarrow> string \<Rightarrow> (string \<Rightarrow> string option) \<Rightarrow> run_job_status \<Rightarrow> int \<Rightarrow> run_job_status \<Rightarrow> int \<Rightarrow> redis_view" where
  "moved v a m s i t j = recount (put_run v a m) s i t j"

lemma moved_simps [redis_simps]:
  "rv_list (moved v a m s i t j) = rv_list v"
  "holds_int (moved v a m s i t j) runq_failure_codes f n = holds_int v runq_failure_codes f n"
  "holds_int (moved v a m s i t j) runq_failure_targets f n = holds_int v runq_failure_targets f n"
  "rv_hash (moved v a m s i t j) (runq_job_key b) = (if b = a then rv_hash v (runq_job_key a) ++ m else rv_hash v (runq_job_key b))"
  by (simp_all add: moved_def recount_simps put_run_simps)

lemma moved_status:
  assumes "m ''status'' = Some (run_status_value t)"
  shows "status_of (moved v a m s i t j) b = (if b = a then Some (run_status_value t) else status_of v b)"
  using assms by (simp add: status_of_def moved_simps)

lemma moved_ids:
  assumes "m ''status'' = Some (run_status_value t)" and "a \<in> I"
  shows "ids_with (moved v a m s i t j) I x = (if x = t then insert a (ids_with v I x) else ids_with v I x - {a})"
  using assms by (auto simp: ids_with_def moved_status [where m = m, OF assms(1)])

lemma moved_readable:
  assumes "run_readable X v b" and "m ''status'' = Some (run_status_value t)"
    and "m ''created_at'' = Some (tx_str X c)" and "float_reads_back X c"
  shows "run_readable X (moved v a m s i t j) b"
  using assms by (auto simp: run_readable_def moved_status [where m = m, OF assms(2)] moved_simps)

lemma moved_fails:
  assumes "fails_ok v k I" and "k \<in> {runq_failure_codes, runq_failure_targets}" and "finite I"
    and "m ''status'' = Some (run_status_value t)" and "a \<in> I" and "status_of v a = Some (run_status_value RUNNING) \<or> status_of v a = Some (run_status_value QUEUED)"
  shows "fails_ok (moved v a m s i t j) k I"
proof (rule fails_ok_mono [OF assms(1)])
  show "holds_int v k f n \<Longrightarrow> holds_int (moved v a m s i t j) k f n" for f n
    using assms(2) by (auto simp: moved_simps)
  have "a \<notin> ids_with v I FAILED" using assms(6) by (auto simp: ids_with_def)
  then have "ids_with v I FAILED \<subseteq> ids_with (moved v a m s i t j) I FAILED"
    by (auto simp: moved_ids [where m = m, OF assms(4,5)])
  then show "card (ids_with v I FAILED) \<le> card (ids_with (moved v a m s i t j) I FAILED)"
    by (rule card_mono [OF ids_with_finite [OF assms(3)]])
qed

text \<open>The two halves of \<open>mark_running\<close>: the run is counted as queued until the second.\<close>

lemma fits_mark:
  assumes f: "runq_fits X v ids pend cl mk ac" and j: "job \<in> set cl"
    and m: "m ''status'' = Some (run_status_value RUNNING)" "m ''created_at'' = Some (tx_str X (qu_created_at job))"
    and j': "qu_id job' = qu_id job" "qu_created_at job' = qu_created_at job"
  shows "runq_fits X (put_run v (qu_id job) m) ids pend (remove1 job cl) (job' # mk) ac"
proof -
  let ?w = "put_run v (qu_id job) m"
  have a: "qu_id job \<in> set ids" "status_of v (qu_id job) = Some (run_status_value QUEUED)" "float_reads_back X (qu_created_at job)"
    using f j by (auto simp: runq_fits_def)
  obtain c1 c2 where cl: "cl = c1 @ job # c2" "job \<notin> set c1" using split_list_first [OF j] by blast
  have r: "remove1 job (c1 @ job # c2) = c1 @ c2" using cl by (simp add: remove1_append)
  note st = status_of_put_run [where m = m, OF m(1)]
  have d: "distinct (pend @ map qu_id (remove1 job cl) @ map qu_id (job' # mk) @ map qu_id ac)"
    using f j'(1) unfolding runq_fits_def r cl(1) by auto
  have ne: "qu_id job \<notin> set pend \<union> qu_id ` set (remove1 job cl) \<union> qu_id ` set ac"
    using f unfolding runq_fits_def r cl(1) by auto
  have "counted_status ?w (qu_id ` set (job' # mk)) = counted_status v (qu_id ` set mk)"
    using a(2) by (auto simp: counted_status_def fun_eq_iff st j'(1))
  then have "ids_counted ?w (qu_id ` set (job' # mk)) (set ids) x = ids_counted v (qu_id ` set mk) (set ids) x" for x
    by (simp only: ids_counted_def)
  then have "counters_ok ?w (qu_id ` set (job' # mk)) (set ids)"
    using f by (simp add: runq_fits_def counters_ok_def put_run_simps)
  moreover have "fails_ok ?w k (set ids)" if "fails_ok v k (set ids)" "k \<in> {runq_failure_codes, runq_failure_targets}" for k
  proof -
    have "ids_with ?w (set ids) FAILED = ids_with v (set ids) FAILED" using a(2) by (auto simp: ids_with_def st)
    then show ?thesis using that by (auto simp: fails_ok_def put_run_simps)
  qed
  then have "fails_ok ?w runq_failure_codes (set ids)" "fails_ok ?w runq_failure_targets (set ids)"
    using f by (simp_all add: runq_fits_def)
  moreover have "\<forall>b\<in>set ids. run_readable X ?w b"
    using f m(2) a(3) by (auto simp: runq_fits_def run_readable_def st put_run_simps)
  moreover have "\<forall>b\<in>set pend \<union> qu_id ` set (remove1 job cl). status_of ?w b = Some (run_status_value QUEUED)"
    using f ne unfolding runq_fits_def r cl(1) st by auto
  moreover have "\<forall>b\<in>qu_id ` (set (job' # mk) \<union> set ac). status_of ?w b = Some (run_status_value RUNNING)"
    using f j'(1) unfolding runq_fits_def st by auto
  moreover have "set pend \<union> qu_id ` (set (remove1 job cl) \<union> set (job' # mk) \<union> set ac) \<subseteq> set ids"
    using f j'(1) a(1) unfolding runq_fits_def r cl(1) by auto
  moreover have "\<forall>j\<in>set (remove1 job cl) \<union> set (job' # mk) \<union> set ac. float_reads_back X (qu_created_at j)"
    using f j'(2) a(3) unfolding runq_fits_def r cl(1) by auto
  ultimately show ?thesis using f d unfolding runq_fits_def by blast
qed

lemma fits_recount:
  assumes f: "runq_fits X v ids pend cl mk ac" and j: "job \<in> set mk"
    and c: "counters_ok (recount v s i t n) (qu_id ` set (remove1 job mk)) (set ids)"
  shows "runq_fits X (recount v s i t n) ids pend cl (remove1 job mk) (job # ac)"
proof -
  let ?w = "recount v s i t n"
  have same: "status_of ?w = status_of v" "ids_with ?w = ids_with v" "run_readable X ?w = run_readable X v"
    by (simp_all add: recount_simps ids_with_def run_readable_def fun_eq_iff)
  have fo: "fails_ok ?w k I = fails_ok v k I" if "k \<noteq> runq_counts" for k I
    using that by (simp add: fails_ok_def same recount_simps)
  have m: "mset mk = mset (job # remove1 job mk)" using j by simp
  have s: "set mk = insert job (set (remove1 job mk))" using mset_eq_setD [OF m] by simp
  have "mset (map qu_id mk) = mset (map qu_id (job # remove1 job mk))" unfolding mset_map by (rule arg_cong [OF m])
  then have "mset (pend @ map qu_id cl @ map qu_id mk @ map qu_id ac) =
      mset (pend @ map qu_id cl @ map qu_id (remove1 job mk) @ map qu_id (job # ac))" by simp
  moreover have "distinct (pend @ map qu_id cl @ map qu_id mk @ map qu_id ac)" using f by (simp only: runq_fits_def)
  ultimately have "distinct (pend @ map qu_id cl @ map qu_id (remove1 job mk) @ map qu_id (job # ac))"
    by (rule mset_eq_imp_distinct_iff [THEN iffD1])
  moreover have u: "set (remove1 job mk) \<union> set (job # ac) = set mk \<union> set ac" by (simp add: s)
  have "set cl \<union> set (remove1 job mk) \<union> set (job # ac) = set cl \<union> set mk \<union> set ac" using u by blast
  then have "set pend \<union> qu_id ` (set cl \<union> set (remove1 job mk) \<union> set (job # ac)) \<subseteq> set ids"
    "\<forall>j\<in>set cl \<union> set (remove1 job mk) \<union> set (job # ac). float_reads_back X (qu_created_at j)"
    using f unfolding runq_fits_def by simp_all
  moreover have "\<forall>a\<in>qu_id ` (set (remove1 job mk) \<union> set (job # ac)). status_of ?w a = Some (run_status_value RUNNING)"
    using f unfolding runq_fits_def u same by blast
  moreover have "fails_ok ?w runq_failure_codes (set ids)" "fails_ok ?w runq_failure_targets (set ids)"
    using f unfolding runq_fits_def by (simp_all only: fo runq_keys not_False_eq_True)
  moreover have "\<forall>a\<in>set ids. run_readable X ?w a"
    "\<forall>a\<in>set pend \<union> qu_id ` set cl. status_of ?w a = Some (run_status_value QUEUED)"
    using f unfolding runq_fits_def same by blast+
  ultimately show ?thesis using f c unfolding runq_fits_def by blast
qed

lemma fits_done:
  assumes f: "runq_fits X v ids pend cl mk ac" and j: "job \<in> set ac"
    and m: "m ''status'' = Some (run_status_value t)" "m ''created_at'' = Some (tx_str X (qu_created_at job))"
    and c: "counters_ok (moved v (qu_id job) m RUNNING i t n) (qu_id ` set mk) (set ids)"
  shows "runq_fits X (moved v (qu_id job) m RUNNING i t n) ids pend cl mk (remove1 job ac)"
proof -
  let ?w = "moved v (qu_id job) m RUNNING i t n"
  have a: "qu_id job \<in> set ids" "status_of v (qu_id job) = Some (run_status_value RUNNING)" "float_reads_back X (qu_created_at job)"
    using f j by (auto simp: runq_fits_def)
  obtain c1 c2 where ac: "ac = c1 @ job # c2" "job \<notin> set c1" using split_list_first [OF j] by blast
  have r: "remove1 job (c1 @ job # c2) = c1 @ c2" using ac by (simp add: remove1_append)
  have d: "distinct (pend @ map qu_id cl @ map qu_id mk @ map qu_id (remove1 job ac))"
    using f unfolding runq_fits_def r ac(1) by auto
  have ne: "qu_id job \<notin> set pend \<union> qu_id ` set cl" "qu_id job \<notin> qu_id ` (set mk \<union> set (remove1 job ac))"
    using f unfolding runq_fits_def r ac(1) by auto
  have "fails_ok ?w runq_failure_codes (set ids)" "fails_ok ?w runq_failure_targets (set ids)"
    by (rule moved_fails; use f a m in \<open>simp add: runq_fits_def\<close>)+
  moreover have "\<forall>b\<in>set ids. run_readable X ?w b"
    using f moved_readable [OF _ m a(3)] by (simp add: runq_fits_def)
  moreover have "\<forall>b\<in>set pend \<union> qu_id ` set cl. status_of ?w b = Some (run_status_value QUEUED)"
    using f ne unfolding runq_fits_def moved_status [where m = m, OF m(1)] by auto
  moreover have "\<forall>b\<in>qu_id ` (set mk \<union> set (remove1 job ac)). status_of ?w b = Some (run_status_value RUNNING)"
  proof
    fix b assume b: "b \<in> qu_id ` (set mk \<union> set (remove1 job ac))"
    then have "b \<in> qu_id ` (set mk \<union> set ac)" using set_remove1_subset [of job ac] by blast
    moreover have "b \<noteq> qu_id job" using b ne(2) by blast
    ultimately show "status_of ?w b = Some (run_status_value RUNNING)"
      using f unfolding runq_fits_def moved_status [where m = m, OF m(1)] by auto
  qed
  moreover have "set pend \<union> qu_id ` (set cl \<union> set mk \<union> set (remove1 job ac)) \<subseteq> set ids"
    using f unfolding runq_fits_def r ac(1) by auto
  moreover have "\<forall>j\<in>set cl \<union> set mk \<union> set (remove1 job ac). float_reads_back X (qu_created_at j)"
    using f unfolding runq_fits_def r ac(1) by auto
  ultimately show ?thesis using f c d unfolding runq_fits_def by blast
qed

lemma fits_fail_count:
  assumes f: "runq_fits X v ids pend cl mk ac" and k: "k \<in> {runq_failure_codes, runq_failure_targets}"
    and n: "0 \<le> n" "n \<le> int (card (ids_with v (set ids) FAILED))"
  shows "runq_fits X (set_count v k g n) ids pend cl mk ac"
proof -
  let ?w = "set_count v k g n"
  have st: "status_of ?w = status_of v" "\<And>a. rv_hash ?w (runq_job_key a) = rv_hash v (runq_job_key a)"
    using k by (auto simp: status_of_def set_count_simps fun_eq_iff)
  have ids: "ids_with ?w = ids_with v" by (simp add: ids_with_def fun_eq_iff st)
  have "ids_counted ?w = ids_counted v" by (simp add: ids_counted_def counted_status_def fun_eq_iff st)
  then have "counters_ok ?w (qu_id ` set mk) (set ids)"
    using f k by (auto simp: runq_fits_def counters_ok_def set_count_simps)
  moreover have "fails_ok ?w h (set ids)" if "fails_ok v h (set ids)" for h
    unfolding fails_ok_def
  proof
    fix x
    show "\<exists>i. 0 \<le> i \<and> i \<le> int (card (ids_with ?w (set ids) FAILED)) \<and> holds_int ?w h x i"
    proof (cases "h = k \<and> x = g")
      case True then show ?thesis using n by (intro exI [of _ n]) (simp add: set_count_simps ids)
    next
      case False then show ?thesis using that by (auto simp: fails_ok_def set_count_simps ids)
    qed
  qed
  moreover have "run_readable X ?w = run_readable X v" by (simp add: run_readable_def fun_eq_iff st)
  ultimately show ?thesis using f by (simp add: runq_fits_def st)
qed

lemma moves:
  assumes L: "redis_laws K V" and f: "runq_fits X (V r) ids pend cl mk ac" and j: "job \<in> set ac" and t: "t \<noteq> RUNNING"
    and m: "map_of (rev m) ''status'' = Some (run_status_value t)"
  obtains n k where "V (count_status K t 1 (count_status K RUNNING (-1) (rd_hset K (runq_job_key (qu_id job)) m r))) =
      moved (V r) (qu_id job) (map_of (rev m)) RUNNING n t k"
    and "counters_ok (moved (V r) (qu_id job) (map_of (rev m)) RUNNING n t k) (qu_id ` set mk) (set ids)"
proof -
  let ?M = "qu_id ` set mk"
  have c: "counters_ok (V r) ?M (set ids)" "int (card (set ids)) < 2 ^ 63"
    using f distinct_card [of ids] by (simp_all add: runq_fits_def)
  have out: "qu_id job \<notin> ?M" using f j unfolding runq_fits_def by auto
  have a: "qu_id job \<in> set ids" "counted_status (V r) ?M (qu_id job) = Some (run_status_value RUNNING)"
    using f j out by (auto simp: runq_fits_def counted_status_def)
  have v: "V (rd_hset K (runq_job_key (qu_id job)) m r) = put_run (V r) (qu_id job) (map_of (rev m))"
    by (simp add: redis_hash_simps [OF L] put_run_def)
  have st: "counted_status (put_run (V r) (qu_id job) (map_of (rev m))) ?M b =
      (if b = qu_id job then Some (run_status_value t) else counted_status (V r) ?M b)" for b
    using out by (simp add: counted_status_def status_of_put_run [where m = "map_of (rev m)", OF m])
  obtain i k where "V (count_status K t 1 (count_status K RUNNING (-1) (rd_hset K (runq_job_key (qu_id job)) m r))) =
      recount (V (rd_hset K (runq_job_key (qu_id job)) m r)) RUNNING i t k"
    "counters_ok (recount (V (rd_hset K (runq_job_key (qu_id job)) m r)) RUNNING i t k) ?M (set ids)"
    by (rule move_status [OF L c(1) finite_set c(2) a t [symmetric], of "rd_hset K (runq_job_key (qu_id job)) m r" ?M])
       (simp_all add: v put_run_simps st)
  then show thesis by (intro that) (simp_all add: moved_def v)
qed

definition started_record :: "run_texts \<Rightarrow> real \<Rightarrow> queued_run \<Rightarrow> (string \<times> string) list" where
  "started_record T now job =
     [(''status'', run_status_value RUNNING), (''started_at'', tx_str (rt_texts T) now),
      (''created_at'', tx_str (rt_texts T) (qu_created_at job))]"

lemma started_record_fields:
  "map_of (rev (started_record T now job)) ''status'' = Some (run_status_value RUNNING)"
  "map_of (rev (started_record T now job)) ''created_at'' = Some (tx_str (rt_texts T) (qu_created_at job))"
  by (simp_all add: started_record_def)

lemma mark_views:
  assumes L: "redis_laws K V" and ok: "runq_ok V T s" and j: "job \<in> set (rz_claimed s)"
    and c: "mark_record K T now job (rz_redis s) = (job', r)"
  shows "runq_ok V T (s\<lparr>rz_redis := r, rz_claimed := remove1 job (rz_claimed s), rz_marked := job' # rz_marked s\<rparr>)"
    and "status_of (V r) b = (if b = qu_id job then Some (run_status_value RUNNING) else status_of (V (rz_redis s)) b)"
    and "rv_hash (V r) (runq_job_key b') = (if b' = qu_id job
      then rv_hash (V (rz_redis s)) (runq_job_key b') ++ map_of (rev (started_record T now job))
      else rv_hash (V (rz_redis s)) (runq_job_key b'))"
proof -
  let ?v = "V (rz_redis s)" and ?m = "started_record T now job"
  note m = started_record_fields [of T now job]
  have r: "job' = job\<lparr>qu_started_at := Some now\<rparr>" "r = rd_hset K (runq_job_key (qu_id job)) ?m (rz_redis s)"
    using c by (simp_all add: mark_record_def started_record_def)
  have v: "V r = put_run ?v (qu_id job) (map_of (rev ?m))" by (simp add: r(2) redis_hash_simps [OF L] put_run_def)
  from fits_mark [where m = "map_of (rev ?m)" and job' = job', OF ok [unfolded runq_ok_def] j m]
  show "runq_ok V T (s\<lparr>rz_redis := r, rz_claimed := remove1 job (rz_claimed s), rz_marked := job' # rz_marked s\<rparr>)"
    by (simp add: runq_ok_def v put_run_simps r(1))
  show "status_of (V r) b = (if b = qu_id job then Some (run_status_value RUNNING) else status_of ?v b)"
    by (simp add: v status_of_put_run [where m = "map_of (rev ?m)", OF m(1)])
  show "rv_hash (V r) (runq_job_key b') = (if b' = qu_id job then rv_hash ?v (runq_job_key b') ++ map_of (rev ?m)
      else rv_hash ?v (runq_job_key b'))"
    by (simp add: v put_run_simps)
qed

lemma count_views:
  assumes L: "redis_laws K V" and ok: "runq_ok V T s" and j: "job \<in> set (rz_marked s)"
  shows "runq_ok V T (s\<lparr>rz_redis := mark_count K (rz_redis s), rz_marked := remove1 job (rz_marked s), rz_active := job # rz_active s\<rparr>)"
    and "status_of (V (mark_count K (rz_redis s))) = status_of (V (rz_redis s))"
    and "rv_hash (V (mark_count K (rz_redis s))) (runq_job_key b) = rv_hash (V (rz_redis s)) (runq_job_key b)"
proof -
  let ?v = "V (rz_redis s)" and ?M = "qu_id ` set (rz_marked s)" and ?N = "qu_id ` set (remove1 job (rz_marked s))"
  note f = ok [unfolded runq_ok_def]
  have c: "counters_ok ?v ?M (set (rz_ids s))" "int (card (set (rz_ids s))) < 2 ^ 63"
    using f distinct_card [of "rz_ids s"] by (simp_all add: runq_fits_def)
  have ids: "distinct (map qu_id (rz_marked s))" using f by (simp add: runq_fits_def)
  have N: "?N = ?M - {qu_id job}"
  proof -
    have m: "mset (rz_marked s) = mset (job # remove1 job (rz_marked s))" using j by simp
    have "mset (map qu_id (rz_marked s)) = mset (map qu_id (job # remove1 job (rz_marked s)))"
      unfolding mset_map by (rule arg_cong [OF m])
    then have "distinct (map qu_id (job # remove1 job (rz_marked s)))" using ids mset_eq_imp_distinct_iff by blast
    moreover have "set (rz_marked s) = insert job (set (remove1 job (rz_marked s)))" using mset_eq_setD [OF m] by simp
    ultimately show ?thesis by auto
  qed
  have a: "qu_id job \<in> set (rz_ids s)" "counted_status ?v ?M (qu_id job) = Some (run_status_value QUEUED)"
    "status_of ?v (qu_id job) = Some (run_status_value RUNNING)"
    using f j by (auto simp: runq_fits_def counted_status_def)
  have st: "counted_status ?v ?N b = (if b = qu_id job then Some (run_status_value RUNNING) else counted_status ?v ?M b)" for b
    using a(3) by (auto simp: counted_status_def N)
  obtain i k where v: "V (mark_count K (rz_redis s)) = recount ?v QUEUED i RUNNING k"
    "counters_ok (recount ?v QUEUED i RUNNING k) ?N (set (rz_ids s))"
    unfolding mark_count_def
    by (rule move_status [OF L c(1) finite_set c(2) a(1,2), of RUNNING "rz_redis s" ?N]) (simp_all add: st)
  from fits_recount [OF f j v(2)]
  show "runq_ok V T (s\<lparr>rz_redis := mark_count K (rz_redis s), rz_marked := remove1 job (rz_marked s), rz_active := job # rz_active s\<rparr>)"
    by (simp add: runq_ok_def v(1) recount_simps)
  show "status_of (V (mark_count K (rz_redis s))) = status_of ?v"
    "rv_hash (V (mark_count K (rz_redis s))) (runq_job_key b) = rv_hash ?v (runq_job_key b)"
    by (simp_all add: v(1) recount_simps)
qed

text \<open>Both together are \<open>mark_running\<close>.\<close>

lemma mark_running_steps:
  assumes "job \<in> set (rz_claimed s)" and "mark_running K T now job (rz_redis s) = (job', r)"
  shows "runs (runq_step K T) s [Rq_mark (qu_id job), Rq_start (qu_id job)]
    (s\<lparr>rz_redis := r, rz_claimed := remove1 job (rz_claimed s), rz_active := job' # rz_active s\<rparr>)"
proof -
  obtain r1 where m: "mark_record K T now job (rz_redis s) = (job', r1)" and r: "r = mark_count K r1"
    using assms(2) by (auto simp: mark_running_def split: prod.splits)
  have id: "qu_id job' = qu_id job" using m by (auto simp: mark_record_def)
  let ?s1 = "s\<lparr>rz_redis := r1, rz_claimed := remove1 job (rz_claimed s), rz_marked := job' # rz_marked s\<rparr>"
  have "runq_step K T s (Rq_mark (qu_id job)) ?s1" by (rule rq_mark [OF assms(1) m])
  moreover have "runq_step K T ?s1 (Rq_start (qu_id job))
      (s\<lparr>rz_redis := r, rz_claimed := remove1 job (rz_claimed s), rz_active := job' # rz_active s\<rparr>)"
    using rq_start [of job' ?s1 K T] by (cases s) (simp add: id r)
  ultimately show ?thesis by (auto simp: runs_Cons_iff)
qed

lemma start_views:
  assumes L: "redis_laws K V" and ok: "runq_ok V T s" and j: "job \<in> set (rz_claimed s)"
    and c: "mark_running K T now job (rz_redis s) = (job', r)"
  shows "runq_ok V T (s\<lparr>rz_redis := r, rz_claimed := remove1 job (rz_claimed s), rz_active := job' # rz_active s\<rparr>)"
    and "status_of (V r) b = (if b = qu_id job then Some (run_status_value RUNNING) else status_of (V (rz_redis s)) b)"
    and "rv_hash (V r) (runq_job_key b') = (if b' = qu_id job
      then rv_hash (V (rz_redis s)) (runq_job_key b') ++ map_of (rev (started_record T now job))
      else rv_hash (V (rz_redis s)) (runq_job_key b'))"
proof -
  obtain r1 where m: "mark_record K T now job (rz_redis s) = (job', r1)" and r: "r = mark_count K r1"
    using c by (auto simp: mark_running_def split: prod.splits)
  note v = mark_views [OF L ok j m]
  note w = count_views [OF L v(1), of job']
  show "runq_ok V T (s\<lparr>rz_redis := r, rz_claimed := remove1 job (rz_claimed s), rz_active := job' # rz_active s\<rparr>)"
    using w(1) by (cases s) (simp add: r)
  show "status_of (V r) b = (if b = qu_id job then Some (run_status_value RUNNING) else status_of (V (rz_redis s)) b)"
    using w(2) v(2) by (simp add: r)
  show "rv_hash (V r) (runq_job_key b') = (if b' = qu_id job
      then rv_hash (V (rz_redis s)) (runq_job_key b') ++ map_of (rev (started_record T now job))
      else rv_hash (V (rz_redis s)) (runq_job_key b'))"
    using w(3) v(3) by (simp add: r)
qed

lemma success_views:
  assumes L: "redis_laws K V" and ok: "runq_ok V T s" and j: "job \<in> set (rz_active s)"
    and c: "complete_success K T now job res (rz_redis s) = (job', r)"
  shows "runq_ok V T (s\<lparr>rz_redis := r, rz_active := remove1 job (rz_active s)\<rparr>)"
    and "status_of (V r) b = (if b = qu_id job then Some (run_status_value SUCCEEDED) else status_of (V (rz_redis s)) b)"
    and "rv_hash (V r) (runq_job_key b') = (if b' = qu_id job
      then rv_hash (V (rz_redis s)) (runq_job_key b') ++ map_of (rev [(''status'', run_status_value SUCCEEDED),
        (''finished_at'', tx_str (rt_texts T) now), (''result_json'', codec_dump (rt_response T) res),
        (''created_at'', tx_str (rt_texts T) (qu_created_at job))])
      else rv_hash (V (rz_redis s)) (runq_job_key b'))"
proof -
  let ?v = "V (rz_redis s)"
  let ?m = "[(''status'', run_status_value SUCCEEDED), (''finished_at'', tx_str (rt_texts T) now),
             (''result_json'', codec_dump (rt_response T) res), (''created_at'', tx_str (rt_texts T) (qu_created_at job))]"
  note f = ok [unfolded runq_ok_def]
  have r: "r = count_status K SUCCEEDED 1 (count_status K RUNNING (-1) (rd_hset K (runq_job_key (qu_id job)) ?m (rz_redis s)))"
    using c by (simp add: complete_success_def Let_def)
  have m: "map_of (rev ?m) ''status'' = Some (run_status_value SUCCEEDED)"
    "map_of (rev ?m) ''created_at'' = Some (tx_str (rt_texts T) (qu_created_at job))" by simp_all
  obtain n k where v: "V r = moved ?v (qu_id job) (map_of (rev ?m)) RUNNING n SUCCEEDED k"
    "counters_ok (moved ?v (qu_id job) (map_of (rev ?m)) RUNNING n SUCCEEDED k) (qu_id ` set (rz_marked s)) (set (rz_ids s))"
    unfolding r by (rule moves [OF L f j _ m(1)]) simp_all
  from fits_done [OF f j m v(2)] show "runq_ok V T (s\<lparr>rz_redis := r, rz_active := remove1 job (rz_active s)\<rparr>)"
    by (simp add: runq_ok_def v(1) moved_simps del: rev.simps)
  show "status_of (V r) b = (if b = qu_id job then Some (run_status_value SUCCEEDED) else status_of ?v b)"
    by (simp add: v(1) moved_status [where m = "map_of (rev ?m)", OF m(1)] del: rev.simps)
  show "rv_hash (V r) (runq_job_key b') = (if b' = qu_id job then rv_hash ?v (runq_job_key b') ++ map_of (rev ?m)
      else rv_hash ?v (runq_job_key b'))"
    by (simp add: v(1) moved_simps del: rev.simps)
qed

text \<open>A failure counter that has room goes up by one.\<close>

lemma count_failure:
  assumes L: "redis_laws K V" and f: "runq_fits X (V r) ids pend cl mk ac" and k: "k \<in> {runq_failure_codes, runq_failure_targets}"
    and n: "holds_int (V r) k g n" "0 \<le> n" "n < int (card (ids_with (V r) (set ids) FAILED))"
  shows "V (snd (rd_hincrby K k g 1 r)) = set_count (V r) k g (n + 1)"
    and "runq_fits X (set_count (V r) k g (n + 1)) ids pend cl mk ac"
proof -
  have "card (ids_with (V r) (set ids) FAILED) \<le> card (set ids)" by (rule card_mono) (auto simp: ids_with_def)
  then have "card (ids_with (V r) (set ids) FAILED) \<le> length ids" using card_length [of ids] by linarith
  then have "int64 n" "int64 (n + 1)" using f n by (auto simp: runq_fits_def int64_def)
  then show "V (snd (rd_hincrby K k g 1 r)) = set_count (V r) k g (n + 1)" using hincrby_view [OF L n(1)] by blast
  show "runq_fits X (set_count (V r) k g (n + 1)) ids pend cl mk ac"
    using fits_fail_count [OF f k, of "n + 1" g] n by linarith
qed

lemma fails_room:
  assumes f: "runq_fits X v ids pend cl mk ac" and k: "k \<in> {runq_failure_codes, runq_failure_targets}"
    and a: "a \<in> set ids" "status_of v a \<noteq> Some (run_status_value FAILED)"
    and m: "m ''status'' = Some (run_status_value FAILED)"
  obtains n where "holds_int (moved v a m s i FAILED j) k g n" "0 \<le> n"
    "n < int (card (ids_with (moved v a m s i FAILED j) (set ids) FAILED))"
proof -
  have "fails_ok v k (set ids)" using f k by (auto simp: runq_fits_def)
  then obtain n where n: "0 \<le> n" "n \<le> int (card (ids_with v (set ids) FAILED))" "holds_int v k g n"
    unfolding fails_ok_def by blast
  have "a \<notin> ids_with v (set ids) FAILED" using a(2) by (simp add: ids_with_def)
  moreover have "finite (ids_with v (set ids) FAILED)" by (rule ids_with_finite) simp
  ultimately have "card (ids_with (moved v a m s i FAILED j) (set ids) FAILED) = card (ids_with v (set ids) FAILED) + 1"
    by (simp add: moved_ids [where m = m, OF m a(1)])
  moreover have "holds_int (moved v a m s i FAILED j) k g n" using n(3) k by (auto simp: moved_simps)
  ultimately show ?thesis using that n by simp
qed

lemma count_failures:
  assumes L: "redis_laws K V" and f: "runq_fits X (V r1) ids pend cl mk ac"
    and c: "holds_int (V r1) runq_failure_codes g n" "0 \<le> n" "n < int (card (ids_with (V r1) (set ids) FAILED))"
    and t: "holds_int (V r1) runq_failure_targets h k" "0 \<le> k" "k < int (card (ids_with (V r1) (set ids) FAILED))"
    and r: "r2 = snd (rd_hincrby K runq_failure_codes g 1 r1)"
      "r3 = (if b then snd (rd_hincrby K runq_failure_targets h 1 r2) else r2)"
  shows "runq_fits X (V r3) ids pend cl mk ac" and "rv_list (V r3) = rv_list (V r1)" and "status_of (V r3) = status_of (V r1)"
    and "rv_hash (V r3) (runq_job_key b') = rv_hash (V r1) (runq_job_key b')"
proof -
  have v2: "V r2 = set_count (V r1) runq_failure_codes g (n + 1)" and f2: "runq_fits X (V r2) ids pend cl mk ac"
    using count_failure [OF L f _ c] r(1) by simp_all
  have st: "status_of (V r2) = status_of (V r1)" by (simp add: v2 status_of_def fun_eq_iff set_count_simps)
  then have ids: "ids_with (V r2) = ids_with (V r1)" by (simp add: ids_with_def fun_eq_iff)
  have h2: "holds_int (V r2) runq_failure_targets h k" using t(1) by (simp add: v2 set_count_simps)
  have v3: "V (snd (rd_hincrby K runq_failure_targets h 1 r2)) = set_count (V r2) runq_failure_targets h (k + 1)"
    and f3: "runq_fits X (set_count (V r2) runq_failure_targets h (k + 1)) ids pend cl mk ac"
    using count_failure [OF L f2 _ h2 t(2)] t(3) by (simp_all add: ids)
  show "runq_fits X (V r3) ids pend cl mk ac" using f2 f3 by (simp add: r(2) v3)
  show "rv_list (V r3) = rv_list (V r1)" by (simp add: r(2) v3 v2 set_count_simps)
  show "status_of (V r3) = status_of (V r1)"
    using st by (simp add: r(2) v3 status_of_def fun_eq_iff set_count_simps)
  show "rv_hash (V r3) (runq_job_key b') = rv_hash (V r1) (runq_job_key b')"
    by (simp add: r(2) v3 v2 set_count_simps)
qed

definition failed_record :: "run_texts \<Rightarrow> real \<Rightarrow> queued_run \<Rightarrow> error_code \<Rightarrow> string \<Rightarrow> string option \<Rightarrow> (string, json) dict option
    \<Rightarrow> (string \<times> string) list" where
  "failed_record T now job code msg hint det =
     [(''status'', run_status_value FAILED), (''finished_at'', tx_str (rt_texts T) now), (''error'', msg),
      (''error_code'', error_code_value code), (''error_message'', msg),
      (''error_detail'', tx_dumps (rt_texts T) (JObj (runq_failure_detail code msg hint det))),
      (''action_hint'', or_str hint []), (''created_at'', tx_str (rt_texts T) (qu_created_at job))]"

lemma failed_record_fields:
  "map_of (rev (failed_record T now job code msg hint det)) ''status'' = Some (run_status_value FAILED)"
  "map_of (rev (failed_record T now job code msg hint det)) ''created_at'' = Some (tx_str (rt_texts T) (qu_created_at job))"
  by (simp_all add: failed_record_def)

lemma failure_views:
  assumes L: "redis_laws K V" and ok: "runq_ok V T s" and j: "job \<in> set (rz_active s)"
    and c: "complete_failure K T now job code msg hint det (rz_redis s) = (job', r)"
  shows "runq_ok V T (s\<lparr>rz_redis := r, rz_active := remove1 job (rz_active s)\<rparr>)"
    and "status_of (V r) b = (if b = qu_id job then Some (run_status_value FAILED) else status_of (V (rz_redis s)) b)"
    and "rv_hash (V r) (runq_job_key (qu_id job)) =
      rv_hash (V (rz_redis s)) (runq_job_key (qu_id job)) ++ map_of (rev (failed_record T now job code msg hint det))"
    and "b' \<noteq> qu_id job \<Longrightarrow> rv_hash (V r) (runq_job_key b') = rv_hash (V (rz_redis s)) (runq_job_key b')"
proof -
  let ?v = "V (rz_redis s)" and ?m = "failed_record T now job code msg hint det"
  let ?r1 = "count_status K FAILED 1 (count_status K RUNNING (-1) (rd_hset K (runq_job_key (qu_id job)) ?m (rz_redis s)))"
  let ?code = "error_code_value code" and ?target = "rq_hardware_target (qu_request job)"
  note f = ok [unfolded runq_ok_def]
  define r2 where "r2 = snd (rd_hincrby K runq_failure_codes ?code 1 ?r1)"
  have r: "r = (if ?target \<noteq> [] then snd (rd_hincrby K runq_failure_targets ?target 1 r2) else r2)"
    using c by (auto simp: complete_failure_def Let_def failed_record_def r2_def)
  have a: "qu_id job \<in> set (rz_ids s)" "status_of ?v (qu_id job) = Some (run_status_value RUNNING)"
    using f j by (auto simp: runq_fits_def)
  note m = failed_record_fields [of T now job code msg hint det]
  obtain n k where v: "V ?r1 = moved ?v (qu_id job) (map_of (rev ?m)) RUNNING n FAILED k"
    "counters_ok (moved ?v (qu_id job) (map_of (rev ?m)) RUNNING n FAILED k) (qu_id ` set (rz_marked s)) (set (rz_ids s))"
    by (rule moves [OF L f j _ m(1)]) simp_all
  have f1: "runq_fits (rt_texts T) (V ?r1) (rz_ids s) (rv_list ?v runq_pending @ rz_popped s) (rz_claimed s) (rz_marked s)
      (remove1 job (rz_active s))"
    unfolding v(1) by (rule fits_done [OF f j m v(2)])
  have ne: "status_of ?v (qu_id job) \<noteq> Some (run_status_value FAILED)" using a(2) by simp
  have kk: "runq_failure_codes \<in> {runq_failure_codes, runq_failure_targets}"
    "runq_failure_targets \<in> {runq_failure_codes, runq_failure_targets}" by simp_all
  obtain x where x: "holds_int (V ?r1) runq_failure_codes ?code x" "0 \<le> x" "x < int (card (ids_with (V ?r1) (set (rz_ids s)) FAILED))"
    unfolding v(1) by (rule fails_room [where m = "map_of (rev ?m)", OF f kk(1) a(1) ne m(1)])
  obtain y where y: "holds_int (V ?r1) runq_failure_targets ?target y" "0 \<le> y"
      "y < int (card (ids_with (V ?r1) (set (rz_ids s)) FAILED))"
    unfolding v(1) by (rule fails_room [where m = "map_of (rev ?m)", OF f kk(2) a(1) ne m(1)])
  note w = count_failures [OF L f1 x y r2_def r]
  show "runq_ok V T (s\<lparr>rz_redis := r, rz_active := remove1 job (rz_active s)\<rparr>)"
    using w(1) by (simp add: runq_ok_def w(2) v(1) moved_simps)
  show "status_of (V r) b = (if b = qu_id job then Some (run_status_value FAILED) else status_of ?v b)"
    by (simp add: w(3) v(1) moved_status [where m = "map_of (rev ?m)", OF m(1)])
  show "rv_hash (V r) (runq_job_key (qu_id job)) = rv_hash ?v (runq_job_key (qu_id job)) ++ map_of (rev ?m)"
    by (simp add: w(4) v(1) moved_simps)
  show "rv_hash (V r) (runq_job_key b') = rv_hash ?v (runq_job_key b')" if "b' \<noteq> qu_id job"
    using that by (simp add: w(4) v(1) moved_simps)
qed

section \<open>All runs of the queue\<close>

definition may_follow :: "run_job_status \<Rightarrow> run_job_status \<Rightarrow> bool" where
  "may_follow x y = (x = y \<or> x = QUEUED \<or> x = RUNNING \<and> y \<noteq> QUEUED)"

lemma may_follow_refl: "may_follow x x"
  by (simp add: may_follow_def)

lemma may_follow_trans: "may_follow x y \<Longrightarrow> may_follow y z \<Longrightarrow> may_follow x z"
  by (auto simp: may_follow_def)

definition runq_before :: "('r \<Rightarrow> redis_view) \<Rightarrow> 'r runq_sys \<Rightarrow> 'r runq_sys \<Rightarrow> bool" where
  "runq_before V s s' =
     (\<forall>a x. a \<in> set (rz_ids s) \<longrightarrow> status_of (V (rz_redis s)) a = Some (run_status_value x) \<longrightarrow>
        a \<in> set (rz_ids s') \<and> (\<exists>y. status_of (V (rz_redis s')) a = Some (run_status_value y) \<and> may_follow x y))"

lemma runq_beforeI:
  assumes "set (rz_ids s) \<subseteq> set (rz_ids s')"
    and "\<And>a. a \<in> set (rz_ids s) \<Longrightarrow> status_of (V (rz_redis s')) a =
      (if P a then Some (run_status_value y) else status_of (V (rz_redis s)) a)"
    and "\<And>a x. a \<in> set (rz_ids s) \<Longrightarrow> P a \<Longrightarrow> status_of (V (rz_redis s)) a = Some (run_status_value x) \<Longrightarrow> may_follow x y"
  shows "runq_before V s s'"
  unfolding runq_before_def using assms may_follow_refl by (metis subsetD)

lemma runq_step_kept:
  assumes L: "redis_laws K V" and ok: "runq_ok V T s" and st: "runq_step K T s e s'"
  shows "runq_ok V T s' \<and> runq_before V s s'"
  using st
proof cases
  case (rq_enqueue a now req session M ans r M')
  note n = enqueue_room [OF ok rq_enqueue(4)]
  note v = enqueue_counters [OF L n(1,2) finite_set rq_enqueue(3) n(3) rq_enqueue(6)]
  have "runq_before V s s'"
    by (rule runq_beforeI [where P = "\<lambda>_. False" and y = QUEUED]; use rq_enqueue(2,3) v(3) in auto)
  then show ?thesis using enqueue_step [OF L ok rq_enqueue(3-6)] rq_enqueue(2) by blast
next
  case (rq_pop a r)
  have "runq_before V s s'"
    by (rule runq_beforeI [where P = "\<lambda>_. False" and y = QUEUED];
        use rq_pop(2) pop_view(1) [OF L rq_pop(3)] in \<open>simp add: pop_pending_simps\<close>)
  then show ?thesis using pop_step [OF L ok rq_pop(3)] rq_pop(2) by blast
next
  case (rq_claim a now job)
  have "runq_before V s s'" by (rule runq_beforeI [where P = "\<lambda>_. False" and y = QUEUED]; use rq_claim(2) in simp)
  then show ?thesis using claim_step [OF L ok rq_claim(3,4)] rq_claim(2) by blast
next
  case (rq_drop a now)
  have "runq_before V s s'" by (rule runq_beforeI [where P = "\<lambda>_. False" and y = QUEUED]; use rq_drop(2) in simp)
  then show ?thesis using drop_step [OF ok rq_drop(3)] rq_drop(2) by blast
next
  case (rq_mark job now job' r)
  have q: "status_of (V (rz_redis s)) (qu_id job) = Some (run_status_value QUEUED)"
    using runq_okD(5) [OF ok] rq_mark(3) by blast
  note v = mark_views [OF L ok rq_mark(3,4)]
  have "runq_before V s s'"
    by (rule runq_beforeI [where P = "\<lambda>b. b = qu_id job" and y = RUNNING]; use rq_mark(2) v(2) q in \<open>simp add: may_follow_def\<close>)
  then show ?thesis using v(1) rq_mark(2) by blast
next
  case (rq_start job)
  note v = count_views [OF L ok rq_start(3)]
  have "runq_before V s s'"
    by (rule runq_beforeI [where P = "\<lambda>_. False" and y = QUEUED]; use rq_start(2) v(2) in simp)
  then show ?thesis using v(1) rq_start(2) by blast
next
  case (rq_success job now res job' r)
  have q: "status_of (V (rz_redis s)) (qu_id job) = Some (run_status_value RUNNING)"
    using runq_okD(6) [OF ok] rq_success(3) by blast
  note v = success_views [OF L ok rq_success(3,4)]
  have "runq_before V s s'"
    by (rule runq_beforeI [where P = "\<lambda>b. b = qu_id job" and y = SUCCEEDED]; use rq_success(2) v(2) q in \<open>simp add: may_follow_def\<close>)
  then show ?thesis using v(1) rq_success(2) by blast
next
  case (rq_failure job now code msg hint det job' r)
  have q: "status_of (V (rz_redis s)) (qu_id job) = Some (run_status_value RUNNING)"
    using runq_okD(6) [OF ok] rq_failure(3) by blast
  note v = failure_views [OF L ok rq_failure(3,4)]
  have "runq_before V s s'"
    by (rule runq_beforeI [where P = "\<lambda>b. b = qu_id job" and y = FAILED]; use rq_failure(2) v(2) q in \<open>simp add: may_follow_def\<close>)
  then show ?thesis using v(1) rq_failure(2) by blast
qed

lemma runq_before_refl: "runq_before V s s"
  by (simp add: runq_before_def may_follow_refl)

lemma runq_before_trans: "runq_before V s1 s2 \<Longrightarrow> runq_before V s2 s3 \<Longrightarrow> runq_before V s1 s3"
  unfolding runq_before_def by (meson may_follow_trans)

interpretation runq: step_machine "runq_step K T" "\<lambda>s. redis_laws K V \<and> runq_ok V T s" "runq_before V"
  for K T V
proof (unfold_locales, goal_cases)
  case (1 s e s') then show ?case using runq_step_kept by blast
next
  case (2 s e s') then show ?case using runq_step_kept by blast
next
  case (3 s) show ?case by (rule runq_before_refl)
next
  case (4 s1 s2 s3) then show ?case by (rule runq_before_trans)
qed

section \<open>The statistics are exact\<close>

definition runq_new :: "'r \<Rightarrow> 'r runq_sys" where
  "runq_new r = \<lparr>rz_redis = r, rz_ids = [], rz_popped = [], rz_claimed = [], rz_marked = [], rz_active = []\<rparr>"

definition runq_empty :: "redis_view \<Rightarrow> bool" where
  "runq_empty v = ((\<forall>k. rv_hash v k = Map.empty) \<and> rv_list v runq_pending = [])"

lemma runq_new_ok: "runq_empty (V r) \<Longrightarrow> runq_ok V T (runq_new r)"
  by (simp add: runq_empty_def runq_ok_def runq_new_def runq_fits_def counters_ok_def fails_ok_def ids_with_def ids_counted_def holds_int_def)

lemma py_str_int_nonempty: "py_str_int n \<noteq> []"
proof
  assume "py_str_int n = []"
  then have "py_int_of_str [] = Some n" using int_of_str_of_int [of n] by simp
  moreover have "py_int_of_str [] = None" by code_simp
  ultimately show False by simp
qed

lemma count_read_exact:
  assumes "redis_laws K V" and "counters_ok (V r) M I"
  shows "count_read (rd_hgetall K runq_counts r) x = Some (int (card (ids_counted (V r) M I x)))"
proof -
  have "holds_int (V r) runq_counts (run_status_value x) (int (card (ids_counted (V r) M I x)))"
    using assms(2) by (simp add: counters_ok_def)
  then show ?thesis
    by (auto simp: count_read_def holds_int_def redis_hash_simps(1) [OF assms(1)] int_of_str_of_int py_str_int_nonempty
        split: option.splits)
qed

lemma ints_of_total:
  "(\<And>k t. (k, t) \<in> set d \<Longrightarrow> py_int_of_str t \<noteq> None) \<Longrightarrow> ints_of d \<noteq> None"
proof (induction d)
  case (Cons p d)
  obtain k t where p: "p = (k, t)" by force
  from Cons.prems [of k t] obtain i where "py_int_of_str t = Some i" by (auto simp: p)
  moreover have "ints_of d \<noteq> None" by (rule Cons.IH) (use Cons.prems in auto)
  ultimately show ?case by (auto simp: p)
qed simp

lemma fails_ints:
  assumes "redis_laws K V" and "fails_ok (V r) k I"
  obtains xs where "ints_of (rd_hgetall K k r) = Some xs"
proof -
  have "py_int_of_str t \<noteq> None" if "(f, t) \<in> set (rd_hgetall K k r)" for f t
  proof -
    have "map_of (rd_hgetall K k r) f = Some t"
      using redis_hgetall_wf [OF assms(1)] that by (simp add: dict_wf_def)
    moreover obtain n where "holds_int (V r) k f n" using assms(2) by (auto simp: fails_ok_def)
    ultimately show ?thesis
      by (auto simp: holds_int_def redis_hash_simps(1) [OF assms(1)] int_of_str_of_int)
  qed
  then show ?thesis using ints_of_total [of "rd_hgetall K k r"] that by blast
qed

text \<open>The head of the list is a submitted run, whose record keeps a readable time.\<close>

lemma oldest_queued_total:
  assumes L: "redis_laws K V" and ok: "runq_ok V T s"
    and first: "\<And>a. first = Some a \<Longrightarrow> a \<in> set (rz_ids s)"
  obtains x where "oldest_queued K T now first (rz_redis s) = Inr x"
proof (cases first)
  case None
  then show ?thesis using that by (simp add: oldest_queued_def truthy_str_def)
next
  case (Some a)
  then have "a \<in> set (rz_ids s)" by (rule first)
  then obtain t where "rv_hash (V (rz_redis s)) (runq_job_key a) ''created_at'' = Some (tx_str (rt_texts T) t)" "float_reads_back (rt_texts T) t"
    by (rule fits_readable [OF ok [unfolded runq_ok_def]])
  then show ?thesis
    using that [of "if a = [] then None else Some (max 0 (now - t))"] Some
    by (auto simp: oldest_queued_def redis_hash_simps [OF L] Let_def float_reads_back_def truthy_str_def or_str_def split: if_splits)
qed

lemma head_submitted:
  assumes "redis_laws K V" and ok: "runq_ok V T s" and "rd_lindex0 K runq_pending (rz_redis s) = Some a"
  shows "a \<in> set (rz_ids s)"
proof -
  have "a \<in> set (rv_list (V (rz_redis s)) runq_pending)"
    using assms(3) by (cases "rv_list (V (rz_redis s)) runq_pending") (simp_all add: redis_list_simps [OF assms(1)])
  then show ?thesis using ok by (auto simp: runq_ok_def runq_fits_def)
qed

lemma ids_partition:
  assumes "runq_fits X v ids pend cl mk ac"
  shows "card (ids_with v (set ids) QUEUED) + card (ids_with v (set ids) RUNNING) +
    card (ids_with v (set ids) SUCCEEDED) + card (ids_with v (set ids) FAILED) = length ids"
proof -
  let ?w = "\<lambda>x. ids_with v (set ids) x"
  have u: "set ids = \<Union> (?w ` UNIV)"
    using assms by (auto simp: runq_fits_def run_readable_def ids_with_def)
  have U: "(UNIV :: run_job_status set) = {QUEUED, RUNNING, SUCCEEDED, FAILED}"
    using run_job_status.exhaust by auto
  have "card (\<Union> (?w ` UNIV)) = (\<Sum>x\<in>UNIV. card (?w x))"
  proof (rule card_UN_disjoint)
    show "\<forall>x\<in>UNIV. \<forall>y\<in>UNIV. x \<noteq> y \<longrightarrow> ?w x \<inter> ?w y = {}" by (auto simp: ids_with_def)
  qed (simp_all add: U ids_with_finite)
  then have "card (set ids) = (\<Sum>x\<in>UNIV. card (?w x))" by (simp only: u [symmetric])
  moreover have "card (set ids) = length ids" using assms by (simp add: runq_fits_def distinct_card)
  ultimately show ?thesis by (simp add: U)
qed

text \<open>What the counters count, against the records.\<close>

lemma counted_statuses:
  assumes f: "runq_fits X v ids pend cl mk ac"
  shows "card (ids_counted v (qu_id ` set mk) (set ids) QUEUED) = card (ids_with v (set ids) QUEUED) + length mk"
    and "card (ids_counted v (qu_id ` set mk) (set ids) RUNNING) + length mk = card (ids_with v (set ids) RUNNING)"
    and "x \<noteq> QUEUED \<Longrightarrow> x \<noteq> RUNNING \<Longrightarrow> ids_counted v (qu_id ` set mk) (set ids) x = ids_with v (set ids) x"
proof -
  let ?M = "qu_id ` set mk" and ?c = "ids_counted v (qu_id ` set mk) (set ids)"
  have M: "?M \<subseteq> set ids" "\<And>a. a \<in> ?M \<Longrightarrow> status_of v a = Some (run_status_value RUNNING)"
    using f by (auto simp: runq_fits_def)
  have "card (set (map qu_id mk)) = length (map qu_id mk)" by (rule distinct_card) (use f in \<open>simp add: runq_fits_def\<close>)
  then have n: "card ?M = length mk" by simp
  have q: "?c QUEUED = ids_with v (set ids) QUEUED \<union> ?M" "ids_with v (set ids) QUEUED \<inter> ?M = {}"
    using M by (auto simp: ids_counted_def ids_with_def counted_status_def)
  then show "card (?c QUEUED) = card (ids_with v (set ids) QUEUED) + length mk"
    using card_Un_disjoint [OF ids_with_finite [OF finite_set] _ q(2)] n by simp
  have r: "ids_with v (set ids) RUNNING = ?c RUNNING \<union> ?M" "?c RUNNING \<inter> ?M = {}"
    using M by (auto simp: ids_counted_def ids_with_def counted_status_def)
  then show "card (?c RUNNING) + length mk = card (ids_with v (set ids) RUNNING)"
    using card_Un_disjoint [OF ids_counted_finite [OF finite_set] _ r(2)] n by simp
  show "x \<noteq> QUEUED \<Longrightarrow> x \<noteq> RUNNING \<Longrightarrow> ?c x = ids_with v (set ids) x"
    using M by (auto simp: ids_counted_def ids_with_def counted_status_def)
qed

text \<open>
  C23. From an empty server, whatever the API and the workers do, before, between and after the three
  reads of the statistics, they never raise, and they count the runs as they are at the read of the
  counters: the total is the number of submissions, the succeeded and failed runs are those whose
  record says so, and so are the queued and running ones, but for the runs that a worker is just
  marking as running: those, whose record is written and whose counters are not, still count as queued.
\<close>

theorem run_counters_exact:
  assumes "redis_laws K V" and "runq_empty (V r0)" and "runs (runq_step K T) (runq_new r0) es0 s0"
    and "runs (runq_step K T) s0 es1 s" and "runs (runq_step K T) s es2 s2"
  shows "\<exists>st. runq_stats_reads K T w now (rz_redis s0) (rz_redis s) (rz_redis s2) = Inr st \<and>
    rs_all st = int (length (rz_ids s)) \<and>
    rs_queued st = int (card (ids_with (V (rz_redis s)) (set (rz_ids s)) QUEUED)) + int (length (rz_marked s)) \<and>
    rs_running st = int (card (ids_with (V (rz_redis s)) (set (rz_ids s)) RUNNING)) - int (length (rz_marked s)) \<and>
    rs_succeeded st = int (card (ids_with (V (rz_redis s)) (set (rz_ids s)) SUCCEEDED)) \<and>
    rs_failed st = int (card (ids_with (V (rz_redis s)) (set (rz_ids s)) FAILED))"
proof -
  note L = assms(1)
  have ok0: "redis_laws K V \<and> runq_ok V T s0" using runq.runs_ok [OF assms(3)] L runq_new_ok [where V = V and r = r0, OF assms(2)] by blast
  then have ok: "redis_laws K V \<and> runq_ok V T s" by (rule runq.runs_ok [OF assms(4)])
  then have ok2: "redis_laws K V \<and> runq_ok V T s2" by (rule runq.runs_ok [OF assms(5)])
  have f: "runq_fits (rt_texts T) (V (rz_redis s)) (rz_ids s) (rv_list (V (rz_redis s)) runq_pending @ rz_popped s)
      (rz_claimed s) (rz_marked s) (rz_active s)" using ok by (simp add: runq_ok_def)
  then have c: "counters_ok (V (rz_redis s)) (qu_id ` set (rz_marked s)) (set (rz_ids s))"
    "fails_ok (V (rz_redis s)) runq_failure_codes (set (rz_ids s))" "fails_ok (V (rz_redis s)) runq_failure_targets (set (rz_ids s))"
    by (simp_all add: runq_fits_def)
  have grow: "set (rz_ids t) \<subseteq> set (rz_ids t')" if st: "runs (runq_step K T) t es t'" and i: "redis_laws K V \<and> runq_ok V T t" for t t' es
  proof
    fix a assume a: "a \<in> set (rz_ids t)"
    then obtain x where "status_of (V (rz_redis t)) a = Some (run_status_value x)"
      using runq_okD(4) [where s = t and V = V and T = T and a = a] i by (auto simp: run_readable_def)
    then show "a \<in> set (rz_ids t')" using runq.runs_before [OF st i] a unfolding runq_before_def by blast
  qed
  have "a \<in> set (rz_ids s2)" if "rd_lindex0 K runq_pending (rz_redis s0) = Some a" for a
    using head_submitted [OF L _ that] ok0 grow [OF assms(4) ok0] grow [OF assms(5) ok] by blast
  then obtain x where "oldest_queued K T now (rd_lindex0 K runq_pending (rz_redis s0)) (rz_redis s2) = Inr x"
    using oldest_queued_total [OF L] ok2 by metis
  moreover obtain xs where "ints_of (rd_hgetall K runq_failure_codes (rz_redis s)) = Some xs" by (rule fails_ints [OF L c(2)])
  moreover obtain ys where "ints_of (rd_hgetall K runq_failure_targets (rz_redis s)) = Some ys" by (rule fails_ints [OF L c(3)])
  ultimately show ?thesis
    using ids_partition [OF f] counted_statuses(1,2) [OF f] counted_statuses(3) [OF f, of SUCCEEDED] counted_statuses(3) [OF f, of FAILED]
    by (simp add: runq_stats_reads_def Let_def count_read_exact [OF L c(1)] rs_all_def)
qed

lemma runq_get_submitted:
  assumes L: "redis_laws K V" and ok: "runq_ok V T s" and a: "a \<in> set (rz_ids s)"
    and st: "status_of (V (rz_redis s)) a = Some (run_status_value x)"
  obtains v where "runq_get K T a (rz_redis s) = Inr (Some v)" "rx_id v = a" "rx_status v = run_status_value x"
proof -
  let ?d = "rd_hgetall K (runq_job_key a) (rz_redis s)"
  obtain t where t: "rv_hash (V (rz_redis s)) (runq_job_key a) ''created_at'' = Some (tx_str (rt_texts T) t)" "float_reads_back (rt_texts T) t"
    using fits_readable [OF ok [unfolded runq_ok_def] a] by blast
  have d: "dict_get ?d ''created_at'' = Some (tx_str (rt_texts T) t)" "dict_get ?d ''status'' = Some (run_status_value x)"
    using t(1) st by (simp_all add: redis_hash_simps [OF L] status_of_def)
  then have "?d \<noteq> []" by auto
  then show ?thesis
    using that d t(2) by (simp add: runq_get_def Let_def float_reads_back_def dict_get_or_def truthy_str_def or_str_def split: if_splits)
qed

lemma runq_get_fields:
  assumes "runq_get K T a r = Inr (Some v)"
  shows "rx_status v = dict_get_or (run_status_value QUEUED) (rd_hgetall K (runq_job_key a) r) ''status''"
    and "rx_error_code v = dict_get (rd_hgetall K (runq_job_key a) r) ''error_code''"
    and "rx_error_message v = dict_get (rd_hgetall K (runq_job_key a) r) ''error_message''"
    and "rx_action_hint v = dict_get (rd_hgetall K (runq_job_key a) r) ''action_hint''"
  using assms by (auto simp: runq_get_def Let_def split: if_splits option.splits)

text \<open>
  C24. Every submitted run can be looked up, and its status only moves forward: a queued run may
  start and end, a running one may end, and one that has succeeded or failed stays so, whatever
  other workers and clients do.
\<close>

theorem run_status_moves_forward:
  assumes "redis_laws K V" and "runq_empty (V r0)" and "runs (runq_step K T) (runq_new r0) es s"
    and "a \<in> set (rz_ids s)" and "runs (runq_step K T) s es' s'"
  shows "\<exists>v v' x y. runq_get K T a (rz_redis s) = Inr (Some v) \<and> rx_status v = run_status_value x \<and>
    runq_get K T a (rz_redis s') = Inr (Some v') \<and> rx_status v' = run_status_value y \<and> may_follow x y"
proof -
  have ok: "redis_laws K V \<and> runq_ok V T s" using runq.runs_ok [OF assms(3)] assms(1) runq_new_ok [where V = V and r = r0, OF assms(2)] by blast
  have ok': "runq_ok V T s'" using runq.runs_ok [OF assms(5) ok] by blast
  obtain x where x: "status_of (V (rz_redis s)) a = Some (run_status_value x)"
    using ok assms(4) by (auto simp: runq_ok_def runq_fits_def run_readable_def)
  have "runq_before V s s'" by (rule runq.runs_before [OF assms(5) ok])
  then obtain y where y: "a \<in> set (rz_ids s')" "status_of (V (rz_redis s')) a = Some (run_status_value y)" "may_follow x y"
    using assms(4) x by (auto simp: runq_before_def)
  show ?thesis
    using runq_get_submitted [OF assms(1) _ assms(4) x] runq_get_submitted [OF assms(1) ok' y(1,2)] ok y(3) by metis
qed


text \<open>A run that a worker claims, starts and reports as failed, on the reference server.\<close>

definition demo_run_request :: run_experiment_request where
  "demo_run_request = \<lparr>rq_preset = HEALTH, rq_hardware_target = ''sim_local'', rq_shot_budget = Some 500,
     rq_notes = None, rq_control_overrides = None, rq_mode = None\<rparr>"

text \<open>Texts for one run: a detail reads back as that of a timeout.\<close>

definition demo_detail :: json where
  "demo_detail = JObj (runq_failure_detail TIMEOUT ''Job exceeded timeout'' (Some ''Reduce shot budget or wait for fewer concurrent jobs.'')
     (Some [(''timeout_seconds'', JInt 90)]))"

definition demo_run_texts :: run_texts where
  "demo_run_texts = \<lparr>rt_request = \<lparr>codec_dump = (\<lambda>_. ''{}''), codec_load = (\<lambda>_. Some demo_run_request)\<rparr>,
     rt_response = \<lparr>codec_dump = (\<lambda>_. ''{}''), codec_load = (\<lambda>_. None)\<rparr>,
     rt_texts = \<lparr>tx_str = (\<lambda>x. ''1.0''), tx_float = (\<lambda>t. if t = ''1.0'' then Some 1 else None),
       tx_dumps = (\<lambda>j. ''{}''), tx_loads = (\<lambda>t. Some demo_detail)\<rparr>\<rparr>"

definition demo_server :: redis_db where
  "demo_server = \<lparr>db_strings = [], db_hashes = [], db_lists = [], db_zsets = []\<rparr>"

definition demo_queued :: redis_db where
  "demo_queued = fst (snd (runq_enqueue redis_reference demo_run_texts ''a'' 1 demo_run_request ''s'' (demo_server, run_metrics_init)))"

definition demo_claimed :: "queued_run option py \<times> redis_db" where
  "demo_claimed = claim_next redis_reference demo_run_texts 1 demo_queued"

definition demo_claimed_run :: queued_run where
  "demo_claimed_run = \<lparr>qu_id = ''a'', qu_request = demo_run_request, qu_session_id = ''s'', qu_created_at = 1,
     qu_started_at = None, qu_finished_at = None\<rparr>"

definition demo_started :: "queued_run \<times> redis_db" where
  "demo_started = mark_running redis_reference demo_run_texts 1 demo_claimed_run (snd demo_claimed)"

definition demo_failed_run :: "queued_run \<times> redis_db" where
  "demo_failed_run = complete_failure redis_reference demo_run_texts 1 (fst demo_started) INTERNAL_ERROR ''e'' None None (snd demo_started)"

lemma demo_server_empty: "runq_empty (db_contents demo_server)"
  by (simp add: runq_empty_def demo_server_def db_contents_def db_hash_def db_list_def dict_get_or_def)

lemma demo_claims_run:
  "fst demo_claimed = Inr (Some demo_claimed_run)" "rd_blpop redis_reference runq_pending demo_queued = (Some ''a'', snd demo_claimed)"
  by code_simp+

lemma demo_runq_claimed:
  "runs (runq_step redis_reference demo_run_texts) (runq_new demo_server) [Rq_enqueue ''a'', Rq_pop ''a'', Rq_claim ''a'']
     ((runq_new (snd demo_claimed))\<lparr>rz_ids := [''a''], rz_claimed := [demo_claimed_run]\<rparr>)"
proof -
  let ?step = "runq_step redis_reference demo_run_texts"
  let ?s1 = "(runq_new demo_queued)\<lparr>rz_ids := [''a'']\<rparr>" and ?s2 = "(runq_new (snd demo_claimed))\<lparr>rz_ids := [''a''], rz_popped := [''a'']\<rparr>"
  have "float_reads_back (rt_texts demo_run_texts) 1"
    by (simp add: float_reads_back_def demo_run_texts_def) code_simp
  then have 1: "?step (runq_new demo_server) (Rq_enqueue ''a'') ?s1"
    using rq_enqueue [of "''a''" "runq_new demo_server" demo_run_texts 1 redis_reference demo_run_request "''s''" run_metrics_init]
    by (simp add: runq_new_def demo_queued_def runq_enqueue_def Let_def)
  have 2: "?step ?s1 (Rq_pop ''a'') ?s2"
    using rq_pop [of redis_reference ?s1 "''a''" "snd demo_claimed"] demo_claims_run(2) by (simp add: runq_new_def)
  have e: "fst demo_claimed = claim_read redis_reference demo_run_texts 1 ''a'' (snd demo_claimed)"
    using demo_claims_run(2) by (subst (1) demo_claimed_def) (simp add: claim_next_def)
  have "claim_read redis_reference demo_run_texts 1 ''a'' (snd demo_claimed) = Inr (Some demo_claimed_run)"
    using demo_claims_run(1) e by simp
  then have 3: "?step ?s2 (Rq_claim ''a'') ((runq_new (snd demo_claimed))\<lparr>rz_ids := [''a''], rz_claimed := [demo_claimed_run]\<rparr>)"
    using rq_claim [of "''a''" ?s2 redis_reference demo_run_texts 1 demo_claimed_run] by (simp add: runq_new_def)
  show ?thesis using 1 2 3 by (auto simp: runs_Cons_iff)
qed

lemma demo_runq_run:
  "runs (runq_step redis_reference demo_run_texts) (runq_new demo_server)
     [Rq_enqueue ''a'', Rq_pop ''a'', Rq_claim ''a'', Rq_mark ''a'', Rq_start ''a'', Rq_failure ''a'']
     ((runq_new (snd demo_failed_run))\<lparr>rz_ids := [''a'']\<rparr>)"
proof -
  let ?step = "runq_step redis_reference demo_run_texts" and ?m = "mark_record redis_reference demo_run_texts 1 demo_claimed_run (snd demo_claimed)"
  let ?s1 = "(runq_new (snd demo_claimed))\<lparr>rz_ids := [''a''], rz_claimed := [demo_claimed_run]\<rparr>"
  let ?s2 = "(runq_new (snd ?m))\<lparr>rz_ids := [''a''], rz_marked := [fst ?m]\<rparr>"
  let ?s3 = "(runq_new (snd demo_started))\<lparr>rz_ids := [''a''], rz_active := [fst demo_started]\<rparr>"
  have id: "qu_id demo_claimed_run = ''a''" "qu_id (fst ?m) = ''a''" by (simp_all add: demo_claimed_run_def mark_record_def)
  have st: "fst demo_started = fst ?m" "snd demo_started = mark_count redis_reference (snd ?m)"
    by (simp_all add: demo_started_def mark_running_def split_def)
  have 1: "?step ?s1 (Rq_mark ''a'') ?s2"
    using rq_mark [of demo_claimed_run ?s1 redis_reference demo_run_texts 1 "fst ?m" "snd ?m"] by (simp add: runq_new_def id(1))
  have 2: "?step ?s2 (Rq_start ''a'') ?s3"
    using rq_start [of "fst ?m" ?s2 redis_reference demo_run_texts] by (simp add: runq_new_def st id(2))
  have 3: "?step ?s3 (Rq_failure ''a'') ((runq_new (snd demo_failed_run))\<lparr>rz_ids := [''a'']\<rparr>)"
    using rq_failure [of "fst demo_started" ?s3 redis_reference demo_run_texts 1 INTERNAL_ERROR "''e''" None None "fst demo_failed_run"
        "snd demo_failed_run"]
    by (simp add: runq_new_def demo_failed_run_def st(1) id(2))
  have "runs ?step ?s1 [Rq_mark ''a'', Rq_start ''a'', Rq_failure ''a''] ((runq_new (snd demo_failed_run))\<lparr>rz_ids := [''a'']\<rparr>)"
    using 1 2 3 by (auto simp: runs_Cons_iff)
  from runs_append [THEN iffD2, OF exI, OF conjI, OF demo_runq_claimed this] show ?thesis by simp
qed

theorem run_counters_exact_witness:
  "\<exists>st. runq_stats redis_reference demo_run_texts 2 1 (snd demo_failed_run) = Inr st \<and> rs_all st = 1"
  using run_counters_exact [OF redis_reference_laws demo_server_empty demo_runq_run runs_nil runs_nil]
  by (auto simp: runq_stats_def runq_new_def)

theorem run_status_moves_forward_witness:
  "\<exists>v. runq_get redis_reference demo_run_texts ''a'' (snd demo_failed_run) = Inr (Some v)"
  using run_status_moves_forward [OF redis_reference_laws demo_server_empty demo_runq_run _ runs_nil, of "''a''"] by (auto simp: runq_new_def)

end
