(* ===== verification/Worker.thy ===== *)
theory Worker
  imports Run_Queue Engine Orchestration
begin

text \<open>
  The dedicated worker process (\<open>worker.py\<close>): it claims a run from the shared queue, runs it in the
  engine under the job timeout, or through the multi-call workflow for that preset, and writes the
  outcome back to the queue. The state is the engine, the Redis server of the queue, the events of
  the workflows and the run metrics of the process.

  \<open>ThreadPoolExecutor\<close> waits for its threads when its block is left, so a call that misses its
  timeout still runs to its end before the \<open>TimeoutError\<close> goes on; a call that never ends keeps the
  worker for ever, which is the result \<open>None\<close>.
\<close>

section \<open>Running under a timeout\<close>

text \<open>\<open>elapsed\<close> is the time the call takes, \<open>None\<close> when it never ends.\<close>

definition execute_with_timeout :: "real option \<Rightarrow> int \<Rightarrow> 'a py \<times> 's \<Rightarrow> ('a py \<times> 's) option" where
  "execute_with_timeout elapsed timeout_seconds out =
     (case elapsed of
        None \<Rightarrow> None
      | Some t \<Rightarrow>
          if timeout_seconds \<le> 0 then Some out
          else if t \<le> of_int timeout_seconds then Some out
          else Some (Inl (ExnTimeout []), snd out))"

section \<open>The worker's state\<close>

record ('w, 'r, 'c, 'f, 'q) worker_state =
  wk_engine :: "('w, 'r, 'c, 'f) engine_state"
  wk_queue :: 'q
  wk_events :: event_store
  wk_metrics :: run_metrics

text \<open>What the clock and the file system answer while one run is processed.\<close>

record run_times =
  ut_running :: real
  ut_start :: real
  ut_elapsed :: "real option"
  ut_created :: real
  ut_finished :: real
  ut_writable :: bool
  ut_persist :: real
  ut_complete :: real
  ut_failed :: real
  ut_complete_failure :: real

definition build_engine :: "(control_profile, 'c) codec \<Rightarrow> ('e, 'f) run_codec \<Rightarrow> settings \<Rightarrow> 'c disk_file \<Rightarrow> 'f disk_file
    \<Rightarrow> 'w \<Rightarrow> 'r \<Rightarrow> ('w, 'r, 'c, 'f) engine_state" where
  "build_engine P C S control_file store_file w r =
     \<lparr>en_world = (w, provider_metrics_init),
      en_budget = (budget_init (st_redis_url S) (st_session_budget_ttl_seconds S) (st_budget_fail_open_on_redis_error S), r),
      en_controls = control_store_init P True control_file,
      en_usage = Some (qubit_init (st_session_budget_ttl_seconds S)),
      en_store = (store_init C 512 True store_file, store_file)\<rparr>"

section \<open>Failures\<close>

text \<open>The \<open>except\<close> clauses of \<open>_process_job\<close>, in their order: code, message, hint and detail.\<close>

fun worker_failure :: "settings \<Rightarrow> py_exn \<Rightarrow> error_code \<times> string \<times> string option \<times> (string, json) dict option" where
  "worker_failure S (ExnTimeout m) =
     (TIMEOUT, ''Job exceeded timeout'', Some ''Reduce shot budget or wait for fewer concurrent jobs.'',
      Some [(''timeout_seconds'', JInt (st_job_timeout_seconds S))])"
| "worker_failure S (BudgetExceeded r) =
     (BUDGET_EXHAUSTED, exn_text (BudgetExceeded r),
      Some ''Lower the shot budget or wait for the session budget to reset.'', Some [(''remaining'', JInt r)])"
| "worker_failure S (ProviderClientError m c h d) = (c, m, h, Some d)"
| "worker_failure S (ExnValue m) = (INVALID_REQUEST, m, Some ''Verify the request payload and try again.'', None)"
| "worker_failure S ExnValidation =
     (INVALID_REQUEST, exn_text ExnValidation, Some ''Verify the request payload and try again.'', None)"
| "worker_failure S e =
     (INTERNAL_ERROR, exn_text e, Some ''Check worker logs for details and retry after remediation.'', None)"

definition or_time :: "real option \<Rightarrow> real \<Rightarrow> real" where
  "or_time t d = (case t of None \<Rightarrow> d | Some x \<Rightarrow> if x = 0 then d else x)"

definition handle_failure :: "'q redis_data \<Rightarrow> run_texts \<Rightarrow> run_times \<Rightarrow> queued_run
    \<Rightarrow> error_code \<times> string \<times> string option \<times> (string, json) dict option \<Rightarrow> 'q \<times> run_metrics
    \<Rightarrow> queued_run \<times> 'q \<times> run_metrics" where
  "handle_failure K T u job f s =
     (case f of
        (code, message, hint, detail) \<Rightarrow>
          (let job1 = job\<lparr>qu_finished_at := Some (ut_failed u)\<rparr>;
               latency = max 0 (ut_failed u - or_time (qu_started_at job1) (qu_created_at job1));
               m = run_record_failure (rq_hardware_target (qu_request job1)) (Some (error_code_value code)) (Some latency) (snd s);
               (job2, q) = complete_failure K T (ut_complete_failure u) job1 code message hint detail (fst s) in
           (job2, q, m)))"

section \<open>One run\<close>

text \<open>
  The call that may raise: the workflow for the multi-call preset, whose result is then added to the
  store, and the engine under the timeout otherwise.
\<close>

definition worker_call :: "('g, 'w) client_env \<Rightarrow> 'g engine_env \<Rightarrow> 'r redis_kv \<Rightarrow> lua_num \<Rightarrow> ('e, 'f) run_codec
    \<Rightarrow> settings \<Rightarrow> (string, provider_client) dict \<Rightarrow> call_ctx \<Rightarrow> workflow_env \<Rightarrow> run_times \<Rightarrow> queued_run
    \<Rightarrow> ('w, 'r, 'c, 'f) engine_state \<times> event_store
    \<Rightarrow> (run_response py \<times> ('w, 'r, 'c, 'f) engine_state \<times> event_store) option" where
  "worker_call E EE B L C S clients cx W u job s =
     (let req = qu_request job in
      if rq_preset req = MULTICALL_DUAL_CLOCKING then
        (case run_multicall_agent S W (qu_id job) req (ut_created u) (snd s) of
           None \<Rightarrow> None
         | Some (Inl e, ev) \<Rightarrow> Some (Inl e, fst s, ev)
         | Some (Inr run, ev) \<Rightarrow>
             Some (Inr run, (fst s)\<lparr>en_store := store_add C (ut_writable u) (ut_persist u) run (en_store (fst s))\<rparr>, ev))
      else
        map_option (\<lambda>(res, en). (res, en, snd s))
          (execute_with_timeout (ut_elapsed u) (st_job_timeout_seconds S)
             (run_experiment E EE B L C S clients cx req (qu_session_id job) None (fst s))))"

definition process_job :: "('g, 'w) client_env \<Rightarrow> 'g engine_env \<Rightarrow> 'r redis_kv \<Rightarrow> lua_num \<Rightarrow> ('e, 'f) run_codec
    \<Rightarrow> settings \<Rightarrow> (string, provider_client) dict \<Rightarrow> 'q redis_data \<Rightarrow> run_texts \<Rightarrow> call_ctx \<Rightarrow> workflow_env \<Rightarrow> run_times
    \<Rightarrow> queued_run \<Rightarrow> ('w, 'r, 'c, 'f, 'q) worker_state \<Rightarrow> (queued_run \<times> ('w, 'r, 'c, 'f, 'q) worker_state) option" where
  "process_job E EE B L C S clients K T cx W u job s =
     (let (job1, q1) = mark_running K T (ut_running u) job (wk_queue s);
          start_time = or_time (qu_started_at job1) (ut_start u);
          target = rq_hardware_target (qu_request job1) in
      case worker_call E EE B L C S clients cx W u job1 (wk_engine s, wk_events s) of
        None \<Rightarrow> None
      | Some (Inr run, en, ev) \<Rightarrow>
          (let job2 = job1\<lparr>qu_finished_at := Some (ut_finished u)\<rparr>;
               latency = max 0 (ut_finished u - start_time);
               m = run_record_success target (Some latency) (wk_metrics s);
               (job3, q2) = complete_success K T (ut_complete u) job2 run q1 in
           Some (job3, s\<lparr>wk_engine := en, wk_events := ev, wk_queue := q2, wk_metrics := m\<rparr>))
      | Some (Inl e, en, ev) \<Rightarrow>
          (let (job2, q2, m) = handle_failure K T u job1 (worker_failure S e) (q1, wk_metrics s) in
           Some (job2, s\<lparr>wk_engine := en, wk_events := ev, wk_queue := q2, wk_metrics := m\<rparr>)))"

text \<open>
  One turn of the loop of \<open>main\<close>: \<open>Inl\<close> when claiming raises, which ends the process, and nothing to
  do when there is no run.
\<close>

definition worker_turn :: "('g, 'w) client_env \<Rightarrow> 'g engine_env \<Rightarrow> 'r redis_kv \<Rightarrow> lua_num \<Rightarrow> ('e, 'f) run_codec
    \<Rightarrow> settings \<Rightarrow> (string, provider_client) dict \<Rightarrow> 'q redis_data \<Rightarrow> run_texts \<Rightarrow> call_ctx \<Rightarrow> workflow_env \<Rightarrow> run_times
    \<Rightarrow> real \<Rightarrow> ('w, 'r, 'c, 'f, 'q) worker_state \<Rightarrow> (unit py \<times> ('w, 'r, 'c, 'f, 'q) worker_state) option" where
  "worker_turn E EE B L C S clients K T cx W u now s =
     (case claim_next K T now (wk_queue s) of
        (Inl e, q) \<Rightarrow> Some (Inl e, s\<lparr>wk_queue := q\<rparr>)
      | (Inr None, q) \<Rightarrow> Some (Inr (), s\<lparr>wk_queue := q\<rparr>)
      | (Inr (Some job), q) \<Rightarrow>
          map_option (\<lambda>(job1, s1). (Inr (), s1))
            (process_job E EE B L C S clients K T cx W u job (s\<lparr>wk_queue := q\<rparr>)))"

text \<open>\<open>main\<close> before its loop: the Redis URL is required.\<close>

definition worker_start :: "settings \<Rightarrow> run_queue_kind py" where
  "worker_start S =
     (if truthy_str (st_redis_url S) then Inr (Redis_run_queue (or_str (st_redis_url S) []) (st_worker_pool_size S))
      else Inl (ExnRuntime ''Redis URL is required for the dedicated worker''))"

record exporter_config =
  xc_port :: int
  xc_bind_address :: string
  xc_collection_interval :: int
  xc_shared_registry :: bool

definition build_worker_metrics_exporter :: "settings \<Rightarrow> exporter_config option" where
  "build_worker_metrics_exporter S =
     (if \<not> st_enable_metrics S \<or> \<not> st_metrics_worker_endpoint_enabled S then None
      else Some \<lparr>xc_port = st_metrics_worker_port S, xc_bind_address = st_metrics_worker_bind_address S,
        xc_collection_interval = st_metrics_collection_interval_seconds S,
        xc_shared_registry = (st_metrics_use_shared_registry S \<or> st_metrics_worker_use_shared_registry S)\<rparr>)"

section \<open>Error codes\<close>

text \<open>
The dedicated worker and the in-process queue give a failed run the same error code, whatever
  was raised, except for a timeout: the worker reports \<open>timeout\<close>, the in-process queue files an
  exception of that class under \<open>internal_error\<close>.
\<close>

theorem worker_codes_agree:
  "fst (worker_failure S e) = fst (classify_exn e) \<longleftrightarrow> (\<forall>m. e \<noteq> ExnTimeout m)"
  by (cases e) simp_all

section \<open>The worker only takes steps of the queue\<close>

lemma complete_success_finished:
  "complete_success K T now (job\<lparr>qu_finished_at := x\<rparr>) run r = complete_success K T now job run r"
  by (simp add: complete_success_def)

lemma complete_failure_finished:
  "complete_failure K T now (job\<lparr>qu_finished_at := x\<rparr>) code msg hint det r = complete_failure K T now job code msg hint det r"
  by (simp add: complete_failure_def Let_def)

lemma handle_failure_queue:
  assumes "handle_failure K T u job f (q, m) = (job', q', m')"
  obtains code msg hint det where "f = (code, msg, hint, det)"
    and "complete_failure K T (ut_complete_failure u) job code msg hint det q = (job', q')"
  using assms
  by (cases f) (auto simp: handle_failure_def Let_def complete_failure_finished split: prod.splits)

text \<open>What \<open>process_job\<close> does to the queue: it starts the run and ends it once.\<close>

lemma process_job_queue:
  assumes "process_job E EE B L C S clients K T cx W u job s = Some (job', s')"
  obtains q1 res en ev where "mark_running K T (ut_running u) job (wk_queue s) = (job\<lparr>qu_started_at := Some (ut_running u)\<rparr>, q1)"
    and "worker_call E EE B L C S clients cx W u (job\<lparr>qu_started_at := Some (ut_running u)\<rparr>) (wk_engine s, wk_events s) = Some (res, en, ev)"
    and "wk_engine s' = en" and "wk_events s' = ev"
    and "case res of
      Inr run \<Rightarrow> complete_success K T (ut_complete u) (job\<lparr>qu_started_at := Some (ut_running u)\<rparr>) run q1 = (job', wk_queue s')
    | Inl e \<Rightarrow> (case worker_failure S e of (code, msg, hint, det) \<Rightarrow>
        complete_failure K T (ut_complete_failure u) (job\<lparr>qu_started_at := Some (ut_running u)\<rparr>) code msg hint det q1 = (job', wk_queue s'))"
proof -
  obtain q1 where q1: "mark_running K T (ut_running u) job (wk_queue s) = (job\<lparr>qu_started_at := Some (ut_running u)\<rparr>, q1)"
    by (simp add: mark_running_def mark_record_def)
  from assms obtain res en ev where
    w: "worker_call E EE B L C S clients cx W u (job\<lparr>qu_started_at := Some (ut_running u)\<rparr>) (wk_engine s, wk_events s) = Some (res, en, ev)"
    by (auto simp: process_job_def q1 Let_def split: option.splits)
  show ?thesis
  proof (cases res)
    case (Inl e)
    then show ?thesis
      using assms that [OF q1 w] by (auto simp: process_job_def q1 w Let_def split: prod.splits elim!: handle_failure_queue)
  next
    case (Inr run)
    then show ?thesis
      using assms that [OF q1 w] by (auto simp: process_job_def q1 w Let_def complete_success_finished split: prod.splits)
  qed
qed

text \<open>
  C25. A worker that processes a claimed run takes three steps of the shared queue, the two writes that
  start that run and the one that ends it, whatever the engine, the providers and the workflow do: it leaves every other run
  alone, and what holds over all interleavings of the queue's steps holds of the workers.
\<close>

theorem worker_takes_queue_steps:
  assumes "process_job E EE B L C S clients K T cx W u job s = Some (job', s')"
    and "job \<in> set (rz_claimed z)" and "rz_redis z = wk_queue s"
  shows "\<exists>e. e \<in> {Rq_success (qu_id job), Rq_failure (qu_id job)} \<and>
    runs (runq_step K T) z [Rq_mark (qu_id job), Rq_start (qu_id job), e]
      (z\<lparr>rz_redis := wk_queue s', rz_claimed := remove1 job (rz_claimed z)\<rparr>)"
proof -
  let ?job = "job\<lparr>qu_started_at := Some (ut_running u)\<rparr>"
  from process_job_queue [OF assms(1)] obtain q1 res where
    q1: "mark_running K T (ut_running u) job (wk_queue s) = (?job, q1)" and
    r: "case res of Inr run \<Rightarrow> complete_success K T (ut_complete u) ?job run q1 = (job', wk_queue s')
      | Inl e \<Rightarrow> (case worker_failure S e of (code, msg, hint, det) \<Rightarrow>
          complete_failure K T (ut_complete_failure u) ?job code msg hint det q1 = (job', wk_queue s'))" by metis
  let ?z1 = "z\<lparr>rz_redis := q1, rz_claimed := remove1 job (rz_claimed z), rz_active := ?job # rz_active z\<rparr>"
  let ?z2 = "z\<lparr>rz_redis := wk_queue s', rz_claimed := remove1 job (rz_claimed z)\<rparr>"
  have s1: "runs (runq_step K T) z [Rq_mark (qu_id job), Rq_start (qu_id job)] ?z1"
    by (rule mark_running_steps [where now = "ut_running u", OF assms(2)]) (simp add: q1 assms(3))
  have z2: "?z2 = ?z1\<lparr>rz_redis := wk_queue s', rz_active := remove1 ?job (rz_active ?z1)\<rparr>" by simp
  have "\<exists>e. e \<in> {Rq_success (qu_id ?job), Rq_failure (qu_id ?job)} \<and> runq_step K T ?z1 e ?z2"
  proof (cases res)
    case (Inl e)
    obtain code msg hint det where "worker_failure S e = (code, msg, hint, det)" by (rule prod_cases4)
    then have "complete_failure K T (ut_complete_failure u) ?job code msg hint det (rz_redis ?z1) = (job', wk_queue s')"
      using r Inl by simp
    then have "runq_step K T ?z1 (Rq_failure (qu_id ?job)) ?z2" unfolding z2 by (rule rq_failure [rotated]) simp
    then show ?thesis by blast
  next
    case (Inr run)
    then have "complete_success K T (ut_complete u) ?job run (rz_redis ?z1) = (job', wk_queue s')" using r by simp
    then have "runq_step K T ?z1 (Rq_success (qu_id ?job)) ?z2" unfolding z2 by (rule rq_success [rotated]) simp
    then show ?thesis by blast
  qed
  then obtain e where e: "e \<in> {Rq_success (qu_id job), Rq_failure (qu_id job)}" "runq_step K T ?z1 e ?z2" by auto
  have "runs (runq_step K T) ?z1 [e] ?z2" using e(2) by (simp add: runs_Cons_iff)
  from runs_append [THEN iffD2, OF exI, OF conjI, OF s1 this]
  have "runs (runq_step K T) z [Rq_mark (qu_id job), Rq_start (qu_id job), e] ?z2" by simp
  with e(1) show ?thesis by blast
qed

section \<open>The outcome is written back\<close>

text \<open>What looking up a run gives after a worker has ended it.\<close>

lemma success_read:
  assumes L: "redis_laws K V" and ok: "runq_ok V T z" and j: "job \<in> set (rz_active z)"
    and c: "complete_success K T now job run (rz_redis z) = (job', r)"
  obtains v where "runq_get K T (qu_id job) r = Inr (Some v)" "rx_status v = ''succeeded''"
proof -
  note v = success_views [OF L ok j c]
  have "qu_id job \<in> set (rz_ids z)" using ok j by (auto simp: runq_ok_def runq_fits_def)
  then show ?thesis
    using runq_get_submitted [OF L v(1), of "qu_id job" SUCCEEDED] v(2) that by (auto simp: run_status_value.simps)
qed

lemma failure_read:
  assumes L: "redis_laws K V" and ok: "runq_ok V T z" and j: "job \<in> set (rz_active z)"
    and c: "complete_failure K T now job code msg hint det (rz_redis z) = (job', r)"
  obtains v where "runq_get K T (qu_id job) r = Inr (Some v)" "rx_status v = ''failed''"
    and "rx_error_code v = Some (error_code_value code)" "rx_error_message v = Some msg"
proof -
  note v = failure_views [OF L ok j c]
  have "qu_id job \<in> set (rz_ids z)" using ok j by (auto simp: runq_ok_def runq_fits_def)
  then obtain v where g: "runq_get K T (qu_id job) r = Inr (Some v)" "rx_status v = run_status_value FAILED"
    using runq_get_submitted [OF L v(1), of "qu_id job" FAILED] v(2) by auto
  have "dict_get (rd_hgetall K (runq_job_key (qu_id job)) r) ''error_code'' = Some (error_code_value code)"
    "dict_get (rd_hgetall K (runq_job_key (qu_id job)) r) ''error_message'' = Some msg"
    using v(3) by (simp_all add: redis_hash_simps [OF L] failed_record_def)
  then show ?thesis using runq_get_fields [OF g(1)] g that by (simp add: run_status_value.simps)
qed

text \<open>
After a claimed run was processed, looking it up gives the outcome of the call: \<open>succeeded\<close>
  when it returned a run, and otherwise \<open>failed\<close> with the code and the message of the exception's
  clause.
\<close>

theorem worker_records_outcome:
  assumes "redis_laws K V" and "runq_ok V T z" and "job \<in> set (rz_claimed z)" and "rz_redis z = wk_queue s"
    and "process_job E EE B L C S clients K T cx W u job s = Some (job', s')"
  shows "\<exists>res v. worker_call E EE B L C S clients cx W u (job\<lparr>qu_started_at := Some (ut_running u)\<rparr>)
        (wk_engine s, wk_events s) = Some (res, wk_engine s', wk_events s') \<and>
    runq_get K T (qu_id job) (wk_queue s') = Inr (Some v) \<and>
    (case res of
       Inr run \<Rightarrow> rx_status v = ''succeeded''
     | Inl e \<Rightarrow> rx_status v = ''failed'' \<and> rx_error_code v = Some (error_code_value (fst (worker_failure S e))) \<and>
         rx_error_message v = Some (fst (snd (worker_failure S e))))"
proof -
  note L = assms(1)
  let ?job = "job\<lparr>qu_started_at := Some (ut_running u)\<rparr>"
  obtain q1 res en ev where
    q1: "mark_running K T (ut_running u) job (wk_queue s) = (?job, q1)" and
    w: "worker_call E EE B L C S clients cx W u ?job (wk_engine s, wk_events s) = Some (res, en, ev)" and
    en: "wk_engine s' = en" "wk_events s' = ev" and
    r: "case res of Inr run \<Rightarrow> complete_success K T (ut_complete u) ?job run q1 = (job', wk_queue s')
      | Inl e \<Rightarrow> (case worker_failure S e of (code, msg, hint, det) \<Rightarrow>
          complete_failure K T (ut_complete_failure u) ?job code msg hint det q1 = (job', wk_queue s'))"
    by (rule process_job_queue [OF assms(5)])
  let ?z1 = "z\<lparr>rz_redis := q1, rz_claimed := remove1 job (rz_claimed z), rz_active := ?job # rz_active z\<rparr>"
  have ok: "runq_ok V T ?z1" using start_views(1) [OF L assms(2,3), of "ut_running u" ?job q1] q1 assms(4) by simp
  have j: "?job \<in> set (rz_active ?z1)" by simp
  show ?thesis
  proof (cases res)
    case (Inr run)
    then have "complete_success K T (ut_complete u) ?job run (rz_redis ?z1) = (job', wk_queue s')" using r by simp
    from success_read [OF L ok j this] show ?thesis using w en Inr by force
  next
    case (Inl e)
    obtain code msg hint det where f: "worker_failure S e = (code, msg, hint, det)" by (rule prod_cases4)
    then have "complete_failure K T (ut_complete_failure u) ?job code msg hint det (rz_redis ?z1) = (job', wk_queue s')"
      using r Inl by simp
    from failure_read [OF L ok j this] show ?thesis using w en Inl f by force
  qed
qed

section \<open>A timeout does not stop the run\<close>

text \<open>
  C27. A run that misses the job timeout is not stopped: the worker waits for its end, the engine has
  done all the run does (the shots are spent, the experiment is stored), and then the run is filed
  as a timeout and counted so. A run that never ends keeps the worker for ever.
\<close>

theorem timed_out_run_was_executed:
  assumes "rq_preset (qu_request job) \<noteq> MULTICALL_DUAL_CLOCKING" and "0 < st_job_timeout_seconds S"
  shows "(ut_elapsed u = None \<longrightarrow> process_job E EE B L C S clients K T cx W u job s = None) \<and>
    (\<forall>t. ut_elapsed u = Some t \<longrightarrow> of_int (st_job_timeout_seconds S) < t \<longrightarrow>
      (\<exists>job' s'. process_job E EE B L C S clients K T cx W u job s = Some (job', s') \<and>
        wk_engine s' = snd (run_experiment E EE B L C S clients cx (qu_request job) (qu_session_id job) None (wk_engine s)) \<and>
        rm_failures (wk_metrics s') = bump ''TIMEOUT'' (rm_failures (wk_metrics s))))"
proof (intro conjI allI impI)
  let ?job = "job\<lparr>qu_started_at := Some (ut_running u)\<rparr>"
  obtain q1 where q1: "mark_running K T (ut_running u) job (wk_queue s) = (?job, q1)"
    by (simp add: mark_running_def mark_record_def)
  show "process_job E EE B L C S clients K T cx W u job s = None" if "ut_elapsed u = None"
    using that assms(1) by (simp add: process_job_def q1 Let_def worker_call_def execute_with_timeout_def)
  fix t
  assume t: "ut_elapsed u = Some t" "of_int (st_job_timeout_seconds S) < t"
  let ?en = "snd (run_experiment E EE B L C S clients cx (qu_request job) (qu_session_id job) None (wk_engine s))"
  have w: "worker_call E EE B L C S clients cx W u ?job (wk_engine s, wk_events s) = Some (Inl (ExnTimeout []), ?en, wk_events s)"
    using t assms by (simp add: worker_call_def Let_def execute_with_timeout_def)
  obtain job2 q2 m where h: "handle_failure K T u ?job (worker_failure S (ExnTimeout [])) (q1, wk_metrics s) = (job2, q2, m)"
    by (rule prod_cases3)
  then have "rm_failures m = bump ''TIMEOUT'' (rm_failures (wk_metrics s))"
    by (auto simp: handle_failure_def Let_def run_record_failure_def or_str_def split: prod.splits)
  then show "\<exists>job' s'. process_job E EE B L C S clients K T cx W u job s = Some (job', s') \<and> wk_engine s' = ?en \<and>
      rm_failures (wk_metrics s') = bump ''TIMEOUT'' (rm_failures (wk_metrics s))"
    using w h by (simp add: process_job_def q1 Let_def)
qed

section \<open>A run\<close>

definition demo_run_times :: "real \<Rightarrow> run_times" where
  "demo_run_times t = \<lparr>ut_running = 1, ut_start = 1, ut_elapsed = Some t, ut_created = 1, ut_finished = 1 + t, ut_writable = True,
     ut_persist = 1, ut_complete = 1 + t, ut_failed = 1 + t, ut_complete_failure = 1 + t\<rparr>"

definition demo_workflow :: workflow_env where
  "demo_workflow = \<lparr>wv_start = 0, wv_clock = (\<lambda>n. 0), wv_stamp = (\<lambda>n. 0), wv_uuid = (\<lambda>n. ''u'')\<rparr>"

definition demo_worker_state :: "(int, kv_state, string, run_response list, redis_db) worker_state" where
  "demo_worker_state = \<lparr>wk_engine = demo_state, wk_queue = snd demo_claimed, wk_events = [], wk_metrics = run_metrics_init\<rparr>"

abbreviation demo_process :: "(queued_run \<times> (int, kv_state, string, run_response list, redis_db) worker_state) option" where
  "demo_process \<equiv> process_job demo_env demo_engine kv_reference lua_plain plain_codec default_settings (load_provider_clients [])
     redis_reference demo_run_texts demo_ctx demo_workflow (demo_run_times 91) demo_claimed_run demo_worker_state"

abbreviation demo_queue_state :: "redis_db runq_sys" where
  "demo_queue_state \<equiv> (runq_new (snd demo_claimed))\<lparr>rz_ids := [''a''], rz_claimed := [demo_claimed_run]\<rparr>"

lemma demo_worker_facts:
  "rq_preset (qu_request demo_claimed_run) \<noteq> MULTICALL_DUAL_CLOCKING" "qu_id demo_claimed_run = ''a''"
  "st_job_timeout_seconds default_settings = 90" "ut_elapsed (demo_run_times 91) = Some 91"
  "demo_claimed_run \<in> set (rz_claimed demo_queue_state)" "rz_redis demo_queue_state = wk_queue demo_worker_state"
  by (simp_all add: demo_claimed_run_def demo_run_request_def default_settings_def demo_run_times_def demo_worker_state_def runq_new_def)

lemma demo_queue_ok: "runq_ok db_contents demo_run_texts demo_queue_state"
  using runq.runs_ok [OF demo_runq_claimed] redis_reference_laws runq_new_ok [where V = db_contents and r = demo_server, OF demo_server_empty]
  by blast

lemma process_job_returns:
  assumes "rq_preset (qu_request job) \<noteq> MULTICALL_DUAL_CLOCKING" and "ut_elapsed u \<noteq> None"
  shows "process_job E EE B L C S clients K T cx W u job s \<noteq> None"
  using assms
  by (auto simp: process_job_def mark_running_def mark_record_def Let_def worker_call_def execute_with_timeout_def split: prod.splits sum.splits)

theorem worker_takes_queue_steps_witness:
  "\<exists>job' s' e. demo_process = Some (job', s') \<and>
     runs (runq_step redis_reference demo_run_texts) demo_queue_state [Rq_mark ''a'', Rq_start ''a'', e]
       (demo_queue_state\<lparr>rz_redis := wk_queue s', rz_claimed := []\<rparr>)"
proof -
  obtain job' s' where p: "demo_process = Some (job', s')"
    using process_job_returns demo_worker_facts(1,4) by (metis option.distinct(1) option.exhaust surj_pair)
  show ?thesis using worker_takes_queue_steps [OF p demo_worker_facts(5,6)] p by (auto simp: demo_worker_facts(2))
qed

theorem worker_records_outcome_witness:
  "\<exists>job' s' v. demo_process = Some (job', s') \<and> runq_get redis_reference demo_run_texts ''a'' (wk_queue s') = Inr (Some v)"
proof -
  obtain job' s' where p: "demo_process = Some (job', s')"
    using process_job_returns demo_worker_facts(1,4) by (metis option.distinct(1) option.exhaust surj_pair)
  show ?thesis
    using worker_records_outcome [OF redis_reference_laws demo_queue_ok demo_worker_facts(5,6) p] p by (auto simp: demo_worker_facts(2))
qed

theorem timed_out_run_was_executed_witness:
  "\<exists>job' s'. demo_process = Some (job', s') \<and> rm_failures (wk_metrics s') = [(''TIMEOUT'', 1)]"
  using timed_out_run_was_executed [OF demo_worker_facts(1), where S = default_settings and u = "demo_run_times 91" and s = demo_worker_state
      and E = demo_env and EE = demo_engine and B = kv_reference and L = lua_plain and C = plain_codec and clients = "load_provider_clients []"
      and K = redis_reference and T = demo_run_texts and cx = demo_ctx and W = demo_workflow]
  by (auto simp: demo_worker_facts(3,4)) (simp add: demo_worker_state_def run_metrics_init_def bump_def dict_get_or_def)

end
