(* ===== verification/Api.thy ===== *)
theory Api
  imports Worker Auth_Service
begin

text \<open>
  The HTTP API (\<open>api.py\<close>): the API key check and the session of a request, the sliding window of the
  agent chat, the guards of a submission and the routes over the queue, the stores and the trackers.
  A route's answer is a value or the exception that FastAPI turns into its status; what the
  framework, the OpenAI endpoint and the garbage collector answer are parameters.
\<close>

section \<open>API keys and sessions\<close>

text \<open>\<open>secrets.compare_digest\<close> refuses texts outside ASCII.\<close>

definition compare_digest :: "string \<Rightarrow> string \<Rightarrow> bool py" where
  "compare_digest a b =
     (if \<exists>c \<in> set (a @ b). 128 \<le> (of_char c :: nat)
      then Inl (ExnOther ''TypeError'' ''comparing strings with non-ASCII characters is not supported'')
      else Inr (a = b))"

definition extract_bearer_token :: "string \<Rightarrow> string option" where
  "extract_bearer_token authorization =
     (if authorization = [] then None
      else (let parts = py_split1 CHR '' '' authorization;
                scheme = hd parts; token = (case tl parts of [] \<Rightarrow> [] | t # _ \<Rightarrow> t) in
            if py_lower scheme \<noteq> ''bearer'' then None
            else if py_strip token = [] then None else Some (py_strip token)))"

definition unauthorized :: "unit py" where
  "unauthorized = Inl (HTTPExn 401 (error_code_value AUTH_REQUIRED))"

definition require_api_key :: "settings \<Rightarrow> string option \<Rightarrow> string option \<Rightarrow> unit py" where
  "require_api_key S x_api_key authorization =
     (let expected = st_api_key S in
      if \<not> st_require_api_key S \<and> \<not> st_auth_required S then Inr ()
      else if st_auth_required S \<and> \<not> truthy_str expected then unauthorized
      else if \<not> truthy_str expected then Inr ()
      else py_bind (if truthy_str x_api_key then compare_digest (or_str x_api_key []) (or_str expected []) else Inr False) (\<lambda>same.
        if same then Inr ()
        else (case extract_bearer_token (or_str authorization []) of
            None \<Rightarrow> unauthorized
          | Some token \<Rightarrow>
              py_bind (compare_digest token (or_str expected [])) (\<lambda>ok. if ok then Inr () else unauthorized))))"

definition get_session_id :: "settings \<Rightarrow> string option \<Rightarrow> string option \<Rightarrow> string option \<Rightarrow> string" where
  "get_session_id S x_session_id authorization x_api_key =
     (if truthy_str x_session_id then or_str x_session_id []
      else (let key = (if truthy_str x_api_key then py_strip (or_str x_api_key []) else []);
                token = (if key = [] then extract_bearer_token (or_str authorization []) else Some key) in
            case token of
              Some t \<Rightarrow> ''api_key:'' @ t
            | None \<Rightarrow> if truthy_str (st_api_key S) then ''api_key:default'' else ''local-session''))"

definition cors_origins :: "settings \<Rightarrow> string list" where
  "cors_origins S = (if st_env S = Dev then [''*''] else allowed_origins S)"

section \<open>The window of the agent chat\<close>

type_synonym chat_windows = "(string, real list) dict"

definition trim_window :: "settings \<Rightarrow> real \<Rightarrow> real list \<Rightarrow> real list" where
  "trim_window S now w = dropWhile (\<lambda>t. t < now - of_int (st_agent_chat_limit_window_seconds S)) w"

definition chat_retry_after :: "settings \<Rightarrow> real \<Rightarrow> real list \<Rightarrow> int" where
  "chat_retry_after S now w = max 1 (py_int (hd w + of_int (st_agent_chat_limit_window_seconds S) - now))"

definition enforce_chat_rate_limit :: "settings \<Rightarrow> real \<Rightarrow> string \<Rightarrow> chat_windows \<Rightarrow> unit py \<times> chat_windows" where
  "enforce_chat_rate_limit S now session_id windows =
     (let w = trim_window S now (dict_get_or [] windows session_id) in
      if int (length w) \<ge> st_agent_chat_limit_requests S
      then (Inl (HTTPExn 429 (''Wait '' @ py_str_int (chat_retry_after S now w) @ '' seconds before retrying.'')),
            dict_set session_id w windows)
      else (Inr (), dict_set session_id (w @ [now]) windows))"

text \<open>A sequence of requests, each with its time and session: the answers and the accepted ones.\<close>

fun chat_requests :: "settings \<Rightarrow> (real \<times> string) list \<Rightarrow> chat_windows \<Rightarrow> (real \<times> string) list \<times> chat_windows" where
  "chat_requests S [] windows = ([], windows)"
| "chat_requests S ((now, sid) # qs) windows =
     (case enforce_chat_rate_limit S now sid windows of
        (Inl e, w1) \<Rightarrow> chat_requests S qs w1
      | (Inr _, w1) \<Rightarrow> (case chat_requests S qs w1 of (acc, w2) \<Rightarrow> ((now, sid) # acc, w2)))"

definition chats_since :: "string \<Rightarrow> real \<Rightarrow> (real \<times> string) list \<Rightarrow> int" where
  "chats_since sid c P = int (length (filter (\<lambda>(u, s). s = sid \<and> c \<le> u) P))"

definition chats_in :: "string \<Rightarrow> real \<Rightarrow> real \<Rightarrow> (real \<times> string) list \<Rightarrow> int" where
  "chats_in sid a b P = int (length (filter (\<lambda>(u, s). s = sid \<and> a \<le> u \<and> u \<le> b) P))"

definition chat_ok :: "settings \<Rightarrow> real \<Rightarrow> (real \<times> string) list \<Rightarrow> chat_windows \<Rightarrow> bool" where
  "chat_ok S now P windows =
     ((\<forall>(u, s)\<in>set P. u \<le> now) \<and>
      (\<forall>sid t. chats_in sid t (t + of_int (st_agent_chat_limit_window_seconds S)) P \<le> st_agent_chat_limit_requests S) \<and>
      (\<forall>sid. sorted (dict_get_or [] windows sid) \<and> (\<forall>u\<in>set (dict_get_or [] windows sid). u \<le> now)) \<and>
      (\<forall>sid c. now - of_int (st_agent_chat_limit_window_seconds S) \<le> c \<longrightarrow>
         chats_since sid c P = int (length (filter (\<lambda>u. c \<le> u) (dict_get_or [] windows sid)))))"

lemma chat_ok_later: "chat_ok S t P w \<Longrightarrow> t \<le> now \<Longrightarrow> chat_ok S now P w"
  unfolding chat_ok_def by (fastforce split: prod.splits)

lemma sorted_dropWhile_filter: "sorted w \<Longrightarrow> dropWhile (\<lambda>t. t < (c :: real)) w = filter (\<lambda>t. c \<le> t) w"
proof (induction w)
  case (Cons a w)
  show ?case
  proof (cases "a < c")
    case False
    then have "\<forall>t\<in>set (a # w). c \<le> t" using Cons.prems by auto
    then have "filter (\<lambda>t. c \<le> t) (a # w) = a # w" by (simp only: filter_id_conv)
    then show ?thesis using False by simp
  qed (use Cons in simp)
qed simp

lemma trimmed_length:
  assumes "chat_ok S now P w"
  shows "int (length (trim_window S now (dict_get_or [] w sid))) =
    chats_since sid (now - of_int (st_agent_chat_limit_window_seconds S)) P"
proof -
  have "sorted (dict_get_or [] w sid)" using assms by (simp add: chat_ok_def)
  then show ?thesis using assms by (simp add: trim_window_def sorted_dropWhile_filter chat_ok_def)
qed

lemma chat_accepts:
  assumes "chat_ok S now P w"
  shows "fst (enforce_chat_rate_limit S now sid w) = Inr () \<longleftrightarrow>
    chats_since sid (now - of_int (st_agent_chat_limit_window_seconds S)) P < st_agent_chat_limit_requests S"
  using trimmed_length [OF assms] by (simp add: enforce_chat_rate_limit_def Let_def)

lemma length_filter_mono: "(\<And>x. x \<in> set xs \<Longrightarrow> P x \<Longrightarrow> Q x) \<Longrightarrow> length (filter P xs) \<le> length (filter Q xs)"
  by (induction xs) auto

lemma filter_filter_ge: "(c :: real) \<le> d \<Longrightarrow> filter (\<lambda>u. c \<le> u \<and> d \<le> u) w = filter (\<lambda>u. d \<le> u) w"
  by (induction w) auto

lemma get_or_set: "dict_get_or d (dict_set k v m) x = (if x = k then v else dict_get_or d m x)"
  by (simp add: dict_get_or_def get_set)

lemma chat_ok_refused:
  assumes ok: "chat_ok S now P w" and "fst (enforce_chat_rate_limit S now sid w) \<noteq> Inr ()"
  shows "chat_ok S now P (snd (enforce_chat_rate_limit S now sid w))"
proof -
  let ?c = "now - of_int (st_agent_chat_limit_window_seconds S)"
  have s: "sorted (dict_get_or [] w sid)" using ok by (simp add: chat_ok_def)
  have "snd (enforce_chat_rate_limit S now sid w) = dict_set sid (filter (\<lambda>u. ?c \<le> u) (dict_get_or [] w sid)) w"
    using assms(2) sorted_dropWhile_filter [OF s] by (simp add: enforce_chat_rate_limit_def trim_window_def Let_def split: if_splits)
  then show ?thesis
    using ok s by (auto simp: chat_ok_def get_or_set filter_filter_ge sorted_wrt_filter split: prod.splits)
qed

lemma chat_ok_accepted:
  assumes ok: "chat_ok S now P w" and a: "fst (enforce_chat_rate_limit S now sid w) = Inr ()"
    and W: "0 \<le> st_agent_chat_limit_window_seconds S"
  shows "chat_ok S now (P @ [(now, sid)]) (snd (enforce_chat_rate_limit S now sid w))"
proof -
  let ?W = "of_int (st_agent_chat_limit_window_seconds S) :: real"
  let ?c = "now - ?W" and ?w = "\<lambda>s. dict_get_or [] w s"
  have s: "sorted (?w sid)" and le: "\<And>u s. u \<in> set (?w s) \<Longrightarrow> u \<le> now" using ok by (auto simp: chat_ok_def)
  have w': "snd (enforce_chat_rate_limit S now sid w) = dict_set sid (filter (\<lambda>u. ?c \<le> u) (?w sid) @ [now]) w"
    using a sorted_dropWhile_filter [OF s] by (simp add: enforce_chat_rate_limit_def trim_window_def Let_def split: if_splits)
  have room: "chats_since sid ?c P < st_agent_chat_limit_requests S" using a chat_accepts [OF ok] by simp
  have "chats_in s t (t + ?W) (P @ [(now, sid)]) \<le> st_agent_chat_limit_requests S" for s t
  proof (cases "s = sid \<and> t \<le> now \<and> now \<le> t + ?W")
    case True
    then have "chats_in sid t (t + ?W) P \<le> chats_since sid ?c P"
      unfolding chats_in_def chats_since_def of_nat_le_iff by (intro length_filter_mono) auto
    then show ?thesis using True room by (simp add: chats_in_def)
  next
    case False
    then show ?thesis using ok by (auto simp: chat_ok_def chats_in_def)
  qed
  moreover have "sorted (filter (\<lambda>u. ?c \<le> u) (?w sid) @ [now])"
    using s le by (auto simp: sorted_append sorted_wrt_filter)
  moreover have "chats_since s c (P @ [(now, sid)]) =
      int (length (filter (\<lambda>u. c \<le> u) (dict_get_or [] (dict_set sid (filter (\<lambda>u. ?c \<le> u) (?w sid) @ [now]) w) s)))"
    if "?c \<le> c" for s c
    using ok that by (auto simp: chat_ok_def chats_since_def get_or_set filter_filter_ge)
  moreover have "\<forall>(u, s)\<in>set (P @ [(now, sid)]). u \<le> now" using ok by (auto simp: chat_ok_def)
  ultimately show ?thesis
    using ok le unfolding w' chat_ok_def by (auto simp: get_or_set split: prod.splits)
qed

lemma chat_requests_ok:
  "chat_ok S t P w \<Longrightarrow> 0 \<le> st_agent_chat_limit_window_seconds S \<Longrightarrow> sorted (t # map fst qs) \<Longrightarrow>
    chat_requests S qs w = (acc, w') \<Longrightarrow> \<forall>u\<in>set (t # map fst qs). u \<le> t' \<Longrightarrow> chat_ok S t' (P @ acc) w'"
proof (induction qs arbitrary: t P w acc)
  case Nil
  then show ?case by (auto intro: chat_ok_later)
next
  case (Cons q qs)
  obtain now sid where q: "q = (now, sid)" by force
  have ok: "chat_ok S now P w" using Cons.prems(1,3) by (auto simp: q intro: chat_ok_later)
  have s: "sorted (now # map fst qs)" "\<forall>u\<in>set (now # map fst qs). u \<le> t'" using Cons.prems(3,5) by (auto simp: q)
  obtain a w1 where e: "enforce_chat_rate_limit S now sid w = (a, w1)" by fastforce
  show ?case
  proof (cases a)
    case (Inl e')
    then have "chat_ok S now P w1" using chat_ok_refused [OF ok, of sid] e by simp
    moreover have "chat_requests S qs w1 = (acc, w')" using Cons.prems(4) e Inl by (simp add: q)
    ultimately show ?thesis using Cons.IH Cons.prems(2) s by blast
  next
    case (Inr v)
    then have "chat_ok S now (P @ [(now, sid)]) w1" using chat_ok_accepted [OF ok, of sid] Cons.prems(2) e by simp
    moreover obtain acc' where "chat_requests S qs w1 = (acc', w')" "acc = (now, sid) # acc'"
      using Cons.prems(4) e Inr by (auto simp: q split: prod.splits)
    ultimately show ?thesis using Cons.IH [of now "P @ [(now, sid)]" w1 acc'] Cons.prems(2) s by simp
  qed
qed

text \<open>
  C31. The chat limit is a sliding window: however the requests of the sessions arrive over time, no
  stretch of the window's length holds more accepted requests of one session than the limit, and a
  request is accepted exactly when fewer than the limit were accepted in the window before it.
\<close>

theorem chat_limit_exact:
  assumes "settings_valid S" and "sorted (map fst qs)" and "\<forall>u\<in>set (map fst qs). u \<le> now"
    and "chat_requests S qs [] = (acc, windows)"
  defines "W \<equiv> of_int (st_agent_chat_limit_window_seconds S)"
  shows "(\<forall>sid t. chats_in sid t (t + W) acc \<le> st_agent_chat_limit_requests S) \<and>
    (\<forall>sid. fst (enforce_chat_rate_limit S now sid windows) = Inr () \<longleftrightarrow>
       chats_since sid (now - W) acc < st_agent_chat_limit_requests S)"
proof -
  let ?t = "case qs of [] \<Rightarrow> now | (u, s) # _ \<Rightarrow> u"
  have v: "0 \<le> st_agent_chat_limit_window_seconds S" "1 \<le> st_agent_chat_limit_requests S"
    using assms(1) by (simp_all add: settings_valid_def)
  have "chat_ok S ?t [] []"
    using v by (simp add: chat_ok_def chats_in_def chats_since_def dict_get_or_def)
  moreover have "sorted (?t # map fst qs)" "\<forall>u\<in>set (?t # map fst qs). u \<le> now"
    using assms(2,3) by (cases qs; fastforce)+
  ultimately have ok: "chat_ok S now acc windows" using chat_requests_ok [OF _ v(1) _ assms(4)] by force
  then have "\<forall>sid t. chats_in sid t (t + W) acc \<le> st_agent_chat_limit_requests S" by (simp add: chat_ok_def W_def)
  then show ?thesis using chat_accepts [OF ok] by (simp add: W_def)
qed

text \<open>
  The wait that a refusal advertises is too short whenever at least a second is left: the fraction is
  cut off, and a request exactly at the end of the window is refused as well.
\<close>

lemma advertised_wait_too_short:
  assumes "trim_window S now (dict_get_or [] windows sid) = u # w" and "st_agent_chat_limit_requests S \<le> int (length (u # w))"
    and "now + 1 \<le> u + of_int (st_agent_chat_limit_window_seconds S)" and "enforce_chat_rate_limit S now sid windows = (a, windows')"
  shows "fst (enforce_chat_rate_limit S (now + of_int (chat_retry_after S now (u # w))) sid windows') \<noteq> Inr ()"
proof -
  let ?r = "u + of_int (st_agent_chat_limit_window_seconds S) - now"
  have "1 \<le> \<lfloor>?r\<rfloor>" using assms(3) by (simp add: le_floor_iff)
  then have "chat_retry_after S now (u # w) = \<lfloor>?r\<rfloor>" using assms(3) by (simp add: chat_retry_after_def py_int_def)
  then have r: "of_int (chat_retry_after S now (u # w)) \<le> ?r" using of_int_floor_le [of ?r] by simp
  have "windows' = dict_set sid (u # w) windows"
    using assms(1,2,4) by (auto simp: enforce_chat_rate_limit_def Let_def)
  moreover have "trim_window S (now + of_int (chat_retry_after S now (u # w))) (u # w) = u # w"
    using r by (simp add: trim_window_def)
  ultimately show ?thesis using assms(2) by (simp add: enforce_chat_rate_limit_def get_or_set Let_def)
qed

theorem chat_limit_exact_witness:
  "fst (enforce_chat_rate_limit (default_settings\<lparr>st_agent_chat_limit_requests := 1\<rparr>) 7 ''s''
     (snd (chat_requests (default_settings\<lparr>st_agent_chat_limit_requests := 1\<rparr>) [(5, ''s'')] []))) \<noteq> Inr ()"
proof -
  let ?S = "default_settings\<lparr>st_agent_chat_limit_requests := 1\<rparr>"
  have v: "settings_valid ?S" using default_settings_valid by (simp add: settings_valid_def)
  have r: "fst (chat_requests ?S [(5, ''s'')] []) = [(5, ''s'')]"
    by (simp add: enforce_chat_rate_limit_def trim_window_def dict_get_or_def)
  have c: "chat_requests ?S [(5, ''s'')] [] = ([(5, ''s'')], snd (chat_requests ?S [(5, ''s'')] []))"
    using r by (metis prod.collapse)
  have "st_agent_chat_limit_window_seconds ?S = 60" "st_agent_chat_limit_requests ?S = 1" by (simp_all add: default_settings_def)
  then show ?thesis
    using chat_limit_exact [OF v _ _ c, of 7] by (auto simp: chats_since_def simp del: chat_requests.simps)
qed

section \<open>The queue behind the API\<close>

datatype ('r, 'f) api_queue = Shared_queue 'r run_metrics | Embedded_queue "'f job_queue"

definition api_enqueue :: "'r redis_data \<Rightarrow> run_texts \<Rightarrow> string \<Rightarrow> real \<Rightarrow> run_experiment_request \<Rightarrow> string
    \<Rightarrow> ('r, 'f) api_queue \<Rightarrow> (string \<times> real) py \<times> ('r, 'f) api_queue" where
  "api_enqueue K T new_id now req session_id q =
     (case q of
        Shared_queue r m \<Rightarrow> (case runq_enqueue K T new_id now req session_id (r, m) of (ans, r1, m1) \<Rightarrow> (Inr ans, Shared_queue r1 m1))
      | Embedded_queue j \<Rightarrow> (case embedded_enqueue new_id now req session_id j of (ans, j1) \<Rightarrow> (ans, Embedded_queue j1)))"

definition api_queue_get :: "'r redis_data \<Rightarrow> run_texts \<Rightarrow> string \<Rightarrow> ('r, 'f) api_queue \<Rightarrow> run_view option py" where
  "api_queue_get K T run_id q =
     (case q of Shared_queue r m \<Rightarrow> runq_get K T run_id r | Embedded_queue j \<Rightarrow> Inr (embedded_get run_id j))"

section \<open>Submitting a run\<close>

text \<open>
  \<open>flags\<close> are the \<open>allow_remote_hardware\<close> values of the other settings objects: the singleton of the
  settings module and whatever the garbage collector still tracks.
\<close>

definition remote_disabled :: "'a py" where
  "remote_disabled = Inl (HTTPExn 403 (error_code_value REMOTE_DISABLED))"

definition submission :: "string \<Rightarrow> real \<Rightarrow> run_submission_response" where
  "submission i created =
     \<lparr>rs_id = i, rs_status = QUEUED, rs_created_at = created, rs_started_at = None, rs_finished_at = None, rs_error = None,
      rs_error_code = None, rs_error_message = None, rs_error_detail = None, rs_action_hint = None\<rparr>"

definition submission_guard :: "('g, 'w) client_env \<Rightarrow> settings \<Rightarrow> (string, provider_client) dict \<Rightarrow> bool list
    \<Rightarrow> run_experiment_request \<Rightarrow> unit py" where
  "submission_guard E S clients flags req =
     (let target_id = rq_hardware_target req; allow_remote = list_all (\<lambda>f. f) (st_allow_remote_hardware S # flags) in
      if \<not> st_allow_remote_hardware S \<and> target_id \<noteq> ''sim_local'' then remote_disabled
      else if \<not> allow_remote \<and> target_id \<noteq> ''sim_local'' then remote_disabled
      else (case dict_get (list_targets S clients) target_id of
          None \<Rightarrow> Inl (HTTPExn 400 (error_code_value INVALID_TARGET))
        | Some target \<Rightarrow>
            py_bind (validate_credentials E S clients target_id) (\<lambda>credentials_ok.
              if pt_kind target \<noteq> ''sim'' then
                (if \<not> allow_remote then remote_disabled
                 else if \<not> (credentials_ok \<or> st_allow_provider_simulation S)
                 then Inl (HTTPExn 403 (error_code_value PROVIDER_SIM_DISABLED)) else Inr ())
              else Inr ())))"

definition enqueue_run :: "('g, 'w) client_env \<Rightarrow> settings \<Rightarrow> (string, provider_client) dict \<Rightarrow> bool list
    \<Rightarrow> 'r redis_data \<Rightarrow> run_texts \<Rightarrow> string \<Rightarrow> real \<Rightarrow> run_experiment_request \<Rightarrow> string \<Rightarrow> ('r, 'f) api_queue
    \<Rightarrow> run_submission_response py \<times> ('r, 'f) api_queue" where
  "enqueue_run E S clients flags K T new_id now req session_id q =
     (case submission_guard E S clients flags req of
        Inl e \<Rightarrow> (Inl e, q)
      | Inr _ \<Rightarrow>
          (case api_enqueue K T new_id now req session_id q of
             (Inl e, q1) \<Rightarrow> (Inl e, q1)
           | (Inr (i, created), q1) \<Rightarrow> (Inr (submission i created), q1)))"

record api_headers =
  hd_api_key :: "string option"
  hd_authorization :: "string option"
  hd_session :: "string option"

definition submit_run :: "('g, 'w) client_env \<Rightarrow> settings \<Rightarrow> (string, provider_client) dict \<Rightarrow> bool list
    \<Rightarrow> 'r redis_data \<Rightarrow> run_texts \<Rightarrow> string \<Rightarrow> real \<Rightarrow> api_headers \<Rightarrow> run_experiment_request \<Rightarrow> ('r, 'f) api_queue
    \<Rightarrow> run_submission_response py \<times> ('r, 'f) api_queue" where
  "submit_run E S clients flags K T new_id now h req q =
     (case require_api_key S (hd_api_key h) (hd_authorization h) of
        Inl e \<Rightarrow> (Inl e, q)
      | Inr _ \<Rightarrow> enqueue_run E S clients flags K T new_id now req
          (get_session_id S (hd_session h) (hd_authorization h) (hd_api_key h)) q)"

text \<open>The deprecated route also asks for the scope, after the API key; the principal is looked up in the auth store.\<close>

definition run_experiment_route :: "digests \<Rightarrow> clock \<Rightarrow> auth_request \<Rightarrow> ('g, 'w) client_env \<Rightarrow> settings
    \<Rightarrow> (string, provider_client) dict \<Rightarrow> bool list \<Rightarrow> 'r redis_data \<Rightarrow> run_texts \<Rightarrow> string \<Rightarrow> real \<Rightarrow> api_headers
    \<Rightarrow> run_experiment_request \<Rightarrow> auth_store \<times> ('r, 'f) api_queue
    \<Rightarrow> run_submission_response py \<times> auth_store \<times> ('r, 'f) api_queue" where
  "run_experiment_route D k aq E S clients flags K T new_id now h req s =
     (case require_api_key S (hd_api_key h) (hd_authorization h) of
        Inl e \<Rightarrow> (Inl e, s)
      | Inr _ \<Rightarrow>
          (case get_principal D S k aq (fst s) of
             (Inl e, a) \<Rightarrow> (Inl e, a, snd s)
           | (Inr p, a) \<Rightarrow>
               (case require_scopes [''experiments:run''] S p of
                  Inl e \<Rightarrow> (Inl e, a, snd s)
                | Inr _ \<Rightarrow>
                    (case enqueue_run E S clients flags K T new_id now req
                        (get_session_id S (hd_session h) (hd_authorization h) (hd_api_key h)) (snd s) of
                       (ans, q) \<Rightarrow> (ans, a, q)))))"

section \<open>Reading runs and experiments\<close>

definition parse_job_status :: "string \<Rightarrow> run_job_status option" where
  "parse_job_status t = find (\<lambda>s. run_status_value s = t) [QUEUED, RUNNING, SUCCEEDED, FAILED]"

definition error_codes :: "error_code list" where
  "error_codes = [AUTH_REQUIRED, REMOTE_DISABLED, PROVIDER_SIM_DISABLED, PROVIDER_CREDENTIALS, PROVIDER_CAPACITY,
     PROVIDER_QUEUE_BACKPRESSURE, INVALID_TARGET, INVALID_REQUEST, BUDGET_EXHAUSTED, RATE_LIMITED, BUDGET_GUARDRAIL, TIMEOUT,
     CANCELLED, INTERNAL_ERROR, PROVIDER_ERROR]"

definition parse_error_code :: "string \<Rightarrow> error_code option" where
  "parse_error_code t = find (\<lambda>c. error_code_value c = t) error_codes"

text \<open>A field that pydantic validates: absent stays absent, a value that does not validate raises.\<close>

definition validated :: "'a option \<Rightarrow> ('a \<Rightarrow> 'b option) \<Rightarrow> 'b option py" where
  "validated v parse =
     (case v of None \<Rightarrow> Inr None | Some x \<Rightarrow> (case parse x of None \<Rightarrow> Inl ExnValidation | Some y \<Rightarrow> Inr (Some y)))"

definition detail_object :: "json \<Rightarrow> (string, json) dict option" where
  "detail_object j = (case j of JObj d \<Rightarrow> Some d | _ \<Rightarrow> None)"

definition run_status_of :: "run_view \<Rightarrow> run_status_response py" where
  "run_status_of v =
     (case parse_job_status (rx_status v) of
        None \<Rightarrow> Inl (ExnValue (rx_status v))
      | Some st \<Rightarrow>
          py_bind (validated (rx_error_code v) parse_error_code) (\<lambda>code.
          py_bind (validated (case rx_error_detail v of Some JNull \<Rightarrow> None | d \<Rightarrow> d) detail_object) (\<lambda>detail.
            Inr \<lparr>rs_id = rx_id v, rs_status = st, rs_created_at = rx_created_at v, rs_started_at = rx_started_at v,
              rs_finished_at = rx_finished_at v, rs_error = rx_error v, rs_error_code = code,
              rs_error_message = rx_error_message v, rs_error_detail = detail, rs_action_hint = rx_action_hint v,
              rs_result = rx_result v\<rparr>)))"

definition not_found :: "'a py" where
  "not_found = Inl (HTTPExn 404 (error_code_value INVALID_REQUEST))"

definition get_run_status :: "settings \<Rightarrow> 'r redis_data \<Rightarrow> run_texts \<Rightarrow> api_headers \<Rightarrow> string \<Rightarrow> ('r, 'f) api_queue
    \<Rightarrow> run_status_response py" where
  "get_run_status S K T h run_id q =
     py_bind (require_api_key S (hd_api_key h) (hd_authorization h)) (\<lambda>_.
     py_bind (api_queue_get K T run_id q) (\<lambda>record.
       case record of None \<Rightarrow> not_found | Some v \<Rightarrow> run_status_of v))"

definition bad_limit :: "'a py" where
  "bad_limit = Inl (HTTPExn 400 (error_code_value INVALID_REQUEST))"

definition list_recent_experiments :: "settings \<Rightarrow> ('e, 't) run_codec \<Rightarrow> api_headers \<Rightarrow> int \<Rightarrow> experiment_store \<times> 't disk_file
    \<Rightarrow> experiment_summary list py \<times> experiment_store \<times> 't disk_file" where
  "list_recent_experiments S C h limit s =
     (case require_api_key S (hd_api_key h) (hd_authorization h) of
        Inl e \<Rightarrow> (Inl e, s)
      | Inr _ \<Rightarrow> if limit \<le> 0 then (bad_limit, s)
                  else (case store_list_recent C limit s of (es, s1) \<Rightarrow> (Inr es, s1)))"

definition get_experiment :: "settings \<Rightarrow> ('e, 't) run_codec \<Rightarrow> api_headers \<Rightarrow> string \<Rightarrow> experiment_store \<times> 't disk_file
    \<Rightarrow> run_response py \<times> experiment_store \<times> 't disk_file" where
  "get_experiment S C h experiment_id s =
     (case require_api_key S (hd_api_key h) (hd_authorization h) of
        Inl e \<Rightarrow> (Inl e, s)
      | Inr _ \<Rightarrow> (case store_get C experiment_id s of (None, s1) \<Rightarrow> (not_found, s1) | (Some run, s1) \<Rightarrow> (Inr run, s1)))"

definition experiment_events :: "settings \<Rightarrow> api_headers \<Rightarrow> string \<Rightarrow> int \<Rightarrow> event_store \<Rightarrow> payload list py" where
  "experiment_events S h experiment_id limit ev =
     py_bind (require_api_key S (hd_api_key h) (hd_authorization h)) (\<lambda>_.
       if limit \<le> 0 then bad_limit else event_list experiment_id limit ev)"

definition clear_experiment_events :: "settings \<Rightarrow> api_headers \<Rightarrow> string \<Rightarrow> event_store \<Rightarrow> unit py \<times> event_store" where
  "clear_experiment_events S h experiment_id ev =
     (case require_api_key S (hd_api_key h) (hd_authorization h) of
        Inl e \<Rightarrow> (Inl e, ev) | Inr _ \<Rightarrow> (Inr (), event_clear experiment_id ev))"

text \<open>A session without runs shows the qubits of the newest stored run, whoever ran it.\<close>

definition qubit_telemetry_route :: "settings \<Rightarrow> ('e, 't) run_codec \<Rightarrow> real \<Rightarrow> real \<Rightarrow> api_headers
    \<Rightarrow> qubit_tracker \<times> experiment_store \<times> 't disk_file \<Rightarrow> qubit_telemetry py \<times> qubit_tracker \<times> experiment_store \<times> 't disk_file" where
  "qubit_telemetry_route S C evict_now now h s =
     (case require_api_key S (hd_api_key h) (hd_authorization h) of
        Inl e \<Rightarrow> (Inl e, s)
      | Inr _ \<Rightarrow>
          (let sid = get_session_id S (hd_session h) (hd_authorization h) (hd_api_key h);
               (snap, q) = qubit_snapshot evict_now now sid (fst s);
               (recent, st) = (if qs_last_run_qubits snap \<noteq> 0 then ([], snd s) else store_list_recent C 1 (snd s));
               last_run = (if qs_last_run_qubits snap \<noteq> 0 then Some (qs_last_run_qubits snap)
                       else (case recent of [] \<Rightarrow> None | e # _ \<Rightarrow> Some (es_qubits_used e))) in
           (Inr \<lparr>qt_session_total_qubits = qs_session_total snap, qt_last_run_qubits = last_run,
              qt_last_updated = Some (qs_last_updated snap), qt_demo_min_qubits = 1, qt_demo_max_qubits = 25\<rparr>, q, st)))"

section \<open>Targets, controls, health and seeds\<close>

definition hardware_targets :: "settings \<Rightarrow> (string, provider_client) dict \<Rightarrow> hardware_target list" where
  "hardware_targets S clients =
     map (\<lambda>(i, t). \<lparr>ht_id = i, ht_name = pt_name t, ht_kind = pt_kind t,
         ht_description = (if pt_kind t = ''sim'' then ''Local SynQc simulator'' else ''Production hardware backend''),
         ht_capabilities = Some (capabilities S i)\<rparr>)
       (filter (\<lambda>(i, t). st_allow_remote_hardware S \<or> pt_kind t = ''sim'') (list_targets S clients))"

definition get_control_profile :: "settings \<Rightarrow> api_headers \<Rightarrow> 'c control_store \<Rightarrow> control_profile py" where
  "get_control_profile S h cs =
     py_bind (require_api_key S (hd_api_key h) (hd_authorization h)) (\<lambda>_. Inr (control_get cs))"

definition update_control_profile :: "settings \<Rightarrow> (control_profile, 'c) codec \<Rightarrow> bool \<Rightarrow> real \<Rightarrow> api_headers
    \<Rightarrow> control_profile_update \<Rightarrow> 'c control_store \<Rightarrow> control_profile py \<times> 'c control_store" where
  "update_control_profile S c writable now h u cs =
     (case require_api_key S (hd_api_key h) (hd_authorization h) of
        Inl e \<Rightarrow> (Inl e, cs)
      | Inr _ \<Rightarrow> (case control_update c writable now u cs of
            (None, cs1) \<Rightarrow> (Inl ExnValidation, cs1) | (Some p, cs1) \<Rightarrow> (Inr p, cs1)))"

text \<open>The health cache: \<open>build\<close> makes the payload from the rest of the system.\<close>

record 'p health_cache =
  hc_expires_at :: real
  hc_payload :: "'p option"

definition health_route :: "settings \<Rightarrow> real \<Rightarrow> real \<Rightarrow> ('s \<Rightarrow> 'p \<times> 's) \<Rightarrow> 'p health_cache \<times> 's \<Rightarrow> 'p \<times> 'p health_cache \<times> 's" where
  "health_route S now done build s =
     (let ttl = st_health_cache_ttl_seconds S; fresh = (case build (snd s) of (p, s1) \<Rightarrow>
            (p, if ttl > 0 then \<lparr>hc_expires_at = done + of_int ttl, hc_payload = Some p\<rparr> else fst s, s1)) in
      if ttl \<le> 0 then fresh
      else (case hc_payload (fst s) of
          Some p \<Rightarrow> if hc_expires_at (fst s) > now then (p, s) else fresh
        | None \<Rightarrow> fresh))"

definition demo_requests :: "run_experiment_request list" where
  "demo_requests =
     map (\<lambda>(p, t, n, txt). \<lparr>rq_preset = p, rq_hardware_target = t, rq_shot_budget = Some n, rq_notes = Some txt,
         rq_control_overrides = None, rq_mode = None\<rparr>)
       [(HELLO_QUANTUM_SIM, ''sim_local'', 512, ''Hello Quantum quickstart (sim)''),
        (HEALTH, ''sim_local'', 1024, ''Stability smoke-check''),
        (LATENCY, ''sim_local'', 640, ''Latency probe''),
        (BACKEND_COMPARE, ''aws_braket'', 1200, ''A/B vs simulator''),
        (DPD_DEMO, ''sim_local'', 720, ''Guided DPD trace''),
        (GROVER_DEMO, ''sim_local'', 640, ''Grover energy-aware search''),
        (HEALTH, ''ibm_quantum'', 900, ''Platform drift check'')]"

definition seed_demo_runs :: "('g, 'w) client_env \<Rightarrow> 'g engine_env \<Rightarrow> 'r redis_kv \<Rightarrow> lua_num \<Rightarrow> ('e, 'f) run_codec
    \<Rightarrow> settings \<Rightarrow> (string, provider_client) dict \<Rightarrow> call_ctx list \<Rightarrow> ('w, 'r, 'c, 'f) engine_state
    \<Rightarrow> ('w, 'r, 'c, 'f) engine_state" where
  "seed_demo_runs E EE B L C S clients cxs st =
     (if \<not> store_is_empty C (en_store st) then st
      else fold (\<lambda>(req, cx) s. snd (run_experiment E EE B L C S clients cx req ''demo-seed'' None s)) (zip demo_requests cxs) st)"

section \<open>Who may call\<close>

definition ascii_text :: "string \<Rightarrow> bool" where
  "ascii_text t = (\<forall>c\<in>set t. (of_char c :: nat) < 128)"

lemma compare_digest_ascii: "ascii_text a \<Longrightarrow> ascii_text b \<Longrightarrow> compare_digest a b = Inr (a = b)"
  by (auto simp: compare_digest_def ascii_text_def not_le)

text \<open>
Who passes the API key check, with headers and a key in ASCII: everybody when neither switch
  is on, everybody when no key is configured and only the switch for API keys is on, nobody when
  authentication is required and no key is configured, and otherwise exactly who sends the key as
  \<open>X-Api-Key\<close> or as bearer token. Tokens of the auth store are never accepted here.
\<close>

theorem api_key_check:
  assumes "ascii_text (or_str (st_api_key S) [])" and "ascii_text (or_str x [])"
    and "\<forall>t. extract_bearer_token (or_str a []) = Some t \<longrightarrow> ascii_text t"
  shows "require_api_key S x a =
    (if \<not> st_require_api_key S \<and> \<not> st_auth_required S then Inr ()
     else if truthy_str (st_api_key S) then
       (if x = st_api_key S \<or> extract_bearer_token (or_str a []) = st_api_key S then Inr ()
        else Inl (HTTPExn 401 ''AUTH_REQUIRED''))
     else if st_auth_required S then Inl (HTTPExn 401 ''AUTH_REQUIRED'') else Inr ())"
proof (cases "truthy_str (st_api_key S)")
  case True
  then obtain k where k: "st_api_key S = Some k" "k \<noteq> []" by (auto dest: truthy_strE)
  have kk: "or_str (Some k) [] = k" "truthy_str (Some k)" using k(2) by (simp_all add: or_str_def truthy_str_def)
  have ka: "ascii_text k" using assms(1) by (simp add: k kk)
  have x: "truthy_str x \<Longrightarrow> compare_digest (or_str x []) k = Inr (x = Some k)" "\<not> truthy_str x \<Longrightarrow> x \<noteq> Some k"
    "compare_digest k k = Inr True"
    using assms(2) k(2) compare_digest_ascii [OF _ ka] ka by (auto simp: truthy_str_def or_str_def split: option.splits)
  show ?thesis
  proof (cases "extract_bearer_token (or_str a [])")
    case None
    then show ?thesis using k x by (simp add: require_api_key_def Let_def kk unauthorized_def)
  next
    case (Some t)
    then have "compare_digest t k = Inr (t = k)" using assms(3) compare_digest_ascii [OF _ ka] by blast
    then show ?thesis using k x Some by (simp add: require_api_key_def Let_def kk unauthorized_def)
  qed
qed (simp add: require_api_key_def Let_def unauthorized_def)

text \<open>A byte above 127 in a header makes the comparison raise, whatever the key.\<close>

lemma non_ascii_key_raises:
  assumes "st_require_api_key S \<or> st_auth_required S" and "truthy_str (st_api_key S)" and "\<not> ascii_text x" and "x \<noteq> []"
  shows "\<exists>m. require_api_key S (Some x) a = Inl (ExnOther ''TypeError'' m)"
  using assms
  by (auto simp: require_api_key_def Let_def compare_digest_def ascii_text_def truthy_str_def or_str_def not_less)

text \<open>A caller who names a session gets that one, so the budget of a session is the caller's choice.\<close>

lemma session_is_chosen: "x \<noteq> [] \<Longrightarrow> get_session_id S (Some x) a k = x"
  by (simp add: get_session_id_def truthy_str_def or_str_def)

section \<open>What is let into the queue\<close>

lemma target_kinds:
  "dict_get (list_targets S clients) i = None \<longleftrightarrow> i \<notin> set (dict_keys (backends clients))"
  "dict_get (list_targets S clients) i = Some t \<Longrightarrow> pt_kind t = ''sim'' \<longleftrightarrow> i = ''sim_local''"
  "i \<in> set (dict_keys (backends clients)) \<Longrightarrow> \<exists>b. validate_credentials E S clients i = Inr b"
  "''sim_local'' \<in> set (dict_keys (backends clients))"
proof -
  show "dict_get (list_targets S clients) i = None \<longleftrightarrow> i \<notin> set (dict_keys (backends clients))"
    unfolding map_of_eq_None_iff by (metis registered_targets_listed(1) set_map)
  show "pt_kind t = ''sim'' \<longleftrightarrow> i = ''sim_local''" if "dict_get (list_targets S clients) i = Some t"
    using that by (auto simp: list_targets_def backends_def mk_provider_def split: if_splits)
  show "\<exists>b. validate_credentials E S clients i = Inr b" if "i \<in> set (dict_keys (backends clients))"
  proof -
    from that obtain b where "dict_get (backends clients) i = Some b"
      by (metis map_of_eq_None_iff not_None_eq set_map)
    then show ?thesis by (auto simp: validate_credentials_def get_backend_def split: backend.split option.split)
  qed
  show "''sim_local'' \<in> set (dict_keys (backends clients))" by (simp add: backends_def)
qed

definition remote_allowed :: "settings \<Rightarrow> bool list \<Rightarrow> bool" where
  "remote_allowed S flags = (st_allow_remote_hardware S \<and> list_all (\<lambda>f. f) flags)"

lemma submission_guard_eq:
  "submission_guard E S clients flags req =
    (if rq_hardware_target req = ''sim_local'' then Inr ()
     else if \<not> remote_allowed S flags then Inl (HTTPExn 403 ''REMOTE_DISABLED'')
     else if rq_hardware_target req \<notin> set (dict_keys (backends clients)) then Inl (HTTPExn 400 ''INVALID_TARGET'')
     else if validate_credentials E S clients (rq_hardware_target req) = Inr True \<or> st_allow_provider_simulation S then Inr ()
     else Inl (HTTPExn 403 ''PROVIDER_SIM_DISABLED''))"
proof -
  let ?i = "rq_hardware_target req"
  show ?thesis
  proof (cases "dict_get (list_targets S clients) ?i")
    case None
    have n: "?i \<notin> set (dict_keys (backends clients))" by (rule target_kinds(1) [THEN iffD1, OF None])
    have "?i \<noteq> ''sim_local''"
    proof
      assume "?i = ''sim_local''"
      then show False using n target_kinds(4) by metis
    qed
    with n show ?thesis using None by (auto simp: submission_guard_def Let_def remote_allowed_def remote_disabled_def)
  next
    case (Some t)
    then have i: "?i \<in> set (dict_keys (backends clients))" using target_kinds(1) [where S = S and clients = clients and i = ?i] by (metis option.distinct(1))
    then obtain b where b: "validate_credentials E S clients ?i = Inr b" using target_kinds(3) by blast
    have "pt_kind t = ''sim'' \<longleftrightarrow> ?i = ''sim_local''" by (rule target_kinds(2) [OF Some])
    then show ?thesis
      using Some i b by (auto simp: submission_guard_def Let_def remote_allowed_def remote_disabled_def)
  qed
qed



section \<open>From submission to polling\<close>

text \<open>
  C30. A run that the API has accepted can be polled at once, on any server that the queue's own steps
  have led to: the status route knows it by the returned identifier, as queued, with the time of the
  submission and nothing else.
\<close>

theorem submitted_run_can_be_polled:
  assumes "redis_laws K V" and "runq_empty (V r0)" and "runs (runq_step K T) (runq_new r0) es z"
    and "i \<notin> set (rz_ids z)" and "int (length (rz_ids z)) + 1 < 2 ^ 63"
    and "rv_hash (V (rz_redis z)) (runq_job_key i) = Map.empty" and "float_reads_back (rt_texts T) now"
    and "submit_run E S clients flags K T i now h req (Shared_queue (rz_redis z) m) = (Inr resp, q)"
  shows "resp = submission i now \<and>
    get_run_status S K T h (rs_id resp) q = Inr (run_submission_response.extend resp (run_status_response.fields None))"
proof -
  note L = assms(1)
  have key: "require_api_key S (hd_api_key h) (hd_authorization h) = Inr ()"
    using assms(8) by (auto simp: submit_run_def split: sum.splits)
  let ?sid = "get_session_id S (hd_session h) (hd_authorization h) (hd_api_key h)"
  obtain r M' where e: "runq_enqueue K T i now req ?sid (rz_redis z, m) = ((i, now), r, M')"
    by (simp add: runq_enqueue_def Let_def)
  have resp: "resp = submission i now" and q: "q = Shared_queue r M'"
    using assms(8) e key by (auto simp: submit_run_def enqueue_run_def api_enqueue_def split: sum.splits)
  have "runq_ok V T z" using runq.runs_ok [OF assms(3)] L runq_new_ok [where V = V and r = r0, OF assms(2)] by blast
  note c = enqueue_room [OF this assms(5)]
  note v = enqueue_counters(5) [OF L c(1,2) finite_set assms(4) c(3) e, unfolded assms(6)]
  let ?d = "rd_hgetall K (runq_job_key i) r"
  have d: "dict_get ?d = Map.empty ++ map_of (rev [(''status'', run_status_value QUEUED), (''created_at'', tx_str (rt_texts T) now),
      (''session_id'', ?sid), (''request_json'', codec_dump (rt_request T) req)])"
    by (simp only: redis_hash_simps(1) [OF L] v)
  then have "dict_get ?d ''status'' = Some (run_status_value QUEUED)" by simp
  then have ne: "?d \<noteq> []" by auto
  have g: "runq_get K T i r = Inr (Some \<lparr>rx_id = i, rx_status = run_status_value QUEUED, rx_created_at = now, rx_started_at = None,
      rx_finished_at = None, rx_error = None, rx_error_code = None, rx_error_message = None, rx_error_detail = None,
      rx_action_hint = None, rx_result = None\<rparr>)"
    using assms(7) by (simp add: runq_get_def Let_def ne d float_reads_back_def truthy_str_def or_str_def as_float_def stored_text_def dict_get_or_def)
  show ?thesis
    by (simp add: resp q get_run_status_def key api_queue_get_def submission_def g run_status_of_def parse_job_status_def validated_def
        run_submission_response.defs run_status_response.defs)
qed

definition demo_headers :: api_headers where
  "demo_headers = \<lparr>hd_api_key = Some ''k'', hd_authorization = None, hd_session = Some ''s''\<rparr>"

abbreviation demo_api_queue :: "(redis_db, run_response list) api_queue" where
  "demo_api_queue \<equiv> Shared_queue demo_server run_metrics_init"

lemma default_key_open: "require_api_key default_settings x a = Inr ()"
  by (simp add: require_api_key_def Let_def default_settings_def truthy_str_def)

theorem api_key_check_witness:
  "require_api_key (default_settings\<lparr>st_api_key := Some ''k''\<rparr>) (Some ''k'') None = Inr () \<and>
   require_api_key (default_settings\<lparr>st_api_key := Some ''k''\<rparr>) None None = Inl (HTTPExn 401 ''AUTH_REQUIRED'')"
proof -
  let ?S = "default_settings\<lparr>st_api_key := Some ''k''\<rparr>"
  have e: "extract_bearer_token [] = None" by (simp add: extract_bearer_token_def)
  have f: "st_api_key ?S = Some ''k''" "st_require_api_key ?S" by (simp_all add: default_settings_def)
  have g: "or_str (Some ''k'') [] = ''k''" "truthy_str (Some ''k'')" "ascii_text ''k''" "or_str None [] = []" "ascii_text []"
    by (simp_all add: or_str_def truthy_str_def ascii_text_def)
  show ?thesis
    using api_key_check [of ?S "Some ''k''" None] api_key_check [of ?S None None] by (simp add: e f g del: settings.simps)
qed


theorem submitted_run_can_be_polled_witness:
  "\<exists>resp q. submit_run demo_env default_settings (load_provider_clients []) [] redis_reference demo_run_texts ''a'' 1 demo_headers
       demo_run_request demo_api_queue = (Inr resp, q) \<and>
     (\<exists>st. get_run_status default_settings redis_reference demo_run_texts demo_headers (rs_id resp) q = Inr st)"
proof -
  let ?s = "submit_run demo_env default_settings (load_provider_clients []) [] redis_reference demo_run_texts ''a'' 1 demo_headers
       demo_run_request demo_api_queue"
  have "submission_guard demo_env default_settings (load_provider_clients []) [] demo_run_request = Inr ()"
    by (simp add: submission_guard_eq demo_run_request_def)
  then obtain resp q where s: "?s = (Inr resp, q)"
    by (simp add: submit_run_def default_key_open enqueue_run_def api_enqueue_def runq_enqueue_def Let_def)
  have f: "float_reads_back (rt_texts demo_run_texts) 1"
    by (simp add: float_reads_back_def demo_run_texts_def) code_simp
  have h: "rv_hash (db_contents (rz_redis (runq_new demo_server))) (runq_job_key ''a'') = Map.empty"
    using demo_server_empty by (simp add: runq_empty_def runq_new_def)
  have s': "submit_run demo_env default_settings (load_provider_clients []) [] redis_reference demo_run_texts ''a'' 1 demo_headers
       demo_run_request (Shared_queue (rz_redis (runq_new demo_server)) run_metrics_init :: (redis_db, run_response list) api_queue) = (Inr resp, q)"
    using s by (simp add: runq_new_def)
  have "''a'' \<notin> set (rz_ids (runq_new demo_server))" "int (length (rz_ids (runq_new demo_server))) + 1 < 2 ^ 63"
    by (simp_all add: runq_new_def)
  from submitted_run_can_be_polled [OF redis_reference_laws demo_server_empty runs_nil this h f s'] show ?thesis
    using s by blast
qed

section \<open>The chat proxy\<close>

record chat_turn =
  ct_role :: string
  ct_content :: string

record chat_request =
  ch_prompt :: string
  ch_history :: "chat_turn list"
  ch_preset :: "string option"
  ch_hardware :: "string option"
  ch_mode :: "string option"

record chat_response =
  cr_reply :: string
  cr_model :: string
  cr_usage :: "(string, json) dict option"

text \<open>What the HTTP client answers: a failed request, or a status with its body as JSON, if it is JSON.\<close>

datatype http_answer = Http_failed string | Http_response int "json option"

definition context_bits :: "chat_request \<Rightarrow> string list" where
  "context_bits body =
     (if truthy_str (ch_preset body) then [''Preset: '' @ or_str (ch_preset body) []] else []) @
     (if truthy_str (ch_hardware body) then [''Hardware: '' @ or_str (ch_hardware body) []] else []) @
     (if truthy_str (ch_mode body) then [''Mode: '' @ or_str (ch_mode body) []] else [])"

fun join_bits :: "string list \<Rightarrow> string" where
  "join_bits [] = []"
| "join_bits [b] = b"
| "join_bits (b # bs) = b @ '' '' @ [CHR 0xB7] @ '' '' @ join_bits bs"

text \<open>The messages sent to the model; the system prompt is a parameter.\<close>

definition chat_messages :: "string \<Rightarrow> chat_request \<Rightarrow> chat_turn list" where
  "chat_messages system_prime body =
     [\<lparr>ct_role = ''system'', ct_content = system_prime\<rparr>] @
     (if context_bits body \<noteq> [] then [\<lparr>ct_role = ''system'', ct_content = ''Context: '' @ join_bits (context_bits body)\<rparr>] else []) @
     py_last 6 (ch_history body) @
     [\<lparr>ct_role = ''user'', ct_content = ch_prompt body\<rparr>]"

definition chat_payload :: "settings \<Rightarrow> string \<Rightarrow> chat_request \<Rightarrow> json" where
  "chat_payload S system_prime body =
     JObj [(''model'', JStr (st_openai_model S)),
       (''messages'', JList (map (\<lambda>t. JObj [(''role'', JStr (ct_role t)), (''content'', JStr (ct_content t))]) (chat_messages system_prime body))),
       (''temperature'', JFloat (35 / 100)), (''max_tokens'', JInt 400)]"

definition rstrip_slash :: "string \<Rightarrow> string" where
  "rstrip_slash t = rev (dropWhile (\<lambda>c. c = CHR ''/'') (rev t))"

definition chat_url :: "settings \<Rightarrow> string" where
  "chat_url S =
     (let base = rstrip_slash (st_openai_base_url S) in
      (if base = [] then ''https://api.openai.com/v1'' else base) @ ''/chat/completions'')"

text \<open>\<open>data.get(k, d)\<close> and \<open>data[0]\<close> on whatever JSON came back.\<close>

definition json_get :: "string \<Rightarrow> json \<Rightarrow> json \<Rightarrow> json py" where
  "json_get k d j =
     (case j of JObj m \<Rightarrow> Inr (dict_get_or d m k) | _ \<Rightarrow> Inl (ExnOther ''AttributeError'' ''object has no attribute get''))"

definition json_first :: "json \<Rightarrow> json py" where
  "json_first j =
     (case j of
        JList (x # xs) \<Rightarrow> Inr x
      | JList [] \<Rightarrow> Inl (ExnOther ''IndexError'' ''list index out of range'')
      | JStr (c # cs) \<Rightarrow> Inr (JStr [c])
      | JStr [] \<Rightarrow> Inl (ExnOther ''IndexError'' ''string index out of range'')
      | JObj m \<Rightarrow> Inl (ExnKey ''0'')
      | _ \<Rightarrow> Inl (ExnOther ''TypeError'' ''object is not subscriptable''))"

definition json_strip :: "json \<Rightarrow> string py" where
  "json_strip j = (case j of JStr t \<Rightarrow> Inr (py_strip t) | _ \<Rightarrow> Inl (ExnOther ''AttributeError'' ''object has no attribute strip''))"

definition chat_reply :: "settings \<Rightarrow> json \<Rightarrow> chat_response py" where
  "chat_reply S data =
     py_bind (json_get ''choices'' (JList [JObj []]) data) (\<lambda>choices.
     py_bind (json_first choices) (\<lambda>choice.
     py_bind (json_get ''message'' (JObj []) choice) (\<lambda>message.
     py_bind (json_get ''content'' (JStr []) message) (\<lambda>content.
     py_bind (json_strip content) (\<lambda>reply.
     py_bind (json_get ''model'' (JStr (st_openai_model S)) data) (\<lambda>model.
     py_bind (json_get ''usage'' JNull data) (\<lambda>usage.
       case (model, usage) of
         (JStr m, JNull) \<Rightarrow> Inr \<lparr>cr_reply = (if reply = [] then ''No reply returned from the model.'' else reply), cr_model = m, cr_usage = None\<rparr>
       | (JStr m, JObj u) \<Rightarrow> Inr \<lparr>cr_reply = (if reply = [] then ''No reply returned from the model.'' else reply), cr_model = m, cr_usage = Some u\<rparr>
       | _ \<Rightarrow> Inl ExnValidation)))))))"

definition invoke_openai_chat :: "settings \<Rightarrow> string option \<Rightarrow> string \<Rightarrow> (string \<Rightarrow> string \<Rightarrow> json \<Rightarrow> http_answer) \<Rightarrow> chat_request
    \<Rightarrow> chat_response py" where
  "invoke_openai_chat S env_key system_prime post body =
     (let api_key = (if truthy_str (st_openai_api_key S) then st_openai_api_key S else env_key) in
      if \<not> truthy_str api_key then Inl (HTTPExn 503 (error_code_value AUTH_REQUIRED))
      else (case post (chat_url S) (''Bearer '' @ or_str api_key []) (chat_payload S system_prime body) of
          Http_failed m \<Rightarrow> Inl (HTTPExn 502 (''OpenAI chat request failed: '' @ m))
        | Http_response status data \<Rightarrow>
            if status \<ge> 400 then Inl (HTTPExn 502 (''OpenAI chat error '' @ py_str_int status))
            else (case data of None \<Rightarrow> Inl (ExnOther ''JSONDecodeError'' ''Expecting value'') | Some j \<Rightarrow> chat_reply S j)))"

definition agent_chat :: "settings \<Rightarrow> string option \<Rightarrow> string \<Rightarrow> (string \<Rightarrow> string \<Rightarrow> json \<Rightarrow> http_answer) \<Rightarrow> real \<Rightarrow> api_headers
    \<Rightarrow> chat_request \<Rightarrow> chat_windows \<Rightarrow> chat_response py \<times> chat_windows" where
  "agent_chat S env_key system_prime post now h body windows =
     (case require_api_key S (hd_api_key h) (hd_authorization h) of
        Inl e \<Rightarrow> (Inl e, windows)
      | Inr _ \<Rightarrow>
          (case enforce_chat_rate_limit S now (get_session_id S (hd_session h) (hd_authorization h) (hd_api_key h)) windows of
             (Inl e, w) \<Rightarrow> (Inl e, w)
           | (Inr _, w) \<Rightarrow> (invoke_openai_chat S env_key system_prime post body, w)))"

text \<open>An answer whose content is \<open>null\<close>, as the service gives for tool calls, raises instead of the default reply.\<close>

lemma null_content_raises:
  "chat_reply S (JObj [(''choices'', JList [JObj [(''message'', JObj [(''content'', JNull)])]])]) =
     Inl (ExnOther ''AttributeError'' ''object has no attribute strip'')"
  by (simp add: chat_reply_def json_get_def json_first_def json_strip_def dict_get_or_def)

lemma chat_messages_bound: "length (chat_messages p body) \<le> 9"
  by (cases "context_bits body = []") (simp_all add: chat_messages_def length_py_last min_def)

section \<open>Response headers\<close>

type_synonym http_headers = "(string, string) dict"

text \<open>Header names are case-insensitive: they are stored in lower case.\<close>

definition header_setdefault :: "string \<Rightarrow> string \<Rightarrow> http_headers \<Rightarrow> http_headers" where
  "header_setdefault k v h = dict_setdefault (py_lower k) v h"

definition security_headers :: "settings \<Rightarrow> http_headers \<Rightarrow> http_headers" where
  "security_headers S h0 =
     (let h1 = header_setdefault ''X-Content-Type-Options'' ''nosniff'' h0;
          h2 = header_setdefault ''X-Frame-Options'' ''DENY'' h1;
          h3 = header_setdefault ''Referrer-Policy'' ''no-referrer'' h2;
          h4 = header_setdefault ''Permissions-Policy'' ''camera=(), microphone=(), geolocation=()'' h3;
          h5 = header_setdefault ''Content-Security-Policy''
            (''default-src 'self'; connect-src 'self' https:; img-src 'self' data: https://fastapi.tiangolo.com https://cdn.jsdelivr.net; '' @
             ''style-src 'self' 'unsafe-inline' https://cdn.jsdelivr.net; script-src 'self' 'unsafe-inline' https://cdn.jsdelivr.net; '' @
             ''font-src 'self' data: https://cdn.jsdelivr.net'') h4 in
      if st_env S = Prod then header_setdefault ''Strict-Transport-Security'' ''max-age=63072000; includeSubDomains'' h5 else h5)"

lemma header_setdefault_keep: "dict_get h k = Some v \<Longrightarrow> dict_get (header_setdefault n x h) k = Some v"
  by (auto simp: header_setdefault_def get_setdefault dict_get_or_def)

lemma security_headers_keep: "dict_get h k = Some v \<Longrightarrow> dict_get (security_headers S h) k = Some v"
  by (simp add: security_headers_def Let_def header_setdefault_keep)

end
