(* ===== verification/Middleware.thy ===== *)
theory Middleware
  imports Api
begin

text \<open>
  The HTTP middlewares (\<open>middleware.py\<close>): request identifiers, the body limit with its spooled copy, the
  API key and the fixed-window rate limit, and the stack that \<open>add_default_middlewares\<close> makes of them.
  A middleware is a function from the application behind it to an application; an application
  takes a request and its state. The Redis counter of the rate limit is a parameter with its laws.
\<close>

section \<open>Requests and applications\<close>

type_synonym bytes = "nat list"

record http_request =
  hq_headers :: http_headers
  hq_client :: "string option"
  hq_body :: "bytes list"
  hq_request_id :: "string option"

record http_response =
  hp_status :: int
  hp_headers :: http_headers
  hp_body :: string

type_synonym 's app = "http_request \<Rightarrow> 's \<Rightarrow> http_response \<times> 's"

definition header_of :: "http_request \<Rightarrow> string \<Rightarrow> string option" where
  "header_of q k = dict_get (hq_headers q) (py_lower k)"

text \<open>
  \<open>JSONResponse\<close>: the compact text of an object of texts that need no escapes, with its length and
  content type.
\<close>

definition quoted :: "string \<Rightarrow> string" where
  "quoted t = CHR 0x22 # t @ [CHR 0x22]"

fun object_members :: "(string \<times> string) list \<Rightarrow> string" where
  "object_members [] = []"
| "object_members [(k, v)] = quoted k @ '':'' @ v"
| "object_members ((k, v) # ms) = quoted k @ '':'' @ v @ '','' @ object_members ms"

definition object_text :: "(string \<times> string) list \<Rightarrow> string" where
  "object_text ms = ''{'' @ object_members ms @ ''}''"

definition json_response :: "int \<Rightarrow> string \<Rightarrow> http_response" where
  "json_response status body =
     \<lparr>hp_status = status, hp_headers = [(''content-length'', py_str_int (int (length body))), (''content-type'', ''application/json'')],
      hp_body = body\<rparr>"

text \<open>The answers of the middlewares: an error object with a code, and a message for some.\<close>

definition refusal :: "int \<Rightarrow> string \<Rightarrow> string option \<Rightarrow> http_response" where
  "refusal status code message =
     json_response status (object_text [(''error'', object_text ((''code'', quoted code) #
       (case message of None \<Rightarrow> [] | Some m \<Rightarrow> [(''message'', quoted m)])))])"

section \<open>Request identifiers\<close>

definition request_id_middleware :: "string \<Rightarrow> 's app \<Rightarrow> 's app" where
  "request_id_middleware fresh_id app q s =
     (let rid = (if truthy_str (header_of q ''X-Request-ID'') then or_str (header_of q ''X-Request-ID'') [] else fresh_id);
          (response, s1) = app (q\<lparr>hq_request_id := Some rid\<rparr>) s in
      (response\<lparr>hp_headers := dict_set (py_lower ''X-Request-ID'') rid (hp_headers response)\<rparr>, s1))"

section \<open>The body limit\<close>

definition safe_content_types :: "string list" where
  "safe_content_types = [''application/json'', ''application/x-www-form-urlencoded'', ''multipart/form-data'', ''text/plain'']"

text \<open>The loop over the stream: the bytes written so far, until the limit is passed.\<close>

fun spool :: "int \<Rightarrow> bytes \<Rightarrow> bytes list \<Rightarrow> bytes option" where
  "spool max_size acc [] = Some acc"
| "spool max_size acc (chunk # rest) =
     (if int (length acc) + int (length chunk) > max_size then None else spool max_size (acc @ chunk) rest)"

text \<open>The copy is replayed in blocks of \<open>_receive_chunk_size\<close> and an empty one at the end.\<close>

function replay :: "nat \<Rightarrow> bytes \<Rightarrow> bytes list" where
  "replay n [] = [[]]"
| "replay n (b # bs) = take (Suc n) (b # bs) # replay n (drop (Suc n) (b # bs))"
  by pat_completeness auto
termination by (relation "measure (\<lambda>(n, bs). length bs)") auto

definition receive_chunk_size :: nat where "receive_chunk_size = 64 * 1024"

definition content_type_of :: "http_request \<Rightarrow> string" where
  "content_type_of q = py_strip (hd (py_split CHR '';'' (case header_of q ''content-type'' of None \<Rightarrow> [] | Some t \<Rightarrow> t)))"

definition stream_body :: "int \<Rightarrow> 's app \<Rightarrow> 's app" where
  "stream_body max_size app q s =
     (case spool max_size [] (hq_body q) of
        None \<Rightarrow> (refusal 413 ''too_large'' None, s)
      | Some body \<Rightarrow> app (q\<lparr>hq_body := replay (receive_chunk_size - 1) body\<rparr>) s)"

definition max_request_size_middleware :: "int \<Rightarrow> 's app \<Rightarrow> 's app" where
  "max_request_size_middleware max_size app q s =
     (let content_length = header_of q ''content-length'' in
      if truthy_str content_length then
        (case py_int_of_str (or_str content_length []) of
           None \<Rightarrow> (refusal 400 ''invalid_content_length'' None, s)
         | Some n \<Rightarrow>
             if n > max_size then (refusal 413 ''too_large'' None, s)
             else if content_type_of q \<in> set safe_content_types \<and> content_type_of q \<noteq> ''multipart/form-data'' then app q s
             else stream_body max_size app q s)
      else stream_body max_size app q s)"

section \<open>API key and rate limit\<close>

definition api_key_middleware :: "string option \<Rightarrow> 's app \<Rightarrow> 's app" where
  "api_key_middleware api_key app q s =
     (if \<not> truthy_str api_key then app q s
      else if (case header_of q ''X-API-Key'' of None \<Rightarrow> [] | Some k \<Rightarrow> k) \<noteq> or_str api_key []
      then (refusal 401 ''unauthorized'' (Some ''Missing or invalid API key.''), s)
      else app q s)"

text \<open>\<open>INCR\<close> and \<open>EXPIRE\<close>; \<open>None\<close> and \<open>False\<close> are a server that does not answer.\<close>

record 'r counter_api =
  ca_incr :: "string \<Rightarrow> 'r \<Rightarrow> int option \<times> 'r"
  ca_expire :: "string \<Rightarrow> int \<Rightarrow> 'r \<Rightarrow> bool \<times> 'r"

definition rate_key :: "string \<Rightarrow> real \<Rightarrow> string" where
  "rate_key ident now = ''synqc:ratelimit:'' @ ident @ '':'' @ py_str_int \<lfloor>now / 60\<rfloor>"

definition rate_ident :: "http_request \<Rightarrow> string" where
  "rate_ident q =
     (if truthy_str (header_of q ''X-API-Key'') then or_str (header_of q ''X-API-Key'') []
      else (case hq_client q of None \<Rightarrow> ''unknown'' | Some host \<Rightarrow> host))"

text \<open>Whether a request is let through; a server that does not answer lets it through.\<close>

definition rate_pass :: "'r counter_api \<Rightarrow> int \<Rightarrow> real \<Rightarrow> http_request \<Rightarrow> 'r \<Rightarrow> bool \<times> 'r" where
  "rate_pass R limit now q r =
     (if limit \<le> 0 then (True, r)
      else (case ca_incr R (rate_key (rate_ident q) now) r of
          (None, r1) \<Rightarrow> (True, r1)
        | (Some n, r1) \<Rightarrow>
            (case (if n = 1 then ca_expire R (rate_key (rate_ident q) now) 90 r1 else (True, r1)) of
               (False, r2) \<Rightarrow> (True, r2)
             | (True, r2) \<Rightarrow> (n \<le> limit, r2))))"

definition rate_limit_middleware :: "'r counter_api \<Rightarrow> int \<Rightarrow> real \<Rightarrow> 's app \<Rightarrow> ('r \<times> 's) app" where
  "rate_limit_middleware R limit now app q s =
     (case rate_pass R limit now q (fst s) of
        (False, r) \<Rightarrow> (refusal 429 ''rate_limited'' (Some ''Too many requests. Slow down.''), r, snd s)
      | (True, r) \<Rightarrow> (case app q (snd s) of (resp, s1) \<Rightarrow> (resp, r, s1)))"

text \<open>Each middleware is put around those added before it, so the body limit is outermost.\<close>

definition default_stack :: "settings \<Rightarrow> 'r counter_api \<Rightarrow> string \<Rightarrow> real \<Rightarrow> 's app \<Rightarrow> ('r \<times> 's) app" where
  "default_stack S R fresh_id now app =
     max_request_size_middleware (st_max_request_bytes S)
       (rate_limit_middleware R (st_rate_limit_per_minute S) now
         (let inner = request_id_middleware fresh_id app in
          if truthy_str (st_api_key S) then api_key_middleware (st_api_key S) inner else inner))"

section \<open>The body the application reads\<close>

lemma spool_result: "spool m acc chunks = Some body \<Longrightarrow> body = acc @ concat chunks \<and> (chunks \<noteq> [] \<longrightarrow> int (length body) \<le> m)"
proof (induction chunks arbitrary: acc)
  case (Cons c cs)
  then have s: "spool m (acc @ c) cs = Some body" "int (length (acc @ c)) \<le> m" by (auto split: if_splits)
  from Cons.IH [OF s(1)] s(2) show ?case by (cases cs) auto
qed simp

lemma spool_None:
  "int (length acc) \<le> m \<Longrightarrow> spool m acc chunks = None \<longleftrightarrow> m < int (length (acc @ concat chunks))"
  by (induction chunks arbitrary: acc) auto

lemma concat_replay: "concat (replay n body) = body"
  by (induction n body rule: replay.induct) (simp_all del: take_Suc_Cons drop_Suc_Cons)

lemma replay_sizes: "c \<in> set (replay n body) \<Longrightarrow> length c \<le> Suc n"
  by (induction n body rule: replay.induct) auto


lemma stream_body_eq:
  assumes "0 \<le> m"
  shows "stream_body m app q s = (if m < int (length (concat (hq_body q))) then (refusal 413 ''too_large'' None, s)
    else app (q\<lparr>hq_body := replay 65535 (concat (hq_body q))\<rparr>) s)"
proof (cases "spool m [] (hq_body q)")
  case None
  then show ?thesis using spool_None [of "[]" m "hq_body q"] assms by (simp add: stream_body_def)
next
  case (Some body)
  then show ?thesis
    using spool_None [of "[]" m "hq_body q"] spool_result [OF Some] assms by (simp add: stream_body_def receive_chunk_size_def)
qed

definition unread_type :: "http_request \<Rightarrow> bool" where
  "unread_type q = (content_type_of q \<in> set [''application/json'', ''application/x-www-form-urlencoded'', ''text/plain''])"

lemma body_limit_eq:
  assumes "0 \<le> m"
  shows "max_request_size_middleware m app q s =
    (let declared = header_of q ''content-length'' in
     if truthy_str declared \<and> py_int_of_str (or_str declared []) = None then (refusal 400 ''invalid_content_length'' None, s)
     else if truthy_str declared \<and> m < the (py_int_of_str (or_str declared [])) then (refusal 413 ''too_large'' None, s)
     else if truthy_str declared \<and> unread_type q then app q s
     else if m < int (length (concat (hq_body q))) then (refusal 413 ''too_large'' None, s)
     else app (q\<lparr>hq_body := replay 65535 (concat (hq_body q))\<rparr>) s)"
proof -
  have "unread_type q \<longleftrightarrow> content_type_of q \<in> set safe_content_types \<and> content_type_of q \<noteq> ''multipart/form-data''"
    by (auto simp: unread_type_def safe_content_types_def)
  then show ?thesis
    by (auto simp: max_request_size_middleware_def stream_body_eq [OF assms] Let_def split: option.splits)
qed

text \<open>
The body limit: a request without a declared length, or of a content type that is not passed on
  unread, is refused with 413 exactly when its body is longer than the limit; otherwise the
  application reads the same bytes, in blocks of at most 64 KiB. A declared length above the limit
  is refused unread, and one that is no number with 400.
\<close>

theorem body_limit_exact:
  assumes "0 \<le> m"
  shows "max_request_size_middleware m app q s =
    (let declared = header_of q ''content-length'' in
     if truthy_str declared \<and> py_int_of_str (or_str declared []) = None then (refusal 400 ''invalid_content_length'' None, s)
     else if truthy_str declared \<and> m < the (py_int_of_str (or_str declared [])) then (refusal 413 ''too_large'' None, s)
     else if truthy_str declared \<and> unread_type q then app q s
     else if m < int (length (concat (hq_body q))) then (refusal 413 ''too_large'' None, s)
     else app (q\<lparr>hq_body := replay 65535 (concat (hq_body q))\<rparr>) s) \<and>
   concat (replay 65535 (concat (hq_body q))) = concat (hq_body q) \<and>
   list_all (\<lambda>c. length c \<le> 65536) (replay 65535 (concat (hq_body q)))"
proof -
  have "list_all (\<lambda>c. length c \<le> 65536) (replay 65535 (concat (hq_body q)))"
    using replay_sizes [of _ 65535 "concat (hq_body q)"] by (auto simp: list_all_iff)
  then show ?thesis by (rule conjI [OF body_limit_eq [OF assms] conjI [OF concat_replay]])
qed

section \<open>The rate limit\<close>

definition counter_laws :: "'r counter_api \<Rightarrow> ('r \<Rightarrow> string \<Rightarrow> int) \<Rightarrow> bool" where
  "counter_laws R V =
     (\<forall>k n r. fst (ca_incr R k r) = Some (V r k + 1) \<and> V (snd (ca_incr R k r)) = (V r)(k := V r k + 1) \<and>
        fst (ca_expire R k n r) \<and> V (snd (ca_expire R k n r)) = V r)"

fun rate_passes :: "'r counter_api \<Rightarrow> int \<Rightarrow> (real \<times> http_request) list \<Rightarrow> 'r \<Rightarrow> bool list" where
  "rate_passes R limit [] r = []"
| "rate_passes R limit ((now, q) # qs) r = (case rate_pass R limit now q r of (b, r1) \<Rightarrow> b # rate_passes R limit qs r1)"

definition key_of :: "real \<times> http_request \<Rightarrow> string" where
  "key_of p = rate_key (rate_ident (snd p)) (fst p)"

lemma rate_pass_counts:
  assumes "counter_laws R V" and "1 \<le> limit"
  shows "\<exists>r1. rate_pass R limit now q r = (V r (key_of (now, q)) < limit, r1) \<and>
    V r1 = (V r)(key_of (now, q) := V r (key_of (now, q)) + 1)"
proof -
  let ?k = "key_of (now, q)"
  obtain a r1 where i: "ca_incr R ?k r = (a, r1)" by force
  then have r1: "ca_incr R ?k r = (Some (V r ?k + 1), r1)" "V r1 = (V r)(?k := V r ?k + 1)"
    using assms(1)[unfolded counter_laws_def, rule_format, of ?k r 0] by simp_all
  obtain b r2 where e: "ca_expire R ?k 90 r1 = (b, r2)" by force
  then have r2: "ca_expire R ?k 90 r1 = (True, r2)" "V r2 = V r1"
    using assms(1)[unfolded counter_laws_def, rule_format, of ?k r1 90] by simp_all
  have k: "rate_key (rate_ident q) now = ?k" by (simp add: key_of_def)
  have p: "rate_pass R limit now q r = (V r ?k < limit, if V r ?k = 0 then r2 else r1)"
    using assms(2) by (auto simp: rate_pass_def k r1(1) r2(1))
  show ?thesis unfolding p using r1(2) r2(2) by (intro exI [of _ "if V r ?k = 0 then r2 else r1"]) simp
qed

lemma rate_passes_from:
  assumes "counter_laws R V" and "1 \<le> limit"
  shows "i < length qs \<Longrightarrow> rate_passes R limit qs r ! i \<longleftrightarrow>
    V r (key_of (qs ! i)) + int (length (filter (\<lambda>p. key_of p = key_of (qs ! i)) (take i qs))) < limit"
proof (induction qs arbitrary: r i)
  case (Cons p qs)
  obtain now q where p: "p = (now, q)" by force
  obtain r1 where r1: "rate_pass R limit now q r = (V r (key_of p) < limit, r1)" "V r1 = (V r)(key_of p := V r (key_of p) + 1)"
    using rate_pass_counts [OF assms, of now q r] p by auto
  show ?case
  proof (cases i)
    case (Suc j)
    then show ?thesis using Cons.IH [of j r1] Cons.prems r1 by (auto simp: p)
  qed (simp add: p r1 [unfolded p])
qed simp

text \<open>
The rate limit is exact per key and minute: with a counter that starts empty, a request is let
  through exactly when fewer than the limit with the same caller were counted in its minute before.
\<close>

theorem rate_limit_exact:
  assumes "counter_laws R V" and "1 \<le> limit" and "\<forall>k. V r k = 0" and "i < length qs"
  shows "rate_passes R limit qs r ! i \<longleftrightarrow>
    int (length (filter (\<lambda>p. rate_key (rate_ident (snd p)) (fst p) = rate_key (rate_ident (snd (qs ! i))) (fst (qs ! i))) (take i qs))) < limit"
  using rate_passes_from [OF assms(1,2,4), of r] assms(3) by (simp add: key_of_def)

text \<open>The caller is whatever the unchecked \<open>X-API-Key\<close> header says: who changes it is never limited.\<close>

lemma changing_callers_pass:
  assumes "counter_laws R V" and "1 \<le> limit" and "\<forall>k. V r k = 0" and "distinct (map key_of qs)" and "i < length qs"
  shows "rate_passes R limit qs r ! i"
proof -
  have "key_of p \<noteq> key_of (qs ! i)" if p: "p \<in> set (take i qs)" for p
  proof -
    from p obtain j where "j < i" "p = qs ! j" using assms(5) by (auto simp: in_set_conv_nth)
    then show ?thesis using assms(4,5) nth_eq_iff_index_eq [OF assms(4), of j i] by simp
  qed
  then have "filter (\<lambda>p. key_of p = key_of (qs ! i)) (take i qs) = []" by (simp add: filter_empty_conv)
  then show ?thesis using rate_passes_from [OF assms(1,2,5), of r] assms(2,3) by simp
qed

section \<open>The stack\<close>

text \<open>The application behind the key check, with its request identifier.\<close>

definition request_rid :: "string \<Rightarrow> http_request \<Rightarrow> string" where
  "request_rid fresh_id q =
     (if truthy_str (header_of q ''X-Request-ID'') then or_str (header_of q ''X-Request-ID'') [] else fresh_id)"

lemma identified_app:
  assumes "app (q\<lparr>hq_request_id := Some (request_rid fresh_id q)\<rparr>) s = (a, s')"
  shows "request_id_middleware fresh_id app q s =
    (a\<lparr>hp_headers := dict_set ''x-request-id'' (request_rid fresh_id q) (hp_headers a)\<rparr>, s')"
proof -
  have "py_lower ''X-Request-ID'' = ''x-request-id''" by code_simp
  then show ?thesis using assms by (simp add: request_id_middleware_def request_rid_def Let_def)
qed

lemma header_of_body [simp]: "header_of (q\<lparr>hq_body := b\<rparr>) = header_of q"
  by (simp add: header_of_def fun_eq_iff)

lemma rate_ident_body [simp]: "rate_ident (q\<lparr>hq_body := b\<rparr>) = rate_ident q"
  by (simp add: rate_ident_def)

lemma request_rid_body [simp]: "request_rid fresh_id (q\<lparr>hq_body := b\<rparr>) = request_rid fresh_id q"
  by (simp add: request_rid_def)

text \<open>The three middlewares behind the body limit.\<close>

definition inner_stack :: "settings \<Rightarrow> 'r counter_api \<Rightarrow> string \<Rightarrow> real \<Rightarrow> 's app \<Rightarrow> ('r \<times> 's) app" where
  "inner_stack S R fresh_id now app =
     rate_limit_middleware R (st_rate_limit_per_minute S) now
       (let inner = request_id_middleware fresh_id app in
        if truthy_str (st_api_key S) then api_key_middleware (st_api_key S) inner else inner)"

definition stack_refuses_key :: "settings \<Rightarrow> http_request \<Rightarrow> bool" where
  "stack_refuses_key S q = (truthy_str (st_api_key S) \<and> header_of q ''X-API-Key'' \<noteq> st_api_key S)"

lemma keyed_result:
  assumes "app (q\<lparr>hq_request_id := Some (request_rid fresh_id q)\<rparr>) s = (a, s')"
  shows "(if truthy_str (st_api_key S) then api_key_middleware (st_api_key S) (request_id_middleware fresh_id app)
      else request_id_middleware fresh_id app) q s =
    (if stack_refuses_key S q then (refusal 401 ''unauthorized'' (Some ''Missing or invalid API key.''), s)
     else (a\<lparr>hp_headers := dict_set ''x-request-id'' (request_rid fresh_id q) (hp_headers a)\<rparr>, s'))"
proof -
  have "truthy_str k \<Longrightarrow> (case h of None \<Rightarrow> [] | Some x \<Rightarrow> x) = or_str k [] \<longleftrightarrow> h = k" for k h
    by (auto simp: truthy_str_def or_str_def split: option.splits if_splits)
  then show ?thesis
    using identified_app [where app = app, OF assms] by (auto simp: api_key_middleware_def stack_refuses_key_def)
qed

lemma rate_pass_result:
  assumes "counter_laws R V" and "0 \<le> limit"
  obtains r1 where "rate_pass R limit now q r =
      (\<not> (1 \<le> limit \<and> limit \<le> V r (rate_key (rate_ident q) now)), r1)"
    and "V r1 = (if 1 \<le> limit then (V r)(rate_key (rate_ident q) now := V r (rate_key (rate_ident q) now) + 1) else V r)"
proof (cases "1 \<le> limit")
  case True
  from rate_pass_counts [OF assms(1) True, of now q r] show ?thesis
    using True that by (auto simp: key_of_def not_le)
next
  case False
  then have "rate_pass R limit now q r = (True, r)" using assms(2) by (simp add: rate_pass_def)
  then show ?thesis using False that by simp
qed

definition stack_answer :: "settings \<Rightarrow> ('r \<Rightarrow> string \<Rightarrow> int) \<Rightarrow> string \<Rightarrow> real \<Rightarrow> 's app \<Rightarrow> http_request \<Rightarrow> bytes list \<Rightarrow> 'r \<Rightarrow> 's
    \<Rightarrow> http_response \<Rightarrow> 'r \<Rightarrow> 's \<Rightarrow> bool" where
  "stack_answer S V fresh_id now app q b r s resp r' s' =
     (let limit = st_rate_limit_per_minute S; k = rate_key (rate_ident q) now in
      V r' = (if 1 \<le> limit then (V r)(k := V r k + 1) else V r) \<and>
      (if 1 \<le> limit \<and> limit \<le> V r k then resp = refusal 429 ''rate_limited'' (Some ''Too many requests. Slow down.'') \<and> s' = s
       else if truthy_str (st_api_key S) \<and> header_of q ''X-API-Key'' \<noteq> st_api_key S
       then resp = refusal 401 ''unauthorized'' (Some ''Missing or invalid API key.'') \<and> s' = s
       else (\<exists>a. app (q\<lparr>hq_body := b, hq_request_id := Some (request_rid fresh_id q)\<rparr>) s = (a, s') \<and>
         resp = a\<lparr>hp_headers := dict_set ''x-request-id'' (request_rid fresh_id q) (hp_headers a)\<rparr>)))"

lemma inner_stack_answer:
  assumes L: "counter_laws R V" and lim: "0 \<le> st_rate_limit_per_minute S"
    and d: "inner_stack S R fresh_id now app (q\<lparr>hq_body := b\<rparr>) (r, s) = (resp, r', s')"
  shows "stack_answer S V fresh_id now app q b r s resp r' s'"
proof -
  let ?q = "q\<lparr>hq_body := b\<rparr>"
  obtain r1 where p: "rate_pass R (st_rate_limit_per_minute S) now ?q r =
      (\<not> (1 \<le> st_rate_limit_per_minute S \<and> st_rate_limit_per_minute S \<le> V r (rate_key (rate_ident q) now)), r1)"
    and v: "V r1 = (if 1 \<le> st_rate_limit_per_minute S
      then (V r)(rate_key (rate_ident q) now := V r (rate_key (rate_ident q) now) + 1) else V r)"
    using rate_pass_result [OF L lim, of now ?q r] by (metis rate_ident_body)
  obtain a s1 where a: "app (?q\<lparr>hq_request_id := Some (request_rid fresh_id ?q)\<rparr>) s = (a, s1)" by force
  show ?thesis
    using d v a unfolding inner_stack_def rate_limit_middleware_def Let_def fst_conv snd_conv p keyed_result [where app = app, OF a]
    by (auto simp: stack_answer_def stack_refuses_key_def Let_def split: if_splits)
qed

text \<open>
  C32. What the default stack does with a request, exactly, when the counters of the rate limit answer.
  A declared length that is no number is refused with 400, and one above the limit with 413, as is a
  longer body, unless a length within the limit is declared and the type is one that is passed on
  unread. Only then the caller's counter of the minute goes up, and the request is refused with 429
  when it had reached the limit already; else with 401 when an API key is configured and the request
  carries another or none. Every other request reaches the application with the bytes of its body
  and the identifier of its header, or the fresh one, and this identifier is added to the answer, but
  to no refusal.
\<close>

theorem default_stack_guards:
  assumes "settings_valid S" and "counter_laws R V"
    and "default_stack S R fresh_id now app q (r, s) = (resp, r', s')"
  defines "declared \<equiv> header_of q ''content-length''" and "limit \<equiv> st_rate_limit_per_minute S"
    and "k \<equiv> rate_key (rate_ident q) now"
    and "rid \<equiv> (if truthy_str (header_of q ''X-Request-ID'') then or_str (header_of q ''X-Request-ID'') [] else fresh_id)"
  shows "if truthy_str declared \<and> py_int_of_str (or_str declared []) = None
    then resp = refusal 400 ''invalid_content_length'' None \<and> r' = r \<and> s' = s
    else if (if truthy_str declared then st_max_request_bytes S < the (py_int_of_str (or_str declared [])) else False) \<or>
      (if truthy_str declared \<and> content_type_of q \<in> {''application/json'', ''application/x-www-form-urlencoded'', ''text/plain''}
       then False else st_max_request_bytes S < int (length (concat (hq_body q))))
    then resp = refusal 413 ''too_large'' None \<and> r' = r \<and> s' = s
    else V r' = (if 1 \<le> limit then (V r)(k := V r k + 1) else V r) \<and>
     (if 1 \<le> limit \<and> limit \<le> V r k then resp = refusal 429 ''rate_limited'' (Some ''Too many requests. Slow down.'') \<and> s' = s
      else if truthy_str (st_api_key S) \<and> header_of q ''X-API-Key'' \<noteq> st_api_key S
      then resp = refusal 401 ''unauthorized'' (Some ''Missing or invalid API key.'') \<and> s' = s
      else (\<exists>b a. concat b = concat (hq_body q) \<and> app (q\<lparr>hq_body := b, hq_request_id := Some rid\<rparr>) s = (a, s') \<and>
        resp = a\<lparr>hp_headers := dict_set ''x-request-id'' rid (hp_headers a)\<rparr>))"
proof -
  have m: "0 \<le> st_max_request_bytes S" "0 \<le> st_rate_limit_per_minute S" using assms(1) by (simp_all add: settings_valid_def)
  have u: "content_type_of q \<in> {''application/json'', ''application/x-www-form-urlencoded'', ''text/plain''} \<longleftrightarrow> unread_type q"
    by (simp add: unread_type_def)
  have rid: "rid = request_rid fresh_id q" by (simp add: rid_def request_rid_def)
  have d: "max_request_size_middleware (st_max_request_bytes S) (inner_stack S R fresh_id now app) q (r, s) = (resp, r', s')"
    using assms(3) by (simp add: default_stack_def inner_stack_def Let_def)
  note e = d [unfolded body_limit_eq [OF m(1)] Let_def, folded declared_def]
  have through: "V r' = (if 1 \<le> limit then (V r)(k := V r k + 1) else V r) \<and>
     (if 1 \<le> limit \<and> limit \<le> V r k then resp = refusal 429 ''rate_limited'' (Some ''Too many requests. Slow down.'') \<and> s' = s
      else if truthy_str (st_api_key S) \<and> header_of q ''X-API-Key'' \<noteq> st_api_key S
      then resp = refusal 401 ''unauthorized'' (Some ''Missing or invalid API key.'') \<and> s' = s
      else (\<exists>b a. concat b = concat (hq_body q) \<and> app (q\<lparr>hq_body := b, hq_request_id := Some rid\<rparr>) s = (a, s') \<and>
        resp = a\<lparr>hp_headers := dict_set ''x-request-id'' rid (hp_headers a)\<rparr>))"
    if "inner_stack S R fresh_id now app (q\<lparr>hq_body := b\<rparr>) (r, s) = (resp, r', s')" "concat b = concat (hq_body q)" for b
    using inner_stack_answer [OF assms(2) m(2) that(1)] that(2)
    unfolding stack_answer_def Let_def limit_def k_def rid by auto
  show ?thesis
  proof (cases "truthy_str declared \<and> py_int_of_str (or_str declared []) = None")
    case True
    then show ?thesis using e by simp
  next
    case ok: False
    show ?thesis
    proof (cases "truthy_str declared \<and> st_max_request_bytes S < the (py_int_of_str (or_str declared []))")
      case True
      then have "(refusal 413 ''too_large'' None, r, s) = (resp, r', s')" using e unfolding if_not_P [OF ok] by simp
      then show ?thesis using ok True by auto
    next
      case fits: False
      show ?thesis
      proof (cases "truthy_str declared \<and> unread_type q")
        case True
        then have "inner_stack S R fresh_id now app (q\<lparr>hq_body := hq_body q\<rparr>) (r, s) = (resp, r', s')"
          using e unfolding if_not_P [OF ok] if_not_P [OF fits] if_P [OF True] by simp
        from through [OF this refl] show ?thesis unfolding u using True ok fits by auto
      next
        case streamed: False
        show ?thesis
        proof (cases "st_max_request_bytes S < int (length (concat (hq_body q)))")
          case True
          then have "(refusal 413 ''too_large'' None, r, s) = (resp, r', s')" using e unfolding if_not_P [OF ok] if_not_P [OF fits] if_not_P [OF streamed] by simp
          then show ?thesis unfolding u using True ok fits streamed by auto
        next
          case False
          then have "inner_stack S R fresh_id now app (q\<lparr>hq_body := replay 65535 (concat (hq_body q))\<rparr>) (r, s) = (resp, r', s')"
            using e unfolding if_not_P [OF ok] if_not_P [OF fits] if_not_P [OF streamed] by simp
          from through [OF this concat_replay] show ?thesis unfolding u using False ok fits by auto
        qed
      qed
    qed
  qed
qed

section \<open>A stack at work\<close>

definition demo_counter :: "(string \<Rightarrow> int) counter_api" where
  "demo_counter = \<lparr>ca_incr = (\<lambda>k r. (Some (r k + 1), r(k := r k + 1))), ca_expire = (\<lambda>k n r. (True, r))\<rparr>"

definition demo_http :: http_request where
  "demo_http = \<lparr>hq_headers = [(''x-api-key'', ''k'')], hq_client = Some ''h'', hq_body = [[1, 2], [3]], hq_request_id = None\<rparr>"

definition demo_app :: "nat app" where
  "demo_app q s = (\<lparr>hp_status = 200, hp_headers = [], hp_body = ''ok''\<rparr>, s + length (concat (hq_body q)))"

lemma demo_counter_laws: "counter_laws demo_counter (\<lambda>r. r)"
  by (simp add: counter_laws_def demo_counter_def)

theorem body_limit_exact_witness: "max_request_size_middleware 2 demo_app demo_http 0 = (refusal 413 ''too_large'' None, 0)"
proof -
  have "header_of demo_http ''content-length'' = None" by (simp add: header_of_def demo_http_def py_lower_def lower_char_def)
  then show ?thesis using body_limit_exact [of 2 demo_app demo_http 0] by (simp add: truthy_str_def demo_http_def)
qed

theorem rate_limit_exact_witness:
  "\<not> rate_passes demo_counter 1 [(5, demo_http), (7, demo_http)] (\<lambda>k. 0) ! 1"
  using rate_limit_exact [OF demo_counter_laws, of 1 "\<lambda>k. 0" 1 "[(5, demo_http), (7, demo_http)]"]
  by (simp add: rate_key_def)

theorem default_stack_guards_witness:
  "snd (snd (default_stack (default_settings\<lparr>st_api_key := Some ''x''\<rparr>) demo_counter ''i'' 5 demo_app demo_http (\<lambda>k. 0, 0))) = 0 \<and>
   hp_status (fst (default_stack (default_settings\<lparr>st_api_key := Some ''x''\<rparr>) demo_counter ''i'' 5 demo_app demo_http (\<lambda>k. 0, 0))) = 401"
proof -
  let ?S = "default_settings\<lparr>st_api_key := Some ''x''\<rparr>"
  have v: "settings_valid ?S" using default_settings_valid by (simp add: settings_valid_def)
  obtain resp r' s' where d: "default_stack ?S demo_counter ''i'' 5 demo_app demo_http (\<lambda>k. 0, 0) = (resp, r', s')" by (rule prod_cases3)
  have h: "header_of demo_http ''X-API-Key'' = Some ''k''" "header_of demo_http ''content-length'' = None"
    by (simp add: header_of_def demo_http_def, code_simp) (simp add: header_of_def demo_http_def py_lower_def lower_char_def)
  have S: "st_max_request_bytes ?S = 1000000" "st_rate_limit_per_minute ?S = 120" by (simp_all add: default_settings_def)
  have b: "length (concat (hq_body demo_http)) = 3" by (simp add: demo_http_def)
  show ?thesis
    using default_stack_guards [OF v demo_counter_laws d] unfolding d h S b
    by (simp add: truthy_str_def refusal_def json_response_def)
qed

end
