(* ===== verification/Metrics_Exporter.thy ===== *)
theory Metrics_Exporter
  imports Worker
begin

text \<open>
  The metrics exporter and its guard (\<open>metrics.py\<close>). A Prometheus gauge with labels is a dictionary
  from label to value, a counter the sum of its increments. One collection reads the health of the
  budget tracker, the statistics of the queue, which may raise, and the health of the providers. The
  guard restarts an exporter whose thread has ended; the threads and the HTTP server are what its
  environment answers.
\<close>

section \<open>The exporter\<close>

record queue_snapshot =
  qv_all :: int
  qv_queued :: int
  qv_running :: int
  qv_succeeded :: int
  qv_failed :: int
  qv_oldest_age :: "real option"
  qv_max_workers :: int
  qv_codes :: "(string, int) dict"
  qv_targets :: "(string, int) dict"

text \<open>The \<open>stats\<close> of the two queues behind the API.\<close>

definition shared_snapshot :: "run_queue_stats \<Rightarrow> queue_snapshot" where
  "shared_snapshot st =
     \<lparr>qv_all = rs_all st, qv_queued = rs_queued st, qv_running = rs_running st, qv_succeeded = rs_succeeded st,
      qv_failed = rs_failed st, qv_oldest_age = rs_oldest_age st, qv_max_workers = rs_workers st,
      qv_codes = rs_codes st, qv_targets = rs_targets st\<rparr>"

definition embedded_snapshot :: "queue_stats \<Rightarrow> queue_snapshot" where
  "embedded_snapshot st =
     \<lparr>qv_all = st_total st, qv_queued = st_queued st, qv_running = st_running st, qv_succeeded = st_succeeded st,
      qv_failed = st_failed st, qv_oldest_age = st_oldest_queued_age st, qv_max_workers = st_max_workers st,
      qv_codes = map (\<lambda>(c, n). (error_code_value c, n)) (st_failure_codes st), qv_targets = []\<rparr>"

record labelled_gauge =
  lg_values :: "(string, int) dict"
  lg_known :: "string list"

record exporter =
  mx_redis_connected :: "(string, real) dict"
  mx_session_keys :: "(string, real) dict"
  mx_churn :: "(string, real) dict"
  mx_previous_keys :: "real option"
  mx_queue :: "(int \<times> int \<times> int \<times> int \<times> int) option"
  mx_oldest_age :: real
  mx_max_workers :: int
  mx_codes :: labelled_gauge
  mx_targets :: labelled_gauge
  mx_provider_success :: labelled_gauge
  mx_provider_failure :: labelled_gauge
  mx_provider_simulated :: labelled_gauge
  mx_errors :: int

definition empty_gauge :: labelled_gauge where "empty_gauge = \<lparr>lg_values = [], lg_known = []\<rparr>"

definition exporter_init :: exporter where
  "exporter_init =
     \<lparr>mx_redis_connected = [], mx_session_keys = [], mx_churn = [], mx_previous_keys = None, mx_queue = None,
      mx_oldest_age = 0, mx_max_workers = 0, mx_codes = empty_gauge, mx_targets = empty_gauge,
      mx_provider_success = empty_gauge, mx_provider_failure = empty_gauge, mx_provider_simulated = empty_gauge, mx_errors = 0\<rparr>"

text \<open>
  The current labels are set, the labels seen before that are absent now go to zero, and all of them
  are remembered.
\<close>

definition refresh_gauge :: "(string, int) dict \<Rightarrow> labelled_gauge \<Rightarrow> labelled_gauge" where
  "refresh_gauge current g =
     (let shown = fold (\<lambda>(l, n). dict_set l n) current (lg_values g);
          gone = filter (\<lambda>l. l \<notin> set (dict_keys current)) (lg_known g) in
      \<lparr>lg_values = fold (\<lambda>l. dict_set l 0) gone shown,
       lg_known = lg_known g @ filter (\<lambda>l. l \<notin> set (lg_known g)) (remdups (dict_keys current))\<rparr>)"

definition collect_budget_metrics :: "budget_health \<Rightarrow> exporter \<Rightarrow> exporter" where
  "collect_budget_metrics h x =
     (let backend = bh_backend h;
          connected = (if backend = ''memory'' then 1 else if bh_redis_ok h = Some True then 1 else 0);
          keys = real_of_int (bh_session_keys h);
          x1 = x\<lparr>mx_redis_connected := dict_set backend connected (mx_redis_connected x),
                  mx_session_keys := dict_set backend keys (mx_session_keys x)\<rparr>;
          x2 = (case mx_previous_keys x of
                  None \<Rightarrow> x1
                | Some p \<Rightarrow>
                    if \<bar>keys - p\<bar> > 0 then x1\<lparr>mx_churn := dict_set backend (dict_get_or 0 (mx_churn x1) backend + \<bar>keys - p\<bar>) (mx_churn x1)\<rparr>
                    else x1) in
      x2\<lparr>mx_previous_keys := Some keys\<rparr>)"

definition collect_queue_metrics :: "queue_snapshot \<Rightarrow> exporter \<Rightarrow> exporter" where
  "collect_queue_metrics st x =
     x\<lparr>mx_queue := Some (qv_all st, qv_queued st, qv_running st, qv_succeeded st, qv_failed st),
       mx_oldest_age := (case qv_oldest_age st of None \<Rightarrow> 0 | Some a \<Rightarrow> a), mx_max_workers := qv_max_workers st,
       mx_codes := refresh_gauge (qv_codes st) (mx_codes x), mx_targets := refresh_gauge (qv_targets st) (mx_targets x)\<rparr>"

definition collect_provider_metrics :: "provider_health \<Rightarrow> exporter \<Rightarrow> exporter" where
  "collect_provider_metrics h x =
     (let pick = (\<lambda>f. map (\<lambda>(t, s). (t, f s)) (ph_targets h)) in
      x\<lparr>mx_provider_success := refresh_gauge (pick ts_success) (mx_provider_success x),
        mx_provider_failure := refresh_gauge (pick ts_failure) (mx_provider_failure x),
        mx_provider_simulated := refresh_gauge (pick ts_simulated) (mx_provider_simulated x)\<rparr>)"

text \<open>\<open>_collect_with_guard\<close>: what raises ends the collection, keeps what it has set and is counted.\<close>

definition collect_with_guard :: "budget_health py \<Rightarrow> queue_snapshot py \<Rightarrow> provider_health \<Rightarrow> exporter \<Rightarrow> exporter" where
  "collect_with_guard b q p x =
     (case b of
        Inl e \<Rightarrow> x\<lparr>mx_errors := mx_errors x + 1\<rparr>
      | Inr h \<Rightarrow>
          (let x1 = collect_budget_metrics h x in
           case q of
             Inl e \<Rightarrow> x1\<lparr>mx_errors := mx_errors x1 + 1\<rparr>
           | Inr st \<Rightarrow> collect_provider_metrics p (collect_queue_metrics st x1)))"

text \<open>
  \<open>start\<close>: \<open>alive\<close> tells whether its thread already runs, \<open>serve\<close> what the switch of the metrics server
  and the binding of its port give; the result is whether the thread runs afterwards.
\<close>

definition exporter_start :: "bool \<Rightarrow> bool \<Rightarrow> string option \<Rightarrow> bool \<Rightarrow> bool" where
  "exporter_start enabled alive server_enable bound =
     (if \<not> enabled then alive
      else if alive then True
      else if py_lower (case server_enable of None \<Rightarrow> ''false'' | Some v \<Rightarrow> v) \<in> set [''1'', ''true'', ''yes''] \<and> \<not> bound then False
      else True)"

section \<open>The guard\<close>

record guard =
  gd_backoff :: real
  gd_has_exporter :: bool
  gd_last_attempt :: real
  gd_restarts :: int

definition guard_init :: "int \<Rightarrow> bool \<Rightarrow> guard" where
  "guard_init restart_backoff_seconds has_exporter =
     \<lparr>gd_backoff = max 0 (of_int restart_backoff_seconds), gd_has_exporter = has_exporter, gd_last_attempt = 0, gd_restarts = 0\<rparr>"

text \<open>What building and starting an exporter gives: it raises, there is none, or one that runs or does not.\<close>

datatype build_outcome = Build_raises | Build_none | Build_started bool

text \<open>One check: whether an attempt is made, and the guard afterwards. \<open>alive\<close> is the current exporter's thread.\<close>

definition ensure_running :: "real \<Rightarrow> bool \<Rightarrow> build_outcome \<Rightarrow> guard \<Rightarrow> bool \<times> guard" where
  "ensure_running now alive built g =
     (if gd_has_exporter g \<and> alive then (False, g)
      else if now - gd_last_attempt g < gd_backoff g then (False, g)
      else (let g1 = g\<lparr>gd_last_attempt := now\<rparr> in
            (True, case built of Build_started True \<Rightarrow> g1\<lparr>gd_has_exporter := True, gd_restarts := gd_restarts g1 + 1\<rparr> | _ \<Rightarrow> g1)))"

text \<open>The times of the attempts over a sequence of checks.\<close>

fun attempts :: "(real \<times> bool \<times> build_outcome) list \<Rightarrow> guard \<Rightarrow> real list \<times> guard" where
  "attempts [] g = ([], g)"
| "attempts ((now, alive, built) # cs) g =
     (case ensure_running now alive built g of
        (tried, g1) \<Rightarrow> (case attempts cs g1 of (ts, g2) \<Rightarrow> (if tried then now # ts else ts, g2)))"

section \<open>Gauges show the current numbers\<close>

definition gauge_ok :: "labelled_gauge \<Rightarrow> bool" where
  "gauge_ok g = (set (dict_keys (lg_values g)) = set (lg_known g))"

lemma fold_set_get:
  "dict_get (fold (\<lambda>(l, n). dict_set l n) xs d) k = (case map_of (rev xs) k of None \<Rightarrow> dict_get d k | Some n \<Rightarrow> Some n)"
  by (induction xs arbitrary: d) (auto simp: get_set map_of_append map_add_def split: option.splits)

lemma fold_zero_get: "dict_get (fold (\<lambda>l. dict_set l (0 :: int)) ls d) k = (if k \<in> set ls then Some 0 else dict_get d k)"
  by (induction ls arbitrary: d) (auto simp: get_set)

lemma map_of_rev: "distinct (map fst xs) \<Longrightarrow> map_of (rev xs) k = map_of xs k"
proof -
  assume d: "distinct (map fst xs)"
  then have "map_of (rev xs) k = Some v \<longleftrightarrow> map_of xs k = Some v" for v
    by (simp add: map_of_eq_Some_iff rev_map [symmetric])
  then show ?thesis by (metis option.exhaust)
qed

lemma refresh_get:
  assumes "dict_wf current" and "gauge_ok g"
  shows "dict_get (lg_values (refresh_gauge current g)) l =
    (case dict_get current l of Some n \<Rightarrow> Some n | None \<Rightarrow> if l \<in> set (lg_known g) then Some 0 else None)"
proof -
  have r: "map_of (rev current) l = dict_get current l"
    using assms(1) by (simp add: dict_wf_def map_of_rev)
  have "dict_get current l = None \<longleftrightarrow> l \<notin> set (dict_keys current)" by (simp add: map_of_eq_None_iff)
  moreover have "dict_get (lg_values g) l = None" if "l \<notin> set (lg_known g)"
    using that assms(2) by (simp add: gauge_ok_def map_of_eq_None_iff)
  ultimately show ?thesis
    by (auto simp: refresh_gauge_def Let_def fold_zero_get fold_set_get r split: option.splits)
qed

lemma refresh_ok:
  assumes "dict_wf current" and "gauge_ok g"
  shows "gauge_ok (refresh_gauge current g)"
proof -
  have "l \<in> set (dict_keys (lg_values (refresh_gauge current g))) \<longleftrightarrow> l \<in> set (dict_keys current) \<union> set (lg_known g)" for l
  proof -
    have "l \<in> set (dict_keys (lg_values (refresh_gauge current g))) \<longleftrightarrow> dict_get (lg_values (refresh_gauge current g)) l \<noteq> None"
      by (simp add: map_of_eq_None_iff)
    also have "\<dots> \<longleftrightarrow> dict_get current l \<noteq> None \<or> l \<in> set (lg_known g)"
      by (auto simp: refresh_get [OF assms] split: option.splits)
    finally show ?thesis by (simp add: map_of_eq_None_iff)
  qed
  moreover have "set (lg_known (refresh_gauge current g)) = set (dict_keys current) \<union> set (lg_known g)"
    by (auto simp: refresh_gauge_def Let_def)
  ultimately show ?thesis by (auto simp: gauge_ok_def)
qed


text \<open>A sequence of collections, and the labels of a gauge's source that they have seen.\<close>

type_synonym collection = "budget_health py \<times> queue_snapshot py \<times> provider_health"

definition collect_all :: "collection list \<Rightarrow> exporter" where
  "collect_all cs = fold (\<lambda>(b, q, p). collect_with_guard b q p) cs exporter_init"

definition codes_seen :: "collection list \<Rightarrow> string set" where
  "codes_seen cs = {l. \<exists>h st p. (Inr h, Inr st, p) \<in> set cs \<and> l \<in> set (dict_keys (qv_codes st))}"

definition collections_wf :: "collection list \<Rightarrow> bool" where
  "collections_wf cs = (\<forall>(b, q, p) \<in> set cs. case q of Inl e \<Rightarrow> True | Inr st \<Rightarrow> dict_wf (qv_codes st))"

lemma collect_codes:
  "mx_codes (collect_with_guard b q p x) =
    (case (b, q) of (Inr h, Inr st) \<Rightarrow> refresh_gauge (qv_codes st) (mx_codes x) | _ \<Rightarrow> mx_codes x)"
  by (auto simp: collect_with_guard_def collect_budget_metrics_def collect_queue_metrics_def collect_provider_metrics_def Let_def
      split: sum.split option.split)

lemma refresh_known: "set (lg_known (refresh_gauge current g)) = set (dict_keys current) \<union> set (lg_known g)"
  by (auto simp: refresh_gauge_def Let_def)

lemma collect_all_snoc: "collect_all (cs @ [(b, q, p)]) = collect_with_guard b q p (collect_all cs)"
  by (simp add: collect_all_def)

lemma collect_all_codes:
  "collections_wf cs \<Longrightarrow> gauge_ok (mx_codes (collect_all cs)) \<and> set (lg_known (mx_codes (collect_all cs))) = codes_seen cs"
proof (induction cs rule: rev_induct)
  case Nil
  show ?case by (simp add: collect_all_def exporter_init_def empty_gauge_def gauge_ok_def codes_seen_def)
next
  case (snoc c cs)
  obtain b q p where c: "c = (b, q, p)" by (rule prod_cases3)
  have IH: "gauge_ok (mx_codes (collect_all cs))" "set (lg_known (mx_codes (collect_all cs))) = codes_seen cs"
    using snoc by (auto simp: collections_wf_def)
  show ?case
  proof (cases "\<exists>h st. b = Inr h \<and> q = Inr st")
    case True
    then obtain h st where bq: "b = Inr h" "q = Inr st" by blast
    have "dict_wf (qv_codes st)" using snoc.prems by (auto simp: c bq collections_wf_def)
    moreover have "codes_seen (cs @ [c]) = set (dict_keys (qv_codes st)) \<union> codes_seen cs"
      by (auto simp: codes_seen_def c bq)
    ultimately show ?thesis using IH refresh_ok refresh_known by (simp add: c bq collect_all_snoc collect_codes)
  next
    case False
    then have "codes_seen (cs @ [c]) = codes_seen cs" "mx_codes (collect_all (cs @ [c])) = mx_codes (collect_all cs)"
      by (auto simp: codes_seen_def c collect_all_snoc collect_codes split: sum.split)
    then show ?thesis using IH by simp
  qed
qed

text \<open>
  C33. The exported failure codes are current: after any sequence of collections, failed ones among
  them, a collection that succeeds shows for each code the number the queue reports now, zero for a
  code that an earlier collection has seen and the queue no longer reports, and no other code.
\<close>

theorem failure_gauges_current:
  assumes "collections_wf cs" and "dict_wf (qv_codes st)"
  shows "dict_get (lg_values (mx_codes (collect_all (cs @ [(Inr h, Inr st, p)])))) l =
    (case dict_get (qv_codes st) l of Some n \<Rightarrow> Some n | None \<Rightarrow> if l \<in> codes_seen cs then Some 0 else None)"
  using collect_all_codes [OF assms(1)] refresh_get [OF assms(2), of "mx_codes (collect_all cs)" l]
  by (simp add: collect_all_snoc collect_codes)

section \<open>The guard keeps its distance\<close>

lemma attempts_spaced:
  assumes "0 \<le> gd_backoff g" and "attempts cs g = (ts, g')"
  shows "sorted_wrt (\<lambda>s t. s + gd_backoff g \<le> t) ts \<and> (\<forall>t\<in>set ts. gd_last_attempt g + gd_backoff g \<le> t) \<and>
    gd_restarts g \<le> gd_restarts g' \<and> gd_restarts g' \<le> gd_restarts g + int (length ts) \<and> gd_backoff g' = gd_backoff g"
  using assms
proof (induction cs arbitrary: g ts)
  case (Cons c cs)
  obtain now alive built where c: "c = (now, alive, built)" by (rule prod_cases3)
  obtain tried g1 where e: "ensure_running now alive built g = (tried, g1)" by force
  obtain us where us: "attempts cs g1 = (us, g')" and ts: "ts = (if tried then now # us else us)"
    using Cons.prems(2) e by (auto simp: c split: prod.splits)
  have b: "gd_backoff g1 = gd_backoff g"
    using e by (auto simp: ensure_running_def Let_def split: if_splits build_outcome.splits bool.splits)
  have IH: "sorted_wrt (\<lambda>s t. s + gd_backoff g \<le> t) us \<and> (\<forall>t\<in>set us. gd_last_attempt g1 + gd_backoff g \<le> t) \<and>
    gd_restarts g1 \<le> gd_restarts g' \<and> gd_restarts g' \<le> gd_restarts g1 + int (length us) \<and> gd_backoff g' = gd_backoff g"
    using Cons.IH [OF _ us] Cons.prems(1) b by simp
  show ?case
  proof (cases tried)
    case True
    then have "gd_last_attempt g1 = now" "gd_last_attempt g + gd_backoff g \<le> now" "gd_restarts g \<le> gd_restarts g1"
      "gd_restarts g1 \<le> gd_restarts g + 1"
      using e by (auto simp: ensure_running_def Let_def split: if_splits build_outcome.splits bool.splits)
    then show ?thesis using IH True Cons.prems(1) by (auto simp: ts intro: order_trans)
  next
    case False
    then have "g1 = g" using e by (auto simp: ensure_running_def Let_def split: if_splits)
    then show ?thesis using IH False by (simp add: ts)
  qed
qed simp

text \<open>
The guard never tries to restart an exporter more often than its backoff allows: over any
  sequence of checks, whatever the exporters do, any two attempts are at least the backoff apart, and
  there are at most as many restarts as attempts. The first attempt waits for the backoff too, counted
  from the zero of the monotonic clock.
\<close>

theorem guard_attempts_spaced:
  "sorted_wrt (\<lambda>s t. s + max 0 (of_int backoff) \<le> t) (fst (attempts cs (guard_init backoff e))) \<and>
   list_all (\<lambda>t. max 0 (of_int backoff) \<le> t) (fst (attempts cs (guard_init backoff e))) \<and>
   gd_restarts (snd (attempts cs (guard_init backoff e))) \<le> int (length (fst (attempts cs (guard_init backoff e))))"
  using attempts_spaced [of "guard_init backoff e" cs "fst (attempts cs (guard_init backoff e))" "snd (attempts cs (guard_init backoff e))"]
  by (simp add: guard_init_def list_all_iff)

theorem failure_gauges_current_witness:
  "dict_get (lg_values (mx_codes (collect_all
     ([(Inr \<lparr>bh_backend = ''memory'', bh_redis_ok = None, bh_session_ttl_seconds = 60, bh_redis_last_error = None, bh_session_keys = 1\<rparr>,
        Inr \<lparr>qv_all = 1, qv_queued = 0, qv_running = 0, qv_succeeded = 0, qv_failed = 1, qv_oldest_age = None, qv_max_workers = 1,
          qv_codes = [(''TIMEOUT'', 1)], qv_targets = []\<rparr>, pm_health_summary provider_metrics_init)] @
      [(Inr \<lparr>bh_backend = ''memory'', bh_redis_ok = None, bh_session_ttl_seconds = 60, bh_redis_last_error = None, bh_session_keys = 1\<rparr>,
        Inr \<lparr>qv_all = 1, qv_queued = 0, qv_running = 0, qv_succeeded = 1, qv_failed = 0, qv_oldest_age = None, qv_max_workers = 1,
          qv_codes = [], qv_targets = []\<rparr>, pm_health_summary provider_metrics_init)])))) ''TIMEOUT'' = Some 0"
  by (subst failure_gauges_current) (auto simp: collections_wf_def dict_wf_def codes_seen_def)

end
