(* ===== verification/Grover_Circuits.thy ===== *)
theory Grover_Circuits
  imports Grover
begin

text \<open>
  The Grover circuits that the sources build: \<open>build_oracle\<close>, \<open>build_diffuser\<close> and
  \<open>build_grover_circuit\<close> of \<open>grover.py\<close>, \<open>build_grover_circuit\<close> of \<open>grover_utils.py\<close> and
  \<open>_build_grover_circuit\<close> of \<open>agents/grover.py\<close>, gate for gate.

  Qiskit is a parameter. \<open>circuit_api\<close> is the part of \<open>QuantumCircuit\<close> that the sources call: each
  method gives the circuit with the gate appended. What the gates do is \<open>circuit_laws\<close>: a function
  \<open>amp\<close> says how a circuit moves the amplitudes, and it does so as Qiskit documents the gates. A
  basis state is the set of the qubits that are 1; amplitudes are real, as the gates of the Grover
  circuits are. The rotations and the delay of the provider's other circuits have no law.

  The contract the circuits share is the locale \<open>amplifier\<close>: an iteration that flips the sign of the
  marked states and subtracts twice the mean. It gives the success probability after any number of
  iterations, and is interpreted on the circuits of \<open>grover.py\<close> and of \<open>agents/grover.py\<close>.
\<close>

section \<open>Circuits\<close>

record 'c circuit_api =
  qc_new :: "nat \<Rightarrow> nat \<Rightarrow> 'c"
  qc_h :: "nat \<Rightarrow> 'c \<Rightarrow> 'c"
  qc_x :: "nat \<Rightarrow> 'c \<Rightarrow> 'c"
  qc_z :: "nat \<Rightarrow> 'c \<Rightarrow> 'c"
  qc_rx :: "real \<Rightarrow> nat \<Rightarrow> 'c \<Rightarrow> 'c"
  qc_ry :: "real \<Rightarrow> nat \<Rightarrow> 'c \<Rightarrow> 'c"
  qc_delay :: "int \<Rightarrow> nat \<Rightarrow> 'c \<Rightarrow> 'c"
  qc_cx :: "nat \<Rightarrow> nat \<Rightarrow> 'c \<Rightarrow> 'c"
  qc_cz :: "nat \<Rightarrow> nat \<Rightarrow> 'c \<Rightarrow> 'c"
  qc_mcx :: "nat list \<Rightarrow> nat \<Rightarrow> 'c \<Rightarrow> 'c"
  qc_barrier :: "'c \<Rightarrow> 'c"
  qc_compose :: "'c \<Rightarrow> 'c \<Rightarrow> 'c"
  qc_measure :: "nat list \<Rightarrow> nat list \<Rightarrow> 'c \<Rightarrow> 'c"

text \<open>\<open>_require_qiskit\<close> of \<open>grover.py\<close>: which of the packages the interpreter finds.\<close>

definition require_qiskit :: "bool \<Rightarrow> bool \<Rightarrow> bool \<Rightarrow> unit py" where
  "require_qiskit has_qiskit has_aer require_aer =
     (if \<not> has_qiskit
      then Inl (ExnOther ''GroverDependencyError'' ''Qiskit is not installed. Install the 'qiskit' extra to run Grover utilities.'')
      else if require_aer \<and> \<not> has_aer
      then Inl (ExnOther ''GroverDependencyError'' ''qiskit-aer is required for Grover simulations. Install the 'qiskit' extra.'')
      else Inr ())"

text \<open>The loop \<open>for index, bit in enumerate(...): if bit == "0": x(index)\<close>.\<close>

definition flip_zeros :: "'c circuit_api \<Rightarrow> string \<Rightarrow> 'c \<Rightarrow> 'c" where
  "flip_zeros Q bits c = fold (\<lambda>(index, bit) c. if bit = CHR ''0'' then qc_x Q index c else c) (enumerate 0 bits) c"

text \<open>A gate on every qubit of a range.\<close>

definition on_qubits :: "(nat \<Rightarrow> 'c \<Rightarrow> 'c) \<Rightarrow> nat \<Rightarrow> 'c \<Rightarrow> 'c" where
  "on_qubits gate n c = fold gate [0..<n] c"

definition hmcxh :: "'c circuit_api \<Rightarrow> nat \<Rightarrow> 'c \<Rightarrow> 'c" where
  "hmcxh Q n c = qc_h Q (n - 1) (qc_mcx Q [0..<n - 1] (n - 1) (qc_h Q (n - 1) c))"

subsection \<open>grover.py\<close>

fun oracle_loop :: "'c circuit_api \<Rightarrow> nat \<Rightarrow> string list \<Rightarrow> 'c \<Rightarrow> 'c py" where
  "oracle_loop Q n [] c = Inr c"
| "oracle_loop Q n (bitstring # rest) c =
     (if length bitstring \<noteq> n \<or> \<not> set bitstring \<subseteq> {CHR ''0'', CHR ''1''}
      then Inl (ExnValue (''Marked string '' @ CHR 0x27 # bitstring @ CHR 0x27 # '' must be '' @ py_str_int (int n) @ '' bits of 0/1''))
      else oracle_loop Q n rest (flip_zeros Q (rev bitstring) (hmcxh Q n (flip_zeros Q (rev bitstring) c))))"

definition build_oracle :: "'c circuit_api \<Rightarrow> unit py \<Rightarrow> nat \<Rightarrow> string list \<Rightarrow> 'c py" where
  "build_oracle Q required num_qubits marked =
     py_bind required (\<lambda>_. if marked = [] then Inr (qc_new Q num_qubits 0) else oracle_loop Q num_qubits marked (qc_new Q num_qubits 0))"

definition build_diffuser :: "'c circuit_api \<Rightarrow> unit py \<Rightarrow> nat \<Rightarrow> 'c py" where
  "build_diffuser Q required n =
     py_bind required (\<lambda>_. Inr (on_qubits (\<lambda>q c. qc_h Q q (qc_x Q q c)) n
       (hmcxh Q n (on_qubits (\<lambda>q c. qc_x Q q (qc_h Q q c)) n (qc_new Q n 0)))))"

definition grover_iterations :: "grover_config \<Rightarrow> int" where
  "grover_iterations cfg =
     (case gc_iterations cfg of Some k \<Rightarrow> k | None \<Rightarrow> optimal_iterations (gc_n_qubits cfg) (int (length (gc_marked cfg))))"

definition build_grover_circuit :: "'c circuit_api \<Rightarrow> unit py \<Rightarrow> grover_config \<Rightarrow> 'c py" where
  "build_grover_circuit Q required cfg =
     py_bind required (\<lambda>_.
       let n = gc_n_qubits cfg; circuit = on_qubits (qc_h Q) n (qc_new Q n n) in
       py_bind (build_oracle Q required n (gc_marked cfg)) (\<lambda>oracle.
       py_bind (build_diffuser Q required n) (\<lambda>diffuser.
         Inr (qc_measure Q [0..<n] [0..<n]
           (((\<lambda>c. qc_compose Q (qc_compose Q c oracle) diffuser) ^^ nat (grover_iterations cfg)) circuit)))))"

subsection \<open>grover\_utils.py\<close>

text \<open>Marked strings of another length are skipped, and there is one diffusion after the oracles.\<close>

definition controlled_phase :: "'c circuit_api \<Rightarrow> nat \<Rightarrow> 'c \<Rightarrow> 'c" where
  "controlled_phase Q n c = (if n = 1 then qc_z Q 0 c else hmcxh Q n c)"

definition u_mark :: "'c circuit_api \<Rightarrow> nat \<Rightarrow> string \<Rightarrow> 'c \<Rightarrow> 'c" where
  "u_mark Q n state c =
     (if length state \<noteq> n then c
      else qc_barrier Q (flip_zeros Q state (controlled_phase Q n (flip_zeros Q state c))))"

definition u_diffusion :: "'c circuit_api \<Rightarrow> nat \<Rightarrow> 'c \<Rightarrow> 'c" where
  "u_diffusion Q n c =
     (let c1 = qc_h Q (n - 1) (on_qubits (qc_x Q) n (on_qubits (qc_h Q) n c));
          c2 = (if n > 1 then qc_mcx Q [0..<n - 1] (n - 1) c1 else qc_z Q 0 c1) in
      on_qubits (qc_h Q) n (on_qubits (qc_x Q) n (qc_h Q (n - 1) c2)))"

definition u_build_grover_circuit :: "'c circuit_api \<Rightarrow> unit py \<Rightarrow> grover_config \<Rightarrow> 'c py" where
  "u_build_grover_circuit Q required cfg =
     py_bind required (\<lambda>_.
       let n = gc_n_qubits cfg;
           start = qc_barrier Q (on_qubits (qc_h Q) n (qc_new Q n n));
           marked = fold (u_mark Q n) (gc_marked cfg) start in
       Inr (qc_measure Q [0..<n] [0..<n] (qc_barrier Q (u_diffusion Q n marked))))"

subsection \<open>agents/grover.py\<close>

text \<open>The controlled gate of the agent: \<open>z\<close>, \<open>cz\<close> or \<open>mcx\<close> by the number of qubits, between two \<open>h\<close>.\<close>

definition agent_phase :: "'c circuit_api \<Rightarrow> nat \<Rightarrow> 'c \<Rightarrow> 'c" where
  "agent_phase Q n c =
     (let c1 = qc_h Q (n - 1) c;
          c2 = (if n = 1 then qc_z Q 0 c1 else if n = 2 then qc_cz Q 0 1 c1 else qc_mcx Q [0..<n - 1] (n - 1) c1) in
      qc_h Q (n - 1) c2)"

definition apply_oracle :: "'c circuit_api \<Rightarrow> nat \<Rightarrow> string \<Rightarrow> 'c \<Rightarrow> 'c" where
  "apply_oracle Q n marked_state c = flip_zeros Q marked_state (agent_phase Q n (flip_zeros Q marked_state c))"

definition apply_diffusion :: "'c circuit_api \<Rightarrow> nat \<Rightarrow> 'c \<Rightarrow> 'c" where
  "apply_diffusion Q n c =
     on_qubits (qc_h Q) n (on_qubits (qc_x Q) n (agent_phase Q n (on_qubits (qc_x Q) n (on_qubits (qc_h Q) n c))))"

definition agent_grover_circuit :: "'c circuit_api \<Rightarrow> bool \<Rightarrow> nat \<Rightarrow> string \<Rightarrow> int \<Rightarrow> 'c py" where
  "agent_grover_circuit Q has_qiskit n marked_state iterations =
     (if \<not> has_qiskit
      then Inl (ExnOther ''AgentDependencyError'' ''Qiskit is not installed. Install it with `pip install -e backend[qiskit]`.'')
      else if length marked_state \<noteq> n \<or> \<not> set marked_state \<subseteq> {CHR ''0'', CHR ''1''}
      then Inl (ExnOther ''AgentConfigError''
        ''marked_state must be a bitstring with length == n_qubits (example: n_qubits=3, marked_state='101').'')
      else Inr (qc_measure Q [0..<n] [0..<n]
        (((\<lambda>c. apply_diffusion Q n (apply_oracle Q n marked_state c)) ^^ nat iterations) (on_qubits (qc_h Q) n (qc_new Q n n)))))"

subsection \<open>Running the circuits\<close>

text \<open>\<open>execute\<close> is Aer with the seed and the number of shots; \<open>world\<close> is its state.\<close>

definition run_grover :: "'c circuit_api \<Rightarrow> bool \<Rightarrow> bool \<Rightarrow> (int option \<Rightarrow> int \<Rightarrow> 'c \<Rightarrow> 'w \<Rightarrow> counts py \<times> 'w) \<Rightarrow> grover_config \<Rightarrow> 'w
    \<Rightarrow> counts py \<times> 'w" where
  "run_grover Q has_qiskit has_aer execute cfg world =
     (case require_qiskit has_qiskit has_aer True of
        Inl e \<Rightarrow> (Inl e, world)
      | Inr _ \<Rightarrow>
          (case build_grover_circuit Q (require_qiskit has_qiskit has_aer False) cfg of
             Inl e \<Rightarrow> (Inl e, world)
           | Inr circuit \<Rightarrow> execute (gc_seed_sim cfg) (gc_shots cfg) circuit world))"

text \<open>\<open>_require_qiskit\<close> of \<open>grover_utils.py\<close>.\<close>

definition u_require_qiskit :: "bool \<Rightarrow> bool \<Rightarrow> bool \<Rightarrow> bool \<Rightarrow> unit py" where
  "u_require_qiskit has_qiskit has_runtime has_aer use_runtime =
     (if \<not> has_qiskit
      then Inl (ExnOther ''ImportError''
        ''Qiskit is not installed. Install qiskit-aer or the 'backend[qiskit]' extra to run Grover experiments.'')
      else if use_runtime
      then (if \<not> has_runtime
        then Inl (ExnOther ''ImportError''
          ''qiskit-ibm-runtime is required for runtime execution. Install qiskit-ibm-runtime or disable runtime.'') else Inr ())
      else if \<not> has_aer
      then Inl (ExnOther ''ImportError''
        ''qiskit-aer is required for simulator execution. Install qiskit-aer or the 'backend[qiskit]' extra.'') else Inr ())"

text \<open>Without Qiskit the counts are drawn from the reference distribution.\<close>

definition u_run_grover :: "'c circuit_api \<Rightarrow> unit py \<Rightarrow> 'g rng_api \<Rightarrow> 'g \<Rightarrow> (int option \<Rightarrow> int \<Rightarrow> 'c \<Rightarrow> 'w \<Rightarrow> counts py \<times> 'w)
    \<Rightarrow> grover_config \<Rightarrow> 'w \<Rightarrow> counts py \<times> 'w" where
  "u_run_grover Q required R seeded execute cfg world =
     (case required of
        Inl e \<Rightarrow> (fallback_counts R seeded cfg, world)
      | Inr _ \<Rightarrow>
          (case u_build_grover_circuit Q required cfg of
             Inl e \<Rightarrow> (Inl e, world)
           | Inr circuit \<Rightarrow> execute (gc_seed_sim cfg) (gc_shots cfg) circuit world))"

subsection \<open>qiskit\_provider.py\<close>

definition build_circuit :: "'c circuit_api \<Rightarrow> unit py \<Rightarrow> experiment_preset \<Rightarrow> 'c py" where
  "build_circuit Q required preset =
     (let circuit = qc_new Q 2 2; measured = (\<lambda>c. Inr (qc_measure Q [0, 1] [0, 1] c)) in
      case preset of
        HEALTH \<Rightarrow> measured (qc_ry Q (15 / 100) 1 (qc_ry Q (35 / 100) 0 (qc_cx Q 0 1 (qc_h Q 0 circuit))))
      | LATENCY \<Rightarrow> measured (qc_h Q 1 (qc_delay Q 100 0 (qc_x Q 0 circuit)))
      | BACKEND_COMPARE \<Rightarrow> measured (qc_rx Q (2 / 10) 0 (qc_cz Q 0 1 (qc_h Q 1 (qc_h Q 0 circuit))))
      | GROVER_DEMO \<Rightarrow> u_build_grover_circuit Q required
          \<lparr>gc_n_qubits = 2, gc_marked = [''11''], gc_iterations = None, gc_shots = 1024, gc_seed_sim = None\<rparr>
      | _ \<Rightarrow> measured (qc_ry Q (2 / 10) 1 (qc_rx Q (1 / 10) 0 (qc_cx Q 0 1 (qc_h Q 0 circuit)))))"

section \<open>What the gates do\<close>

type_synonym amplitudes = "nat set \<Rightarrow> real"

definition toggle :: "nat \<Rightarrow> nat set \<Rightarrow> nat set" where
  "toggle q b = (if q \<in> b then b - {q} else insert q b)"

definition hadamard :: "nat \<Rightarrow> amplitudes \<Rightarrow> amplitudes" where
  "hadamard q f = (\<lambda>b. (f (b - {q}) + (if q \<in> b then - f (insert q b) else f (insert q b))) / sqrt 2)"

definition not_gate :: "nat \<Rightarrow> amplitudes \<Rightarrow> amplitudes" where
  "not_gate q f = (\<lambda>b. f (toggle q b))"

definition phase_if :: "nat set \<Rightarrow> amplitudes \<Rightarrow> amplitudes" where
  "phase_if qs f = (\<lambda>b. if qs \<subseteq> b then - f b else f b)"

definition not_if :: "nat set \<Rightarrow> nat \<Rightarrow> amplitudes \<Rightarrow> amplitudes" where
  "not_if cs t f = (\<lambda>b. if cs \<subseteq> b then f (toggle t b) else f b)"

text \<open>The documented gates; a circuit without gates moves nothing, measuring and barriers come after.\<close>

definition circuit_laws :: "'c circuit_api \<Rightarrow> ('c \<Rightarrow> amplitudes \<Rightarrow> amplitudes) \<Rightarrow> bool" where
  "circuit_laws Q amp \<longleftrightarrow>
     (\<forall>n m. amp (qc_new Q n m) = (\<lambda>f. f)) \<and>
     (\<forall>q c. amp (qc_h Q q c) = (\<lambda>f. hadamard q (amp c f))) \<and>
     (\<forall>q c. amp (qc_x Q q c) = (\<lambda>f. not_gate q (amp c f))) \<and>
     (\<forall>q c. amp (qc_z Q q c) = (\<lambda>f. phase_if {q} (amp c f))) \<and>
     (\<forall>q r c. q \<noteq> r \<longrightarrow> amp (qc_cz Q q r c) = (\<lambda>f. phase_if {q, r} (amp c f))) \<and>
     (\<forall>cs t c. cs \<noteq> [] \<and> distinct cs \<and> t \<notin> set cs \<longrightarrow> amp (qc_mcx Q cs t c) = (\<lambda>f. not_if (set cs) t (amp c f))) \<and>
     (\<forall>c. amp (qc_barrier Q c) = amp c) \<and>
     (\<forall>c d. amp (qc_compose Q c d) = (\<lambda>f. amp d (amp c f))) \<and>
     (\<forall>qs cs c. amp (qc_measure Q qs cs c) = amp c)"

lemma gates:
  assumes "circuit_laws Q amp"
  shows "amp (qc_new Q n m) f = f" "amp (qc_h Q q c) f = hadamard q (amp c f)" "amp (qc_x Q q c) f = not_gate q (amp c f)"
    "amp (qc_z Q q c) f = phase_if {q} (amp c f)" "q \<noteq> r \<Longrightarrow> amp (qc_cz Q q r c) f = phase_if {q, r} (amp c f)"
    "cs \<noteq> [] \<Longrightarrow> distinct cs \<Longrightarrow> t \<notin> set cs \<Longrightarrow> amp (qc_mcx Q cs t c) f = not_if (set cs) t (amp c f)"
    "amp (qc_barrier Q c) f = amp c f" "amp (qc_compose Q c d) f = amp d (amp c f)" "amp (qc_measure Q qs rs c) f = amp c f"
  using assms unfolding circuit_laws_def by metis+

text \<open>The state \<open>|0...0>\<close> and, for one bit per qubit from the lowest, the basis state of a text.\<close>

definition zero_state :: amplitudes where "zero_state b = (if b = {} then 1 else 0)"

definition ones :: "string \<Rightarrow> nat set" where "ones bits = {i. i < length bits \<and> bits ! i = CHR ''1''}"

lemma toggle_toggle [simp]: "toggle q (toggle q b) = b"
  by (auto simp: toggle_def)

lemma not_not [simp]: "not_gate q (not_gate q f) = f"
  by (simp add: not_gate_def)

lemma hadamard_hadamard [simp]: "hadamard q (hadamard q f) = f"
proof
  fix b
  have "sqrt 2 * sqrt 2 = (2 :: real)" by simp
  then show "hadamard q (hadamard q f) b = f b"
    by (cases "q \<in> b") (simp_all add: hadamard_def insert_absorb field_simps)
qed

text \<open>Gates on different qubits commute.\<close>

lemma minus_insert: "q \<noteq> r \<Longrightarrow> insert r b - {q} = insert r (b - {q})"
  by auto

lemma minus_minus: "b - {q} - {r} = b - {r} - {q}"
  by auto

lemma hadamard_hadamard_commute: "q \<noteq> r \<Longrightarrow> hadamard q (hadamard r f) = hadamard r (hadamard q f)"
  by (rule ext) (auto simp: hadamard_def minus_insert minus_minus [of _ q r] insert_commute [of q r] algebra_simps add_divide_distrib diff_divide_distrib)

lemma toggle_minus: "q \<noteq> r \<Longrightarrow> toggle q (b - {r}) = toggle q b - {r}" "q \<noteq> r \<Longrightarrow> toggle q (insert r b) = insert r (toggle q b)"
  by (auto simp: toggle_def)

lemma hadamard_not_commute: "q \<noteq> r \<Longrightarrow> hadamard q (not_gate r f) = not_gate r (hadamard q f)"
  by (rule ext) (simp add: hadamard_def not_gate_def toggle_minus, simp add: toggle_def)

lemma not_not_commute: "not_gate q (not_gate r f) = not_gate r (not_gate q f)"
  by (rule ext) (auto simp: not_gate_def toggle_def insert_commute intro!: arg_cong [where f = f])

text \<open>A controlled not between two Hadamard gates on its target flips the sign.\<close>

lemma hadamard_not_hadamard: "t \<notin> cs \<Longrightarrow> hadamard t (not_if cs t (hadamard t f)) = phase_if (insert t cs) f"
proof
  fix b
  assume t: "t \<notin> cs"
  have r: "sqrt 2 * sqrt 2 = (2 :: real)" by simp
  have c: "cs \<subseteq> b - {t} \<longleftrightarrow> cs \<subseteq> b" "cs \<subseteq> insert t b \<longleftrightarrow> cs \<subseteq> b" using t by auto
  show "hadamard t (not_if cs t (hadamard t f)) b = phase_if (insert t cs) f b"
    by (cases "t \<in> b"; cases "cs \<subseteq> b")
      (use r in \<open>simp_all add: hadamard_def not_if_def phase_if_def toggle_def c insert_absorb field_simps\<close>)
qed

section \<open>Gates on every qubit\<close>

lemma on_qubits_simps [simp]: "on_qubits g 0 c = c" "on_qubits g (Suc n) c = g n (on_qubits g n c)"
  by (simp_all add: on_qubits_def)

lemma on_qubits_commute:
  assumes "\<And>p q f. p \<noteq> q \<Longrightarrow> A p (B q f) = B q (A p f)" and "n \<le> m"
  shows "A m (on_qubits B n f) = on_qubits B n (A m f)"
  using assms(2) by (induction n) (simp_all add: assms(1))

lemma on_qubits_split:
  assumes "\<And>p q f. p \<noteq> q \<Longrightarrow> A p (B q f) = B q (A p f)"
  shows "on_qubits (\<lambda>q f. B q (A q f)) n f = on_qubits B n (on_qubits A n f)"
  by (induction n) (simp_all add: on_qubits_commute [where A = A and B = B, OF assms])

definition flip_sign :: "nat \<Rightarrow> nat set \<Rightarrow> amplitudes \<Rightarrow> amplitudes" where
  "flip_sign n m f = (\<lambda>b. if b \<inter> {..<n} = m then - f b else f b)"

abbreviation hadamards :: "nat \<Rightarrow> amplitudes \<Rightarrow> amplitudes" where "hadamards \<equiv> on_qubits hadamard"

text \<open>\<open>Hs\<close> undoes itself, and moves the mean to the state in which all qubits are 0.\<close>

lemma hadamards_hadamards: "hadamards n (hadamards n f) = f"
  by (induction n) (simp_all add: on_qubits_commute [where A = hadamard and B = hadamard, OF hadamard_hadamard_commute])

lemma hadamard_diff: "hadamard q (\<lambda>b. f b - 2 * g b) = (\<lambda>b. hadamard q f b - 2 * hadamard q g b)"
  by (rule ext) (simp add: hadamard_def algebra_simps add_divide_distrib diff_divide_distrib)

lemma hadamards_diff: "hadamards n (\<lambda>b. f b - 2 * g b) = (\<lambda>b. hadamards n f b - 2 * hadamards n g b)"
  by (induction n) (simp_all add: hadamard_diff)

lemma sum_Pow_Suc: "(\<Sum>c\<in>Pow {..<Suc n}. f c) = (\<Sum>c\<in>Pow {..<n}. f c) + (\<Sum>c\<in>Pow {..<n}. f (insert n c))" for f :: "nat set \<Rightarrow> real"
proof -
  have "inj_on (insert n) (Pow {..<n})" by (fastforce simp: inj_on_def)
  moreover have "Pow {..<n} \<inter> insert n ` Pow {..<n} = {}" by auto
  ultimately show ?thesis
    by (simp add: lessThan_Suc Pow_insert sum.union_disjoint sum.reindex)
qed

lemma hadamards_zero:
  assumes "b \<inter> {..<n} = {}"
  shows "hadamards n f b = (\<Sum>c\<in>Pow {..<n}. f (c \<union> b)) / sqrt 2 ^ n"
  using assms
proof (induction n arbitrary: b)
  case (Suc n)
  have b: "n \<notin> b" "b \<inter> {..<n} = {}" "insert n b \<inter> {..<n} = {}" using Suc.prems by auto
  have "hadamards (Suc n) f b = (hadamards n f b + hadamards n f (insert n b)) / sqrt 2"
    using b(1) by (simp add: hadamard_def)
  also have "\<dots> = ((\<Sum>c\<in>Pow {..<n}. f (c \<union> b)) + (\<Sum>c\<in>Pow {..<n}. f (insert n c \<union> b))) / sqrt 2 ^ Suc n"
    using Suc.IH [OF b(2)] Suc.IH [OF b(3)] by (simp add: add_divide_distrib mult.commute)
  finally show ?case by (simp only: sum_Pow_Suc)
qed simp

lemma hadamards_point:
  assumes "k \<le> n"
  shows "hadamards k (\<lambda>b. if b \<inter> {..<n} = {} then g b else 0) b =
    (if b \<inter> {k..<n} = {} then g (b - {..<n}) / sqrt 2 ^ k else 0)"
  using assms
proof (induction k arbitrary: b)
  case 0
  have "{0..<n} = {..<n}" by auto
  then show ?case by (auto simp: Diff_triv)
next
  case (Suc k)
  have s: "{k..<n} = insert k {Suc k..<n}" and m: "k < n" using Suc.prems by auto
  have b: "insert k b - {..<n} = b - {..<n}" "b - {k} - {..<n} = b - {..<n}" "(b - {k}) \<inter> {k..<n} = {} \<longleftrightarrow> b \<inter> {Suc k..<n} = {}"
    "insert k b \<inter> {k..<n} \<noteq> {}" using m by (auto simp: s)
  show ?case using Suc by (simp add: hadamard_def b)
qed

lemma hadamards_flip:
  "hadamards n (flip_sign n {} (hadamards n f)) b = f b - 2 * (\<Sum>c\<in>Pow {..<n}. f (c \<union> (b - {..<n}))) / 2 ^ n"
proof -
  have "flip_sign n {} g = (\<lambda>b. g b - 2 * (if b \<inter> {..<n} = {} then g b else 0))" for g
    by (auto simp: flip_sign_def)
  then have "hadamards n (flip_sign n {} (hadamards n f)) b = f b - 2 * (hadamards n f (b - {..<n}) / sqrt 2 ^ n)"
    by (simp only: hadamards_diff hadamards_hadamards hadamards_point [OF order_refl]) simp
  also have "hadamards n f (b - {..<n}) = (\<Sum>c\<in>Pow {..<n}. f (c \<union> (b - {..<n}))) / sqrt 2 ^ n"
    by (rule hadamards_zero) auto
  finally show ?thesis by (simp add: divide_divide_eq_left flip: power_mult_distrib)
qed

lemma hadamards_start: "hadamards n zero_state b = (if b \<subseteq> {..<n} then 1 / sqrt 2 ^ n else 0)"
proof -
  have z: "zero_state = (\<lambda>b. if b \<inter> {..<n} = {} then zero_state b else 0)" by (auto simp: zero_state_def)
  show ?thesis by (subst z) (auto simp: hadamards_point zero_state_def)
qed
(*END*)

section \<open>The contract of an iteration\<close>

text \<open>
  \<open>iteration\<close> flips the sign of the marked states and then subtracts twice the mean of all amplitudes;
  it is applied to the uniform state. \<open>ok\<close> collects what the circuit relies on.
\<close>

definition grover_angle :: "nat \<Rightarrow> nat set set \<Rightarrow> real" where
  "grover_angle n M = arcsin (sqrt (real (card M) / 2 ^ n))"

lemma sin_turn: "sin (s + t) = sin (s - t) + 2 * cos s * sin t" "cos (s + t) = 2 * cos s * cos t - cos (s - t)" for s t :: real
  by (simp_all add: sin_add sin_diff cos_add cos_diff)

lemma cos_turn: "r * cos t * cos a - r * sin t * sin a = r * cos (a + t)" for r :: real
  by (simp add: cos_add algebra_simps)

lemma root_over: "0 < N \<Longrightarrow> 2 * (s * (sqrt N * c)) / N = s * (2 * c / sqrt N)"
  by (simp add: field_simps)

lemma signed_sum: "m * - (s * (x / p)) + r * (s * (y / q)) = s * (r / q * y - m / p * x)" for m :: real
  by (simp add: algebra_simps)

locale amplifier =
  fixes ok :: bool and n :: nat and M :: "nat set set" and iteration :: "amplitudes \<Rightarrow> amplitudes"
  assumes marks: "ok \<Longrightarrow> M \<subseteq> Pow {..<n}"
    and iteration: "ok \<Longrightarrow> b \<subseteq> {..<n} \<Longrightarrow> iteration f b =
      (if b \<in> M then - f b else f b) - 2 * (\<Sum>c\<in>Pow {..<n}. if c \<in> M then - f c else f c) / 2 ^ n"
begin

lemma card_marks: "ok \<Longrightarrow> card M \<le> 2 ^ n" "ok \<Longrightarrow> finite M"
  using card_mono [OF _ marks] finite_subset [OF marks] by (simp_all add: card_Pow)

lemma angle:
  assumes ok
  shows "sin (grover_angle n M) = sqrt (real (card M)) / sqrt (2 ^ n)" "cos (grover_angle n M) = sqrt (2 ^ n - real (card M)) / sqrt (2 ^ n)"
proof -
  have c: "real (card M) / 2 ^ n \<le> 1" "0 \<le> real (card M) / 2 ^ n"
    using card_marks(1) [OF assms] of_nat_le_iff [of "card M" "2 ^ n", where 'a = real] by simp_all
  then have s: "- 1 \<le> sqrt (real (card M) / 2 ^ n)" "sqrt (real (card M) / 2 ^ n) \<le> 1"
    using real_sqrt_ge_zero [OF c(2)] real_sqrt_le_mono [OF c(1)] by (simp_all del: real_sqrt_ge_0_iff)
  show "sin (grover_angle n M) = sqrt (real (card M)) / sqrt (2 ^ n)"
    using sin_arcsin [OF s] by (simp add: grover_angle_def real_sqrt_divide)
  have "cos (grover_angle n M) = sqrt (1 - real (card M) / 2 ^ n)"
    using cos_arcsin [OF s] c(2) by (simp add: grover_angle_def)
  also have "1 - real (card M) / 2 ^ n = (2 ^ n - real (card M)) / 2 ^ n" by (simp add: field_simps)
  finally show "cos (grover_angle n M) = sqrt (2 ^ n - real (card M)) / sqrt (2 ^ n)" by (simp add: real_sqrt_divide)
qed

lemma sum_states:
  assumes ok
  shows "(\<Sum>c\<in>Pow {..<n}. if c \<in> M then u else v) = real (card M) * u + (2 ^ n - real (card M)) * v"
proof -
  have "(\<Sum>c\<in>Pow {..<n}. if c \<in> M then u else v) = (\<Sum>c\<in>Pow {..<n} \<inter> {c. c \<in> M}. u) + (\<Sum>c\<in>Pow {..<n} \<inter> - {c. c \<in> M}. v)"
    by (rule sum.If_cases) simp
  moreover have "Pow {..<n} \<inter> {c. c \<in> M} = M" "Pow {..<n} \<inter> - {c. c \<in> M} = Pow {..<n} - M"
    using marks [OF assms] by auto
  ultimately show ?thesis
    using card_marks [OF assms] by (simp add: card_Diff_subset [OF _ marks [OF assms]] card_Pow of_nat_diff)
qed

lemma nontrivial:
  assumes ok "b \<subseteq> {..<n}"
  shows "b \<in> M \<Longrightarrow> 0 < card M" "b \<notin> M \<Longrightarrow> real (card M) < 2 ^ n"
proof -
  show "b \<in> M \<Longrightarrow> 0 < card M" using card_marks(2) [OF assms(1)] by (auto simp: card_gt_0_iff)
  assume "b \<notin> M"
  then have "card M < card (Pow {..<n})"
    using assms(2) marks [OF assms(1)] by (intro psubset_card_mono) auto
  then show "real (card M) < 2 ^ n" by (simp add: card_Pow)
qed

text \<open>After \<open>k\<close> iterations the state has turned by \<open>k\<close> times twice the angle.\<close>

lemma turned:
  assumes ok "\<And>b. b \<subseteq> {..<n} \<Longrightarrow> start b = 1 / sqrt (2 ^ n)" "b \<subseteq> {..<n}"
  shows "(iteration ^^ k) start b = (- 1) ^ k *
    (if b \<in> M then sin ((2 * real k + 1) * grover_angle n M) / sqrt (real (card M)) else cos ((2 * real k + 1) * grover_angle n M) / sqrt (2 ^ n - real (card M)))"
  using assms(3)
proof (induction k arbitrary: b)
  case 0
  then show ?case using nontrivial [OF assms(1) 0] assms(2) [OF 0] angle [OF assms(1)] by (cases "b \<in> M") auto
next
  case (Suc k)
  let ?t = "grover_angle n M" and ?m = "real (card M)" and ?N = "2 ^ n :: real"
  let ?a = "(2 * real k + 1) * ?t"
  let ?u = "(- 1) ^ k * (sin ?a / sqrt ?m)" and ?v = "(- 1) ^ k * (cos ?a / sqrt (?N - ?m))"
  have pos: "0 < ?N" and m: "0 \<le> ?m" "0 \<le> ?N - ?m"
    using card_marks(1) [OF assms(1)] of_nat_le_iff [of "card M" "2 ^ n", where 'a = real] by simp_all
  have r: "?m / sqrt ?m = sqrt ?N * sin ?t" "(?N - ?m) / sqrt (?N - ?m) = sqrt ?N * cos ?t"
    using m by (simp_all add: angle [OF assms(1)] real_div_sqrt)
  have mean: "?m * - ?u + (?N - ?m) * ?v = (- 1) ^ k * (sqrt ?N * cos (?a + ?t))"
    unfolding signed_sum r cos_turn ..
  have g: "(iteration ^^ k) start c = (if c \<in> M then ?u else ?v)" if "c \<subseteq> {..<n}" for c
    using Suc.IH [OF that] by (cases "c \<in> M") (simp_all only: if_True if_False)
  have "(\<Sum>c\<in>Pow {..<n}. if c \<in> M then - (iteration ^^ k) start c else (iteration ^^ k) start c) = ?m * - ?u + (?N - ?m) * ?v"
    unfolding sum_states [OF assms(1), symmetric] by (rule sum.cong) (simp_all add: g)
  then have "(iteration ^^ Suc k) start b = (if b \<in> M then - ?u else ?v) - 2 * ((- 1) ^ k * (sqrt ?N * cos (?a + ?t))) / ?N"
    unfolding mean using iteration [OF assms(1) Suc.prems, of "(iteration ^^ k) start"] g [OF Suc.prems] by simp
  then have step: "(iteration ^^ Suc k) start b = (- 1) ^ k * ((if b \<in> M then - (sin ?a / sqrt ?m) else cos ?a / sqrt (?N - ?m)) - 2 * cos (?a + ?t) / sqrt ?N)"
    unfolding root_over [OF pos] by (simp add: right_diff_distrib)
  have trig: "sin (?a + 2 * ?t) = sin ?a + 2 * cos (?a + ?t) * sin ?t" "cos (?a + 2 * ?t) = 2 * cos (?a + ?t) * cos ?t - cos ?a"
    using sin_turn [of "?a + ?t" ?t] by (simp_all add: algebra_simps)
  have "b \<in> M \<Longrightarrow> sqrt ?m \<noteq> 0" "b \<notin> M \<Longrightarrow> sqrt (?N - ?m) \<noteq> 0"
    using nontrivial [OF assms(1) Suc.prems] by auto
  then have "(if b \<in> M then - (sin ?a / sqrt ?m) else cos ?a / sqrt (?N - ?m)) - 2 * cos (?a + ?t) / sqrt ?N =
    - (if b \<in> M then sin (?a + 2 * ?t) / sqrt ?m else cos (?a + 2 * ?t) / sqrt (?N - ?m))"
    by (simp add: trig angle [OF assms(1)] add_divide_distrib diff_divide_distrib)
  moreover have "?a + 2 * ?t = (2 * real (Suc k) + 1) * ?t" by (simp add: algebra_simps)
  ultimately show ?case using step by simp
qed

lemma success:
  assumes ok "\<And>b. b \<subseteq> {..<n} \<Longrightarrow> start b = 1 / sqrt (2 ^ n)"
  shows "(\<Sum>b\<in>M. ((iteration ^^ k) start b) ^ 2) = sin ((2 * real k + 1) * grover_angle n M) ^ 2"
proof (cases "card M = 0")
  case True
  then show ?thesis using card_marks(2) [OF assms(1)] by (simp add: grover_angle_def)
next
  case False
  have "((iteration ^^ k) start b) ^ 2 = sin ((2 * real k + 1) * grover_angle n M) ^ 2 / real (card M)" if "b \<in> M" for b
    using that turned [OF assms(1) assms(2), where b = b and k = k] marks [OF assms(1)] by (auto simp: power_mult_distrib power_divide simp flip: power_mult)
  then show ?thesis using False by simp
qed

end
(*END*)

section \<open>What the circuits do\<close>

lemma on_qubits_amp:
  assumes "\<And>q c. amp (g q c) f = h q (amp c f)"
  shows "amp (on_qubits g n c) f = on_qubits h n (amp c f)"
  by (induction n) (simp_all add: assms)

definition zeros :: "string \<Rightarrow> nat set" where "zeros bits = {i. i < length bits \<and> bits ! i = CHR ''0''}"

lemma flip_zeros_amp:
  assumes "circuit_laws Q amp"
  shows "amp (flip_zeros Q bits c) f b = amp c f (sym_diff b (zeros bits))"
proof -
  have "amp (fold (\<lambda>(index, bit) c. if bit = CHR ''0'' then qc_x Q index c else c) (enumerate k bits) c) f b =
    amp c f (sym_diff b {i. k \<le> i \<and> i < k + length bits \<and> bits ! (i - k) = CHR ''0''})" for k
  proof (induction bits arbitrary: k c b)
    case Nil
    have e: "{i. k \<le> i \<and> i < k + length ([] :: string) \<and> [] ! (i - k) = CHR ''0''} = {}" by auto
    show ?case unfolding e by simp
  next
    case (Cons bit bits)
    let ?Z = "{i. Suc k \<le> i \<and> i < Suc k + length bits \<and> bits ! (i - Suc k) = CHR ''0''}"
    have Z: "{i. k \<le> i \<and> i < k + length (bit # bits) \<and> (bit # bits) ! (i - k) = CHR ''0''} = (if bit = CHR ''0'' then insert k ?Z else ?Z)"
      by (auto simp: nth_Cons' not_le le_less_Suc_eq less_Suc_eq_le Suc_le_eq split: if_splits)
    have "toggle k (sym_diff b ?Z) = sym_diff b (insert k ?Z)" by (auto simp: toggle_def)
    then show ?case unfolding Z using Cons.IH [of "Suc k"] by (simp add: gates [OF assms] not_gate_def)
  qed
  from this [of 0] show ?thesis by (simp add: flip_zeros_def zeros_def)
qed

lemma hmcxh_amp:
  assumes "circuit_laws Q amp" and "2 \<le> n"
  shows "amp (hmcxh Q n c) f = phase_if {..<n} (amp c f)"
proof -
  have "insert (n - 1) (set [0..<n - 1]) = {..<n}" using assms(2) by auto
  moreover have "[0..<n - 1] \<noteq> []" using assms(2) by simp
  ultimately show ?thesis
    by (simp add: hmcxh_def gates(2,6) [OF assms(1)] hadamard_not_hadamard)
qed

lemma ones_inject:
  assumes "ones s = ones t" "length s = length t" "set s \<subseteq> {CHR ''0'', CHR ''1''}" "set t \<subseteq> {CHR ''0'', CHR ''1''}"
  shows "s = t"
proof (rule nth_equalityI [OF assms(2)])
  fix i
  assume i: "i < length s"
  then have "s ! i \<in> {CHR ''0'', CHR ''1''}" "t ! i \<in> {CHR ''0'', CHR ''1''}"
    using assms(2) subsetD [OF assms(3)] subsetD [OF assms(4)] by (metis nth_mem)+
  moreover have "s ! i = CHR ''1'' \<longleftrightarrow> t ! i = CHR ''1''" using assms(1,2) i by (auto simp: ones_def set_eq_iff)
  ultimately show "s ! i = t ! i" by auto
qed

text \<open>Flipping the zeros, a phase on all ones, and flipping them back: a phase on the one state.\<close>

lemma phase_at:
  assumes "set bits \<subseteq> {CHR ''0'', CHR ''1''}"
  shows "(if {..<length bits} \<subseteq> sym_diff b (zeros bits) then - g (sym_diff (sym_diff b (zeros bits)) (zeros bits))
     else g (sym_diff (sym_diff b (zeros bits)) (zeros bits))) = flip_sign (length bits) (ones bits) g b"
proof -
  have "bits ! i = CHR ''0'' \<longleftrightarrow> bits ! i \<noteq> CHR ''1''" if "i < length bits" for i
    using that assms by (auto dest!: nth_mem)
  then have "{..<length bits} \<subseteq> sym_diff b (zeros bits) \<longleftrightarrow> b \<inter> {..<length bits} = ones bits"
    by (auto simp: zeros_def ones_def)
  moreover have "sym_diff (sym_diff b (zeros bits)) (zeros bits) = b" by auto
  ultimately show ?thesis by (simp add: flip_sign_def)
qed

lemma mark_amp:
  assumes "circuit_laws Q amp" and "\<And>c. amp (phase c) f = phase_if {..<n} (amp c f)"
    and "length bits = n" and "set bits \<subseteq> {CHR ''0'', CHR ''1''}"
  shows "amp (flip_zeros Q bits (phase (flip_zeros Q bits c))) f = flip_sign n (ones bits) (amp c f)"
proof
  fix b
  show "amp (flip_zeros Q bits (phase (flip_zeros Q bits c))) f b = flip_sign n (ones bits) (amp c f) b"
    using phase_at [OF assms(4), of b "amp c f"] assms(2,3) 
    by (simp add: flip_zeros_amp [OF assms(1)] phase_if_def cong: if_cong split del: if_split)
qed

lemma nots: "on_qubits not_gate n f b = f (sym_diff b {..<n})"
proof (induction n arbitrary: b)
  case (Suc n)
  have "sym_diff (toggle n b) {..<n} = sym_diff b {..<Suc n}" by (auto simp: toggle_def less_Suc_eq)
  then show ?case using Suc by (simp add: not_gate_def)
qed simp

lemma nots_phase: "on_qubits not_gate n (phase_if {..<n} (on_qubits not_gate n f)) = flip_sign n {} f"
proof
  fix b
  have "{..<n} \<subseteq> sym_diff b {..<n} \<longleftrightarrow> b \<inter> {..<n} = {}" "sym_diff (sym_diff b {..<n}) {..<n} = b" by auto
  then show "on_qubits not_gate n (phase_if {..<n} (on_qubits not_gate n f)) b = flip_sign n {} f b"
    by (simp add: nots phase_if_def flip_sign_def)
qed

text \<open>The diffusion, in the gate order of the two builders.\<close>

lemma diffusion_amp:
  assumes "circuit_laws Q amp" and "\<And>c. amp (phase c) f = phase_if {..<n} (amp c f)"
  shows "amp (on_qubits (qc_h Q) n (on_qubits (qc_x Q) n (phase (on_qubits (qc_x Q) n (on_qubits (qc_h Q) n c))))) f =
    hadamards n (flip_sign n {} (hadamards n (amp c f)))"
  using on_qubits_amp [where amp = amp and g = "qc_h Q" and h = hadamard and f = f] on_qubits_amp [where amp = amp and g = "qc_x Q" and h = not_gate and f = f]
  by (simp add: gates [OF assms(1)] assms(2) nots_phase)

lemma diffuser_amp:
  assumes "circuit_laws Q amp" and "2 \<le> n" and "build_diffuser Q (Inr ()) n = Inr d"
  shows "amp d f = hadamards n (flip_sign n {} (hadamards n f))"
proof -
  have d: "d = on_qubits (\<lambda>q c. qc_h Q q (qc_x Q q c)) n (hmcxh Q n (on_qubits (\<lambda>q c. qc_x Q q (qc_h Q q c)) n (qc_new Q n 0)))"
    using assms(3) by (simp add: build_diffuser_def)
  have "amp d f = on_qubits (\<lambda>q g. hadamard q (not_gate q g)) n (phase_if {..<n} (on_qubits (\<lambda>q g. not_gate q (hadamard q g)) n f))"
    unfolding d
    using on_qubits_amp [where amp = amp and g = "\<lambda>q c. qc_h Q q (qc_x Q q c)" and h = "\<lambda>q g. hadamard q (not_gate q g)" and f = f]
      on_qubits_amp [where amp = amp and g = "\<lambda>q c. qc_x Q q (qc_h Q q c)" and h = "\<lambda>q g. not_gate q (hadamard q g)" and f = f]
    by (simp add: gates [OF assms(1)] hmcxh_amp [OF assms(1,2)])
  also have "\<dots> = hadamards n (on_qubits not_gate n (phase_if {..<n} (on_qubits not_gate n (hadamards n f))))"
    by (simp add: on_qubits_split [where A = not_gate and B = hadamard, OF hadamard_not_commute [symmetric]]
        on_qubits_split [where A = hadamard and B = not_gate, OF hadamard_not_commute])
  finally show ?thesis by (simp add: nots_phase)
qed

definition bitstring :: "nat \<Rightarrow> string \<Rightarrow> bool" where
  "bitstring n s \<longleftrightarrow> length s = n \<and> set s \<subseteq> {CHR ''0'', CHR ''1''}"

lemma oracle_amp:
  assumes "circuit_laws Q amp" and "2 \<le> n" and "list_all (bitstring n) marked"
  shows "\<exists>d. oracle_loop Q n marked c = Inr d \<and> amp d f = fold (\<lambda>s. flip_sign n (ones (rev s))) marked (amp c f)"
  using assms(3)
proof (induction marked arbitrary: c)
  case (Cons s marked)
  have "amp (flip_zeros Q (rev s) (hmcxh Q n (flip_zeros Q (rev s) c))) f = flip_sign n (ones (rev s)) (amp c f)"
    by (rule mark_amp [OF assms(1) hmcxh_amp [OF assms(1,2)]]) (use Cons.prems in \<open>auto simp: bitstring_def\<close>)
  then show ?case
    using Cons.prems Cons.IH [of "flip_zeros Q (rev s) (hmcxh Q n (flip_zeros Q (rev s) c))"] by (simp add: bitstring_def)
qed simp

lemma flips:
  assumes "distinct ms"
  shows "fold (flip_sign n) ms f b = (if b \<inter> {..<n} \<in> set ms then - f b else f b)"
  using assms by (induction ms arbitrary: f) (auto simp: flip_sign_def)
(*END*)

section \<open>The circuits keep the contract\<close>

lemma ones_subset: "ones s \<subseteq> {..<length s}"
  by (auto simp: ones_def)

lemma iteration_step:
  assumes "distinct ms" and "b \<subseteq> {..<n}"
  shows "hadamards n (flip_sign n {} (hadamards n (fold (flip_sign n) ms f))) b =
    (if b \<in> set ms then - f b else f b) - 2 * (\<Sum>c\<in>Pow {..<n}. if c \<in> set ms then - f c else f c) / 2 ^ n"
proof -
  have b: "b \<inter> {..<n} = b" "b - {..<n} = {}" using assms(2) by auto
  have "(\<Sum>c\<in>Pow {..<n}. fold (flip_sign n) ms f (c \<union> (b - {..<n}))) = (\<Sum>c\<in>Pow {..<n}. if c \<in> set ms then - f c else f c)"
    by (rule sum.cong) (auto simp: b flips [OF assms(1)] Int_absorb2)
  then show ?thesis by (simp add: hadamards_flip flips [OF assms(1)] b)
qed

lemma marks_distinct:
  assumes "distinct marked" and "list_all (bitstring n) marked"
  shows "distinct (map (\<lambda>s. ones (rev s)) marked)" "distinct (map ones marked)"
    "inj_on (\<lambda>s. ones (rev s)) (set marked)" "set (map (\<lambda>s. ones (rev s)) marked) \<subseteq> Pow {..<n}" "set (map ones marked) \<subseteq> Pow {..<n}"
proof -
  have b: "length s = n" "set s \<subseteq> {CHR ''0'', CHR ''1''}" if "s \<in> set marked" for s
    using that assms(2) by (auto simp: list_all_iff bitstring_def)
  show i: "inj_on (\<lambda>s. ones (rev s)) (set marked)"
  proof (rule inj_onI)
    fix s t
    assume e: "s \<in> set marked" "t \<in> set marked" "ones (rev s) = ones (rev t)"
    have "rev s = rev t" by (rule ones_inject [OF e(3)]) (simp_all only: length_rev set_rev b [OF e(1)] b [OF e(2)])
    then show "s = t" by simp
  qed
  have "inj_on ones (set marked)"
  proof (rule inj_onI)
    fix s t
    assume e: "s \<in> set marked" "t \<in> set marked" "ones s = ones t"
    show "s = t" by (rule ones_inject [OF e(3)]) (simp_all only: b [OF e(1)] b [OF e(2)])
  qed
  then show "distinct (map (\<lambda>s. ones (rev s)) marked)" "distinct (map ones marked)"
    using i assms(1) by (simp_all add: distinct_map)
  have "ones (rev s) \<subseteq> {..<n}" "ones s \<subseteq> {..<n}" if "s \<in> set marked" for s
    using b(1) [OF that] ones_subset [of "rev s"] ones_subset [of s] by simp_all
  then show "set (map (\<lambda>s. ones (rev s)) marked) \<subseteq> Pow {..<n}" "set (map ones marked) \<subseteq> Pow {..<n}" by auto
qed

lemma oracle_circuit:
  assumes "circuit_laws Q amp" and "2 \<le> n" and "list_all (bitstring n) marked"
  shows "\<exists>d. build_oracle Q (Inr ()) n marked = Inr d \<and> (\<forall>f. amp d f = fold (flip_sign n) (map (\<lambda>s. ones (rev s)) marked) f)"
proof -
  obtain d where d: "oracle_loop Q n marked (qc_new Q n 0) = Inr d" using oracle_amp [OF assms] by blast
  then have "amp d f = fold (flip_sign n) (map (\<lambda>s. ones (rev s)) marked) f" for f
    using oracle_amp [OF assms, of "qc_new Q n 0" f] by (simp add: fold_map comp_def gates [OF assms(1)])
  moreover have "build_oracle Q (Inr ()) n marked = Inr d" using d by (cases marked) (simp_all add: build_oracle_def)
  ultimately show ?thesis by blast
qed

interpretation grover_py: amplifier
  "circuit_laws Q amp \<and> 2 \<le> n \<and> distinct marked \<and> list_all (bitstring n) marked \<and>
     build_oracle Q (Inr ()) n marked = Inr orc \<and> build_diffuser Q (Inr ()) n = Inr diffuser"
  n "set (map (\<lambda>s. ones (rev s)) marked)" "\<lambda>f. amp diffuser (amp orc f)" for Q amp n marked orc diffuser
proof (unfold_locales, elim conjE)
  assume "distinct marked" "list_all (bitstring n) marked"
  then show "set (map (\<lambda>s. ones (rev s)) marked) \<subseteq> Pow {..<n}" by (rule marks_distinct(4))
next
  fix b f
  assume "circuit_laws Q amp \<and> 2 \<le> n \<and> distinct marked \<and> list_all (bitstring n) marked \<and>
     build_oracle Q (Inr ()) n marked = Inr orc \<and> build_diffuser Q (Inr ()) n = Inr diffuser" and b: "b \<subseteq> {..<n}"
  then have a: "circuit_laws Q amp" "2 \<le> n" "distinct marked" "list_all (bitstring n) marked"
    "build_oracle Q (Inr ()) n marked = Inr orc" "build_diffuser Q (Inr ()) n = Inr diffuser" by simp_all
  have "amp orc f = fold (flip_sign n) (map (\<lambda>s. ones (rev s)) marked) f"
    using oracle_circuit [OF a(1,2,4)] a(5) by auto
  then show "amp diffuser (amp orc f) b = (if b \<in> set (map (\<lambda>s. ones (rev s)) marked) then - f b else f b) -
      2 * (\<Sum>c\<in>Pow {..<n}. if c \<in> set (map (\<lambda>s. ones (rev s)) marked) then - f c else f c) / 2 ^ n"
    using iteration_step [OF marks_distinct(1) [OF a(3,4)] b] by (simp only: diffuser_amp [OF a(1,2,6)])
qed

text \<open>The agent appends its gates to one circuit; what an iteration does to the amplitudes so far:\<close>

definition agent_iteration :: "nat \<Rightarrow> string \<Rightarrow> amplitudes \<Rightarrow> amplitudes" where
  "agent_iteration n s f = hadamards n (flip_sign n {} (hadamards n (fold (flip_sign n) [ones s] f)))"

lemma agent_iteration_amp:
  assumes "circuit_laws Q amp" and "3 \<le> n" and "bitstring n s"
  shows "amp (apply_diffusion Q n (apply_oracle Q n s c)) f = agent_iteration n s (amp c f)"
proof -
  have p: "amp (agent_phase Q n c) f = phase_if {..<n} (amp c f)" for c
    using hmcxh_amp [OF assms(1), of n c f] assms(2) by (simp add: agent_phase_def hmcxh_def Let_def)
  show ?thesis
    using assms(3) unfolding apply_diffusion_def diffusion_amp [OF assms(1), where phase = "agent_phase Q n", OF p] apply_oracle_def agent_iteration_def
    by (simp add: mark_amp [OF assms(1), where phase = "agent_phase Q n", OF p] bitstring_def)
qed

interpretation agent_py: amplifier "bitstring n s" n "{ones s}" "agent_iteration n s" for n s
proof
  show "bitstring n s \<Longrightarrow> {ones s} \<subseteq> Pow {..<n}" using ones_subset [of s] by (simp add: bitstring_def)
  show "b \<subseteq> {..<n} \<Longrightarrow> agent_iteration n s f b = (if b \<in> {ones s} then - f b else f b) -
      2 * (\<Sum>c\<in>Pow {..<n}. if c \<in> {ones s} then - f c else f c) / 2 ^ n" for b f
    unfolding agent_iteration_def using iteration_step [of "[ones s]" b n f] by simp
qed

section \<open>Success probabilities\<close>

lemma circuit_power:
  assumes "\<And>c. amp (step c) f = iteration (amp c f)"
  shows "amp ((step ^^ k) c) f = (iteration ^^ k) (amp c f)"
  by (induction k) (simp_all add: assms)

lemma start_amp:
  assumes "circuit_laws Q amp"
  shows "amp (on_qubits (qc_h Q) n (qc_new Q n m)) zero_state = hadamards n zero_state"
  using on_qubits_amp [where amp = amp and g = "qc_h Q" and h = hadamard and f = zero_state] by (simp add: gates [OF assms])

lemma uniform: "b \<subseteq> {..<n} \<Longrightarrow> hadamards n zero_state b = 1 / sqrt (2 ^ n)"
  by (simp add: hadamards_start real_sqrt_power)
(*END*)

lemma arcsin_slack:
  assumes "0 < x" and "x \<le> 1 / 2"
  shows "x \<le> arcsin x" "arcsin x \<le> pi / 6" "arcsin x \<le> 7 / 6 * x"
proof -
  let ?t = "arcsin x"
  have s: "sin ?t = x" using assms by simp
  have p: "0 < ?t" using arcsin_less_arcsin [of 0 x] assms by simp
  show "x \<le> ?t" using sin_x_le_x [of ?t] s p by simp
  show q: "?t \<le> pi / 6"
    using arcsin_le_arcsin [of x "1 / 2"] assms arcsin_sin [of "pi / 6"] by (simp add: sin_30)
  have c: "\<bar>sin ?t - (\<Sum>m<3. sin_coeff m * ?t ^ m)\<bar> \<le> inverse (fact 3) * \<bar>?t\<bar> ^ 3"
    by (rule Maclaurin_sin_bound)
  have "(\<Sum>m<3. sin_coeff m * ?t ^ m) = ?t" by (simp add: numeral_3_eq_3 sin_coeff_def)
  then have "\<bar>x - ?t\<bar> \<le> ?t ^ 3 / 6" using c s p by (simp add: fact_numeral)
  moreover have "?t ^ 3 = ?t * ?t\<^sup>2" by (simp add: power2_eq_square power3_eq_cube)
  moreover have "?t\<^sup>2 \<le> (2 / 3)\<^sup>2" using q p pi_less_4 by (intro power_mono) simp_all
  then have "?t * ?t\<^sup>2 \<le> ?t * (6 / 7)" using p by (intro mult_left_mono) (simp_all add: power2_eq_square)
  ultimately show "?t \<le> 7 / 6 * x" using \<open>x \<le> ?t\<close> by (simp add: abs_if split: if_splits)
qed

lemma half_sine:
  assumes "pi / 4 \<le> t" and "t \<le> 3 * pi / 4"
  shows "1 / 2 \<le> sin t ^ 2"
proof -
  have "0 \<le> cos (2 * t - pi)" by (rule cos_ge_zero) (use assms in simp_all)
  then have "cos (2 * t) \<le> 0" by (simp add: cos_diff)
  then show ?thesis using cos_double_sin [of t] by simp
qed

text \<open>The default number of iterations turns the state close to the marked ones.\<close>

lemma default_iterations_turn:
  assumes "0 < m" and "4 * m \<le> 2 ^ n"
  shows "1 / 2 \<le> sin ((2 * real (nat (optimal_iterations n (int m))) + 1) * arcsin (sqrt (real m / 2 ^ n))) ^ 2"
proof -
  let ?x = "sqrt (real m / 2 ^ n)" and ?k = "\<lfloor>(pi / 4) * sqrt (2 ^ n / real m)\<rfloor>"
  have le: "4 * real m \<le> 2 ^ n" using assms(2) of_nat_le_iff [of "4 * m" "2 ^ n", where 'a = real] by simp
  then have "real m / 2 ^ n \<le> (1 / 2)\<^sup>2" by (simp add: power2_eq_square field_simps)
  then have x: "0 < ?x" "?x \<le> 1 / 2" using assms(1) by (simp, intro real_le_lsqrt) simp_all
  have r: "sqrt (2 ^ n / real m) = 1 / ?x" by (simp add: real_sqrt_divide)
  note t = arcsin_slack [OF x]
  have p: "0 \<le> arcsin ?x" using t(1) x(1) by linarith
  have over: "1 \<le> arcsin ?x / ?x" "arcsin ?x / ?x \<le> 7 / 6" using t(1,3) x(1) by (simp_all add: field_simps)
  have "2 \<le> 1 / ?x" using x by (simp add: field_simps)
  then have "1 \<le> pi / 4 * (1 / ?x)" using mult_mono [of "1 / 2" "pi / 4" 2 "1 / ?x"] pi_ge_two by simp
  then have k: "optimal_iterations n (int m) = ?k" "1 \<le> ?k" using assms(1) by (simp_all add: optimal_iterations_def r le_floor_iff max_def)
  have K: "real (nat ?k) = of_int ?k" using k(2) by simp
  have b: "of_int ?k \<le> pi / 4 * (1 / ?x)" "pi / 4 * (1 / ?x) < of_int ?k + 1" unfolding r by linarith+
  have "(2 * of_int ?k + 1) * arcsin ?x \<le> pi / 2 * (arcsin ?x / ?x) + arcsin ?x"
    using mult_right_mono [OF _ p, of "2 * of_int ?k + 1" "pi / 2 * (1 / ?x) + 1"] b(1) by (simp add: algebra_simps)
  also have "\<dots> \<le> 3 * pi / 4" using mult_left_mono [OF over(2), of "pi / 2"] t(2) pi_ge_zero by linarith
  finally have u: "(2 * of_int ?k + 1) * arcsin ?x \<le> 3 * pi / 4" .
  have "pi / 4 \<le> pi / 2 * (arcsin ?x / ?x) - arcsin ?x" using mult_left_mono [OF over(1), of "pi / 2"] t(2) pi_ge_zero by linarith
  also have "\<dots> \<le> (2 * of_int ?k + 1) * arcsin ?x"
    using mult_right_mono [OF _ p, of "pi / 2 * (1 / ?x) - 1" "2 * of_int ?k + 1"] b(2) by (simp add: algebra_simps)
  finally show ?thesis unfolding k(1) K using half_sine u by blast
qed
(*END*)

lemma grover_circuit_builds:
  assumes "circuit_laws Q amp" and "2 \<le> gc_n_qubits cfg" and "list_all (bitstring (gc_n_qubits cfg)) (gc_marked cfg)"
  obtains orc d c where "build_oracle Q (Inr ()) (gc_n_qubits cfg) (gc_marked cfg) = Inr orc"
    and "build_diffuser Q (Inr ()) (gc_n_qubits cfg) = Inr d" and "build_grover_circuit Q (Inr ()) cfg = Inr c"
    and "amp c zero_state = ((\<lambda>f. amp d (amp orc f)) ^^ nat (grover_iterations cfg)) (hadamards (gc_n_qubits cfg) zero_state)"
proof -
  let ?n = "gc_n_qubits cfg"
  obtain orc where o: "build_oracle Q (Inr ()) ?n (gc_marked cfg) = Inr orc" using oracle_circuit [OF assms] by blast
  obtain d where d: "build_diffuser Q (Inr ()) ?n = Inr d" by (simp add: build_diffuser_def)
  let ?c = "qc_measure Q [0..<?n] [0..<?n]
    (((\<lambda>c. qc_compose Q (qc_compose Q c orc) d) ^^ nat (grover_iterations cfg)) (on_qubits (qc_h Q) ?n (qc_new Q ?n ?n)))"
  have "build_grover_circuit Q (Inr ()) cfg = Inr ?c" by (simp add: build_grover_circuit_def o d Let_def)
  moreover have "amp ?c zero_state = ((\<lambda>f. amp d (amp orc f)) ^^ nat (grover_iterations cfg)) (hadamards ?n zero_state)"
    using circuit_power [where amp = amp and f = zero_state and step = "\<lambda>c. qc_compose Q (qc_compose Q c orc) d" and iteration = "\<lambda>f. amp d (amp orc f)"]
    by (simp add: gates(8,9) [OF assms(1)] start_amp [OF assms(1)])
  ultimately show ?thesis using that o d by blast
qed

lemma grover_probability:
  assumes "circuit_laws Q amp" and "2 \<le> gc_n_qubits cfg" and "distinct (gc_marked cfg)"
    and "list_all (bitstring (gc_n_qubits cfg)) (gc_marked cfg)"
  obtains c where "build_grover_circuit Q (Inr ()) cfg = Inr c"
    and "(\<Sum>s\<in>set (gc_marked cfg). (amp c zero_state (ones (rev s))) ^ 2) =
      sin ((2 * real (nat (grover_iterations cfg)) + 1) * arcsin (sqrt (real (length (gc_marked cfg)) / 2 ^ gc_n_qubits cfg))) ^ 2"
proof -
  let ?n = "gc_n_qubits cfg" and ?ms = "gc_marked cfg"
  obtain orc d c where b: "build_oracle Q (Inr ()) ?n ?ms = Inr orc" "build_diffuser Q (Inr ()) ?n = Inr d"
      "build_grover_circuit Q (Inr ()) cfg = Inr c"
    and a: "amp c zero_state = ((\<lambda>f. amp d (amp orc f)) ^^ nat (grover_iterations cfg)) (hadamards ?n zero_state)"
    by (rule grover_circuit_builds [OF assms(1,2,4)])
  note m = marks_distinct [OF assms(3,4)]
  have "card (set (map (\<lambda>s. ones (rev s)) ?ms)) = length ?ms" using distinct_card [OF m(1)] by simp
  moreover have "(\<Sum>s\<in>set ?ms. (amp c zero_state (ones (rev s))) ^ 2) = (\<Sum>b\<in>set (map (\<lambda>s. ones (rev s)) ?ms). (amp c zero_state b) ^ 2)"
    using sum.reindex [OF m(3), of "\<lambda>b. (amp c zero_state b) ^ 2"] by simp
  moreover have "\<dots> = sin ((2 * real (nat (grover_iterations cfg)) + 1) * grover_angle ?n (set (map (\<lambda>s. ones (rev s)) ?ms))) ^ 2"
    unfolding a by (rule grover_py.success) (use assms b uniform in blast)+
  ultimately show ?thesis using that [OF b(3)] by (simp only: grover_angle_def)
qed

text \<open>
  C34. The circuit of \<open>grover.py\<close> is Grover's: for two or more qubits and distinct marked bit strings it is
  built, and after its iterations a measurement gives one of the marked strings, in Qiskit's order of
  the bits, with probability \<open>sin\<close> squared of \<open>2k + 1\<close> times the angle whose sine is the root of the
  marked share. With the default number of iterations this is at least one half whenever at least
  one and at most a quarter of the states is marked.
\<close>

theorem grover_success_exact:
  assumes "circuit_laws Q amp" and "2 \<le> gc_n_qubits cfg" and "distinct (gc_marked cfg)"
    and "list_all (bitstring (gc_n_qubits cfg)) (gc_marked cfg)"
  shows "\<exists>c. build_grover_circuit Q (Inr ()) cfg = Inr c \<and>
    (let p = \<Sum>s\<in>set (gc_marked cfg). (amp c zero_state (ones (rev s))) ^ 2; m = length (gc_marked cfg) in
     p = sin ((2 * real (nat (grover_iterations cfg)) + 1) * arcsin (sqrt (real m / 2 ^ gc_n_qubits cfg))) ^ 2 \<and>
     (if gc_iterations cfg = None \<and> 0 < m \<and> 4 * m \<le> 2 ^ gc_n_qubits cfg then 1 / 2 \<le> p else True))"
proof -
  obtain c where "build_grover_circuit Q (Inr ()) cfg = Inr c"
    and "(\<Sum>s\<in>set (gc_marked cfg). (amp c zero_state (ones (rev s))) ^ 2) =
      sin ((2 * real (nat (grover_iterations cfg)) + 1) * arcsin (sqrt (real (length (gc_marked cfg)) / 2 ^ gc_n_qubits cfg))) ^ 2"
    by (rule grover_probability [OF assms])
  moreover have "1 / 2 \<le> sin ((2 * real (nat (grover_iterations cfg)) + 1) * arcsin (sqrt (real m / 2 ^ gc_n_qubits cfg))) ^ 2"
    if "gc_iterations cfg = None" "0 < m" "4 * m \<le> 2 ^ gc_n_qubits cfg" "m = length (gc_marked cfg)" for m
    using default_iterations_turn [OF that(2,3)] that(1,4) by (simp add: grover_iterations_def)
  ultimately show ?thesis by (auto simp: Let_def)
qed

text \<open>A Qiskit that keeps the laws: a circuit is what it does to the amplitudes.\<close>

definition demo_circuits :: "(amplitudes \<Rightarrow> amplitudes) circuit_api" where
  "demo_circuits =
     \<lparr>qc_new = (\<lambda>n m f. f), qc_h = (\<lambda>q c f. hadamard q (c f)), qc_x = (\<lambda>q c f. not_gate q (c f)), qc_z = (\<lambda>q c f. phase_if {q} (c f)),
      qc_rx = (\<lambda>a q c. c), qc_ry = (\<lambda>a q c. c), qc_delay = (\<lambda>t q c. c), qc_cx = (\<lambda>q r c f. not_if {q} r (c f)),
      qc_cz = (\<lambda>q r c f. phase_if {q, r} (c f)), qc_mcx = (\<lambda>cs t c f. not_if (set cs) t (c f)), qc_barrier = (\<lambda>c. c),
      qc_compose = (\<lambda>c d f. d (c f)), qc_measure = (\<lambda>qs cs c. c)\<rparr>"

lemma demo_circuits_laws: "circuit_laws demo_circuits (\<lambda>c. c)"
  by (simp add: circuit_laws_def demo_circuits_def)

definition demo_grover :: grover_config where
  "demo_grover = \<lparr>gc_n_qubits = 3, gc_marked = [''101'', ''010''], gc_iterations = None, gc_shots = 128, gc_seed_sim = None\<rparr>"

theorem grover_success_exact_witness:
  "\<exists>c. build_grover_circuit demo_circuits (Inr ()) demo_grover = Inr c \<and>
    1 / 2 \<le> (\<Sum>s\<in>{''101'', ''010''}. (c zero_state (ones (rev s))) ^ 2)"
  using grover_success_exact [OF demo_circuits_laws, of demo_grover]
  by (auto simp: demo_grover_def bitstring_def Let_def)

section \<open>The agent's circuit\<close>

lemma agent_circuit_builds:
  assumes "circuit_laws Q amp" and "bitstring n s" and "agent_grover_circuit Q True n s k = Inr c"
    and "\<And>d. amp (apply_diffusion Q n (apply_oracle Q n s d)) zero_state = step (amp d zero_state)"
  shows "amp c zero_state = (step ^^ nat k) (hadamards n zero_state)"
proof -
  have "c = qc_measure Q [0..<n] [0..<n]
    (((\<lambda>c. apply_diffusion Q n (apply_oracle Q n s c)) ^^ nat k) (on_qubits (qc_h Q) n (qc_new Q n n)))"
    using assms(2,3) by (simp add: agent_grover_circuit_def bitstring_def)
  then show ?thesis
    using circuit_power [where amp = amp and f = zero_state and step = "\<lambda>c. apply_diffusion Q n (apply_oracle Q n s c)" and iteration = step]
    by (simp add: gates(9) [OF assms(1)] start_amp [OF assms(1)] assms(4))
qed

lemma agent_success:
  assumes "circuit_laws Q amp" and "3 \<le> n" and "bitstring n s" and "agent_grover_circuit Q True n s k = Inr c"
  shows "(amp c zero_state (ones s)) ^ 2 = sin ((2 * real (nat k) + 1) * arcsin (1 / sqrt (2 ^ n))) ^ 2"
proof -
  have "amp c zero_state = (agent_iteration n s ^^ nat k) (hadamards n zero_state)"
    by (rule agent_circuit_builds [OF assms(1,3,4)]) (simp add: agent_iteration_amp [OF assms(1-3)])
  then show ?thesis using agent_py.success [of n s "hadamards n zero_state" "nat k"] assms(3) uniform
    by (simp add: grover_angle_def real_sqrt_divide)
qed
(*END*)

text \<open>
  With two qubits the agent puts \<open>cz\<close> between the two \<open>h\<close>, where the others put the controlled not: the
  oracle becomes a controlled not, which moves no amplitude of the uniform state, and the diffusion
  only permutes amplitudes and flips signs. No number of iterations helps.
\<close>

lemma two_qubits: "b \<subseteq> {..<2 :: nat} \<Longrightarrow> b \<in> {{}, {0}, {1}, {0, 1}}"
proof -
  assume "b \<subseteq> {..<2 :: nat}"
  then have "b \<in> Pow {0, 1 :: nat}" by (auto simp: less_2_cases_iff)
  then show ?thesis by (simp add: Pow_insert) blast
qed

lemma two_hadamards: "hadamards 2 f = hadamard 1 (hadamard 0 f)" "on_qubits not_gate 2 f = not_gate 1 (not_gate 0 f)"
  by (simp_all add: numeral_2_eq_2)

definition flat :: "amplitudes \<Rightarrow> bool" where
  "flat f \<longleftrightarrow> (\<forall>b. b \<subseteq> {..<2} \<longrightarrow> (f b) ^ 2 = 1 / 4)"

lemma flat_moved: "flat f \<Longrightarrow> (\<And>b. b \<subseteq> {..<2} \<Longrightarrow> p b \<subseteq> {..<2} \<and> (g b = f (p b) \<or> g b = - f (p b))) \<Longrightarrow> flat g"
  unfolding flat_def by (metis power2_minus)

lemma cz_between:
  assumes "circuit_laws Q amp"
  shows "amp (agent_phase Q 2 c) f = not_if {0} 1 (amp c f)"
proof
  fix b
  let ?g = "amp c f"
  have r: "sqrt 2 * sqrt 2 = (2 :: real)" by simp
  show "amp (agent_phase Q 2 c) f b = not_if {0} 1 ?g b"
    by (cases "0 \<in> b"; cases "1 \<in> b")
      (use r in \<open>simp_all add: agent_phase_def Let_def gates [OF assms] hadamard_def phase_if_def not_if_def toggle_def insert_absorb field_simps\<close>)
qed

lemma two_roots: "sqrt 2 * (sqrt 2 * x) = 2 * x" for x :: real
  by (simp flip: mult.assoc)

lemma two_diffusion:
  assumes "b \<subseteq> {..<2}"
  shows "hadamards 2 (on_qubits not_gate 2 (not_if {0} 1 (on_qubits not_gate 2 (hadamards 2 f)))) b =
    (if 1 \<in> b then - f (toggle 0 b) else f b)"
  using two_qubits [OF assms] unfolding two_hadamards
  by (elim insertE emptyE) (simp_all add: hadamard_def not_gate_def not_if_def toggle_def field_simps insert_Diff_if insert_commute two_roots)

lemma agent_two_qubits_flat:
  assumes "circuit_laws Q amp" and "length s = 2" and "flat (amp c f)"
  shows "flat (amp (apply_diffusion Q 2 (apply_oracle Q 2 s c)) f)"
proof -
  let ?o = "amp (apply_oracle Q 2 s c) f"
  have z: "zeros s \<subseteq> {..<2}" using assms(2) by (auto simp: zeros_def)
  have d: "sym_diff b (zeros s) \<subseteq> {..<2}" if "b \<subseteq> {..<2}" for b using that z by blast
  have t: "toggle 1 b \<subseteq> {..<2}" if "b \<subseteq> {..<2}" for b using that by (auto simp: toggle_def)
  have "flat ?o"
  proof (rule flat_moved [OF assms(3)])
    fix b :: "nat set"
    assume b: "b \<subseteq> {..<2}"
    let ?m = "\<lambda>b. if {0} \<subseteq> b then toggle 1 b else b"
    have "?o b = amp c f (sym_diff (?m (sym_diff b (zeros s))) (zeros s))"
      unfolding apply_oracle_def flip_zeros_amp [OF assms(1)] cz_between [OF assms(1)] not_if_def
      by (cases "{0} \<subseteq> sym_diff b (zeros s)") (simp_all only: if_True if_False flip_zeros_amp [OF assms(1)])
    moreover have "sym_diff (?m (sym_diff b (zeros s))) (zeros s) \<subseteq> {..<2}"
      using d [OF t [OF d [OF b]]] d [OF d [OF b]] by presburger
    ultimately show "sym_diff (?m (sym_diff b (zeros s))) (zeros s) \<subseteq> {..<2} \<and>
        (?o b = amp c f (sym_diff (?m (sym_diff b (zeros s))) (zeros s)) \<or> ?o b = - amp c f (sym_diff (?m (sym_diff b (zeros s))) (zeros s)))"
      by blast
  qed
  have e: "amp (apply_diffusion Q 2 d) f = hadamards 2 (on_qubits not_gate 2 (not_if {0} 1 (on_qubits not_gate 2 (hadamards 2 (amp d f)))))" for d
    using on_qubits_amp [where amp = amp and g = "qc_h Q" and h = hadamard and f = f] on_qubits_amp [where amp = amp and g = "qc_x Q" and h = not_gate and f = f]
    by (simp add: apply_diffusion_def cz_between [OF assms(1)] gates(2,3) [OF assms(1)])
  show ?thesis
    unfolding e
  proof (rule flat_moved [OF \<open>flat ?o\<close>, where p = "\<lambda>b. if 1 \<in> b then toggle 0 b else b"])
    fix b :: "nat set"
    assume b: "b \<subseteq> {..<2}"
    moreover have "toggle 0 b \<subseteq> {..<2}" using b by (auto simp: toggle_def)
    ultimately show "(if 1 \<in> b then toggle 0 b else b) \<subseteq> {..<2} \<and>
      (hadamards 2 (on_qubits not_gate 2 (not_if {0} 1 (on_qubits not_gate 2 (hadamards 2 ?o)))) b = ?o (if 1 \<in> b then toggle 0 b else b) \<or>
       hadamards 2 (on_qubits not_gate 2 (not_if {0} 1 (on_qubits not_gate 2 (hadamards 2 ?o)))) b = - ?o (if 1 \<in> b then toggle 0 b else b))"
      unfolding two_diffusion [OF b] by simp
  qed
qed

text \<open>
  C35. With two qubits the agent's circuit does not search: whatever the marked string and the number of
  iterations, every outcome keeps the probability one quarter that guessing has. From three qubits on
  the circuit is Grover's.
\<close>

theorem agent_two_qubits_never_amplifies:
  assumes "circuit_laws Q amp" and "bitstring n s" and "agent_grover_circuit Q True n s k = Inr c" and "2 \<le> n"
  shows "(amp c zero_state (ones s)) ^ 2 = (if n = 2 then 1 / 4 else sin ((2 * real (nat k) + 1) * arcsin (1 / sqrt (2 ^ n))) ^ 2)"
proof (cases "n = 2")
  case True
  have "flat (amp (((\<lambda>c. apply_diffusion Q 2 (apply_oracle Q 2 s c)) ^^ j) (on_qubits (qc_h Q) 2 (qc_new Q 2 2))) zero_state)" for j
  proof (induction j)
    case 0
    show ?case by (simp add: flat_def start_amp [OF assms(1)] uniform power_divide)
  next
    case (Suc j)
    then show ?case using agent_two_qubits_flat [OF assms(1)] assms(2) True by (simp add: bitstring_def)
  qed
  then have "flat (amp c zero_state)"
    using assms(2,3) True by (auto simp: agent_grover_circuit_def bitstring_def gates(9) [OF assms(1)])
  then show ?thesis using True assms(2) ones_subset [of s] by (simp add: flat_def bitstring_def)
next
  case False
  then show ?thesis using agent_success [OF assms(1) _ assms(2,3)] assms(4) by simp
qed

theorem agent_two_qubits_never_amplifies_witness:
  "\<exists>c. agent_grover_circuit demo_circuits True 2 ''11'' 1 = Inr c \<and> (c zero_state (ones ''11'')) ^ 2 = 1 / 4"
proof -
  obtain c where c: "agent_grover_circuit demo_circuits True 2 ''11'' 1 = Inr c" by (simp add: agent_grover_circuit_def)
  then show ?thesis using agent_two_qubits_never_amplifies [OF demo_circuits_laws _ c] by (simp add: bitstring_def)
qed

section \<open>The circuit of grover\_utils.py\<close>

text \<open>
  \<open>grover_utils.py\<close> counts the bits of a marked string from the left where Qiskit shows them from the
  right: for two or more qubits its circuit marks the reversed strings, and it applies one iteration.
\<close>

lemma utils_mark:
  assumes "circuit_laws Q amp" and "2 \<le> n" and "bitstring n s"
  shows "amp (u_mark Q n s c) f = flip_sign n (ones s) (amp c f)"
proof -
  have p: "amp (controlled_phase Q n c) f = phase_if {..<n} (amp c f)" for c
    using hmcxh_amp [OF assms(1,2)] assms(2) by (simp add: controlled_phase_def)
  show ?thesis
    using mark_amp [OF assms(1), where phase = "controlled_phase Q n", OF p] assms(3) by (simp add: u_mark_def bitstring_def gates(7) [OF assms(1)])
qed

lemma utils_marks:
  assumes "circuit_laws Q amp" and "2 \<le> n" and "list_all (bitstring n) marked"
  shows "amp (fold (u_mark Q n) marked c) f = fold (flip_sign n) (map ones marked) (amp c f)"
  using assms(3) by (induction marked arbitrary: c) (simp_all add: utils_mark [OF assms(1,2)])

lemma utils_diffusion:
  assumes "circuit_laws Q amp" and "2 \<le> n"
  shows "amp (u_diffusion Q n c) f = hadamards n (flip_sign n {} (hadamards n (amp c f)))"
proof -
  have "u_diffusion Q n c = on_qubits (qc_h Q) n (on_qubits (qc_x Q) n (hmcxh Q n (on_qubits (qc_x Q) n (on_qubits (qc_h Q) n c))))"
    using assms(2) by (simp add: u_diffusion_def hmcxh_def)
  then show ?thesis using diffusion_amp [OF assms(1), where phase = "hmcxh Q n", OF hmcxh_amp [OF assms]] by simp
qed

interpretation utils_py: amplifier "distinct marked \<and> list_all (bitstring n) marked" n "set (map ones marked)"
  "\<lambda>f. hadamards n (flip_sign n {} (hadamards n (fold (flip_sign n) (map ones marked) f)))" for n marked
proof (unfold_locales, elim conjE)
  assume "distinct marked" "list_all (bitstring n) marked"
  then show "set (map ones marked) \<subseteq> Pow {..<n}" by (rule marks_distinct(5))
next
  fix b f
  assume "distinct marked \<and> list_all (bitstring n) marked" "b \<subseteq> {..<n}"
  then show "hadamards n (flip_sign n {} (hadamards n (fold (flip_sign n) (map ones marked) f))) b =
      (if b \<in> set (map ones marked) then - f b else f b) -
      2 * (\<Sum>c\<in>Pow {..<n}. if c \<in> set (map ones marked) then - f c else f c) / 2 ^ n"
    by (elim conjE) (rule iteration_step [OF marks_distinct(2)])
qed

lemma utils_circuit_amp:
  assumes "circuit_laws Q amp" and "2 \<le> gc_n_qubits cfg" and "list_all (bitstring (gc_n_qubits cfg)) (gc_marked cfg)"
    and "u_build_grover_circuit Q (Inr ()) cfg = Inr c"
  shows "amp c zero_state = hadamards (gc_n_qubits cfg) (flip_sign (gc_n_qubits cfg) {} (hadamards (gc_n_qubits cfg)
    (fold (flip_sign (gc_n_qubits cfg)) (map ones (gc_marked cfg)) (hadamards (gc_n_qubits cfg) zero_state))))"
  using assms(4) by (auto simp: u_build_grover_circuit_def Let_def gates(7,9) [OF assms(1)] utils_diffusion [OF assms(1,2)]
      utils_marks [OF assms(1,2,3)] start_amp [OF assms(1)])

lemma utils_circuit_marks_reversed:
  assumes "circuit_laws Q amp" and "2 \<le> gc_n_qubits cfg" and "distinct (gc_marked cfg)"
    and "list_all (bitstring (gc_n_qubits cfg)) (gc_marked cfg)" and "u_build_grover_circuit Q (Inr ()) cfg = Inr c"
  shows "(\<Sum>b\<in>set (map ones (gc_marked cfg)). (amp c zero_state b) ^ 2) =
    sin (3 * arcsin (sqrt (real (length (gc_marked cfg)) / 2 ^ gc_n_qubits cfg))) ^ 2"
proof -
  let ?n = "gc_n_qubits cfg" and ?ms = "gc_marked cfg"
  have "card (set (map ones ?ms)) = length ?ms" using distinct_card [OF marks_distinct(2) [OF assms(3,4)]] by simp
  moreover note utils_circuit_amp [OF assms(1,2,4,5)]
  ultimately show ?thesis
    using utils_py.success [of ?ms ?n "hadamards ?n zero_state" 1] assms(3,4) uniform by (simp add: grover_angle_def del: set_map)
qed
(*END*)

text \<open>The provider's Grover preset: two qubits and the marked string 11, found with certainty.\<close>

lemma grover_preset_certain:
  assumes "circuit_laws Q amp" and "build_circuit Q (Inr ()) GROVER_DEMO = Inr c"
  shows "(amp c zero_state {0, 1}) ^ 2 = 1"
proof -
  let ?cfg = "\<lparr>gc_n_qubits = 2, gc_marked = [''11''], gc_iterations = None, gc_shots = 1024, gc_seed_sim = None\<rparr>"
  have u: "u_build_grover_circuit Q (Inr ()) ?cfg = Inr c" using assms(2) by (simp add: build_circuit_def Let_def)
  have "ones ''11'' = {0, 1}" by (auto simp: ones_def nth_Cons' less_Suc_eq split: if_splits)
  moreover have r: "sqrt (1 / 4) = (1 / 2 :: real)" and a: "arcsin (1 / 2) = pi / 6"
    using arcsin_sin [of "pi / 6"] by (simp_all add: real_sqrt_divide sin_30)
  moreover have "sin (3 * arcsin (sqrt (1 / 4))) = 1" unfolding r a by simp
  ultimately show ?thesis using utils_circuit_marks_reversed [OF assms(1) _ _ _ u] by (simp add: bitstring_def)
qed

end
