(* ===== verification/Qiskit_Provider.thy ===== *)
theory Qiskit_Provider
  imports Grover_Circuits Provider_Clients
begin

text \<open>
  How the Qiskit client of \<open>qiskit_provider.py\<close> executes a preset: the backend is resolved, the circuit
  of the preset is built, and the counts of the job are returned. The Qiskit packages are the record
  \<open>qiskit_sdk\<close>: opening the runtime service and choosing its backend, Aer's backend, its simulator
  for a backend, and transpiling and running a circuit. The theory of the clients takes the whole
  execution as a parameter; here it is instantiated, so that the client, the circuit and its gates
  meet in one statement.
\<close>

record ('b, 'c, 'w) qiskit_sdk =
  sdk_runtime :: "(string \<times> string) list \<Rightarrow> string \<Rightarrow> 'b py"
  sdk_aer :: "string \<Rightarrow> 'b py"
  sdk_simulator :: "'b \<Rightarrow> 'b"
  sdk_run :: "'b \<Rightarrow> 'c \<Rightarrow> int \<Rightarrow> 'w \<Rightarrow> counts py \<times> 'w"

definition service_kwargs :: "(string, string) dict \<Rightarrow> (string \<times> string) list" where
  "service_kwargs env =
     List.map_filter (\<lambda>(kw, k). if truthy_str (dict_get env k) then Some (kw, or_str (dict_get env k) []) else None)
       [(''token'', ''SYNQC_QISKIT_RUNTIME_TOKEN''), (''channel'', ''SYNQC_QISKIT_RUNTIME_CHANNEL''),
        (''instance'', ''SYNQC_QISKIT_RUNTIME_INSTANCE'')]"

definition resolve_backend :: "('b, 'c, 'w) qiskit_sdk \<Rightarrow> (string, string) dict \<Rightarrow> string \<Rightarrow> bool \<Rightarrow> 'b py" where
  "resolve_backend S env backend_name use_runtime =
     (if use_runtime then sdk_runtime S (service_kwargs env) backend_name else sdk_aer S backend_name)"

definition execute_circuit :: "('b, 'c, 'w) qiskit_sdk \<Rightarrow> (string, string) dict \<Rightarrow> string \<Rightarrow> bool \<Rightarrow> 'c \<Rightarrow> int \<Rightarrow> 'w \<Rightarrow> counts py \<times> 'w" where
  "execute_circuit S env backend_name use_runtime circuit shots w =
     (case resolve_backend S env backend_name use_runtime of
        Inl e \<Rightarrow> (Inl e, w)
      | Inr backend \<Rightarrow> sdk_run S (if use_runtime then backend else sdk_simulator S backend) circuit shots w)"

definition execute_preset :: "'c circuit_api \<Rightarrow> ('b, 'c, 'w) qiskit_sdk \<Rightarrow> ('g, 'w) client_env \<Rightarrow> string \<Rightarrow> experiment_preset \<Rightarrow> int \<Rightarrow> 'w
    \<Rightarrow> counts py \<times> 'w" where
  "execute_preset Q S E backend_name preset shots w =
     (case build_circuit Q (u_require_qiskit (ce_installed E ''qiskit'') (ce_installed E ''qiskit_ibm_runtime'') (ce_installed E ''qiskit_aer'') False) preset of
        Inl e \<Rightarrow> (Inl e, w)
      | Inr circuit \<Rightarrow> execute_circuit S (ce_environ E) backend_name (runtime_configured E) circuit shots w)"

section \<open>The Grover preset from the client to the gates\<close>

text \<open>
  A device without errors, for circuits of \<open>n\<close> qubits: jobs return, their counts are keyed by bit
  strings and add up to the shots, and only outcomes whose amplitude is not zero appear. No circuit makes all amplitudes vanish.
\<close>

definition ideal_device :: "nat \<Rightarrow> ('b, 'c, 'w) qiskit_sdk \<Rightarrow> ('c \<Rightarrow> amplitudes \<Rightarrow> amplitudes) \<Rightarrow> bool" where
  "ideal_device n S amp \<longleftrightarrow>
     (\<forall>kw name. \<exists>b. sdk_runtime S kw name = Inr b) \<and> (\<forall>name. \<exists>b. sdk_aer S name = Inr b) \<and>
     (\<forall>b c shots w. (\<exists>s. s \<subseteq> {..<n} \<and> amp c zero_state s \<noteq> 0) \<longrightarrow> (\<exists>counts w'. sdk_run S b c shots w = (Inr counts, w') \<and> dict_wf counts \<and> counts_total counts = shots \<and>
        list_all (\<lambda>(k, v). bitstring n k \<and> amp c zero_state (ones (rev k)) \<noteq> 0) counts))"

lemma ideal_device_runs:
  assumes "ideal_device n S amp" and "s \<subseteq> {..<n}" and "amp c zero_state s \<noteq> 0"
  obtains counts w' where "execute_circuit S env name rt c shots w = (Inr counts, w')" and "dict_wf counts"
    and "counts_total counts = shots" and "list_all (\<lambda>(k, v). bitstring n k \<and> amp c zero_state (ones (rev k)) \<noteq> 0) counts"
proof -
  obtain b where "resolve_backend S env name rt = Inr b"
    using assms(1) unfolding ideal_device_def resolve_backend_def by metis
  moreover obtain counts w' where "sdk_run S (if rt then b else sdk_simulator S b) c shots w = (Inr counts, w')" "dict_wf counts"
      "counts_total counts = shots" "list_all (\<lambda>(k, v). bitstring n k \<and> amp c zero_state (ones (rev k)) \<noteq> 0) counts"
    using assms unfolding ideal_device_def by blast
  ultimately show ?thesis using that by (simp add: execute_circuit_def)
qed

text \<open>All of the amplitude is on the marked state.\<close>

lemma preset_amplitudes:
  assumes "circuit_laws Q amp" and "build_circuit Q (Inr ()) GROVER_DEMO = Inr c" and "b \<subseteq> {..<2}" and "b \<noteq> {0, 1}"
  shows "amp c zero_state b = 0"
proof -
  have o: "ones ''11'' = {0, 1}" by (auto simp: ones_def nth_Cons' less_Suc_eq split: if_splits)
  have r: "sqrt (1 / 4) = (1 / 2 :: real)" and a: "arcsin (1 / 2) = pi / 6"
    using arcsin_sin [of "pi / 6"] by (simp_all add: real_sqrt_divide sin_30)
  have u: "u_build_grover_circuit Q (Inr ()) \<lparr>gc_n_qubits = 2, gc_marked = [''11''], gc_iterations = None, gc_shots = 1024, gc_seed_sim = None\<rparr> = Inr c"
    using assms(2) by (simp add: build_circuit_def Let_def)
  have "amp c zero_state = hadamards 2 (flip_sign 2 {} (hadamards 2 (fold (flip_sign 2) (map ones [''11'']) (hadamards 2 zero_state))))"
    using utils_circuit_amp [OF assms(1) _ _ u] by (simp add: bitstring_def)
  moreover have "cos (3 * arcsin (sqrt (1 / 4))) = 0" unfolding r a by simp
  ultimately show ?thesis
    using utils_py.turned [of "[''11'']" 2 "hadamards 2 zero_state" b 1] uniform assms(3,4) o by (simp add: bitstring_def grover_angle_def)
qed

lemma only_marked:
  assumes "dict_wf counts" and "list_all (\<lambda>(k, v). k = m) counts" and "counts_total counts = n" and "1 \<le> n"
  shows "counts = [(m, n)]"
proof (cases counts)
  case Nil
  then show ?thesis using assms(3,4) by (simp add: counts_total_def)
next
  case (Cons p ps)
  obtain v where p: "p = (m, v)" using assms(2) Cons by (cases p) simp
  have "ps = []"
  proof (cases ps)
    case (Cons q qs)
    then have "fst q = m" using assms(2) \<open>counts = p # ps\<close> by (auto split: prod.splits)
    then show ?thesis using assms(1) \<open>counts = p # ps\<close> Cons p by (simp add: dict_wf_def)
  qed
  then show ?thesis using assms(3) Cons p by (simp add: counts_total_def)
qed

lemma preset_counts:
  assumes "circuit_laws Q amp" and "ideal_device 2 S amp" and "\<And>p. ce_installed E p" and "1 \<le> shots"
  shows "\<exists>w'. execute_preset Q S E name GROVER_DEMO shots w = (Inr [(''11'', shots)], w')"
proof -
  obtain c where c: "build_circuit Q (Inr ()) GROVER_DEMO = Inr c"
    by (simp add: build_circuit_def u_build_grover_circuit_def Let_def)
  obtain counts w' where e: "execute_circuit S (ce_environ E) name (runtime_configured E) c shots w = (Inr counts, w')"
    and k: "dict_wf counts" "counts_total counts = shots"
      "list_all (\<lambda>(k, v). bitstring 2 k \<and> amp c zero_state (ones (rev k)) \<noteq> 0) counts"
    by (rule ideal_device_runs [OF assms(2), of "{0, 1}" c]) (use grover_preset_certain [OF assms(1) c] in auto)
  have "k = ''11''" if "bitstring 2 k" "amp c zero_state (ones (rev k)) \<noteq> 0" for k
  proof -
    have "ones (rev k) \<subseteq> {..<2}" using ones_subset [of "rev k"] that(1) by (simp add: bitstring_def)
    then have "ones (rev k) = {0, 1}" using preset_amplitudes [OF assms(1) c] that(2) by blast
    also have "\<dots> = ones (rev ''11'')" by (auto simp: ones_def nth_Cons' less_Suc_eq split: if_splits)
    finally have "rev k = rev ''11''" using that(1) by (intro ones_inject) (simp_all add: bitstring_def)
    then show ?thesis by simp
  qed
  then have "list_all (\<lambda>(k, v). k = ''11'') counts" using k(3) by (auto simp: list_all_iff)
  then show ?thesis using only_marked [OF k(1) _ k(2) assms(4)] e c assms(3) by (simp add: execute_preset_def u_require_qiskit_def)
qed

text \<open>
  C36. The Grover preset end to end: on a device without errors the Qiskit client answers after its first
  job, of at most 64 shots whatever the budget, all of them the marked string, and reports fidelity one
  and just the shots it used.
\<close>

theorem grover_preset_on_ideal_device:
  assumes "circuit_laws Q amp" and "ideal_device 2 S amp" and "\<And>p. ce_installed E p"
  shows "let n = min 64 (max 1 budget) in fst (qiskit_run (E\<lparr>ce_execute := execute_preset Q S E\<rparr>) name GROVER_DEMO budget w) =
    Inr \<lparr>lr_raw_counts = [(''11'', n)], lr_expected_distribution = Some (qiskit_expected GROVER_DEMO), lr_fidelity = Some 1,
         lr_latency_us = None, lr_backaction = None, lr_shots_used = Some n\<rparr>"
proof -
  let ?E = "E\<lparr>ce_execute := execute_preset Q S E\<rparr>" and ?shots = "max 1 budget"
  define n where "n = min 64 (max 1 budget)"
  have n: "1 \<le> n" by (simp add: n_def)
  obtain w' where e: "execute_preset Q S E name GROVER_DEMO n w = (Inr [(''11'', n)], w')"
    using preset_counts [where E = E, OF assms(1,2,3) n] by blast
  have s: "u_success_probability [(''11'', n)] [''11''] = 1"
    using n by (simp add: u_success_probability_def counts_total_def dict_get_or_def)
  have "qiskit_grover_loop (execute_preset Q S E name GROVER_DEMO) ?shots (min 64 ?shots) 0 w = (Inr ([(''11'', n)], n), w')"
    using e n s by (subst qiskit_grover_loop.simps) (simp add: Let_def n_def)
  then show ?thesis using s assms(3) by (simp add: qiskit_run_def ensure_qiskit_available_def Let_def n_def)
qed

definition demo_sdk :: "(unit, amplitudes \<Rightarrow> amplitudes, int) qiskit_sdk" where
  "demo_sdk = \<lparr>sdk_runtime = (\<lambda>kw name. Inr ()), sdk_aer = (\<lambda>name. Inr ()), sdk_simulator = (\<lambda>b. b),
     sdk_run = (\<lambda>b c n w. (Inr [(if c zero_state {0, 1} \<noteq> 0 then ''11'' else if c zero_state {0} \<noteq> 0 then ''01'' else if c zero_state {1} \<noteq> 0 then ''10'' else ''00'', n)], w + n))\<rparr>"

lemma demo_sdk_ideal: "ideal_device 2 demo_sdk (\<lambda>c. c)"
proof -
  have o: "ones (rev ''11'') = {0, 1}" "ones (rev ''01'') = {0}" "ones (rev ''10'') = {1}" "ones (rev ''00'') = {}"
    by (auto simp: ones_def nth_Cons' less_Suc_eq split: if_splits)
  have "\<exists>counts w'. sdk_run demo_sdk b c shots w = (Inr counts, w') \<and> dict_wf counts \<and> counts_total counts = shots \<and>
      list_all (\<lambda>(k, v). bitstring 2 k \<and> c zero_state (ones (rev k)) \<noteq> 0) counts"
    if s: "s \<subseteq> {..<2}" "c zero_state s \<noteq> 0" for b shots w s and c :: "amplitudes \<Rightarrow> amplitudes"
    using two_qubits [OF s(1)] s(2) o
    by (elim insertE emptyE) (simp_all add: demo_sdk_def dict_wf_def counts_total_def bitstring_def)
  note runs = this
  have a: "\<exists>b. sdk_runtime demo_sdk kw name = Inr b" "\<exists>b. sdk_aer demo_sdk name = Inr b" for kw name
    by (simp_all add: demo_sdk_def)
  show ?thesis unfolding ideal_device_def by (intro conjI allI impI a) (elim exE conjE, rule runs)
qed

theorem grover_preset_on_ideal_device_witness:
  "map_sum id lr_shots_used (fst (qiskit_run (demo_env\<lparr>ce_execute := execute_preset demo_circuits demo_sdk demo_env\<rparr>) ''aer_simulator'' GROVER_DEMO 1000 0)) = Inr (Some 64)"
  using grover_preset_on_ideal_device [OF demo_circuits_laws demo_sdk_ideal, of demo_env 1000 "''aer_simulator''" 0]
  by (simp add: demo_env_def)

end
