(* ===== verification/Agent_Grover.thy ===== *)
theory Agent_Grover
  imports Grover_Circuits Agent_Worker
begin

text \<open>
  The Grover agent of \<open>agents/grover.py\<close>: its parameters, the run and the self test. The circuit is
  built by \<open>agent_grover_circuit\<close> of the theory of the circuits; Aer, which runs it, is the argument
  \<open>execute\<close> from the seed, the number of shots and the circuit to the counts, and the elapsed time
  and the \<open>str\<close> of values that are no texts are arguments as well.
\<close>

section \<open>Reading parameters\<close>

text \<open>\<open>int(x)\<close> of a JSON value.\<close>

definition agent_int :: "json \<Rightarrow> int py" where
  "agent_int j =
     (case j of
        JInt i \<Rightarrow> Inr i
      | JBool b \<Rightarrow> Inr (if b then 1 else 0)
      | JFloat x \<Rightarrow> Inr (py_int x)
      | JStr s \<Rightarrow> (case py_int_of_str s of Some i \<Rightarrow> Inr i
          | None \<Rightarrow> Inl (ExnValue (''invalid literal for int() with base 10: '' @ CHR 0x27 # s @ [CHR 0x27])))
      | _ \<Rightarrow> Inl (ExnOther ''TypeError'' ''int() argument must be a string, a bytes-like object or a real number''))"

definition json_str :: "(json \<Rightarrow> string) \<Rightarrow> json \<Rightarrow> string" where
  "json_str show j = (case j of JStr s \<Rightarrow> s | JInt i \<Rightarrow> py_str_int i | _ \<Rightarrow> show j)"

text \<open>\<open>round(x, digits)\<close>, to the even neighbour in the middle.\<close>

definition round_even :: "real \<Rightarrow> int" where
  "round_even x = (let r = x - of_int \<lfloor>x\<rfloor> in if r < 1 / 2 then \<lfloor>x\<rfloor> else if 1 / 2 < r then \<lfloor>x\<rfloor> + 1 else if even \<lfloor>x\<rfloor> then \<lfloor>x\<rfloor> else \<lfloor>x\<rfloor> + 1)"

definition py_round :: "nat \<Rightarrow> real \<Rightarrow> real" where
  "py_round digits x = of_int (round_even (x * 10 ^ digits)) / 10 ^ digits"

section \<open>The agent\<close>

definition grover_metadata :: agent_metadata where
  "grover_metadata = \<lparr>am_name = ''grover_search'', am_version = ''1.0.0'',
     am_description = ''Runs a Grover search circuit (Qiskit/Aer by default; IBM runtime can be added later).'',
     am_requires = [''qiskit'']\<rparr>"

record 'c grover_env =
  ge_circuits :: "'c circuit_api"
  ge_has_qiskit :: bool
  ge_has_aer :: bool
  ge_execute :: "int option \<Rightarrow> int \<Rightarrow> 'c \<Rightarrow> counts py"
  ge_elapsed_ms :: real
  ge_show :: "json \<Rightarrow> string"

definition run_counts :: "'c grover_env \<Rightarrow> 'c \<Rightarrow> int \<Rightarrow> int option \<Rightarrow> counts py" where
  "run_counts E qc shots seed =
     (if \<not> ge_has_aer E
      then Inl (ExnOther ''AgentDependencyError'' ''qiskit-aer is not installed. Install it with `pip install -e backend[qiskit]`.'')
      else ge_execute E seed shots qc)"

definition default_agent_iterations :: "nat \<Rightarrow> int" where
  "default_agent_iterations n = max 1 \<lfloor>(pi / 4) * sqrt (2 ^ n)\<rfloor>"

definition agent_marked_state :: "'c grover_env \<Rightarrow> nat \<Rightarrow> (string, json) dict \<Rightarrow> string" where
  "agent_marked_state E n params =
     (let s = py_strip (json_str (ge_show E) (dict_get_or (JStr ''101'') params ''marked_state'')) in
      if length s \<noteq> n then replicate n (CHR ''1'') else s)"

definition grover_output :: "'c grover_env \<Rightarrow> int \<Rightarrow> nat \<Rightarrow> string \<Rightarrow> int \<Rightarrow> counts \<Rightarrow> agent_run_output" where
  "grover_output E shots n marked_state iterations c =
     (let displayed_key = rev marked_state;
          fidelity = of_int (dict_get_or 0 c displayed_key) / of_int shots;
          backaction = max 0 (1 - fidelity) in
      \<lparr>ro_agent = am_name grover_metadata, ro_ok = True,
       ro_kpis = [(''fidelity'', JFloat (py_round 6 fidelity)), (''latency_ms'', JFloat (py_round 2 (ge_elapsed_ms E))),
         (''backaction'', JFloat (py_round 6 backaction)), (''n_qubits'', JInt (int n)), (''iterations'', JInt iterations),
         (''marked_state'', JStr marked_state)],
       ro_data = [(''counts'', JObj (map (\<lambda>(k, v). (k, JInt v)) c)), (''displayed_marked_state_key'', JStr displayed_key)],
       ro_warnings = []\<rparr>)"

definition grover_run :: "'c grover_env \<Rightarrow> agent_run_input \<Rightarrow> agent_run_output py" where
  "grover_run E run_input =
     (let params = ri_params run_input in
      py_bind (agent_int (dict_get_or (JInt 3) params ''n_qubits'')) (\<lambda>n_qubits.
        if n_qubits < 1 \<or> n_qubits > 10
        then Inl (ExnOther ''AgentConfigError'' ''n_qubits must be between 1 and 10 for this preset.'')
        else
          (let n = nat n_qubits; marked_state = agent_marked_state E n params in
           py_bind (agent_int (dict_get_or (JInt (default_agent_iterations n)) params ''iterations'')) (\<lambda>iterations.
           py_bind (agent_grover_circuit (ge_circuits E) (ge_has_qiskit E) n marked_state iterations) (\<lambda>qc.
           py_bind (run_counts E qc (ri_shots run_input) (ri_seed run_input)) (\<lambda>c.
             Inr (grover_output E (ri_shots run_input) n marked_state iterations c)))))))"

definition self_test_input :: agent_run_input where
  "self_test_input = \<lparr>ri_shots = 64, ri_target = ''simulator'', ri_seed = None,
     ri_params = [(''n_qubits'', JInt 3), (''marked_state'', JStr ''101''), (''iterations'', JInt 1)], ri_metadata = []\<rparr>"

fun json_float :: "json \<Rightarrow> real" where
  "json_float (JFloat x) = x"
| "json_float (JInt i) = of_int i"
| "json_float _ = 0"

definition grover_self_test :: "'c grover_env \<Rightarrow> agent_self_test" where
  "grover_self_test E =
     (case grover_run E self_test_input of
        Inl e \<Rightarrow> \<lparr>st_agent = am_name grover_metadata, st_ok = False, st_details = [(''error'', JStr (exn_text e))], st_warnings = []\<rparr>
      | Inr out \<Rightarrow>
          (let fidelity = json_float (dict_get_or (JFloat 0) (ro_kpis out) ''fidelity''); ok = fidelity > 2 / 10 in
           \<lparr>st_agent = am_name grover_metadata, st_ok = ok,
            st_details = [(''fidelity'', JFloat fidelity), (''kpis'', JObj (ro_kpis out))],
            st_warnings = (if ok then [] else [''Grover self-test fidelity looked low. Qiskit install may be incomplete.''])\<rparr>))"

definition grover_agent :: "'c grover_env \<Rightarrow> agent" where
  "grover_agent E = \<lparr>ag_info = grover_metadata, ag_run = grover_run E, ag_self_test = Inr (grover_self_test E)\<rparr>"

text \<open>
  The sandbox service (\<open>agents/grover/app/main.py\<close>) runs no circuit: a dry run shows the first 200
  characters of the prompt, anything else a hint.
\<close>

record sandbox_request =
  sb_prompt :: string
  sb_session_id :: "string option"
  sb_dry_run :: bool

record sandbox_response =
  sr_ok :: bool
  sr_agent :: string
  sr_latency_ms :: int
  sr_dry_run :: bool
  sr_result :: "(string, json) dict"

definition sandbox_service_run :: "real \<Rightarrow> sandbox_request \<Rightarrow> sandbox_response" where
  "sandbox_service_run elapsed_s req =
     (let answer =
        (if sb_dry_run req
         then [(''message'', JStr ''Grover sandbox received prompt (dry_run)''), (''prompt_preview'', JStr (take 200 (sb_prompt req))),
           (''session_id'', json_opt JStr (sb_session_id req))]
         else [(''message'', JStr ''Non-dry-run is not wired yet in sandbox v0.1''),
           (''action_hint'', JStr ''Set dry_run=true until model/hardware wiring is enabled'')]) in
      \<lparr>sr_ok = True, sr_agent = ''grover'', sr_latency_ms = py_int (elapsed_s * 1000), sr_dry_run = sb_dry_run req, sr_result = answer\<rparr>)"

definition sandbox_health :: "(string \<Rightarrow> string option) \<Rightarrow> real \<Rightarrow> (string, json) dict" where
  "sandbox_health env uptime_s =
     [(''ok'', JBool True), (''service'', JStr ''agent-grover''), (''uptime_s'', JFloat (py_round 3 uptime_s)),
      (''mode'', JStr (case env ''SYNQC_MODE'' of None \<Rightarrow> ''local'' | Some v \<Rightarrow> v))]"

section \<open>What a run reports\<close>

lemma round_even_near: "\<bar>of_int (round_even x) - x\<bar> \<le> 1 / 2"
  unfolding round_even_def Let_def by (simp split: if_splits)

lemma py_round_near: "\<bar>py_round d x - x\<bar> \<le> 1 / 2 / 10 ^ d"
proof -
  have "py_round d x - x = (of_int (round_even (x * 10 ^ d)) - x * 10 ^ d) / 10 ^ d"
    by (simp add: py_round_def diff_divide_distrib)
  then have "\<bar>py_round d x - x\<bar> = \<bar>of_int (round_even (x * 10 ^ d)) - x * 10 ^ d\<bar> / 10 ^ d" by simp
  also have "\<dots> \<le> 1 / 2 / 10 ^ d" using round_even_near by (intro divide_right_mono) simp_all
  finally show ?thesis .
qed

text \<open>Every run that the parameters do not refuse marks a bit string or is refused by the circuit.\<close>

lemma agent_marked_length: "length (agent_marked_state E n params) = n"
  by (simp add: agent_marked_state_def Let_def)

lemma grover_run_returns:
  assumes "grover_run E i = Inr out"
  obtains n s k qc c where "1 \<le> n" "n \<le> 10" "s = agent_marked_state E n (ri_params i)" "bitstring n s"
    and "agent_grover_circuit (ge_circuits E) True n s k = Inr qc" and "ge_execute E (ri_seed i) (ri_shots i) qc = Inr c"
    and "out = grover_output E (ri_shots i) n s k c"
proof -
  obtain m where m: "agent_int (dict_get_or (JInt 3) (ri_params i) ''n_qubits'') = Inr m" "1 \<le> m" "m \<le> 10"
    using assms by (auto simp: grover_run_def Let_def not_less elim!: py_bind_InrE split: if_splits)
  let ?s = "agent_marked_state E (nat m) (ri_params i)"
  obtain k qc c where r: "agent_grover_circuit (ge_circuits E) (ge_has_qiskit E) (nat m) ?s k = Inr qc"
      "run_counts E qc (ri_shots i) (ri_seed i) = Inr c" "out = grover_output E (ri_shots i) (nat m) ?s k c"
    using assms m by (auto simp: grover_run_def Let_def elim!: py_bind_InrE)
  have "ge_has_qiskit E" "bitstring (nat m) ?s"
    using r(1) by (auto simp: agent_grover_circuit_def bitstring_def split: if_splits)
  moreover have "ge_execute E (ri_seed i) (ri_shots i) qc = Inr c" using r(2) by (simp add: run_counts_def split: if_splits)
  ultimately show ?thesis using that [of "nat m" ?s k qc c] m r by simp
qed

text \<open>
  With a sampler that meets the probabilities exactly the self test passes: it uses three qubits and
  one iteration, which find the marked string in 25 of 32 cases. It says nothing about two qubits.
\<close>

definition ideal_sampler :: "('c \<Rightarrow> amplitudes \<Rightarrow> amplitudes) \<Rightarrow> 'c grover_env \<Rightarrow> bool" where
  "ideal_sampler amp E \<longleftrightarrow>
     (\<forall>seed shots qc. \<exists>c. ge_execute E seed shots qc = Inr c \<and>
        (\<forall>key. of_int (dict_get_or 0 c key) = of_int shots * (amp qc zero_state (ones (rev key))) ^ 2))"

lemma sin_three: "sin (3 * t) = 3 * sin t - 4 * sin t ^ 3" for t :: real
proof -
  have "sin (3 * t) = sin (t + 2 * t)" by (simp add: mult.commute)
  also have "\<dots> = sin t * (1 - 2 * sin t ^ 2) + 2 * (cos t ^ 2) * sin t"
    by (simp only: sin_add cos_double_sin sin_double) (simp add: power2_eq_square)
  also have "cos t ^ 2 = 1 - sin t ^ 2" by (simp add: cos_squared_eq)
  finally show ?thesis by (simp add: algebra_simps power2_eq_square power3_eq_cube)
qed

lemma eighth: "sin (3 * arcsin (1 / sqrt 8)) ^ 2 = 25 / 32"
proof -
  have e: "sin (arcsin (1 / sqrt 8)) = 1 / sqrt 8" by (rule sin_arcsin) (simp_all add: order_trans [of "- 1" 0])
  then have "sin (3 * arcsin (1 / sqrt 8)) = 5 / 2 * (1 / sqrt 8)"
    unfolding sin_three e by (simp add: power3_eq_cube)
  then show ?thesis by (simp add: power_mult_distrib power_divide)
qed

lemma self_test_passes:
  assumes "circuit_laws (ge_circuits E) amp" and "ge_has_qiskit E" and "ge_has_aer E" and "ideal_sampler amp E"
  shows "st_ok (grover_self_test E)"
proof -
  have s: "agent_marked_state E 3 (ri_params self_test_input) = ''101''"
    by (simp add: agent_marked_state_def self_test_input_def json_str_def dict_get_or_def) code_simp
  obtain qc where qc: "agent_grover_circuit (ge_circuits E) True 3 ''101'' 1 = Inr qc" by (simp add: agent_grover_circuit_def)
  obtain c where c: "ge_execute E None 64 qc = Inr c"
      "\<And>key. of_int (dict_get_or 0 c key) = of_int 64 * (amp qc zero_state (ones (rev key))) ^ 2"
    using assms(4) unfolding ideal_sampler_def by blast
  have "(amp qc zero_state (ones ''101'')) ^ 2 = 25 / 32"
    using agent_success [OF assms(1) _ _ qc] eighth by (simp add: bitstring_def)
  then have f: "of_int (dict_get_or 0 c (rev ''101'')) / of_int 64 = (25 / 32 :: real)" using c(2) [of "rev ''101''"] by simp
  have "grover_run E self_test_input = Inr (grover_output E 64 3 ''101'' 1 c)"
    using s qc c(1) assms(2,3) by (simp add: grover_run_def self_test_input_def dict_get_or_def agent_int_def Let_def run_counts_def)
  moreover have "2 / 10 < py_round 6 (25 / 32)" using py_round_near [of 6 "25 / 32"] by (simp add: abs_if split: if_splits)
  ultimately show ?thesis using f by (simp add: grover_self_test_def grover_output_def Let_def dict_get_or_def)
qed

end
