(* ===== verification/Log_Context.thy ===== *)
theory Log_Context
  imports Models
begin

text \<open>
  Structured logging (\<open>logging_utils.py\<close>): the formatter of a log line, the loggers, and the log
  context that \<open>_inject_log_context\<close> of \<open>api.py\<close> pushes around every request. The context is one
  global dictionary of the process, \<open>log_state\<close>: \<open>None\<close> before the first configuration. Requests
  overlap, because the middleware awaits the handler inside its \<open>with\<close> block; a run of the process is
  therefore a list of \<open>Enter\<close> and \<open>Leave\<close> events of several requests.
\<close>

type_synonym extras = "(string, json) dict"
type_synonym log_state = "extras option"

section \<open>Loggers and lines\<close>

definition context_vars :: "log_state \<Rightarrow> extras" where
  "context_vars c = (case c of None \<Rightarrow> [] | Some e \<Rightarrow> e)"

definition configure_json_logging :: "log_state \<Rightarrow> log_state" where
  "configure_json_logging c = Some []"

text \<open>\<open>set_log_context\<close>: fields that are \<open>None\<close> are dropped.\<close>

definition set_log_context :: "(string \<times> json option) list \<Rightarrow> log_state \<Rightarrow> log_state" where
  "set_log_context kvs c =
     Some (dict_update_all (List.map_filter (\<lambda>(k, v). map_option (\<lambda>x. (k, x)) v) kvs) (context_vars c))"

text \<open>A logger copies the context of the moment it is made; \<open>process\<close> adds the extras of the call.\<close>

definition get_logger :: "log_state \<Rightarrow> extras \<times> log_state" where
  "get_logger c = (let c1 = (case c of None \<Rightarrow> configure_json_logging c | Some e \<Rightarrow> c) in (context_vars c1, c1))"

definition process_extras :: "extras \<Rightarrow> extras \<Rightarrow> extras" where
  "process_extras logger_extra record_extra = dict_update_all record_extra logger_extra"

definition reserved_attributes :: "string list" where
  "reserved_attributes =
     [''name'', ''msg'', ''args'', ''levelname'', ''levelno'', ''pathname'', ''filename'', ''module'', ''exc_info'',
      ''exc_text'', ''stack_info'', ''lineno'', ''funcName'', ''created'', ''msecs'', ''relativeCreated'', ''thread'',
      ''threadName'', ''processName'', ''process'']"

text \<open>\<open>JsonFormatter.format\<close>: \<open>attributes\<close> are the record's own and the extras of the call.\<close>

definition format_record :: "string \<Rightarrow> string \<Rightarrow> string \<Rightarrow> string \<Rightarrow> extras \<Rightarrow> string option \<Rightarrow> extras" where
  "format_record timestamp level logger_name message attributes exc_info =
     (let payload = [(''timestamp'', JStr timestamp), (''level'', JStr level), (''logger'', JStr logger_name), (''message'', JStr message)];
          own = filter (\<lambda>(k, v). k \<notin> set reserved_attributes \<and> \<not> py_startswith k ''_'') attributes;
          p1 = dict_update_all own payload in
      (case exc_info of None \<Rightarrow> p1 | Some t \<Rightarrow> dict_set ''exc_info'' (JStr t) p1))"

section \<open>Requests that overlap\<close>

datatype 'r log_event = Enter 'r "(string \<times> json option) list" | Leave 'r

text \<open>\<open>log_context\<close>: entering remembers a copy of the context and adds the fields; leaving puts the copy back.\<close>

definition enter_context :: "(string \<times> json option) list \<Rightarrow> log_state \<Rightarrow> extras \<times> log_state" where
  "enter_context kvs c =
     (let c1 = (case c of None \<Rightarrow> configure_json_logging c | Some e \<Rightarrow> c) in (context_vars c1, set_log_context kvs c1))"

definition leave_context :: "extras \<Rightarrow> log_state" where
  "leave_context prev = Some prev"

fun log_step :: "'r log_event \<Rightarrow> log_state \<times> ('r \<Rightarrow> extras) \<Rightarrow> log_state \<times> ('r \<Rightarrow> extras)" where
  "log_step (Enter r kvs) (c, saved) = (case enter_context kvs c of (prev, c1) \<Rightarrow> (c1, saved(r := prev)))"
| "log_step (Leave r) (c, saved) = (leave_context (saved r), saved)"

fun log_run :: "'r log_event list \<Rightarrow> log_state \<times> ('r \<Rightarrow> extras) \<Rightarrow> log_state \<times> ('r \<Rightarrow> extras)" where
  "log_run [] s = s"
| "log_run (e # es) s = log_run es (log_step e s)"

lemma log_run_append: "log_run (es @ fs) s = log_run fs (log_run es s)"
  by (induction es arbitrary: s) simp_all

text \<open>Requests that end in the opposite order of their beginning.\<close>

inductive nested :: "'r set \<Rightarrow> 'r log_event list \<Rightarrow> bool" where
  nested_nil: "nested {} []"
| nested_request: "nested R es \<Longrightarrow> r \<notin> R \<Longrightarrow> nested R' fs \<Longrightarrow> nested (insert r (R \<union> R')) (Enter r kvs # es @ Leave r # fs)"

inductive_cases nested_NilE: "nested R []"

lemma nested_keeps_saved: "nested R es \<Longrightarrow> r \<notin> R \<Longrightarrow> snd (log_run es (c, saved)) r = saved r"
proof (induction arbitrary: c saved r rule: nested.induct)
  case (nested_request R es q R' fs kvs)
  obtain c1 saved1 where 1: "log_run es (set_log_context kvs (Some (context_vars c)), saved(q := context_vars c)) = (c1, saved1)" by force
  have "saved1 r = saved r"
    using nested_request.IH(1) [of r "set_log_context kvs (Some (context_vars c))" "saved(q := context_vars c)", unfolded 1] nested_request.prems by simp
  moreover have e: "enter_context kvs c = (context_vars c, set_log_context kvs (Some (context_vars c)))"
    by (simp add: enter_context_def configure_json_logging_def context_vars_def split: option.splits)
  ultimately show ?case using nested_request.IH(2) [of r] nested_request.prems 1 by (simp add: log_run_append)
qed simp

text \<open>What a run leaves in the context: what the last request to leave found when it entered.\<close>

lemma last_leaver_decides: "fst (log_run (es @ [Leave r]) s) = Some (snd (log_run es s) r)"
  by (cases "log_run es s") (simp add: log_run_append leave_context_def)

lemma nested_restores: "nested R es \<Longrightarrow> fst (log_run es (Some e, saved)) = Some e"
proof (induction arbitrary: e saved rule: nested.induct)
  case (nested_request R es q R' fs kvs)
  let ?s = "(set_log_context kvs (Some e), saved(q := e))"
  obtain c1 saved1 where 1: "log_run es ?s = (c1, saved1)" by force
  have "saved1 q = e" using nested_keeps_saved [OF nested_request.hyps(1,2), of "fst ?s" "snd ?s"] 1 by simp
  moreover have "enter_context kvs (Some e) = (e, set_log_context kvs (Some e))"
    by (simp add: enter_context_def context_vars_def)
  ultimately show ?case using nested_request.IH(2) 1 by (simp add: log_run_append leave_context_def)
qed simp

text \<open>
  C37. The log context is restored only when requests end in the opposite order of their beginning.
  Nested requests leave the context as they found it. When two requests merely overlap, the fields of
  the first one stay in the context after both have ended, and the lines of the second lose theirs.
\<close>

theorem log_context_restored_when_nested:
  assumes "nested R es" and "a \<noteq> b"
  shows "fst (log_run es (Some e, saved)) = Some e \<and>
    fst (log_run [Enter a fa, Enter b fb, Leave a] (Some e, saved)) = Some e \<and>
    fst (log_run [Enter a fa, Enter b fb, Leave a, Leave b] (Some e, saved)) = set_log_context fa (Some e)"
  using nested_restores [OF assms(1)] assms(2)
  by (simp add: enter_context_def leave_context_def context_vars_def set_log_context_def)

theorem log_context_restored_when_nested_witness:
  "fst (log_run [Enter (1 :: nat) [(''request_id'', Some (JStr ''a''))], Enter 2 [], Leave 1, Leave 2] (Some [], \<lambda>r. [])) =
    Some [(''request_id'', JStr ''a'')]"
  using log_context_restored_when_nested [OF nested_nil, of "1 :: nat" 2 "[]" "\<lambda>r. []" "[(''request_id'', Some (JStr ''a''))]" "[]"]
  by (simp add: set_log_context_def context_vars_def List.map_filter_def)

text \<open>A logger made at import time keeps the empty context it was made with, whatever requests set later.\<close>

lemma module_loggers_have_no_context:
  "process_extras (fst (get_logger None)) extra = dict_update_all extra []"
  by (simp add: process_extras_def get_logger_def configure_json_logging_def context_vars_def)

text \<open>The record's own attributes never reach a line, but extras may replace its timestamp and level.\<close>

lemma reserved_not_printed:
  assumes "k \<in> set reserved_attributes" and "k \<noteq> ''exc_info''"
  shows "dict_get (format_record t l n m attributes exc) k = None"
proof -
  let ?own = "filter (\<lambda>(k, v). k \<notin> set reserved_attributes \<and> \<not> py_startswith k ''_'') attributes"
  have "k \<notin> {''timestamp'', ''level'', ''logger'', ''message''}" using assms(1) by (auto simp: reserved_attributes_def)
  moreover have "k \<notin> set (dict_keys ?own)" using assms(1) by auto
  then have "dict_get (dict_update_all ?own p) k = dict_get p k" for p by (rule get_update_all_same)
  ultimately show ?thesis using assms(2) by (simp add: format_record_def Let_def dict_simps split: option.splits)
qed

end
