(* ===== verification/Redis_Bus.thy ===== *)
theory Redis_Bus
  imports Models
begin

text \<open>
  The asynchronous Redis helpers of \<open>redis_bus.py\<close> and the client settings of \<open>redis_client.py\<close>: the
  settings read from the environment, the cached client, the ping of the health check, and the
  events. The environment is a function from names to texts. The server is an argument: what
  connecting, closing, pinging and publishing give; \<open>dump\<close> is \<open>json.dumps\<close> with the options of the source.
\<close>

type_synonym environment = "string \<Rightarrow> string option"

definition getenv :: "environment \<Rightarrow> string \<Rightarrow> string \<Rightarrow> string" where
  "getenv env name dflt = (case env name of None \<Rightarrow> dflt | Some v \<Rightarrow> v)"

definition truthy_flag :: "string option \<Rightarrow> bool" where
  "truthy_flag value = (py_lower (py_strip (or_str value [])) \<in> set [''1'', ''true'', ''yes'', ''y'', ''on''])"

record redis_settings =
  rd_enabled :: bool
  rd_url :: string
  rd_events_channel :: string
  rd_client_name :: string

definition stripped_or :: "string \<Rightarrow> string \<Rightarrow> string" where
  "stripped_or text dflt = (if py_strip text = [] then dflt else py_strip text)"

definition get_redis_settings :: "environment \<Rightarrow> redis_settings" where
  "get_redis_settings env =
     \<lparr>rd_enabled = truthy_flag (Some (getenv env ''REDIS_ENABLED'' ''true'')),
      rd_url = py_strip (getenv env ''REDIS_URL'' (getenv env ''SYNQC_REDIS_URL'' ''redis://localhost:6379/0'')),
      rd_events_channel = stripped_or (getenv env ''REDIS_EVENTS_CHANNEL'' ''synqc:events'') ''synqc:events'',
      rd_client_name = stripped_or (getenv env ''REDIS_CLIENT_NAME'' ''synqc-backend'') ''synqc-backend''\<rparr>"

text \<open>\<open>_env_float\<close>; \<open>parse\<close> is \<open>float\<close>, which gives nothing where it raises \<open>ValueError\<close>.\<close>

definition env_float :: "(string \<Rightarrow> real option) \<Rightarrow> environment \<Rightarrow> string \<Rightarrow> real \<Rightarrow> real" where
  "env_float parse env name dflt =
     (case env name of
        None \<Rightarrow> dflt
      | Some raw \<Rightarrow> if raw = [] then dflt else (case parse raw of None \<Rightarrow> dflt | Some x \<Rightarrow> x))"

text \<open>The cached client: made at the first use from the settings of that moment, kept until closed.\<close>

definition bus_client :: "(redis_settings \<Rightarrow> 'c) \<Rightarrow> environment \<Rightarrow> 'c option \<Rightarrow> 'c py \<times> 'c option" where
  "bus_client connect env cached =
     (let s = get_redis_settings env in
      if \<not> rd_enabled s then (Inl (ExnRuntime ''Redis disabled (REDIS_ENABLED=false)''), cached)
      else (case cached of Some c \<Rightarrow> (Inr c, cached) | None \<Rightarrow> (Inr (connect s), Some (connect s))))"

text \<open>\<open>finally\<close> forgets the client even when closing it raises.\<close>

definition close_redis :: "('c \<Rightarrow> unit py) \<Rightarrow> 'c option \<Rightarrow> unit py \<times> 'c option" where
  "close_redis close cached = (case cached of None \<Rightarrow> (Inr (), None) | Some c \<Rightarrow> (close c, None))"

record ping_result =
  pi_enabled :: bool
  pi_ok :: bool
  pi_latency_ms :: "real option"
  pi_detail :: "string option"
  pi_client :: "string option"

definition redis_ping :: "(redis_settings \<Rightarrow> 'c) \<Rightarrow> ('c \<Rightarrow> bool py) \<Rightarrow> (py_exn \<Rightarrow> string) \<Rightarrow> real \<Rightarrow> environment \<Rightarrow> 'c option
    \<Rightarrow> ping_result \<times> 'c option" where
  "redis_ping connect ping repr elapsed_s env cached =
     (let s = get_redis_settings env in
      if \<not> rd_enabled s
      then (\<lparr>pi_enabled = False, pi_ok = False, pi_latency_ms = None, pi_detail = Some ''disabled'', pi_client = None\<rparr>, cached)
      else (case bus_client connect env cached of
          (client, cached1) \<Rightarrow>
            (case py_bind client ping of
               Inr ok \<Rightarrow> (\<lparr>pi_enabled = True, pi_ok = ok, pi_latency_ms = Some (elapsed_s * 1000), pi_detail = None,
                 pi_client = Some (rd_client_name s)\<rparr>, cached1)
             | Inl e \<Rightarrow> (\<lparr>pi_enabled = True, pi_ok = False, pi_latency_ms = None, pi_detail = Some (repr e),
                 pi_client = Some (rd_client_name s)\<rparr>, cached1))))"

definition event_envelope :: "string \<Rightarrow> real \<Rightarrow> string \<Rightarrow> string \<Rightarrow> (string, json) dict \<Rightarrow> (string, json) dict" where
  "event_envelope event_id now topic source body =
     [(''id'', JStr event_id), (''ts_ms'', JInt (py_int (now * 1000))), (''topic'', JStr topic), (''source'', JStr source),
      (''payload'', JObj body)]"

definition publish_event :: "(redis_settings \<Rightarrow> 'c) \<Rightarrow> ('c \<Rightarrow> string \<Rightarrow> string \<Rightarrow> unit py) \<Rightarrow> ((string, json) dict \<Rightarrow> string) \<Rightarrow> string \<Rightarrow> real
    \<Rightarrow> environment \<Rightarrow> string \<Rightarrow> (string, json) dict \<Rightarrow> string option \<Rightarrow> 'c option \<Rightarrow> string py \<times> 'c option" where
  "publish_event connect publish dump event_id now env topic body channel cached =
     (let s = get_redis_settings env in
      if \<not> rd_enabled s then (Inr [], cached)
      else
        (let message = dump (event_envelope event_id now topic (rd_client_name s) body) in
         case bus_client connect env cached of
           (client, cached1) \<Rightarrow>
             (py_bind client (\<lambda>c. py_bind (publish c (or_str channel (rd_events_channel s)) message) (\<lambda>_. Inr event_id)), cached1)))"

text \<open>Pinging never raises, whatever the server does, and publishing reaches no server when Redis is disabled.\<close>

lemma ping_never_raises:
  "pi_enabled (fst (redis_ping connect ping repr t env cached)) = rd_enabled (get_redis_settings env) \<and>
    (if pi_ok (fst (redis_ping connect ping repr t env cached)) then pi_detail (fst (redis_ping connect ping repr t env cached)) = None else True)"
  by (simp add: redis_ping_def Let_def split: prod.split sum.split)

lemma disabled_publishes_nothing:
  "\<not> rd_enabled (get_redis_settings env) \<Longrightarrow> publish_event connect publish dump i now env topic body channel cached = (Inr [], cached)"
  by (simp add: publish_event_def Let_def)

text \<open>The first client stays in use: changing the environment later does not reconnect.\<close>

lemma client_is_kept:
  "rd_enabled (get_redis_settings env') \<Longrightarrow> bus_client connect env None = (Inr c, cached) \<Longrightarrow> bus_client connect env' cached = (Inr c, cached)"
  by (auto simp: bus_client_def Let_def split: if_splits)

end
