(* ===== verification/Edge_Identity.thy ===== *)
theory Edge_Identity
  imports Middleware
begin

text \<open>
  The middleware of the hosted deployment (\<open>security/edge_identity.py\<close>): requests must carry the identity
  headers that the edge proxy sets. The application it guards is given the two headers as the source
  stores them in the request's state.
\<close>

definition should_require_edge_identity :: "string option \<Rightarrow> bool" where
  "should_require_edge_identity value =
     (py_lower (py_strip (case value of None \<Rightarrow> ''false'' | Some v \<Rightarrow> v)) \<in> set [''1'', ''true'', ''yes'', ''on''])"

record edge_config =
  ec_enabled :: bool
  ec_exempt_paths :: "string list"

definition edge_init :: "bool \<Rightarrow> string list option \<Rightarrow> edge_config" where
  "edge_init enabled exempt_paths =
     \<lparr>ec_enabled = enabled,
      ec_exempt_paths = (case exempt_paths of None \<Rightarrow> [''/health''] | Some [] \<Rightarrow> [''/health''] | Some ps \<Rightarrow> ps)\<rparr>"

type_synonym edge_identity = "string option \<times> string option"

definition edge_refusal :: http_response where
  "edge_refusal = json_response 401 (object_text [(''error_message'', quoted ''Missing edge identity headers''),
     (''action_hint'', quoted ''Access the API through the hosted edge proxy (UI origin).'')])"

definition edge_middleware :: "edge_config \<Rightarrow> string \<Rightarrow> (edge_identity \<Rightarrow> 's app) \<Rightarrow> 's app" where
  "edge_middleware C path app q s =
     (if \<not> ec_enabled C then app (None, None) q s
      else if path \<in> set (ec_exempt_paths C) then app (None, None) q s
      else
        (let user = (if truthy_str (header_of q ''X-Auth-Request-User'') then header_of q ''X-Auth-Request-User''
                     else header_of q ''X-Auth-Request-Email'') in
         if \<not> truthy_str user then (edge_refusal, s)
         else app (header_of q ''X-Auth-Request-User'', header_of q ''X-Auth-Request-Email'') q s))"

text \<open>
  What reaches the application on a guarded path carries at least one of the headers. Nothing ties the
  headers to the proxy: any client that reaches the application directly can send them.
\<close>

lemma edge_guards:
  assumes "ec_enabled C" and "path \<notin> set (ec_exempt_paths C)"
  shows "edge_middleware C path app q s =
    (if truthy_str (header_of q ''X-Auth-Request-User'') \<or> truthy_str (header_of q ''X-Auth-Request-Email'')
     then app (header_of q ''X-Auth-Request-User'', header_of q ''X-Auth-Request-Email'') q s
     else (edge_refusal, s))"
  using assms by (simp add: edge_middleware_def Let_def)

lemma edge_headers_are_trusted:
  "header_of (q\<lparr>hq_headers := dict_set ''x-auth-request-user'' u (hq_headers q)\<rparr>) ''X-Auth-Request-User'' = Some u"
proof -
  have "py_lower ''X-Auth-Request-User'' = ''x-auth-request-user''" by code_simp
  then show ?thesis by (simp add: header_of_def dict_simps)
qed

end
