(* ===== verification/Api_Health.thy ===== *)
theory Api_Health
  imports Api
begin

text \<open>
  The payload of the health route of \<open>api.py\<close>, which \<open>health_route\<close> builds and caches: the settings it
  shows, the probes of the other components, each of which may raise, and the warnings. What a probe
  gives is an argument, as are the version, the time and the ping of Redis.
\<close>

text \<open>\<open>_safe\<close>: a probe that raises is replaced by an empty object and leaves a warning.\<close>

definition safe_probe :: "string \<Rightarrow> json py \<Rightarrow> json \<times> string list" where
  "safe_probe label probe =
     (case probe of Inr v \<Rightarrow> (v, []) | Inl e \<Rightarrow> (JObj [], [label @ '' unavailable: '' @ exn_text e]))"

record health_probes =
  hb_budget :: "json py"
  hb_queue :: "json py"
  hb_queue_health :: "json py"
  hb_control_profile :: "json py"
  hb_qubit_usage :: "json py"
  hb_persistence :: "json py"
  hb_provider_metrics :: "json py"

definition probe_list :: "health_probes \<Rightarrow> (string \<times> string \<times> json py) list" where
  "probe_list P =
     [(''budget_tracker'', ''budget'', hb_budget P), (''queue'', ''queue'', hb_queue P),
      (''queue_connectivity'', ''queue.health'', hb_queue_health P), (''control_profile'', ''control_profile'', hb_control_profile P),
      (''qubit_usage'', ''qubit_usage'', hb_qubit_usage P), (''persistence'', ''persistence'', hb_persistence P),
      (''provider_metrics'', ''provider_metrics'', hb_provider_metrics P)]"

definition assistant_view :: "settings \<Rightarrow> string option \<Rightarrow> json" where
  "assistant_view S env_key =
     JObj [(''openai_chat_ready'', JBool (truthy_str (st_openai_api_key S) \<or> truthy_str env_key)), (''model'', JStr (st_openai_model S))]"

definition metrics_view :: "settings \<Rightarrow> int \<Rightarrow> json" where
  "metrics_view S restarts =
     JObj [(''enabled'', JBool (st_enable_metrics S)), (''port'', JInt (st_metrics_port S)),
       (''collection_interval_seconds'', JInt (st_metrics_collection_interval_seconds S)),
       (''guard'', JObj [(''check_interval_seconds'', JInt (st_metrics_guard_check_interval_seconds S)),
         (''restart_backoff_seconds'', JInt (st_metrics_guard_restart_backoff_seconds S)), (''restart_count'', JInt restarts)])]"

definition presets_view :: json where
  "presets_view = JList (map (\<lambda>p. JStr (preset_value p))
     [HELLO_QUANTUM_SIM, HEALTH, LATENCY, BACKEND_COMPARE, DPD_DEMO, GROVER_DEMO, MULTICALL_DUAL_CLOCKING])"

definition settings_view :: "settings \<Rightarrow> string \<Rightarrow> string \<Rightarrow> string option \<Rightarrow> int \<Rightarrow> int \<Rightarrow> (string, json) dict" where
  "settings_view S version server_time env_key restarts target_count =
     [(''status'', JStr ''ok''), (''version'', JStr version), (''server_time'', JStr server_time),
      (''env'', JStr (case st_env S of Dev \<Rightarrow> ''dev'' | Prod \<Rightarrow> ''prod'')),
      (''max_shots_per_experiment'', JInt (st_max_shots_per_experiment S)), (''max_shots_per_session'', JInt (st_max_shots_per_session S)),
      (''default_shot_budget'', JInt (st_default_shot_budget S)), (''allow_remote_hardware'', JBool (st_allow_remote_hardware S)),
      (''require_api_key'', JBool (st_require_api_key S)), (''redis_url'', json_opt JStr (st_redis_url S)),
      (''worker_pool_size'', JInt (st_worker_pool_size S)), (''cors_allow_origins'', JList (map JStr (cors_origins S))),
      (''assistant'', assistant_view S env_key), (''metrics'', metrics_view S restarts), (''presets'', presets_view),
      (''visible_target_count'', JInt target_count)]"

definition health_warnings :: "health_probes \<Rightarrow> string list \<Rightarrow> string list" where
  "health_warnings P startup_warnings = concat (map (\<lambda>(key, label, probe). snd (safe_probe label probe)) (probe_list P)) @ startup_warnings"

text \<open>The ping comes last and has a warning of its own in front of the others.\<close>

definition health_payload :: "settings \<Rightarrow> string \<Rightarrow> string \<Rightarrow> string option \<Rightarrow> int \<Rightarrow> int \<Rightarrow> health_probes \<Rightarrow> string list \<Rightarrow> json py
    \<Rightarrow> (string, json) dict" where
  "health_payload S version server_time env_key restarts target_count P startup_warnings ping =
     (let payload = settings_view S version server_time env_key restarts target_count @
            map (\<lambda>(key, label, probe). (key, fst (safe_probe label probe))) (probe_list P);
          (redis, first) = (case ping of Inr v \<Rightarrow> (v, [])
            | Inl e \<Rightarrow> (JObj [(''ok'', JBool False), (''error'', JStr (exn_text e))], [''Redis ping failed; continuing without cache.'']));
          shown = first @ health_warnings P startup_warnings in
      if shown = [] then dict_set ''redis'' redis payload
      else (if first = [] then dict_set ''warnings'' (JList (map JStr shown)) (dict_set ''redis'' redis payload)
        else dict_set ''redis'' redis (dict_set ''warnings'' (JList (map JStr shown)) payload)))"

definition build_health :: "settings \<Rightarrow> string \<Rightarrow> string \<Rightarrow> string option \<Rightarrow> int \<Rightarrow> int \<Rightarrow> ('s \<Rightarrow> health_probes) \<Rightarrow> string list
    \<Rightarrow> json py \<Rightarrow> 's \<Rightarrow> (string, json) dict \<times> 's" where
  "build_health S version server_time env_key restarts target_count probes startup_warnings ping s =
     (health_payload S version server_time env_key restarts target_count (probes s) startup_warnings ping, s)"

section \<open>What the payload shows\<close>

lemma health_get:
  "dict_get (health_payload S v t k r n P ws ping) ''redis_url'' = Some (json_opt JStr (st_redis_url S))"
  "dict_get (health_payload S v t k r n P ws ping) ''status'' = Some (JStr ''ok'')"
  by (simp_all add: health_payload_def settings_view_def Let_def dict_simps split: prod.splits)

text \<open>
  The route needs no key, answers \<open>ok\<close> whatever fails, and shows the address of the Redis server with
  the password it may hold. The payload is cached: a failing probe is reported for as long.
\<close>

lemma health_is_public:
  assumes "health_route S now done (build_health S v t k r n probes ws ping) (cache, s) = (p, cache', s')"
    and "hc_payload cache = None"
  shows "dict_get p ''status'' = Some (JStr ''ok'') \<and> dict_get p ''redis_url'' = Some (json_opt JStr (st_redis_url S))"
  using assms by (auto simp: health_route_def build_health_def Let_def health_get split: if_splits)

lemma health_warns_of_each_failure:
  assumes "(key, label, Inl e) \<in> set (probe_list P)"
  shows "\<exists>ws'. dict_get (health_payload S v t k r n P ws ping) ''warnings'' = Some (JList (map JStr ws')) \<and>
    label @ '' unavailable: '' @ exn_text e \<in> set ws'"
proof -
  have w: "label @ '' unavailable: '' @ exn_text e \<in> set (health_warnings P ws)"
    using assms by (force simp: health_warnings_def safe_probe_def)
  then have "health_warnings P ws \<noteq> []" by auto
  then have e: "dict_get (health_payload S v t k r n P ws ping) ''warnings'' =
    Some (JList (map JStr ((case ping of Inr v \<Rightarrow> [] | Inl e \<Rightarrow> [''Redis ping failed; continuing without cache.'']) @ health_warnings P ws)))"
    by (cases ping) (simp_all add: health_payload_def Let_def get_set)
  show ?thesis unfolding e by (rule exI, rule conjI, rule refl) (use w in simp)
qed

end
