(* ===== verification/Run_Lifecycle.thy ===== *)
theory Run_Lifecycle
  imports Api Worker
begin

text \<open>
  A run from its submission to the answer of the status route, over the API (\<open>api.py\<close>), the shared
  queue (\<open>run_queue.py\<close>) and a worker (\<open>worker.py\<close>) together: what the record of an open run holds,
  that no step touches the record of an ended one, and what polling answers from then on.
\<close>

section \<open>The record of an ended run\<close>

definition run_ended :: "(string \<Rightarrow> string option) \<Rightarrow> bool" where
  "run_ended h = (h ''status'' = Some (run_status_value SUCCEEDED) \<or> h ''status'' = Some (run_status_value FAILED))"

lemma run_ended_status:
  "status_of v a = Some (run_status_value x) \<Longrightarrow> run_ended (rv_hash v (runq_job_key a)) \<longleftrightarrow> x \<in> {SUCCEEDED, FAILED}"
  by (auto simp: run_ended_def status_of_def)

lemma step_keeps_ended:
  assumes L: "redis_laws K V" and ok: "runq_ok V T s" and st: "runq_step K T s e s'"
    and a: "a \<in> set (rz_ids s)" "run_ended (rv_hash (V (rz_redis s)) (runq_job_key a))"
  shows "a \<in> set (rz_ids s') \<and> rv_hash (V (rz_redis s')) (runq_job_key a) = rv_hash (V (rz_redis s)) (runq_job_key a)"
proof -
  have open_run: "a \<noteq> qu_id job" if "job \<in> set (rz_claimed s) \<union> set (rz_active s)" for job
  proof
    assume i: "a = qu_id job"
    from that obtain x where x: "status_of (V (rz_redis s)) (qu_id job) = Some (run_status_value x)" "x \<in> {QUEUED, RUNNING}"
      using runq_okD(5,6) [OF ok] by blast
    show False using run_ended_status [OF x(1)] a(2) x(2) by (auto simp: i)
  qed
  from st show ?thesis
  proof cases
    case (rq_enqueue b now req session M ans r M')
    note c = enqueue_room [OF ok rq_enqueue(4)]
    show ?thesis using enqueue_counters(8) [OF L c(1,2) finite_set rq_enqueue(3) c(3) rq_enqueue(6), of a] a(1) rq_enqueue(2,3) by auto
  next
    case (rq_pop b r)
    then show ?thesis using pop_view(1) [OF L rq_pop(3)] a(1) by (simp add: pop_pending_simps)
  next
    case (rq_claim b now job)
    then show ?thesis using a(1) by simp
  next
    case (rq_drop b now)
    then show ?thesis using a(1) by simp
  next
    case (rq_mark job now job' r)
    then show ?thesis using mark_views(3) [OF L ok rq_mark(3,4), of a] open_run [of job] a(1) by simp
  next
    case (rq_start job)
    then show ?thesis using count_views(3) [OF L ok rq_start(3), of a] a(1) by simp
  next
    case (rq_success job now res job' r)
    then show ?thesis using success_views(3) [OF L ok rq_success(3,4), of a] open_run [of job] a(1) by simp
  next
    case (rq_failure job now code msg hint det job' r)
    then show ?thesis using failure_views(4) [OF L ok rq_failure(3,4), of a] open_run [of job] a(1) by simp
  qed
qed

lemma runs_keep_ended:
  assumes L: "redis_laws K V" and ok: "runq_ok V T s" and st: "runs (runq_step K T) s es s'"
    and a: "a \<in> set (rz_ids s)" "run_ended (rv_hash (V (rz_redis s)) (runq_job_key a))"
  shows "rv_hash (V (rz_redis s')) (runq_job_key a) = rv_hash (V (rz_redis s)) (runq_job_key a)"
proof -
  let ?h = "rv_hash (V (rz_redis s)) (runq_job_key a)"
  have "a \<in> set (rz_ids s') \<and> rv_hash (V (rz_redis s')) (runq_job_key a) = ?h"
  proof (rule runq.runs_induct_ok [OF st])
    show "redis_laws K V \<and> runq_ok V T s" using L ok by blast
    show "a \<in> set (rz_ids s) \<and> rv_hash (V (rz_redis s)) (runq_job_key a) = ?h" using a(1) by blast
    show "a \<in> set (rz_ids t') \<and> rv_hash (V (rz_redis t')) (runq_job_key a) = ?h"
      if "redis_laws K V \<and> runq_ok V T t" "a \<in> set (rz_ids t) \<and> rv_hash (V (rz_redis t)) (runq_job_key a) = ?h" "runq_step K T t e t'"
      for t e t'
      using step_keeps_ended [OF L _ that(3), of a] that(1,2) a(2) by simp
  qed
  then show ?thesis by blast
qed

section \<open>The record of an open run\<close>

text \<open>Only ending a run writes the fields of its outcome.\<close>

definition outcome_fields :: "string set" where
  "outcome_fields = {''finished_at'', ''error'', ''error_code'', ''error_message'', ''error_detail'', ''action_hint'', ''result_json''}"

definition records_fresh :: "redis_view \<Rightarrow> string list \<Rightarrow> bool" where
  "records_fresh v ids =
     (\<forall>a. (a \<notin> set ids \<longrightarrow> rv_hash v (runq_job_key a) = Map.empty) \<and>
        (\<not> run_ended (rv_hash v (runq_job_key a)) \<longrightarrow> (\<forall>f \<in> outcome_fields. rv_hash v (runq_job_key a) f = None)))"

lemma records_freshI:
  assumes "records_fresh v ids" and "set ids \<subseteq> set ids'" and "a \<in> set ids'"
    and "\<And>b. b \<noteq> a \<Longrightarrow> rv_hash v' (runq_job_key b) = rv_hash v (runq_job_key b)"
    and "run_ended (rv_hash v' (runq_job_key a)) \<or> (\<forall>f \<in> outcome_fields. rv_hash v' (runq_job_key a) f = None)"
  shows "records_fresh v' ids'"
  unfolding records_fresh_def
proof
  fix b
  show "(b \<notin> set ids' \<longrightarrow> rv_hash v' (runq_job_key b) = Map.empty) \<and>
      (\<not> run_ended (rv_hash v' (runq_job_key b)) \<longrightarrow> (\<forall>f\<in>outcome_fields. rv_hash v' (runq_job_key b) f = None))"
  proof (cases "b = a")
    case True show ?thesis unfolding True using assms(3,5) by blast
  next
    case False
    from assms(4) [OF this] show ?thesis using assms(1,2) unfolding records_fresh_def by auto
  qed
qed

lemma step_keeps_fresh:
  assumes L: "redis_laws K V" and ok: "runq_ok V T s" and st: "runq_step K T s e s'"
    and f: "records_fresh (V (rz_redis s)) (rz_ids s)"
  shows "records_fresh (V (rz_redis s')) (rz_ids s')"
proof -
  from st show ?thesis
  proof cases
    case (rq_enqueue a now req session M ans r M')
    note c = enqueue_room [OF ok rq_enqueue(4)]
    note v = enqueue_counters [OF L c(1,2) finite_set rq_enqueue(3) c(3) rq_enqueue(6)]
    have "rv_hash (V (rz_redis s)) (runq_job_key a) = Map.empty" using f rq_enqueue(3) by (simp add: records_fresh_def)
    then have "\<forall>f \<in> outcome_fields. rv_hash (V r) (runq_job_key a) f = None"
      by (simp add: v(5) outcome_fields_def)
    then show ?thesis
      using rq_enqueue(2) v(8) by (intro records_freshI [OF f, where a = a]) auto
  next
    case (rq_pop b r)
    then show ?thesis using f pop_view(1) [OF L rq_pop(3)] by (simp add: records_fresh_def pop_pending_simps)
  next
    case (rq_claim b now job)
    then show ?thesis using f by simp
  next
    case (rq_drop b now)
    then show ?thesis using f by simp
  next
    case (rq_start job)
    then show ?thesis using f count_views(3) [OF L ok rq_start(3)] by (simp add: records_fresh_def)
  next
    case (rq_mark job now job' r)
    have q: "qu_id job \<in> set (rz_ids s)" "status_of (V (rz_redis s)) (qu_id job) = Some (run_status_value QUEUED)"
      using runq_okD(5) [OF ok] rq_mark(3) by blast+
    have "\<forall>f \<in> outcome_fields. rv_hash (V (rz_redis s)) (runq_job_key (qu_id job)) f = None"
      using f run_ended_status [OF q(2)] by (auto simp: records_fresh_def)
    then have "\<forall>f \<in> outcome_fields. rv_hash (V r) (runq_job_key (qu_id job)) f = None"
      by (simp add: mark_views(3) [OF L ok rq_mark(3,4)] started_record_def outcome_fields_def)
    then show ?thesis
      using rq_mark(2) q(1) mark_views(3) [OF L ok rq_mark(3,4)] by (intro records_freshI [OF f, where a = "qu_id job"]) simp_all
  next
    case (rq_success job now res job' r)
    have q: "qu_id job \<in> set (rz_ids s)" using runq_okD(6) [OF ok] rq_success(3) by blast
    have "run_ended (rv_hash (V r) (runq_job_key (qu_id job)))"
      using run_ended_status success_views(2) [OF L ok rq_success(3,4)] by (metis insertI1)
    then show ?thesis
      using rq_success(2) q success_views(3) [OF L ok rq_success(3,4)] by (intro records_freshI [OF f, where a = "qu_id job"]) simp_all
  next
    case (rq_failure job now code msg hint det job' r)
    have q: "qu_id job \<in> set (rz_ids s)" using runq_okD(6) [OF ok] rq_failure(3) by blast
    have "run_ended (rv_hash (V r) (runq_job_key (qu_id job)))"
      using run_ended_status failure_views(2) [OF L ok rq_failure(3,4)] by (metis insertI1 insertI2)
    then show ?thesis
      using rq_failure(2) q failure_views(4) [OF L ok rq_failure(3,4)] by (intro records_freshI [OF f, where a = "qu_id job"]) simp_all
  qed
qed

lemma runs_keep_fresh:
  assumes L: "redis_laws K V" and e: "runq_empty (V r0)" and st: "runs (runq_step K T) (runq_new r0) es s"
  shows "runq_ok V T s" and "records_fresh (V (rz_redis s)) (rz_ids s)"
proof -
  have ok: "redis_laws K V \<and> runq_ok V T (runq_new r0)" using L runq_new_ok [where V = V and r = r0, OF e] by blast
  show "runq_ok V T s" using runq.runs_ok [OF st ok] by blast
  show "records_fresh (V (rz_redis s)) (rz_ids s)"
  proof (rule runq.runs_induct_ok [OF st ok])
    show "records_fresh (V (rz_redis (runq_new r0))) (rz_ids (runq_new r0))"
      using e by (simp add: records_fresh_def runq_new_def runq_empty_def)
  qed (use step_keeps_fresh in blast)
qed

section \<open>What polling answers\<close>

text \<open>The JSON texts of pydantic and of \<open>json\<close> read back for the outcome at hand.\<close>

definition outcome_reads_back :: "run_texts \<Rightarrow> settings \<Rightarrow> run_response py \<Rightarrow> bool" where
  "outcome_reads_back T S res =
     (case res of
        Inr run \<Rightarrow> codec_load (rt_response T) (codec_dump (rt_response T) run) = Some run \<and> codec_dump (rt_response T) run \<noteq> []
      | Inl e \<Rightarrow> (case worker_failure S e of (code, msg, hint, det) \<Rightarrow>
          json_reads_back (rt_texts T) (JObj (runq_failure_detail code msg hint det))))"

lemma parse_error_code_value: "parse_error_code (error_code_value c) = Some c"
  by (cases c) (simp_all add: parse_error_code_def error_codes_def)

lemma polled_run:
  assumes L: "redis_laws K V" and key: "require_api_key S (hd_api_key h) (hd_authorization h) = Inr ()"
    and st: "rv_hash (V r) (runq_job_key a) ''status'' = Some (run_status_value x)"
    and c: "rv_hash (V r) (runq_job_key a) ''created_at'' = Some (tx_str (rt_texts T) t)" "float_reads_back (rt_texts T) t"
    and code: "rv_hash (V r) (runq_job_key a) ''error_code'' = map_option error_code_value ec"
    and det: "stored_text (rv_hash (V r) (runq_job_key a) ''error_detail'') (tx_loads (rt_texts T)) = map_option JObj ed"
  shows "\<exists>st. get_run_status S K T h a (Shared_queue r m) = Inr st \<and> rs_id st = a \<and> rs_status st = x \<and> rs_created_at st = t \<and>
    rs_error_code st = ec \<and> rs_error_detail st = ed \<and>
    rs_error_message st = rv_hash (V r) (runq_job_key a) ''error_message'' \<and>
    rs_result st = stored_text (rv_hash (V r) (runq_job_key a) ''result_json'') (codec_load (rt_response T))"
proof -
  let ?d = "rd_hgetall K (runq_job_key a) r"
  have d: "dict_get ?d f = rv_hash (V r) (runq_job_key a) f" for f by (simp add: redis_hash_simps [OF L])
  have ne: "?d \<noteq> []" using st d [of "''status''"] by auto
  obtain v where g: "runq_get K T a r = Inr (Some v)" and v: "rx_id v = a" "rx_status v = run_status_value x" "rx_created_at v = t"
      "rx_error_code v = map_option error_code_value ec" "rx_error_detail v = map_option JObj ed"
      "rx_error_message v = rv_hash (V r) (runq_job_key a) ''error_message''"
      "rx_result v = stored_text (rv_hash (V r) (runq_job_key a) ''result_json'') (codec_load (rt_response T))"
    using st c code det ne
    by (simp add: runq_get_def Let_def d float_reads_back_def dict_get_or_def truthy_str_def or_str_def split: if_splits)
  have p: "parse_job_status (run_status_value x) = Some x" by (cases x) (simp_all add: parse_job_status_def)
  have e: "validated (map_option error_code_value ec) parse_error_code = Inr ec"
    by (cases ec) (simp_all add: validated_def parse_error_code_value)
  have j: "validated (case map_option JObj ed of Some JNull \<Rightarrow> None | d \<Rightarrow> d) detail_object = Inr ed"
    by (cases ed) (simp_all add: validated_def detail_object_def)
  show ?thesis by (simp add: get_run_status_def key api_queue_get_def g run_status_of_def v p e j del: case_map_option)
qed

text \<open>
  C26. What a worker made of a run is what the status route answers from then on, whatever the API and
  the workers do later, on a server that started empty: \<open>succeeded\<close> with the very result when the
  call returned, and otherwise \<open>failed\<close> with the code, the message and the details of the exception's
  clause, and nothing of the other kind.
\<close>

theorem run_polled_to_outcome:
  assumes "redis_laws K V" and "runq_empty (V r0)" and "runs (runq_step K T) (runq_new r0) es z"
    and "job \<in> set (rz_claimed z)" and "rz_redis z = wk_queue s"
    and "process_job E EE B L C S clients K T cx W u job s = Some (job', s')"
    and "worker_call E EE B L C S clients cx W u (job\<lparr>qu_started_at := Some (ut_running u)\<rparr>) (wk_engine s, wk_events s) = Some (res, en, ev)"
    and "outcome_reads_back T S res"
    and "runs (runq_step K T) (z\<lparr>rz_redis := wk_queue s', rz_claimed := remove1 job (rz_claimed z)\<rparr>) es' z'"
    and "require_api_key S' (hd_api_key h) (hd_authorization h) = Inr ()"
  shows "\<exists>st. get_run_status S' K T h (qu_id job) (Shared_queue (rz_redis z') m) = Inr st \<and>
    rs_id st = qu_id job \<and> rs_created_at st = qu_created_at job \<and>
    (case res of
       Inr run \<Rightarrow> rs_status st = SUCCEEDED \<and> rs_result st = Some run \<and> rs_error_code st = None \<and> rs_error_message st = None
     | Inl e \<Rightarrow> (case worker_failure S e of (code, msg, hint, det) \<Rightarrow>
         rs_status st = FAILED \<and> rs_result st = None \<and> rs_error_code st = Some code \<and> rs_error_message st = Some msg \<and>
         rs_error_detail st = Some (runq_failure_detail code msg hint det)))"
proof -
  note L = assms(1)
  let ?job = "job\<lparr>qu_started_at := Some (ut_running u)\<rparr>" and ?k = "runq_job_key (qu_id job)"
  note ok = runs_keep_fresh [OF L assms(2,3)]
  have fits: "qu_id job \<in> set (rz_ids z)" "status_of (V (rz_redis z)) (qu_id job) = Some (run_status_value QUEUED)"
    "float_reads_back (rt_texts T) (qu_created_at job)"
    using ok(1) assms(4) by (auto simp: runq_ok_def runq_fits_def)
  have fresh: "rv_hash (V (rz_redis z)) ?k f = None" if "f \<in> outcome_fields" for f
    using ok(2) run_ended_status [OF fits(2)] that by (auto simp: records_fresh_def)
  obtain q1 res' en' ev' where
    q1: "mark_running K T (ut_running u) job (wk_queue s) = (?job, q1)" and
    w: "worker_call E EE B L C S clients cx W u ?job (wk_engine s, wk_events s) = Some (res', en', ev')" and
    r: "case res' of Inr run \<Rightarrow> complete_success K T (ut_complete u) ?job run q1 = (job', wk_queue s')
      | Inl e \<Rightarrow> (case worker_failure S e of (code, msg, hint, det) \<Rightarrow>
          complete_failure K T (ut_complete_failure u) ?job code msg hint det q1 = (job', wk_queue s'))"
    by (rule process_job_queue [OF assms(6)])
  have res: "res' = res" using w assms(7) by simp
  let ?z1 = "z\<lparr>rz_redis := q1, rz_claimed := remove1 job (rz_claimed z), rz_active := ?job # rz_active z\<rparr>"
  let ?z2 = "z\<lparr>rz_redis := wk_queue s', rz_claimed := remove1 job (rz_claimed z)\<rparr>"
  have z2: "?z2 = ?z1\<lparr>rz_redis := wk_queue s', rz_active := remove1 ?job (rz_active ?z1)\<rparr>" by simp
  have c: "mark_running K T (ut_running u) job (rz_redis z) = (?job, q1)" using q1 assms(5) by simp
  note sv = start_views [OF L ok(1) assms(4) c]
  have j: "?job \<in> set (rz_active ?z1)" by simp
  have f1: "rv_hash (V q1) ?k f = None" if "f \<in> outcome_fields" for f
    using that fresh [OF that] by (auto simp: sv(3) started_record_def outcome_fields_def)
  show ?thesis
  proof (cases res)
    case (Inr run)
    then have d: "complete_success K T (ut_complete u) ?job run (rz_redis ?z1) = (job', wk_queue s')" using r res by simp
    note v = success_views [OF L sv(1) j d]
    have ended: "run_ended (rv_hash (V (rz_redis ?z2)) ?k)" by (simp add: v(3) run_ended_def)
    have ok2: "runq_ok V T ?z2" by (subst z2) (rule v(1))
    have h: "rv_hash (V (rz_redis z')) ?k = rv_hash (V q1) ?k ++ map_of (rev [(''status'', run_status_value SUCCEEDED),
        (''finished_at'', tx_str (rt_texts T) (ut_complete u)), (''result_json'', codec_dump (rt_response T) run),
        (''created_at'', tx_str (rt_texts T) (qu_created_at ?job))])"
      using runs_keep_ended [OF L ok2 assms(9) _ ended] fits(1) v(3) [of "qu_id job"] by (simp del: rev.simps)
    have n: "rv_hash (V q1) ?k ''error_code'' = None" "rv_hash (V q1) ?k ''error_detail'' = None"
      "rv_hash (V q1) ?k ''error_message'' = None"
      by (simp_all add: f1 outcome_fields_def)
    have "\<exists>st. get_run_status S' K T h (qu_id job) (Shared_queue (rz_redis z') m) = Inr st \<and> rs_id st = qu_id job \<and> rs_status st = SUCCEEDED \<and>
      rs_created_at st = qu_created_at job \<and> rs_error_code st = None \<and> rs_error_detail st = None \<and>
      rs_error_message st = rv_hash (V (rz_redis z')) ?k ''error_message'' \<and>
      rs_result st = stored_text (rv_hash (V (rz_redis z')) ?k ''result_json'') (codec_load (rt_response T))"
      by (rule polled_run [OF L assms(10) _ _ fits(3)]) (simp_all add: n h stored_text_def truthy_str_def)
    then show ?thesis
      using assms(8) Inr by (auto simp: n h stored_text_def truthy_str_def or_str_def outcome_reads_back_def)
  next
    case (Inl e)
    obtain code msg hint det where f: "worker_failure S e = (code, msg, hint, det)" by (rule prod_cases4)
    then have d: "complete_failure K T (ut_complete_failure u) ?job code msg hint det (rz_redis ?z1) = (job', wk_queue s')"
      using r res Inl by simp
    note v = failure_views [OF L sv(1) j d]
    have ended: "run_ended (rv_hash (V (rz_redis ?z2)) ?k)" using v(3) by (simp add: run_ended_def failed_record_def)
    have ok2: "runq_ok V T ?z2" by (subst z2) (rule v(1))
    have h: "rv_hash (V (rz_redis z')) ?k = rv_hash (V q1) ?k ++ map_of (rev (failed_record T (ut_complete_failure u) ?job code msg hint det))"
      using runs_keep_ended [OF L ok2 assms(9) _ ended] fits(1) v(3) by simp
    have json: "json_reads_back (rt_texts T) (JObj (runq_failure_detail code msg hint det))"
      using assms(8) Inl f by (simp add: outcome_reads_back_def)
    have "\<exists>st. get_run_status S' K T h (qu_id job) (Shared_queue (rz_redis z') m) = Inr st \<and> rs_id st = qu_id job \<and> rs_status st = FAILED \<and>
      rs_created_at st = qu_created_at job \<and> rs_error_code st = Some code \<and> rs_error_detail st = Some (runq_failure_detail code msg hint det) \<and>
      rs_error_message st = rv_hash (V (rz_redis z')) ?k ''error_message'' \<and>
      rs_result st = stored_text (rv_hash (V (rz_redis z')) ?k ''result_json'') (codec_load (rt_response T))"
      by (rule polled_run [OF L assms(10) _ _ fits(3)])
        (use json in \<open>simp_all add: h failed_record_def json_reads_back_def stored_text_def truthy_str_def or_str_def\<close>)
    then show ?thesis
      using Inl f f1 [of "''result_json''"]
      by (auto simp: outcome_fields_def h failed_record_def stored_text_def truthy_str_def)
  qed
qed

theorem run_polled_to_outcome_witness:
  "\<exists>job' s' st. demo_process = Some (job', s') \<and>
     get_run_status default_settings redis_reference demo_run_texts demo_headers ''a''
       (Shared_queue (wk_queue s') run_metrics_init :: (redis_db, run_response list) api_queue) = Inr st \<and>
     rs_status st = FAILED \<and> rs_error_code st = Some TIMEOUT"
proof -
  obtain job' s' where p: "demo_process = Some (job', s')"
    using process_job_returns demo_worker_facts(1,4) by (metis option.distinct(1) option.exhaust surj_pair)
  obtain en ev where w: "worker_call demo_env demo_engine kv_reference lua_plain plain_codec default_settings (load_provider_clients []) demo_ctx
      demo_workflow (demo_run_times 91) (demo_claimed_run\<lparr>qu_started_at := Some (ut_running (demo_run_times 91))\<rparr>)
      (wk_engine demo_worker_state, wk_events demo_worker_state) = Some (Inl (ExnTimeout []), en, ev)"
    using demo_worker_facts(1,3,4) by (simp add: worker_call_def Let_def execute_with_timeout_def)
  have r: "outcome_reads_back demo_run_texts default_settings (Inl (ExnTimeout []))"
    by (simp add: outcome_reads_back_def demo_worker_facts(3) json_reads_back_def demo_run_texts_def demo_detail_def)
  have k: "require_api_key default_settings (hd_api_key demo_headers) (hd_authorization demo_headers) = Inr ()" by (rule default_key_open)
  show ?thesis
    using run_polled_to_outcome [OF redis_reference_laws demo_server_empty demo_runq_claimed demo_worker_facts(5,6) p w r runs_nil k] p
    by (auto simp: demo_worker_facts(2))
qed

end
