(* ===== verification/Operator_Scripts.thy ===== *)
theory Operator_Scripts
  imports Api_Health
begin

text \<open>
  The command line tools around the server: the load test (\<open>load_test.py\<close>), the quickstart check
  (\<open>quickstart_health_check.py\<close>), the agent audit (\<open>audit_agents.py\<close>) and the container probes
  (\<open>healthcheck.py\<close>, \<open>redis_healthcheck.py\<close>). The HTTP client, Redis, the clock and the command line
  are parameters; what is printed is not modelled, and the texts of the load test's issues are the
  constructors of a datatype. Loops that wait may run for ever, which is the result \<open>None\<close>.
\<close>

section \<open>Prometheus text\<close>

definition line_break :: "char \<Rightarrow> bool" where
  "line_break c = ((of_char c :: nat) \<in> {10, 11, 12, 13, 28, 29, 30, 133})"

text \<open>\<open>splitlines\<close>: a carriage return and a line feed are one break, and the last line may lack its own.\<close>

fun split_lines :: "string \<Rightarrow> string \<Rightarrow> string list" where
  "split_lines acc [] = (if acc = [] then [] else [acc])"
| "split_lines acc (c # cs) =
     (if c = CHR 0x0D \<and> cs \<noteq> [] \<and> hd cs = CHR 0x0A then acc # split_lines [] (tl cs)
      else if line_break c then acc # split_lines [] cs
      else split_lines (acc @ [c]) cs)"

text \<open>
  The pattern \<open>(-?\d+(?:\.\d+)?)$\<close>: the leftmost suffix of the line that is such a number, and its value.
\<close>

definition is_number_text :: "string \<Rightarrow> bool" where
  "is_number_text t =
     (let u = (if t \<noteq> [] \<and> hd t = CHR ''-'' then tl t else t); a = takeWhile is_digit u; rest = dropWhile is_digit u in
      a \<noteq> [] \<and> (rest = [] \<or> hd rest = CHR ''.'' \<and> tl rest \<noteq> [] \<and> list_all is_digit (tl rest)))"

definition digits_value :: "string \<Rightarrow> nat" where
  "digits_value t = fold (\<lambda>c acc. 10 * acc + digit_val c) t 0"

definition number_value :: "string \<Rightarrow> real" where
  "number_value t =
     (let negative = (t \<noteq> [] \<and> hd t = CHR ''-''); u = (if negative then tl t else t);
          a = takeWhile is_digit u; f = drop 1 (dropWhile is_digit u);
          v = real (digits_value a) + real (digits_value f) / 10 ^ length f in
      if negative then - v else v)"

fun number_at_end :: "string \<Rightarrow> real option" where
  "number_at_end [] = None"
| "number_at_end (c # cs) = (if is_number_text (c # cs) then Some (number_value (c # cs)) else number_at_end cs)"

definition starts_with :: "string \<Rightarrow> string \<Rightarrow> bool" where
  "starts_with p s = (take (length p) s = p)"

definition label_fragment :: "string \<times> string \<Rightarrow> string" where
  "label_fragment kv = fst kv @ CHR ''='' # CHR 0x22 # snd kv @ [CHR 0x22]"

fun metric_in_lines :: "string \<Rightarrow> string list \<Rightarrow> string list \<Rightarrow> real option" where
  "metric_in_lines metric fragments [] = None"
| "metric_in_lines metric fragments (line # rest) =
     (if line = [] \<or> starts_with ''#'' line \<or> \<not> starts_with metric line \<or> \<not> list_all (\<lambda>f. py_in f line) fragments
      then metric_in_lines metric fragments rest
      else (case number_at_end (py_strip line) of
          Some x \<Rightarrow> Some x
        | None \<Rightarrow> metric_in_lines metric fragments rest))"

definition parse_metric :: "string \<Rightarrow> string \<Rightarrow> (string \<times> string) list \<Rightarrow> real option" where
  "parse_metric txt metric labels = metric_in_lines metric (map label_fragment labels) (split_lines [] txt)"

section \<open>The load test\<close>

record 'w load_http =
  lh_submit :: "string \<Rightarrow> 'w \<Rightarrow> string py \<times> 'w"
  lh_poll :: "string \<Rightarrow> 'w \<Rightarrow> string py \<times> 'w"
  lh_metrics :: "'w \<Rightarrow> string py \<times> 'w"
  lh_health :: "'w \<Rightarrow> json py \<times> 'w"

definition safe_get_metrics :: "'w load_http \<Rightarrow> 'w \<Rightarrow> string \<times> 'w" where
  "safe_get_metrics H w = (case lh_metrics H w of (Inl e, w1) \<Rightarrow> ([], w1) | (Inr t, w1) \<Rightarrow> (t, w1))"

definition safe_get_json :: "'w load_http \<Rightarrow> 'w \<Rightarrow> json \<times> 'w" where
  "safe_get_json H w = (case lh_health H w of (Inl e, w1) \<Rightarrow> (JNull, w1) | (Inr j, w1) \<Rightarrow> (j, w1))"

text \<open>The submissions in the order in which they are answered; the first that raises ends the test.\<close>

fun submit_runs :: "'w load_http \<Rightarrow> string \<Rightarrow> nat \<Rightarrow> string list \<Rightarrow> 'w \<Rightarrow> string list py \<times> 'w" where
  "submit_runs H preset 0 ids w = (Inr ids, w)"
| "submit_runs H preset (Suc n) ids w =
     (case lh_submit H preset w of
        (Inl e, w1) \<Rightarrow> (Inl e, w1)
      | (Inr i, w1) \<Rightarrow> submit_runs H preset n (ids @ [i]) w1)"

definition run_finished :: "string \<Rightarrow> bool" where
  "run_finished st = (st = ''succeeded'' \<or> st = ''failed'')"

fun poll_each :: "'w load_http \<Rightarrow> string list \<Rightarrow> (string, string) dict \<Rightarrow> 'w \<Rightarrow> (string, string) dict py \<times> 'w" where
  "poll_each H [] statuses w = (Inr statuses, w)"
| "poll_each H (i # ids) statuses w =
     (case lh_poll H i w of
        (Inl e, w1) \<Rightarrow> (Inl e, w1)
      | (Inr st, w1) \<Rightarrow> poll_each H ids (dict_set i st statuses) w1)"

text \<open>\<open>clock n\<close> is the monotonic clock after round \<open>n\<close>.\<close>

partial_function (option) poll_rounds :: "'w load_http \<Rightarrow> (nat \<Rightarrow> real) \<Rightarrow> real \<Rightarrow> int \<Rightarrow> nat \<Rightarrow> string list \<Rightarrow> (string, string) dict \<Rightarrow> 'w
    \<Rightarrow> ((string, string) dict py \<times> 'w) option" where
  "poll_rounds H clock start timeout n remaining statuses w =
     (if remaining = [] then Some (Inr statuses, w)
      else (case poll_each H remaining statuses w of
          (Inl e, w1) \<Rightarrow> Some (Inl e, w1)
        | (Inr st, w1) \<Rightarrow>
            if clock n - start > of_int timeout then Some (Inr st, w1)
            else poll_rounds H clock start timeout (Suc n)
              (filter (\<lambda>i. \<not> run_finished (dict_get_or [] st i)) remaining) st w1))"

record load_result =
  lr_run_ids :: "string list"
  lr_statuses :: "(string, string) dict"
  lr_before :: string
  lr_after :: string
  lr_health :: json

text \<open>A semaphore of no permits lets no submission start, and a negative number is refused.\<close>

definition gather_runs :: "'w load_http \<Rightarrow> (nat \<Rightarrow> real) \<Rightarrow> real \<Rightarrow> int \<Rightarrow> int \<Rightarrow> string \<Rightarrow> int \<Rightarrow> 'w \<Rightarrow> (load_result py \<times> 'w) option" where
  "gather_runs H clock start run_count concurrency preset timeout w =
     (case safe_get_metrics H w of
        (before, w1) \<Rightarrow>
          if concurrency < 0 then Some (Inl (ExnValue ''Semaphore initial value must be >= 0''), w1)
          else if concurrency = 0 \<and> run_count > 0 then None
          else (case submit_runs H preset (nat run_count) [] w1 of
              (Inl e, w2) \<Rightarrow> Some (Inl e, w2)
            | (Inr ids, w2) \<Rightarrow>
                (case poll_rounds H clock start timeout 0 (remdups ids) [] w2 of
                   None \<Rightarrow> None
                 | Some (Inl e, w3) \<Rightarrow> Some (Inl e, w3)
                 | Some (Inr statuses, w3) \<Rightarrow>
                     (case safe_get_metrics H w3 of
                        (after, w4) \<Rightarrow>
                          (case safe_get_json H w4 of
                             (health, w5) \<Rightarrow> Some (Inr \<lparr>lr_run_ids = ids, lr_statuses = statuses, lr_before = before,
                               lr_after = after, lr_health = health\<rparr>, w5))))))"

section \<open>The verdict of the load test\<close>

datatype load_issue =
    Health_unreachable
  | Queue_not_drained json
  | Workers_running json
  | Redis_down_per_health
  | Metrics_unreachable
  | Queue_depth real
  | Redis_down_per_metrics
  | Failed_runs "string list"
  | Only_finished int int

text \<open>\<open>value in (0, None)\<close>: Python's zero is equal to \<open>0.0\<close> and \<open>False\<close>.\<close>

definition zero_or_none :: "json \<Rightarrow> bool" where
  "zero_or_none j = (j = JNull \<or> j = JInt 0 \<or> j = JFloat 0 \<or> j = JBool False)"

definition summarize_health :: "json \<Rightarrow> load_issue list py" where
  "summarize_health health =
     (if \<not> json_truthy health then Inr [Health_unreachable]
      else
        py_bind (json_get ''queue'' (JObj []) health) (\<lambda>queue.
        py_bind (json_get ''budget_tracker'' (JObj []) health) (\<lambda>budget.
        py_bind (json_get ''queued'' JNull queue) (\<lambda>queued.
        py_bind (json_get ''running'' JNull queue) (\<lambda>running.
        py_bind (json_get ''backend'' JNull budget) (\<lambda>backend.
        py_bind (json_get ''redis_connected'' JNull budget) (\<lambda>connected.
          Inr ((if zero_or_none queued then [] else [Queue_not_drained queued]) @
            (if zero_or_none running then [] else [Workers_running running]) @
            (if backend = JStr ''redis'' \<and> connected = JBool False then [Redis_down_per_health] else [])))))))))"

definition summarize_metrics :: "string \<Rightarrow> load_issue list" where
  "summarize_metrics after =
     (if after = [] then [Metrics_unreachable]
      else (case parse_metric after ''synqc_queue_jobs_queued'' [] of
            Some q \<Rightarrow> if q \<noteq> 0 \<and> q > 0 then [Queue_depth q] else []
          | None \<Rightarrow> []) @
        (if parse_metric after ''synqc_redis_connected'' [(''backend'', ''redis'')] = Some 0 then [Redis_down_per_metrics] else []))"

definition load_issues :: "int \<Rightarrow> load_result \<Rightarrow> load_issue list py" where
  "load_issues expected_runs r =
     py_bind (summarize_health (lr_health r)) (\<lambda>health_issues.
       let finished = filter run_finished (dict_values (lr_statuses r));
           failed = dict_keys (filter (\<lambda>(i, st). st = ''failed'') (lr_statuses r)) in
       Inr (health_issues @ summarize_metrics (lr_after r) @
         (if failed = [] then [] else [Failed_runs failed]) @
         (if int (length finished) < expected_runs then [Only_finished (int (length finished)) expected_runs] else [])))"

definition summarize :: "int \<Rightarrow> bool \<Rightarrow> load_result \<Rightarrow> bool py" where
  "summarize expected_runs strict r =
     py_bind (load_issues expected_runs r) (\<lambda>issues. Inr (\<not> (issues \<noteq> [] \<and> strict)))"

section \<open>The quickstart check\<close>

text \<open>\<open>_request\<close>: a status and a JSON object, or the runtime error of a failed request.\<close>

definition check_that :: "bool \<Rightarrow> string \<Rightarrow> unit py" where
  "check_that condition message = (if condition then Inr () else Inl (ExnRuntime message))"

definition verify_health :: "(int \<times> (string, json) dict) py \<Rightarrow> (string, json) dict py" where
  "verify_health answer =
     py_bind answer (\<lambda>(status, body).
     py_bind (check_that (status = 200) ''Health endpoint did not return HTTP 200'') (\<lambda>_.
     py_bind (check_that (dict_get body ''status'' = Some (JStr ''ok'')) ''Health payload did not report status=ok'') (\<lambda>_.
     let budget = dict_get_or (JObj []) body ''budget_tracker'' in
     py_bind (json_get ''backend'' JNull budget) (\<lambda>backend.
     py_bind (json_get ''redis_ok'' JNull budget) (\<lambda>redis_ok.
     py_bind (if backend = JStr ''redis'' then check_that (json_truthy redis_ok) ''Redis backend reported redis_ok=False'' else Inr ()) (\<lambda>_.
       Inr body))))))"

text \<open>The first text that is not empty, as \<open>a or b or c\<close> gives it.\<close>

definition failure_text :: "(string, json) dict \<Rightarrow> json" where
  "failure_text poll =
     (let m = dict_get_or JNull poll ''error_message''; e = dict_get_or JNull poll ''error'' in
      if json_truthy m then m else if json_truthy e then e else JStr ''unknown error'')"

text \<open>\<open>clock n\<close> is the time of the test of the loop before round \<open>n\<close>; the texts of a run's failure are kept as JSON.\<close>

partial_function (option) poll_preset :: "('w \<Rightarrow> (int \<times> (string, json) dict) py \<times> 'w) \<Rightarrow> (json \<Rightarrow> string) \<Rightarrow> string \<Rightarrow> (nat \<Rightarrow> real) \<Rightarrow> real
    \<Rightarrow> nat \<Rightarrow> 'w \<Rightarrow> (unit py \<times> 'w) option" where
  "poll_preset poll txt run_id clock deadline n w =
     (if clock n < deadline then
        (case poll w of
           (Inl e, w1) \<Rightarrow> Some (Inl e, w1)
         | (Inr (status, body), w1) \<Rightarrow>
             if status \<noteq> 200 then Some (Inl (ExnRuntime (''Polling run '' @ run_id @ '' failed with status '' @ py_str_int status)), w1)
             else if dict_get body ''status'' = Some (JStr ''succeeded'') then Some (Inr (), w1)
             else if dict_get body ''status'' = Some (JStr ''failed'')
             then Some (Inl (ExnRuntime (''Run failed: '' @ txt (failure_text body))), w1)
             else poll_preset poll txt run_id clock deadline (Suc n) w1)
      else Some (Inl (ExnRuntime (''Run '' @ run_id @ '' did not complete within 30 seconds'')), w))"

definition verify_sim_preset :: "('w \<Rightarrow> (int \<times> (string, json) dict) py \<times> 'w) \<Rightarrow> (string \<Rightarrow> 'w \<Rightarrow> (int \<times> (string, json) dict) py \<times> 'w)
    \<Rightarrow> (json \<Rightarrow> string) \<Rightarrow> real \<Rightarrow> (nat \<Rightarrow> real) \<Rightarrow> 'w \<Rightarrow> (unit py \<times> 'w) option" where
  "verify_sim_preset submit poll txt start clock w =
     (case submit w of
        (Inl e, w1) \<Rightarrow> Some (Inl e, w1)
      | (Inr (status, body), w1) \<Rightarrow>
          if status \<notin> {200, 202} then Some (Inl (ExnRuntime (''Run submission failed with status '' @ py_str_int status)), w1)
          else (let run_id = dict_get_or JNull body ''id'' in
            if \<not> json_truthy run_id then Some (Inl (ExnRuntime ''Run submission did not return an id''), w1)
            else poll_preset (poll (txt run_id)) txt (txt run_id) clock (start + 30) 0 w1))"

section \<open>The agent audit and the probes\<close>

record audit_entry =
  ae_agent :: string
  ae_ok :: bool
  ae_status :: "string option"
  ae_error :: "string option"

record 'w audit_http =
  ah_run :: "string \<Rightarrow> 'w \<Rightarrow> string py \<times> 'w"
  ah_job :: "string \<Rightarrow> 'w \<Rightarrow> (string \<times> string option) py \<times> 'w"

text \<open>The run of an agent is inside the \<open>try\<close>, reading its job is not.\<close>

fun audit_agents :: "'w audit_http \<Rightarrow> string list \<Rightarrow> audit_entry list \<Rightarrow> 'w \<Rightarrow> audit_entry list py \<times> 'w" where
  "audit_agents H [] report w = (Inr report, w)"
| "audit_agents H (name # rest) report w =
     (case ah_run H name w of
        (Inl e, w1) \<Rightarrow>
          audit_agents H rest (report @ [\<lparr>ae_agent = name, ae_ok = False, ae_status = None, ae_error = Some (exn_text e)\<rparr>]) w1
      | (Inr job_id, w1) \<Rightarrow>
          (case ah_job H job_id w1 of
             (Inl e, w2) \<Rightarrow> (Inl e, w2)
           | (Inr (status, err), w2) \<Rightarrow>
               audit_agents H rest (report @ [\<lparr>ae_agent = name, ae_ok = (status = ''succeeded''), ae_status = Some status, ae_error = err\<rparr>]) w2))"

definition audit_main :: "'w audit_http \<Rightarrow> string list \<Rightarrow> 'w \<Rightarrow> int py \<times> 'w" where
  "audit_main H agents w = (case audit_agents H agents [] w of (Inl e, w1) \<Rightarrow> (Inl e, w1) | (Inr report, w1) \<Rightarrow> (Inr 0, w1))"

text \<open>The container's probe: any exception counts as unhealthy.\<close>

definition check_health :: "int py \<Rightarrow> int" where
  "check_health answer = (case answer of Inl e \<Rightarrow> 1 | Inr status \<Rightarrow> if status = 200 then 0 else 1)"

text \<open>\<open>urlparse\<close> gives the parts of the URL; the port may not be a number, which raises.\<close>

record url_parts =
  ur_scheme :: string
  ur_hostname :: "string option"
  ur_port :: "int option py"
  ur_path :: string

definition redact_url :: "(string \<Rightarrow> url_parts) \<Rightarrow> string \<Rightarrow> string py" where
  "redact_url urlparse redis_url =
     (let p = urlparse redis_url in
      if ur_scheme p = [] \<or> \<not> truthy_str (ur_hostname p) then Inr ''redis://<redacted>''
      else py_bind (ur_port p) (\<lambda>port.
        let shown = (case port of Some n \<Rightarrow> if n \<noteq> 0 then CHR '':'' # py_str_int n else [] | None \<Rightarrow> []) in
        Inr (ur_scheme p @ ''://'' @ or_str (ur_hostname p) [] @ shown @ ur_path p)))"

definition probe_settings :: "(string \<Rightarrow> string option) \<Rightarrow> string \<times> string" where
  "probe_settings env =
     (if truthy_str (env ''SYNQC_REDIS_URL'') then or_str (env ''SYNQC_REDIS_URL'') []
      else or_str (env ''REDIS_URL'') ''redis://redis:6379/0'',
      or_str (env ''REDIS_EVENTS_CHANNEL'') ''synqc:events'')"

text \<open>Exit code of the probe: connecting, ping and publish; only Redis errors of the last two are caught.\<close>

definition redis_probe :: "(string \<Rightarrow> url_parts) \<Rightarrow> (string \<Rightarrow> string option) \<Rightarrow> (string \<Rightarrow> unit py) \<Rightarrow> unit py \<Rightarrow> (string \<Rightarrow> int py) \<Rightarrow> int py" where
  "redis_probe urlparse env from_url ping publish =
     (case probe_settings env of
        (url, channel) \<Rightarrow>
          py_bind (from_url url) (\<lambda>_. py_bind (redact_url urlparse url) (\<lambda>safe_url.
            (case ping of
               Inl (ExnOther ''RedisError'' m) \<Rightarrow> Inr 1
             | Inl e \<Rightarrow> Inl e
             | Inr _ \<Rightarrow>
                 (case publish channel of
                    Inl (ExnOther ''RedisError'' m) \<Rightarrow> Inr 1
                  | Inl e \<Rightarrow> Inl e
                  | Inr subscribers \<Rightarrow> Inr 0)))))"

section \<open>Waiting for the runs\<close>

lemma poll_each_covers:
  "poll_each H ids st w = (Inr st', w') \<Longrightarrow> set (dict_keys st') = set (dict_keys st) \<union> set ids"
proof (induction ids arbitrary: st w)
  case (Cons i ids)
  then obtain x w1 where p: "lh_poll H i w = (Inr x, w1)" "poll_each H ids (dict_set i x st) w1 = (Inr st', w')"
    by (auto split: prod.splits sum.splits)
  show ?case unfolding Cons.IH [OF p(2)] by (simp only: keys_set) auto
qed simp

text \<open>The load test stops waiting once the clock has passed its timeout, and then knows a status of every run.\<close>

lemma poll_rounds_return:
  "clock (n + k) - start > of_int timeout \<Longrightarrow> poll_rounds H clock start timeout n remaining st w \<noteq> None"
proof (induction k arbitrary: n remaining st w)
  case 0
  then show ?case by (subst poll_rounds.simps) (simp split: prod.splits sum.splits)
next
  case (Suc k)
  then have "poll_rounds H clock start timeout (Suc n) r st1 w1 \<noteq> None" for r st1 w1 by simp
  then show ?case by (subst poll_rounds.simps) (simp split: prod.splits sum.splits)
qed

lemma quickstart_returns:
  "\<not> clock (n + k) < deadline \<Longrightarrow> poll_preset poll txt i clock deadline n w \<noteq> None"
proof (induction k arbitrary: n w)
  case 0
  then show ?case by (subst poll_preset.simps) simp
next
  case (Suc k)
  then have "poll_preset poll txt i clock deadline (Suc n) w1 \<noteq> None" for w1 by simp
  then show ?case by (subst poll_preset.simps) (simp split: prod.splits sum.splits)
qed

lemma no_permits_wait_for_ever:
  "0 < run_count \<Longrightarrow> gather_runs H clock start run_count 0 preset timeout w = None"
  by (simp add: gather_runs_def split: prod.splits)

section \<open>The tools on the server's own answers\<close>

text \<open>The dictionary of \<open>BudgetTracker.health_summary\<close>.\<close>

definition budget_json :: "bool \<Rightarrow> budget_health \<Rightarrow> json" where
  "budget_json redis_url_set h =
     JObj (if bh_backend h = ''redis'' then
         [(''backend'', JStr (bh_backend h)), (''redis_ok'', json_opt JBool (bh_redis_ok h)), (''redis_url_set'', JBool redis_url_set),
          (''session_ttl_seconds'', JInt (bh_session_ttl_seconds h)), (''redis_last_error'', json_opt JStr (bh_redis_last_error h)),
          (''session_keys'', JInt (bh_session_keys h))]
       else [(''backend'', JStr (bh_backend h)), (''session_ttl_seconds'', JInt (bh_session_ttl_seconds h)),
          (''session_keys'', JInt (bh_session_keys h))])"

lemma health_budget_get:
  "dict_get (health_payload S v t k rs n P ws ping) ''budget_tracker'' = Some (fst (safe_probe ''budget'' (hb_budget P)))"
  by (cases ping) (simp_all add: health_payload_def settings_view_def probe_list_def Let_def dict_simps)

lemma budget_summary_views:
  "bh_backend (fst (budget_health_summary K ping_fault scan_fault now (bt, r))) = (if bt_client bt then ''redis'' else ''memory'')"
  "bh_redis_ok (fst (budget_health_summary K ping_fault scan_fault now (bt, r))) = (if bt_client bt then Some (ping_fault = Fine) else None)"
  by (auto simp: budget_health_summary_def count_session_keys_def Let_def)

lemma quickstart_on_budget:
  assumes "dict_get body ''status'' = Some (JStr ''ok'')" and "dict_get body ''budget_tracker'' = Some (budget_json u h)"
  shows "verify_health (Inr (200, body)) =
    (if bh_backend h = ''redis'' \<and> bh_redis_ok h \<noteq> Some True then Inl (ExnRuntime ''Redis backend reported redis_ok=False'') else Inr body)"
  using assms
  by (auto simp: verify_health_def check_that_def dict_get_or_def budget_json_def json_get_def json_opt_def Let_def split: option.splits)

lemma quickstart_without_budget:
  assumes "dict_get body ''status'' = Some (JStr ''ok'')" and "dict_get body ''budget_tracker'' = Some (JObj [])"
  shows "verify_health (Inr (200, body)) = Inr body"
  using assms by (simp add: verify_health_def check_that_def dict_get_or_def json_get_def Let_def)

lemma load_test_on_budget:
  assumes "dict_get body ''budget_tracker'' = Some (budget_json u h)" and "summarize_health (JObj body) = Inr issues"
  shows "Redis_down_per_health \<notin> set issues"
proof -
  have c: "json_get ''redis_connected'' JNull (budget_json u h) = Inr JNull"
    by (simp add: budget_json_def json_get_def dict_get_or_def)
  have b: "json_get ''budget_tracker'' (JObj []) (JObj body) = Inr (budget_json u h)"
    using assms(1) by (simp add: json_get_def dict_get_or_def)
  have n: "body \<noteq> []" using assms(1) by auto
  show ?thesis
    using assms(2) by (auto simp: summarize_health_def n b c elim!: py_bind_InrE split: if_splits)
qed

text \<open>
  C38. On what the health route answers, the quickstart check fails exactly when the budget's Redis does
  not answer, and accepts a budget tracker that could not be asked at all; the load test never sees
  the outage there, since it reads a field that the server does not send.
\<close>

theorem health_checks_see_redis:
  "let h = fst (budget_health_summary K ping_fault scan_fault now (bt, r));
       up = health_payload S v t k rs n (P\<lparr>hb_budget := Inr (budget_json u h)\<rparr>) ws ping;
       unknown = health_payload S v t k rs n (P\<lparr>hb_budget := Inl e\<rparr>) ws ping in
   verify_health (Inr (200, up)) =
     (if bt_client bt \<and> ping_fault \<noteq> Fine then Inl (ExnRuntime ''Redis backend reported redis_ok=False'') else Inr up) \<and>
   verify_health (Inr (200, unknown)) = Inr unknown \<and>
   (case summarize_health (JObj up) of Inr issues \<Rightarrow> Redis_down_per_health \<notin> set issues | Inl _ \<Rightarrow> True)"
proof -
  let ?h = "fst (budget_health_summary K ping_fault scan_fault now (bt, r))"
  let ?up = "health_payload S v t k rs n (P\<lparr>hb_budget := Inr (budget_json u ?h)\<rparr>) ws ping"
  let ?unknown = "health_payload S v t k rs n (P\<lparr>hb_budget := Inl e\<rparr>) ws ping"
  have b: "dict_get ?up ''budget_tracker'' = Some (budget_json u ?h)" "dict_get ?unknown ''budget_tracker'' = Some (JObj [])"
    by (simp_all add: health_budget_get safe_probe_def)
  have "case summarize_health (JObj ?up) of Inr issues \<Rightarrow> Redis_down_per_health \<notin> set issues | Inl _ \<Rightarrow> True"
    using load_test_on_budget [OF b(1)] by (simp split: sum.split)
  then show ?thesis
    unfolding Let_def using quickstart_on_budget [OF health_get(2) b(1)] quickstart_without_budget [OF health_get(2) b(2)]
    by (simp add: budget_summary_views)
qed

text \<open>The exposition format writes small and large numbers with an exponent, which the pattern misreads.\<close>

lemma exponent_is_misread: "parse_metric ''m 1e-05'' ''m'' [] = Some (- 5)"
proof -
  have l: "split_lines [] ''m 1e-05'' = [''m 1e-05'']" "\<not> starts_with ''#'' ''m 1e-05''" "starts_with ''m'' ''m 1e-05''"
    "py_strip ''m 1e-05'' = ''m 1e-05''"
    by code_simp+
  have t: "map is_number_text [''m 1e-05'', '' 1e-05'', ''1e-05'', ''e-05'', ''-05''] = [False, False, False, False, True]"
    by code_simp
  have v: "is_digit CHR ''0''" "is_digit CHR ''5''" "digits_value ''05'' = 5" "digits_value [] = 0"
    by code_simp+
  show ?thesis
    using t by (simp add: parse_metric_def l number_value_def v Let_def del: split_lines.simps)
qed

text \<open>A job that cannot be read ends the audit without a report; a failed agent does not change the exit code.\<close>

lemma audit_loses_report:
  "ah_run H name w = (Inr i, w1) \<Longrightarrow> ah_job H i w1 = (Inl e, w2) \<Longrightarrow> audit_main H (name # rest) w = (Inl e, w2)"
  by (simp add: audit_main_def)

lemma audit_exit_code: "fst (audit_main H agents w) \<in> range Inl \<union> {Inr 0}"
  by (simp add: audit_main_def split: prod.split sum.split)

end
