(* ===== verification/Grover_Notebook.thy ===== *)
theory Grover_Notebook
  imports Grover_Circuits
begin

text \<open>
  The notebook \<open>adam_nova_grover_notebook.ipynb\<close>: its circuit builders, its runner and its two searches
  for the least number of shots. Its \<open>optimal_iterations\<close>, \<open>success_probability\<close> and
  \<open>min_shots_for_confidence\<close> are those of \<open>grover.py\<close>, word for word, and are not repeated here. The
  second search may run for ever, which is the result \<open>None\<close>. Nothing of the notebook runs, because of
  its own guards; what its search loops would do is stated for any runner.
\<close>

section \<open>Circuits and runner\<close>

text \<open>Every Python value, a class as well, is an instance of \<open>object\<close>.\<close>

definition isinstance_object :: "'a \<Rightarrow> bool" where
  "isinstance_object x = True"

definition nb_require :: "'a \<Rightarrow> string \<Rightarrow> unit py" where
  "nb_require value message = (if isinstance_object value then Inl (ExnRuntime message) else Inr ())"

definition nb_build_oracle :: "'c circuit_api \<Rightarrow> nat \<Rightarrow> string list \<Rightarrow> 'c py" where
  "nb_build_oracle Q num_qubits marked =
     py_bind (nb_require Q ''Qiskit not available to build the oracle'') (\<lambda>_.
       if marked = [] then Inr (qc_new Q num_qubits 0) else oracle_loop Q num_qubits marked (qc_new Q num_qubits 0))"

definition nb_build_diffuser :: "'c circuit_api \<Rightarrow> nat \<Rightarrow> 'c py" where
  "nb_build_diffuser Q n =
     py_bind (nb_require Q ''Qiskit not available to build the diffuser'') (\<lambda>_.
       Inr (on_qubits (\<lambda>q c. qc_h Q q (qc_x Q q c)) n
         (hmcxh Q n (on_qubits (\<lambda>q c. qc_x Q q (qc_h Q q c)) n (qc_new Q n 0)))))"

definition nb_build_grover_circuit :: "'c circuit_api \<Rightarrow> grover_config \<Rightarrow> 'c py" where
  "nb_build_grover_circuit Q cfg =
     py_bind (nb_require Q ''Qiskit not available to build circuits'') (\<lambda>_.
       let n = gc_n_qubits cfg; qc = on_qubits (qc_h Q) n (qc_new Q n n) in
       py_bind (nb_build_oracle Q n (gc_marked cfg)) (\<lambda>oracle.
       py_bind (nb_build_diffuser Q n) (\<lambda>diffuser.
         Inr (qc_measure Q [0..<n] [0..<n]
           (((\<lambda>c. qc_compose Q (qc_compose Q c oracle) diffuser) ^^ nat (grover_iterations cfg)) qc)))))"

text \<open>\<open>aer\<close> is the name \<open>Aer\<close>, and \<open>exec\<close> the simulator with its seed and shots.\<close>

definition nb_run_grover :: "'c circuit_api \<Rightarrow> 'a \<Rightarrow> (int option \<Rightarrow> int \<Rightarrow> 'c \<Rightarrow> 'w \<Rightarrow> counts py \<times> 'w) \<Rightarrow> grover_config \<Rightarrow> 'w
    \<Rightarrow> counts py \<times> 'w" where
  "nb_run_grover Q aer exec cfg w =
     (case nb_require aer ''Qiskit Aer not available; install per requirements.txt'' of
        Inl e \<Rightarrow> (Inl e, w)
      | Inr _ \<Rightarrow>
          (case nb_build_grover_circuit Q cfg of
             Inl e \<Rightarrow> (Inl e, w)
           | Inr qc \<Rightarrow> exec (gc_seed_sim cfg) (gc_shots cfg) qc w))"

text \<open>
  \<open>analyze_statevector\<close>: \<open>probabilities\<close> is Qiskit's state vector of a circuit, as squared magnitudes, or
  \<open>None\<close> when it raises. The result keeps the states above the threshold and marks those looked for.
\<close>

definition analyze_statevector :: "'c circuit_api \<Rightarrow> ('c \<Rightarrow> real list option) \<Rightarrow> grover_config \<Rightarrow> (string \<times> real \<times> bool) list py" where
  "analyze_statevector Q probabilities cfg =
     py_bind (nb_require Q ''Qiskit not available for statevector analysis'') (\<lambda>_.
       let n = gc_n_qubits cfg; qc = on_qubits (qc_h Q) n (qc_new Q n 0) in
       py_bind (nb_build_oracle Q n (gc_marked cfg)) (\<lambda>oracle.
       py_bind (nb_build_diffuser Q n) (\<lambda>diffuser.
         case probabilities (((\<lambda>c. qc_compose Q (qc_compose Q c oracle) diffuser) ^^ nat (grover_iterations cfg)) qc) of
           None \<Rightarrow> Inr []
         | Some ps \<Rightarrow> Inr (map (\<lambda>(i, p). (bin_format n i, p, bin_format n i \<in> set (gc_marked cfg)))
             (filter (\<lambda>(i, p). p > 1 / 10 ^ 6) (enumerate 0 ps))))))"

section \<open>The two searches\<close>

text \<open>
  The loop of \<open>binary_search_shots\<close>: the best run so far is \<open>None\<close> while \<open>best_counts\<close> is.
\<close>

function bisect_shots :: "(grover_config \<Rightarrow> 'g \<Rightarrow> counts py \<times> 'g) \<Rightarrow> grover_config \<Rightarrow> real \<Rightarrow> int \<Rightarrow> int
    \<Rightarrow> (int \<times> counts \<times> real) option \<Rightarrow> 'g \<Rightarrow> (int \<times> counts \<times> real) option py \<times> 'g" where
  "bisect_shots run cfg target min_shots max_shots best g =
     (if min_shots \<le> max_shots then
        (let mid = (min_shots + max_shots) div 2 in
         case run (cfg\<lparr>gc_shots := mid\<rparr>) g of
           (Inl e, g1) \<Rightarrow> (Inl e, g1)
         | (Inr c, g1) \<Rightarrow>
             (let s = success_probability c (gc_marked cfg) in
              if s \<ge> target then bisect_shots run cfg target min_shots (mid - 1) (Some (mid, c, s)) g1
              else bisect_shots run cfg target (mid + 1) max_shots best g1))
      else (Inr best, g))"
  by pat_completeness auto
termination
  by (relation "measure (\<lambda>(run, cfg, target, lo, hi, best, g). nat (hi - lo + 1))") auto

declare bisect_shots.simps [simp del]

definition binary_search_shots :: "(grover_config \<Rightarrow> 'g \<Rightarrow> counts py \<times> 'g) \<Rightarrow> grover_config \<Rightarrow> real \<Rightarrow> int \<Rightarrow> int \<Rightarrow> 'g
    \<Rightarrow> (int \<times> counts \<times> real) py \<times> 'g" where
  "binary_search_shots run cfg target min_shots max_shots g =
     (case bisect_shots run cfg target min_shots max_shots None g of
        (Inl e, g1) \<Rightarrow> (Inl e, g1)
      | (Inr (Some best), g1) \<Rightarrow> (Inr best, g1)
      | (Inr None, g1) \<Rightarrow>
          (case run (cfg\<lparr>gc_shots := max_shots\<rparr>) g1 of
             (Inl e, g2) \<Rightarrow> (Inl e, g2)
           | (Inr c, g2) \<Rightarrow> (Inr (max_shots, c, success_probability c (gc_marked cfg)), g2)))"

definition scaled :: "int \<Rightarrow> int \<Rightarrow> int" where
  "scaled cap shots = min cap \<lceil>of_int shots * (18 / 10 :: real)\<rceil>"

partial_function (option) scaling_search :: "(grover_config \<Rightarrow> 'g \<Rightarrow> counts py \<times> 'g) \<Rightarrow> grover_config \<Rightarrow> real \<Rightarrow> int \<Rightarrow> int \<Rightarrow> 'g
    \<Rightarrow> ((int \<times> counts \<times> real) py \<times> 'g) option" where
  "scaling_search run cfg target cap shots g =
     (if shots \<le> cap then
        (case run (cfg\<lparr>gc_shots := shots\<rparr>) g of
           (Inl e, g1) \<Rightarrow> Some (Inl e, g1)
         | (Inr c, g1) \<Rightarrow>
             (let s = success_probability c (gc_marked cfg) in
              if s \<ge> target then Some (Inr (shots, c, s), g1)
              else scaling_search run cfg target cap (scaled cap shots) g1))
      else
        (case run (cfg\<lparr>gc_shots := cap\<rparr>) g of
           (Inl e, g1) \<Rightarrow> Some (Inl e, g1)
         | (Inr c, g1) \<Rightarrow> Some (Inr (cap, c, success_probability c (gc_marked cfg)), g1)))"

definition nb_initial_shots :: "int \<Rightarrow> int \<Rightarrow> int" where
  "nb_initial_shots m cap = max 16 (min m cap)"

definition energy_search :: "(grover_config \<Rightarrow> 'g \<Rightarrow> counts py \<times> 'g) \<Rightarrow> grover_config \<Rightarrow> real \<Rightarrow> real \<Rightarrow> real \<Rightarrow> int \<Rightarrow> bool
    \<Rightarrow> 'g \<Rightarrow> ((int \<times> counts \<times> real) py \<times> 'g) option" where
  "energy_search run cfg target eps delta max_shots_cap use_binary_search g =
     (case min_shots_for_confidence eps delta of
        Inl e \<Rightarrow> Some (Inl e, g)
      | Inr m \<Rightarrow>
          (let initial_shots = nb_initial_shots m max_shots_cap in
           if use_binary_search then Some (binary_search_shots run cfg target initial_shots max_shots_cap g)
           else scaling_search run cfg target max_shots_cap initial_shots g))"

text \<open>\<open>energy_aware_search\<close> of the notebook runs its own \<open>run_grover\<close>, and so do the demos with one and with several marked strings.\<close>

definition nb_energy_aware_search :: "'c circuit_api \<Rightarrow> 'a \<Rightarrow> (int option \<Rightarrow> int \<Rightarrow> 'c \<Rightarrow> 'w \<Rightarrow> counts py \<times> 'w) \<Rightarrow> grover_config \<Rightarrow> real
    \<Rightarrow> real \<Rightarrow> real \<Rightarrow> int \<Rightarrow> bool \<Rightarrow> 'w \<Rightarrow> ((int \<times> counts \<times> real) py \<times> 'w) option" where
  "nb_energy_aware_search Q aer exec = energy_search (nb_run_grover Q aer exec)"

definition demo_marked :: "'c circuit_api \<Rightarrow> 'a \<Rightarrow> (int option \<Rightarrow> int \<Rightarrow> 'c \<Rightarrow> 'w \<Rightarrow> counts py \<times> 'w) \<Rightarrow> nat \<Rightarrow> string list \<Rightarrow> int \<Rightarrow> 'w
    \<Rightarrow> ((int \<times> counts \<times> real) py \<times> 'w) option" where
  "demo_marked Q aer exec n_qubits targets max_shots w =
     nb_energy_aware_search Q aer exec
       \<lparr>gc_n_qubits = n_qubits, gc_marked = targets, gc_iterations = None, gc_shots = 128, gc_seed_sim = Some 1337\<rparr>
       (6 / 10) (1 / 10) (5 / 100) max_shots True w"

definition demo_single_marked :: "'c circuit_api \<Rightarrow> 'a \<Rightarrow> (int option \<Rightarrow> int \<Rightarrow> 'c \<Rightarrow> 'w \<Rightarrow> counts py \<times> 'w) \<Rightarrow> nat \<Rightarrow> string \<Rightarrow> int \<Rightarrow> 'w
    \<Rightarrow> ((int \<times> counts \<times> real) py \<times> 'w) option" where
  "demo_single_marked Q aer exec n_qubits target max_shots w = demo_marked Q aer exec n_qubits [target] max_shots w"

definition demo_multi_marked :: "'c circuit_api \<Rightarrow> 'a \<Rightarrow> (int option \<Rightarrow> int \<Rightarrow> 'c \<Rightarrow> 'w \<Rightarrow> counts py \<times> 'w) \<Rightarrow> nat \<Rightarrow> string list option \<Rightarrow> int \<Rightarrow> 'w
    \<Rightarrow> ((int \<times> counts \<times> real) py \<times> 'w) option" where
  "demo_multi_marked Q aer exec n_qubits targets max_shots w =
     demo_marked Q aer exec n_qubits (case targets of None \<Rightarrow> [''00011'', ''10101'', ''11100''] | Some ts \<Rightarrow> ts) max_shots w"

section \<open>The guards are always taken\<close>

text \<open>
  The builders test \<open>isinstance(QuantumCircuit, object)\<close>, which is meant to find the placeholder
  and holds of the class as well: nothing of the notebook runs, whatever is installed.
\<close>

lemma notebook_never_runs:
  "nb_run_grover Q aer exec cfg w = (Inl (ExnRuntime ''Qiskit Aer not available; install per requirements.txt''), w)"
  "nb_build_grover_circuit Q cfg = Inl (ExnRuntime ''Qiskit not available to build circuits'')"
  "analyze_statevector Q probabilities cfg = Inl (ExnRuntime ''Qiskit not available for statevector analysis'')"
  by (simp_all add: analyze_statevector_def nb_run_grover_def nb_build_grover_circuit_def nb_require_def isinstance_object_def)

lemma notebook_demo_raises:
  "demo_marked Q aer exec n ts cap w = Some (Inl (ExnRuntime ''Qiskit Aer not available; install per requirements.txt''), w)"
  by (simp add: demo_marked_def nb_energy_aware_search_def energy_search_def min_shots_for_confidence_def Let_def binary_search_shots_def
      bisect_shots.simps notebook_never_runs)

section \<open>The binary search\<close>

text \<open>
  What the two loops would do if the runner worked: they are stated for any runner, which the
  notebook's own is not. A simulator with a fixed seed gives the same counts for the same number of shots: \<open>f\<close> are the
  counts, and \<open>reaches\<close> tells whether they meet the target.
\<close>

definition steady_runner :: "(grover_config \<Rightarrow> 'g \<Rightarrow> counts py \<times> 'g) \<Rightarrow> grover_config \<Rightarrow> (int \<Rightarrow> counts) \<Rightarrow> bool" where
  "steady_runner run cfg f = (\<forall>n g. \<exists>g1. run (cfg\<lparr>gc_shots := n\<rparr>) g = (Inr (f n), g1))"

definition reaches :: "(int \<Rightarrow> counts) \<Rightarrow> grover_config \<Rightarrow> real \<Rightarrow> int \<Rightarrow> bool" where
  "reaches f cfg target n = (target \<le> success_probability (f n) (gc_marked cfg))"

definition run_result :: "(int \<Rightarrow> counts) \<Rightarrow> grover_config \<Rightarrow> int \<Rightarrow> int \<times> counts \<times> real" where
  "run_result f cfg n = (n, f n, success_probability (f n) (gc_marked cfg))"

definition first_reaching :: "(int \<Rightarrow> bool) \<Rightarrow> int \<Rightarrow> int \<Rightarrow> int \<Rightarrow> bool" where
  "first_reaching P lo hi n = (lo \<le> n \<and> n \<le> hi \<and> P n \<and> (\<forall>k. lo \<le> k \<and> k < n \<longrightarrow> \<not> P k))"

text \<open>More shots than enough are enough.\<close>

definition upward :: "(int \<Rightarrow> bool) \<Rightarrow> int \<Rightarrow> int \<Rightarrow> bool" where
  "upward P lo hi = (\<forall>x y. lo \<le> x \<longrightarrow> x \<le> y \<longrightarrow> y \<le> hi \<longrightarrow> P x \<longrightarrow> P y)"

lemma upward_part: "upward P lo hi \<Longrightarrow> lo \<le> lo' \<Longrightarrow> hi' \<le> hi \<Longrightarrow> upward P lo' hi'"
  unfolding upward_def by (meson order_trans)

lemma bisect_finds_first:
  assumes "steady_runner run cfg f" and "upward (reaches f cfg target) lo hi"
  shows "\<exists>b g1. bisect_shots run cfg target lo hi best g = (Inr b, g1) \<and>
    ((\<exists>n. first_reaching (reaches f cfg target) lo hi n \<and> b = Some (run_result f cfg n)) \<or>
     (\<forall>n. lo \<le> n \<longrightarrow> n \<le> hi \<longrightarrow> \<not> reaches f cfg target n) \<and> b = best)"
  using assms(2)
proof (induction "nat (hi - lo + 1)" arbitrary: lo hi best g rule: less_induct)
  case less
  let ?R = "reaches f cfg target" and ?mid = "(lo + hi) div 2"
  show ?case
  proof (cases "lo \<le> hi")
    case False
    then show ?thesis by (auto simp: bisect_shots.simps)
  next
    case True
    then have mid: "lo \<le> ?mid" "?mid \<le> hi" by auto
    obtain g1 where r: "run (cfg\<lparr>gc_shots := ?mid\<rparr>) g = (Inr (f ?mid), g1)" using assms(1) unfolding steady_runner_def by blast
    show ?thesis
    proof (cases "?R ?mid")
      case reach: True
      have e: "bisect_shots run cfg target lo hi best g = bisect_shots run cfg target lo (?mid - 1) (Some (run_result f cfg ?mid)) g1"
        using True r reach by (subst bisect_shots.simps) (simp add: Let_def reaches_def run_result_def)
      have m: "nat (?mid - 1 - lo + 1) < nat (hi - lo + 1)" using mid by auto
      have mono: "upward ?R lo (?mid - 1)" by (rule upward_part [OF less.prems]) (use mid in auto)
      from less.hyps [where lo = lo and hi = "?mid - 1" and best = "Some (run_result f cfg ?mid)" and g = g1, OF m mono]
      obtain b g2 where b: "bisect_shots run cfg target lo (?mid - 1) (Some (run_result f cfg ?mid)) g1 = (Inr b, g2)"
        "(\<exists>n. first_reaching ?R lo (?mid - 1) n \<and> b = Some (run_result f cfg n)) \<or>
         (\<forall>n. lo \<le> n \<longrightarrow> n \<le> ?mid - 1 \<longrightarrow> \<not> ?R n) \<and> b = Some (run_result f cfg ?mid)"
        by blast
      from b(2) show ?thesis
      proof (elim disjE exE conjE)
        fix n
        assume "first_reaching ?R lo (?mid - 1) n" "b = Some (run_result f cfg n)"
        then have "first_reaching ?R lo hi n \<and> b = Some (run_result f cfg n)" using mid(2) by (auto simp: first_reaching_def)
        then show ?thesis using e b(1) by auto
      next
        assume none: "\<forall>n. lo \<le> n \<longrightarrow> n \<le> ?mid - 1 \<longrightarrow> \<not> ?R n" "b = Some (run_result f cfg ?mid)"
        then have "first_reaching ?R lo hi ?mid" using mid reach by (auto simp: first_reaching_def)
        then show ?thesis using e b(1) none(2) by auto
      qed
    next
      case miss: False
      have e: "bisect_shots run cfg target lo hi best g = bisect_shots run cfg target (?mid + 1) hi best g1"
        using True r miss by (subst bisect_shots.simps) (simp add: Let_def reaches_def)
      have below: "\<not> ?R k" if "lo \<le> k" "k \<le> ?mid" for k using less.prems that mid(2) miss unfolding upward_def by blast
      have m: "nat (hi - (?mid + 1) + 1) < nat (hi - lo + 1)" using mid by auto
      have mono: "upward ?R (?mid + 1) hi" by (rule upward_part [OF less.prems]) (use mid in auto)
      from less.hyps [where lo = "?mid + 1" and hi = hi and best = best and g = g1, OF m mono]
      obtain b g2 where b: "bisect_shots run cfg target (?mid + 1) hi best g1 = (Inr b, g2)"
        "(\<exists>n. first_reaching ?R (?mid + 1) hi n \<and> b = Some (run_result f cfg n)) \<or>
         (\<forall>n. ?mid + 1 \<le> n \<longrightarrow> n \<le> hi \<longrightarrow> \<not> ?R n) \<and> b = best"
        by blast
      have split: "k \<le> ?mid \<or> ?mid + 1 \<le> k" for k by linarith
      from b(2) show ?thesis
      proof (elim disjE exE conjE)
        fix n
        assume n: "first_reaching ?R (?mid + 1) hi n" "b = Some (run_result f cfg n)"
        then have "first_reaching ?R lo hi n"
          using mid below split unfolding first_reaching_def by (meson order_trans zle_add1_eq_le less_imp_le)
        then show ?thesis using e b(1) n(2) by auto
      next
        assume none: "\<forall>n. ?mid + 1 \<le> n \<longrightarrow> n \<le> hi \<longrightarrow> \<not> ?R n" "b = best"
        then have "\<forall>n. lo \<le> n \<longrightarrow> n \<le> hi \<longrightarrow> \<not> ?R n" using below split by blast
        then show ?thesis using e b(1) none(2) by auto
      qed
    qed
  qed
qed

text \<open>The number of runs is logarithmic: the runner below keeps a list of them.\<close>

definition logging_runner :: "(int \<Rightarrow> counts) \<Rightarrow> grover_config \<Rightarrow> int list \<Rightarrow> counts py \<times> int list" where
  "logging_runner f cfg used = (Inr (f (gc_shots cfg)), used @ [gc_shots cfg])"

lemma bisect_runs:
  "nat (hi - lo + 1) < 2 ^ k \<Longrightarrow>
     length (snd (bisect_shots (logging_runner f) cfg target lo hi best used)) \<le> length used + k"
proof (induction k arbitrary: lo hi best used)
  case 0
  then show ?case by (simp add: bisect_shots.simps)
next
  case (Suc k)
  let ?mid = "(lo + hi) div 2"
  have "int (nat (hi - lo + 1)) < int (2 ^ Suc k)" using Suc.prems by (simp only: of_nat_less_iff)
  then have w: "hi - lo + 1 < 2 * 2 ^ k" by (auto split: if_splits intro: order.strict_trans [of _ 0])
  have "nat (?mid - 1 - lo + 1) < 2 ^ k" "nat (hi - (?mid + 1) + 1) < 2 ^ k"
    using w by (simp_all add: nat_less_iff)
  then have IH: "length (snd (bisect_shots (logging_runner f) cfg target lo (?mid - 1) b (used @ [?mid]))) \<le> length used + Suc k"
    "length (snd (bisect_shots (logging_runner f) cfg target (?mid + 1) hi b (used @ [?mid]))) \<le> length used + Suc k" for b
    using Suc.IH [of "?mid - 1" lo b "used @ [?mid]"] Suc.IH [of hi "?mid + 1" b "used @ [?mid]"] by simp_all
  have run: "logging_runner f (cfg\<lparr>gc_shots := ?mid\<rparr>) used = (Inr (f ?mid), used @ [?mid])" by (simp add: logging_runner_def)
  show ?case by (subst bisect_shots.simps) (use IH in \<open>simp add: run Let_def\<close>)
qed

section \<open>The scaling search\<close>

lemma scaled_le: "scaled cap s \<le> cap"
  by (simp add: scaled_def)

lemma scaling_step:
  assumes "steady_runner run cfg f" and "s \<le> cap"
  obtains g1 where "scaling_search run cfg target cap s g =
    (if reaches f cfg target s then Some (Inr (run_result f cfg s), g1) else scaling_search run cfg target cap (scaled cap s) g1)"
proof -
  obtain g1 where "run (cfg\<lparr>gc_shots := s\<rparr>) g = (Inr (f s), g1)" using assms(1) unfolding steady_runner_def by blast
  then show thesis
    by (intro that [of g1], subst scaling_search.simps) (use assms(2) in \<open>simp add: Let_def reaches_def run_result_def\<close>)
qed

lemma scaling_returns:
  "steady_runner run cfg f \<Longrightarrow> s \<le> cap \<Longrightarrow> reaches f cfg target ((scaled cap ^^ n) s) \<Longrightarrow> scaling_search run cfg target cap s g \<noteq> None"
proof (induction n arbitrary: s g)
  case 0
  obtain g1 where "scaling_search run cfg target cap s g =
    (if reaches f cfg target s then Some (Inr (run_result f cfg s), g1) else scaling_search run cfg target cap (scaled cap s) g1)"
    by (rule scaling_step [OF 0(1,2)])
  then show ?case using 0(3) by simp
next
  case (Suc n)
  obtain g1 where e: "scaling_search run cfg target cap s g =
    (if reaches f cfg target s then Some (Inr (run_result f cfg s), g1) else scaling_search run cfg target cap (scaled cap s) g1)"
    by (rule scaling_step [OF Suc.prems(1,2)])
  have "reaches f cfg target ((scaled cap ^^ n) (scaled cap s))" using Suc.prems(3) by (simp add: funpow_swap1)
  from Suc.IH [OF Suc.prems(1) scaled_le this] show ?case by (simp add: e)
qed

lemma scaling_diverges_raw:
  "scaling_search run cfg target cap s g = Some y \<Longrightarrow>
     steady_runner run cfg f \<and> s \<le> cap \<longrightarrow> (\<exists>n. reaches f cfg target ((scaled cap ^^ n) s))"
proof (induction rule: scaling_search.raw_induct [rotated, consumes 1, case_names step])
  case (step loop run cfg target cap s g y)
  show ?case
  proof (intro impI)
    assume a: "steady_runner run cfg f \<and> s \<le> cap"
    then obtain g1 where r: "run (cfg\<lparr>gc_shots := s\<rparr>) g = (Inr (f s), g1)" unfolding steady_runner_def by blast
    show "\<exists>n. reaches f cfg target ((scaled cap ^^ n) s)"
    proof (cases "reaches f cfg target s")
      case True
      then show ?thesis by (intro exI [of _ 0]) simp
    next
      case False
      then have "loop run cfg target cap (scaled cap s) g1 = Some y"
        using step(2) a by (simp add: r Let_def reaches_def)
      then obtain n where "reaches f cfg target ((scaled cap ^^ n) (scaled cap s))"
        using step(1) a scaled_le by blast
      then show ?thesis by (intro exI [of _ "Suc n"]) (simp add: funpow_swap1)
    qed
  qed
qed

text \<open>
  With a seeded simulator that runs the binary search would always return: the least number of
  shots between the initial one and the cap whose run meets the target, when more shots than enough
  are enough, and a run with the cap when none does. The older search by scaling returns exactly
  when the cap is below sixteen or one of the runs of its sequence meets the target: having reached
  the cap it repeats the same run for ever.
\<close>

lemma searches_with_runner:
  assumes "steady_runner run cfg f" and "min_shots_for_confidence eps delta = Inr m"
    and "upward (reaches f cfg target) (nb_initial_shots m cap) cap"
  shows "(\<exists>n g1. energy_search run cfg target eps delta cap True g = Some (Inr (run_result f cfg n), g1) \<and>
      (if \<exists>k. nb_initial_shots m cap \<le> k \<and> k \<le> cap \<and> reaches f cfg target k
       then first_reaching (reaches f cfg target) (nb_initial_shots m cap) cap n else n = cap)) \<and>
    (energy_search run cfg target eps delta cap False g \<noteq> None \<longleftrightarrow>
      cap < 16 \<or> (\<exists>k. reaches f cfg target ((scaled cap ^^ k) (nb_initial_shots m cap))))"
proof (intro conjI)
  let ?lo = "nb_initial_shots m cap" and ?R = "reaches f cfg target"
  obtain b g1 where b: "bisect_shots run cfg target ?lo cap None g = (Inr b, g1)"
    "(\<exists>n. first_reaching ?R ?lo cap n \<and> b = Some (run_result f cfg n)) \<or> (\<forall>n. ?lo \<le> n \<longrightarrow> n \<le> cap \<longrightarrow> \<not> ?R n) \<and> b = None"
    using bisect_finds_first [OF assms(1,3)] by blast
  obtain g2 where r: "run (cfg\<lparr>gc_shots := cap\<rparr>) g1 = (Inr (f cap), g2)" using assms(1) unfolding steady_runner_def by blast
  show "\<exists>n g1. energy_search run cfg target eps delta cap True g = Some (Inr (run_result f cfg n), g1) \<and>
      (if \<exists>k. ?lo \<le> k \<and> k \<le> cap \<and> ?R k then first_reaching ?R ?lo cap n else n = cap)"
    using b(2)
  proof (elim disjE exE conjE)
    fix n
    assume n: "first_reaching ?R ?lo cap n" "b = Some (run_result f cfg n)"
    then have "\<exists>k. ?lo \<le> k \<and> k \<le> cap \<and> ?R k" by (auto simp: first_reaching_def)
    then show ?thesis using n b(1) by (auto simp: energy_search_def assms(2) Let_def binary_search_shots_def)
  next
    assume "\<forall>n. ?lo \<le> n \<longrightarrow> n \<le> cap \<longrightarrow> \<not> ?R n" "b = None"
    then show ?thesis using b(1) r by (auto simp: energy_search_def assms(2) Let_def binary_search_shots_def run_result_def)
  qed
  show "energy_search run cfg target eps delta cap False g \<noteq> None \<longleftrightarrow> cap < 16 \<or> (\<exists>k. ?R ((scaled cap ^^ k) ?lo))"
  proof (cases "cap < 16")
    case True
    then have "\<not> ?lo \<le> cap" by (simp add: nb_initial_shots_def)
    obtain g3 where "run (cfg\<lparr>gc_shots := cap\<rparr>) g = (Inr (f cap), g3)" using assms(1) unfolding steady_runner_def by blast
    with True \<open>\<not> ?lo \<le> cap\<close> show ?thesis
      by (simp add: energy_search_def assms(2) Let_def scaling_search.simps [of run cfg target cap ?lo g])
  next
    case False
    then have le: "?lo \<le> cap" by (simp add: nb_initial_shots_def)
    have "scaling_search run cfg target cap ?lo g \<noteq> None \<longleftrightarrow> (\<exists>k. ?R ((scaled cap ^^ k) ?lo))"
      using scaling_returns [OF assms(1) le] scaling_diverges_raw [of run cfg target cap ?lo g _ f] assms(1) le by blast
    then show ?thesis using False by (simp add: energy_search_def assms(2) Let_def)
  qed
qed

text \<open>A simulator that meets the target from forty shots on, and a target that is never met.\<close>

definition forty_shots :: "int \<Rightarrow> counts" where
  "forty_shots n = (if 40 \<le> n then [(''11'', n)] else [(''00'', n)])"

lemma demo_notebook_facts:
  "steady_runner (logging_runner forty_shots) demo_cfg forty_shots"
  "0 < t \<Longrightarrow> t \<le> 1 \<Longrightarrow> reaches forty_shots demo_cfg t n \<longleftrightarrow> 40 \<le> n"
  by (auto simp: steady_runner_def logging_runner_def reaches_def forty_shots_def success_probability_def counts_total_def demo_cfg_def)

lemma searches_with_runner_example:
  "\<exists>g1. energy_search (logging_runner forty_shots) demo_cfg (3/5) 1 (1/2) 64 True [] =
     Some (Inr (40, [(''11'', 40)], 1), g1)"
proof -
  note f = demo_notebook_facts(2) [of "3/5"]
  have u: "upward (reaches forty_shots demo_cfg (3/5)) (nb_initial_shots 1 64) 64" by (simp add: upward_def f)
  from searches_with_runner [OF demo_notebook_facts(1) demo_min_shots u, of "[]"]
  obtain n g1 where n: "energy_search (logging_runner forty_shots) demo_cfg (3/5) 1 (1/2) 64 True [] =
      Some (Inr (run_result forty_shots demo_cfg n), g1)" "first_reaching (reaches forty_shots demo_cfg (3/5)) (nb_initial_shots 1 64) 64 n"
    by (auto simp: f nb_initial_shots_def split: if_splits)
  then have "40 \<le> n" "\<forall>k. 16 \<le> k \<and> k < n \<longrightarrow> k < 40" by (auto simp: first_reaching_def f nb_initial_shots_def)
  from this(1) spec [OF this(2), of 40] have "n = 40" by simp
  then show ?thesis
    using n(1) by (simp add: run_result_def forty_shots_def success_probability_def counts_total_def demo_cfg_def)
qed

end
