(* ===== verification/Bundle_Notebook.thy ===== *)
theory Bundle_Notebook
  imports Models "HOL-Library.Multiset"
begin

text \<open>
  The notebook \<open>synqc_run_bundle_analysis.ipynb\<close>: reading exported runs, guessing their columns and the
  frontier of runs by latency and fidelity. Pandas is a parameter; the plots are not modelled.
\<close>

section \<open>Frames\<close>

text \<open>A data frame: its columns and, per row, the cells that are not missing.\<close>

type_synonym frame_row = "(string, json) dict"

record frame =
  fr_columns :: "string list"
  fr_rows :: "frame_row list"

record pandas_api =
  pn_normalize :: "(string, json) dict list \<Rightarrow> frame"
  pn_read_csv :: "string \<Rightarrow> frame py"
  pn_concat :: "frame list \<Rightarrow> frame"
  pn_to_datetime :: "json \<Rightarrow> real option"
  pn_to_numeric :: "json \<Rightarrow> real option"
  pn_text :: "json \<Rightarrow> string"
  pn_sort_rows :: "string \<Rightarrow> frame_row list \<Rightarrow> frame_row list"

definition cell :: "frame_row \<Rightarrow> string \<Rightarrow> json" where
  "cell row c = dict_get_or JNull row c"

definition set_column :: "string \<Rightarrow> (frame_row \<Rightarrow> json) \<Rightarrow> frame \<Rightarrow> frame" where
  "set_column c g df =
     \<lparr>fr_columns = (if c \<in> set (fr_columns df) then fr_columns df else fr_columns df @ [c]),
      fr_rows = map (\<lambda>row. dict_set c (g row) row) (fr_rows df)\<rparr>"

section \<open>Reading a bundle\<close>

fun objects_of :: "json list \<Rightarrow> (string, json) dict list" where
  "objects_of [] = []"
| "objects_of (JObj d # js) = d # objects_of js"
| "objects_of (j # js) = objects_of js"

definition bundle_keys :: "string list" where
  "bundle_keys = [''runs'', ''experiments'', ''items'', ''data'']"

definition extract_runs :: "json \<Rightarrow> ((string, json) dict list \<times> (string, json) dict) py" where
  "extract_runs obj =
     (case obj of
        JList runs \<Rightarrow> Inr (objects_of runs, [])
      | JObj d \<Rightarrow>
          (case find (\<lambda>key. case dict_get d key of Some (JList _) \<Rightarrow> True | _ \<Rightarrow> False) bundle_keys of
             Some key \<Rightarrow> (case dict_get d key of
                 Some (JList runs) \<Rightarrow> Inr (objects_of runs, filter (\<lambda>(k, v). k \<noteq> key) d)
               | _ \<Rightarrow> Inr ([], []))
           | None \<Rightarrow> Inr ([d], []))
      | _ \<Rightarrow> Inl (ExnOther ''TypeError'' ''Unsupported JSON top-level type''))"

definition ends_with :: "string \<Rightarrow> string \<Rightarrow> bool" where
  "ends_with suf s = (length suf \<le> length s \<and> drop (length s - length suf) s = suf)"

text \<open>\<open>Path(p).suffix\<close>: from the last dot of the name, unless that is its first or last character.\<close>

definition path_suffix :: "string \<Rightarrow> string" where
  "path_suffix p =
     (let name = rev (takeWhile (\<lambda>c. c \<noteq> CHR ''/'') (rev p)); ext = rev (takeWhile (\<lambda>c. c \<noteq> CHR ''.'') (rev name)) in
      if CHR ''.'' \<in> set name \<and> ext \<noteq> [] \<and> Suc (length ext) < length name then CHR ''.'' # ext else [])"

text \<open>
  A file is its name with the parsed JSON or the error of parsing; \<open>bundle_meta\<close> keeps the keys beside
  the runs, per JSON file.
\<close>

fun load_files :: "pandas_api \<Rightarrow> (string \<times> json py) list \<Rightarrow> (frame list \<times> (string \<times> (string, json) dict) list) py" where
  "load_files N [] = Inr ([], [])"
| "load_files N ((p, content) # rest) =
     (if py_lower (path_suffix p) = ''.json'' then
        py_bind content (\<lambda>obj. py_bind (extract_runs obj) (\<lambda>(runs, meta).
          py_bind (load_files N rest) (\<lambda>(frames, metas).
            Inr (set_column ''_source_file'' (\<lambda>_. JStr p) (pn_normalize N runs) # frames, (p, meta) # metas))))
      else if py_lower (path_suffix p) = ''.csv'' then
        py_bind (pn_read_csv N p) (\<lambda>df. py_bind (load_files N rest) (\<lambda>(frames, metas).
          Inr (set_column ''_source_file'' (\<lambda>_. JStr p) df # frames, metas)))
      else load_files N rest)"

definition load_run_bundle :: "pandas_api \<Rightarrow> (string \<times> json py) list \<Rightarrow> (frame \<times> (string \<times> (string, json) dict) list) py" where
  "load_run_bundle N files =
     py_bind (load_files N files) (\<lambda>(frames, metas).
       if frames = [] then Inl (ExnValue ''No usable data found.'') else Inr (pn_concat N frames, metas))"

section \<open>Guessing the columns\<close>

definition pick_first_existing :: "string list \<Rightarrow> string list \<Rightarrow> string option" where
  "pick_first_existing columns candidates = find (\<lambda>c. c \<in> set columns) candidates"

definition first_or_none :: "'a list \<Rightarrow> 'a option" where
  "first_or_none xs = (case xs of [] \<Rightarrow> None | x # _ \<Rightarrow> Some x)"

text \<open>\<open>$\<close> of a regular expression also matches before a final line break.\<close>

definition at_end :: "string \<Rightarrow> string \<Rightarrow> bool" where
  "at_end suf s = (ends_with suf s \<or> ends_with (suf @ [CHR 0x0A]) s)"

definition time_candidates :: "string list" where
  "time_candidates =
     [''timestamp'', ''time'', ''datetime'', ''date'', ''created_at'', ''started_at'', ''completed_at'', ''finished_at'',
      ''createdAt'', ''startedAt'', ''completedAt'', ''server_time'', ''serverTime'',
      ''meta.timestamp'', ''meta.created_at'', ''meta.completed_at'', ''run.timestamp'', ''run.created_at'', ''run.completed_at'']"

definition infer_time_column :: "string list \<Rightarrow> string option" where
  "infer_time_column columns =
     (case pick_first_existing columns time_candidates of
        Some c \<Rightarrow> Some c
      | None \<Rightarrow> first_or_none (filter (\<lambda>c. at_end ''time'' (py_lower c) \<or> at_end ''_at'' (py_lower c)) columns))"

definition target_candidates :: "string list" where
  "target_candidates =
     [''hardware_target'', ''target'', ''backend'', ''provider'', ''device'', ''hardware.target'', ''hardware.backend'', ''hardware.name'',
      ''target.name'', ''target_id'', ''backend_name'', ''provider_target'', ''qpu'', ''qpu_name'']"

definition infer_target_column :: "string list \<Rightarrow> string option" where
  "infer_target_column columns =
     (case pick_first_existing columns target_candidates of
        Some c \<Rightarrow> Some c
      | None \<Rightarrow> first_or_none (filter (\<lambda>c. list_ex (\<lambda>w. py_in w (py_lower c)) [''target'', ''backend'', ''qpu'']) columns))"

definition fidelity_candidates :: "string list" where
  "fidelity_candidates =
     [''kpi_fidelity'', ''fidelity'', ''kpis.fidelity'', ''kpi.fidelity'', ''metrics.fidelity'', ''results.fidelity'',
      ''kpis.fidelity_score'', ''kpis.fidelityScore'']"

definition latency_candidates :: "string list" where
  "latency_candidates =
     [''kpi_latency_ms'', ''latency_ms'', ''latencyMs'', ''kpis.latency_ms'', ''kpis.latencyMs'', ''kpi.latency_ms'',
      ''metrics.latency_ms'', ''results.latency_ms'', ''duration_ms'', ''runtime_ms'', ''execution_time_ms'',
      ''latency'', ''duration'', ''runtime'']"

definition infer_kpi_columns :: "string list \<Rightarrow> string option \<times> string option" where
  "infer_kpi_columns columns = (pick_first_existing columns fidelity_candidates, pick_first_existing columns latency_candidates)"

section \<open>Preparing the frame\<close>

text \<open>The pattern \<open>(\bsec\b|_s$|seconds)\<close>: a word of its own, or part of the name.\<close>

definition word_char :: "char \<Rightarrow> bool" where
  "word_char c = (let n = (of_char c :: nat) in 48 \<le> n \<and> n \<le> 57 \<or> 65 \<le> n \<and> n \<le> 90 \<or> 97 \<le> n \<and> n \<le> 122 \<or> n = 95)"

fun word_runs :: "string \<Rightarrow> string \<Rightarrow> string list" where
  "word_runs acc [] = [acc]"
| "word_runs acc (c # cs) = (if word_char c then word_runs (acc @ [c]) cs else acc # word_runs [] cs)"

definition looks_like_seconds :: "string \<Rightarrow> bool" where
  "looks_like_seconds c =
     (let n = py_lower c in ''sec'' \<in> set (word_runs [] n) \<or> at_end ''_s'' n \<or> py_in ''seconds'' n)"

record column_choice =
  cc_time :: "string option"
  cc_target :: "string option"
  cc_fidelity :: "string option"
  cc_latency :: "string option"

text \<open>The overrides win over the guesses; an empty name counts as none.\<close>

definition or_column :: "string option \<Rightarrow> string option \<Rightarrow> string option" where
  "or_column chosen guess = (if truthy_str chosen then chosen else guess)"

definition choose_columns :: "column_choice \<Rightarrow> string list \<Rightarrow> column_choice" where
  "choose_columns ov columns =
     (case infer_kpi_columns columns of
        (fidelity, latency) \<Rightarrow>
          \<lparr>cc_time = or_column (cc_time ov) (infer_time_column columns), cc_target = or_column (cc_target ov) (infer_target_column columns),
           cc_fidelity = or_column (cc_fidelity ov) fidelity, cc_latency = or_column (cc_latency ov) latency\<rparr>)"

definition on_column :: "string option \<Rightarrow> (string \<Rightarrow> frame \<Rightarrow> frame) \<Rightarrow> frame \<Rightarrow> frame" where
  "on_column c g df = (case c of Some n \<Rightarrow> if n \<noteq> [] \<and> n \<in> set (fr_columns df) then g n df else df | None \<Rightarrow> df)"

definition has_column :: "string option \<Rightarrow> frame \<Rightarrow> bool" where
  "has_column c df = (case c of Some n \<Rightarrow> n \<noteq> [] \<and> n \<in> set (fr_columns df) | None \<Rightarrow> False)"

definition times_1000 :: "json \<Rightarrow> json" where
  "times_1000 j = (case j of JFloat x \<Rightarrow> JFloat (x * 1000) | _ \<Rightarrow> j)"

definition prepare_dataframe :: "pandas_api \<Rightarrow> column_choice \<Rightarrow> frame \<Rightarrow> frame \<times> column_choice \<times> string option" where
  "prepare_dataframe N ov df0 =
     (let ch = choose_columns ov (fr_columns df0);
          numeric = (\<lambda>c. set_column c (\<lambda>row. json_opt JFloat (pn_to_numeric N (cell row c))));
          df1 = on_column (cc_time ch) (\<lambda>c. set_column c (\<lambda>row. json_opt JFloat (pn_to_datetime N (cell row c)))) df0;
          df2 = on_column (cc_latency ch) numeric (on_column (cc_fidelity ch) numeric df1);
          df3 = on_column (cc_fidelity ch) (\<lambda>c. set_column ''kpi_fidelity'' (\<lambda>row. cell row c)) df2;
          df4 = on_column (cc_latency ch) (\<lambda>c. set_column ''kpi_latency_ms''
            (\<lambda>row. if looks_like_seconds c then times_1000 (cell row c) else cell row c)) df3;
          df5 = (if has_column (cc_target ch) df4
            then on_column (cc_target ch) (\<lambda>c. set_column ''hardware_target_canonical'' (\<lambda>row. JStr (pn_text N (cell row c)))) df4
            else set_column ''hardware_target_canonical'' (\<lambda>_. JStr ''unknown'') df4);
          df6 = (if has_column (cc_time ch) df5
            then on_column (cc_time ch) (\<lambda>c. set_column ''timestamp_canonical'' (\<lambda>row. cell row c)) df5
            else set_column ''timestamp_canonical'' (\<lambda>_. JNull) df5);
          units = (if has_column (cc_latency ch) df3
            then Some (if looks_like_seconds (or_str (cc_latency ch) []) then ''s (converted to ms)'' else ''ms (assumed)'') else None) in
      (if list_ex (\<lambda>row. cell row ''timestamp_canonical'' \<noteq> JNull) (fr_rows df6)
       then df6\<lparr>fr_rows := pn_sort_rows N ''timestamp_canonical'' (fr_rows df6)\<rparr> else df6, ch, units))"

text \<open>A latency column that the notebook guesses is never converted from seconds.\<close>

lemma guessed_latency_is_not_seconds:
  "snd (infer_kpi_columns columns) = Some c \<Longrightarrow> \<not> looks_like_seconds c"
proof -
  assume "snd (infer_kpi_columns columns) = Some c"
  then have "c \<in> set latency_candidates" by (auto simp: infer_kpi_columns_def pick_first_existing_def find_Some_iff)
  moreover have "list_all (\<lambda>c. \<not> looks_like_seconds c) latency_candidates" by code_simp
  ultimately show ?thesis by (simp add: list_all_iff)
qed

text \<open>
  The columns of the program's own runs: the fields of \<open>ExperimentSummary\<close> and of its \<open>KpiBundle\<close>, with
  those that may hold objects, whose columns begin with their names. The latency is in microseconds,
  under a name that the notebook does not know.
\<close>

definition summary_columns :: "string list" where
  "summary_columns =
     [''id'', ''preset'', ''hardware_target'', ''created_at'', ''assumptions'', ''qubits_used'', ''kpi_details'', ''kpi_observations'',
      ''error_code'', ''error_message'', ''action_hint'', ''kpis.fidelity'', ''kpis.latency_us'', ''kpis.backaction'',
      ''kpis.shots_used'', ''kpis.shot_budget'', ''kpis.status'']"

definition nested_fields :: "string list" where
  "nested_fields =
     [''shots'', ''measurement'', ''noise'', ''control_profile'', ''physics_contract'', ''error_detail'',
      ''kpis.raw_counts'', ''kpis.expected_distribution'']"

lemma own_runs_have_no_latency:
  assumes "set summary_columns \<subseteq> set columns"
    and "\<forall>c \<in> set columns. c \<in> set summary_columns \<or> (\<exists>f \<in> set nested_fields. take (length f) c = f)"
  shows "infer_kpi_columns columns = (Some ''kpis.fidelity'', None)"
proof -
  let ?known = "\<lambda>c. c \<in> set summary_columns \<or> list_ex (\<lambda>f. take (length f) c = f) nested_fields"
  have k: "c \<in> set columns \<Longrightarrow> ?known c" for c using assms(2) by (auto simp: list_ex_iff)
  have "list_all (\<lambda>c. \<not> ?known c) latency_candidates" by code_simp
  then have "find (\<lambda>c. c \<in> set columns) latency_candidates = None" using k by (auto simp: find_None_iff list_all_iff)
  moreover have "\<not> ?known ''kpi_fidelity''" "\<not> ?known ''fidelity''" by code_simp+
  then have "''kpi_fidelity'' \<notin> set columns" "''fidelity'' \<notin> set columns" using k by blast+
  moreover have "''kpis.fidelity'' \<in> set columns" using assms(1) by (auto simp: summary_columns_def)
  ultimately show ?thesis by (simp add: infer_kpi_columns_def pick_first_existing_def fidelity_candidates_def)
qed

section \<open>The frontier\<close>

type_synonym point = "real \<times> real"

text \<open>\<open>dropna\<close>: the latency and the fidelity of the rows that have both.\<close>

definition complete_points :: "string \<Rightarrow> string \<Rightarrow> frame \<Rightarrow> point list" where
  "complete_points latency_col fidelity_col df =
     concat (map (\<lambda>row. case (cell row latency_col, cell row fidelity_col) of (JFloat l, JFloat f) \<Rightarrow> [(l, f)] | _ \<Rightarrow> []) (fr_rows df))"

text \<open>The loop; \<open>None\<close> is the best fidelity before the first row, minus infinity.\<close>

fun frontier_rows :: "real option \<Rightarrow> point list \<Rightarrow> point list" where
  "frontier_rows best_fid [] = []"
| "frontier_rows best_fid ((lat, fid) # rows) =
     (if (case best_fid of None \<Rightarrow> True | Some b \<Rightarrow> fid > b) then (lat, fid) # frontier_rows (Some fid) rows
      else frontier_rows best_fid rows)"

definition pareto_frontier :: "(point list \<Rightarrow> point list) \<Rightarrow> point list \<Rightarrow> point list" where
  "pareto_frontier sort_values points = (let data = sort_values points in if data = [] then [] else frontier_rows None data)"

definition compute_pareto_frontier :: "(point list \<Rightarrow> point list) \<Rightarrow> frame \<Rightarrow> point list" where
  "compute_pareto_frontier sort_values df = pareto_frontier sort_values (complete_points ''kpi_latency_ms'' ''kpi_fidelity'' df)"

text \<open>The reference: the points that no other point beats.\<close>

definition beats :: "point \<Rightarrow> point \<Rightarrow> bool" where
  "beats q p = (fst q \<le> fst p \<and> snd p \<le> snd q \<and> q \<noteq> p)"

definition unbeaten :: "point set \<Rightarrow> point set" where
  "unbeaten D = {p \<in> D. \<forall>q \<in> D. \<not> beats q p}"

text \<open>What \<open>sort_values\<close> on the latency promises: the same rows, by latency; ties in any order.\<close>

definition sorts_by_latency :: "(point list \<Rightarrow> point list) \<Rightarrow> bool" where
  "sorts_by_latency sort_values = (\<forall>ps. mset (sort_values ps) = mset ps \<and> sorted (map fst (sort_values ps)))"

lemma ex_split_Cons:
  "(\<exists>ys zs. a # rows = ys @ p # zs \<and> P ys) \<longleftrightarrow> p = a \<and> P [] \<or> (\<exists>ys zs. rows = ys @ p # zs \<and> P (a # ys))"
proof
  assume "\<exists>ys zs. a # rows = ys @ p # zs \<and> P ys"
  then obtain ys zs where "a # rows = ys @ p # zs" "P ys" by blast
  then show "p = a \<and> P [] \<or> (\<exists>ys zs. rows = ys @ p # zs \<and> P (a # ys))" by (cases ys) auto
next
  assume "p = a \<and> P [] \<or> (\<exists>ys zs. rows = ys @ p # zs \<and> P (a # ys))"
  then show "\<exists>ys zs. a # rows = ys @ p # zs \<and> P ys"
  proof (elim disjE exE conjE)
    assume "p = a" "P []" then have "a # rows = [] @ p # rows \<and> P []" by simp then show ?thesis by blast
  next
    fix ys zs assume "rows = ys @ p # zs" "P (a # ys)" then have "a # rows = (a # ys) @ p # zs \<and> P (a # ys)" by simp then show ?thesis by blast
  qed
qed

lemma frontier_rows_iff:
  "p \<in> set (frontier_rows best rows) \<longleftrightarrow>
     (\<exists>ys zs. rows = ys @ p # zs \<and> (\<forall>q \<in> set ys. snd q < snd p) \<and> (case best of None \<Rightarrow> True | Some b \<Rightarrow> b < snd p))"
proof (induction best rows rule: frontier_rows.induct)
  case (2 best lat fid rows)
  show ?case
  proof (cases "case best of None \<Rightarrow> True | Some b \<Rightarrow> fid > b")
    case True
    have "p \<in> set (frontier_rows best ((lat, fid) # rows)) \<longleftrightarrow> p = (lat, fid) \<or>
        (\<exists>ys zs. rows = ys @ p # zs \<and> (\<forall>q \<in> set ys. snd q < snd p) \<and> fid < snd p)"
      using 2(1) [OF True] True by auto
    also have "\<dots> \<longleftrightarrow> (\<exists>ys zs. (lat, fid) # rows = ys @ p # zs \<and> (\<forall>q \<in> set ys. snd q < snd p) \<and>
        (case best of None \<Rightarrow> True | Some b \<Rightarrow> b < snd p))"
      using True by (subst ex_split_Cons) (cases best; auto)
    finally show ?thesis .
  next
    case False
    then obtain b where b: "best = Some b" "fid \<le> b" by (cases best) auto
    have "p \<in> set (frontier_rows best ((lat, fid) # rows)) \<longleftrightarrow>
        (\<exists>ys zs. rows = ys @ p # zs \<and> (\<forall>q \<in> set ys. snd q < snd p) \<and> b < snd p)"
      using 2(2) [OF False] False b by simp
    also have "\<dots> \<longleftrightarrow> (\<exists>ys zs. (lat, fid) # rows = ys @ p # zs \<and> (\<forall>q \<in> set ys. snd q < snd p) \<and> b < snd p)"
      using b(2) by (subst ex_split_Cons) auto
    finally show ?thesis using b(1) by simp
  qed
qed simp

lemma frontier_rows_increasing:
  "sorted (map fst rows) \<Longrightarrow> sorted_wrt (\<lambda>p q. fst p \<le> fst q \<and> snd p < snd q) (frontier_rows best rows)"
proof (induction best rows rule: frontier_rows.induct)
  case (2 best lat fid rows)
  have "lat \<le> fst q \<and> fid < snd q" if "q \<in> set (frontier_rows (Some fid) rows)" for q
    using that 2(3) by (auto simp: frontier_rows_iff)
  then show ?case using 2 by auto
qed simp

text \<open>
  C40. The frontier of the notebook contains every point that no other beats, none that a faster
  point beats or equals in fidelity, by strictly rising fidelity; when no two points share a latency
  it is exactly the set of unbeaten points.
\<close>

theorem pareto_frontier_exact:
  assumes "sorts_by_latency sort_values"
  shows "unbeaten (set points) \<subseteq> set (pareto_frontier sort_values points) \<and>
    set (pareto_frontier sort_values points) \<subseteq> {p \<in> set points. \<forall>q \<in> set points. fst q < fst p \<longrightarrow> snd q < snd p} \<and>
    sorted_wrt (\<lambda>p q. fst p \<le> fst q \<and> snd p < snd q) (pareto_frontier sort_values points) \<and>
    (inj_on fst (set points) \<longrightarrow> set (pareto_frontier sort_values points) = unbeaten (set points))"
proof -
  let ?data = "sort_values points" and ?F = "pareto_frontier sort_values points"
  have s: "set ?data = set points" "sorted (map fst ?data)"
    using assms unfolding sorts_by_latency_def by (metis set_mset_mset, blast)
  have F: "?F = frontier_rows None ?data" by (simp add: pareto_frontier_def Let_def)
  have mem: "p \<in> set ?F \<longleftrightarrow> (\<exists>ys zs. ?data = ys @ p # zs \<and> (\<forall>q \<in> set ys. snd q < snd p))" for p
    by (simp add: F frontier_rows_iff)
  have in_F: "p \<in> set ?F" if "p \<in> unbeaten (set points)" for p
  proof -
    have "p \<in> set ?data" using that s(1) by (simp add: unbeaten_def)
    then obtain ys zs where d: "?data = ys @ p # zs" "p \<notin> set ys" by (meson split_list_first)
    have "snd q < snd p" if q: "q \<in> set ys" for q
    proof -
      have "fst q \<le> fst p" using s(2) q by (auto simp: d(1) sorted_append)
      moreover have "q \<in> set points" "q \<noteq> p" using q d s(1) [symmetric] by auto
      ultimately show ?thesis using \<open>p \<in> unbeaten (set points)\<close> by (auto simp: unbeaten_def beats_def not_le)
    qed
    then show ?thesis using d(1) by (auto simp: mem)
  qed
  have not_faster: "p \<in> set points \<and> (\<forall>q \<in> set points. fst q < fst p \<longrightarrow> snd q < snd p)" if pF: "p \<in> set ?F" for p
  proof -
    obtain ys zs where d: "?data = ys @ p # zs" "\<forall>q \<in> set ys. snd q < snd p" using pF mem by blast
    have "q \<in> set ys" if "q \<in> set points" "fst q < fst p" for q
    proof -
      have "q \<in> set (ys @ p # zs)" using that(1) s(1) d(1) by simp
      moreover have "\<forall>r \<in> set (p # zs). fst p \<le> fst r" using s(2) by (auto simp: d(1) sorted_append)
      ultimately show ?thesis using that(2) by (auto simp: not_le [symmetric])
    qed
    then show ?thesis using d s(1) [symmetric] by auto
  qed
  have "p \<in> unbeaten (set points)" if "inj_on fst (set points)" "p \<in> set ?F" for p
  proof -
    have "\<not> beats q p" if q: "q \<in> set points" for q
    proof
      assume b: "beats q p"
      have "fst q = fst p \<Longrightarrow> q = p"
        using inj_onD [OF \<open>inj_on fst (set points)\<close>] q not_faster [OF \<open>p \<in> set ?F\<close>] by blast
      then have "fst q \<noteq> fst p" using b by (auto simp only: beats_def)
      then show False using b q not_faster [OF \<open>p \<in> set ?F\<close>] by (auto simp: beats_def)
    qed
    then show ?thesis using not_faster [OF that(2)] by (simp add: unbeaten_def)
  qed
  then have "inj_on fst (set points) \<longrightarrow> set ?F = unbeaten (set points)" using in_F by blast
  moreover have "unbeaten (set points) \<subseteq> set ?F" using in_F by blast
  moreover have "set ?F \<subseteq> {p \<in> set points. \<forall>q \<in> set points. fst q < fst p \<longrightarrow> snd q < snd p}" using not_faster by blast
  ultimately show ?thesis using frontier_rows_increasing [OF s(2), of None] by (simp add: F)
qed

lemma sort_key_sorts: "sorts_by_latency (sort_key fst)"
  by (simp add: sorts_by_latency_def)

theorem pareto_frontier_exact_witness:
  "set (pareto_frontier (sort_key fst) [(2, 5), (1, 3), (3, 4)]) = unbeaten {(2, 5), (1, 3), (3, 4)}"
  using pareto_frontier_exact [OF sort_key_sorts, of "[(2, 5), (1, 3), (3, 4)]"] by (simp add: inj_on_def)

text \<open>With equal latencies the order of the rows decides: here a beaten point is on the frontier.\<close>

lemma frontier_with_ties:
  "set (pareto_frontier (sort_key fst) [(1, 3), (1, 5)]) = {(1, 3), (1, 5)}" "unbeaten {(1, 3), (1, 5)} = {(1, 5)}"
  by (auto simp: pareto_frontier_def unbeaten_def beats_def)

end
