(* ===== verification/Spec2Isabelle.thy ===== *)
theory Spec2Isabelle
  imports Settings Budget Qubit_Usage Experiment_Store Stats_Kpi Grover Provider_Clients Run_Metrics
    Hardware_Backends Engine Job_Queue Shor_Service Auth_Service Consumer_Api
    Orchestration Run_Queue Worker Api Middleware Metrics_Exporter
    Grover_Circuits Qiskit_Provider Agent_Grover Log_Context Redis_Bus Edge_Identity Api_Health
    Run_Lifecycle Operator_Scripts Grover_Notebook Bundle_Notebook
begin

text \<open>
  A verification development of the SynQc temporal dynamics interface controller: the backend
  (\<open>src/backend/synqc_backend\<close>), the Shor add-on
  (\<open>src/archives/addons/synqc_shor_addon_v2\<close>), the edge middleware of the hosted pack and the Grover
  sandbox (\<open>src/agents/grover\<close>). This theory imports all others and holds no definitions.

  \<^bold>\<open>The program.\<close> A client submits an experiment over HTTP. The middlewares limit and authenticate the
  request, the API checks that the target is allowed and queues the run, either in the process or in
  Redis for worker processes. A worker hands the run to the engine, which reserves shots from the
  session's budget, applies the guardrails, asks a backend (the local simulator or a provider client)
  for KPIs, applies the control profile and stores the record. Beside this path there are agent jobs
  with queues and workers of their own, accounts and tokens, metrics, and the RSA and factoring demo.

  \<^bold>\<open>Shared theories.\<close>
  \<^item> \<open>Synqc_Prelude\<close>: Python dictionaries in insertion order, optional values and truth values, slices,
    strings and their methods, JSON values, files; the collections \<open>dict_simps\<close> and \<open>wf_intros\<close>.
  \<^item> \<open>Step_Machine\<close>: runs of labelled step relations and the locale \<open>step_machine\<close> (invariant and preorder
    along every run), interpreted on the job queue, the agents and the run queue.
  \<^item> \<open>Redis_Kv\<close>, \<open>Redis_Data\<close>: the Redis servers as records of commands with laws.
  \<^item> \<open>Base64\<close>, \<open>Prime_Moduli\<close>: URL-safe base64, and the number theory that RSA needs.

  \<^bold>\<open>Data and settings.\<close> \<open>Control_Profiles\<close> (\<open>control_profiles.py\<close>), \<open>Physics_Contract\<close>
  (\<open>physics_contract.py\<close>, \<open>physics_definitions.py\<close>, \<open>physics_router.py\<close>), \<open>Models\<close> (\<open>models.py\<close>; also
  the exceptions of all components as the datatype \<open>py_exn\<close> and the result type \<open>py\<close>), \<open>Settings\<close>
  (\<open>settings.py\<close>, \<open>config.py\<close>).

  \<^bold>\<open>Running an experiment.\<close>
  \<^item> \<open>Budget\<close> (\<open>budget.py\<close>): the tracker in memory and its Lua script in Redis. The locale \<open>shot_ledger\<close>
    states the contract; the cap holds for both, and the two refine the same ledger.
  \<^item> \<open>Qubit_Usage\<close> (\<open>qubit_usage.py\<close>), \<open>Experiment_Store\<close> (\<open>storage.py\<close>): the store keeps exactly the newest
    runs and a file shared by processes round-trips.
  \<^item> \<open>Stats_Kpi\<close> (\<open>stats.py\<close>, \<open>kpi_estimators.py\<close>), \<open>Grover\<close> (\<open>grover.py\<close>, \<open>grover_utils.py\<close>: planning,
    estimates and the search loops), \<open>Provider_Clients\<close> (\<open>provider_clients.py\<close>, \<open>qiskit_provider.py\<close>),
    \<open>Run_Metrics\<close> (\<open>metrics_recorder.py\<close>), \<open>Hardware_Backends\<close> (\<open>hardware_backends.py\<close>, \<open>providers\<close>).
  \<^item> \<open>Engine\<close> (\<open>engine.py\<close>): one function per step and the whole run. The guardrails let a request
    through exactly when it is affordable, the record agrees with what the backend returned, and a
    run on the local simulator succeeds.
  \<^item> \<open>Job_Queue\<close> (\<open>jobs.py\<close>): every section under the lock is a step, interleaved freely with the timers
    and the thread pool. \<open>Run_Queue\<close> (\<open>run_queue.py\<close>) and \<open>Worker\<close> (\<open>worker.py\<close>): the queue in Redis with
    the commands and transactions of submissions and workers interleaved, what its counters count
    (exact but for the runs between the two writes of \<open>mark_running\<close>), and the worker as a refinement
    of its steps.
    \<open>Run_Lifecycle\<close> puts API, queue and worker together: what polling answers for a processed run, for
    ever.
  \<^item> \<open>Orchestration\<close> (\<open>orchestration\<close>, \<open>agents/multicall.py\<close>): polled calls under a deadline, workflows.

  \<^bold>\<open>Circuits.\<close> \<open>Grover_Circuits\<close>: the circuit builders of \<open>grover.py\<close>, \<open>grover_utils.py\<close>,
  \<open>agents/grover.py\<close> and \<open>qiskit_provider.py\<close> gate for gate. A circuit is a value of a type parameter;
  \<open>circuit_laws\<close> says what its gates do to real amplitudes over sets of qubits. The locale \<open>amplifier\<close>
  is the contract of an iteration and gives the success probability; it is interpreted on three of
  the circuits. \<open>Qiskit_Provider\<close> composes circuit, execution and client, \<open>Agent_Grover\<close> is the agent.

  \<^bold>\<open>The service.\<close>
  \<^item> \<open>Api\<close>, \<open>Api_Health\<close> (\<open>api.py\<close>): keys and sessions, which submissions are accepted, polling, the chat
    proxy and its sliding window, the health payload; \<open>Middleware\<close> (\<open>middleware.py\<close>): the four
    middlewares and their order; \<open>Edge_Identity\<close>; \<open>Metrics_Exporter\<close> (\<open>metrics.py\<close>); \<open>Log_Context\<close>
    (\<open>logging_utils.py\<close>) with overlapping requests; \<open>Redis_Bus\<close> (\<open>redis_bus.py\<close>, \<open>redis_client.py\<close>).
  \<^item> \<open>Auth_Security\<close>, \<open>Auth_Store\<close>, \<open>Auth_Service\<close> (\<open>auth\<close>): hashes and tokens, the SQLite store with its
    pooled connections and their transactions, principals and routes.
  \<^item> \<open>Agent_Jobs\<close>, \<open>Agent_Worker\<close>, \<open>Consumer_Api\<close> (\<open>job_store.py\<close>, \<open>queueing.py\<close>, \<open>worker_service.py\<close>,
    \<open>agents\<close>, \<open>consumer_api.py\<close>, \<open>bench_store.py\<close>): over every interleaving of single Redis commands no
    job is lost and an ended job stays; submissions with the same key are the same job. The steps
    leave out the sandbox, which is off by default: a job it has run is run again
    (\<open>sandboxed_job_runs_again\<close>).
  \<^item> \<open>Shor_Rsa\<close>, \<open>Shor_Factor\<close>, \<open>Shor_Service\<close> (the add-on): key generation and decryption, Miller-Rabin,
    classical factoring and the facade over Qiskit, the run log and the routes.

  \<^bold>\<open>Around the service.\<close> \<open>Operator_Scripts\<close> (\<open>load_test.py\<close>, \<open>quickstart_health_check.py\<close>,
  \<open>audit_agents.py\<close>, \<open>healthcheck.py\<close>, \<open>redis_healthcheck.py\<close>): the tools and their verdicts, on the
  server's own health payload; \<open>Grover_Notebook\<close>, of which nothing runs because of its own guards, and
  \<open>Bundle_Notebook\<close>, the frontier of runs against its definition.

  \<^bold>\<open>Conventions.\<close> Python's \<open>int\<close> is \<open>int\<close>; \<open>float\<close> is \<open>real\<close>, without rounding, infinities or NaN, except
  where a text of a number is read back, which is a named hypothesis. Redis counters and Lua numbers
  keep their width where it matters (64 bits, \<open>lua_num\<close>). Characters are 8 bits wide. An exception is
  the left summand of \<open>py\<close>; the state is passed on in the failing branches as well. Names that clash
  with Isabelle's carry a prefix or suffix; the functions of \<open>grover_utils.py\<close> have the prefix \<open>u_\<close>.

  \<^bold>\<open>Loops.\<close> No fuel is used (the number in \<open>worker_runs\<close> counts commands of a loop-free function): loops that end are recursive functions with a measure (\<open>search_loop\<close>, the
  Qiskit client's loop, \<open>replay\<close>). Loops that may run for ever are partial functions into \<open>option\<close>
  (\<open>u_search_loop\<close>, \<open>scaling_search\<close>, Pollard's rho, the key and prime searches, the polling loops), and the
  theorems say when they return and when they do not. The timeout of a worker is modelled by whether
  and when the call ends.

  \<^bold>\<open>Parameters.\<close> Code outside the repository is an argument of the definitions, and what is relied on is
  a named hypothesis with a concrete instance in the witnesses: the Redis servers (\<open>redis_kv_laws\<close>,
  \<open>redis_laws\<close>, \<open>counter_laws\<close>), Qiskit and Aer (\<open>circuit_laws\<close>, \<open>ideal_device\<close>), \<open>random\<close> and
  \<open>secrets\<close> (\<open>rng_laws\<close>, \<open>secrets_ok\<close>), \<open>hashlib\<close> (\<open>digests_ok\<close>), the conversion of requests and results to
  text and back (\<open>codec_ok\<close>, \<open>codec_reads_back\<close>), pandas (\<open>sorts_by_latency\<close>), the clock, the OpenAI endpoint, child processes, and
  the settings objects that the garbage collector of the process tracks.

  \<^bold>\<open>Simplifications.\<close> Fields that only carry prose (descriptions, the action hints of some errors, details
  that repeat the code) are left out where a comment says so. The rate counters of the middleware do
  not expire within their minute. Locks are atomic sections. In the steps of the Redis queues a worker
  that is killed, a connection that fails and a key that expires while a job is held do not happen.

  \<^bold>\<open>Not modelled.\<close> The durable spool of \<open>jobs.py\<close>: it imports a class its module does not define, so its
  branch never runs. The first \<open>_execute\<close> and \<open>_run_grover_energy_search\<close> of \<open>qiskit_provider.py\<close>, which
  are overridden and unreachable. Writing log lines, the Prometheus registries and their threads, the
  FastAPI application object and its documentation pages; the plots and printing demos of the
  notebooks, the command line arguments and the output of the tools, the generator of a random secret,
  the vendored HTTP fallback, packaging, the web console, deployment files and tests: they hold no
  logic of the service or are code of third parties.
\<close>

end
